(* ===== verification/Prelude.thy ===== *)
theory Prelude
  imports Complex_Main
begin

text \<open>
  Shared vocabulary of the development: the result types of fallible and state-changing
  operations, Python's decimal rendering of integers, tables as lists of rows with a key, and
  the list lemmas the components use.
\<close>

section \<open>Outcomes\<close>

text \<open>
  A fallible operation that leaves the state alone returns \<open>'e + 'a\<close>, with \<open>Inl\<close> for the
  exception. An operation that may change the state before it raises returns the exception or
  value together with the state it leaves behind.
\<close>

type_synonym ('e, 'a, 's) outcome = "('e + 'a) \<times> 's"

abbreviation failed :: "'e + 'a \<Rightarrow> bool" where
  "failed r \<equiv> (case r of Inl _ \<Rightarrow> True | Inr _ \<Rightarrow> False)"

abbreviation succeeded :: "'e + 'a \<Rightarrow> bool" where
  "succeeded r \<equiv> (case r of Inl _ \<Rightarrow> False | Inr _ \<Rightarrow> True)"

named_theorems op_defs \<open>definitions of the operations, unfolded in step lemmas\<close>
named_theorems frame \<open>fields an operation leaves unchanged\<close>
named_theorems wf_pres \<open>preservation of a component's well-formedness\<close>

text \<open>\<open>str.split\<close> with a one-character separator.\<close>

fun split_on :: "char \<Rightarrow> string \<Rightarrow> string list" where
  "split_on d [] = [[]]"
| "split_on d (c # cs) =
     (if c = d then [] # split_on d cs
      else (case split_on d cs of [] \<Rightarrow> [[c]] | p # ps \<Rightarrow> (c # p) # ps))"

section \<open>Python integers as text\<close>

fun digits_of :: "nat \<Rightarrow> string" where
  "digits_of n = (if n < 10 then [char_of (48 + n)]
                  else digits_of (n div 10) @ [char_of (48 + n mod 10)])"

declare digits_of.simps [simp del]

definition py_str_int :: "int \<Rightarrow> string" where
  "py_str_int i = (if i < 0 then CHR ''-'' # digits_of (nat (- i)) else digits_of (nat i))"

lemma digits_of_not_Nil: "digits_of n \<noteq> []"
  by (subst digits_of.simps) simp

lemma char_of_digit_inj:
  assumes "(a::nat) < 10" "b < 10" "(char_of (48 + a) :: char) = char_of (48 + b)"
  shows "a = b"
proof -
  from assms(3) have "(of_char (char_of (48 + a) :: char) :: nat) = of_char (char_of (48 + b) :: char)"
    by simp
  with assms(1,2) show ?thesis by (simp add: of_char_of)
qed

lemma digits_of_inj: "digits_of m = digits_of n \<Longrightarrow> m = n"
proof (induction m arbitrary: n rule: digits_of.induct)
  case (1 m)
  have last: "m mod 10 = n mod 10"
  proof -
    have "last (digits_of m) = char_of (48 + m mod 10)" for m :: nat
      by (subst digits_of.simps) auto
    with "1.prems" show ?thesis
      by (metis char_of_digit_inj mod_less_divisor zero_less_numeral)
  qed
  have but: "butlast (digits_of k) = (if k < 10 then [] else digits_of (k div 10))" for k :: nat
    by (subst digits_of.simps) auto
  show ?case
  proof (cases "m < 10")
    case True
    with but [of m] but [of n] "1.prems" digits_of_not_Nil have "n < 10"
      by (metis (full_types))
    with True last show ?thesis by simp
  next
    case False
    with but [of m] but [of n] "1.prems" digits_of_not_Nil have n: "\<not> n < 10"
      by (metis (full_types))
    from False n but [of m] but [of n] "1.prems" have "digits_of (m div 10) = digits_of (n div 10)"
      by simp
    from "1.IH" [OF False this] have "m div 10 = n div 10" .
    with last show ?thesis by (metis div_mult_mod_eq)
  qed
qed

section \<open>Upper case\<close>

text \<open>\<open>str.upper\<close> on ASCII letters.\<close>

definition upper_char :: "char \<Rightarrow> char" where
  "upper_char c = (let n = of_char c :: nat in if 97 \<le> n \<and> n \<le> 122 then char_of (n - 32) else c)"

section \<open>Lists and tables\<close>

lemma find_map_key:
  assumes "\<And>r. key (f r) = key r"
  shows "find (\<lambda>r. key r = k) (map f rs) = map_option f (find (\<lambda>r. key r = k) rs)"
  using assms by (induction rs) auto

lemma find_append:
  "find P (xs @ ys) = (case find P xs of None \<Rightarrow> find P ys | Some x \<Rightarrow> Some x)"
  by (induction xs) auto

lemma find_SomeD: "find P xs = Some x \<Longrightarrow> x \<in> set xs \<and> P x"
  by (auto simp: find_Some_iff)

lemma find_NoneD: "find P xs = None \<Longrightarrow> x \<in> set xs \<Longrightarrow> \<not> P x"
  by (simp add: find_None_iff)

lemma find_key_unique:
  assumes "distinct (map key rs)" and "r \<in> set rs" and "key r = k"
  shows "find (\<lambda>r. key r = k) rs = Some r"
  using assms by (induction rs) (auto simp: image_iff)

lemma upto_snoc: "a \<le> b + 1 \<Longrightarrow> [a..b + 1] = [a..b] @ [b + 1 :: int]"
  by (subst upto_rec2) auto

lemma last_upto: "a \<le> b \<Longrightarrow> last [a..b :: int] = b"
  by (subst upto_rec2) auto

lemma sorted_last_max: "sorted xs \<Longrightarrow> x \<in> set xs \<Longrightarrow> x \<le> last xs"
  by (induction xs) auto

lemma sorted_upto_int: "sorted [a..b :: int]"
  by simp

lemma upto_eq_Nil_conv: "[a..b :: int] = [] \<longleftrightarrow> b < a"
  by (metis not_le upto_Nil2)

section \<open>Invariants of runs\<close>

text \<open>
  A component is a step relation, or operations that callers apply in any order; what one step preserves
  holds after every run.
\<close>

locale step_invariant =
  fixes step :: "'s \<Rightarrow> 's \<Rightarrow> bool" and inv :: "'s \<Rightarrow> bool"
  assumes preserved: "step s s' \<Longrightarrow> inv s \<Longrightarrow> inv s'"
begin

lemma run: "step\<^sup>*\<^sup>* s s' \<Longrightarrow> inv s \<Longrightarrow> inv s'"
  by (induction rule: rtranclp_induct) (auto intro: preserved)

end

locale guarded_runs =
  fixes act :: "'a \<Rightarrow> 's \<Rightarrow> 's" and ok :: "'a \<Rightarrow> bool" and inv :: "'s \<Rightarrow> bool"
  assumes act_inv: "ok a \<Longrightarrow> inv s \<Longrightarrow> inv (act a s)"
begin

lemma run_inv: "list_all ok acts \<Longrightarrow> inv s \<Longrightarrow> inv (fold act acts s)"
  by (induction acts arbitrary: s) (auto intro: act_inv)

end

text \<open>Runs that only ever move up in a reflexive and transitive order.\<close>

locale monotone_runs = guarded_runs +
  fixes le :: "'s \<Rightarrow> 's \<Rightarrow> bool"
  assumes le_refl: "le s s" and le_trans: "le s t \<Longrightarrow> le t u \<Longrightarrow> le s u"
    and act_le: "ok a \<Longrightarrow> inv s \<Longrightarrow> le s (act a s)"
begin

lemma run_le: "list_all ok acts \<Longrightarrow> inv s \<Longrightarrow> le s (fold act acts s)"
proof (induction acts arbitrary: s)
  case (Cons a acts)
  then have "le s (act a s)" "le (act a s) (fold act acts (act a s))" by (simp_all add: act_le act_inv)
  then show ?case using le_trans by simp
qed (simp add: le_refl)

end

end
