(* ===== verification/PyJson.thy ===== *)
theory PyJson
  imports Prelude "HOL-Library.List_Lexorder" "HOL-Library.Char_ord"
begin

text \<open>
  JSON values as Python's \<open>json.loads\<close> returns them, the conversions \<open>int(x)\<close> and \<open>str(x)\<close> the
  program applies to them, and the canonical serialisation
  \<open>json.dumps(x, sort_keys=True, separators=(",", ":"))\<close> that the audit chain and the request
  signatures hash. A character stands for a code point below 256. The main result is that the
  canonical text determines the value.
\<close>

section \<open>Values\<close>

datatype pyfloat = Finite rat | PosInf | NegInf | NaN

text \<open>A float carries the text \<open>repr\<close> gives for it. The keys of an object are distinct.\<close>

datatype json =
    JNull | JBool bool | JInt int | JFloat pyfloat string | JStr string
  | JArr "json list" | JObj "(string \<times> json) list"

fun obj_get :: "json \<Rightarrow> string \<Rightarrow> json option" where
  "obj_get (JObj kvs) k = map_of kvs k"
| "obj_get _ _ = None"

section \<open>Conversions\<close>

datatype conv_error = ConvType | ConvValue | ConvOverflow

definition is_space :: "char \<Rightarrow> bool" where
  "is_space c \<longleftrightarrow> of_char c \<in> {9, 10, 11, 12, 13, 28, 29, 30, 31, 32, 133, 160 :: nat}"

text \<open>\<open>str(x or "").strip()\<close> is non-empty: the text holds a character that is not white space.\<close>

definition nonblank :: "string \<Rightarrow> bool" where
  "nonblank s \<longleftrightarrow> list_ex (\<lambda>c. \<not> is_space c) s"

definition strip :: "string \<Rightarrow> string" where
  "strip s = rev (dropWhile is_space (rev (dropWhile is_space s)))"

definition digit_val :: "char \<Rightarrow> nat option" where
  "digit_val c = (if 48 \<le> (of_char c :: nat) \<and> (of_char c :: nat) \<le> 57
                  then Some (of_char c - 48) else None)"

text \<open>Digits, with single underscores between them as Python's \<open>int\<close> allows.\<close>

fun digits_and_underscores :: "nat \<Rightarrow> string \<Rightarrow> nat option" where
  "digits_and_underscores acc [] = Some acc"
| "digits_and_underscores acc (c # cs) =
     (case digit_val c of
        Some d \<Rightarrow> digits_and_underscores (10 * acc + d) cs
      | None \<Rightarrow>
          (case cs of
             [] \<Rightarrow> None
           | c' # cs' \<Rightarrow>
               (if c \<noteq> CHR ''_'' then None
                else case digit_val c' of
                  None \<Rightarrow> None
                | Some d \<Rightarrow> digits_and_underscores (10 * acc + d) cs')))"

text \<open>A text of more than 4300 digits is refused.\<close>

definition py_digits :: "string \<Rightarrow> nat option" where
  "py_digits s =
     (case s of
        [] \<Rightarrow> None
      | c # cs \<Rightarrow>
          (if digit_val c = None \<or> 4300 < length (filter (\<lambda>c. c \<noteq> CHR ''_'') s) then None
           else digits_and_underscores 0 s))"

definition py_int_of_string :: "string \<Rightarrow> int option" where
  "py_int_of_string s =
     (case strip s of
        [] \<Rightarrow> None
      | c # cs \<Rightarrow>
          if c = CHR ''-'' then map_option (\<lambda>n. - int n) (py_digits cs)
          else if c = CHR ''+'' then map_option int (py_digits cs)
          else map_option int (py_digits (c # cs)))"

fun py_int :: "json \<Rightarrow> conv_error + int" where
  "py_int (JBool b) = Inr (if b then 1 else 0)"
| "py_int (JInt i) = Inr i"
| "py_int (JFloat (Finite r) _) = Inr (if r < 0 then \<lceil>r\<rceil> else \<lfloor>r\<rfloor>)"
| "py_int (JFloat NaN _) = Inl ConvValue"
| "py_int (JFloat PosInf _) = Inl ConvOverflow"
| "py_int (JFloat NegInf _) = Inl ConvOverflow"
| "py_int (JStr s) = (case py_int_of_string s of None \<Rightarrow> Inl ConvValue | Some i \<Rightarrow> Inr i)"
| "py_int _ = Inl ConvType"

definition hex_digit :: "nat \<Rightarrow> char" where
  "hex_digit n = char_of (if n < 10 then 48 + n else 87 + n)"

text \<open>\<open>repr\<close> of a text and of a value; \<open>str\<close> differs from it on texts only.\<close>

definition repr_char :: "char \<Rightarrow> char \<Rightarrow> string" where
  "repr_char q c =
     (let n = of_char c :: nat in
      if c = q \<or> n = 92 then [CHR 0x5C, c]
      else if n = 9 then [CHR 0x5C, CHR ''t'']
      else if n = 10 then [CHR 0x5C, CHR ''n'']
      else if n = 13 then [CHR 0x5C, CHR ''r'']
      else if n < 32 \<or> (127 \<le> n \<and> n \<le> 160) \<or> n = 173
      then [CHR 0x5C, CHR ''x'', hex_digit (n div 16), hex_digit (n mod 16)]
      else [c])"

definition repr_string :: "string \<Rightarrow> string" where
  "repr_string s =
     (let q = (if CHR 0x27 \<in> set s \<and> CHR 0x22 \<notin> set s then CHR 0x22 else CHR 0x27)
      in [q] @ concat (map (repr_char q) s) @ [q])"

fun join_with :: "string \<Rightarrow> string list \<Rightarrow> string" where
  "join_with sep [] = []"
| "join_with sep [x] = x"
| "join_with sep (x # y # ys) = x @ sep @ join_with sep (y # ys)"

fun py_repr :: "json \<Rightarrow> string" where
  "py_repr JNull = ''None''"
| "py_repr (JBool b) = (if b then ''True'' else ''False'')"
| "py_repr (JInt i) = py_str_int i"
| "py_repr (JFloat x t) = t"
| "py_repr (JStr s) = repr_string s"
| "py_repr (JArr xs) = ''['' @ join_with '', '' (map py_repr xs) @ '']''"
| "py_repr (JObj kvs) =
     ''{'' @ join_with '', '' (map (\<lambda>(k, v). repr_string k @ '': '' @ py_repr v) kvs) @ ''}''"

fun py_str :: "json \<Rightarrow> string" where
  "py_str (JStr s) = s"
| "py_str v = py_repr v"

section \<open>Canonical serialisation\<close>

text \<open>The escapes of \<open>ensure_ascii\<close>: quote, backslash, and everything outside space to tilde.\<close>

definition json_escape :: "char \<Rightarrow> string" where
  "json_escape c =
     (let n = of_char c :: nat in
      if n = 34 \<or> n = 92 then [CHR 0x5C, c]
      else if n = 8 then [CHR 0x5C, CHR ''b'']
      else if n = 9 then [CHR 0x5C, CHR ''t'']
      else if n = 10 then [CHR 0x5C, CHR ''n'']
      else if n = 12 then [CHR 0x5C, CHR ''f'']
      else if n = 13 then [CHR 0x5C, CHR ''r'']
      else if n < 32 \<or> 126 < n
      then [CHR 0x5C, CHR ''u'', CHR ''0'', CHR ''0'', hex_digit (n div 16), hex_digit (n mod 16)]
      else [c])"

definition json_string :: "string \<Rightarrow> string" where
  "json_string s = CHR 0x22 # concat (map json_escape s) @ [CHR 0x22]"

fun json_render :: "json \<Rightarrow> string" where
  "json_render JNull = ''null''"
| "json_render (JBool b) = (if b then ''true'' else ''false'')"
| "json_render (JInt i) = py_str_int i"
| "json_render (JFloat x t) = t"
| "json_render (JStr s) = json_string s"
| "json_render (JArr xs) = ''['' @ join_with '','' (map json_render xs) @ '']''"
| "json_render (JObj kvs) =
     ''{'' @ join_with '','' (map (\<lambda>(k, v). json_string k @ '':'' @ json_render v) kvs) @ ''}''"

text \<open>\<open>sort_keys=True\<close>, at every level.\<close>

fun json_canon :: "json \<Rightarrow> json" where
  "json_canon (JArr xs) = JArr (map json_canon xs)"
| "json_canon (JObj kvs) = JObj (sort_key fst (map (\<lambda>(k, v). (k, json_canon v)) kvs))"
| "json_canon v = v"

definition json_dumps :: "json \<Rightarrow> string" where
  "json_dumps v = json_render (json_canon v)"

section \<open>The canonical text determines the value\<close>

lemma of_char_nat_inj: "(of_char c :: nat) = of_char d \<Longrightarrow> c = d"
  by (metis char_of_char)

lemma of_char_hex_digit: "k < 16 \<Longrightarrow> (of_char (hex_digit k) :: nat) = (if k < 10 then 48 + k else 87 + k)"
  by (simp add: hex_digit_def of_char_of)

lemma hex_digit_inj:
  assumes "m < 16" "n < 16" "hex_digit m = hex_digit n"
  shows "m = n"
proof -
  from assms(3) have "(of_char (hex_digit m) :: nat) = of_char (hex_digit n)" by simp
  then show ?thesis
    unfolding of_char_hex_digit [OF assms(1)] of_char_hex_digit [OF assms(2)]
    using assms(1,2) by (simp split: if_splits)
qed

lemma of_char_bound: "(of_char c :: nat) < 256"
  by (metis of_char_of char_of_char mod_less_divisor zero_less_numeral)

text \<open>The escape classes: one plain character, a two-character escape, or a hexadecimal one.\<close>

definition short_escape :: "char \<Rightarrow> char option" where
  "short_escape c = map_of [(34, CHR 0x22), (92, CHR 0x5C), (8, CHR ''b''), (9, CHR ''t''),
     (10, CHR ''n''), (12, CHR ''f''), (13, CHR ''r'')] (of_char c :: nat)"

definition long_escape :: "char \<Rightarrow> bool" where
  "long_escape c \<longleftrightarrow> (of_char c :: nat) < 32 \<or> 126 < (of_char c :: nat)"

lemma json_escape_cases:
  "json_escape c =
     (case short_escape c of
        Some e \<Rightarrow> [CHR 0x5C, e]
      | None \<Rightarrow> if long_escape c
          then [CHR 0x5C, CHR ''u'', CHR ''0'', CHR ''0'', hex_digit (of_char c div 16), hex_digit (of_char c mod 16)]
          else [c])"
proof -
  have "of_char c = (34::nat) \<Longrightarrow> c = CHR 0x22" "of_char c = (92::nat) \<Longrightarrow> c = CHR 0x5C"
    by (rule of_char_nat_inj, simp)+
  then show ?thesis by (auto simp: json_escape_def Let_def short_escape_def long_escape_def)
qed

lemma short_escape_inj: "short_escape c = Some e \<Longrightarrow> short_escape d = Some e \<Longrightarrow> c = d"
  by (auto simp: short_escape_def intro: of_char_nat_inj split: if_splits)

lemma short_escape_not_u: "short_escape c = Some e \<Longrightarrow> e \<noteq> CHR ''u''"
  by (auto simp: short_escape_def split: if_splits)

lemma plain_not_special:
  "short_escape c = None \<Longrightarrow> \<not> long_escape c \<Longrightarrow> c \<noteq> CHR 0x5C \<and> c \<noteq> CHR 0x22"
  by (auto simp: short_escape_def long_escape_def)

lemma json_escape_form:
  obtains (short) e where "json_escape c = [CHR 0x5C, e]" "short_escape c = Some e" "e \<noteq> CHR ''u''"
  | (long) "json_escape c = [CHR 0x5C, CHR ''u'', CHR ''0'', CHR ''0'', hex_digit (of_char c div 16),
      hex_digit (of_char c mod 16)]"
  | (plain) "json_escape c = [c]" "c \<noteq> CHR 0x5C" "c \<noteq> CHR 0x22"
proof (cases "short_escape c")
  case (Some e)
  with short short_escape_not_u show ?thesis by (simp add: json_escape_cases)
next
  case None
  with long plain plain_not_special show ?thesis by (cases "long_escape c") (simp_all add: json_escape_cases)
qed

lemma long_escape_inj:
  assumes "hex_digit (of_char c div 16) = hex_digit (of_char d div 16)"
    and "hex_digit (of_char c mod 16) = hex_digit (of_char d mod 16)"
  shows "c = d"
proof -
  have b: "(of_char x :: nat) div 16 < 16" for x :: char
    by (rule less_mult_imp_div_less) (use of_char_bound [of x] in simp)
  from hex_digit_inj [OF b b assms(1)] hex_digit_inj [OF _ _ assms(2)]
  have "(of_char c :: nat) = of_char d" by (metis div_mult_mod_eq mod_less_divisor zero_less_numeral)
  then show ?thesis by (rule of_char_nat_inj)
qed

lemma json_escape_prefix:
  assumes "json_escape c @ u = json_escape d @ v"
  shows "c = d \<and> u = v"
proof (cases rule: json_escape_form [of c])
  case c: (short e)
  show ?thesis
  proof (cases rule: json_escape_form [of d])
    case d: (short e')
    from assms c(1) d(1) have "e = e'" "u = v" by simp_all
    with short_escape_inj [OF c(2)] d(2) show ?thesis by simp
  qed (use assms c in simp_all)
next
  case c: long
  show ?thesis
  proof (cases rule: json_escape_form [of d])
    case d: long
    from assms have "hex_digit (of_char c div 16) = hex_digit (of_char d div 16) \<and>
      hex_digit (of_char c mod 16) = hex_digit (of_char d mod 16) \<and> u = v"
      unfolding c d by (simp only: append.simps list.inject simp_thms)
    then show ?thesis using long_escape_inj [of c d] by blast
  qed (use assms c in simp_all)
next
  case c: plain
  show ?thesis
    by (cases rule: json_escape_form [of d]) (use assms c in simp_all)
qed

lemma json_escape_not_quote: "json_escape c @ u \<noteq> CHR 0x22 # v"
  by (cases rule: json_escape_form [of c]) auto

lemma json_chars_prefix:
  "concat (map json_escape s) @ CHR 0x22 # r = concat (map json_escape t) @ CHR 0x22 # r' \<Longrightarrow>
   s = t \<and> r = r'"
proof (induction s arbitrary: t)
  case Nil
  then show ?case
    by (cases t) (use json_escape_not_quote in \<open>auto dest!: sym [of "CHR 0x22 # _"]\<close>)
next
  case (Cons c s)
  show ?case
  proof (cases t)
    case Nil
    with Cons.prems show ?thesis by (auto simp: json_escape_not_quote)
  next
    case (Cons d t')
    with Cons.prems have "json_escape c @ concat (map json_escape s) @ CHR 0x22 # r =
        json_escape d @ concat (map json_escape t') @ CHR 0x22 # r'" by simp
    from json_escape_prefix [OF this] Cons.IH [of t'] Cons show ?thesis by simp
  qed
qed

lemma json_string_prefix: "json_string s @ r = json_string t @ r' \<Longrightarrow> s = t \<and> r = r'"
  unfolding json_string_def by (rule json_chars_prefix) simp

definition is_digit :: "char \<Rightarrow> bool" where
  "is_digit c \<longleftrightarrow> 48 \<le> (of_char c :: nat) \<and> (of_char c :: nat) \<le> 57"

text \<open>A text that does not continue a number.\<close>

definition number_ends :: "string \<Rightarrow> bool" where
  "number_ends r \<longleftrightarrow> (case r of [] \<Rightarrow> True | c # _ \<Rightarrow> \<not> is_digit c)"

lemma is_digit_char_of: "(n::nat) < 10 \<Longrightarrow> is_digit (char_of (48 + n))"
  by (simp add: is_digit_def of_char_of)

lemma digits_of_digits: "list_all is_digit (digits_of n)"
  by (induction n rule: digits_of.induct)
    (subst digits_of.simps, simp add: is_digit_char_of)

lemma take_digits:
  "list_all is_digit ds \<Longrightarrow> number_ends r \<Longrightarrow> takeWhile is_digit (ds @ r) = ds"
  by (induction ds) (auto simp: number_ends_def split: list.splits)

lemma digits_of_prefix:
  assumes "digits_of m @ r = digits_of n @ r'" "number_ends r" "number_ends r'"
  shows "m = n \<and> r = r'"
proof -
  from assms have "digits_of m = digits_of n"
    by (metis take_digits digits_of_digits)
  with assms(1) show ?thesis using digits_of_inj by auto
qed

lemma digits_of_hd: "digits_of n @ r = c # x \<Longrightarrow> is_digit c"
  using digits_of_digits [of n] digits_of_not_Nil [of n] by (cases "digits_of n") auto

lemma is_digit_minus: "\<not> is_digit CHR ''-''"
  by (simp add: is_digit_def)

lemma digits_of_not_minus: "digits_of n @ r \<noteq> CHR ''-'' # x"
  using digits_of_hd [of n r "CHR ''-''" x] is_digit_minus by blast

lemma py_str_int_prefix:
  assumes e: "py_str_int i @ r = py_str_int j @ r'" and r: "number_ends r" "number_ends r'"
  shows "i = j \<and> r = r'"
proof (cases "i < 0")
  case True
  have j: "j < 0"
    using e True digits_of_not_minus [of "nat j" r', THEN not_sym] by (cases "j < 0") (auto simp: py_str_int_def)
  with e True have "digits_of (nat (- i)) @ r = digits_of (nat (- j)) @ r'"
    by (simp add: py_str_int_def)
  from digits_of_prefix [OF this r] True j show ?thesis
    using eq_nat_nat_iff [of "- i" "- j"] by simp
next
  case False
  have j: "\<not> j < 0"
    using e False digits_of_not_minus [of "nat i" r] by (cases "j < 0") (auto simp: py_str_int_def)
  with e False have "digits_of (nat i) @ r = digits_of (nat j) @ r'"
    by (simp add: py_str_int_def)
  from digits_of_prefix [OF this r] False j show ?thesis
    using eq_nat_nat_iff [of i j] by simp
qed

lemma py_str_int_hd: "py_str_int i @ r = c # x \<Longrightarrow> is_digit c \<or> c = CHR ''-''"
  by (auto simp: py_str_int_def dest: digits_of_hd split: if_splits)

text \<open>A serialised value starts with a character that tells its kind.\<close>

fun float_free :: "json \<Rightarrow> bool" where
  "float_free (JFloat _ _) = False"
| "float_free (JArr xs) = list_all float_free xs"
| "float_free (JObj kvs) = list_all (\<lambda>(k, v). float_free v) kvs"
| "float_free _ = True"

fun kind_char :: "json \<Rightarrow> char \<Rightarrow> bool" where
  "kind_char JNull c = (c = CHR ''n'')"
| "kind_char (JBool b) c = (c = (if b then CHR ''t'' else CHR ''f''))"
| "kind_char (JInt _) c = (is_digit c \<or> c = CHR ''-'')"
| "kind_char (JStr _) c = (c = CHR 0x22)"
| "kind_char (JArr _) c = (c = CHR ''['')"
| "kind_char (JObj _) c = (c = CHR ''{'')"
| "kind_char (JFloat _ _) c = False"

lemma render_kind: "float_free v \<Longrightarrow> json_render v @ r = c # x \<Longrightarrow> kind_char v c"
  by (cases v) (auto simp: json_string_def dest: py_str_int_hd)

lemma render_not_Nil: "float_free v \<Longrightarrow> json_render v \<noteq> []"
  by (cases v) (auto simp: json_string_def py_str_int_def digits_of_not_Nil)

lemma same_kind:
  assumes "kind_char v c" "kind_char w c"
  shows "(v = JNull \<longleftrightarrow> w = JNull) \<and> (\<forall>b. v = JBool b \<longleftrightarrow> w = JBool b) \<and>
    ((\<exists>i. v = JInt i) \<longleftrightarrow> (\<exists>i. w = JInt i)) \<and> ((\<exists>s. v = JStr s) \<longleftrightarrow> (\<exists>s. w = JStr s)) \<and>
    ((\<exists>xs. v = JArr xs) \<longleftrightarrow> (\<exists>xs. w = JArr xs)) \<and> ((\<exists>xs. v = JObj xs) \<longleftrightarrow> (\<exists>xs. w = JObj xs))"
  using assms by (cases v; cases w) (auto simp: is_digit_def split: if_splits)

lemma join_with_Cons: "join_with sep (x # xs) = x @ concat (map (\<lambda>y. sep @ y) xs)"
  by (induction xs arbitrary: x) simp_all

text \<open>Lists of items with a prefix property, separated by commas and closed by a bracket.\<close>

definition item_prefix :: "('a \<Rightarrow> string) \<Rightarrow> ('a \<Rightarrow> bool) \<Rightarrow> 'a \<Rightarrow> bool" where
  "item_prefix f ok x \<longleftrightarrow>
     (\<forall>y r r'. ok y \<longrightarrow> number_ends r \<longrightarrow> number_ends r' \<longrightarrow> f x @ r = f y @ r' \<longrightarrow> x = y \<and> r = r')"

lemma number_ends_close: "c = CHR '']'' \<or> c = CHR ''}'' \<Longrightarrow> number_ends (c # r)"
  by (auto simp: number_ends_def is_digit_def)

lemma number_ends_tail:
  "c = CHR '']'' \<or> c = CHR ''}'' \<Longrightarrow>
   number_ends (concat (map (\<lambda>x. '','' @ f x) xs) @ c # r)"
  by (cases xs) (auto simp: number_ends_def is_digit_def)

lemma tail_prefix:
  assumes c: "c = CHR '']'' \<or> c = CHR ''}''"
    and "\<forall>x \<in> set xs. item_prefix f ok x" "list_all ok ys"
    and "concat (map (\<lambda>x. '','' @ f x) xs) @ c # r = concat (map (\<lambda>x. '','' @ f x) ys) @ c # r'"
  shows "xs = ys \<and> r = r'"
  using assms(2-)
proof (induction xs arbitrary: ys)
  case Nil
  then show ?case using c by (cases ys) auto
next
  case (Cons x xs)
  then obtain y ys' where ys: "ys = y # ys'" using c by (cases ys) auto
  let ?t = "\<lambda>zs. concat (map (\<lambda>z. '','' @ f z) zs)"
  from Cons.prems ys have "f x @ (?t xs @ c # r) = f y @ (?t ys' @ c # r')" by simp
  moreover have "item_prefix f ok x" "ok y" using Cons.prems(1,2) ys by simp_all
  ultimately have "x = y \<and> ?t xs @ c # r = ?t ys' @ c # r'"
    unfolding item_prefix_def using number_ends_tail [OF c] by blast
  moreover from this have "xs = ys' \<and> r = r'" using Cons.IH [of ys'] Cons.prems(1,2) ys by auto
  ultimately show ?case using ys by simp
qed

lemma items_prefix:
  assumes c: "c = CHR '']'' \<or> c = CHR ''}''"
    and xs: "\<forall>x \<in> set xs. item_prefix f ok x" and ys: "list_all ok ys"
    and hd: "\<And>x u v. ok x \<Longrightarrow> f x @ u \<noteq> c # v" and ok: "list_all ok xs"
    and e: "join_with '','' (map f xs) @ c # r = join_with '','' (map f ys) @ c # r'"
  shows "xs = ys \<and> r = r'"
proof (cases xs)
  case Nil
  with e hd ys show ?thesis
    by (cases ys) (auto simp: join_with_Cons dest!: sym [of "c # _"])
next
  case x: (Cons x xs')
  show ?thesis
  proof (cases ys)
    case Nil
    with e hd ok x show ?thesis by (auto simp: join_with_Cons)
  next
    case y: (Cons y ys')
    let ?t = "\<lambda>zs. concat (map (\<lambda>z. '','' @ f z) zs)"
    from e x y have eq: "f x @ (?t xs' @ c # r) = f y @ (?t ys' @ c # r')"
      by (simp add: join_with_Cons comp_def)
    moreover have "item_prefix f ok x" using xs x by simp
    moreover have "ok y" using ys y by simp
    ultimately have "x = y \<and> ?t xs' @ c # r = ?t ys' @ c # r'"
      unfolding item_prefix_def using number_ends_tail [OF c] by blast
    with tail_prefix [OF c, of xs' f ok ys' r r'] xs ys x y show ?thesis by simp
  qed
qed

lemma json_render_prefix:
  "float_free v \<Longrightarrow> item_prefix json_render float_free v"
proof (induction v)
  case (JArr xs)
  show ?case unfolding item_prefix_def
  proof (intro allI impI)
    fix w r r' assume w: "float_free w" and e: "json_render (JArr xs) @ r = json_render w @ r'"
    then have "kind_char w CHR ''[''" by (auto intro: render_kind [of w r'] dest: sym)
    then obtain ys where y: "w = JArr ys" by (cases w) (auto simp: is_digit_def split: if_splits)
    have "xs = ys \<and> r = r'"
    proof (rule items_prefix [of "CHR '']''" xs json_render float_free ys])
      show "\<forall>x \<in> set xs. item_prefix json_render float_free x"
        using JArr by (simp add: list_all_iff)
      show "json_render x @ u \<noteq> CHR '']'' # v" if "float_free x" for x u v
        using render_kind [OF that, of u "CHR '']''" v] by (cases x) (auto simp: is_digit_def split: if_splits)
    qed (use w e y JArr.prems in simp_all)
    with y show "JArr xs = w \<and> r = r'" by simp
  qed
next
  case (JObj kvs)
  let ?f = "\<lambda>(k, v). json_string k @ '':'' @ json_render v" and ?ok = "\<lambda>(k :: string, v). float_free v"
  show ?case unfolding item_prefix_def
  proof (intro allI impI)
    fix w r r' assume w: "float_free w" and e: "json_render (JObj kvs) @ r = json_render w @ r'"
    then have "kind_char w CHR ''{''" by (auto intro: render_kind [of w r'] dest: sym)
    then obtain ys where y: "w = JObj ys" by (cases w) (auto simp: is_digit_def split: if_splits)
    have i: "item_prefix ?f ?ok (k, v)" if "(k, v) \<in> set kvs" for k v
    proof -
      from that JObj have "item_prefix json_render float_free v" by (force simp: list_all_iff)
      then show ?thesis unfolding item_prefix_def
        by (auto dest!: json_string_prefix)
    qed
    have "kvs = ys \<and> r = r'"
    proof (rule items_prefix [of "CHR ''}''" kvs ?f ?ok ys])
      show "\<forall>x \<in> set kvs. item_prefix ?f ?ok x" using i by auto
      show "?f x @ u \<noteq> CHR ''}'' # v" for x u v
        by (cases x) (simp add: json_string_def)
    qed (use w e y JObj.prems in simp_all)
    with y show "JObj kvs = w \<and> r = r'" by simp
  qed
next
  case (JBool b)
  show ?case unfolding item_prefix_def
  proof (intro allI impI)
    fix w r r' assume w: "float_free w" and e: "json_render (JBool b) @ r = json_render w @ r'"
    then have "kind_char w (if b then CHR ''t'' else CHR ''f'')"
      by (auto intro: render_kind [of w r'] dest: sym split: if_splits)
    then have "w = JBool b" by (cases w) (auto simp: is_digit_def split: if_splits)
    with e show "JBool b = w \<and> r = r'" by (simp split: if_splits)
  qed
next
  case (JInt i)
  show ?case unfolding item_prefix_def
  proof (intro allI impI)
    fix w r r' assume n: "number_ends r" "number_ends r'" and w: "float_free w"
      and e: "json_render (JInt i) @ r = json_render w @ r'"
    obtain c x where c: "json_render (JInt i) @ r = c # x"
      using render_not_Nil [of "JInt i"] by (cases "json_render (JInt i)") auto
    have "kind_char (JInt i) c" by (rule render_kind [OF _ c]) simp
    moreover have "kind_char w c" using render_kind [OF w] c e by metis
    ultimately obtain j where j: "w = JInt j" using same_kind by blast
    with e n show "JInt i = w \<and> r = r'" using py_str_int_prefix [of i r j r'] by simp
  qed
next
  case (JStr s)
  show ?case unfolding item_prefix_def
  proof (intro allI impI)
    fix w r r' assume w: "float_free w" and e: "json_render (JStr s) @ r = json_render w @ r'"
    then have "kind_char w CHR 0x22"
      by (auto intro: render_kind [of w r'] dest: sym simp: json_string_def)
    then obtain t where t: "w = JStr t" by (cases w) (auto simp: is_digit_def split: if_splits)
    with e show "JStr s = w \<and> r = r'" using json_string_prefix [of s r t r'] by simp
  qed
next
  case JNull
  show ?case unfolding item_prefix_def
  proof (intro allI impI)
    fix w r r' assume w: "float_free w" and e: "json_render JNull @ r = json_render w @ r'"
    then have "kind_char w CHR ''n''" by (auto intro: render_kind [of w r'] dest: sym)
    then have "w = JNull" by (cases w) (auto simp: is_digit_def split: if_splits)
    with e show "JNull = w \<and> r = r'" by simp
  qed
qed simp

lemma json_render_inj:
  assumes "float_free v" "float_free w" "json_render v = json_render w"
  shows "v = w"
proof -
  have "number_ends []" by (simp add: number_ends_def)
  with json_render_prefix [OF assms(1)] assms(2,3) show ?thesis
    unfolding item_prefix_def by (metis append_Nil2)
qed

lemma float_free_canon: "float_free (json_canon v) = float_free v"
proof (induction v)
  case (JObj kvs)
  have "float_free (json_canon (snd x)) = float_free (snd x)" if "x \<in> set kvs" for x
    using that by (intro JObj) (auto simp: snds.simps prod_eq_iff)
  then show ?case by (simp add: list_all_iff case_prod_beta)
qed (simp_all add: list_all_iff)

text \<open>
  Two float-free values have the same canonical text exactly when they agree up to the order of
  object keys.
\<close>

lemma json_dumps_inj:
  "float_free v \<Longrightarrow> float_free w \<Longrightarrow> json_dumps v = json_dumps w \<longleftrightarrow> json_canon v = json_canon w"
  unfolding json_dumps_def using json_render_inj [of "json_canon v" "json_canon w"]
  by (auto simp: float_free_canon)

text \<open>Objects with the same keys in the same order have equal canonical forms field by field.\<close>

lemma json_canon_fields:
  assumes e: "json_canon (JObj a) = json_canon (JObj b)"
    and k: "map fst a = map fst b" and d: "distinct (map fst a)"
  shows "map (json_canon \<circ> snd) a = map (json_canon \<circ> snd) b"
proof -
  let ?c = "\<lambda>(k :: string, v). (k, json_canon v)"
  from e have "set (sort_key fst (map ?c a)) = set (sort_key fst (map ?c b))"
    by simp
  then have s: "set (map ?c a) = set (map ?c b)" by (simp only: set_sort)
  have f: "map fst (map ?c xs) = map fst xs" for xs by (simp add: case_prod_beta)
  have da: "distinct (map fst (map ?c a))" and db: "distinct (map fst (map ?c b))"
    unfolding f using k d by simp_all
  from s map_of_inject_set [OF da db] have m: "map_of (map ?c a) = map_of (map ?c b)" by simp
  show ?thesis
  proof (rule nth_equalityI)
    show "length (map (json_canon \<circ> snd) a) = length (map (json_canon \<circ> snd) b)"
      using k by (metis length_map)
  next
    fix i assume "i < length (map (json_canon \<circ> snd) a)"
    then have i: "i < length a" "i < length b" using k by (simp, metis length_map)
    have n: "map_of (map ?c xs) (fst (xs ! i)) = Some (json_canon (snd (xs ! i)))"
      if "distinct (map fst (map ?c xs))" "i < length xs" for xs
      using that by (intro map_of_is_SomeI) (auto simp: image_iff case_prod_beta intro!: bexI [of _ "xs ! i"])
    from k i have "fst (a ! i) = fst (b ! i)" by (metis nth_map)
    with n [OF da i(1)] n [OF db i(2)] m i
    show "map (json_canon \<circ> snd) a ! i = map (json_canon \<circ> snd) b ! i" by simp
  qed
qed

end
