(* ===== verification/SlotTables.thy ===== *)
theory SlotTables
  imports PyJson
begin

text \<open>
  The tables of the durable slot store of the Windows provisioning agent
  (\<^verbatim>\<open>deploy/beta-agent/stores.py\<close>, class \<open>SlotStore\<close>): which runtime occupies which
  pre-provisioned slot, the generation ledger, operation sequencing with its evidence, quarantine,
  the allocation block and the forward-linked audit chain. Every SQLite table is the list of its
  rows in insertion order; a method that may write before it raises returns an \<open>outcome\<close>.
  \<open>sha\<close> stands for the hexadecimal SHA-256 digest of a text.
\<close>

section \<open>Errors and tables\<close>

datatype store_error =
    PoolExhausted
  | AuditChainCorrupt string
  | AllocationBlocked string
  | ReleaseProofMissing "string list"
  | QuarantineClearanceRefused string
  | SlotIntegrityError
  | EvidenceIncomplete string
  | StoreValueError string
  | SqliteIntegrityError
  | UncaughtOverflow

record slot_row =
  row_slot :: int
  row_runtime :: "string option"
  row_generation :: int
  row_assigned_at :: "int option"

record gen_row =
  gen_slot :: int
  gen_generation :: int
  gen_event :: string
  gen_at :: int

record quarantine_row =
  qr_slot :: int
  qr_reason :: string
  qr_at :: int
  qr_occupancy_id :: "string option"
  qr_generation :: "int option"

record audit_material =
  am_event :: string
  am_runtime_uuid :: string
  am_slot :: int
  am_generation :: int
  am_occupancy_id :: string
  am_operation :: string
  am_provisioning_job_id :: "int option"
  am_correlation_id :: string
  am_prior_state :: string
  am_resulting_state :: string
  am_integrity_outcome :: string
  am_quarantined :: bool
  am_agent_version :: string
  am_manifest_version :: string
  am_protocol_version :: "int option"
  am_at :: int

record audit_row =
  au_material :: audit_material
  au_previous_hash :: string
  au_hash :: string

record seq_row =
  sq_slot :: int
  sq_generation :: int
  sq_number :: int
  sq_operation :: string
  sq_at :: int

record evidence_row =
  ev_slot :: int
  ev_generation :: int
  ev_number :: int
  ev_operation :: string
  ev_stage_status :: string
  ev_failure_category :: string
  ev_reason_code :: string
  ev_digest :: string
  ev_at :: int

record slot_store =
  pool_size :: int
  slots_tbl :: "slot_row list"
  generations_tbl :: "gen_row list"
  quarantine_tbl :: "quarantine_row list"
  audit_tbl :: "audit_row list"
  sequence_tbl :: "seq_row list"
  evidence_tbl :: "evidence_row list"
  allocation_block :: "(string \<times> int) option"

definition generation_start :: int where
  "generation_start = 1"

definition new_slot_store :: "int \<Rightarrow> store_error + slot_store" where
  "new_slot_store n =
     (if n < 1 then Inl (StoreValueError ''pool_size must be >= 1'')
      else Inr \<lparr>pool_size = n, slots_tbl = [], generations_tbl = [], quarantine_tbl = [],
                audit_tbl = [], sequence_tbl = [], evidence_tbl = [], allocation_block = None\<rparr>)"

text \<open>Identifier of one occupancy: the first 16 hex digits of the digest of the pair.\<close>

definition occupancy_id :: "(string \<Rightarrow> string) \<Rightarrow> int \<Rightarrow> int \<Rightarrow> string" where
  "occupancy_id sha slot generation =
     take 16 (sha (''slot='' @ py_str_int slot @ ''|generation='' @ py_str_int generation))"

end
