(* ===== verification/SlotAudit.thy ===== *)
theory SlotAudit
  imports SlotTables
begin

text \<open>
  The evidence side of the slot store (\<^verbatim>\<open>deploy/beta-agent/stores.py\<close>): the
  forward-linked audit chain, the per-occupancy operation sequence and the stage evidence.
\<close>

section \<open>The audit chain\<close>

text \<open>The material of a record, as the dictionary the chain hash serialises.\<close>

definition opt_int :: "int option \<Rightarrow> json" where
  "opt_int x = (case x of None \<Rightarrow> JNull | Some i \<Rightarrow> JInt i)"

definition audit_json :: "audit_material \<Rightarrow> json" where
  "audit_json m = JObj
     [(''event'', JStr (am_event m)), (''runtime_uuid'', JStr (am_runtime_uuid m)),
      (''slot'', JInt (am_slot m)), (''generation'', JInt (am_generation m)),
      (''occupancy_id'', JStr (am_occupancy_id m)), (''operation'', JStr (am_operation m)),
      (''provisioning_job_id'', opt_int (am_provisioning_job_id m)),
      (''correlation_id'', JStr (am_correlation_id m)), (''prior_state'', JStr (am_prior_state m)),
      (''resulting_state'', JStr (am_resulting_state m)),
      (''integrity_outcome'', JStr (am_integrity_outcome m)),
      (''quarantined'', JBool (am_quarantined m)), (''agent_version'', JStr (am_agent_version m)),
      (''manifest_version'', JStr (am_manifest_version m)),
      (''protocol_version'', opt_int (am_protocol_version m)), (''at'', JInt (am_at m))]"

text \<open>
  \<open>_chain_hash\<close>: the digest of the previous link, a bar and the canonical JSON of the record.
\<close>

definition chain_hash :: "(string \<Rightarrow> string) \<Rightarrow> string \<Rightarrow> audit_material \<Rightarrow> string" where
  "chain_hash sha prev m = sha (prev @ ''|'' @ json_dumps (audit_json m))"

definition audit_genesis :: string where
  "audit_genesis = ''genesis''"

definition audit_events :: "string list" where
  "audit_events =
     [''slot_assigned'', ''materialise_started'', ''materialise_completed'', ''runtime_started'',
      ''verification_completed'', ''stop_requested'', ''stop_completed'', ''tombstone_completed'',
      ''slot_released'', ''integrity_mismatch'', ''slot_quarantined'', ''quarantine_cleared'']"

text \<open>The hash of the newest audit row, or the genesis link.\<close>

definition audit_head :: "audit_row list \<Rightarrow> string" where
  "audit_head rows = (if rows = [] then audit_genesis else au_hash (last rows))"

text \<open>
  \<open>record_audit\<close>; the argument carries everything but the occupancy identity, which the method
  computes. Slot and generation are \<open>option\<close>: the method refuses a missing one.
\<close>

definition record_audit ::
  "(string \<Rightarrow> string) \<Rightarrow> audit_material \<Rightarrow> int option \<Rightarrow> int option \<Rightarrow>
   slot_store \<Rightarrow> (store_error, unit, slot_store) outcome" where
  "record_audit sha m slot generation st =
     (if am_event m \<notin> set audit_events
      then (Inl (StoreValueError (''unknown audit event: '' @ am_event m)), st)
      else case (slot, generation) of
        (Some s, Some g) \<Rightarrow>
          (let prev = audit_head (audit_tbl st);
               mat = m\<lparr>am_slot := s, am_generation := g, am_occupancy_id := occupancy_id sha s g\<rparr>;
               row = \<lparr>au_material = mat, au_previous_hash = prev, au_hash = chain_hash sha prev mat\<rparr>
           in (Inr (), st\<lparr>audit_tbl := audit_tbl st @ [row]\<rparr>))
      | _ \<Rightarrow> (Inl (StoreValueError
               ''audit events require both slot and generation (occupancy identity)''), st))"

text \<open>The walk of \<open>verify_audit_chain\<close>: the expected previous link and the row's own hash.\<close>

fun verify_rows ::
  "(string \<Rightarrow> string) \<Rightarrow> string \<Rightarrow> audit_row list \<Rightarrow> store_error + unit" where
  "verify_rows sha expected [] = Inr ()"
| "verify_rows sha expected (r # rs) =
     (if au_previous_hash r \<noteq> expected then Inl (AuditChainCorrupt ''broken link'')
      else if chain_hash sha (au_previous_hash r) (au_material r) \<noteq> au_hash r
      then Inl (AuditChainCorrupt ''content mismatch'')
      else verify_rows sha (au_hash r) rs)"

text \<open>On success the method reports the status \<open>VALID\<close> and the number of records.\<close>

definition verify_audit_chain ::
  "(string \<Rightarrow> string) \<Rightarrow> slot_store \<Rightarrow> store_error + nat" where
  "verify_audit_chain sha st =
     (case verify_rows sha audit_genesis (audit_tbl st) of
        Inl e \<Rightarrow> Inl e | Inr _ \<Rightarrow> Inr (length (audit_tbl st)))"

definition audit_for_occupancy :: "slot_store \<Rightarrow> int \<Rightarrow> int \<Rightarrow> audit_material list" where
  "audit_for_occupancy st s g =
     filter (\<lambda>m. am_slot m = s \<and> am_generation m = g) (map au_material (audit_tbl st))"

section \<open>Operation sequence and stage evidence\<close>

definition sequence_for_occupancy :: "slot_store \<Rightarrow> int \<Rightarrow> int \<Rightarrow> seq_row list" where
  "sequence_for_occupancy st s g =
     sort_key sq_number (filter (\<lambda>r. sq_slot r = s \<and> sq_generation r = g) (sequence_tbl st))"

text \<open>\<open>(MAX(sequence_number) or 0) + 1\<close> over the rows of the occupancy.\<close>

definition next_sequence :: "slot_store \<Rightarrow> int \<Rightarrow> int \<Rightarrow> int" where
  "next_sequence st s g =
     (case map sq_number (filter (\<lambda>r. sq_slot r = s \<and> sq_generation r = g) (sequence_tbl st)) of
        [] \<Rightarrow> 1 | n # ns \<Rightarrow> fold max ns n + 1)"

definition append_sequence :: "int \<Rightarrow> int \<Rightarrow> string \<Rightarrow> int \<Rightarrow> slot_store \<Rightarrow> slot_store" where
  "append_sequence s g oper now st =
     st\<lparr>sequence_tbl := sequence_tbl st @
         [\<lparr>sq_slot = s, sq_generation = g, sq_number = next_sequence st s g,
           sq_operation = oper, sq_at = now\<rparr>]\<rparr>"

definition record_sequence :: "int \<Rightarrow> int \<Rightarrow> string \<Rightarrow> int \<Rightarrow> slot_store \<Rightarrow> int \<times> slot_store" where
  "record_sequence s g oper now st = (next_sequence st s g, append_sequence s g oper now st)"

definition assert_sequence_valid :: "slot_store \<Rightarrow> int \<Rightarrow> int \<Rightarrow> store_error + unit" where
  "assert_sequence_valid st s g =
     (let ns = map sq_number (sequence_for_occupancy st s g)
      in if ns \<noteq> [1..int (length ns)] then Inl SlotIntegrityError else Inr ())"

record attestation =
  at_evidence_digest :: string
  at_stage_status :: string
  at_failure_category :: string
  at_reason_code :: string

definition evidence_at :: "slot_store \<Rightarrow> int \<Rightarrow> int \<Rightarrow> int \<Rightarrow> evidence_row option" where
  "evidence_at st s g n =
     find (\<lambda>e. ev_slot e = s \<and> ev_generation e = g \<and> ev_number e = n) (evidence_tbl st)"

text \<open>
  \<open>record_stage\<close>: sequence row and evidence row in one transaction. The evidence row's primary key
  is the sequence position; a clash raises with the sequence row already written: the open
  transaction is neither committed nor rolled back, and the next commit of the connection keeps it.
\<close>

definition record_stage ::
  "int \<Rightarrow> int \<Rightarrow> string \<Rightarrow> attestation \<Rightarrow> int \<Rightarrow> slot_store \<Rightarrow> (store_error, int, slot_store) outcome" where
  "record_stage s g oper att now st =
     (if at_evidence_digest att = '''' then (Inl (EvidenceIncomplete oper), st)
      else let n = next_sequence st s g in
        if evidence_at st s g n \<noteq> None
        then (Inl SqliteIntegrityError, append_sequence s g oper now st)
        else (Inr n,
              (append_sequence s g oper now st)
                \<lparr>evidence_tbl := evidence_tbl st @
                   [\<lparr>ev_slot = s, ev_generation = g, ev_number = n, ev_operation = oper,
                     ev_stage_status = at_stage_status att,
                     ev_failure_category = at_failure_category att,
                     ev_reason_code = at_reason_code att,
                     ev_digest = at_evidence_digest att, ev_at = now\<rparr>]\<rparr>))"

definition stage_evidence_for_occupancy :: "slot_store \<Rightarrow> int \<Rightarrow> int \<Rightarrow> evidence_row list" where
  "stage_evidence_for_occupancy st s g =
     sort_key ev_number (filter (\<lambda>e. ev_slot e = s \<and> ev_generation e = g) (evidence_tbl st))"

definition evidence_covers :: "evidence_row list \<Rightarrow> seq_row \<Rightarrow> bool" where
  "evidence_covers evs q \<longleftrightarrow>
     (case find (\<lambda>e. ev_number e = sq_number q) evs of
        None \<Rightarrow> False
      | Some e \<Rightarrow> ev_digest e \<noteq> '''' \<and> ev_operation e = sq_operation q)"

definition assert_evidence_complete :: "slot_store \<Rightarrow> int \<Rightarrow> int \<Rightarrow> store_error + unit" where
  "assert_evidence_complete st s g =
     (case assert_sequence_valid st s g of
        Inl e \<Rightarrow> Inl e
      | Inr _ \<Rightarrow>
          (let qs = sequence_for_occupancy st s g; evs = stage_evidence_for_occupancy st s g
           in if \<not> list_all (evidence_covers evs) qs then Inl SlotIntegrityError
              else if \<not> list_all (\<lambda>e. ev_number e \<in> set (map sq_number qs)) evs
              then Inl SlotIntegrityError
              else Inr ()))"

end
