(* ===== verification/SlotStore.thy ===== *)
theory SlotStore
  imports SlotAudit
begin

text \<open>
  The slot store of the Windows provisioning agent (\<^verbatim>\<open>deploy/beta-agent/stores.py\<close>,
  class \<open>SlotStore\<close>): assignment of the lowest free slot, release with its generation ledger,
  quarantine, the allocation block and the integrity gate. The second half proves the
  well-formedness of the tables, the meaning of assignment and release, and that an occupancy
  (slot, generation) never names two runtimes.
\<close>

section \<open>Assignment\<close>

definition find_slot :: "slot_store \<Rightarrow> int \<Rightarrow> slot_row option" where
  "find_slot st s = find (\<lambda>r. row_slot r = s) (slots_tbl st)"

definition find_runtime :: "slot_store \<Rightarrow> string \<Rightarrow> slot_row option" where
  "find_runtime st u = find (\<lambda>r. row_runtime r = Some u) (slots_tbl st)"

definition slot_lookup :: "slot_store \<Rightarrow> string \<Rightarrow> (int \<times> int) option" where
  "slot_lookup st u = map_option (\<lambda>r. (row_slot r, row_generation r)) (find_runtime st u)"

definition update_slot :: "int \<Rightarrow> (slot_row \<Rightarrow> slot_row) \<Rightarrow> slot_store \<Rightarrow> slot_store" where
  "update_slot s f st =
     st\<lparr>slots_tbl := map (\<lambda>r. if row_slot r = s then f r else r) (slots_tbl st)\<rparr>"

definition ledger_has :: "slot_store \<Rightarrow> int \<Rightarrow> int \<Rightarrow> bool" where
  "ledger_has st s g \<longleftrightarrow>
     list_ex (\<lambda>r. gen_slot r = s \<and> gen_generation r = g) (generations_tbl st)"

text \<open>\<open>INSERT OR IGNORE INTO slot_generations\<close>, whose primary key is (slot, generation).\<close>

definition ledger_insert_or_ignore :: "int \<Rightarrow> int \<Rightarrow> string \<Rightarrow> int \<Rightarrow> slot_store \<Rightarrow> slot_store" where
  "ledger_insert_or_ignore s g ev now st =
     (if ledger_has st s g then st
      else st\<lparr>generations_tbl := generations_tbl st @
               [\<lparr>gen_slot = s, gen_generation = g, gen_event = ev, gen_at = now\<rparr>]\<rparr>)"

text \<open>Taking a slot that is not occupied: reuse its free row, or create its first row.\<close>

definition claim_slot ::
  "string \<Rightarrow> int \<Rightarrow> int \<Rightarrow> slot_store \<Rightarrow> int \<times> slot_store" where
  "claim_slot u now s st =
     (case find_slot st s of
        Some r \<Rightarrow>
          (row_generation r,
           update_slot s (\<lambda>r. r\<lparr>row_runtime := Some u, row_assigned_at := Some now\<rparr>) st)
      | None \<Rightarrow>
          (generation_start,
           ledger_insert_or_ignore s generation_start ''init'' now
             (st\<lparr>slots_tbl := slots_tbl st @
                  [\<lparr>row_slot = s, row_runtime = Some u, row_generation = generation_start,
                    row_assigned_at = Some now\<rparr>]\<rparr>)))"

definition slot_occupied :: "slot_store \<Rightarrow> int \<Rightarrow> bool" where
  "slot_occupied st s \<longleftrightarrow>
     (case find_slot st s of None \<Rightarrow> False | Some r \<Rightarrow> row_runtime r \<noteq> None)"

text \<open>The \<open>for slot in range(1, pool_size + 1)\<close> loop of \<open>assign\<close>.\<close>

fun assign_scan ::
  "string \<Rightarrow> int \<Rightarrow> int list \<Rightarrow> slot_store \<Rightarrow> (store_error, int \<times> int, slot_store) outcome" where
  "assign_scan u now [] st = (Inl PoolExhausted, st)"
| "assign_scan u now (s # ss) st =
     (if slot_occupied st s then assign_scan u now ss st
      else (let (g, st') = claim_slot u now s st in (Inr (s, g), st')))"

text \<open>\<open>allocation_blocked\<close>: the stored reason, if the block row exists.\<close>

definition allocation_blocked :: "slot_store \<Rightarrow> string option" where
  "allocation_blocked st = map_option fst (allocation_block st)"

definition truthy :: "string option \<Rightarrow> bool" where
  "truthy x \<longleftrightarrow> (case x of None \<Rightarrow> False | Some s \<Rightarrow> s \<noteq> '''')"

definition slot_assign ::
  "string \<Rightarrow> int \<Rightarrow> slot_store \<Rightarrow> (store_error, int \<times> int, slot_store) outcome" where
  "slot_assign u now st =
     (if truthy (allocation_blocked st)
      then (Inl (AllocationBlocked (the (allocation_blocked st))), st)
      else (case slot_lookup st u of
              Some sg \<Rightarrow> (Inr sg, st)
            | None \<Rightarrow> assign_scan u now [1..pool_size st] st))"

definition slot_release :: "string \<Rightarrow> int \<Rightarrow> slot_store \<Rightarrow> bool \<times> slot_store" where
  "slot_release u now st =
     (case find_runtime st u of
        None \<Rightarrow> (False, st)
      | Some r \<Rightarrow>
          (True,
           ledger_insert_or_ignore (row_slot r) (row_generation r + 1) ''release'' now
             (update_slot (row_slot r)
                (\<lambda>x. x\<lparr>row_runtime := None, row_assigned_at := None,
                        row_generation := row_generation r + 1\<rparr>) st)))"

definition generation_of :: "slot_store \<Rightarrow> int \<Rightarrow> int option" where
  "generation_of st s = map_option row_generation (find_slot st s)"

definition occupancy :: "slot_store \<Rightarrow> (int \<times> string \<times> int) list" where
  "occupancy st =
     sort_key fst (List.map_filter
       (\<lambda>r. map_option (\<lambda>u. (row_slot r, u, row_generation r)) (row_runtime r)) (slots_tbl st))"

section \<open>Quarantine and the allocation block\<close>

definition quarantine_slot ::
  "(string \<Rightarrow> string) \<Rightarrow> int \<Rightarrow> string \<Rightarrow> int \<Rightarrow> slot_store \<Rightarrow> slot_store" where
  "quarantine_slot sha s reason now st =
     (let gen = generation_of st s
      in st\<lparr>quarantine_tbl := filter (\<lambda>q. qr_slot q \<noteq> s) (quarantine_tbl st) @
             [\<lparr>qr_slot = s, qr_reason = take 64 reason, qr_at = now,
               qr_occupancy_id = map_option (occupancy_id sha s) gen, qr_generation = gen\<rparr>]\<rparr>)"

definition is_quarantined :: "slot_store \<Rightarrow> int \<Rightarrow> bool" where
  "is_quarantined st s \<longleftrightarrow> list_ex (\<lambda>q. qr_slot q = s) (quarantine_tbl st)"

definition quarantined_slots :: "slot_store \<Rightarrow> (int \<times> string \<times> string option) list" where
  "quarantined_slots st =
     sort_key fst (map (\<lambda>q. (qr_slot q, qr_reason q, qr_occupancy_id q)) (quarantine_tbl st))"

definition block_allocation :: "string \<Rightarrow> int \<Rightarrow> slot_store \<Rightarrow> slot_store" where
  "block_allocation reason now st = st\<lparr>allocation_block := Some (take 96 reason, now)\<rparr>"

definition clear_allocation_block ::
  "string \<Rightarrow> string \<Rightarrow> slot_store \<Rightarrow> (store_error, unit, slot_store) outcome" where
  "clear_allocation_block operator_identity evidence_reference st =
     (if \<not> nonblank operator_identity \<or> \<not> nonblank evidence_reference
      then (Inl (QuarantineClearanceRefused
                   ''operator_identity and evidence_reference are required''), st)
      else (Inr (), st\<lparr>allocation_block := None\<rparr>))"

section \<open>The integrity gate\<close>

text \<open>The generations the ledger holds for a slot, \<open>ORDER BY generation\<close>.\<close>

definition ledger_generations :: "slot_store \<Rightarrow> int \<Rightarrow> int list" where
  "ledger_generations st s =
     sort (map gen_generation (filter (\<lambda>r. gen_slot r = s) (generations_tbl st)))"

definition assert_generation_monotonic :: "slot_store \<Rightarrow> int \<Rightarrow> int \<Rightarrow> store_error + unit" where
  "assert_generation_monotonic st s expected =
     (let gens = ledger_generations st s; cur = generation_of st s
      in if gens = [] \<or> cur = None then Inl SlotIntegrityError
         else if gens \<noteq> [generation_start..generation_start + int (length gens) - 1]
         then Inl SlotIntegrityError
         else if last gens \<noteq> the cur \<or> the cur \<noteq> expected then Inl SlotIntegrityError
         else Inr ())"

text \<open>A missing or empty file, a text \<open>json.loads\<close> rejects, or the value it holds.\<close>

datatype marker_file = NoMarker | UnparseableMarker | MarkerValue json

record owner_marker =
  om_runtime :: string
  om_slot :: int
  om_generation :: int

definition format_owner_marker :: "string \<Rightarrow> int \<Rightarrow> int \<Rightarrow> json" where
  "format_owner_marker u s g =
     JObj [(''generation'', JInt g), (''runtime_uuid'', JStr u), (''slot'', JInt s)]"

text \<open>
  \<open>int(data[key])\<close> inside the \<open>try\<close>: a missing key and \<open>TypeError\<close> or \<open>ValueError\<close> are caught and
  mean an unparseable marker; the \<open>OverflowError\<close> of an infinite float is not caught.
\<close>

definition marker_int :: "json \<Rightarrow> string \<Rightarrow> store_error + int option" where
  "marker_int v k =
     (case obj_get v k of
        None \<Rightarrow> Inr None
      | Some x \<Rightarrow> (case py_int x of
                     Inr i \<Rightarrow> Inr (Some i)
                   | Inl ConvOverflow \<Rightarrow> Inl UncaughtOverflow
                   | Inl _ \<Rightarrow> Inr None))"

fun parse_owner_marker :: "marker_file \<Rightarrow> store_error + owner_marker option" where
  "parse_owner_marker (MarkerValue v) =
     (case obj_get v ''runtime_uuid'' of
        None \<Rightarrow> Inr None
      | Some u \<Rightarrow>
          (case marker_int v ''slot'' of
             Inl e \<Rightarrow> Inl e
           | Inr None \<Rightarrow> Inr None
           | Inr (Some s) \<Rightarrow>
               (case marker_int v ''generation'' of
                  Inl e \<Rightarrow> Inl e
                | Inr None \<Rightarrow> Inr None
                | Inr (Some g) \<Rightarrow>
                    Inr (Some \<lparr>om_runtime = py_str u, om_slot = s, om_generation = g\<rparr>))))"
| "parse_owner_marker _ = Inr None"

definition assert_slot_integrity :: "string \<Rightarrow> int \<Rightarrow> int \<Rightarrow> marker_file \<Rightarrow> store_error + unit" where
  "assert_slot_integrity u s g raw =
     (case parse_owner_marker raw of
        Inl e \<Rightarrow> Inl e
      | Inr None \<Rightarrow> Inl SlotIntegrityError
      | Inr (Some m) \<Rightarrow>
          if om_runtime m \<noteq> u \<or> om_slot m \<noteq> s \<or> om_generation m \<noteq> g
          then Inl SlotIntegrityError else Inr ())"

text \<open>Only \<open>SlotIntegrityError\<close> is caught, so only that error quarantines the slot.\<close>

definition assert_occupancy_integrity ::
  "(string \<Rightarrow> string) \<Rightarrow> string \<Rightarrow> int \<Rightarrow> int \<Rightarrow> marker_file \<Rightarrow> int \<Rightarrow> slot_store \<Rightarrow>
   (store_error, unit, slot_store) outcome" where
  "assert_occupancy_integrity sha u s g raw now st =
     (if is_quarantined st s then (Inl SlotIntegrityError, st)
      else case (case assert_slot_integrity u s g raw of
                   Inl e \<Rightarrow> Inl e
                 | Inr _ \<Rightarrow> assert_generation_monotonic st s g) of
        Inr _ \<Rightarrow> (Inr (), st)
      | Inl e \<Rightarrow>
          (Inl e, if e = SlotIntegrityError
                  then quarantine_slot sha s ''integrity_assertion_failed'' now st else st))"

definition audit_checkpoints :: "string list" where
  "audit_checkpoints = [''before_assign'', ''before_mutation'', ''before_release'',
     ''before_quarantine_clearance'', ''before_acceptance_evidence'']"

definition audit_checkpoint ::
  "(string \<Rightarrow> string) \<Rightarrow> string \<Rightarrow> int option \<Rightarrow> int \<Rightarrow> slot_store \<Rightarrow>
   (store_error, nat, slot_store) outcome" where
  "audit_checkpoint sha boundary slot now st =
     (if boundary \<notin> set audit_checkpoints
      then (Inl (StoreValueError (''unknown audit checkpoint: '' @ boundary)), st)
      else case verify_audit_chain sha st of
        Inr n \<Rightarrow> (Inr n, st)
      | Inl e \<Rightarrow>
          (Inl e,
           (case slot of
              Some s \<Rightarrow> quarantine_slot sha s (''audit_chain_corrupt:'' @ boundary) now st
            | None \<Rightarrow> block_allocation (''audit_chain_corrupt:'' @ boundary) now st)))"

section \<open>Release\<close>

definition release_proofs :: "string list" where
  "release_proofs =
     [''runtime_process_stopped'', ''process_identity_verified'', ''canonical_directory_tombstoned'',
      ''tombstone_evidence_persisted'', ''no_ambiguous_provisioning_job'', ''no_mutation_lock_held'',
      ''slot_release_audit_persisted'']"

text \<open>
  \<open>release_after_tombstone\<close>; \<open>proofs\<close> is the caller's dictionary, a missing proof being false. The
  plain \<open>INSERT\<close> of the ledger row raises on a duplicate key, and the transaction rolls back.
\<close>

definition release_after_tombstone ::
  "string \<Rightarrow> int \<Rightarrow> int \<Rightarrow> (string \<Rightarrow> bool) \<Rightarrow> int \<Rightarrow> slot_store \<Rightarrow>
   (store_error, int, slot_store) outcome" where
  "release_after_tombstone u s g proofs now st =
     (let missing = filter (\<lambda>p. \<not> proofs p) release_proofs in
      if missing \<noteq> [] then (Inl (ReleaseProofMissing missing), st)
      else if is_quarantined st s then (Inl SlotIntegrityError, st)
      else case assert_generation_monotonic st s g of
        Inl e \<Rightarrow> (Inl e, st)
      | Inr _ \<Rightarrow>
          if slot_lookup st u \<noteq> Some (s, g) then (Inl SlotIntegrityError, st)
          else if ledger_has st s (g + 1) then (Inl SqliteIntegrityError, st)
          else (Inr (g + 1),
                (update_slot s (\<lambda>x. x\<lparr>row_runtime := None, row_assigned_at := None,
                                       row_generation := g + 1\<rparr>) st)
                  \<lparr>generations_tbl := generations_tbl st @
                     [\<lparr>gen_slot = s, gen_generation = g + 1, gen_event = ''release'', gen_at = now\<rparr>]\<rparr>))"

section \<open>Operator clearance of a quarantine\<close>

record clearance =
  cl_diagnosed_reason :: string
  cl_operator_identity :: string
  cl_evidence_reference :: string
  cl_reconciliation_confirmed :: bool
  cl_no_runtime_process_confirmed :: bool
  cl_slot_directory_safe_confirmed :: bool
  cl_runtime_uuid :: string
  cl_generation :: "int option"
  cl_agent_version :: string
  cl_manifest_version :: string
  cl_protocol_version :: "int option"

definition clearance_event :: "clearance \<Rightarrow> int \<Rightarrow> audit_material" where
  "clearance_event c now =
     \<lparr>am_event = ''quarantine_cleared'', am_runtime_uuid = cl_runtime_uuid c, am_slot = 0,
      am_generation = 0, am_occupancy_id = '''', am_operation = ''CLEAR_QUARANTINE'',
      am_provisioning_job_id = None, am_correlation_id = cl_evidence_reference c,
      am_prior_state = ''quarantined'', am_resulting_state = ''cleared'',
      am_integrity_outcome = ''operator_cleared'', am_quarantined = False,
      am_agent_version = cl_agent_version c, am_manifest_version = cl_manifest_version c,
      am_protocol_version = cl_protocol_version c, am_at = now\<rparr>"

definition clear_quarantine ::
  "(string \<Rightarrow> string) \<Rightarrow> int \<Rightarrow> clearance \<Rightarrow> int \<Rightarrow> slot_store \<Rightarrow>
   (store_error, unit, slot_store) outcome" where
  "clear_quarantine sha s c now st =
     (if \<not> nonblank (cl_diagnosed_reason c)
      then (Inl (QuarantineClearanceRefused ''diagnosed_reason is required''), st)
      else if \<not> nonblank (cl_operator_identity c)
      then (Inl (QuarantineClearanceRefused ''operator_identity is required''), st)
      else if \<not> nonblank (cl_evidence_reference c)
      then (Inl (QuarantineClearanceRefused ''evidence_reference is required''), st)
      else if \<not> cl_reconciliation_confirmed c
      then (Inl (QuarantineClearanceRefused ''reconciliation_confirmed must be explicitly confirmed''), st)
      else if \<not> cl_no_runtime_process_confirmed c
      then (Inl (QuarantineClearanceRefused ''no_runtime_process_confirmed must be explicitly confirmed''), st)
      else if \<not> cl_slot_directory_safe_confirmed c
      then (Inl (QuarantineClearanceRefused ''slot_directory_safe_confirmed must be explicitly confirmed''), st)
      else if \<not> is_quarantined st s
      then (Inl (QuarantineClearanceRefused ''slot is not quarantined''), st)
      else case (case cl_generation c of None \<Rightarrow> generation_of st s | Some g \<Rightarrow> Some g) of
        None \<Rightarrow> (Inl (QuarantineClearanceRefused ''slot has no generation history''), st)
      | Some g \<Rightarrow>
          (case assert_generation_monotonic st s g of
             Inl e \<Rightarrow> (Inl e, st)
           | Inr _ \<Rightarrow>
               record_audit sha (clearance_event c now) (Some s) (Some g)
                 (st\<lparr>quarantine_tbl := filter (\<lambda>q. qr_slot q \<noteq> s) (quarantine_tbl st)\<rparr>)))"

section \<open>Well-formed tables\<close>

text \<open>
  The primary keys, the \<open>UNIQUE\<close> constraint on the runtime, and the ledger: every slot with a row
  has the ledger \<open>1, 2, \<dots>\<close> up to its current generation, and no other slot has ledger rows.
\<close>

definition ledger_of :: "slot_store \<Rightarrow> int \<Rightarrow> int list" where
  "ledger_of st s = map gen_generation (filter (\<lambda>r. gen_slot r = s) (generations_tbl st))"

definition slot_wf :: "slot_store \<Rightarrow> bool" where
  "slot_wf st \<longleftrightarrow>
     distinct (map row_slot (slots_tbl st)) \<and>
     (\<forall>r \<in> set (slots_tbl st). \<forall>r' \<in> set (slots_tbl st).
        row_runtime r \<noteq> None \<longrightarrow> row_runtime r = row_runtime r' \<longrightarrow> r = r') \<and>
     (\<forall>r \<in> set (slots_tbl st).
        1 \<le> row_generation r \<and> ledger_of st (row_slot r) = [1..row_generation r]) \<and>
     (\<forall>g \<in> set (generations_tbl st). gen_slot g \<in> row_slot ` set (slots_tbl st))"

lemma slot_wf_new: "new_slot_store n = Inr st \<Longrightarrow> slot_wf st"
  by (auto simp: new_slot_store_def slot_wf_def split: if_splits)

lemma slot_wf_distinct: "slot_wf st \<Longrightarrow> distinct (map row_slot (slots_tbl st))"
  by (simp add: slot_wf_def)

lemma slot_wf_runtime_unique:
  "slot_wf st \<Longrightarrow> r \<in> set (slots_tbl st) \<Longrightarrow> r' \<in> set (slots_tbl st) \<Longrightarrow>
   row_runtime r = Some u \<Longrightarrow> row_runtime r' = Some u \<Longrightarrow> r = r'"
  by (force simp: slot_wf_def)

lemma slot_wf_ledger:
  "slot_wf st \<Longrightarrow> r \<in> set (slots_tbl st) \<Longrightarrow>
   1 \<le> row_generation r \<and> ledger_of st (row_slot r) = [1..row_generation r]"
  by (simp add: slot_wf_def)

lemma slot_wf_no_ledger:
  assumes "slot_wf st" "find_slot st s = None"
  shows "filter (\<lambda>r. gen_slot r = s) (generations_tbl st) = []"
proof -
  have "gen_slot g \<noteq> s" if "g \<in> set (generations_tbl st)" for g
    using assms that by (fastforce simp: slot_wf_def find_slot_def find_None_iff image_iff)
  then show ?thesis by (auto simp: filter_empty_conv)
qed

lemma find_slot_mem: "find_slot st s = Some r \<Longrightarrow> r \<in> set (slots_tbl st) \<and> row_slot r = s"
  unfolding find_slot_def by (drule find_SomeD) simp

lemma find_slot_eq:
  "slot_wf st \<Longrightarrow> r \<in> set (slots_tbl st) \<Longrightarrow> row_slot r = s \<Longrightarrow> find_slot st s = Some r"
  unfolding find_slot_def by (rule find_key_unique) (simp_all add: slot_wf_distinct)

lemma find_runtime_mem:
  "find_runtime st u = Some r \<Longrightarrow> r \<in> set (slots_tbl st) \<and> row_runtime r = Some u"
  unfolding find_runtime_def by (drule find_SomeD) simp

lemma find_runtime_eq:
  assumes "slot_wf st" "r \<in> set (slots_tbl st)" "row_runtime r = Some u"
  shows "find_runtime st u = Some r"
proof (cases "find_runtime st u")
  case None
  with assms show ?thesis by (auto simp: find_runtime_def find_None_iff)
next
  case (Some r')
  with assms show ?thesis
    using find_runtime_mem [OF Some] slot_wf_runtime_unique [OF assms(1)] by blast
qed

text \<open>Runtime \<open>u\<close> currently occupies slot \<open>s\<close> in generation \<open>g\<close>.\<close>

definition holds :: "slot_store \<Rightarrow> string \<Rightarrow> int \<Rightarrow> int \<Rightarrow> bool" where
  "holds st u s g \<longleftrightarrow>
     (\<exists>r \<in> set (slots_tbl st). row_slot r = s \<and> row_runtime r = Some u \<and> row_generation r = g)"

lemma slot_lookup_holds: "slot_wf st \<Longrightarrow> slot_lookup st u = Some (s, g) \<longleftrightarrow> holds st u s g"
  unfolding slot_lookup_def holds_def
  by (auto dest: find_runtime_mem intro: find_runtime_eq)

lemma slot_lookup_None:
  "slot_lookup st u = None \<longleftrightarrow> (\<forall>r \<in> set (slots_tbl st). row_runtime r \<noteq> Some u)"
  by (auto simp: slot_lookup_def find_runtime_def find_None_iff)

lemma holds_occupied: "slot_wf st \<Longrightarrow> holds st u s g \<Longrightarrow> slot_occupied st s"
  unfolding holds_def slot_occupied_def by (auto dest: find_slot_eq)

lemma holds_generation: "slot_wf st \<Longrightarrow> holds st u s g \<Longrightarrow> generation_of st s = Some g"
  unfolding holds_def generation_of_def by (auto dest: find_slot_eq)

lemma holds_unique:
  "slot_wf st \<Longrightarrow> holds st u s g \<Longrightarrow> holds st u' s g' \<Longrightarrow> u = u' \<and> g = g'"
  unfolding holds_def by (metis find_slot_eq option.inject)

section \<open>What the row updates do\<close>

lemma find_slot_update:
  assumes "\<And>r. row_slot (f r) = row_slot r"
  shows "find_slot (update_slot s f st) t =
    (if t = s then map_option f (find_slot st s) else find_slot st t)"
proof -
  let ?h = "\<lambda>r. if row_slot r = s then f r else r"
  have "find_slot (update_slot s f st) t = map_option ?h (find_slot st t)"
    unfolding find_slot_def update_slot_def using assms by (simp add: find_map_key)
  then show ?thesis
    by (cases "find_slot st t") (auto dest: find_slot_mem)
qed

lemma slots_update: "slots_tbl (update_slot s f st) =
    map (\<lambda>r. if row_slot r = s then f r else r) (slots_tbl st)"
  by (simp add: update_slot_def)

lemma generations_update [simp]: "generations_tbl (update_slot s f st) = generations_tbl st"
  by (simp add: update_slot_def)

lemma update_slot_frame [simp]:
  "quarantine_tbl (update_slot s f st) = quarantine_tbl st"
  "audit_tbl (update_slot s f st) = audit_tbl st"
  "pool_size (update_slot s f st) = pool_size st"
  "allocation_block (update_slot s f st) = allocation_block st"
  "sequence_tbl (update_slot s f st) = sequence_tbl st"
  "evidence_tbl (update_slot s f st) = evidence_tbl st"
  by (simp_all add: update_slot_def)

lemma ledger_insert_frame [simp]:
  "slots_tbl (ledger_insert_or_ignore s g ev now st) = slots_tbl st"
  "quarantine_tbl (ledger_insert_or_ignore s g ev now st) = quarantine_tbl st"
  "audit_tbl (ledger_insert_or_ignore s g ev now st) = audit_tbl st"
  "pool_size (ledger_insert_or_ignore s g ev now st) = pool_size st"
  "allocation_block (ledger_insert_or_ignore s g ev now st) = allocation_block st"
  by (simp_all add: ledger_insert_or_ignore_def)

lemma ledger_of_cong:
  "generations_tbl st = generations_tbl st' \<Longrightarrow> ledger_of st s = ledger_of st' s"
  by (simp add: ledger_of_def)

lemma ledger_has_iff: "ledger_has st s g \<longleftrightarrow> g \<in> set (ledger_of st s)"
  by (auto simp: ledger_has_def ledger_of_def list_ex_iff)

lemma ledger_of_insert:
  "ledger_of (ledger_insert_or_ignore s g ev now st) t =
     (if t = s \<and> \<not> ledger_has st s g then ledger_of st s @ [g] else ledger_of st t)"
  by (simp add: ledger_insert_or_ignore_def ledger_of_def)

lemma generations_insert:
  "set (generations_tbl (ledger_insert_or_ignore s g ev now st)) \<subseteq>
     insert \<lparr>gen_slot = s, gen_generation = g, gen_event = ev, gen_at = now\<rparr> (set (generations_tbl st))"
  by (auto simp: ledger_insert_or_ignore_def)

section \<open>Preservation of well-formedness\<close>

text \<open>
  One lemma covers every update of an existing row: the slot keeps its number, the new runtime
  clashes with no other row, and the ledger of the slot ends in the new generation.
\<close>

lemma slot_wf_row_update:
  assumes wf: "slot_wf st"
    and r0: "find_slot st s = Some r0"
    and slots: "slots_tbl st' = map (\<lambda>r. if row_slot r = s then f r else r) (slots_tbl st)"
    and keep: "\<And>r. row_slot (f r) = row_slot r"
    and uniq: "\<And>r. r \<in> set (slots_tbl st) \<Longrightarrow> row_slot r \<noteq> s \<Longrightarrow>
                 row_runtime (f r0) = None \<or> row_runtime r \<noteq> row_runtime (f r0)"
    and gen: "1 \<le> row_generation (f r0)" "ledger_of st' s = [1..row_generation (f r0)]"
    and other: "\<And>t. t \<noteq> s \<Longrightarrow> ledger_of st' t = ledger_of st t"
    and gens: "gen_slot ` set (generations_tbl st') \<subseteq> insert s (gen_slot ` set (generations_tbl st))"
  shows "slot_wf st'"
proof -
  let ?h = "\<lambda>r. if row_slot r = s then f r else r"
  have mem: "r \<in> set (slots_tbl st) \<Longrightarrow> row_slot r = s \<Longrightarrow> r = r0" for r
    using find_slot_eq [OF wf] r0 by fastforce
  have r0s: "r0 \<in> set (slots_tbl st)" "row_slot r0 = s"
    using find_slot_mem [OF r0] by auto
  have key: "map row_slot (slots_tbl st') = map row_slot (slots_tbl st)"
    by (simp add: slots keep)
  have rows: "r \<in> set (slots_tbl st') \<longleftrightarrow>
      r = f r0 \<or> r \<in> set (slots_tbl st) \<and> row_slot r \<noteq> s" for r
  proof
    assume "r \<in> set (slots_tbl st')"
    then obtain x where x: "x \<in> set (slots_tbl st)" "r = ?h x" by (auto simp: slots)
    then show "r = f r0 \<or> r \<in> set (slots_tbl st) \<and> row_slot r \<noteq> s"
      using mem [of x] by (cases "row_slot x = s") auto
  next
    assume "r = f r0 \<or> r \<in> set (slots_tbl st) \<and> row_slot r \<noteq> s"
    then show "r \<in> set (slots_tbl st')"
    proof
      assume "r = f r0"
      with r0s have "r = ?h r0" by simp
      with r0s(1) show ?thesis unfolding slots set_map by (rule rev_image_eqI)
    next
      assume "r \<in> set (slots_tbl st) \<and> row_slot r \<noteq> s"
      then have "r = ?h r" "r \<in> set (slots_tbl st)" by auto
      then show ?thesis unfolding slots set_map by (rule image_eqI)
    qed
  qed
  have 1: "distinct (map row_slot (slots_tbl st'))"
    using wf by (simp add: key slot_wf_def)
  have 2: "row_runtime r \<noteq> None \<Longrightarrow> row_runtime r = row_runtime r' \<Longrightarrow> r = r'"
    if "r \<in> set (slots_tbl st')" "r' \<in> set (slots_tbl st')" for r r'
  proof (cases "r = f r0"; cases "r' = f r0")
    assume "r = f r0" "r' \<noteq> f r0" "row_runtime r \<noteq> None" "row_runtime r = row_runtime r'"
    with that uniq [of r'] show ?thesis unfolding rows by simp
  next
    assume "r \<noteq> f r0" "r' = f r0" "row_runtime r \<noteq> None" "row_runtime r = row_runtime r'"
    with that uniq [of r] show ?thesis unfolding rows by simp
  next
    assume "r \<noteq> f r0" "r' \<noteq> f r0" "row_runtime r \<noteq> None" "row_runtime r = row_runtime r'"
    with that slot_wf_runtime_unique [OF wf, of r r'] show ?thesis unfolding rows by auto
  qed simp
  have 3: "1 \<le> row_generation r \<and> ledger_of st' (row_slot r) = [1..row_generation r]"
    if "r \<in> set (slots_tbl st')" for r
  proof (cases "r = f r0")
    case True
    with gen keep r0s show ?thesis by simp
  next
    case False
    with that other slot_wf_ledger [OF wf, of r] show ?thesis unfolding rows by simp
  qed
  have 4: "gen_slot g \<in> row_slot ` set (slots_tbl st')" if "g \<in> set (generations_tbl st')" for g
  proof -
    have eq: "row_slot ` set (slots_tbl st') = row_slot ` set (slots_tbl st)"
      using arg_cong [OF key, of set] by simp
    from that gens have "gen_slot g = s \<or> gen_slot g \<in> gen_slot ` set (generations_tbl st)" by blast
    moreover have "gen_slot ` set (generations_tbl st) \<subseteq> row_slot ` set (slots_tbl st)"
      using wf by (simp add: slot_wf_def image_subset_iff)
    moreover have "s \<in> row_slot ` set (slots_tbl st)" using r0s by blast
    ultimately show ?thesis unfolding eq by blast
  qed
  show ?thesis unfolding slot_wf_def using 1 2 3 4 by blast
qed

lemma slot_wf_cong:
  "slots_tbl st' = slots_tbl st \<Longrightarrow> generations_tbl st' = generations_tbl st \<Longrightarrow>
   slot_wf st' = slot_wf st"
  by (simp add: slot_wf_def ledger_of_def)

lemma claim_slot_wf:
  assumes wf: "slot_wf st" and free: "\<not> slot_occupied st s"
    and new: "slot_lookup st u = None"
  shows "slot_wf (snd (claim_slot u now s st))"
proof (cases "find_slot st s")
  case (Some r)
  then have r: "r \<in> set (slots_tbl st)" "row_slot r = s" by (auto dest: find_slot_mem)
  let ?f = "\<lambda>r. r\<lparr>row_runtime := Some u, row_assigned_at := Some now\<rparr>"
  have "slot_wf (update_slot s ?f st)"
  proof (rule slot_wf_row_update [OF wf Some slots_update])
    show "1 \<le> row_generation (?f r)" using slot_wf_ledger [OF wf r(1)] by simp
    show "ledger_of (update_slot s ?f st) s = [1..row_generation (?f r)]"
      using slot_wf_ledger [OF wf r(1)] r(2) by (simp add: ledger_of_def)
    show "\<And>x. x \<in> set (slots_tbl st) \<Longrightarrow> row_slot x \<noteq> s \<Longrightarrow>
        row_runtime (?f r) = None \<or> row_runtime x \<noteq> row_runtime (?f r)"
      using new by (auto simp: slot_lookup_None)
  qed (auto simp: ledger_of_def)
  with Some show ?thesis by (simp add: claim_slot_def)
next
  case None
  let ?row = "\<lparr>row_slot = s, row_runtime = Some u, row_generation = generation_start,
               row_assigned_at = Some now\<rparr>"
  let ?st1 = "st\<lparr>slots_tbl := slots_tbl st @ [?row]\<rparr>"
  let ?st2 = "ledger_insert_or_ignore s generation_start ''init'' now ?st1"
  have led: "ledger_of ?st1 t = ledger_of st t" for t by (simp add: ledger_of_def)
  have empty: "ledger_of ?st1 s = []"
    using slot_wf_no_ledger [OF wf None] by (simp add: ledger_of_def)
  have l2: "ledger_of ?st2 t = (if t = s then [generation_start] else ledger_of st t)" for t
    using empty led by (simp add: ledger_of_insert ledger_has_iff)
  have fresh: "row_slot r \<noteq> s" "row_runtime r \<noteq> Some u" if "r \<in> set (slots_tbl st)" for r
    using that None new by (auto simp: find_slot_def find_None_iff slot_lookup_None)
  have "slot_wf ?st2"
    unfolding slot_wf_def
  proof (intro conjI ballI)
    show "distinct (map row_slot (slots_tbl ?st2))"
      using slot_wf_distinct [OF wf] fresh by auto
  next
    fix r r' assume "r \<in> set (slots_tbl ?st2)" "r' \<in> set (slots_tbl ?st2)"
    then show "row_runtime r \<noteq> None \<longrightarrow> row_runtime r = row_runtime r' \<longrightarrow> r = r'"
      using slot_wf_runtime_unique [OF wf] fresh by (auto dest: sym)
  next
    fix r assume "r \<in> set (slots_tbl ?st2)"
    then show "1 \<le> row_generation r" "ledger_of ?st2 (row_slot r) = [1..row_generation r]"
      using slot_wf_ledger [OF wf, of r] fresh(1) [of r] l2 [of "row_slot r"]
      by (auto simp: generation_start_def)
  next
    fix g assume "g \<in> set (generations_tbl ?st2)"
    then show "gen_slot g \<in> row_slot ` set (slots_tbl ?st2)"
      using wf generations_insert [of s generation_start "''init''" now ?st1]
      by (auto simp: slot_wf_def)
  qed
  with None show ?thesis by (simp add: claim_slot_def)
qed

text \<open>What \<open>assign_scan\<close> does: it claims the first slot of the list that is not occupied.\<close>

lemma assign_scan_cases:
  "(assign_scan u now ss st = (Inl PoolExhausted, st) \<and> (\<forall>s \<in> set ss. slot_occupied st s)) \<or>
   (\<exists>pre s post. ss = pre @ s # post \<and> (\<forall>t \<in> set pre. slot_occupied st t) \<and> \<not> slot_occupied st s \<and>
      assign_scan u now ss st = (Inr (s, fst (claim_slot u now s st)), snd (claim_slot u now s st)))"
proof (induction ss)
  case Nil
  then show ?case by simp
next
  case (Cons a ss)
  show ?case
  proof (cases "slot_occupied st a")
    case True
    from Cons.IH show ?thesis
    proof (elim disjE exE conjE)
      assume "assign_scan u now ss st = (Inl PoolExhausted, st)" "\<forall>s \<in> set ss. slot_occupied st s"
      with True show ?thesis by simp
    next
      fix pre s post
      assume "ss = pre @ s # post" "\<forall>t \<in> set pre. slot_occupied st t" "\<not> slot_occupied st s"
        "assign_scan u now ss st = (Inr (s, fst (claim_slot u now s st)), snd (claim_slot u now s st))"
      with True show ?thesis
        by (intro disjI2 exI [of _ "a # pre"] exI [of _ s] exI [of _ post]) simp
    qed
  next
    case False
    then show ?thesis by (intro disjI2 exI [of _ "[]"]) (simp add: case_prod_beta)
  qed
qed

lemma slot_assign_cases:
  assumes "slot_assign u now st = (res, st')"
  obtains (blocked) "truthy (allocation_blocked st)"
      "res = Inl (AllocationBlocked (the (allocation_blocked st)))" "st' = st"
    | (held) s g where "\<not> truthy (allocation_blocked st)" "slot_lookup st u = Some (s, g)"
      "res = Inr (s, g)" "st' = st"
    | (full) "\<not> truthy (allocation_blocked st)" "slot_lookup st u = None"
      "res = Inl PoolExhausted" "st' = st" "\<forall>s. 1 \<le> s \<and> s \<le> pool_size st \<longrightarrow> slot_occupied st s"
    | (claimed) s where "\<not> truthy (allocation_blocked st)" "slot_lookup st u = None"
      "1 \<le> s" "s \<le> pool_size st" "\<not> slot_occupied st s"
      "\<forall>t. 1 \<le> t \<and> t < s \<longrightarrow> slot_occupied st t"
      "res = Inr (s, fst (claim_slot u now s st))" "st' = snd (claim_slot u now s st)"
proof (cases "truthy (allocation_blocked st)")
  case True
  with assms show ?thesis by (intro blocked) (auto simp: slot_assign_def)
next
  case nb: False
  show ?thesis
  proof (cases "slot_lookup st u")
    case (Some sg)
    with nb assms show ?thesis by (cases sg) (auto intro!: held simp: slot_assign_def)
  next
    case None
    with nb assms have scan: "assign_scan u now [1..pool_size st] st = (res, st')"
      by (simp add: slot_assign_def)
    from assign_scan_cases [of u now "[1..pool_size st]" st] show ?thesis
    proof (elim disjE conjE exE)
      assume "assign_scan u now [1..pool_size st] st = (Inl PoolExhausted, st)"
        "\<forall>s \<in> set [1..pool_size st]. slot_occupied st s"
      with nb None scan show ?thesis by (intro full) auto
    next
      fix pre s post
      assume eq: "[1..pool_size st] = pre @ s # post" and pre: "\<forall>t \<in> set pre. slot_occupied st t"
        and s: "\<not> slot_occupied st s"
        and r: "assign_scan u now [1..pool_size st] st =
          (Inr (s, fst (claim_slot u now s st)), snd (claim_slot u now s st))"
      have "s \<in> set [1..pool_size st]" unfolding eq by simp
      then have b: "1 \<le> s" "s \<le> pool_size st" by auto
      have "t \<in> set pre" if "1 \<le> t" "t < s" for t
      proof -
        have "t \<in> set (pre @ s # post)"
          using that b by (subst eq [symmetric]) auto
        moreover have "sorted (pre @ s # post)"
          by (subst eq [symmetric]) simp
        ultimately show ?thesis using that by (auto simp: sorted_append)
      qed
      with pre have "\<forall>t. 1 \<le> t \<and> t < s \<longrightarrow> slot_occupied st t" by blast
      with nb None b s r scan show ?thesis by (intro claimed) auto
    qed
  qed
qed

lemma slot_assign_wf: "slot_wf st \<Longrightarrow> slot_wf (snd (slot_assign u now st))"
  by (cases "slot_assign u now st")
     (auto elim!: slot_assign_cases intro: claim_slot_wf)

lemma advance_wf:
  assumes wf: "slot_wf st" and r: "find_slot st s = Some r" and g: "row_generation r = g"
    and slots: "slots_tbl st' = slots_tbl (update_slot s
        (\<lambda>x. x\<lparr>row_runtime := None, row_assigned_at := None, row_generation := g + 1\<rparr>) st)"
    and led: "\<And>t. ledger_of st' t = (if t = s then ledger_of st s @ [g + 1] else ledger_of st t)"
    and gens: "gen_slot ` set (generations_tbl st') \<subseteq> insert s (gen_slot ` set (generations_tbl st))"
  shows "slot_wf st'"
proof (rule slot_wf_row_update [OF wf r slots [unfolded slots_update]])
  have rm: "r \<in> set (slots_tbl st)" "row_slot r = s" using find_slot_mem [OF r] by auto
  note old = slot_wf_ledger [OF wf rm(1)]
  show "1 \<le> row_generation (r\<lparr>row_runtime := None, row_assigned_at := None, row_generation := g + 1\<rparr>)"
    using old g by simp
  show "ledger_of st' s = [1..row_generation
      (r\<lparr>row_runtime := None, row_assigned_at := None, row_generation := g + 1\<rparr>)]"
    using old g rm(2) led [of s] upto_snoc [of 1 g] by simp
qed (use led gens in auto)

lemma slot_wf_next_not_in_ledger:
  assumes "slot_wf st" "find_slot st s = Some r"
  shows "\<not> ledger_has st s (row_generation r + 1)"
  using assms slot_wf_ledger [OF assms(1), of r] find_slot_mem [OF assms(2)]
  by (auto simp: ledger_has_iff)

lemma slot_release_wf:
  assumes wf: "slot_wf st"
  shows "slot_wf (snd (slot_release u now st))"
proof (cases "find_runtime st u")
  case None
  with wf show ?thesis by (simp add: slot_release_def)
next
  case (Some r)
  then have r: "find_slot st (row_slot r) = Some r"
    using find_runtime_mem find_slot_eq [OF wf] by blast
  let ?u = "update_slot (row_slot r)
      (\<lambda>x. x\<lparr>row_runtime := None, row_assigned_at := None, row_generation := row_generation r + 1\<rparr>) st"
  let ?st = "ledger_insert_or_ignore (row_slot r) (row_generation r + 1) ''release'' now ?u"
  have led: "ledger_of ?u t = ledger_of st t" for t by (simp add: ledger_of_def)
  have nin: "\<not> ledger_has ?u (row_slot r) (row_generation r + 1)"
    using slot_wf_next_not_in_ledger [OF wf r] led by (simp add: ledger_has_iff)
  have "slot_wf ?st"
  proof (rule advance_wf [OF wf r refl])
    show "ledger_of ?st t = (if t = row_slot r then ledger_of st (row_slot r) @ [row_generation r + 1]
        else ledger_of st t)" for t
      using nin led by (simp add: ledger_of_insert)
  qed (auto simp: ledger_insert_or_ignore_def)
  with Some show ?thesis by (simp add: slot_release_def)
qed

lemma release_after_tombstone_cases:
  assumes "release_after_tombstone u s g proofs now st = (res, st')"
  obtains (refused) e where "res = Inl e" "st' = st"
    | (released) "res = Inr (g + 1)" "\<forall>p \<in> set release_proofs. proofs p" "\<not> is_quarantined st s"
      "assert_generation_monotonic st s g = Inr ()" "slot_lookup st u = Some (s, g)"
      "\<not> ledger_has st s (g + 1)"
      "st' = (update_slot s (\<lambda>x. x\<lparr>row_runtime := None, row_assigned_at := None,
                                    row_generation := g + 1\<rparr>) st)
         \<lparr>generations_tbl := generations_tbl st @
            [\<lparr>gen_slot = s, gen_generation = g + 1, gen_event = ''release'', gen_at = now\<rparr>]\<rparr>"
proof (cases "succeeded res")
  case False
  then obtain e where "res = Inl e" by (cases res) auto
  moreover have "st' = st"
    using assms False unfolding release_after_tombstone_def Let_def
    by (simp split: if_split_asm sum.split_asm)
  ultimately show ?thesis by (rule refused)
next
  case True
  note d = assms [unfolded release_after_tombstone_def Let_def]
  have 1: "filter (\<lambda>p. \<not> proofs p) release_proofs = []"
    by (rule ccontr) (use d True in auto)
  have 2: "\<not> is_quarantined st s" by (rule notI) (use d 1 True in auto)
  obtain x where 3: "assert_generation_monotonic st s g = Inr x"
    using d 1 2 True by (cases "assert_generation_monotonic st s g") auto
  have 4: "slot_lookup st u = Some (s, g)" by (rule ccontr) (use d 1 2 3 True in auto)
  have 5: "\<not> ledger_has st s (g + 1)" by (rule notI) (use d 1 2 3 4 True in auto)
  show ?thesis
    by (rule released) (use d 1 2 3 4 5 in \<open>simp_all add: filter_empty_conv\<close>)
qed

lemma released_holds:
  assumes "slot_wf st" "slot_lookup st u = Some (s, g)"
  obtains r where "find_slot st s = Some r" "row_runtime r = Some u" "row_generation r = g"
  using assms by (metis holds_def slot_lookup_holds find_slot_eq)

lemma release_after_tombstone_wf:
  assumes wf: "slot_wf st"
  shows "slot_wf (snd (release_after_tombstone u s g proofs now st))"
proof (cases "release_after_tombstone u s g proofs now st")
  case (Pair res st')
  then show ?thesis
  proof (cases rule: release_after_tombstone_cases)
    case (refused e)
    with wf Pair show ?thesis by simp
  next
    case released
    obtain r where r: "find_slot st s = Some r" "row_generation r = g"
      using released_holds [OF wf released(5)] by blast
    have "slot_wf st'"
    proof (rule advance_wf [OF wf r])
      show "ledger_of st' t = (if t = s then ledger_of st s @ [g + 1] else ledger_of st t)" for t
        unfolding released by (simp add: ledger_of_def)
    qed (auto simp: released)
    with Pair show ?thesis by simp
  qed
qed

section \<open>Operations as events\<close>

text \<open>Every method that can change the store, with its arguments; \<open>slot_step\<close> is its effect.\<close>

datatype slot_op =
    OpAssign string int
  | OpRelease string int
  | OpReleaseAfterTombstone string int int "string \<Rightarrow> bool" int
  | OpQuarantine int string int
  | OpClearQuarantine int clearance int
  | OpRecordAudit audit_material "int option" "int option"
  | OpRecordSequence int int string int
  | OpRecordStage int int string attestation int
  | OpAssertIntegrity string int int marker_file int
  | OpAuditCheckpoint string "int option" int
  | OpBlockAllocation string int
  | OpClearBlock string string

fun slot_step ::
  "(string \<Rightarrow> string) \<Rightarrow> slot_op \<Rightarrow> slot_store \<Rightarrow> slot_store" where
  "slot_step sha (OpAssign u now) st = snd (slot_assign u now st)"
| "slot_step sha (OpRelease u now) st = snd (slot_release u now st)"
| "slot_step sha (OpReleaseAfterTombstone u s g proofs now) st =
     snd (release_after_tombstone u s g proofs now st)"
| "slot_step sha (OpQuarantine s reason now) st = quarantine_slot sha s reason now st"
| "slot_step sha (OpClearQuarantine s c now) st = snd (clear_quarantine sha s c now st)"
| "slot_step sha (OpRecordAudit m s g) st = snd (record_audit sha m s g st)"
| "slot_step sha (OpRecordSequence s g oper now) st = snd (record_sequence s g oper now st)"
| "slot_step sha (OpRecordStage s g oper att now) st = snd (record_stage s g oper att now st)"
| "slot_step sha (OpAssertIntegrity u s g raw now) st =
     snd (assert_occupancy_integrity sha u s g raw now st)"
| "slot_step sha (OpAuditCheckpoint b s now) st = snd (audit_checkpoint sha b s now st)"
| "slot_step sha (OpBlockAllocation reason now) st = block_allocation reason now st"
| "slot_step sha (OpClearBlock i e) st = snd (clear_allocation_block i e st)"

fun slot_run ::
  "(string \<Rightarrow> string) \<Rightarrow> slot_op list \<Rightarrow> slot_store \<Rightarrow> slot_store" where
  "slot_run sha [] st = st"
| "slot_run sha (x # xs) st = slot_run sha xs (slot_step sha x st)"

text \<open>The operations that leave the slot rows and the ledger alone.\<close>

lemma quarantine_slot_frame [simp]:
  "slots_tbl (quarantine_slot sha s reason now st) = slots_tbl st"
  "generations_tbl (quarantine_slot sha s reason now st) = generations_tbl st"
  "audit_tbl (quarantine_slot sha s reason now st) = audit_tbl st"
  "allocation_block (quarantine_slot sha s reason now st) = allocation_block st"
  by (simp_all add: quarantine_slot_def Let_def)

lemma record_audit_frame [simp]:
  "slots_tbl (snd (record_audit sha m s g st)) = slots_tbl st"
  "generations_tbl (snd (record_audit sha m s g st)) = generations_tbl st"
  "quarantine_tbl (snd (record_audit sha m s g st)) = quarantine_tbl st"
  by (simp_all add: record_audit_def Let_def split: option.splits)

lemma record_sequence_frame [simp]:
  "slots_tbl (snd (record_sequence s g oper now st)) = slots_tbl st"
  "generations_tbl (snd (record_sequence s g oper now st)) = generations_tbl st"
  "quarantine_tbl (snd (record_sequence s g oper now st)) = quarantine_tbl st"
  "audit_tbl (snd (record_sequence s g oper now st)) = audit_tbl st"
  by (simp_all add: record_sequence_def append_sequence_def)

lemma record_stage_frame [simp]:
  "slots_tbl (snd (record_stage s g oper att now st)) = slots_tbl st"
  "generations_tbl (snd (record_stage s g oper att now st)) = generations_tbl st"
  "quarantine_tbl (snd (record_stage s g oper att now st)) = quarantine_tbl st"
  "audit_tbl (snd (record_stage s g oper att now st)) = audit_tbl st"
  by (simp_all add: record_stage_def Let_def append_sequence_def)

lemma assert_occupancy_frame [simp]:
  "slots_tbl (snd (assert_occupancy_integrity sha u s g raw now st)) = slots_tbl st"
  "generations_tbl (snd (assert_occupancy_integrity sha u s g raw now st)) = generations_tbl st"
  "audit_tbl (snd (assert_occupancy_integrity sha u s g raw now st)) = audit_tbl st"
  by (simp_all add: assert_occupancy_integrity_def split: sum.splits)

lemma audit_checkpoint_frame [simp]:
  "slots_tbl (snd (audit_checkpoint sha b s now st)) = slots_tbl st"
  "generations_tbl (snd (audit_checkpoint sha b s now st)) = generations_tbl st"
  "audit_tbl (snd (audit_checkpoint sha b s now st)) = audit_tbl st"
  by (simp_all add: audit_checkpoint_def block_allocation_def split: sum.splits option.splits)

lemma block_frame [simp]:
  "slots_tbl (block_allocation reason now st) = slots_tbl st"
  "generations_tbl (block_allocation reason now st) = generations_tbl st"
  "quarantine_tbl (block_allocation reason now st) = quarantine_tbl st"
  "slots_tbl (snd (clear_allocation_block i e st)) = slots_tbl st"
  "generations_tbl (snd (clear_allocation_block i e st)) = generations_tbl st"
  "quarantine_tbl (snd (clear_allocation_block i e st)) = quarantine_tbl st"
  by (simp_all add: block_allocation_def clear_allocation_block_def)

lemma clear_quarantine_frame [simp]:
  "slots_tbl (snd (clear_quarantine sha s c now st)) = slots_tbl st"
  "generations_tbl (snd (clear_quarantine sha s c now st)) = generations_tbl st"
  by (simp_all add: clear_quarantine_def split: sum.splits option.splits)

text \<open>An operation other than assignment and the two releases keeps rows and ledger.\<close>

definition moves_slots :: "slot_op \<Rightarrow> bool" where
  "moves_slots x \<longleftrightarrow>
     (case x of OpAssign _ _ \<Rightarrow> True | OpRelease _ _ \<Rightarrow> True
      | OpReleaseAfterTombstone _ _ _ _ _ \<Rightarrow> True | _ \<Rightarrow> False)"

lemma slot_step_frame:
  "\<not> moves_slots x \<Longrightarrow> slots_tbl (slot_step sha x st) = slots_tbl st \<and>
     generations_tbl (slot_step sha x st) = generations_tbl st"
  by (cases x) (simp_all add: moves_slots_def)

lemma slot_step_wf: "slot_wf st \<Longrightarrow> slot_wf (slot_step sha x st)"
proof (cases "moves_slots x")
  case True
  assume "slot_wf st"
  with True show ?thesis
    by (cases x) (simp_all add: moves_slots_def slot_assign_wf slot_release_wf
        release_after_tombstone_wf)
next
  case False
  assume "slot_wf st"
  with slot_step_frame [OF False, of sha st] show ?thesis
    using slot_wf_cong [of "slot_step sha x st" st] by simp
qed

lemma slot_run_wf: "slot_wf st \<Longrightarrow> slot_wf (slot_run sha xs st)"
  by (induction xs arbitrary: st) (simp_all add: slot_step_wf)

section \<open>The pool as a map\<close>

text \<open>
  The abstract pool: for each slot that ever had a row, its runtime (or none) and its generation.
  Assignment and release are one update of this map; every other method leaves it alone.
\<close>

type_synonym pool = "int \<rightharpoonup> string option \<times> int"

definition pool_view :: "slot_store \<Rightarrow> pool" where
  "pool_view st s = map_option (\<lambda>r. (row_runtime r, row_generation r)) (find_slot st s)"

definition pool_next_generation :: "pool \<Rightarrow> int \<Rightarrow> int" where
  "pool_next_generation m s = (case m s of None \<Rightarrow> generation_start | Some (_, g) \<Rightarrow> g)"

definition pool_occupied :: "pool \<Rightarrow> int \<Rightarrow> bool" where
  "pool_occupied m s \<longleftrightarrow> (\<exists>u g. m s = Some (Some u, g))"

lemma pool_occupied_view: "pool_occupied (pool_view st) s \<longleftrightarrow> slot_occupied st s"
  by (auto simp: pool_occupied_def slot_occupied_def pool_view_def split: option.splits)

lemma generation_view: "generation_of st s = map_option snd (pool_view st s)"
  by (simp add: generation_of_def pool_view_def option.map_comp comp_def)

lemma holds_view: "slot_wf st \<Longrightarrow> holds st u s g \<longleftrightarrow> pool_view st s = Some (Some u, g)"
  unfolding holds_def pool_view_def
  by (auto dest: find_slot_mem find_slot_eq)

lemma lookup_view:
  "slot_wf st \<Longrightarrow> slot_lookup st u = Some (s, g) \<longleftrightarrow> pool_view st s = Some (Some u, g)"
  by (simp add: slot_lookup_holds holds_view)

lemma lookup_None_view:
  assumes "slot_wf st"
  shows "slot_lookup st u = None \<longleftrightarrow> (\<forall>s g. pool_view st s \<noteq> Some (Some u, g))"
  using lookup_view [OF assms, of u] by (metis not_None_eq surj_pair)

lemma view_cong: "slots_tbl st' = slots_tbl st \<Longrightarrow> pool_view st' = pool_view st"
  by (simp add: pool_view_def find_slot_def fun_eq_iff)

lemma view_claim:
  assumes "\<not> slot_occupied st s"
  shows "fst (claim_slot u now s st) = pool_next_generation (pool_view st) s"
    and "pool_view (snd (claim_slot u now s st)) =
         (pool_view st)(s \<mapsto> (Some u, pool_next_generation (pool_view st) s))"
proof -
  show "fst (claim_slot u now s st) = pool_next_generation (pool_view st) s"
    by (simp add: claim_slot_def pool_next_generation_def pool_view_def split: option.splits)
  show "pool_view (snd (claim_slot u now s st)) =
         (pool_view st)(s \<mapsto> (Some u, pool_next_generation (pool_view st) s))"
  proof (cases "find_slot st s")
    case None
    then show ?thesis
      by (auto simp: fun_eq_iff claim_slot_def pool_view_def pool_next_generation_def
          find_slot_def find_append split: option.splits)
  next
    case (Some r)
    then show ?thesis
      by (auto simp: fun_eq_iff claim_slot_def pool_view_def pool_next_generation_def
          find_slot_update)
  qed
qed

lemma view_advance:
  assumes "find_slot st s = Some r"
    and "slots_tbl st' = slots_tbl (update_slot s
        (\<lambda>x. x\<lparr>row_runtime := None, row_assigned_at := None, row_generation := g + 1\<rparr>) st)"
  shows "pool_view st' = (pool_view st)(s \<mapsto> (None, g + 1))"
  unfolding view_cong [OF assms(2)] using assms(1)
  by (auto simp: fun_eq_iff pool_view_def find_slot_update)

lemma view_release_after_tombstone:
  assumes "slot_wf st" "release_after_tombstone u s g proofs now st = (Inr k, st')"
  shows "pool_view st' = (pool_view st)(s \<mapsto> (None, g + 1))" "k = g + 1"
    "pool_view st s = Some (Some u, g)" "\<forall>p \<in> set release_proofs. proofs p"
    "\<not> is_quarantined st s"
proof -
  from assms(2) have *: "k = g + 1" "\<forall>p \<in> set release_proofs. proofs p" "\<not> is_quarantined st s"
    "slot_lookup st u = Some (s, g)"
    "slots_tbl st' = slots_tbl (update_slot s
        (\<lambda>x. x\<lparr>row_runtime := None, row_assigned_at := None, row_generation := g + 1\<rparr>) st)"
    by (auto elim!: release_after_tombstone_cases)
  obtain r where "find_slot st s = Some r"
    using released_holds [OF assms(1) *(4)] by blast
  then show "pool_view st' = (pool_view st)(s \<mapsto> (None, g + 1))"
    using *(5) by (rule view_advance)
  show "k = g + 1" "\<forall>p \<in> set release_proofs. proofs p" "\<not> is_quarantined st s" by fact+
  show "pool_view st s = Some (Some u, g)" using *(4) by (simp add: lookup_view [OF assms(1)])
qed

lemma release_after_tombstone_refused:
  "release_after_tombstone u s g proofs now st = (Inl e, st') \<Longrightarrow> st' = st"
  by (auto elim!: release_after_tombstone_cases)

lemma view_release:
  assumes "slot_wf st"
  shows "pool_view (snd (slot_release u now st)) =
    (case slot_lookup st u of None \<Rightarrow> pool_view st
     | Some (s, g) \<Rightarrow> (pool_view st)(s \<mapsto> (None, g + 1)))"
proof (cases "find_runtime st u")
  case None
  then show ?thesis by (simp add: slot_release_def slot_lookup_def)
next
  case (Some r)
  then have "find_slot st (row_slot r) = Some r"
    using find_runtime_mem find_slot_eq [OF assms] by blast
  with Some show ?thesis
    by (simp add: slot_release_def slot_lookup_def view_advance)
qed

text \<open>Under well-formedness the ledger check says exactly that the generation is current.\<close>

lemma monotonic_iff:
  assumes wf: "slot_wf st"
  shows "assert_generation_monotonic st s g = Inr () \<longleftrightarrow> generation_of st s = Some g"
proof (cases "find_slot st s")
  case None
  then show ?thesis
    by (simp add: assert_generation_monotonic_def generation_of_def Let_def)
next
  case (Some r)
  then have r: "r \<in> set (slots_tbl st)" "row_slot r = s" by (auto dest: find_slot_mem)
  from slot_wf_ledger [OF wf r(1)] r(2)
  have led: "1 \<le> row_generation r" "ledger_of st s = [1..row_generation r]" by auto
  then have gens: "ledger_generations st s = [1..row_generation r]"
    unfolding ledger_generations_def ledger_of_def by (metis sorted_sort_id sorted_upto_int)
  have "[1..row_generation r] \<noteq> []" using led(1) by (simp add: upto_eq_Nil_conv)
  then show ?thesis
    using Some led(1) gens
    by (auto simp: assert_generation_monotonic_def Let_def generation_of_def generation_start_def
        last_upto)
qed

section \<open>Occupancies are never shared\<close>

text \<open>
  Once a runtime holds slot \<open>s\<close> in generation \<open>g\<close>, either it still does or the slot's generation
  has moved past \<open>g\<close>; no operation can undo that.
\<close>

definition held_or_past :: "string \<Rightarrow> int \<Rightarrow> int \<Rightarrow> slot_store \<Rightarrow> bool" where
  "held_or_past u s g st \<longleftrightarrow>
     (case pool_view st s of
        None \<Rightarrow> False
      | Some (v, g') \<Rightarrow> v = Some u \<and> g' = g \<or> g < g')"

lemma held_or_past_cong:
  "pool_view st' = pool_view st \<Longrightarrow> held_or_past u s g st' = held_or_past u s g st"
  by (simp add: held_or_past_def)

lemma held_or_past_assign:
  assumes wf: "slot_wf st" and h: "held_or_past u s g st"
  shows "held_or_past u s g (snd (slot_assign v now st))"
proof (cases "slot_assign v now st")
  case (Pair res st')
  then show ?thesis
  proof (cases rule: slot_assign_cases)
    case (claimed t)
    have "pool_view st' = (pool_view st)(t \<mapsto> (Some v, pool_next_generation (pool_view st) t))"
      using view_claim(2) [OF claimed(5)] claimed(8) by simp
    moreover have "\<not> pool_occupied (pool_view st) t"
      using claimed(5) by (simp add: pool_occupied_view)
    ultimately show ?thesis
      using h Pair by (auto simp: held_or_past_def pool_next_generation_def pool_occupied_def
          split: option.splits prod.splits)
  qed (use h Pair in simp_all)
qed

lemma held_or_past_advance:
  assumes "held_or_past u s g st" "pool_view st t = Some (v, k)"
    and "pool_view st' = (pool_view st)(t \<mapsto> (None, k + 1))"
  shows "held_or_past u s g st'"
  using assms by (auto simp: held_or_past_def split: option.splits)

lemma held_or_past_step:
  assumes wf: "slot_wf st" and h: "held_or_past u s g st"
  shows "held_or_past u s g (slot_step sha x st)"
proof (cases "moves_slots x")
  case False
  with slot_step_frame [OF False, of sha st] h show ?thesis
    using held_or_past_cong view_cong by metis
next
  case True
  then consider v now where "x = OpAssign v now" | v now where "x = OpRelease v now"
    | v t k p now where "x = OpReleaseAfterTombstone v t k p now"
    by (cases x) (auto simp: moves_slots_def)
  then show ?thesis
  proof cases
    case 1
    with held_or_past_assign [OF wf h] show ?thesis by simp
  next
    case (2 v now)
    show ?thesis
    proof (cases "slot_lookup st v")
      case None
      with 2 h view_release [OF wf, of v now] show ?thesis
        by (simp cong: held_or_past_cong)
    next
      case (Some tk)
      obtain t k where tk: "tk = (t, k)" by (cases tk)
      with Some have "pool_view st t = Some (Some v, k)" by (simp add: lookup_view [OF wf])
      moreover have "pool_view (slot_step sha x st) = (pool_view st)(t \<mapsto> (None, k + 1))"
        using Some tk 2 view_release [OF wf, of v now] by simp
      ultimately show ?thesis by (rule held_or_past_advance [OF h])
    qed
  next
    case (3 v t k p now)
    show ?thesis
    proof (cases "release_after_tombstone v t k p now st")
      case (Pair res st')
      show ?thesis
      proof (cases res)
        case (Inl e)
        with Pair 3 h release_after_tombstone_refused show ?thesis by fastforce
      next
        case (Inr n)
        with Pair have rel: "release_after_tombstone v t k p now st = (Inr n, st')" by simp
        note V = view_release_after_tombstone [OF wf rel]
        have "held_or_past u s g st'"
          using h V(3) V(1) by (rule held_or_past_advance)
        with Pair 3 show ?thesis by simp
      qed
    qed
  qed
qed

lemma held_or_past_run:
  "slot_wf st \<Longrightarrow> held_or_past u s g st \<Longrightarrow> held_or_past u s g (slot_run sha xs st)"
  by (induction xs arbitrary: st) (simp_all add: slot_step_wf held_or_past_step)

lemma slot_assign_view:
  assumes wf: "slot_wf st" and a: "slot_assign u now st = (Inr (s, g), st')"
  shows "pool_view st' s = Some (Some u, g)"
  using a
proof (cases rule: slot_assign_cases)
  case (held s' g')
  with lookup_view [OF wf] show ?thesis by simp
next
  case (claimed t)
  with view_claim [OF claimed(5), of u now] show ?thesis by simp
qed simp_all

section \<open>Properties\<close>

text \<open>
  C17: Whatever sequence of store operations runs after the pool is created, the tables stay
  well formed: slot numbers and runtimes are unique, and the generation ledger of every slot is
  exactly 1, 2, ... up to its current generation.
\<close>
theorem slot_store_always_wf:
  assumes "new_slot_store n = Inr st"
  shows "slot_wf (slot_run sha ops st)"
  using slot_wf_new [OF assms] by (rule slot_run_wf)

text \<open>
  C19: An occupancy (slot, generation) never names two runtimes: over any history of operations
  from a new pool, if two assignments return the same slot and generation they were made for the
  same runtime, whatever releases, quarantines, clearances or audit events happened between them.
\<close>
theorem occupancy_never_shared:
  assumes new: "new_slot_store n = Inr st0"
    and a1: "slot_assign u now (slot_run sha ops1 st0) = (Inr (s, g), st1)"
    and a2: "slot_assign v now' (slot_run sha ops2 st1) = (Inr (s, g), st2)"
  shows "u = v"
proof -
  have wf0: "slot_wf (slot_run sha ops1 st0)"
    using slot_wf_new [OF new] by (rule slot_run_wf)
  have wf1: "slot_wf st1" using slot_assign_wf [OF wf0, of u now] a1 by simp
  let ?st = "slot_run sha ops2 st1"
  have wf: "slot_wf ?st" using wf1 by (rule slot_run_wf)
  have "held_or_past u s g st1"
    using slot_assign_view [OF wf0 a1] by (simp add: held_or_past_def)
  then have "held_or_past u s g ?st" by (rule held_or_past_run [OF wf1])
  then have "held_or_past u s g st2" using held_or_past_assign [OF wf, of u s g v now'] a2 by simp
  moreover have "pool_view st2 s = Some (Some v, g)" by (rule slot_assign_view [OF wf a2])
  ultimately show ?thesis by (simp add: held_or_past_def)
qed

text \<open>
  C37: Assignment refines the abstract pool. When allocation is not blocked it either returns the
  occupancy the runtime already holds and changes nothing, or claims the lowest free slot of
  1..pool_size in that slot's current generation (1 on first use), or raises PoolExhausted, which
  happens only when every slot is occupied; when allocation is blocked it refuses and changes nothing.
\<close>
theorem slot_assign_refines:
  assumes wf: "slot_wf st" and a: "slot_assign u now st = (res, st')"
  shows "case res of
      Inl (AllocationBlocked reason) \<Rightarrow> allocation_blocked st = Some reason \<and> reason \<noteq> '''' \<and> st' = st
    | Inl e \<Rightarrow> e = PoolExhausted \<and> st' = st \<and> \<not> truthy (allocation_blocked st) \<and>
        (\<forall>t. 1 \<le> t \<and> t \<le> pool_size st \<longrightarrow> pool_occupied (pool_view st) t)
    | Inr (s, g) \<Rightarrow> \<not> truthy (allocation_blocked st) \<and>
        pool_view st' = (pool_view st)(s \<mapsto> (Some u, g)) \<and>
        (pool_view st s = Some (Some u, g) \<and> st' = st \<or>
         (\<forall>t k. pool_view st t \<noteq> Some (Some u, k)) \<and> 1 \<le> s \<and> s \<le> pool_size st \<and>
         \<not> pool_occupied (pool_view st) s \<and> g = pool_next_generation (pool_view st) s \<and>
         (\<forall>t. 1 \<le> t \<and> t < s \<longrightarrow> pool_occupied (pool_view st) t))"
  using a
proof (cases rule: slot_assign_cases)
  case blocked
  then show ?thesis by (auto simp: truthy_def split: option.splits)
next
  case (held s g)
  have "pool_view st s = Some (Some u, g)" using held(2) by (simp add: lookup_view [OF wf])
  then have "(pool_view st)(s \<mapsto> (Some u, g)) = pool_view st" by (rule map_upd_triv)
  with held \<open>pool_view st s = Some (Some u, g)\<close> show ?thesis by simp
next
  case full
  then show ?thesis by (simp add: pool_occupied_view)
next
  case (claimed s)
  then show ?thesis
    using view_claim [OF claimed(5), of u now] by (simp add: pool_occupied_view lookup_None_view [OF wf])
qed

lemma release_correct:
  assumes wf: "slot_wf st" and r: "release_after_tombstone u s g proofs now st = (res, st')"
  shows "(succeeded res \<longleftrightarrow> list_all proofs release_proofs \<and> \<not> is_quarantined st s \<and>
            pool_view st s = Some (Some u, g)) \<and>
         (case res of Inl e \<Rightarrow> st' = st
          | Inr k \<Rightarrow> k = g + 1 \<and> pool_view st' = (pool_view st)(s \<mapsto> (None, g + 1)))"
proof (cases res)
  case (Inl e)
  with r have e: "release_after_tombstone u s g proofs now st = (Inl e, st')" by simp
  have "\<not> (list_all proofs release_proofs \<and> \<not> is_quarantined st s \<and>
          pool_view st s = Some (Some u, g))"
  proof
    assume h: "list_all proofs release_proofs \<and> \<not> is_quarantined st s \<and>
        pool_view st s = Some (Some u, g)"
    then have l: "slot_lookup st u = Some (s, g)" by (simp add: lookup_view [OF wf])
    obtain x where x: "find_slot st s = Some x" "row_generation x = g"
      using released_holds [OF wf l] by blast
    have "assert_generation_monotonic st s g = Inr ()"
      using x by (simp add: monotonic_iff [OF wf] generation_of_def)
    moreover have "\<not> ledger_has st s (g + 1)"
      using slot_wf_next_not_in_ledger [OF wf x(1)] x(2) by simp
    moreover have "filter (\<lambda>p. \<not> proofs p) release_proofs = []"
      using h by (simp add: filter_empty_conv list_all_iff)
    ultimately show False using e h l by (simp add: release_after_tombstone_def)
  qed
  with Inl release_after_tombstone_refused [OF e] show ?thesis by simp
next
  case (Inr k)
  with r have "release_after_tombstone u s g proofs now st = (Inr k, st')" by simp
  with Inr view_release_after_tombstone [OF wf this] show ?thesis by (simp add: list_all_iff)
qed

text \<open>
  The governed release succeeds exactly when all seven proofs hold, the slot is not
  quarantined, and the runtime holds this slot in this generation. It then frees the slot and
  advances its generation by one; in every other case the store is left exactly as it was.
\<close>
theorem release_after_tombstone_correct:
  assumes wf: "slot_wf st" and r: "release_after_tombstone u s g proofs now st = (res, st')"
  shows "(succeeded res \<longleftrightarrow> list_all proofs release_proofs \<and> \<not> is_quarantined st s \<and>
            pool_view st s = Some (Some u, g)) \<and>
         (case res of Inl e \<Rightarrow> st' = st
          | Inr k \<Rightarrow> k = g + 1 \<and> pool_view st' = (pool_view st)(s \<mapsto> (None, g + 1)))"
  using assms by (rule release_correct)

text \<open>A quarantine survives every operation but its own clearance.\<close>

definition lifts_quarantine :: "string \<Rightarrow> int \<Rightarrow> slot_op \<Rightarrow> bool" where
  "lifts_quarantine u s x \<longleftrightarrow>
     (case x of OpClearQuarantine t _ _ \<Rightarrow> t = s | OpRelease v _ \<Rightarrow> v = u | _ \<Rightarrow> False)"

lemma quarantine_kept:
  assumes "is_quarantined st s" "\<not> lifts_quarantine u s x"
  shows "is_quarantined (slot_step sha x st) s"
proof -
  have q: "is_quarantined (quarantine_slot sha t reason now st) s" for t reason now
    using assms(1) by (auto simp: is_quarantined_def quarantine_slot_def Let_def list_ex_iff)
  have c: "quarantine_tbl st' = quarantine_tbl st \<Longrightarrow> is_quarantined st' s" for st'
    using assms(1) by (simp add: is_quarantined_def)
  show ?thesis
  proof (cases x)
    case (OpAssign v now)
    have "quarantine_tbl (snd (slot_assign v now st)) = quarantine_tbl st"
      by (cases "slot_assign v now st")
        (auto elim!: slot_assign_cases simp: claim_slot_def split: option.splits)
    with OpAssign c show ?thesis by simp
  next
    case (OpRelease v now)
    then show ?thesis by (auto intro!: c simp: slot_release_def split: option.splits)
  next
    case (OpReleaseAfterTombstone v t k p now)
    have "quarantine_tbl (snd (release_after_tombstone v t k p now st)) = quarantine_tbl st"
      by (cases "release_after_tombstone v t k p now st")
        (auto elim!: release_after_tombstone_cases)
    with OpReleaseAfterTombstone c show ?thesis by simp
  next
    case (OpClearQuarantine t cl now)
    with assms(2) have "t \<noteq> s" by (simp add: lifts_quarantine_def)
    with OpClearQuarantine assms(1) show ?thesis
      by (auto simp: clear_quarantine_def is_quarantined_def list_ex_iff
          split: option.splits sum.splits)
  next
    case (OpAssertIntegrity v t k raw now)
    then show ?thesis using q assms(1)
      by (auto simp: assert_occupancy_integrity_def split: sum.splits)
  next
    case (OpAuditCheckpoint b t now)
    then show ?thesis using q assms(1) c
      by (auto simp: audit_checkpoint_def block_allocation_def split: sum.splits option.splits)
  qed (use q in \<open>auto intro!: c\<close>)
qed

lemma quarantined_held_step:
  assumes wf: "slot_wf st" and q: "is_quarantined st s"
    and h: "pool_view st s = Some (Some u, g)" and x: "\<not> lifts_quarantine u s x"
  shows "pool_view (slot_step sha x st) s = Some (Some u, g)"
proof (cases "moves_slots x")
  case False
  with slot_step_frame [OF False, of sha st] h view_cong show ?thesis by metis
next
  case True
  then consider v now where "x = OpAssign v now" | v now where "x = OpRelease v now"
    | v t k p now where "x = OpReleaseAfterTombstone v t k p now"
    by (cases x) (auto simp: moves_slots_def)
  then show ?thesis
  proof cases
    case (1 v now)
    have "pool_view (snd (slot_assign v now st)) s = Some (Some u, g)"
    proof (cases "slot_assign v now st")
      case (Pair res st')
      then show ?thesis
      proof (cases rule: slot_assign_cases)
        case (claimed t)
        have "pool_occupied (pool_view st) s" using h by (simp add: pool_occupied_def)
        with claimed(5) have "t \<noteq> s" by (auto simp: pool_occupied_view)
        with Pair claimed(8) view_claim(2) [OF claimed(5), of v now] h show ?thesis by simp
      qed (use h Pair in simp_all)
    qed
    with 1 show ?thesis by simp
  next
    case (2 v now)
    with x have "v \<noteq> u" by (simp add: lifts_quarantine_def)
    with h have "slot_lookup st v = Some (t, k) \<Longrightarrow> t \<noteq> s" for t k
      by (auto simp: lookup_view [OF wf])
    then show ?thesis using 2 h view_release [OF wf, of v now] by (auto split: option.splits)
  next
    case (3 v t k p now)
    show ?thesis
    proof (cases "release_after_tombstone v t k p now st")
      case (Pair res st')
      then show ?thesis using 3 h q view_release_after_tombstone [OF wf, of v t k p now]
          release_after_tombstone_refused [of v t k p now st]
        by (cases res) auto
    qed
  qed
qed

text \<open>
  A quarantined slot is frozen. While a runtime holds a quarantined slot, no sequence of
  operations other than an operator clearance of that slot or the ungoverned release of that
  runtime can free it, hand it to another runtime, change its generation or lift the quarantine.
\<close>
theorem quarantined_occupancy_frozen:
  assumes "slot_wf st" "is_quarantined st s" "pool_view st s = Some (Some u, g)"
    and "list_all (\<lambda>x. \<not> lifts_quarantine u s x) ops"
  shows "is_quarantined (slot_run sha ops st) s \<and>
         pool_view (slot_run sha ops st) s = Some (Some u, g)"
  using assms
proof (induction ops arbitrary: st)
  case (Cons x xs)
  from Cons.prems(4) have x: "\<not> lifts_quarantine u s x" "list_all (\<lambda>x. \<not> lifts_quarantine u s x) xs"
    by simp_all
  show ?case
    using Cons.IH [OF slot_step_wf [OF Cons.prems(1)] quarantine_kept [OF Cons.prems(2) x(1)]
        quarantined_held_step [OF Cons.prems(1-3) x(1)] x(2)] by simp
qed simp

text \<open>
  Assignment never looks at the quarantine table: with any quarantine rows whatever it
  returns the same slot, so a free slot that is quarantined is handed out like any other.
\<close>
theorem slot_assign_ignores_quarantine:
  "fst (slot_assign u now (st\<lparr>quarantine_tbl := q\<rparr>)) = fst (slot_assign u now st)"
proof -
  let ?st = "st\<lparr>quarantine_tbl := q\<rparr>"
  have f: "find_slot ?st = find_slot st" by (simp add: find_slot_def fun_eq_iff)
  have l: "slot_lookup ?st = slot_lookup st"
    by (simp add: slot_lookup_def find_runtime_def fun_eq_iff)
  have c: "fst (claim_slot u now s ?st) = fst (claim_slot u now s st)" for s
    by (simp add: claim_slot_def f split: option.splits)
  have "fst (assign_scan u now ss ?st) = fst (assign_scan u now ss st)" for ss
    by (induction ss) (simp_all add: slot_occupied_def f c case_prod_beta)
  then show ?thesis by (simp add: slot_assign_def allocation_blocked_def l split: option.splits)
qed

text \<open>
  The ownership marker a slot is given is accepted by the integrity check for exactly the
  occupancy it was written for, and for no other runtime, slot or generation.
\<close>
theorem owner_marker_roundtrip:
  "assert_slot_integrity u s g (MarkerValue (format_owner_marker u' s' g')) = Inr () \<longleftrightarrow>
   u = u' \<and> s = s' \<and> g = g'"
  by (auto simp: assert_slot_integrity_def format_owner_marker_def marker_int_def)

lemma parse_owner_marker_error: "parse_owner_marker raw = Inl e \<Longrightarrow> e = UncaughtOverflow"
  by (cases raw) (auto simp: marker_int_def split: option.splits sum.splits conv_error.splits)

text \<open>
  The pre-mutation gate passes exactly when the slot is not quarantined, the marker on disk
  names this runtime, slot and generation, and the generation is the slot's current one. A slot
  that fails the gate is quarantined afterwards, unless reading the marker itself overflowed
  (an infinite number in it), which escapes as an untyped error; slot rows and ledger are
  untouched in every case.
\<close>
theorem occupancy_gate_correct:
  assumes wf: "slot_wf st" and r: "assert_occupancy_integrity sha u s g raw now st = (res, st')"
  shows "(res = Inr () \<longleftrightarrow> \<not> is_quarantined st s \<and> generation_of st s = Some g \<and>
            parse_owner_marker raw = Inr (Some \<lparr>om_runtime = u, om_slot = s, om_generation = g\<rparr>)) \<and>
         (failed res \<longrightarrow> is_quarantined st' s \<or> res = Inl UncaughtOverflow \<and> failed (parse_owner_marker raw)) \<and>
         (succeeded res \<longrightarrow> st' = st) \<and>
         pool_view st' = pool_view st"
proof -
  have m: "assert_slot_integrity u s g raw = Inr () \<longleftrightarrow>
      parse_owner_marker raw = Inr (Some \<lparr>om_runtime = u, om_slot = s, om_generation = g\<rparr>)"
    by (auto simp: assert_slot_integrity_def split: option.splits sum.splits)
  have e: "e = SlotIntegrityError \<or> e = UncaughtOverflow \<and> failed (parse_owner_marker raw)"
    if "assert_slot_integrity u s g raw = Inl e" for e
    using that parse_owner_marker_error [of raw]
    by (auto simp: assert_slot_integrity_def split: option.splits sum.splits if_splits)
  have g: "assert_generation_monotonic st s g = Inr () \<longleftrightarrow> generation_of st s = Some g"
    by (rule monotonic_iff [OF wf])
  have g': "e = SlotIntegrityError" if "assert_generation_monotonic st s g = Inl e" for e
    using that by (auto simp: assert_generation_monotonic_def Let_def split: if_splits)
  have q: "is_quarantined (quarantine_slot sha s reason now st) s" for reason
    by (simp add: is_quarantined_def quarantine_slot_def Let_def)
  have v: "pool_view (quarantine_slot sha s reason now st) = pool_view st" for reason
    by (rule view_cong) simp
  show ?thesis
  proof (cases "is_quarantined st s")
    case True
    with r have "res = Inl SlotIntegrityError" "st' = st"
      by (simp_all add: assert_occupancy_integrity_def)
    with True show ?thesis by simp
  next
    case nq: False
    show ?thesis
    proof (cases "assert_slot_integrity u s g raw")
      case (Inl x)
      with r nq have rs: "res = Inl x" "st' = (if x = SlotIntegrityError
          then quarantine_slot sha s ''integrity_assertion_failed'' now st else st)"
        by (simp_all add: assert_occupancy_integrity_def)
      from Inl m have "parse_owner_marker raw \<noteq> Inr (Some \<lparr>om_runtime = u, om_slot = s, om_generation = g\<rparr>)"
        by simp
      with rs e [OF Inl] show ?thesis by (auto simp: q v)
    next
      case (Inr y)
      with m have mk: "parse_owner_marker raw = Inr (Some \<lparr>om_runtime = u, om_slot = s, om_generation = g\<rparr>)"
        by simp
      show ?thesis
      proof (cases "assert_generation_monotonic st s g")
        case (Inl x)
        with r nq Inr g' [OF Inl] have "res = Inl SlotIntegrityError"
          "st' = quarantine_slot sha s ''integrity_assertion_failed'' now st"
          by (simp_all add: assert_occupancy_integrity_def)
        with Inl g show ?thesis by (simp add: q v)
      next
        case (Inr z)
        with r nq \<open>assert_slot_integrity u s g raw = Inr y\<close> have "res = Inr ()" "st' = st"
          by (simp_all add: assert_occupancy_integrity_def)
        with Inr g mk nq show ?thesis by simp
      qed
    qed
  qed
qed

section \<open>Concrete instances\<close>

definition demo_store :: slot_store where
  "demo_store = \<lparr>pool_size = 2, slots_tbl = [], generations_tbl = [], quarantine_tbl = [],
     audit_tbl = [], sequence_tbl = [], evidence_tbl = [], allocation_block = None\<rparr>"

lemma demo_store_new: "new_slot_store 2 = Inr demo_store"
  by (simp add: new_slot_store_def demo_store_def)

lemma demo_store_wf: "slot_wf demo_store"
  using demo_store_new by (rule slot_wf_new)

lemmas slot_eval = slot_assign_def slot_lookup_def find_runtime_def find_slot_def claim_slot_def
  slot_occupied_def allocation_blocked_def truthy_def ledger_insert_or_ignore_def ledger_has_def
  update_slot_def generation_start_def demo_store_def generation_of_def is_quarantined_def
  quarantine_slot_def pool_view_def

abbreviation demo_held :: slot_store where
  "demo_held \<equiv> snd (slot_assign ''u'' 0 demo_store)"

lemma demo_held_wf: "slot_wf demo_held"
  by (rule slot_assign_wf [OF demo_store_wf])

lemma demo_held_view: "pool_view demo_held 1 = Some (Some ''u'', 1)"
  by (simp add: slot_eval upto.simps)

theorem slot_store_always_wf_witness:
  "slot_wf (slot_run id [OpAssign ''u'' 0, OpRelease ''u'' 1, OpAssign ''v'' 2] demo_store)"
  by (rule slot_store_always_wf [OF demo_store_new])

theorem occupancy_never_shared_witness:
  "slot_assign ''u'' 0 (slot_run id [] demo_store) = (Inr (1, 1), demo_held) \<and>
   slot_assign ''u'' 9 (slot_run id [OpAssign ''v'' 3] demo_held) =
     (Inr (1, 1), slot_run id [OpAssign ''v'' 3] demo_held) \<and> ''u'' = ''u''"
proof -
  have a1: "slot_assign ''u'' 0 (slot_run id [] demo_store) = (Inr (1, 1), demo_held)"
    by (simp add: slot_eval upto.simps)
  have a2: "slot_assign ''u'' 9 (slot_run id [OpAssign ''v'' 3] demo_held) =
     (Inr (1, 1), slot_run id [OpAssign ''v'' 3] demo_held)"
    by (simp add: slot_eval upto.simps)
  have "''u'' = ''u''" by (rule occupancy_never_shared [OF demo_store_new a1 a2])
  with a1 a2 show ?thesis by blast
qed

theorem slot_assign_refines_witness:
  "slot_assign ''u'' 0 demo_store = (Inr (1, 1), demo_held) \<and>
   pool_view demo_held = (pool_view demo_store)(1 \<mapsto> (Some ''u'', 1))"
proof -
  have a: "slot_assign ''u'' 0 demo_store = (Inr (1, 1), demo_held)"
    by (simp add: slot_eval upto.simps)
  with slot_assign_refines [OF demo_store_wf a] show ?thesis by simp
qed

theorem release_after_tombstone_correct_witness:
  "succeeded (fst (release_after_tombstone ''u'' 1 1 (\<lambda>_. True) 5 demo_held)) \<and>
   pool_view (snd (release_after_tombstone ''u'' 1 1 (\<lambda>_. True) 5 demo_held)) 1 = Some (None, 2)"
proof (cases "release_after_tombstone ''u'' 1 1 (\<lambda>_. True) 5 demo_held")
  case (Pair res st')
  have q: "\<not> is_quarantined demo_held 1" by (simp add: slot_eval upto.simps)
  have p: "list_all (\<lambda>_. True) release_proofs" by (simp add: list_all_iff)
  note C = release_after_tombstone_correct [OF demo_held_wf Pair]
  have s: "succeeded res" using C q p demo_held_view by simp
  then have "pool_view st' 1 = Some (None, 2)" using C by (cases res) auto
  with s Pair show ?thesis by simp
qed

abbreviation demo_quarantined :: slot_store where
  "demo_quarantined \<equiv> quarantine_slot id 1 ''integrity'' 3 demo_held"

theorem quarantined_occupancy_frozen_witness:
  "pool_view (slot_run id
     [OpReleaseAfterTombstone ''u'' 1 1 (\<lambda>_. True) 4, OpAssign ''v'' 5] demo_quarantined) 1 =
   Some (Some ''u'', 1)"
proof -
  have "slot_wf demo_quarantined"
    using demo_held_wf slot_wf_cong [of demo_quarantined demo_held] by simp
  moreover have "is_quarantined demo_quarantined 1"
    by (simp add: is_quarantined_def quarantine_slot_def Let_def)
  moreover have "pool_view demo_quarantined 1 = Some (Some ''u'', 1)"
    using demo_held_view view_cong [of demo_quarantined demo_held] by simp
  moreover have "list_all (\<lambda>x. \<not> lifts_quarantine ''u'' 1 x)
      [OpReleaseAfterTombstone ''u'' 1 1 (\<lambda>_. True) 4, OpAssign ''v'' 5]"
    by (simp add: lifts_quarantine_def)
  ultimately show ?thesis by (rule quarantined_occupancy_frozen [THEN conjunct2])
qed

theorem occupancy_gate_correct_witness:
  "assert_occupancy_integrity id ''u'' 1 1 NoMarker 7 demo_held =
     (Inl SlotIntegrityError, snd (assert_occupancy_integrity id ''u'' 1 1 NoMarker 7 demo_held)) \<and>
   is_quarantined (snd (assert_occupancy_integrity id ''u'' 1 1 NoMarker 7 demo_held)) 1"
proof -
  let ?r = "assert_occupancy_integrity id ''u'' 1 1 NoMarker 7 demo_held"
  have "fst ?r = Inl SlotIntegrityError"
    by (simp add: assert_occupancy_integrity_def assert_slot_integrity_def)
  moreover note occupancy_gate_correct [OF demo_held_wf, of id "''u''" 1 1 NoMarker 7 "fst ?r" "snd ?r"]
  ultimately show ?thesis by (auto simp: prod_eq_iff)
qed

end
