(* ===== verification/SlotEvidence.thy ===== *)
theory SlotEvidence
  imports SlotStore
begin

text \<open>
  What the evidence side of the slot store guarantees over any sequence of its operations
  (\<^verbatim>\<open>deploy/beta-agent/stores.py\<close>): the audit chain always verifies, its head
  commits to the whole history, deletions inside it are detected and deletions of its tail are
  not, and every recorded stage has its evidence.
\<close>

section \<open>The audit chain\<close>

definition chain_end :: "string \<Rightarrow> audit_row list \<Rightarrow> string" where
  "chain_end p rows = (if rows = [] then p else au_hash (last rows))"

lemma chain_end_genesis: "chain_end audit_genesis rows = audit_head rows"
  by (simp add: chain_end_def audit_head_def)

lemma verify_rows_append:
  "verify_rows sha p (xs @ ys) = Inr () \<longleftrightarrow>
   verify_rows sha p xs = Inr () \<and> verify_rows sha (chain_end p xs) ys = Inr ()"
  by (induction xs arbitrary: p) (auto simp: chain_end_def)

lemma verify_rows_snoc:
  "verify_rows sha p (xs @ [r]) = Inr () \<longleftrightarrow>
   verify_rows sha p xs = Inr () \<and> au_previous_hash r = chain_end p xs \<and>
   au_hash r = chain_hash sha (au_previous_hash r) (au_material r)"
  by (auto simp: verify_rows_append)

definition chain_valid :: "(string \<Rightarrow> string) \<Rightarrow> slot_store \<Rightarrow> bool" where
  "chain_valid sha st \<longleftrightarrow> verify_rows sha audit_genesis (audit_tbl st) = Inr ()"

lemma verify_audit_chain_iff:
  "verify_audit_chain sha st = Inr (length (audit_tbl st)) \<longleftrightarrow> chain_valid sha st"
  by (auto simp: verify_audit_chain_def chain_valid_def split: sum.splits)

lemma record_audit_valid:
  "chain_valid sha st \<Longrightarrow> chain_valid sha (snd (record_audit sha m s g st))"
  by (auto simp: chain_valid_def record_audit_def Let_def verify_rows_snoc chain_end_genesis
      split: option.splits)

lemma chain_valid_cong: "audit_tbl st' = audit_tbl st \<Longrightarrow> chain_valid sha st' = chain_valid sha st"
  by (simp add: chain_valid_def)

lemma audit_tbl_kept [simp]:
  "audit_tbl (snd (slot_assign u now st)) = audit_tbl st"
  "audit_tbl (snd (slot_release u now st)) = audit_tbl st"
  "audit_tbl (snd (release_after_tombstone u s g p now st)) = audit_tbl st"
  "audit_tbl (block_allocation reason now st) = audit_tbl st"
  "audit_tbl (snd (clear_allocation_block i e st)) = audit_tbl st"
proof -
  show "audit_tbl (snd (slot_assign u now st)) = audit_tbl st"
    by (cases "slot_assign u now st")
      (auto elim!: slot_assign_cases simp: claim_slot_def update_slot_def ledger_insert_or_ignore_def
        split: option.splits)
  show "audit_tbl (snd (slot_release u now st)) = audit_tbl st"
    by (simp add: slot_release_def update_slot_def ledger_insert_or_ignore_def split: option.splits)
  show "audit_tbl (snd (release_after_tombstone u s g p now st)) = audit_tbl st"
    by (cases "release_after_tombstone u s g p now st")
      (auto elim!: release_after_tombstone_cases simp: update_slot_def)
qed (simp_all add: block_allocation_def clear_allocation_block_def)

lemma clear_quarantine_valid:
  "chain_valid sha st \<Longrightarrow> chain_valid sha (snd (clear_quarantine sha s c now st))"
  by (auto simp: clear_quarantine_def record_audit_def Let_def chain_valid_def verify_rows_snoc
      chain_end_genesis split: option.splits sum.splits)

lemma slot_step_valid: "chain_valid sha st \<Longrightarrow> chain_valid sha (slot_step sha x st)"
proof (cases x)
  case (OpClearQuarantine s c now)
  assume "chain_valid sha st"
  with OpClearQuarantine clear_quarantine_valid show ?thesis by simp
next
  case (OpRecordAudit m s g)
  assume "chain_valid sha st"
  with OpRecordAudit record_audit_valid show ?thesis by simp
qed (simp_all add: chain_valid_def)

lemma slot_run_valid: "chain_valid sha st \<Longrightarrow> chain_valid sha (slot_run sha xs st)"
  by (induction xs arbitrary: st) (simp_all add: slot_step_valid)

lemma chain_valid_new: "new_slot_store n = Inr st \<Longrightarrow> chain_valid sha st"
  by (auto simp: new_slot_store_def chain_valid_def split: if_splits)

text \<open>
  The audit chain of a store never fails to verify by the store's own doing: after any
  sequence of operations on a fresh store the walk reports VALID with the number of records
  written.
\<close>
theorem audit_chain_always_valid:
  assumes "new_slot_store n = Inr st"
  shows "verify_audit_chain sha (slot_run sha ops st) = Inr (length (audit_tbl (slot_run sha ops st)))"
  unfolding verify_audit_chain_iff by (rule slot_run_valid [OF chain_valid_new [OF assms]])

text \<open>
  What the chain relies on of the digest: hexadecimal output, so neither a bar nor the genesis
  link. Collision freedom is not assumed; a collision is a disjunct of the conclusions.
\<close>

definition hex_digest :: "(string \<Rightarrow> string) \<Rightarrow> bool" where
  "hex_digest sha \<longleftrightarrow> (\<forall>x. CHR ''|'' \<notin> set (sha x) \<and> sha x \<noteq> audit_genesis)"

definition collision :: "(string \<Rightarrow> string) \<Rightarrow> bool" where
  "collision sha \<longleftrightarrow> (\<exists>x y. x \<noteq> y \<and> sha x = sha y)"

lemma opt_int_inj: "json_canon (opt_int x) = json_canon (opt_int y) \<Longrightarrow> x = y"
  by (auto simp: opt_int_def split: option.splits)

lemma audit_json_inj:
  assumes "json_dumps (audit_json m) = json_dumps (audit_json m')"
  shows "m = m'"
proof -
  have f: "float_free (audit_json m)" for m by (simp add: audit_json_def opt_int_def split: option.splits)
  obtain a where a: "audit_json m = JObj a" "map fst a = map fst a" "distinct (map fst a)"
    by (simp add: audit_json_def)
  obtain b where b: "audit_json m' = JObj b" by (simp add: audit_json_def)
  from assms have "json_canon (audit_json m) = json_canon (audit_json m')"
    by (simp only: json_dumps_inj [OF f f])
  then have "json_canon (JObj a) = json_canon (JObj b)" by (simp only: a b)
  moreover have "map fst a = map fst b" using a b by (auto simp: audit_json_def)
  ultimately have "map (json_canon \<circ> snd) a = map (json_canon \<circ> snd) b"
    using a(3) by (rule json_canon_fields)
  then show ?thesis using a(1) b opt_int_inj
    by (intro audit_material.equality) (auto simp: audit_json_def)
qed

lemma bar_split:
  assumes "CHR ''|'' \<notin> set p" "CHR ''|'' \<notin> set q" "p @ ''|'' @ x = q @ ''|'' @ y"
  shows "p = q \<and> x = y"
  using assms by (induction p arbitrary: q) (case_tac q; auto)+

lemma chain_link_no_bar:
  assumes "hex_digest sha" "verify_rows sha audit_genesis rows = Inr ()"
  shows "CHR ''|'' \<notin> set (chain_end audit_genesis rows)"
proof (cases rows rule: rev_cases)
  case Nil
  then show ?thesis by (simp add: chain_end_def audit_genesis_def)
next
  case (snoc xs r)
  with assms show ?thesis
    by (simp add: chain_end_def verify_rows_snoc hex_digest_def chain_hash_def)
qed

lemma chain_commits:
  assumes h: "hex_digest sha"
    and "verify_rows sha audit_genesis rows = Inr ()" "verify_rows sha audit_genesis rows' = Inr ()"
    and "audit_head rows = audit_head rows'"
  shows "rows = rows' \<or> collision sha"
  using assms(2-)
proof (induction rows arbitrary: rows' rule: rev_induct)
  case Nil
  then show ?case
  proof (cases rows' rule: rev_cases)
    case (snoc ys r)
    with Nil.prems have "sha (au_previous_hash r @ ''|'' @ json_dumps (audit_json (au_material r))) = audit_genesis"
      by (simp add: audit_head_def verify_rows_snoc chain_hash_def)
    with h show ?thesis unfolding hex_digest_def by blast
  qed simp
next
  case (snoc r xs)
  from snoc.prems have r: "verify_rows sha audit_genesis xs = Inr ()"
      "au_previous_hash r = chain_end audit_genesis xs"
      "au_hash r = chain_hash sha (au_previous_hash r) (au_material r)"
    by (simp_all add: verify_rows_snoc)
  show ?case
  proof (cases rows' rule: rev_cases)
    case Nil
    with snoc.prems r(3) have "sha (au_previous_hash r @ ''|'' @ json_dumps (audit_json (au_material r))) = audit_genesis"
      by (simp add: audit_head_def chain_hash_def)
    with h show ?thesis unfolding hex_digest_def by blast
  next
    case (snoc ys r')
    with snoc.prems have r': "verify_rows sha audit_genesis ys = Inr ()"
        "au_previous_hash r' = chain_end audit_genesis ys"
        "au_hash r' = chain_hash sha (au_previous_hash r') (au_material r')"
      by (simp_all add: verify_rows_snoc)
    from snoc snoc.prems have eq: "au_hash r = au_hash r'" by (simp add: audit_head_def)
    let ?t = "\<lambda>r. au_previous_hash r @ ''|'' @ json_dumps (audit_json (au_material r))"
    show ?thesis
    proof (cases "?t r = ?t r'")
      case False
      with eq r(3) r'(3) have "collision sha" unfolding collision_def chain_hash_def by metis
      then show ?thesis ..
    next
      case True
      with bar_split [OF _ _ True] chain_link_no_bar [OF h] r r'
      have s: "au_previous_hash r = au_previous_hash r'"
          "json_dumps (audit_json (au_material r)) = json_dumps (audit_json (au_material r'))"
        by simp_all
      with eq audit_json_inj have "r = r'" by (intro audit_row.equality) auto
      moreover have "xs = ys \<or> collision sha"
        using snoc.IH [OF r(1) r'(1)] s(1) r(2) r'(2) by (simp add: chain_end_genesis)
      ultimately show ?thesis using snoc by auto
    qed
  qed
qed

text \<open>
  The newest audit hash commits to the whole history. Two stores whose chains both verify
  and end in the same hash hold the same records in the same order, unless the digest function
  has a collision.
\<close>
theorem audit_head_commits:
  assumes "hex_digest sha"
    and "verify_audit_chain sha st = Inr n" "verify_audit_chain sha st' = Inr n'"
    and "audit_head (audit_tbl st) = audit_head (audit_tbl st')"
  shows "audit_tbl st = audit_tbl st' \<or> collision sha"
proof -
  have "verify_rows sha audit_genesis (audit_tbl x) = Inr ()" if "verify_audit_chain sha x = Inr k" for x k
    using that by (auto simp: verify_audit_chain_def split: sum.splits)
  with chain_commits assms show ?thesis by blast
qed

definition delete_audit :: "nat \<Rightarrow> slot_store \<Rightarrow> slot_store" where
  "delete_audit i st = st\<lparr>audit_tbl := take i (audit_tbl st) @ drop (Suc i) (audit_tbl st)\<rparr>"

text \<open>
  Deleting one record from a valid chain is detected when a later record exists (or the
  digest has a collision); deleting the newest record is not detected: the walk still reports
  VALID, one record shorter.
\<close>
theorem audit_deletion:
  assumes "hex_digest sha" "verify_audit_chain sha st = Inr n" "i < length (audit_tbl st)"
  shows "(Suc i < length (audit_tbl st) \<longrightarrow>
            failed (verify_audit_chain sha (delete_audit i st)) \<or> collision sha) \<and>
         (Suc i = length (audit_tbl st) \<longrightarrow>
            verify_audit_chain sha (delete_audit i st) = Inr (n - 1))"
proof -
  let ?rows = "audit_tbl st" and ?cut = "audit_tbl (delete_audit i st)"
  have v: "verify_rows sha audit_genesis ?rows = Inr ()" and n: "n = length ?rows"
    using assms(2) by (auto simp: verify_audit_chain_def split: sum.splits)
  have cut: "?cut = take i ?rows @ drop (Suc i) ?rows" by (simp add: delete_audit_def)
  then have len: "length ?cut = length ?rows - 1" using assms(3) by auto
  have "verify_rows sha audit_genesis (take i ?rows @ drop i ?rows) = Inr ()" using v by simp
  then have prefix: "verify_rows sha audit_genesis (take i ?rows) = Inr ()"
    unfolding verify_rows_append by simp
  show ?thesis
  proof (intro conjI impI)
    assume i: "Suc i < length ?rows"
    show "failed (verify_audit_chain sha (delete_audit i st)) \<or> collision sha"
    proof (cases "verify_rows sha audit_genesis ?cut")
      case (Inr y)
      have "audit_head ?cut = audit_head ?rows" 
        unfolding cut using i by (cases "drop (Suc i) (audit_tbl st) = []") (auto simp: audit_head_def last_drop)
      with chain_commits [OF assms(1) v, of ?cut] Inr have "?rows = ?cut \<or> collision sha" by simp
      moreover have "?rows \<noteq> ?cut"
      proof
        assume "?rows = ?cut"
        then have "length ?rows = length ?rows - 1" using len by simp
        with assms(3) show False by simp
      qed
      ultimately show ?thesis by blast
    qed (simp add: verify_audit_chain_def)
  next
    assume "Suc i = length ?rows"
    with cut have "?cut = take i ?rows" by simp
    with prefix len n show "verify_audit_chain sha (delete_audit i st) = Inr (n - 1)"
      by (simp add: verify_audit_chain_def)
  qed
qed

section \<open>Operation sequence and stage evidence\<close>

abbreviation seq_rows :: "slot_store \<Rightarrow> int \<Rightarrow> int \<Rightarrow> seq_row list" where
  "seq_rows st s g \<equiv> filter (\<lambda>r. sq_slot r = s \<and> sq_generation r = g) (sequence_tbl st)"

abbreviation ev_rows :: "slot_store \<Rightarrow> int \<Rightarrow> int \<Rightarrow> evidence_row list" where
  "ev_rows st s g \<equiv> filter (\<lambda>e. ev_slot e = s \<and> ev_generation e = g) (evidence_tbl st)"

definition sequence_ok :: "slot_store \<Rightarrow> int \<Rightarrow> int \<Rightarrow> bool" where
  "sequence_ok st s g \<longleftrightarrow> map sq_number (seq_rows st s g) = [1..int (length (seq_rows st s g))]"

definition evidence_ok :: "slot_store \<Rightarrow> int \<Rightarrow> int \<Rightarrow> bool" where
  "evidence_ok st s g \<longleftrightarrow>
     map (\<lambda>e. (ev_number e, ev_operation e)) (ev_rows st s g) =
       map (\<lambda>q. (sq_number q, sq_operation q)) (seq_rows st s g) \<and>
     list_all (\<lambda>e. ev_digest e \<noteq> '''') (ev_rows st s g)"

lemma fold_max_upto: "a \<le> b \<Longrightarrow> fold max [a + 1..b] a = (b :: int)"
proof (induction "nat (b - a)" arbitrary: a)
  case (Suc n)
  then have "a < b" by simp
  then have "fold max [a + 1..b] a = fold max [(a + 1) + 1..b] (a + 1)"
    by (subst upto.simps) simp
  also have "\<dots> = b" by (rule Suc.hyps(1)) (use Suc.hyps(2) \<open>a < b\<close> in simp_all)
  finally show ?case .
qed simp

lemma next_sequence_ok:
  assumes "sequence_ok st s g"
  shows "next_sequence st s g = int (length (seq_rows st s g)) + 1"
proof (cases "seq_rows st s g = []")
  case True
  then show ?thesis unfolding next_sequence_def by simp
next
  case False
  then have "1 \<le> int (length (seq_rows st s g))"
    by (metis One_nat_def Suc_leI length_greater_0_conv of_nat_1 of_nat_mono)
  with assms show ?thesis
    using fold_max_upto [of 1 "int (length (seq_rows st s g))"]
    unfolding next_sequence_def sequence_ok_def by (simp add: upto.simps [of 1])
qed

lemma append_sequence_rows:
  "seq_rows (append_sequence s g oper now st) s' g' =
   (if s' = s \<and> g' = g
    then seq_rows st s g @ [\<lparr>sq_slot = s, sq_generation = g, sq_number = next_sequence st s g,
           sq_operation = oper, sq_at = now\<rparr>]
    else seq_rows st s' g')"
  by (auto simp: append_sequence_def)

lemma append_sequence_ok:
  "sequence_ok st s' g' \<Longrightarrow> sequence_ok (append_sequence s g oper now st) s' g'"
  using next_sequence_ok [of st s g] upto_snoc [of 1 "int (length (seq_rows st s g))"]
  by (auto simp: sequence_ok_def append_sequence_rows add.commute)

lemma sequence_ok_cong: "sequence_tbl st' = sequence_tbl st \<Longrightarrow> sequence_ok st' s g = sequence_ok st s g"
  by (simp add: sequence_ok_def)

lemma evidence_ok_cong:
  "sequence_tbl st' = sequence_tbl st \<Longrightarrow> evidence_tbl st' = evidence_tbl st \<Longrightarrow>
   evidence_ok st' s g = evidence_ok st s g"
  by (simp add: evidence_ok_def)

lemma record_stage_sequence:
  "sequence_ok st s' g' \<Longrightarrow> sequence_ok (snd (record_stage s g oper att now st)) s' g'"
  using append_sequence_ok [of st s' g' s g oper now]
  by (auto simp: record_stage_def Let_def sequence_ok_def)

lemma evidence_ok_free:
  assumes "sequence_ok st s g" "evidence_ok st s g"
  shows "evidence_at st s g (next_sequence st s g) = None"
proof -
  have "map ev_number (ev_rows st s g) = map fst (map (\<lambda>e. (ev_number e, ev_operation e)) (ev_rows st s g))"
    by simp
  also have "\<dots> = map sq_number (seq_rows st s g)" using assms(2) by (simp add: evidence_ok_def)
  also have "\<dots> = [1..int (length (seq_rows st s g))]" using assms(1) by (simp add: sequence_ok_def)
  finally have "ev_number e \<in> {1..int (length (seq_rows st s g))}" if "e \<in> set (ev_rows st s g)" for e
    using that by (metis (no_types, lifting) image_eqI list.set_map set_upto)
  then show ?thesis
    unfolding evidence_at_def find_None_iff next_sequence_ok [OF assms(1)] by fastforce
qed

lemma record_stage_evidence:
  assumes "sequence_ok st s' g'" "evidence_ok st s' g'"
  shows "evidence_ok (snd (record_stage s g oper att now st)) s' g'"
proof (cases "s' = s \<and> g' = g")
  case True
  with assms evidence_ok_free show ?thesis
    by (auto simp: record_stage_def Let_def evidence_ok_def append_sequence_def)
next
  case False
  with assms(2) show ?thesis
    by (auto simp: record_stage_def Let_def evidence_ok_def append_sequence_def)
qed

lemma sort_key_upto:
  assumes "map f xs = [1..int (length xs)]"
  shows "sort_key f xs = xs"
  using assms by (intro sort_key_id_if_sorted) simp

lemma find_by_number:
  assumes "map (\<lambda>e. (f e, h e)) es = map (\<lambda>q. (k q, l q)) qs" "distinct (map k qs)" "q \<in> set qs"
  shows "\<exists>e \<in> set es. find (\<lambda>e. f e = k q) es = Some e \<and> h e = l q"
  using assms
proof (induction qs arbitrary: es)
  case (Cons q' qs)
  then obtain e es' where es: "es = e # es'" "f e = k q'" "h e = l q'"
      "map (\<lambda>e. (f e, h e)) es' = map (\<lambda>q. (k q, l q)) qs"
    by (cases es) auto
  show ?case
  proof (cases "q = q'")
    case True
    with es show ?thesis by simp
  next
    case False
    with Cons.prems have "q \<in> set qs" "k q \<noteq> k q'" by (auto simp: image_iff)
    with Cons.IH [OF es(4)] Cons.prems(2) es show ?thesis by simp
  qed
qed simp

lemma covered_lists:
  assumes n: "map sq_number qs = [1..int (length qs)]"
    and pairs: "map (\<lambda>e. (ev_number e, ev_operation e)) es = map (\<lambda>q. (sq_number q, sq_operation q)) qs"
    and dig: "list_all (\<lambda>e. ev_digest e \<noteq> '''') es"
  shows "list_all (evidence_covers es) qs \<and> list_all (\<lambda>e. ev_number e \<in> set (map sq_number qs)) es \<and>
    map ev_number es = [1..int (length es)]"
proof -
  have m: "map ev_number es = map sq_number qs"
    using arg_cong [OF pairs, of "map fst"] by (simp add: comp_def)
  have d: "distinct (map sq_number qs)" unfolding n by simp
  have "evidence_covers es q" if "q \<in> set qs" for q
  proof -
    from find_by_number [OF pairs d that]
    obtain x where "x \<in> set es" "find (\<lambda>e. ev_number e = sq_number q) es = Some x"
        "ev_operation x = sq_operation q" by blast
    with dig show ?thesis by (simp add: evidence_covers_def list_all_iff)
  qed
  moreover have "ev_number e \<in> set (map sq_number qs)" if "e \<in> set es" for e
    unfolding m [symmetric] using that by simp
  moreover have "length es = length qs" using arg_cong [OF m, of length] by simp
  ultimately show ?thesis using m n by (simp add: list_all_iff)
qed

lemma evidence_complete:
  assumes s: "sequence_ok st s g" and e: "evidence_ok st s g"
  shows "assert_evidence_complete st s g = Inr ()"
proof -
  define qs where "qs = seq_rows st s g"
  define es where "es = ev_rows st s g"
  have n: "map sq_number qs = [1..int (length qs)]"
    using s by (simp add: sequence_ok_def qs_def)
  have c: "list_all (evidence_covers es) qs" "list_all (\<lambda>e. ev_number e \<in> set (map sq_number qs)) es"
      "map ev_number es = [1..int (length es)]"
    using covered_lists [OF n, of es] e by (simp_all add: evidence_ok_def qs_def es_def)
  have q: "sequence_for_occupancy st s g = qs"
    unfolding sequence_for_occupancy_def qs_def [symmetric] by (rule sort_key_upto [OF n])
  have ev: "stage_evidence_for_occupancy st s g = es"
    unfolding stage_evidence_for_occupancy_def es_def [symmetric] by (rule sort_key_upto [OF c(3)])
  have "assert_sequence_valid st s g = Inr ()"
    using n by (simp add: assert_sequence_valid_def q Let_def)
  then show ?thesis
    unfolding assert_evidence_complete_def q ev Let_def using c(1,2) by simp
qed

text \<open>The operations that leave both tables alone, and the whole step.\<close>

lemma evidence_tables_kept:
  assumes "\<forall>s g oper now. x \<noteq> OpRecordSequence s g oper now"
    and "\<forall>s g oper att now. x \<noteq> OpRecordStage s g oper att now"
  shows "sequence_tbl (slot_step sha x st) = sequence_tbl st \<and>
         evidence_tbl (slot_step sha x st) = evidence_tbl st"
proof (cases x)
  case (OpAssign u now)
  then show ?thesis
    by (cases "slot_assign u now st")
      (auto elim!: slot_assign_cases simp: claim_slot_def update_slot_def ledger_insert_or_ignore_def
        split: option.splits)
next
  case (OpReleaseAfterTombstone u s g p now)
  then show ?thesis
    by (cases "release_after_tombstone u s g p now st")
      (auto elim!: release_after_tombstone_cases simp: update_slot_def)
next
  case (OpAuditCheckpoint b s now)
  then show ?thesis
    by (simp add: audit_checkpoint_def block_allocation_def quarantine_slot_def Let_def
        split: sum.splits option.splits)
qed (use assms in \<open>simp_all add: slot_release_def update_slot_def ledger_insert_or_ignore_def
      quarantine_slot_def Let_def clear_quarantine_def record_audit_def block_allocation_def
      assert_occupancy_integrity_def clear_allocation_block_def split: option.splits sum.splits\<close>)

definition sequences_only :: "int \<Rightarrow> int \<Rightarrow> slot_op \<Rightarrow> bool" where
  "sequences_only s g x \<longleftrightarrow> (case x of OpRecordSequence s' g' _ _ \<Rightarrow> s' = s \<and> g' = g | _ \<Rightarrow> False)"

lemma slot_step_sequence: "sequence_ok st s g \<Longrightarrow> sequence_ok (slot_step sha x st) s g"
proof (cases "(\<exists>s g oper now. x = OpRecordSequence s g oper now) \<or> (\<exists>s g oper att now. x = OpRecordStage s g oper att now)")
  case True
  assume "sequence_ok st s g"
  with True show ?thesis
    by (auto simp: record_sequence_def append_sequence_ok record_stage_sequence)
next
  case False
  assume "sequence_ok st s g"
  with False evidence_tables_kept [of x sha st] sequence_ok_cong show ?thesis by blast
qed

lemma slot_step_evidence:
  assumes "sequence_ok st s g" "evidence_ok st s g" "\<not> sequences_only s g x"
  shows "evidence_ok (slot_step sha x st) s g"
proof -
  consider s' g' oper now where "x = OpRecordSequence s' g' oper now"
    | s' g' oper att now where "x = OpRecordStage s' g' oper att now"
    | "\<forall>s g oper now. x \<noteq> OpRecordSequence s g oper now" "\<forall>s g oper att now. x \<noteq> OpRecordStage s g oper att now"
    by blast
  then show ?thesis
  proof cases
    case (1 s' g' oper now)
    with assms(3) have "\<not> (s' = s \<and> g' = g)" by (simp add: sequences_only_def)
    with 1 assms(2) show ?thesis
      by (auto simp: record_sequence_def evidence_ok_def append_sequence_def)
  next
    case 2
    with assms record_stage_evidence show ?thesis by simp
  next
    case 3
    with evidence_tables_kept [of x sha st] evidence_ok_cong assms(2) show ?thesis by blast
  qed
qed

lemma slot_run_sequence: "sequence_ok st s g \<Longrightarrow> sequence_ok (slot_run sha xs st) s g"
  by (induction xs arbitrary: st) (simp_all add: slot_step_sequence)

lemma slot_run_evidence:
  "sequence_ok st s g \<Longrightarrow> evidence_ok st s g \<Longrightarrow> list_all (\<lambda>x. \<not> sequences_only s g x) xs \<Longrightarrow>
   evidence_ok (slot_run sha xs st) s g"
  by (induction xs arbitrary: st) (simp_all add: slot_step_sequence slot_step_evidence)

text \<open>
  Whatever happens to a fresh store, the operation numbers of every occupancy are 1, 2, 3, ...
  without gap or repetition; and an occupancy whose operations are only ever recorded as stages
  (sequence row and evidence together) always passes the evidence-completeness check.
\<close>
theorem stages_always_evidenced:
  assumes "new_slot_store n = Inr st"
  shows "assert_sequence_valid (slot_run sha ops st) s g = Inr () \<and>
         (list_all (\<lambda>x. \<not> sequences_only s g x) ops \<longrightarrow>
            assert_evidence_complete (slot_run sha ops st) s g = Inr ())"
proof -
  have 0: "sequence_ok st s g" "evidence_ok st s g"
    using assms by (auto simp: new_slot_store_def sequence_ok_def evidence_ok_def split: if_splits)
  from slot_run_sequence [OF 0(1)] have q: "sequence_ok (slot_run sha ops st) s g" .
  then have "sequence_for_occupancy (slot_run sha ops st) s g = seq_rows (slot_run sha ops st) s g"
    unfolding sequence_for_occupancy_def by (intro sort_key_upto) (simp add: sequence_ok_def)
  with q have "assert_sequence_valid (slot_run sha ops st) s g = Inr ()"
    by (simp add: assert_sequence_valid_def sequence_ok_def Let_def)
  with evidence_complete [OF q slot_run_evidence [OF 0]] show ?thesis by blast
qed

section \<open>Concrete instances\<close>

definition demo_event :: "string \<Rightarrow> audit_material" where
  "demo_event ev = \<lparr>am_event = ev, am_runtime_uuid = ''u'', am_slot = 1, am_generation = 1,
     am_occupancy_id = '''', am_operation = '''', am_provisioning_job_id = None,
     am_correlation_id = '''', am_prior_state = '''', am_resulting_state = '''',
     am_integrity_outcome = '''', am_quarantined = False, am_agent_version = '''',
     am_manifest_version = '''', am_protocol_version = Some 1, am_at = 0\<rparr>"

definition demo_sha :: "string \<Rightarrow> string" where
  "demo_sha x = digits_of (length x)"

abbreviation demo_audited :: slot_store where
  "demo_audited \<equiv> slot_run demo_sha
     [OpRecordAudit (demo_event ''slot_assigned'') (Some 1) (Some 1),
      OpRecordAudit (demo_event ''stop_completed'') (Some 1) (Some 1)] demo_store"

lemma demo_sha_hex: "hex_digest demo_sha"
proof -
  have "CHR ''|'' \<notin> set (digits_of n)" for n
    using digits_of_digits [of n] by (auto simp: list_all_iff is_digit_def)
  moreover have "CHR ''g'' \<notin> set (digits_of n)" for n
    using digits_of_digits [of n] by (auto simp: list_all_iff is_digit_def)
  ultimately show ?thesis
    unfolding hex_digest_def demo_sha_def audit_genesis_def by (metis list.set_intros(1))
qed

lemma demo_audited_length: "length (audit_tbl demo_audited) = 2"
  by (simp add: record_audit_def audit_events_def demo_event_def Let_def demo_store_def)

lemma demo_audited_valid: "verify_audit_chain demo_sha demo_audited = Inr 2"
  using slot_run_valid [OF chain_valid_new [OF demo_store_new], of demo_sha
      "[OpRecordAudit (demo_event ''slot_assigned'') (Some 1) (Some 1),
        OpRecordAudit (demo_event ''stop_completed'') (Some 1) (Some 1)]"]
  unfolding verify_audit_chain_iff [symmetric] demo_audited_length .

theorem audit_chain_always_valid_witness:
  "verify_audit_chain demo_sha demo_audited = Inr 2"
  using audit_chain_always_valid [OF demo_store_new, of demo_sha
      "[OpRecordAudit (demo_event ''slot_assigned'') (Some 1) (Some 1),
        OpRecordAudit (demo_event ''stop_completed'') (Some 1) (Some 1)]"]
  unfolding demo_audited_length .

theorem audit_head_commits_witness:
  "audit_tbl demo_audited = audit_tbl demo_audited \<or> collision demo_sha"
  by (rule audit_head_commits [OF demo_sha_hex demo_audited_valid demo_audited_valid refl])

theorem audit_deletion_witness:
  "verify_audit_chain demo_sha (delete_audit 1 demo_audited) = Inr 1"
  using audit_deletion [OF demo_sha_hex demo_audited_valid, of 1] demo_audited_length by simp

theorem stages_always_evidenced_witness:
  "assert_evidence_complete (slot_run id [OpRecordStage 1 1 ''START''
     \<lparr>at_evidence_digest = ''d'', at_stage_status = ''ok'', at_failure_category = '''',
      at_reason_code = ''''\<rparr> 5] demo_store) 1 1 = Inr ()"
  by (rule stages_always_evidenced [OF demo_store_new, THEN conjunct2, rule_format])
    (simp add: sequences_only_def)

end
