(* ===== verification/AgentStores.thy ===== *)
theory AgentStores
  imports PyJson
begin

text \<open>
  The durable replay and idempotency store of the management agent
  (\<^verbatim>\<open>deploy/beta-agent/stores.py\<close>, class \<open>SqliteStore\<close>) and its in-process mutation
  gate (\<open>RuntimeLockManager\<close>), the latter as a step relation over the threads that pass through
  it.
\<close>

section \<open>Replay and idempotency tables\<close>

text \<open>
  A value bound to the TEXT column \<open>nonce\<close>. SQLite allows any number of NULLs under a TEXT primary
  key; containers and integers beyond 64 bits cannot be bound and raise.
\<close>

datatype nonce_value = NonceNull | NonceText string | NonceUnbindable

definition int64 :: "int \<Rightarrow> bool" where
  "int64 i \<longleftrightarrow> - (2 ^ 63) \<le> i \<and> i < 2 ^ 63"

fun bind_nonce :: "json \<Rightarrow> nonce_value" where
  "bind_nonce JNull = NonceNull"
| "bind_nonce (JBool b) = NonceText (if b then ''1'' else ''0'')"
| "bind_nonce (JInt i) = (if int64 i then NonceText (py_str_int i) else NonceUnbindable)"
| "bind_nonce (JFloat _ t) = NonceText t"
| "bind_nonce (JStr s) = NonceText s"
| "bind_nonce (JArr _) = NonceUnbindable"
| "bind_nonce (JObj _) = NonceUnbindable"

record idem_record =
  ir_digest :: string
  ir_response :: json

record agent_store =
  nonces_tbl :: "(string option \<times> int) list"
  idem_tbl :: "((int \<times> string) \<times> idem_record) list"

definition new_agent_store :: agent_store where
  "new_agent_store = \<lparr>nonces_tbl = [], idem_tbl = []\<rparr>"

definition nonce_seen :: "agent_store \<Rightarrow> string \<Rightarrow> bool" where
  "nonce_seen st n \<longleftrightarrow> list_ex (\<lambda>(m, _). m = Some n) (nonces_tbl st)"

text \<open>\<open>INSERT OR IGNORE\<close>; true exactly when a row was inserted.\<close>

fun burn :: "nonce_value \<Rightarrow> int \<Rightarrow> agent_store \<Rightarrow> (unit, bool, agent_store) outcome" where
  "burn NonceUnbindable expiry st = (Inl (), st)"
| "burn NonceNull expiry st =
     (if \<not> int64 expiry then (Inl (), st)
      else (Inr True, st\<lparr>nonces_tbl := nonces_tbl st @ [(None, expiry)]\<rparr>))"
| "burn (NonceText n) expiry st =
     (if \<not> int64 expiry then (Inl (), st)
      else if nonce_seen st n then (Inr False, st)
      else (Inr True, st\<lparr>nonces_tbl := nonces_tbl st @ [(Some n, expiry)]\<rparr>))"

definition purge_expired_nonces :: "int \<Rightarrow> agent_store \<Rightarrow> agent_store" where
  "purge_expired_nonces now st = st\<lparr>nonces_tbl := filter (\<lambda>(_, e). \<not> e < now) (nonces_tbl st)\<rparr>"

definition idem_get :: "int \<Rightarrow> string \<Rightarrow> agent_store \<Rightarrow> idem_record option" where
  "idem_get job oper st = map_of (idem_tbl st) (job, oper)"

definition idem_put :: "int \<Rightarrow> string \<Rightarrow> idem_record \<Rightarrow> agent_store \<Rightarrow> agent_store" where
  "idem_put job oper r st =
     st\<lparr>idem_tbl := ((job, oper), r) # filter (\<lambda>(k, _). k \<noteq> (job, oper)) (idem_tbl st)\<rparr>"

lemma map_of_filter_other: "k \<noteq> k' \<Longrightarrow> map_of (filter (\<lambda>(x, _). x \<noteq> k') xs) k = map_of xs k"
  by (induction xs) auto

lemma idem_get_put:
  "idem_get j oper (idem_put j' oper' r st) = (if (j, oper) = (j', oper') then Some r else idem_get j oper st)"
  by (simp add: idem_get_def idem_put_def map_of_filter_other)

lemma burn_frame [simp]: "idem_tbl (snd (burn n e st)) = idem_tbl st"
  by (cases "(n, e, st)" rule: burn.cases) auto

lemma idem_put_nonces [simp]: "nonces_tbl (idem_put j oper r st) = nonces_tbl st"
  by (simp add: idem_put_def)

lemma nonce_seen_cong: "nonces_tbl st' = nonces_tbl st \<Longrightarrow> nonce_seen st' n = nonce_seen st n"
  by (simp add: nonce_seen_def)

lemma burn_seen: "fst (burn (NonceText n) e st) = Inr b \<Longrightarrow> nonce_seen (snd (burn (NonceText n) e st)) n"
  by (auto simp: nonce_seen_def split: if_splits)

lemma burn_refused: "fst (burn n e st) \<noteq> Inr True \<Longrightarrow> snd (burn n e st) = st"
  by (cases "(n, e, st)" rule: burn.cases) (auto split: if_splits)

text \<open>
  What the request verifier relies on of a replay store, whatever holds the nonces: a burn
  succeeds only on a nonce that is not yet present, a nonce burnt with an expiry stays present
  until a purge later than that expiry, and no other operation drops it.
\<close>

locale replay_store =
  fixes burn_op :: "string \<Rightarrow> int \<Rightarrow> 's \<Rightarrow> ('e, bool, 's) outcome"
    and purge_op :: "int \<Rightarrow> 's \<Rightarrow> 's"
    and present :: "'s \<Rightarrow> string \<Rightarrow> int \<Rightarrow> bool"
  assumes burn_fresh: "burn_op n e s = (Inr True, s') \<Longrightarrow> \<not> present s n e'"
    and burn_present: "burn_op n e s = (Inr True, s') \<Longrightarrow> present s' n e"
    and burn_keeps: "burn_op n e s = (r, s') \<Longrightarrow> present s m d \<Longrightarrow> present s' m d"
    and purge_keeps: "present s m d \<Longrightarrow> now \<le> d \<Longrightarrow> present (purge_op now s) m d"
begin

text \<open>
  A state change respects a deadline when it keeps every nonce whose expiry is that deadline or
  later; over any sequence of such changes a burnt nonce is refused.
\<close>

definition keeps_from :: "int \<Rightarrow> ('s \<Rightarrow> 's) \<Rightarrow> bool" where
  "keeps_from d f \<longleftrightarrow> (\<forall>s m e. d \<le> e \<longrightarrow> present s m e \<longrightarrow> present (f s) m e)"

lemma burn_keeps_from: "keeps_from d (\<lambda>s. snd (burn_op n e s))"
  unfolding keeps_from_def using burn_keeps by (metis prod.collapse)

lemma purge_keeps_from: "now \<le> d \<Longrightarrow> keeps_from d (purge_op now)"
  unfolding keeps_from_def using purge_keeps by (meson order_trans)

lemma present_run:
  "list_all (keeps_from d) fs \<Longrightarrow> d \<le> e \<Longrightarrow> present s n e \<Longrightarrow> present (fold (\<lambda>f. f) fs s) n e"
  by (induction fs arbitrary: s) (auto simp: keeps_from_def)

lemma burn_once:
  assumes "burn_op n e s = (Inr True, s')" "list_all (keeps_from e) fs"
    and "burn_op n e (fold (\<lambda>f. f) fs s') = (Inr b, s'')"
  shows "\<not> b"
proof
  assume b
  with assms(3) have "burn_op n e (fold (\<lambda>f. f) fs s') = (Inr True, s'')" by simp
  from burn_fresh [OF this, of e] present_run [OF assms(2) _ burn_present [OF assms(1)]]
  show False by simp
qed

end

definition nonce_row :: "agent_store \<Rightarrow> string \<Rightarrow> int \<Rightarrow> bool" where
  "nonce_row st n e \<longleftrightarrow> (Some n, e) \<in> set (nonces_tbl st)"

interpretation sqlite: replay_store "\<lambda>n. burn (NonceText n)" purge_expired_nonces nonce_row
proof unfold_locales
  fix n e s s' e'
  assume "burn (NonceText n) e s = (Inr True, s')"
  then show "\<not> nonce_row s n e'"
    by (auto simp: nonce_row_def nonce_seen_def list_ex_iff split: if_splits)
next
  fix n e s s'
  assume "burn (NonceText n) e s = (Inr True, s')"
  then show "nonce_row s' n e" by (auto simp: nonce_row_def split: if_splits)
next
  fix n e s r s' m d
  assume "burn (NonceText n) e s = (r, s')" "nonce_row s m d"
  then show "nonce_row s' m d" by (auto simp: nonce_row_def split: if_splits)
next
  fix s m d now
  assume "nonce_row s m d" "(now :: int) \<le> d"
  then show "nonce_row (purge_expired_nonces now s) m d"
    by (auto simp: nonce_row_def purge_expired_nonces_def)
qed

end
