(* ===== verification/AgentProtocol.thy ===== *)
theory AgentProtocol
  imports AgentStores
begin

text \<open>
  The signed request protocol between the backend and the management agent
  (\<^verbatim>\<open>deploy/beta-agent/lib/mgmt_protocol.py\<close>). \<open>hmac\<close> maps a key and a body to the
  hexadecimal HMAC-SHA256 and \<open>sha\<close> is the hexadecimal SHA-256; a request is the JSON value the
  agent received.
\<close>

section \<open>Constants and fields\<close>

definition protocol_version :: int where "protocol_version = 1"

definition provisioning_operations :: "string list" where
  "provisioning_operations = [''MATERIALISE'', ''START'', ''VERIFY'', ''STOP'', ''TOMBSTONE'', ''RELEASE'']"

definition credentialed_operations :: "string list" where
  "credentialed_operations = [''VALIDATE_LOGIN'']"

definition handshake_operations :: "string list" where
  "handshake_operations = [''NEGOTIATE'']"

definition supported_operations :: "string list" where
  "supported_operations = provisioning_operations @ credentialed_operations"

definition allowed_operations :: "string list" where
  "allowed_operations = provisioning_operations @ credentialed_operations @ handshake_operations"

definition signed_fields :: "string list" where
  "signed_fields = [''protocol_version'', ''provisioning_job_id'', ''runtime_uuid'', ''operation'',
     ''timestamp'', ''expiry'', ''nonce'', ''correlation_id'', ''key_id'']"

definition semantic_fields :: "string list" where
  "semantic_fields = [''protocol_version'', ''provisioning_job_id'', ''runtime_uuid'', ''operation'']"

text \<open>A sanitised denial, or any other exception.\<close>

datatype agent_error = Denied string | Crashed

section \<open>Serialisation of the signed part\<close>

text \<open>\<open>{k: request[k] for k in keys}\<close> for keys that are present.\<close>

definition project_fields :: "json \<Rightarrow> string list \<Rightarrow> json" where
  "project_fields r ks = JObj (map (\<lambda>k. (k, case obj_get r k of Some v \<Rightarrow> v | None \<Rightarrow> JNull)) ks)"

definition body_keys :: "json \<Rightarrow> string list" where
  "body_keys r = (if obj_get r ''payload_digest'' \<noteq> None then signed_fields @ [''payload_digest'']
                  else signed_fields)"

definition canonical_body :: "json \<Rightarrow> string" where
  "canonical_body r = json_dumps (project_fields r (body_keys r))"

definition payload_digest_of :: "(string \<Rightarrow> string) \<Rightarrow> json \<Rightarrow> string" where
  "payload_digest_of sha payload = sha (json_dumps payload)"

definition semantic_digest :: "(string \<Rightarrow> string) \<Rightarrow> json \<Rightarrow> string" where
  "semantic_digest sha r = sha (json_dumps (project_fields r semantic_fields))"

section \<open>Signing\<close>

text \<open>
  \<open>sign_request\<close>, for the integer and text arguments the backend passes and the nonce it drew.
\<close>

definition request_fields ::
  "int \<Rightarrow> string \<Rightarrow> string \<Rightarrow> string \<Rightarrow> string \<Rightarrow> int \<Rightarrow> int \<Rightarrow> string \<Rightarrow> (string \<times> json) list" where
  "request_fields job ruuid oper corr key_id now ttl nonce =
     [(''protocol_version'', JInt protocol_version), (''provisioning_job_id'', JInt job),
      (''runtime_uuid'', JStr ruuid), (''operation'', JStr oper), (''timestamp'', JInt now),
      (''expiry'', JInt (now + ttl)), (''nonce'', JStr nonce), (''correlation_id'', JStr corr),
      (''key_id'', JStr key_id)]"

definition sign_request ::
  "(string \<Rightarrow> string \<Rightarrow> string) \<Rightarrow> (string \<Rightarrow> string) \<Rightarrow> (string \<rightharpoonup> string) \<Rightarrow> int \<Rightarrow> string \<Rightarrow> string \<Rightarrow>
   string \<Rightarrow> string \<Rightarrow> int \<Rightarrow> int \<Rightarrow> string \<Rightarrow> json option \<Rightarrow> agent_error + json" where
  "sign_request hmac sha keyring job ruuid oper corr key_id now ttl nonce payload =
     (if oper \<notin> set allowed_operations then Inl (Denied ''operation_not_allowed'')
      else case keyring key_id of
        None \<Rightarrow> Inl (Denied ''unknown_key_id'')
      | Some key \<Rightarrow>
          if payload = None \<and> oper \<in> set credentialed_operations then Inl (Denied ''payload_required'')
          else
            (let fs = request_fields job ruuid oper corr key_id now ttl nonce @
                   (case payload of None \<Rightarrow> []
                    | Some p \<Rightarrow> [(''payload_digest'', JStr (payload_digest_of sha p)), (''payload'', p)])
             in Inr (JObj (fs @ [(''signature'', JStr (hmac key (canonical_body (JObj fs))))]))))"

section \<open>Verification\<close>

text \<open>\<open>v != 1\<close> on a JSON value: the integer, the float and \<open>True\<close> are equal to 1.\<close>

fun json_equals_int :: "json \<Rightarrow> int \<Rightarrow> bool" where
  "json_equals_int (JInt i) n = (i = n)"
| "json_equals_int (JBool b) n = ((if b then 1 else 0) = n)"
| "json_equals_int (JFloat (Finite r) _) n = (r = of_int n)"
| "json_equals_int _ n = False"

text \<open>\<open>isinstance(v, int)\<close>; a boolean is an integer.\<close>

fun as_int :: "json \<Rightarrow> int option" where
  "as_int (JInt i) = Some i"
| "as_int (JBool b) = Some (if b then 1 else 0)"
| "as_int _ = None"

text \<open>\<open>v in tuple_of_texts\<close>.\<close>

definition json_in :: "json option \<Rightarrow> string list \<Rightarrow> bool" where
  "json_in v xs \<longleftrightarrow> (case v of Some (JStr s) \<Rightarrow> s \<in> set xs | _ \<Rightarrow> False)"

text \<open>The key lookup; a list or object is not hashable and raises.\<close>

fun key_lookup :: "(string \<rightharpoonup> string) \<Rightarrow> json \<Rightarrow> agent_error + string" where
  "key_lookup keyring (JStr s) =
     (case keyring s of None \<Rightarrow> Inl (Denied ''unknown_key_id'') | Some key \<Rightarrow> Inr key)"
| "key_lookup keyring (JArr _) = Inl Crashed"
| "key_lookup keyring (JObj _) = Inl Crashed"
| "key_lookup keyring _ = Inl (Denied ''unknown_key_id'')"

text \<open>\<open>hmac.compare_digest\<close> of texts raises on a character outside ASCII.\<close>

definition is_ascii :: "string \<Rightarrow> bool" where
  "is_ascii s \<longleftrightarrow> list_all (\<lambda>c. (of_char c :: nat) < 128) s"

definition compare_digest :: "string \<Rightarrow> string \<Rightarrow> string \<Rightarrow> agent_error + unit" where
  "compare_digest reason a b =
     (if \<not> (is_ascii a \<and> is_ascii b) then Inl Crashed
      else if a \<noteq> b then Inl (Denied reason) else Inr ())"

definition check_time :: "int \<Rightarrow> int \<Rightarrow> json \<Rightarrow> agent_error + int" where
  "check_time now max_skew r =
     (case (Option.bind (obj_get r ''timestamp'') as_int, Option.bind (obj_get r ''expiry'') as_int) of
        (Some ts, Some e) \<Rightarrow>
          if \<bar>now - ts\<bar> > max_skew then Inl (Denied ''timestamp_skew'')
          else if now > e then Inl (Denied ''request_expired'')
          else if e - ts > 600 then Inl (Denied ''expiry_too_far'')
          else Inr e
      | _ \<Rightarrow> Inl (Denied ''malformed_time''))"

definition check_payload :: "(string \<Rightarrow> string) \<Rightarrow> json \<Rightarrow> agent_error + unit" where
  "check_payload sha r =
     (if json_in (obj_get r ''operation'') credentialed_operations \<or> obj_get r ''payload_digest'' \<noteq> None
      then case (obj_get r ''payload'', obj_get r ''payload_digest'') of
        (Some (JObj kvs), Some d) \<Rightarrow>
          compare_digest ''payload_digest_mismatch'' (payload_digest_of sha (JObj kvs)) (py_str d)
      | _ \<Rightarrow> Inl (Denied ''payload_missing'')
      else Inr ())"

text \<open>Everything \<open>verify_request\<close> checks before it burns the nonce; the result is the expiry.\<close>

definition verify_checks ::
  "(string \<Rightarrow> string \<Rightarrow> string) \<Rightarrow> (string \<Rightarrow> string) \<Rightarrow> (string \<rightharpoonup> string) \<Rightarrow> int \<Rightarrow> int \<Rightarrow> json \<Rightarrow>
   agent_error + int" where
  "verify_checks hmac sha keyring now max_skew r =
     (case r of
        JObj _ \<Rightarrow>
          if \<not> (case obj_get r ''protocol_version'' of
                  None \<Rightarrow> False | Some v \<Rightarrow> json_equals_int v protocol_version)
          then Inl (Denied ''unsupported_protocol_version'')
          else if \<not> json_in (obj_get r ''operation'') allowed_operations
          then Inl (Denied ''operation_not_allowed'')
          else if list_ex (\<lambda>f. obj_get r f = None) signed_fields then Inl (Denied ''missing_field'')
          else (case obj_get r ''signature'' of
            Some (JStr sig) \<Rightarrow>
              if sig = '''' then Inl (Denied ''missing_signature'')
              else (case key_lookup keyring (the (obj_get r ''key_id'')) of
                Inl e \<Rightarrow> Inl e
              | Inr key \<Rightarrow>
                  (case check_time now max_skew r of
                     Inl e \<Rightarrow> Inl e
                   | Inr expiry \<Rightarrow>
                       (case compare_digest ''bad_signature'' (hmac key (canonical_body r)) sig of
                          Inl e \<Rightarrow> Inl e
                        | Inr _ \<Rightarrow>
                            (case check_payload sha r of Inl e \<Rightarrow> Inl e | Inr _ \<Rightarrow> Inr expiry))))
          | _ \<Rightarrow> Inl (Denied ''missing_signature''))
      | _ \<Rightarrow> Inl (Denied ''malformed_request''))"

definition verify_request ::
  "(string \<Rightarrow> string \<Rightarrow> string) \<Rightarrow> (string \<Rightarrow> string) \<Rightarrow> (string \<rightharpoonup> string) \<Rightarrow> int \<Rightarrow> int \<Rightarrow> json \<Rightarrow>
   agent_store \<Rightarrow> (agent_error, json, agent_store) outcome" where
  "verify_request hmac sha keyring now max_skew r st =
     (case verify_checks hmac sha keyring now max_skew r of
        Inl e \<Rightarrow> (Inl e, st)
      | Inr expiry \<Rightarrow>
          (case burn (bind_nonce (the (obj_get r ''nonce''))) expiry st of
             (Inl _, st') \<Rightarrow> (Inl Crashed, st')
           | (Inr b, st') \<Rightarrow>
               if \<not> b then (Inl (Denied ''nonce_replayed''), st')
               else (Inr (project_fields r signed_fields), st')))"

section \<open>What an accepted request shows\<close>

lemma verify_checks_accepts:
  assumes "verify_checks hmac sha keyring now max_skew r = Inr expiry"
  obtains key sig ts where
    "key_lookup keyring (the (obj_get r ''key_id'')) = Inr key"
    "obj_get r ''signature'' = Some (JStr sig)" "sig = hmac key (canonical_body r)"
    "list_all (\<lambda>f. obj_get r f \<noteq> None) signed_fields"
    "check_time now max_skew r = Inr expiry" "check_payload sha r = Inr ()"
    "json_in (obj_get r ''operation'') allowed_operations"
  using assms
  by (auto simp: verify_checks_def compare_digest_def list_ex_iff list_all_iff
      split: json.splits if_splits option.splits sum.splits)

lemma check_time_accepts:
  "check_time now max_skew r = Inr e \<Longrightarrow> now \<le> e \<and> e \<le> now + max_skew + 600"
  by (auto simp: check_time_def split: option.splits if_splits)

lemma verify_request_accepts:
  assumes "verify_request hmac sha keyring now max_skew r st = (Inr f, st')"
  obtains expiry where "verify_checks hmac sha keyring now max_skew r = Inr expiry"
    "burn (bind_nonce (the (obj_get r ''nonce''))) expiry st = (Inr True, st')"
    "f = project_fields r signed_fields"
  using assms by (auto simp: verify_request_def split: sum.splits prod.splits if_splits)

lemma verify_request_effect:
  assumes v: "verify_request hmac sha keyring now max_skew r st = (res, st')"
  shows "(failed res \<longrightarrow> st' = st) \<and> idem_tbl st' = idem_tbl st \<and> set (nonces_tbl st) \<subseteq> set (nonces_tbl st')"
proof (cases "verify_checks hmac sha keyring now max_skew r")
  case (Inl e)
  with v show ?thesis by (auto simp: verify_request_def)
next
  case (Inr expiry)
  obtain b st1 where b: "burn (bind_nonce (the (obj_get r ''nonce''))) expiry st = (b, st1)"
    by (cases "burn (bind_nonce (the (obj_get r ''nonce''))) expiry st")
  have k: "set (nonces_tbl st) \<subseteq> set (nonces_tbl (snd (burn n e st)))" for n e
    by (cases "(n, e, st)" rule: burn.cases) auto
  from b k burn_frame have f: "idem_tbl st1 = idem_tbl st" "set (nonces_tbl st) \<subseteq> set (nonces_tbl st1)"
    by (metis snd_conv)+
  from v Inr b have st': "st' = st1" by (auto simp: verify_request_def split: sum.splits if_splits)
  have "st1 = st" if "b \<noteq> Inr True" using burn_refused b that by (metis fst_conv snd_conv)
  moreover have "b = Inr True \<Longrightarrow> succeeded res" using v Inr b by (auto simp: verify_request_def)
  ultimately show ?thesis using f st' by (cases "b = Inr True") (auto split: sum.splits)
qed

text \<open>
  A refused request leaves the replay store exactly as it was, so an unsigned or expired
  request cannot use up the nonce of a genuine one; an accepted request only adds to it.
\<close>
theorem refused_request_burns_nothing:
  assumes "verify_request hmac sha keyring now max_skew r st = (res, st')"
  shows "(failed res \<longrightarrow> st' = st) \<and> idem_tbl st' = idem_tbl st \<and>
         set (nonces_tbl st) \<subseteq> set (nonces_tbl st')"
  using assms by (rule verify_request_effect)

text \<open>What happens at the agent between two deliveries of a request: other requests and purges.\<close>

datatype agent_event = Receive json | PurgeNonces

fun event_effect ::
  "(string \<Rightarrow> string \<Rightarrow> string) \<Rightarrow> (string \<Rightarrow> string) \<Rightarrow> (string \<rightharpoonup> string) \<Rightarrow> int \<Rightarrow>
   int \<times> agent_event \<Rightarrow> agent_store \<Rightarrow> agent_store" where
  "event_effect hmac sha keyring k (now, Receive r) st = snd (verify_request hmac sha keyring now k r st)"
| "event_effect hmac sha keyring k (now, PurgeNonces) st = purge_expired_nonces now st"

lemma event_keeps:
  assumes "fst ev \<le> d"
  shows "sqlite.keeps_from d (event_effect hmac sha keyring k ev)"
proof -
  obtain now x where ev: "ev = (now, x)" by (cases ev)
  show ?thesis
  proof (cases x)
    case (Receive r)
    have "set (nonces_tbl st) \<subseteq> set (nonces_tbl (snd (verify_request hmac sha keyring now k r st)))" for st
      using verify_request_effect [OF prod.collapse [symmetric]] by blast
    with ev Receive show ?thesis unfolding sqlite.keeps_from_def nonce_row_def by auto
  next
    case PurgeNonces
    with ev assms sqlite.purge_keeps_from [of now d] show ?thesis by (simp add: sqlite.keeps_from_def)
  qed
qed


lemma key_lookup_text: "key_lookup keyring v = Inr key \<Longrightarrow> \<exists>s. v = JStr s \<and> keyring s = Some key"
  by (cases v) (auto split: option.splits)

lemma body_keys_cases: "body_keys r = signed_fields \<or> body_keys r = signed_fields @ [''payload_digest'']"
  by (simp add: body_keys_def)

lemma project_canon_fields:
  assumes "json_canon (project_fields r ks) = json_canon (project_fields r' ks')"
    and "distinct ks" "distinct ks'"
  shows "set ks = set ks' \<and> (\<forall>k \<in> set ks.
    json_canon (case obj_get r k of Some v \<Rightarrow> v | None \<Rightarrow> JNull) =
    json_canon (case obj_get r' k of Some v \<Rightarrow> v | None \<Rightarrow> JNull))"
proof -
  let ?v = "\<lambda>r k. case obj_get r k of Some v \<Rightarrow> v | None \<Rightarrow> JNull"
  let ?a = "\<lambda>r ks. map (\<lambda>k. (k, json_canon (?v r k))) ks"
  from assms(1) have "set (sort_key fst (?a r ks)) = set (sort_key fst (?a r' ks'))"
    by (simp add: project_fields_def comp_def)
  then have s: "set (?a r ks) = set (?a r' ks')" by (simp only: set_sort)
  have f: "map fst (?a r ks) = ks" for r ks by (simp add: comp_def)
  from s have "set (map fst (?a r ks)) = set (map fst (?a r' ks'))" by (simp only: set_map)
  then have k: "set ks = set ks'" unfolding f .
  have "json_canon (?v r k) = json_canon (?v r' k)" if "k \<in> set ks" for k
    using s that by auto
  with k show ?thesis by blast
qed

text \<open>
  A signature binds every signed field. Two requests whose signed values hold no floating
  point numbers and that carry the same signature under the same key have the same operation,
  runtime, job, times, nonce, correlation id and key id, or the two bodies are an HMAC collision.
\<close>
theorem signature_binds_fields:
  assumes "verify_checks hmac sha keyring now k r = Inr e"
    and "verify_checks hmac sha keyring now' k' r' = Inr e'"
    and "obj_get r ''signature'' = obj_get r' ''signature''"
    and "obj_get r ''key_id'' = obj_get r' ''key_id''"
    and "float_free (project_fields r (body_keys r))" "float_free (project_fields r' (body_keys r'))"
  shows "(\<forall>f \<in> set signed_fields.
            map_option json_canon (obj_get r f) = map_option json_canon (obj_get r' f)) \<or>
         (\<exists>key b b'. b \<noteq> b' \<and> hmac key b = hmac key b')"
proof -
  from assms(1) obtain key sig where 1: "key_lookup keyring (the (obj_get r ''key_id'')) = Inr key"
      "obj_get r ''signature'' = Some (JStr sig)" "sig = hmac key (canonical_body r)"
      "list_all (\<lambda>f. obj_get r f \<noteq> None) signed_fields"
    by (rule verify_checks_accepts)
  from assms(2) obtain key' sig' where 2: "key_lookup keyring (the (obj_get r' ''key_id'')) = Inr key'"
      "obj_get r' ''signature'' = Some (JStr sig')" "sig' = hmac key' (canonical_body r')"
      "list_all (\<lambda>f. obj_get r' f \<noteq> None) signed_fields"
    by (rule verify_checks_accepts)
  from 1 2 assms(3,4) have same: "hmac key (canonical_body r) = hmac key (canonical_body r')"
    by simp
  show ?thesis
  proof (cases "canonical_body r = canonical_body r'")
    case True
    then have "json_canon (project_fields r (body_keys r)) = json_canon (project_fields r' (body_keys r'))"
      unfolding canonical_body_def using json_dumps_inj assms(5,6) by blast
    moreover have d: "distinct (body_keys x)" for x
      using body_keys_cases [of x] by (auto simp: signed_fields_def)
    ultimately have "\<forall>f \<in> set (body_keys r).
        json_canon (case obj_get r f of Some v \<Rightarrow> v | None \<Rightarrow> JNull) =
        json_canon (case obj_get r' f of Some v \<Rightarrow> v | None \<Rightarrow> JNull)"
      using project_canon_fields [OF _ d d] by blast
    moreover have "set signed_fields \<subseteq> set (body_keys r)" using body_keys_cases [of r] by auto
    ultimately have "map_option json_canon (obj_get r f) = map_option json_canon (obj_get r' f)"
      if "f \<in> set signed_fields" for f
      using that 1(4) 2(4) by (fastforce simp: list_all_iff split: option.splits)
    then show ?thesis by blast
  next
    case False
    with same show ?thesis by blast
  qed
qed

section \<open>Signing then verifying\<close>

lemma obj_get_snoc: "k \<noteq> k' \<Longrightarrow> obj_get (JObj (kvs @ [(k', v)])) k = obj_get (JObj kvs) k"
  by (simp add: map_add_def split: option.splits)

lemma canonical_body_unsigned:
  "canonical_body (JObj (kvs @ [(''signature'', v)])) = canonical_body (JObj kvs)"
proof -
  let ?r = "JObj (kvs @ [(''signature'', v)])" and ?s = "JObj kvs"
  have b: "body_keys ?r = body_keys ?s"
    unfolding body_keys_def by (subst obj_get_snoc) simp_all
  have "k \<noteq> ''signature''" if "k \<in> set (body_keys ?s)" for k
    using that body_keys_cases [of ?s] by (auto simp: signed_fields_def)
  then have "project_fields ?r (body_keys ?s) = project_fields ?s (body_keys ?s)"
    unfolding project_fields_def using obj_get_snoc by (auto cong: map_cong simp del: obj_get.simps)
  then show ?thesis unfolding canonical_body_def b by simp
qed

definition text_digests :: "(string \<Rightarrow> string \<Rightarrow> string) \<Rightarrow> (string \<Rightarrow> string) \<Rightarrow> bool" where
  "text_digests hmac sha \<longleftrightarrow>
     (\<forall>k b. is_ascii (hmac k b) \<and> hmac k b \<noteq> '''') \<and> (\<forall>x. is_ascii (sha x))"

lemma signed_request_accepted:
  assumes d: "text_digests hmac sha"
    and s: "sign_request hmac sha keyring job ruuid oper corr kid now ttl nonce payload = Inr r"
    and p: "\<forall>v. payload = Some v \<longrightarrow> (\<exists>kvs. v = JObj kvs)"
    and t: "\<bar>now' - now\<bar> \<le> k" "now' \<le> now + ttl" "ttl \<le> 600" "int64 (now + ttl)"
    and n: "\<not> nonce_seen st nonce"
  shows "verify_request hmac sha keyring now' k r st =
    (Inr (JObj (request_fields job ruuid oper corr kid now ttl nonce)),
     st\<lparr>nonces_tbl := nonces_tbl st @ [(Some nonce, now + ttl)]\<rparr>)"
proof -
  define extra where "extra = (case payload of None \<Rightarrow> []
     | Some v \<Rightarrow> [(''payload_digest'', JStr (payload_digest_of sha v)), (''payload'', v)])"
  define fs where "fs = request_fields job ruuid oper corr kid now ttl nonce @ extra"
  obtain key where key: "keyring kid = Some key" "oper \<in> set allowed_operations"
      "payload = None \<longrightarrow> oper \<notin> set credentialed_operations"
    using s by (auto simp: sign_request_def split: if_splits option.splits)
  have r: "r = JObj (fs @ [(''signature'', JStr (hmac key (canonical_body (JObj fs))))])"
    using s key by (auto simp: sign_request_def Let_def fs_def extra_def split: if_splits)
  have g: "obj_get r ''protocol_version'' = Some (JInt protocol_version)"
      "obj_get r ''provisioning_job_id'' = Some (JInt job)" "obj_get r ''runtime_uuid'' = Some (JStr ruuid)"
      "obj_get r ''operation'' = Some (JStr oper)" "obj_get r ''timestamp'' = Some (JInt now)"
      "obj_get r ''expiry'' = Some (JInt (now + ttl))" "obj_get r ''nonce'' = Some (JStr nonce)"
      "obj_get r ''correlation_id'' = Some (JStr corr)" "obj_get r ''key_id'' = Some (JStr kid)"
    unfolding r fs_def by (simp_all add: request_fields_def)
  have sig: "obj_get r ''signature'' = Some (JStr (hmac key (canonical_body r)))"
    unfolding r canonical_body_unsigned unfolding fs_def extra_def
    by (simp add: request_fields_def split: option.splits)
  have pay: "check_payload sha r = Inr ()"
  proof (cases payload)
    case None
    then have "obj_get r ''payload_digest'' = None"
      unfolding r fs_def extra_def by (simp add: request_fields_def)
    with None key(3) g show ?thesis by (simp add: check_payload_def json_in_def)
  next
    case (Some v)
    then obtain kvs where v: "v = JObj kvs" using p by blast
    have "obj_get r ''payload_digest'' = Some (JStr (payload_digest_of sha v))"
        "obj_get r ''payload'' = Some v"
      unfolding r fs_def extra_def using Some by (simp_all add: request_fields_def)
    with v d show ?thesis
      by (simp add: check_payload_def compare_digest_def text_digests_def payload_digest_of_def)
  qed
  have time: "check_time now' k r = Inr (now + ttl)"
    using t by (simp add: check_time_def g)
  have "list_all (\<lambda>f. obj_get r f \<noteq> None) signed_fields" by (simp add: signed_fields_def g)
  then have ok: "\<not> list_ex (\<lambda>f. obj_get r f = None) signed_fields"
    by (auto simp: list_ex_iff list_all_iff)
  have "is_ascii (hmac key (canonical_body r))" "hmac key (canonical_body r) \<noteq> ''''"
    using d by (simp_all add: text_digests_def)
  then have "verify_checks hmac sha keyring now' k r = Inr (now + ttl)"
    using ok key(1,2) sig pay time g unfolding verify_checks_def
    by (subst (1) r) (simp add: json_in_def compare_digest_def del: obj_get.simps)
  moreover have "project_fields r signed_fields = JObj (request_fields job ruuid oper corr kid now ttl nonce)"
    by (simp add: project_fields_def signed_fields_def request_fields_def g)
  ultimately show ?thesis using g n t(4) by (simp add: verify_request_def)
qed

text \<open>
  C35: What the backend signs the agent accepts. A request built by the signer, with an object as
  payload if it has one, passes verification at any time within its lifetime and the skew when
  its nonce is new, and the agent acts on exactly the fields that were signed.
\<close>
theorem sign_then_verify:
  assumes d: "text_digests hmac sha"
    and s: "sign_request hmac sha keyring job ruuid oper corr kid now ttl nonce payload = Inr r"
    and p: "\<forall>v. payload = Some v \<longrightarrow> (\<exists>kvs. v = JObj kvs)"
    and t: "\<bar>now' - now\<bar> \<le> k" "now' \<le> now + ttl" "ttl \<le> 600" "int64 (now + ttl)"
    and n: "\<not> nonce_seen st nonce"
  shows "verify_request hmac sha keyring now' k r st =
    (Inr (JObj (request_fields job ruuid oper corr kid now ttl nonce)),
     st\<lparr>nonces_tbl := nonces_tbl st @ [(Some nonce, now + ttl)]\<rparr>)"
  using assms by (rule signed_request_accepted)

section \<open>Concrete instances\<close>

definition demo_hmac :: "string \<Rightarrow> string \<Rightarrow> string" where
  "demo_hmac k b = digits_of (length k * 1000 + length b)"

abbreviation demo_keyring :: "string \<rightharpoonup> string" where
  "demo_keyring \<equiv> [''k1'' \<mapsto> ''secret'']"

definition demo_request :: json where
  "demo_request = JObj (request_fields 7 ''r'' ''START'' ''c'' ''k1'' 100 30 ''n1'' @
     [(''signature'', JStr (demo_hmac ''secret'' (canonical_body
        (JObj (request_fields 7 ''r'' ''START'' ''c'' ''k1'' 100 30 ''n1'')))))])"

lemma digits_ascii: "is_ascii (digits_of n)"
  using digits_of_digits [of n] by (auto simp: is_ascii_def list_all_iff is_digit_def)

lemma demo_digests: "text_digests demo_hmac (\<lambda>x. digits_of (length x))"
  by (simp add: text_digests_def demo_hmac_def digits_ascii digits_of_not_Nil)

lemma demo_signed:
  "sign_request demo_hmac (\<lambda>x. digits_of (length x)) demo_keyring 7 ''r'' ''START'' ''c'' ''k1'' 100 30 ''n1'' None
     = Inr demo_request"
  by (simp add: sign_request_def allowed_operations_def provisioning_operations_def
      credentialed_operations_def handshake_operations_def demo_request_def Let_def)

abbreviation demo_verify :: "int \<Rightarrow> agent_store \<Rightarrow> (agent_error, json, agent_store) outcome" where
  "demo_verify now st \<equiv>
     verify_request demo_hmac (\<lambda>x. digits_of (length x)) demo_keyring now 30 demo_request st"

lemma demo_nonce_fresh: "\<not> nonce_seen new_agent_store ''n1''"
  by (simp add: nonce_seen_def new_agent_store_def)

theorem sign_then_verify_witness:
  "demo_verify 110 new_agent_store =
     (Inr (JObj (request_fields 7 ''r'' ''START'' ''c'' ''k1'' 100 30 ''n1'')),
      new_agent_store\<lparr>nonces_tbl := [(Some ''n1'', 130)]\<rparr>)"
  using sign_then_verify [OF demo_digests demo_signed, of 110 30 new_agent_store] demo_nonce_fresh
  by (simp add: int64_def new_agent_store_def)

lemma demo_accepted:
  "demo_verify 110 new_agent_store =
     (Inr (project_fields demo_request signed_fields), new_agent_store\<lparr>nonces_tbl := [(Some ''n1'', 130)]\<rparr>)"
proof -
  have b: "canonical_body demo_request = canonical_body (JObj (request_fields 7 ''r'' ''START'' ''c'' ''k1'' 100 30 ''n1''))"
    unfolding demo_request_def by (rule canonical_body_unsigned)
  define sig where "sig = demo_hmac ''secret'' (canonical_body (JObj (request_fields 7 ''r'' ''START'' ''c'' ''k1'' 100 30 ''n1'')))"
  have s: "is_ascii sig" "sig \<noteq> ''''"
    by (simp_all add: sig_def demo_hmac_def digits_ascii digits_of_not_Nil)
  show ?thesis
    unfolding verify_request_def verify_checks_def b
    unfolding demo_request_def sig_def [symmetric]
    using s
    by (simp add: request_fields_def json_in_def allowed_operations_def provisioning_operations_def
        credentialed_operations_def handshake_operations_def signed_fields_def compare_digest_def
        check_time_def check_payload_def int64_def nonce_seen_def new_agent_store_def sig_def)
qed

theorem refused_request_burns_nothing_witness:
  "set (nonces_tbl new_agent_store) \<subseteq> set (nonces_tbl (new_agent_store\<lparr>nonces_tbl := [(Some ''n1'', 130)]\<rparr>))"
  using refused_request_burns_nothing [OF demo_accepted] by blast


theorem signature_binds_fields_witness:
  "map_option json_canon (obj_get demo_request ''operation'') =
     map_option json_canon (obj_get demo_request ''operation'')"
proof -
  obtain e where e: "verify_checks demo_hmac (\<lambda>x. digits_of (length x)) demo_keyring 110 30 demo_request = Inr e"
    using verify_request_accepts [OF demo_accepted] by blast
  have f: "float_free (project_fields demo_request (body_keys demo_request))"
    by (simp add: project_fields_def body_keys_def signed_fields_def demo_request_def request_fields_def)
  from signature_binds_fields [OF e e refl refl f f] show ?thesis by (auto simp: signed_fields_def)
qed

end
