(* ===== verification/AgentLocks.thy ===== *)
theory AgentLocks
  imports Prelude
begin

text \<open>
  The in-process mutation gate of the management agent (\<^verbatim>\<open>deploy/beta-agent/stores.py\<close>,
  class \<open>RuntimeLockManager\<close>): a global semaphore, one lock per runtime, a count of running
  mutations and a drain flag. The threads that pass through \<open>acquire\<close> interleave at the points
  where the code can be pre-empted; each critical section is one step.
\<close>

section \<open>The manager\<close>

record lock_manager =
  lm_permits :: nat
  lm_locked :: "string set"
  lm_active :: int
  lm_draining :: bool

definition new_lock_manager :: "nat \<Rightarrow> lock_manager" where
  "new_lock_manager n = \<lparr>lm_permits = n, lm_locked = {}, lm_active = 0, lm_draining = False\<rparr>"

definition begin_drain :: "lock_manager \<Rightarrow> lock_manager" where
  "begin_drain m = m\<lparr>lm_draining := True\<rparr>"

text \<open>The non-blocking \<open>_global.acquire\<close>.\<close>

definition take_permit :: "lock_manager \<Rightarrow> string + lock_manager" where
  "take_permit m =
     (if lm_permits m = 0 then Inl ''agent_busy'' else Inr (m\<lparr>lm_permits := lm_permits m - 1\<rparr>))"

text \<open>The first guarded section: drain check, runtime lock, count.\<close>

definition enter_runtime :: "string \<Rightarrow> lock_manager \<Rightarrow> string + lock_manager" where
  "enter_runtime u m =
     (if lm_draining m then Inl ''agent_stopping''
      else if u \<in> lm_locked m then Inl ''runtime_busy''
      else Inr (m\<lparr>lm_locked := insert u (lm_locked m), lm_active := lm_active m + 1\<rparr>))"

definition leave_runtime :: "string \<Rightarrow> lock_manager \<Rightarrow> lock_manager" where
  "leave_runtime u m = m\<lparr>lm_locked := lm_locked m - {u}, lm_active := lm_active m - 1\<rparr>"

definition return_permit :: "lock_manager \<Rightarrow> lock_manager" where
  "return_permit m = m\<lparr>lm_permits := lm_permits m + 1\<rparr>"

definition active_mutations :: "lock_manager \<Rightarrow> int" where
  "active_mutations m = lm_active m"

section \<open>Threads\<close>

text \<open>
  Where a thread is: outside; past the semaphore; inside the \<open>with\<close> body of its runtime; or on
  the way out with the permit still held.
\<close>

datatype phase = Outside | Admitted string | Running string | Leaving

inductive lm_step :: "lock_manager \<times> phase list \<Rightarrow> lock_manager \<times> phase list \<Rightarrow> bool" where
  permit: "i < length ps \<Longrightarrow> ps ! i = Outside \<Longrightarrow> take_permit m = Inr m' \<Longrightarrow>
     lm_step (m, ps) (m', ps[i := Admitted u])"
| enter: "i < length ps \<Longrightarrow> ps ! i = Admitted u \<Longrightarrow> enter_runtime u m = Inr m' \<Longrightarrow>
     lm_step (m, ps) (m', ps[i := Running u])"
| refuse: "i < length ps \<Longrightarrow> ps ! i = Admitted u \<Longrightarrow> enter_runtime u m = Inl e \<Longrightarrow>
     lm_step (m, ps) (m, ps[i := Leaving])"
| leave: "i < length ps \<Longrightarrow> ps ! i = Running u \<Longrightarrow>
     lm_step (m, ps) (leave_runtime u m, ps[i := Leaving])"
| return: "i < length ps \<Longrightarrow> ps ! i = Leaving \<Longrightarrow>
     lm_step (m, ps) (return_permit m, ps[i := Outside])"
| drain: "lm_step (m, ps) (begin_drain m, ps)"

inductive_cases lm_stepE: "lm_step (m, ps) s"

inductive lm_reach :: "lock_manager \<times> phase list \<Rightarrow> lock_manager \<times> phase list \<Rightarrow> bool" where
  start: "lm_reach s s"
| step: "lm_reach s s' \<Longrightarrow> lm_step s' s'' \<Longrightarrow> lm_reach s s''"

definition is_running :: "phase \<Rightarrow> bool" where
  "is_running p \<longleftrightarrow> (case p of Running _ \<Rightarrow> True | _ \<Rightarrow> False)"

definition running_count :: "phase list \<Rightarrow> nat" where
  "running_count ps = length (filter is_running ps)"

definition inside_count :: "phase list \<Rightarrow> nat" where
  "inside_count ps = length (filter (\<lambda>p. p \<noteq> Outside) ps)"

lemma count_update:
  assumes "i < length xs"
  shows "length (filter P (xs[i := x])) + of_bool (P (xs ! i)) = length (filter P xs) + of_bool (P x)"
  using assms
proof (induction xs arbitrary: i)
  case (Cons y ys)
  show ?case
  proof (cases i)
    case (Suc j)
    with Cons show ?thesis by (auto simp: of_bool_def)
  qed (simp add: of_bool_def)
qed simp

text \<open>
  The invariant of the gate: permits are conserved, the counter counts the running threads, and a
  runtime is locked exactly while one thread runs it.
\<close>

definition lm_inv :: "nat \<Rightarrow> lock_manager \<times> phase list \<Rightarrow> bool" where
  "lm_inv n s \<longleftrightarrow> (case s of (m, ps) \<Rightarrow>
     lm_permits m + inside_count ps = n \<and>
     lm_active m = int (running_count ps) \<and>
     (\<forall>u. u \<in> lm_locked m \<longleftrightarrow> Running u \<in> set ps) \<and>
     (\<forall>i j u. i < length ps \<longrightarrow> j < length ps \<longrightarrow> ps ! i = Running u \<longrightarrow> ps ! j = Running u \<longrightarrow> i = j))"

lemma inside_update:
  "i < length ps \<Longrightarrow> inside_count (ps[i := p]) + of_bool (ps ! i \<noteq> Outside) =
   inside_count ps + of_bool (p \<noteq> Outside)"
  unfolding inside_count_def by (rule count_update)

lemma running_update:
  "i < length ps \<Longrightarrow> running_count (ps[i := p]) + of_bool (is_running (ps ! i)) =
   running_count ps + of_bool (is_running p)"
  unfolding running_count_def by (rule count_update)

lemma running_update_other:
  assumes "i < length ps" "\<forall>u. ps ! i \<noteq> Running u" "\<forall>u. p \<noteq> Running u"
  shows "Running u \<in> set (ps[i := p]) \<longleftrightarrow> Running u \<in> set ps"
proof -
  have "(ps[i := p]) ! j = Running u \<longleftrightarrow> ps ! j = Running u" if "j < length ps" for j
    using that assms by (cases "i = j") auto
  then show ?thesis by (auto simp: in_set_conv_nth)
qed

lemma lm_inv_step:
  assumes "lm_inv n s" "lm_step s s'"
  shows "lm_inv n s'"
proof -
  obtain m ps where s: "s = (m, ps)" by (cases s)
  from assms(1) have inv: "lm_permits m + inside_count ps = n" "lm_active m = int (running_count ps)"
      "\<And>u. u \<in> lm_locked m \<longleftrightarrow> Running u \<in> set ps"
      "\<And>i j u. i < length ps \<Longrightarrow> j < length ps \<Longrightarrow> ps ! i = Running u \<Longrightarrow> ps ! j = Running u \<Longrightarrow> i = j"
    unfolding s lm_inv_def by (simp_all)
  have other: "lm_inv n (m', ps[i := p])"
    if "i < length ps" "\<forall>u. ps ! i \<noteq> Running u" "\<forall>u. p \<noteq> Running u"
      "lm_permits m' + inside_count (ps[i := p]) = n" "lm_active m' = lm_active m" "lm_locked m' = lm_locked m"
    for m' i p
    using that running_update [OF that(1), of p] running_update_other [OF that(1-3)] inv
    unfolding lm_inv_def
    by (auto simp: is_running_def nth_list_update split: phase.splits if_splits)
  show ?thesis using assms(2) unfolding s
  proof (rule lm_stepE)
    fix i m' u
    assume permit: "i < length ps" "ps ! i = Outside" "take_permit m = Inr m'" "s' = (m', ps[i := Admitted u])"
    with permit inside_update [of i ps "Admitted u"] inv(1) other [of i "Admitted u" m'] show ?thesis
      by (auto simp: take_permit_def split: if_splits)
  next
    fix i u e
    assume refuse: "i < length ps" "ps ! i = Admitted u" "enter_runtime u m = Inl e" "s' = (m, ps[i := Leaving])"
    with inside_update [of i ps Leaving] inv(1) other [of i Leaving m] show ?thesis by simp
  next
    fix i
    assume return: "i < length ps" "ps ! i = Leaving" "s' = (return_permit m, ps[i := Outside])"
    with inside_update [of i ps Outside] inv(1) other [of i Outside "return_permit m"] show ?thesis
      by (simp add: return_permit_def)
  next
    assume drain: "s' = (begin_drain m, ps)"
    with inv show ?thesis by (simp add: lm_inv_def begin_drain_def)
  next
    fix i u m'
    assume enter: "i < length ps" "ps ! i = Admitted u" "enter_runtime u m = Inr m'" "s' = (m', ps[i := Running u])"
    then have u: "Running u \<notin> set ps" and m': "m' = m\<lparr>lm_locked := insert u (lm_locked m), lm_active := lm_active m + 1\<rparr>"
      using inv(3) by (auto simp: enter_runtime_def split: if_splits)
    have "Running v \<in> set (ps[i := Running u]) \<longleftrightarrow> v = u \<or> Running v \<in> set ps" for v
    proof (cases "v = u")
      case False
      have "(ps[i := Running u]) ! j = Running v \<longleftrightarrow> ps ! j = Running v" if "j < length ps" for j
        using that enter False by (cases "i = j") auto
      with False show ?thesis by (auto simp: in_set_conv_nth)
    qed (use enter in \<open>simp add: set_update_memI\<close>)
    moreover have "ps ! j \<noteq> Running u" if "j < length ps" for j
      using u that nth_mem by metis
    ultimately show ?thesis
      using enter m' inv running_update [of i ps "Running u"] inside_update [of i ps "Running u"]
      unfolding lm_inv_def
      by (auto simp: is_running_def nth_list_update split: if_splits)
  next
    fix i u
    assume leave: "i < length ps" "ps ! i = Running u" "s' = (leave_runtime u m, ps[i := Leaving])"
    have "Running v \<in> set (ps[i := Leaving]) \<longleftrightarrow> v \<noteq> u \<and> Running v \<in> set ps" for v
    proof -
      have "(ps[i := Leaving]) ! j = Running v \<longleftrightarrow> v \<noteq> u \<and> ps ! j = Running v" if "j < length ps" for j
        using that leave inv(4) [of i j u] by (cases "i = j") auto
      then show ?thesis by (auto simp: in_set_conv_nth)
    qed
    then show ?thesis
      using leave inv running_update [of i ps Leaving] inside_update [of i ps Leaving]
      unfolding lm_inv_def leave_runtime_def
      by (auto simp: is_running_def nth_list_update split: if_splits)
  qed
qed

lemma lm_inv_reach: "lm_reach s s' \<Longrightarrow> lm_inv n s \<Longrightarrow> lm_inv n s'"
  by (induction rule: lm_reach.induct) (auto intro: lm_inv_step)

lemma lm_inv_start: "lm_inv n (new_lock_manager n, replicate k Outside)"
  by (auto simp: lm_inv_def new_lock_manager_def inside_count_def running_count_def is_running_def
      filter_empty_conv in_set_replicate)

text \<open>
  C36: However any number of threads interleave, at most the configured number of mutations run at
  once, no two of them on the same runtime, and the count the shutdown path reads is the number
  of threads that are running.
\<close>
theorem lock_manager_exclusion:
  assumes "lm_reach (new_lock_manager n, replicate k Outside) (m, ps)"
  shows "running_count ps \<le> n \<and> active_mutations m = int (running_count ps) \<and>
    (\<forall>i j u. i < length ps \<longrightarrow> j < length ps \<longrightarrow> ps ! i = Running u \<longrightarrow> ps ! j = Running u \<longrightarrow> i = j)"
proof -
  have inv: "lm_inv n (m, ps)" by (rule lm_inv_reach [OF assms lm_inv_start])
  have "running_count ps \<le> inside_count ps"
    unfolding running_count_def inside_count_def
    by (induction ps) (auto simp: is_running_def)
  with inv show ?thesis unfolding lm_inv_def active_mutations_def by (auto simp: trans_le_add2)
qed

lemma drain_step:
  assumes "lm_step (m, ps) (m', ps')" "lm_draining m"
  shows "lm_draining m' \<and> (\<forall>i u. i < length ps' \<longrightarrow> ps' ! i = Running u \<longrightarrow> ps ! i = Running u) \<and>
    length ps' = length ps"
  using assms by (cases rule: lm_step.cases)
    (auto simp: take_permit_def enter_runtime_def leave_runtime_def return_permit_def
      begin_drain_def nth_list_update split: if_splits)

lemma drain_reach:
  "lm_reach s s' \<Longrightarrow> lm_draining (fst s) \<Longrightarrow>
   lm_draining (fst s') \<and> length (snd s') = length (snd s) \<and>
   (\<forall>i u. i < length (snd s') \<longrightarrow> snd s' ! i = Running u \<longrightarrow> snd s ! i = Running u)"
proof (induction rule: lm_reach.induct)
  case (step s s' s'')
  then show ?case using drain_step [of "fst s'" "snd s'" "fst s''" "snd s''"] by auto
qed simp

text \<open>
  Once draining has begun no new mutation starts: every thread that runs later was already
  running then, so when the active count the stop path waits for reaches zero it stays zero.
\<close>
theorem drain_is_final:
  assumes "lm_reach (new_lock_manager n, replicate k Outside) (m, ps)" "lm_draining m"
    and "lm_reach (m, ps) (m', ps')"
  shows "(\<forall>i u. i < length ps' \<longrightarrow> ps' ! i = Running u \<longrightarrow> ps ! i = Running u) \<and>
    (active_mutations m = 0 \<longrightarrow> active_mutations m' = 0)"
proof -
  have i: "lm_inv n (m, ps)" by (rule lm_inv_reach [OF assms(1) lm_inv_start])
  have i': "lm_inv n (m', ps')" by (rule lm_inv_reach [OF assms(3) i])
  have d: "length ps' = length ps" "\<forall>i u. i < length ps' \<longrightarrow> ps' ! i = Running u \<longrightarrow> ps ! i = Running u"
    using drain_reach [OF assms(3)] assms(2) by auto
  have "running_count ps' = 0" if z: "running_count ps = 0"
  proof -
    have "\<not> is_running p" if p: "p \<in> set ps'" for p
    proof
      assume "is_running p"
      then obtain u where "p = Running u" by (auto simp: is_running_def split: phase.splits)
      with p obtain i where "i < length ps'" "ps' ! i = Running u" by (auto simp: in_set_conv_nth)
      with d have "Running u \<in> set ps" by (metis nth_mem)
      with z show False by (force simp: running_count_def filter_empty_conv is_running_def)
    qed
    then show ?thesis by (simp add: running_count_def)
  qed
  with i i' d(2) show ?thesis by (auto simp: lm_inv_def active_mutations_def)
qed

section \<open>Concrete instances\<close>

lemma demo_permit:
  "lm_reach (new_lock_manager 1, [Outside])
     ((new_lock_manager 1)\<lparr>lm_permits := 0\<rparr>, [Admitted ''u''])"
proof (rule lm_reach.step [OF lm_reach.start])
  have "take_permit (new_lock_manager 1) = Inr ((new_lock_manager 1)\<lparr>lm_permits := 0\<rparr>)"
    by (simp add: take_permit_def new_lock_manager_def)
  from lm_step.permit [of 0 "[Outside]", OF _ _ this, of "''u''"]
  show "lm_step (new_lock_manager 1, [Outside]) ((new_lock_manager 1)\<lparr>lm_permits := 0\<rparr>, [Admitted ''u''])"
    by simp
qed

theorem lock_manager_exclusion_witness:
  "running_count [Admitted ''u''] \<le> 1 \<and> active_mutations ((new_lock_manager 1)\<lparr>lm_permits := 0\<rparr>) = 0"
  using lock_manager_exclusion [of 1 1 "(new_lock_manager 1)\<lparr>lm_permits := 0\<rparr>" "[Admitted ''u'']"] demo_permit
  by (simp add: running_count_def is_running_def)

theorem drain_is_final_witness:
  "active_mutations (begin_drain ((new_lock_manager 1)\<lparr>lm_permits := 0\<rparr>)) = 0 \<and>
   lm_draining (begin_drain ((new_lock_manager 1)\<lparr>lm_permits := 0\<rparr>))"
proof -
  let ?m = "begin_drain ((new_lock_manager 1)\<lparr>lm_permits := 0\<rparr>)"
  have d: "lm_draining ?m" by (simp add: begin_drain_def)
  have r: "lm_reach (new_lock_manager 1, replicate 1 Outside) (?m, [Admitted ''u''])"
    using lm_reach.step [OF demo_permit lm_step.drain] by simp
  from drain_is_final [OF r d lm_reach.start] d show ?thesis
    by (simp add: active_mutations_def new_lock_manager_def begin_drain_def)
qed

end
