(* ===== verification/AgentCore.thy ===== *)
theory AgentCore
  imports AgentProtocol AgentLocks
begin

text \<open>
  The request handler of the Windows management agent
  (\<^verbatim>\<open>deploy/beta-agent/lib/mgmt_agent_core.py\<close>, of which
  \<^verbatim>\<open>backend/terminal_provisioning/mgmt_agent_core.py\<close> is a copy): normalisation of the
  runtime UUID, containment of the derived path, the handler with its idempotency record, and the
  projection of every response to an allowlist. The implementations of the operations, the slot
  resolver, the login validator and the reparse-point resolver are injected into the class and are
  parameters here, acting on a host state of any type.
\<close>

section \<open>Runtime UUIDs\<close>

definition hex_val :: "char \<Rightarrow> nat option" where
  "hex_val c =
     (let n = of_char c :: nat in
      if 48 \<le> n \<and> n \<le> 57 then Some (n - 48)
      else if 97 \<le> n \<and> n \<le> 102 then Some (n - 87)
      else if 65 \<le> n \<and> n \<le> 70 then Some (n - 55) else None)"

text \<open>Hexadecimal digits with single underscores between them, as \<open>int(text, 16)\<close> reads them.\<close>

fun hex_and_underscores :: "nat \<Rightarrow> string \<Rightarrow> nat option" where
  "hex_and_underscores acc [] = Some acc"
| "hex_and_underscores acc (c # cs) =
     (case hex_val c of
        Some d \<Rightarrow> hex_and_underscores (16 * acc + d) cs
      | None \<Rightarrow>
          (case cs of
             [] \<Rightarrow> None
           | c' # cs' \<Rightarrow>
               (if c \<noteq> CHR ''_'' then None
                else case hex_val c' of
                  None \<Rightarrow> None
                | Some d \<Rightarrow> hex_and_underscores (16 * acc + d) cs')))"

definition hex_body :: "string \<Rightarrow> nat option" where
  "hex_body s = (case s of [] \<Rightarrow> None | c # _ \<Rightarrow> if hex_val c = None then None else hex_and_underscores 0 s)"

text \<open>After an optional \<open>0x\<close> prefix, which one underscore may follow.\<close>

definition hex_prefixed :: "string \<Rightarrow> nat option" where
  "hex_prefixed s =
     (if take 2 s = ''0x'' \<or> take 2 s = ''0X''
      then (if take 1 (drop 2 s) = ''_'' then hex_body (drop 3 s) else hex_body (drop 2 s))
      else hex_body s)"

definition py_int16 :: "string \<Rightarrow> int option" where
  "py_int16 s =
     (case strip s of
        [] \<Rightarrow> None
      | c # cs \<Rightarrow>
          if c = CHR ''-'' then map_option (\<lambda>n. - int n) (hex_prefixed cs)
          else if c = CHR ''+'' then map_option int (hex_prefixed cs)
          else map_option int (hex_prefixed (c # cs)))"

text \<open>\<open>s.replace(pat, '')\<close> for a non-empty pattern.\<close>

fun remove_all :: "string \<Rightarrow> string \<Rightarrow> string" where
  "remove_all pat [] = []"
| "remove_all pat (c # cs) =
     (if pat \<noteq> [] \<and> take (length pat) (c # cs) = pat
      then remove_all pat (drop (length pat - 1) cs)
      else c # remove_all pat cs)"

definition strip_chars :: "string \<Rightarrow> string \<Rightarrow> string" where
  "strip_chars xs s = rev (dropWhile (\<lambda>c. c \<in> set xs) (rev (dropWhile (\<lambda>c. c \<in> set xs) s)))"

text \<open>\<open>'%032x' % n\<close>.\<close>

fun hex_fixed :: "nat \<Rightarrow> nat \<Rightarrow> string" where
  "hex_fixed 0 n = []"
| "hex_fixed (Suc k) n = hex_fixed k (n div 16) @ [hex_digit (n mod 16)]"

definition uuid_text :: "nat \<Rightarrow> string" where
  "uuid_text n =
     (let h = hex_fixed 32 n in
      take 8 h @ ''-'' @ take 4 (drop 8 h) @ ''-'' @ take 4 (drop 12 h) @ ''-'' @
      take 4 (drop 16 h) @ ''-'' @ drop 20 h)"

text \<open>\<open>str(uuid.UUID(s))\<close>; \<open>None\<close> where the constructor raises \<open>ValueError\<close>.\<close>

definition uuid_norm :: "string \<Rightarrow> string option" where
  "uuid_norm s =
     (let h = remove_all ''-'' (strip_chars ''{}'' (remove_all ''uuid:'' (remove_all ''urn:'' s))) in
      if length h \<noteq> 32 then None
      else case py_int16 h of
        None \<Rightarrow> None
      | Some i \<Rightarrow> if 0 \<le> i \<and> i < 2 ^ 128 then Some (uuid_text (nat i)) else None)"

section \<open>Paths\<close>

definition lower_char :: "char \<Rightarrow> char" where
  "lower_char c =
     (let n = of_char c :: nat in
      if 65 \<le> n \<and> n \<le> 90 \<or> 192 \<le> n \<and> n \<le> 222 \<and> n \<noteq> 215 then char_of (n + 32) else c)"

definition norm_path :: "string \<Rightarrow> string" where
  "norm_path p =
     map lower_char (rev (dropWhile (\<lambda>c. c = CHR 0x5C)
       (rev (map (\<lambda>c. if c = CHR ''/'' then CHR 0x5C else c) p))))"

definition starts_with :: "string \<Rightarrow> string \<Rightarrow> bool" where
  "starts_with s pre \<longleftrightarrow> take (length pre) s = pre"

definition is_beneath :: "string \<Rightarrow> string \<Rightarrow> bool" where
  "is_beneath p base \<longleftrightarrow>
     norm_path p = norm_path base \<or> starts_with (norm_path p) (norm_path base @ [CHR 0x5C])"

definition derive_canonical_runtime_dir :: "string \<Rightarrow> string \<Rightarrow> string option" where
  "derive_canonical_runtime_dir u base =
     map_option (\<lambda>v. base @ [CHR 0x5C] @ v @ [CHR 0x5C] @ ''terminal'') (uuid_norm u)"

text \<open>The part of a path before its last backslash.\<close>

definition parent_dir :: "string \<Rightarrow> string" where
  "parent_dir p =
     (if CHR 0x5C \<in> set p then rev (drop 1 (dropWhile (\<lambda>c. c \<noteq> CHR 0x5C) (rev p))) else p)"

section \<open>Configuration\<close>

record slot_context =
  sc_slot :: int
  sc_generation :: int
  sc_occupancy_id :: string
  sc_slot_path :: string
  sc_slots_root :: string

record resolved =
  rs_dir :: string
  rs_uuid :: string
  rs_base :: string
  rs_context :: "slot_context option"

datatype execution_model = UuidDir | SlotPool

record 'w agent_config =
  ac_hmac :: "string \<Rightarrow> string \<Rightarrow> string"
  ac_sha :: "string \<Rightarrow> string"
  ac_keyring :: "string \<rightharpoonup> string"
  ac_max_skew :: int
  ac_ops :: "string \<rightharpoonup> (resolved \<Rightarrow> 'w \<Rightarrow> (agent_error, (string \<times> json) list, 'w) outcome)"
  ac_agent_version :: string
  ac_script_manifest :: "string \<rightharpoonup> string"
  ac_script_versions :: "string \<rightharpoonup> string"
  ac_manifest_version :: string
  ac_supervised :: "bool option"
  ac_base :: string
  ac_model :: execution_model
  ac_resolver :: "string \<Rightarrow> string \<Rightarrow> 'w \<Rightarrow> (agent_error, slot_context, 'w) outcome"
  ac_real_path :: "string \<Rightarrow> string option"
  ac_login :: "(json \<Rightarrow> json \<Rightarrow> json \<Rightarrow> json \<Rightarrow> 'w \<Rightarrow> (agent_error, (string \<times> json) list, 'w) outcome) option"

record 'w agent_state =
  as_store :: agent_store
  as_locks :: lock_manager
  as_world :: 'w

definition mutating :: "string list" where
  "mutating = [''MATERIALISE'', ''START'', ''STOP'', ''TOMBSTONE'']"

section \<open>Responses\<close>

definition response_allowlist :: "string list" where
  "response_allowlist =
     [''operation'', ''outcome'', ''runtime_uuid'', ''provisioning_job_id'', ''pid'', ''session_id'',
      ''agent_version'', ''script_version'', ''duration_ms'', ''reason_code'', ''running'',
      ''logged_in'', ''verified_at'', ''is_demo'', ''protocol_version'', ''manifest_version'',
      ''supported_operations'', ''agent_supervised'', ''slot'', ''generation'', ''occupancy_id'',
      ''owner_marker_digest'', ''canonical_path_digest'', ''path_containment_verified'',
      ''executable_containment_verified'', ''released'', ''release_pending'', ''available'']"

definition evidence_fields :: "string list" where
  "evidence_fields =
     [''pid'', ''session_id'', ''duration_ms'', ''running'', ''logged_in'', ''verified_at'', ''is_demo'',
      ''protocol_version'', ''manifest_version'', ''supported_operations'', ''agent_supervised'',
      ''slot'', ''generation'', ''occupancy_id'', ''owner_marker_digest'', ''canonical_path_digest'',
      ''path_containment_verified'', ''executable_containment_verified'', ''released'',
      ''release_pending'', ''available'']"

text \<open>\<open>_sanitise\<close>; a field that is Python's \<open>None\<close> is \<open>JNull\<close>.\<close>

definition sanitise ::
  "'w agent_config \<Rightarrow> json \<Rightarrow> json \<Rightarrow> json \<Rightarrow> string \<Rightarrow> (string \<times> json) list \<Rightarrow> string \<Rightarrow> string \<Rightarrow> json" where
  "sanitise cfg oper job ruuid result raw reason script_version =
     JObj (filter (\<lambda>(k, _). k \<in> set response_allowlist)
       ([(''operation'', oper), (''outcome'', JStr result),
         (''runtime_uuid'', if ruuid = JNull then JNull else JStr (py_str ruuid)),
         (''provisioning_job_id'', job), (''agent_version'', JStr (ac_agent_version cfg)),
         (''script_version'',
            if script_version \<noteq> '''' then JStr script_version
            else (case map_of raw ''script_version'' of None \<Rightarrow> JStr '''' | Some v \<Rightarrow> v)),
         (''reason_code'', JStr reason)] @
        List.map_filter (\<lambda>k. map_option (\<lambda>v. (k, v)) (map_of raw k)) evidence_fields))"

definition error_response :: "'w agent_config \<Rightarrow> json \<Rightarrow> json \<Rightarrow> json \<Rightarrow> agent_error \<Rightarrow> json" where
  "error_response cfg oper job ruuid e =
     (case e of
        Denied reason \<Rightarrow> sanitise cfg oper job ruuid ''denied'' [] reason ''''
      | Crashed \<Rightarrow> sanitise cfg oper job ruuid ''error'' [] ''agent_internal_error'' '''')"

definition impl_integrity_ok :: "'w agent_config \<Rightarrow> string \<Rightarrow> bool" where
  "impl_integrity_ok cfg name =
     (case ac_script_manifest cfg name of
        None \<Rightarrow> False
      | Some approved \<Rightarrow>
          (case ac_script_manifest cfg (name @ '':actual'') of None \<Rightarrow> True | Some a \<Rightarrow> a = approved))"

definition json_truthy :: "json \<Rightarrow> bool" where
  "json_truthy v =
     (case v of
        JNull \<Rightarrow> False | JBool b \<Rightarrow> b | JInt i \<Rightarrow> i \<noteq> 0
      | JFloat x _ \<Rightarrow> x \<noteq> Finite 0 | JStr s \<Rightarrow> s \<noteq> '''' | JArr xs \<Rightarrow> xs \<noteq> [] | JObj kvs \<Rightarrow> kvs \<noteq> [])"

section \<open>Resolution of the local path\<close>

definition contained :: "'w agent_config \<Rightarrow> string \<Rightarrow> string \<Rightarrow> agent_error + unit" where
  "contained cfg dir base =
     (if \<not> is_beneath dir base then Inl (Denied ''path_escape'')
      else if list_ex (\<lambda>c. case ac_real_path cfg c of None \<Rightarrow> False | Some p \<Rightarrow> \<not> is_beneath p base)
                [dir, parent_dir dir]
      then Inl (Denied ''reparse_escape'')
      else Inr ())"

definition resolve_op ::
  "'w agent_config \<Rightarrow> string \<Rightarrow> string \<Rightarrow> 'w \<Rightarrow> (agent_error, resolved, 'w) outcome" where
  "resolve_op cfg oper norm_uuid w =
     (case ac_model cfg of
        SlotPool \<Rightarrow>
          (case ac_resolver cfg norm_uuid oper w of
             (Inl e, w') \<Rightarrow> (Inl e, w')
           | (Inr ctx, w') \<Rightarrow>
               (case contained cfg (sc_slot_path ctx) (sc_slots_root ctx) of
                  Inl e \<Rightarrow> (Inl e, w')
                | Inr _ \<Rightarrow> (Inr \<lparr>rs_dir = sc_slot_path ctx, rs_uuid = norm_uuid,
                                rs_base = sc_slots_root ctx, rs_context = Some ctx\<rparr>, w')))
      | UuidDir \<Rightarrow>
          (case derive_canonical_runtime_dir norm_uuid (ac_base cfg) of
             None \<Rightarrow> (Inl Crashed, w)
           | Some dir \<Rightarrow>
               (case contained cfg dir (ac_base cfg) of
                  Inl e \<Rightarrow> (Inl e, w)
                | Inr _ \<Rightarrow> (Inr \<lparr>rs_dir = dir, rs_uuid = norm_uuid, rs_base = ac_base cfg,
                                rs_context = None\<rparr>, w))))"

section \<open>The handler\<close>

text \<open>What \<open>handle\<close> knows of a request once it decided to run it.\<close>

record task =
  tk_oper :: string
  tk_job :: json
  tk_job_int :: int
  tk_ruuid :: json
  tk_uuid :: string
  tk_digest :: string
  tk_impl_name :: string

definition impl_name :: "string \<Rightarrow> string" where
  "impl_name oper = ''op_'' @ map lower_char oper"

definition negotiate :: "'w agent_config \<Rightarrow> json \<Rightarrow> json \<Rightarrow> json" where
  "negotiate cfg job ruuid =
     sanitise cfg (JStr ''NEGOTIATE'') job ruuid ''ok''
       ([(''protocol_version'', JInt protocol_version),
         (''manifest_version'', JStr (ac_manifest_version cfg)),
         (''supported_operations'', JArr (map JStr supported_operations))] @
        (case ac_supervised cfg of None \<Rightarrow> [] | Some b \<Rightarrow> [(''agent_supervised'', JBool b)])) '''' ''''"

definition handle_validate_login ::
  "'w agent_config \<Rightarrow> json \<Rightarrow> json \<Rightarrow> 'w \<Rightarrow> json \<times> 'w" where
  "handle_validate_login cfg request fs w =
     (let field = (\<lambda>k. case obj_get fs k of None \<Rightarrow> JNull | Some v \<Rightarrow> v);
          oper = JStr ''VALIDATE_LOGIN''; job = field ''provisioning_job_id''; ruuid = field ''runtime_uuid''
      in if \<not> impl_integrity_ok cfg ''op_validate_login''
         then (error_response cfg oper job ruuid (Denied ''impl_integrity_mismatch''), w)
         else case ac_login cfg of
           None \<Rightarrow> (error_response cfg oper job ruuid (Denied ''validation_unconfigured''), w)
         | Some validate \<Rightarrow>
             (case obj_get request ''payload'' of
                Some (JObj kvs) \<Rightarrow>
                  (case validate ruuid (field ''correlation_id'') (field ''nonce'') (JObj kvs) w of
                     (Inl e, w') \<Rightarrow> (error_response cfg oper job ruuid e, w')
                   | (Inr result, w') \<Rightarrow>
                       (sanitise cfg oper job ruuid
                          (case map_of result ''ok'' of
                             Some v \<Rightarrow> if json_truthy v then ''ok'' else ''denied'' | None \<Rightarrow> ''denied'')
                          (case map_of result ''is_demo'' of
                             Some (JBool b) \<Rightarrow> [(''is_demo'', JBool b)] | _ \<Rightarrow> [])
                          (case map_of result ''reason_code'' of
                             Some v \<Rightarrow> if json_truthy v then py_str v else ''could_not_verify''
                           | None \<Rightarrow> ''could_not_verify'') '''', w'))
              | _ \<Rightarrow> (error_response cfg oper job ruuid (Denied ''payload_missing''), w)))"

text \<open>
  The first part of \<open>handle\<close>: verification, the handshake, the login probe, the idempotency
  record and the checks before the lock. It answers, or hands over a task to run.
\<close>

definition handle_front ::
  "'w agent_config \<Rightarrow> int \<Rightarrow> json \<Rightarrow> 'w agent_state \<Rightarrow> (json + task) \<times> 'w agent_state" where
  "handle_front cfg now request st =
     (case verify_request (ac_hmac cfg) (ac_sha cfg) (ac_keyring cfg) now (ac_max_skew cfg) request (as_store st) of
        (Inl e, store) \<Rightarrow> (Inl (error_response cfg JNull JNull JNull e), st\<lparr>as_store := store\<rparr>)
      | (Inr fs, store) \<Rightarrow>
          (let st1 = st\<lparr>as_store := store\<rparr>;
               field = (\<lambda>k. case obj_get fs k of None \<Rightarrow> JNull | Some v \<Rightarrow> v);
               ruuid = field ''runtime_uuid''; job = field ''provisioning_job_id'';
               deny = (\<lambda>e. error_response cfg (field ''operation'') job ruuid e)
           in case field ''operation'' of
             JStr oper \<Rightarrow>
               if oper = ''NEGOTIATE'' then (Inl (negotiate cfg job ruuid), st1)
               else if oper \<in> set credentialed_operations
               then (case handle_validate_login cfg request fs (as_world st1) of
                       (resp, w) \<Rightarrow> (Inl resp, st1\<lparr>as_world := w\<rparr>))
               else if oper \<notin> set allowed_operations \<or> ac_ops cfg oper = None
               then (Inl (deny (Denied ''operation_not_allowed'')), st1)
               else (case py_int job of
                  Inl _ \<Rightarrow> (Inl (deny Crashed), st1)
                | Inr j \<Rightarrow>
                    if \<not> int64 j then (Inl (deny Crashed), st1)
                    else (case idem_get j oper store of
                      Some prior \<Rightarrow>
                        if ir_digest prior \<noteq> semantic_digest (ac_sha cfg) fs
                        then (Inl (deny (Denied ''job_op_conflict'')), st1)
                        else (Inl (ir_response prior), st1)
                    | None \<Rightarrow>
                        (case uuid_norm (py_str ruuid) of
                           None \<Rightarrow> (Inl (deny (Denied ''bad_runtime_uuid'')), st1)
                         | Some u \<Rightarrow>
                             if \<not> impl_integrity_ok cfg (impl_name oper)
                             then (Inl (deny (Denied ''impl_integrity_mismatch'')), st1)
                             else (Inr \<lparr>tk_oper = oper, tk_job = job, tk_job_int = j, tk_ruuid = ruuid,
                                        tk_uuid = u, tk_digest = semantic_digest (ac_sha cfg) fs,
                                        tk_impl_name = impl_name oper\<rparr>, st1))))
           | _ \<Rightarrow> (Inl (deny (Denied ''operation_not_allowed'')), st1)))"

text \<open>\<open>impl(**self._resolve(op, norm_uuid))\<close>.\<close>

definition resolve_and_run ::
  "'w agent_config \<Rightarrow> task \<Rightarrow> 'w \<Rightarrow> (agent_error, (string \<times> json) list, 'w) outcome" where
  "resolve_and_run cfg t w =
     (case resolve_op cfg (tk_oper t) (tk_uuid t) w of
        (Inl e, w') \<Rightarrow> (Inl e, w')
      | (Inr rs, w') \<Rightarrow>
          (case ac_ops cfg (tk_oper t) of None \<Rightarrow> (Inl Crashed, w') | Some impl \<Rightarrow> impl rs w'))"

text \<open>
  The second part: the mutation lock around resolution and implementation for the mutating
  operations. The lock is free again afterwards, so the manager the other threads see is the same.
\<close>

definition handle_run ::
  "'w agent_config \<Rightarrow> task \<Rightarrow> 'w agent_state \<Rightarrow> (agent_error, (string \<times> json) list, 'w agent_state) outcome" where
  "handle_run cfg t st =
     (let run = (case resolve_and_run cfg t (as_world st) of (r, w) \<Rightarrow> (r, st\<lparr>as_world := w\<rparr>)) in
      if tk_oper t \<in> set mutating
      then (case take_permit (as_locks st) of
              Inl e \<Rightarrow> (Inl (Denied e), st)
            | Inr m \<Rightarrow> (case enter_runtime (tk_uuid t) m of Inl e \<Rightarrow> (Inl (Denied e), st) | Inr _ \<Rightarrow> run))
      else run)"

text \<open>The third part: the response, recorded when the operation succeeded.\<close>

definition handle_finish ::
  "'w agent_config \<Rightarrow> task \<Rightarrow> agent_error + (string \<times> json) list \<Rightarrow> 'w agent_state \<Rightarrow> json \<times> 'w agent_state" where
  "handle_finish cfg t res st =
     (case res of
        Inl e \<Rightarrow> (error_response cfg (JStr (tk_oper t)) (tk_job t) (tk_ruuid t) e, st)
      | Inr raw \<Rightarrow>
          (let resp = sanitise cfg (JStr (tk_oper t)) (tk_job t) (tk_ruuid t) ''ok'' raw ''''
                 (case ac_script_versions cfg (tk_impl_name t) of None \<Rightarrow> '''' | Some v \<Rightarrow> v)
           in (resp, st\<lparr>as_store := idem_put (tk_job_int t) (tk_oper t)
                          \<lparr>ir_digest = tk_digest t, ir_response = resp\<rparr> (as_store st)\<rparr>)))"

definition handle :: "'w agent_config \<Rightarrow> int \<Rightarrow> json \<Rightarrow> 'w agent_state \<Rightarrow> json \<times> 'w agent_state" where
  "handle cfg now request st =
     (case handle_front cfg now request st of
        (Inl resp, st1) \<Rightarrow> (resp, st1)
      | (Inr t, st1) \<Rightarrow> (case handle_run cfg t st1 of (res, st2) \<Rightarrow> handle_finish cfg t res st2))"

section \<open>What the parts of the handler change\<close>

lemma obj_get_project:
  "k \<in> set ks \<Longrightarrow> obj_get (project_fields r ks) k = Some (case obj_get r k of Some v \<Rightarrow> v | None \<Rightarrow> JNull)"
  by (induction ks) (auto simp: project_fields_def)

lemma login_keeps_store:
  "snd (handle_validate_login cfg r fs w) = w \<or> (\<exists>v. ac_login cfg = Some v)"
  by (auto simp: handle_validate_login_def Let_def split: option.splits)

text \<open>The request's fields as the handler reads them from the verified ones.\<close>

definition request_field :: "json \<Rightarrow> string \<Rightarrow> json" where
  "request_field r k = (case obj_get r k of Some v \<Rightarrow> v | None \<Rightarrow> JNull)"

lemma front_refused:
  assumes "verify_request (ac_hmac cfg) (ac_sha cfg) (ac_keyring cfg) now (ac_max_skew cfg) r (as_store st) = (Inl e, store)"
  shows "handle_front cfg now r st = (Inl (error_response cfg JNull JNull JNull e), st\<lparr>as_store := store\<rparr>)"
  using assms by (simp add: handle_front_def)

lemma front_accepted:
  assumes "verify_request (ac_hmac cfg) (ac_sha cfg) (ac_keyring cfg) now (ac_max_skew cfg) r (as_store st) = (Inr fs, store)"
  obtains (login) "obj_get r ''operation'' = Some (JStr ''VALIDATE_LOGIN'')"
      "handle_front cfg now r st =
         (Inl (fst (handle_validate_login cfg r fs (as_world st))),
          st\<lparr>as_store := store, as_world := snd (handle_validate_login cfg r fs (as_world st))\<rparr>)"
  | (handshake) job ruuid where "obj_get r ''operation'' = Some (JStr ''NEGOTIATE'')"
      "handle_front cfg now r st = (Inl (negotiate cfg job ruuid), st\<lparr>as_store := store\<rparr>)"
  | (refused) oper job ruuid e where
      "handle_front cfg now r st = (Inl (error_response cfg oper job ruuid e), st\<lparr>as_store := store\<rparr>)"
  | (prior) oper j p where "obj_get r ''operation'' = Some (JStr oper)"
      "py_int (request_field r ''provisioning_job_id'') = Inr j" "idem_get j oper store = Some p"
      "ir_digest p = semantic_digest (ac_sha cfg) fs"
      "handle_front cfg now r st = (Inl (ir_response p), st\<lparr>as_store := store\<rparr>)"
  | (task) t where "handle_front cfg now r st = (Inr t, st\<lparr>as_store := store\<rparr>)"
      "obj_get r ''operation'' = Some (JStr (tk_oper t))"
      "py_int (request_field r ''provisioning_job_id'') = Inr (tk_job_int t)"
      "tk_oper t \<in> set provisioning_operations" "ac_ops cfg (tk_oper t) \<noteq> None"
      "idem_get (tk_job_int t) (tk_oper t) store = None"
      "impl_integrity_ok cfg (impl_name (tk_oper t))"
      "uuid_norm (py_str (tk_ruuid t)) = Some (tk_uuid t)" "tk_digest t = semantic_digest (ac_sha cfg) fs"
proof -
  from assms obtain expiry where v: "verify_checks (ac_hmac cfg) (ac_sha cfg) (ac_keyring cfg) now (ac_max_skew cfg) r = Inr expiry"
      "fs = project_fields r signed_fields"
    by (rule verify_request_accepts)
  from v(1) have "json_in (obj_get r ''operation'') allowed_operations" by (rule verify_checks_accepts)
  then obtain oper where oper: "obj_get r ''operation'' = Some (JStr oper)" "oper \<in> set allowed_operations"
    by (auto simp: json_in_def split: option.splits json.splits)
  have f: "obj_get fs k = Some (request_field r k)" if "k \<in> set signed_fields" for k
    using obj_get_project [OF that] v(2) by (simp add: request_field_def)
  have fo: "obj_get fs ''operation'' = Some (JStr oper)"
      "obj_get fs ''provisioning_job_id'' = Some (request_field r ''provisioning_job_id'')"
      "obj_get fs ''runtime_uuid'' = Some (request_field r ''runtime_uuid'')"
    using f oper(1) by (simp_all add: signed_fields_def request_field_def)
  let ?job = "request_field r ''provisioning_job_id''" and ?ru = "request_field r ''runtime_uuid''"
  show thesis
  proof (cases "oper = ''NEGOTIATE''")
    case True
    then show thesis using handshake [of ?job ?ru] assms fo oper(1)
      by (simp add: handle_front_def Let_def)
  next
    case n: False
    show thesis
    proof (cases "oper \<in> set credentialed_operations")
      case True
      then have "oper = ''VALIDATE_LOGIN''" by (simp add: credentialed_operations_def)
      with True n show thesis using login oper assms fo
        by (auto simp: handle_front_def Let_def split: prod.splits)
    next
      case c: False
      have p: "oper \<in> set provisioning_operations"
        using oper(2) n c by (auto simp: allowed_operations_def handshake_operations_def)
      let ?deny = "error_response cfg (JStr oper) ?job ?ru"
      show thesis
      proof (cases "ac_ops cfg oper = None \<or> (\<exists>e. py_int ?job = Inl e) \<or> (\<exists>j. py_int ?job = Inr j \<and> \<not> int64 j)")
        case True
        then have "handle_front cfg now r st = (Inl (?deny (Denied ''operation_not_allowed'')), st\<lparr>as_store := store\<rparr>) \<or>
            handle_front cfg now r st = (Inl (?deny Crashed), st\<lparr>as_store := store\<rparr>)"
          using n c oper(2) assms fo by (auto simp: handle_front_def Let_def split: sum.splits)
        then show thesis using refused by blast
      next
        case False
        then obtain j where j: "ac_ops cfg oper \<noteq> None" "py_int ?job = Inr j" "int64 j"
          by (cases "py_int ?job") auto
        show thesis
        proof (cases "idem_get j oper store")
          case (Some q)
          then show thesis
          proof (cases "ir_digest q = semantic_digest (ac_sha cfg) fs")
            case True
            with Some j n c have "handle_front cfg now r st = (Inl (ir_response q), st\<lparr>as_store := store\<rparr>)"
              using oper(2) assms fo by (auto simp: handle_front_def Let_def)
            with prior oper(1) j(2) Some True show thesis by blast
          next
            case False
            with Some j n c have "handle_front cfg now r st =
                (Inl (?deny (Denied ''job_op_conflict'')), st\<lparr>as_store := store\<rparr>)"
              using oper(2) assms fo by (auto simp: handle_front_def Let_def)
            then show thesis using refused by blast
          qed
        next
          case None
          show thesis
          proof (cases "uuid_norm (py_str ?ru)")
            case nu: None
            with None j n c have "handle_front cfg now r st =
                (Inl (?deny (Denied ''bad_runtime_uuid'')), st\<lparr>as_store := store\<rparr>)"
              using oper(2) assms fo by (auto simp: handle_front_def Let_def)
            then show thesis using refused by blast
          next
            case u: (Some u)
            show thesis
            proof (cases "impl_integrity_ok cfg (impl_name oper)")
              case True
              let ?t = "\<lparr>tk_oper = oper, tk_job = ?job, tk_job_int = j, tk_ruuid = ?ru, tk_uuid = u,
                         tk_digest = semantic_digest (ac_sha cfg) fs, tk_impl_name = impl_name oper\<rparr>"
              have "handle_front cfg now r st = (Inr ?t, st\<lparr>as_store := store\<rparr>)"
                using True u None j n c oper(2) assms fo by (auto simp: handle_front_def Let_def)
              then show thesis using task [of ?t] True u None j p oper(1) by simp
            next
              case False
              with u None j n c have "handle_front cfg now r st =
                  (Inl (?deny (Denied ''impl_integrity_mismatch'')), st\<lparr>as_store := store\<rparr>)"
                using oper(2) assms fo by (auto simp: handle_front_def Let_def)
              then show thesis using refused by blast
            qed
          qed
        qed
      qed
    qed
  qed
qed

lemma handle_run_frame:
  "handle_run cfg t st = (res, st') \<Longrightarrow> as_store st' = as_store st \<and> as_locks st' = as_locks st"
  by (auto simp: handle_run_def Let_def split: prod.splits sum.splits if_splits)

lemma handle_finish_frame:
  "handle_finish cfg t res st = (resp, st') \<Longrightarrow> as_world st' = as_world st \<and> as_locks st' = as_locks st \<and>
     nonces_tbl (as_store st') = nonces_tbl (as_store st) \<and>
     ((j, oper) \<noteq> (tk_job_int t, tk_oper t) \<longrightarrow> idem_get j oper (as_store st') = idem_get j oper (as_store st))"
  by (auto simp: handle_finish_def Let_def idem_get_put split: sum.splits)

lemma idem_get_cong: "idem_tbl s' = idem_tbl s \<Longrightarrow> idem_get j oper s' = idem_get j oper s"
  by (simp add: idem_get_def)

lemma answered_final:
  assumes rec: "idem_get j oper (as_store st) = Some p" and h: "handle cfg now r st = (resp, st')"
    and oper: "oper \<in> set provisioning_operations"
  shows "idem_get j oper (as_store st') = Some p \<and>
    (obj_get r ''operation'' = Some (JStr oper) \<and> py_int (request_field r ''provisioning_job_id'') = Inr j \<longrightarrow>
       as_world st' = as_world st \<and> (resp = ir_response p \<or> (\<exists>o' j' u' e. resp = error_response cfg o' j' u' e)))"
proof -
  obtain res store where v: "verify_request (ac_hmac cfg) (ac_sha cfg) (ac_keyring cfg) now (ac_max_skew cfg) r (as_store st) = (res, store)"
    by (cases "verify_request (ac_hmac cfg) (ac_sha cfg) (ac_keyring cfg) now (ac_max_skew cfg) r (as_store st)")
  have "idem_tbl store = idem_tbl (as_store st)" using verify_request_effect [OF v] by blast
  with rec have s: "idem_get j oper store = Some p" by (simp add: idem_get_def)
  show ?thesis
  proof (cases res)
    case (Inl e)
    with v front_refused [of cfg now r st e store] h s show ?thesis by (auto simp: handle_def)
  next
    case (Inr fs)
    with v have v': "verify_request (ac_hmac cfg) (ac_sha cfg) (ac_keyring cfg) now (ac_max_skew cfg) r (as_store st) = (Inr fs, store)"
      by simp
    then show ?thesis
    proof (cases rule: front_accepted)
      case login
      have "oper \<noteq> ''VALIDATE_LOGIN''" using oper by (auto simp: provisioning_operations_def)
      with login h s show ?thesis by (auto simp: handle_def)
    next
      case handshake
      have "oper \<noteq> ''NEGOTIATE''" using oper by (auto simp: provisioning_operations_def)
      with handshake h s show ?thesis by (auto simp: handle_def)
    next
      case refused
      with h s show ?thesis by (auto simp: handle_def)
    next
      case (prior oper' j' p')
      with h s show ?thesis by (auto simp: handle_def)
    next
      case (task t)
      obtain rr st2 where run: "handle_run cfg t (st\<lparr>as_store := store\<rparr>) = (rr, st2)"
        by (cases "handle_run cfg t (st\<lparr>as_store := store\<rparr>)")
      with h task(1) have fin: "handle_finish cfg t rr st2 = (resp, st')" by (simp add: handle_def)
      from task(6) s have ne: "(j, oper) \<noteq> (tk_job_int t, tk_oper t)" by auto
      have "idem_get j oper (as_store st') = Some p"
        using handle_finish_frame [OF fin, of j oper] handle_run_frame [OF run] ne s by simp
      moreover have "\<not> (obj_get r ''operation'' = Some (JStr oper) \<and>
          py_int (request_field r ''provisioning_job_id'') = Inr j)"
        using ne task(2,3) by auto
      ultimately show ?thesis by blast
    qed
  qed
qed


text \<open>
  Nothing happens on the host without a verified request. If a request changes the host
  state, it carries the HMAC of its canonical body under a known key, its lifetime has not
  ended, and it names either the login probe or an installed operation whose implementation
  matches the approved manifest and that has no recorded answer yet.
\<close>
theorem effects_need_signature:
  assumes h: "handle cfg now r st = (resp, st')" and w: "as_world st' \<noteq> as_world st"
  shows "\<exists>key kid expiry oper. obj_get r ''key_id'' = Some (JStr kid) \<and> ac_keyring cfg kid = Some key \<and>
    obj_get r ''signature'' = Some (JStr (ac_hmac cfg key (canonical_body r))) \<and>
    check_time now (ac_max_skew cfg) r = Inr expiry \<and> now \<le> expiry \<and>
    obj_get r ''operation'' = Some (JStr oper) \<and>
    (oper = ''VALIDATE_LOGIN'' \<or>
     oper \<in> set provisioning_operations \<and> ac_ops cfg oper \<noteq> None \<and>
     impl_integrity_ok cfg (impl_name oper) \<and>
     (\<exists>j. py_int (request_field r ''provisioning_job_id'') = Inr j \<and> idem_get j oper (as_store st) = None))"
proof -
  obtain res store where v: "verify_request (ac_hmac cfg) (ac_sha cfg) (ac_keyring cfg) now (ac_max_skew cfg) r (as_store st) = (res, store)"
    by (cases "verify_request (ac_hmac cfg) (ac_sha cfg) (ac_keyring cfg) now (ac_max_skew cfg) r (as_store st)")
  have same: "idem_tbl store = idem_tbl (as_store st)" using verify_request_effect [OF v] by blast
  show ?thesis
  proof (cases res)
    case (Inl e)
    with v front_refused [of cfg now r st e store] h w show ?thesis by (auto simp: handle_def)
  next
    case (Inr fs)
    with v have v': "verify_request (ac_hmac cfg) (ac_sha cfg) (ac_keyring cfg) now (ac_max_skew cfg) r (as_store st) = (Inr fs, store)"
      by simp
    from v' obtain expiry where c: "verify_checks (ac_hmac cfg) (ac_sha cfg) (ac_keyring cfg) now (ac_max_skew cfg) r = Inr expiry"
      by (rule verify_request_accepts)
    from c obtain key sig where k: "key_lookup (ac_keyring cfg) (the (obj_get r ''key_id'')) = Inr key"
        "obj_get r ''signature'' = Some (JStr sig)" "sig = ac_hmac cfg key (canonical_body r)"
        "list_all (\<lambda>f. obj_get r f \<noteq> None) signed_fields" "check_time now (ac_max_skew cfg) r = Inr expiry"
      by (rule verify_checks_accepts)
    from key_lookup_text [OF k(1)] k(4) obtain kid where kid: "obj_get r ''key_id'' = Some (JStr kid)"
        "ac_keyring cfg kid = Some key" by (auto simp: signed_fields_def)
    have t: "now \<le> expiry" using check_time_accepts [OF k(5)] by blast
    show ?thesis using v'
    proof (cases rule: front_accepted)
      case login
      with kid k t show ?thesis by blast
    next
      case handshake
      with h w show ?thesis by (auto simp: handle_def)
    next
      case refused
      with h w show ?thesis by (auto simp: handle_def)
    next
      case prior
      with h w show ?thesis by (auto simp: handle_def)
    next
      case (task t')
      have "idem_get (tk_job_int t') (tk_oper t') (as_store st) = None"
        using task(6) same by (simp add: idem_get_def)
      with task kid k t show ?thesis by blast
    qed
  qed
qed

section \<open>Responses\<close>

definition allowlisted :: "json \<Rightarrow> bool" where
  "allowlisted v \<longleftrightarrow> (case v of JObj kvs \<Rightarrow> set (map fst kvs) \<subseteq> set response_allowlist | _ \<Rightarrow> False)"

definition store_allowlisted :: "agent_store \<Rightarrow> bool" where
  "store_allowlisted st \<longleftrightarrow> (\<forall>(k, p) \<in> set (idem_tbl st). allowlisted (ir_response p))"

lemma sanitise_allowlisted: "allowlisted (sanitise cfg oper job ruuid result raw reason sv)"
  by (auto simp: allowlisted_def sanitise_def)

lemma error_allowlisted: "allowlisted (error_response cfg oper job ruuid e)"
  by (simp add: error_response_def sanitise_allowlisted split: agent_error.splits)

lemma login_allowlisted: "allowlisted (fst (handle_validate_login cfg r fs w))"
  by (auto simp: handle_validate_login_def Let_def error_allowlisted sanitise_allowlisted
      split: option.splits json.splits prod.splits sum.splits)

lemma store_allowlisted_cong: "idem_tbl s' = idem_tbl s \<Longrightarrow> store_allowlisted s' = store_allowlisted s"
  by (simp add: store_allowlisted_def)

lemma handle_allowlisted:
  assumes s: "store_allowlisted (as_store st)" and h: "handle cfg now r st = (resp, st')"
  shows "allowlisted resp \<and> store_allowlisted (as_store st')"
proof -
  obtain res store where v: "verify_request (ac_hmac cfg) (ac_sha cfg) (ac_keyring cfg) now (ac_max_skew cfg) r (as_store st) = (res, store)"
    by (cases "verify_request (ac_hmac cfg) (ac_sha cfg) (ac_keyring cfg) now (ac_max_skew cfg) r (as_store st)")
  have "idem_tbl store = idem_tbl (as_store st)" using verify_request_effect [OF v] by blast
  with s store_allowlisted_cong have s': "store_allowlisted store" by blast
  show ?thesis
  proof (cases res)
    case (Inl e)
    with v front_refused [of cfg now r st e store] h s' show ?thesis
      by (auto simp: handle_def error_allowlisted)
  next
    case (Inr fs)
    with v have v': "verify_request (ac_hmac cfg) (ac_sha cfg) (ac_keyring cfg) now (ac_max_skew cfg) r (as_store st) = (Inr fs, store)"
      by simp
    then show ?thesis
    proof (cases rule: front_accepted)
      case login
      with h s' show ?thesis by (auto simp: handle_def login_allowlisted)
    next
      case handshake
      with h s' show ?thesis by (auto simp: handle_def negotiate_def sanitise_allowlisted)
    next
      case refused
      with h s' show ?thesis by (auto simp: handle_def error_allowlisted)
    next
      case (prior oper j p)
      from prior(3) s' have "allowlisted (ir_response p)"
        by (auto simp: store_allowlisted_def idem_get_def dest!: map_of_SomeD)
      with prior h s' show ?thesis by (auto simp: handle_def)
    next
      case (task t)
      obtain rr st2 where run: "handle_run cfg t (st\<lparr>as_store := store\<rparr>) = (rr, st2)"
        by (cases "handle_run cfg t (st\<lparr>as_store := store\<rparr>)")
      with h task(1) have fin: "handle_finish cfg t rr st2 = (resp, st')" by (simp add: handle_def)
      have "store_allowlisted (as_store st2)" using handle_run_frame [OF run] s' by simp
      with fin show ?thesis
        by (auto simp: handle_finish_def Let_def error_allowlisted sanitise_allowlisted
            store_allowlisted_def idem_put_def split: sum.splits)
    qed
  qed
qed

text \<open>A session: requests with their arrival times, and the responses they get.\<close>

fun handle_all :: "'w agent_config \<Rightarrow> (int \<times> json) list \<Rightarrow> 'w agent_state \<Rightarrow> json list \<times> 'w agent_state" where
  "handle_all cfg [] st = ([], st)"
| "handle_all cfg ((now, r) # rs) st =
     (case handle cfg now r st of (resp, st1) \<Rightarrow>
        (case handle_all cfg rs st1 of (resps, st2) \<Rightarrow> (resp # resps, st2)))"

lemma handle_all_allowlisted:
  "store_allowlisted (as_store st) \<Longrightarrow> handle_all cfg rs st = (resps, st') \<Longrightarrow>
   list_all allowlisted resps"
proof (induction rs arbitrary: st resps st')
  case (Cons x rs)
  obtain now r where x: "x = (now, r)" by (cases x)
  obtain resp st1 where h: "handle cfg now r st = (resp, st1)" by (cases "handle cfg now r st")
  obtain rest st2 where t: "handle_all cfg rs st1 = (rest, st2)" by (cases "handle_all cfg rs st1")
  from handle_allowlisted [OF Cons.prems(1) h] Cons.IH [OF _ t] Cons.prems(2) x h t
  show ?case by auto
qed simp

text \<open>
  No response ever leaves the agent with a field outside the response allowlist, whatever the
  operation implementations and the login validator return: not a password, a path, an
  environment or an exception text. This holds for every session of an agent that starts with
  empty stores, stored responses included.
\<close>
theorem responses_allowlisted:
  assumes "as_store st = new_agent_store" "handle_all cfg rs st = (resps, st')"
  shows "list_all allowlisted resps \<and> length resps = length rs"
proof
  have "store_allowlisted (as_store st)" using assms(1) by (simp add: store_allowlisted_def new_agent_store_def)
  then show "list_all allowlisted resps" using assms(2) by (rule handle_all_allowlisted)
  show "length resps = length rs" using assms(2)
    by (induction rs arbitrary: st resps st') (auto split: prod.splits)
qed

section \<open>Paths the operations get\<close>

definition uuid_char :: "char \<Rightarrow> bool" where
  "uuid_char c \<longleftrightarrow> c = CHR ''-'' \<or> is_digit c \<or> (97 \<le> (of_char c :: nat) \<and> (of_char c :: nat) \<le> 102)"

lemma hex_fixed_chars: "list_all uuid_char (hex_fixed k n) \<and> length (hex_fixed k n) = k"
proof (induction k arbitrary: n)
  case (Suc k)
  have "n mod 16 < 16" by simp
  then have "uuid_char (hex_digit (n mod 16))"
    unfolding uuid_char_def is_digit_def of_char_hex_digit [OF \<open>n mod 16 < 16\<close>] by auto
  with Suc show ?case by simp
qed simp

lemma uuid_text_chars: "list_all uuid_char (uuid_text n) \<and> length (uuid_text n) = 36"
proof -
  have m: "uuid_char CHR ''-''" by (simp add: uuid_char_def)
  have p: "list_all uuid_char (take k (drop j (hex_fixed 32 n)))" "list_all uuid_char (drop j (hex_fixed 32 n))"
      "list_all uuid_char (take k (hex_fixed 32 n))" for j k
    using hex_fixed_chars [of 32 n] by (auto simp: list_all_iff dest!: in_set_takeD in_set_dropD)
  have "length (hex_fixed 32 n) = 32" using hex_fixed_chars [of 32 n] by blast
  with m p show ?thesis by (simp add: uuid_text_def Let_def)
qed

lemma uuid_norm_chars: "uuid_norm s = Some v \<Longrightarrow> list_all uuid_char v \<and> length v = 36"
  using uuid_text_chars by (auto simp: uuid_norm_def Let_def split: if_splits option.splits)

lemma contained_ok:
  "contained cfg dir base = Inr () \<longleftrightarrow> is_beneath dir base \<and>
     (\<forall>c \<in> {dir, parent_dir dir}. \<forall>p. ac_real_path cfg c = Some p \<longrightarrow> is_beneath p base)"
  by (auto simp: contained_def split: option.splits)

text \<open>
  An operation only ever runs on a contained path. Whatever text the request gave as runtime
  UUID, the directory handed to the implementation and, where they exist, the resolved targets of
  that directory and of its parent lie beneath the base; in the UUID layout the directory is the
  base, a 36-character canonical UUID of hexadecimal digits and dashes, and \<open>terminal\<close>.
\<close>
theorem resolved_path_contained:
  assumes "resolve_op cfg oper u w = (Inr rs, w')"
  shows "is_beneath (rs_dir rs) (rs_base rs) \<and>
    (\<forall>c \<in> {rs_dir rs, parent_dir (rs_dir rs)}. \<forall>p. ac_real_path cfg c = Some p \<longrightarrow> is_beneath p (rs_base rs)) \<and>
    (ac_model cfg = UuidDir \<longrightarrow>
       (\<exists>v. rs_dir rs = ac_base cfg @ [CHR 0x5C] @ v @ [CHR 0x5C] @ ''terminal'' \<and>
            list_all uuid_char v \<and> length v = 36 \<and> rs_base rs = ac_base cfg \<and> w' = w))"
proof (cases "ac_model cfg")
  case SlotPool
  obtain res w1 where c: "ac_resolver cfg u oper w = (res, w1)" by (cases "ac_resolver cfg u oper w")
  with assms SlotPool obtain ctx where res: "res = Inr ctx" by (cases res) (simp_all add: resolve_op_def)
  with assms SlotPool c have "contained cfg (sc_slot_path ctx) (sc_slots_root ctx) = Inr ()"
      "rs_dir rs = sc_slot_path ctx" "rs_base rs = sc_slots_root ctx"
    by (auto simp: resolve_op_def split: sum.splits)
  with SlotPool show ?thesis unfolding contained_ok by simp
next
  case UuidDir
  with assms obtain dir where d: "derive_canonical_runtime_dir u (ac_base cfg) = Some dir"
      "contained cfg dir (ac_base cfg) = Inr ()" "rs_dir rs = dir" "rs_base rs = ac_base cfg" "w' = w"
    by (auto simp: resolve_op_def split: option.splits sum.splits)
  from d(1) uuid_norm_chars obtain v where "dir = ac_base cfg @ [CHR 0x5C] @ v @ [CHR 0x5C] @ ''terminal''"
      "list_all uuid_char v" "length v = 36"
    by (auto simp: derive_canonical_runtime_dir_def)
  with d show ?thesis unfolding contained_ok by simp
qed

section \<open>Concrete instances and interleaving\<close>

text \<open>An agent whose only operation counts its launches in the host state.\<close>

definition demo_agent :: "nat agent_config" where
  "demo_agent = \<lparr>ac_hmac = demo_hmac, ac_sha = (\<lambda>x. digits_of (length x)), ac_keyring = demo_keyring,
     ac_max_skew = 30, ac_ops = [''START'' \<mapsto> (\<lambda>rs n. (Inr [(''pid'', JInt 9), (''password'', JStr ''x'')], n + 1))],
     ac_agent_version = ''1'', ac_script_manifest = [''op_start'' \<mapsto> ''d''], ac_script_versions = Map.empty,
     ac_manifest_version = ''1'', ac_supervised = None, ac_base = ''C:'', ac_model = UuidDir,
     ac_resolver = (\<lambda>u oper w. (Inl Crashed, w)), ac_real_path = (\<lambda>p. None), ac_login = None\<rparr>"

abbreviation nil_uuid :: string where
  "nil_uuid \<equiv> ''00000000-0000-0000-0000-000000000000''"

definition demo_start :: "string \<Rightarrow> json" where
  "demo_start nonce =
     (let fs = request_fields 7 nil_uuid ''START'' ''c'' ''k1'' 100 30 nonce in
      JObj (fs @ [(''signature'', JStr (demo_hmac ''secret'' (canonical_body (JObj fs))))]))"

lemma demo_start_signed:
  "sign_request demo_hmac (\<lambda>x. digits_of (length x)) demo_keyring 7 nil_uuid ''START'' ''c'' ''k1'' 100 30 nonce None
     = Inr (demo_start nonce)"
  by (simp add: sign_request_def allowed_operations_def provisioning_operations_def
      credentialed_operations_def handshake_operations_def demo_start_def Let_def)

definition demo_state :: "nat agent_state" where
  "demo_state = \<lparr>as_store = new_agent_store, as_locks = new_lock_manager 2, as_world = 0\<rparr>"

lemma nil_uuid_norm: "uuid_norm nil_uuid = Some nil_uuid"
  by code_simp

definition demo_task :: task where
  "demo_task = \<lparr>tk_oper = ''START'', tk_job = JInt 7, tk_job_int = 7, tk_ruuid = JStr nil_uuid,
     tk_uuid = nil_uuid,
     tk_digest = semantic_digest (\<lambda>x. digits_of (length x))
       (JObj (request_fields 7 nil_uuid ''START'' ''c'' ''k1'' 100 30 '''')),
     tk_impl_name = ''op_start''\<rparr>"

lemma demo_front:
  assumes "\<not> nonce_seen (as_store st) nonce" "idem_get 7 ''START'' (as_store st) = None"
  shows "handle_front demo_agent 110 (demo_start nonce) st =
    (Inr demo_task, st\<lparr>as_store := (as_store st)\<lparr>nonces_tbl := nonces_tbl (as_store st) @ [(Some nonce, 130)]\<rparr>\<rparr>)"
proof -
  let ?fs = "JObj (request_fields 7 nil_uuid ''START'' ''c'' ''k1'' 100 30 nonce)"
  have v: "verify_request demo_hmac (\<lambda>x. digits_of (length x)) demo_keyring 110 30 (demo_start nonce) (as_store st)
      = (Inr ?fs, (as_store st)\<lparr>nonces_tbl := nonces_tbl (as_store st) @ [(Some nonce, 130)]\<rparr>)"
    using signed_request_accepted [OF demo_digests demo_start_signed, of 110 30 "as_store st"] assms(1)
    by (simp add: int64_def)
  have d: "semantic_digest (\<lambda>x. digits_of (length x)) ?fs = tk_digest demo_task"
    by (simp add: demo_task_def semantic_digest_def project_fields_def semantic_fields_def request_fields_def)
  have i: "impl_name ''START'' = ''op_start''" by code_simp
  have g: "obj_get ?fs ''operation'' = Some (JStr ''START'')" "obj_get ?fs ''provisioning_job_id'' = Some (JInt 7)"
      "obj_get ?fs ''runtime_uuid'' = Some (JStr nil_uuid)"
    by (simp_all add: request_fields_def)
  have o: "''START'' \<in> set allowed_operations" "''START'' \<notin> set credentialed_operations"
    by (simp_all add: allowed_operations_def provisioning_operations_def credentialed_operations_def)
  have "idem_get 7 ''START'' ((as_store st)\<lparr>nonces_tbl := nonces_tbl (as_store st) @ [(Some nonce, 130)]\<rparr>) = None"
    using assms(2) by (simp add: idem_get_def)
  then show ?thesis
    unfolding handle_front_def
    by (simp add: demo_agent_def v g o Let_def int64_def nil_uuid_norm i d impl_integrity_ok_def
        del: obj_get.simps)
      (simp add: demo_task_def)
qed

abbreviation demo_raw :: "(string \<times> json) list" where
  "demo_raw \<equiv> [(''pid'', JInt 9), (''password'', JStr ''x'')]"

lemma demo_resolve: "\<exists>rs. resolve_op demo_agent ''START'' nil_uuid w = (Inr rs, w)"
proof -
  have "is_beneath (''C:'' @ [CHR 0x5C] @ nil_uuid @ [CHR 0x5C] @ ''terminal'') ''C:''" by code_simp
  then show ?thesis
    by (simp add: resolve_op_def demo_agent_def derive_canonical_runtime_dir_def nil_uuid_norm contained_def)
qed

lemma demo_run:
  assumes "as_locks st = new_lock_manager 2"
  shows "handle_run demo_agent demo_task st = (Inr demo_raw, st\<lparr>as_world := as_world st + 1\<rparr>)"
proof -
  obtain rs where "resolve_op demo_agent ''START'' nil_uuid (as_world st) = (Inr rs, as_world st)"
    using demo_resolve by blast
  then have "resolve_and_run demo_agent demo_task (as_world st) = (Inr demo_raw, as_world st + 1)"
    by (simp add: resolve_and_run_def demo_task_def) (simp add: demo_agent_def)
  with assms show ?thesis
    by (simp add: handle_run_def Let_def take_permit_def enter_runtime_def new_lock_manager_def)
qed

text \<open>
  Two requests handled by two threads of the server, both past the idempotency lookup before
  either has finished: the schedule the lookup outside the lock allows.
\<close>

definition run_to_end :: "'w agent_config \<Rightarrow> task \<Rightarrow> 'w agent_state \<Rightarrow> 'w agent_state" where
  "run_to_end cfg t st = (case handle_run cfg t st of (res, st2) \<Rightarrow> snd (handle_finish cfg t res st2))"

definition two_threads :: "'w agent_config \<Rightarrow> int \<Rightarrow> json \<Rightarrow> json \<Rightarrow> 'w agent_state \<Rightarrow> 'w agent_state" where
  "two_threads cfg now r1 r2 st =
     (case handle_front cfg now r1 st of
        (Inl _, st1) \<Rightarrow> snd (handle cfg now r2 st1)
      | (Inr t1, st1) \<Rightarrow>
          (case handle_front cfg now r2 st1 of
             (Inl _, st2) \<Rightarrow> run_to_end cfg t1 st2
           | (Inr t2, st2) \<Rightarrow> run_to_end cfg t2 (run_to_end cfg t1 st2)))"

lemma demo_finish:
  "snd (handle_finish demo_agent demo_task (Inr raw) st) = st\<lparr>as_store := idem_put 7 ''START''
     \<lparr>ir_digest = tk_digest demo_task, ir_response = fst (handle_finish demo_agent demo_task (Inr raw) st)\<rparr> (as_store st)\<rparr>"
  by (simp add: handle_finish_def Let_def demo_task_def)

lemma demo_end:
  "as_locks st = new_lock_manager 2 \<Longrightarrow>
   as_world (run_to_end demo_agent demo_task st) = as_world st + 1 \<and>
   as_locks (run_to_end demo_agent demo_task st) = new_lock_manager 2 \<and>
   nonces_tbl (as_store (run_to_end demo_agent demo_task st)) = nonces_tbl (as_store st) \<and>
   (\<exists>p. idem_get 7 ''START'' (as_store (run_to_end demo_agent demo_task st)) = Some p)"
  by (simp add: run_to_end_def demo_run demo_finish idem_get_put)

lemma demo_handle_first:
  assumes "\<not> nonce_seen (as_store st) nonce" "idem_get 7 ''START'' (as_store st) = None"
  shows "snd (handle demo_agent 110 (demo_start nonce) st) =
    run_to_end demo_agent demo_task
      (st\<lparr>as_store := (as_store st)\<lparr>nonces_tbl := nonces_tbl (as_store st) @ [(Some nonce, 130)]\<rparr>\<rparr>)"
  by (simp add: handle_def demo_front [OF assms] run_to_end_def split: prod.splits)

lemma demo_fresh: "\<not> nonce_seen (as_store demo_state) nonce" "idem_get 7 ''START'' (as_store demo_state) = None"
    "as_locks demo_state = new_lock_manager 2"
  by (simp_all add: demo_state_def new_agent_store_def nonce_seen_def idem_get_def)

lemma demo_answered:
  "\<exists>p. idem_get 7 ''START'' (as_store (snd (handle demo_agent 110 (demo_start ''n1'') demo_state))) = Some p"
  "as_world (snd (handle demo_agent 110 (demo_start ''n1'') demo_state)) = 1"
  unfolding demo_handle_first [OF demo_fresh(1,2)]
  using demo_end [of "demo_state\<lparr>as_store := (as_store demo_state)\<lparr>nonces_tbl := nonces_tbl (as_store demo_state) @ [(Some ''n1'', 130)]\<rparr>\<rparr>"]
    demo_fresh(3)
  by (simp_all add: demo_state_def)

lemma demo_second_field:
  "obj_get (demo_start n) ''operation'' = Some (JStr ''START'')"
  "py_int (request_field (demo_start n) ''provisioning_job_id'') = Inr 7"
  by (simp_all add: demo_start_def Let_def request_field_def request_fields_def)


theorem effects_need_signature_witness:
  "obj_get (demo_start ''n1'') ''signature'' =
     Some (JStr (demo_hmac ''secret'' (canonical_body (demo_start ''n1''))))"
proof -
  have "as_world (snd (handle demo_agent 110 (demo_start ''n1'') demo_state)) \<noteq> as_world demo_state"
    using demo_answered(2) by (simp add: demo_state_def)
  from effects_need_signature [OF prod.collapse [symmetric] this] show ?thesis
    by (auto simp: demo_agent_def split: if_splits)
qed

theorem responses_allowlisted_witness:
  "list_all allowlisted (fst (handle_all demo_agent [(110, demo_start ''n1''), (110, JNull)] demo_state))"
  using responses_allowlisted [OF _ prod.collapse [symmetric], of demo_state demo_agent "[(110, demo_start ''n1''), (110, JNull)]"]
  by (simp add: demo_state_def)

theorem resolved_path_contained_witness:
  "\<exists>rs. resolve_op demo_agent ''START'' nil_uuid (0 :: nat) = (Inr rs, 0) \<and> is_beneath (rs_dir rs) (rs_base rs)"
proof -
  obtain rs where r: "resolve_op demo_agent ''START'' nil_uuid (0 :: nat) = (Inr rs, 0)"
    using demo_resolve by blast
  with resolved_path_contained [OF r] show ?thesis by blast
qed

text \<open>
  Idempotency does not hold across concurrent duplicates. Handled one after the other, two
  requests for the same operation of the same job launch once; handled by two threads that both
  pass the lookup before either records its answer, they launch twice, although the mutation lock
  is held around each launch.
\<close>
theorem concurrent_duplicates_run_twice:
  "as_world (snd (handle demo_agent 110 (demo_start ''n2'')
      (snd (handle demo_agent 110 (demo_start ''n1'') demo_state)))) = 1 \<and>
   as_world (two_threads demo_agent 110 (demo_start ''n1'') (demo_start ''n2'') demo_state) = 2"
proof
  let ?s = "snd (handle demo_agent 110 (demo_start ''n1'') demo_state)"
  let ?add = "\<lambda>n st. st\<lparr>as_store := (as_store st)\<lparr>nonces_tbl := nonces_tbl (as_store st) @ [(Some n, 130)]\<rparr>\<rparr>"
  obtain p where p: "idem_get 7 ''START'' (as_store ?s) = Some p" using demo_answered(1) by blast
  have "''START'' \<in> set provisioning_operations" by (simp add: provisioning_operations_def)
  from answered_final [OF p prod.collapse [symmetric] this, of demo_agent 110 "demo_start ''n2''"]
    demo_second_field demo_answered(2)
  show "as_world (snd (handle demo_agent 110 (demo_start ''n2'') ?s)) = 1" by simp
  have f1: "handle_front demo_agent 110 (demo_start ''n1'') demo_state = (Inr demo_task, ?add ''n1'' demo_state)"
    by (rule demo_front [OF demo_fresh(1,2)])
  have "\<not> nonce_seen (as_store (?add ''n1'' demo_state)) ''n2''" "idem_get 7 ''START'' (as_store (?add ''n1'' demo_state)) = None"
    by (simp_all add: demo_state_def new_agent_store_def nonce_seen_def idem_get_def)
  from demo_front [OF this] have f2: "handle_front demo_agent 110 (demo_start ''n2'') (?add ''n1'' demo_state) =
      (Inr demo_task, ?add ''n2'' (?add ''n1'' demo_state))" .
  have "as_locks (?add ''n2'' (?add ''n1'' demo_state)) = new_lock_manager 2" using demo_fresh(3) by simp
  from demo_end [OF this] demo_end [of "run_to_end demo_agent demo_task (?add ''n2'' (?add ''n1'' demo_state))"]
  show "as_world (two_threads demo_agent 110 (demo_start ''n1'') (demo_start ''n2'') demo_state) = 2"
    by (simp add: two_threads_def f1 f2) (simp add: demo_state_def)
qed

end
