(* ===== verification/AgentPool.thy ===== *)
theory AgentPool
  imports SlotEvidence AgentCore
begin

text \<open>
  The pool-aware layer of the management agent (\<^verbatim>\<open>deploy/beta-agent/pool_op_impls.py\<close>):
  resolution of a runtime to its occupancy and fixed path, the integrity gate with its two
  marker-free variants, and the release operation that returns a slot to the pool. Also the
  verification evidence (\<^verbatim>\<open>deploy/beta-agent/stores.py\<close>) and the namespace guard of
  \<^verbatim>\<open>deploy/beta-agent/win_primitives.py\<close>. What the host adapter observes (the
  process, the ownership marker) is an argument.
\<close>

section \<open>The fixed slot namespace\<close>

definition beta_slots_root :: string where
  "beta_slots_root = ''C:'' @ [CHR 0x5C] @ ''GuvFX'' @ [CHR 0x5C] @ ''beta'' @ [CHR 0x5C] @ ''slots''"

definition slot_runtime_dir :: "string \<Rightarrow> int \<Rightarrow> string" where
  "slot_runtime_dir slots_root slot = slots_root @ [CHR 0x5C] @ py_str_int slot @ [CHR 0x5C] @ ''terminal''"

record slot_input =
  si_slot :: int
  si_slot_path :: string
  si_launch_task :: string
  si_terminate_task :: string
  si_runtime_identity :: string

definition runtime_identity_prefix :: string where
  "runtime_identity_prefix = ''guvfx_b_slot''"

definition forbidden_fragments :: "string list" where
  "forbidden_fragments =
     [''c:'' @ [CHR 0x5C] @ ''guvfx'' @ [CHR 0x5C] @ ''accounts'',
      ''c:'' @ [CHR 0x5C] @ ''guvfx'' @ [CHR 0x5C] @ ''terminals'',
      ''program files'' @ [CHR 0x5C] @ ''is6'', ''metatrader'',
      ''c:'' @ [CHR 0x5C] @ ''guvfx'' @ [CHR 0x5C] @ ''mt5_signal_bridge'', ''8788'', ''8787'']"

definition forbidden_identities :: "string list" where
  "forbidden_identities = [''administrator'', ''system'', ''guvfx-rdp'']"

definition forbidden_task_names :: "string list" where
  "forbidden_task_names = [''guvfx_autostart'', ''guvfx_signalbridge'', ''guvfx_bridgewatchdog'',
     ''guvfx_launchmt5'', ''gfx_launchis6'', ''guvfx_mt5test'']"

fun contains_text :: "string \<Rightarrow> string \<Rightarrow> bool" where
  "contains_text [] pat = (pat = [])"
| "contains_text (c # cs) pat = (starts_with (c # cs) pat \<or> contains_text cs pat)"

definition account_component :: "string \<Rightarrow> string" where
  "account_component i =
     hd (split_on CHR 0x40 (last (split_on CHR 0x5C (map lower_char (strip i)))))"

datatype pool_error = PoolDenied string | PoolStore store_error

definition assert_authorised_slot_input :: "slot_input \<Rightarrow> pool_error + unit" where
  "assert_authorised_slot_input si =
     (let low = map lower_char (map (\<lambda>c. if c = CHR ''/'' then CHR 0x5C else c) (si_slot_path si));
          i = account_component (si_runtime_identity si)
      in if ''..'' \<in> set (split_on CHR 0x5C low) \<or> \<not> is_beneath (si_slot_path si) beta_slots_root \<or>
            list_ex (contains_text low) forbidden_fragments \<or>
            i \<noteq> '''' \<and> (i \<in> set forbidden_identities \<or> \<not> starts_with i runtime_identity_prefix) \<or>
            list_ex (\<lambda>t. \<not> starts_with (map lower_char t) ''guvfxbetaruntime'' \<or>
                         list_ex (contains_text (map lower_char t)) forbidden_task_names)
              [si_launch_task si, si_terminate_task si]
         then Inl (PoolDenied ''unauthorised_namespace'') else Inr ())"

definition resolve_slot_input :: "int \<Rightarrow> pool_error + slot_input" where
  "resolve_slot_input n =
     (if n < 1 then Inl (PoolDenied ''unauthorised_namespace'')
      else let si = \<lparr>si_slot = n, si_slot_path = slot_runtime_dir beta_slots_root n,
                     si_launch_task = ''GuvFXBetaRuntime-'' @ py_str_int n,
                     si_terminate_task = ''GuvFXBetaRuntimeStop-'' @ py_str_int n,
                     si_runtime_identity = runtime_identity_prefix @ py_str_int n\<rparr>
           in case assert_authorised_slot_input si of Inl e \<Rightarrow> Inl e | Inr _ \<Rightarrow> Inr si)"

section \<open>Resolution\<close>

text \<open>\<open>SlotResolver.resolve\<close>: only \<open>MATERIALISE\<close> may allocate.\<close>

definition pool_resolve ::
  "(string \<Rightarrow> string) \<Rightarrow> string \<Rightarrow> string \<Rightarrow> string \<Rightarrow> int \<Rightarrow> slot_store \<Rightarrow>
   (pool_error, slot_context, slot_store) outcome" where
  "pool_resolve sha slots_root u oper now st =
     (case (if oper = ''MATERIALISE'' then
              (case slot_assign u now st of (Inl e, st') \<Rightarrow> (Inl (PoolStore e), st') | (Inr p, st') \<Rightarrow> (Inr p, st'))
            else (case slot_lookup st u of
                    None \<Rightarrow> (Inl (PoolDenied ''runtime_not_assigned''), st) | Some p \<Rightarrow> (Inr p, st))) of
        (Inl e, st') \<Rightarrow> (Inl e, st')
      | (Inr (s, g), st') \<Rightarrow>
          (case resolve_slot_input s of
             Inl e \<Rightarrow> (Inl e, st')
           | Inr si \<Rightarrow>
               (Inr \<lparr>sc_slot = s, sc_generation = g, sc_occupancy_id = occupancy_id sha s g,
                     sc_slot_path = si_slot_path si, sc_slots_root = slots_root\<rparr>, st')))"

section \<open>The gate\<close>

text \<open>
  \<open>_gate\<close>, for a marker that was read (\<open>None\<close> when the slot directory is absent). A torn-down slot
  and a fresh one have no marker; both are still checked for quarantine and monotonicity.
\<close>

definition pool_gate ::
  "(string \<Rightarrow> string) \<Rightarrow> string \<Rightarrow> int \<Rightarrow> int \<Rightarrow> marker_file option \<Rightarrow> bool \<Rightarrow> bool \<Rightarrow> int \<Rightarrow> slot_store \<Rightarrow>
   (store_error, unit, slot_store) outcome" where
  "pool_gate sha u s g marker require_marker allow_torn_down now st =
     (case marker of
        None \<Rightarrow>
          if allow_torn_down then
            (if is_quarantined st s then (Inl SlotIntegrityError, st)
             else if slot_lookup st u \<noteq> Some (s, g) then (Inl SlotIntegrityError, st)
             else (assert_generation_monotonic st s g, st))
          else if \<not> require_marker then
            (if is_quarantined st s then (Inl SlotIntegrityError, st)
             else (assert_generation_monotonic st s g, st))
          else assert_occupancy_integrity sha u s g NoMarker now st
      | Some raw \<Rightarrow> assert_occupancy_integrity sha u s g raw now st)"

section \<open>Evidence\<close>

definition owner_marker_digest :: "(string \<Rightarrow> string) \<Rightarrow> string option \<Rightarrow> json" where
  "owner_marker_digest sha raw =
     (case raw of None \<Rightarrow> JNull | Some t \<Rightarrow> if t = '''' then JNull else JStr (take 12 (sha t)))"

definition path_digest :: "(string \<Rightarrow> string) \<Rightarrow> string \<Rightarrow> string" where
  "path_digest sha dir = take 12 (sha dir)"

definition build_verification_evidence ::
  "(string \<Rightarrow> string) \<Rightarrow> string \<Rightarrow> int \<Rightarrow> int \<Rightarrow> string \<Rightarrow> string option \<Rightarrow> json \<Rightarrow> json \<Rightarrow> string \<Rightarrow> json \<Rightarrow>
   json \<Rightarrow> json \<Rightarrow> bool \<Rightarrow> bool \<Rightarrow> (string \<times> json) list" where
  "build_verification_evidence sha u s g dir raw pid session manifest protocol verified_at started_at path_ok exe_ok =
     [(''runtime_uuid'', JStr u), (''slot'', JInt s), (''generation'', JInt g),
      (''occupancy_id'', JStr (occupancy_id sha s g)), (''owner_marker_digest'', owner_marker_digest sha raw),
      (''canonical_path'', JStr dir), (''canonical_path_digest'', JStr (path_digest sha dir)),
      (''path_containment_verified'', JBool path_ok), (''executable_containment_verified'', JBool exe_ok),
      (''pid'', pid), (''session_id'', session), (''manifest_version'', JStr manifest),
      (''protocol_version'', protocol), (''verified_at'', verified_at), (''started_at'', started_at)]"

definition remote_evidence_fields :: "string list" where
  "remote_evidence_fields =
     [''runtime_uuid'', ''slot'', ''generation'', ''occupancy_id'', ''owner_marker_digest'',
      ''canonical_path_digest'', ''path_containment_verified'', ''executable_containment_verified'',
      ''pid'', ''session_id'', ''manifest_version'', ''protocol_version'', ''verified_at'']"

definition remote_evidence :: "(string \<times> json) list \<Rightarrow> (string \<times> json) list" where
  "remote_evidence ev =
     List.map_filter (\<lambda>k. map_option (\<lambda>v. (k, v)) (map_of ev k)) remote_evidence_fields"

text \<open>\<open>out.update(extra)\<close>.\<close>

definition dict_update :: "(string \<times> json) list \<Rightarrow> (string \<times> json) list \<Rightarrow> (string \<times> json) list" where
  "dict_update d e = filter (\<lambda>(k, _). k \<notin> set (map fst e)) d @ e"

section \<open>Release\<close>

text \<open>The outcome and reason of a process observation.\<close>

record observation =
  ob_outcome :: string
  ob_reason :: string

text \<open>\<open>{e["operation"]: e for e in ...}\<close>: the last record of an operation wins.\<close>

definition evidence_by_operation :: "slot_store \<Rightarrow> int \<Rightarrow> int \<Rightarrow> string \<Rightarrow> evidence_row option" where
  "evidence_by_operation st s g oper =
     map_of (rev (map (\<lambda>e. (ev_operation e, e)) (stage_evidence_for_occupancy st s g))) oper"

definition stage_in :: "evidence_row option \<Rightarrow> string list \<Rightarrow> bool" where
  "stage_in e statuses \<longleftrightarrow> (case e of None \<Rightarrow> False | Some r \<Rightarrow> ev_stage_status r \<in> set statuses)"

definition release_event :: "string \<Rightarrow> string \<Rightarrow> int \<Rightarrow> audit_material" where
  "release_event ev u now =
     \<lparr>am_event = ev, am_runtime_uuid = u, am_slot = 0, am_generation = 0, am_occupancy_id = '''',
      am_operation = ''release'', am_provisioning_job_id = None, am_correlation_id = '''',
      am_prior_state = '''', am_resulting_state = '''', am_integrity_outcome = '''',
      am_quarantined = False, am_agent_version = '''', am_manifest_version = '''',
      am_protocol_version = None, am_at = now\<rparr>"

text \<open>The proofs \<open>op_release\<close> builds; four of the seven are literals.\<close>

definition op_release_proofs :: "slot_store \<Rightarrow> int \<Rightarrow> int \<Rightarrow> string \<Rightarrow> bool" where
  "op_release_proofs st s g p =
     (if p = ''canonical_directory_tombstoned''
      then stage_in (evidence_by_operation st s g ''tombstone'') [''COMPLETED'', ''ALREADY_COMPLETED'']
      else if p = ''tombstone_evidence_persisted''
      then stage_in (evidence_by_operation st s g ''verify_cleanup'') [''COMPLETED'']
      else p \<in> set release_proofs)"

definition op_release ::
  "(string \<Rightarrow> string) \<Rightarrow> observation \<Rightarrow> string \<Rightarrow> int \<Rightarrow> int \<Rightarrow> int \<Rightarrow> slot_store \<Rightarrow>
   (pool_error, (string \<times> json) list, slot_store) outcome" where
  "op_release sha obs u s g now st =
     (if ob_outcome obs \<noteq> ''absent''
      then (Inl (PoolDenied (if ob_reason obs \<noteq> '''' then ob_reason obs else ''release_runtime_present'')), st)
      else case audit_checkpoint sha ''before_release'' (Some s) now st of
        (Inl e, st1) \<Rightarrow> (Inl (PoolStore e), st1)
      | (Inr _, st1) \<Rightarrow>
          (case assert_evidence_complete st1 s g of
             Inl e \<Rightarrow> (Inl (PoolStore e), st1)
           | Inr _ \<Rightarrow>
               (case release_after_tombstone u s g (op_release_proofs st1 s g) now st1 of
                  (Inl e, st2) \<Rightarrow> (Inl (PoolStore e), st2)
                | (Inr _, st2) \<Rightarrow>
                    (case record_audit sha (release_event ''slot_released'' u now) (Some s) (Some g) st2 of
                       (Inl e, st3) \<Rightarrow> (Inl (PoolStore e), st3)
                     | (Inr _, st3) \<Rightarrow>
                         (Inr (dict_update
                                 (remote_evidence (build_verification_evidence sha u s g
                                    (slot_runtime_dir beta_slots_root s) (Some '''') JNull JNull '''' JNull JNull JNull
                                    False False))
                                 [(''released'', JBool True), (''available'', JBool True)]), st3)))))"

text \<open>
  The older \<open>release\<close>, whose two unobservable proofs are arguments. It writes its audit event
  before the slot is released.
\<close>

definition pool_release_proofs :: "slot_store \<Rightarrow> int \<Rightarrow> int \<Rightarrow> bool \<Rightarrow> bool \<Rightarrow> string \<Rightarrow> bool" where
  "pool_release_proofs st s g no_job no_lock p =
     (if p = ''runtime_process_stopped''
      then stage_in (evidence_by_operation st s g ''confirm_terminated'') [''COMPLETED'']
      else if p = ''process_identity_verified''
      then stage_in (evidence_by_operation st s g ''confirm_launch'') [''COMPLETED'']
      else if p = ''canonical_directory_tombstoned''
      then stage_in (evidence_by_operation st s g ''tombstone'') [''COMPLETED'', ''ALREADY_COMPLETED'']
      else if p = ''tombstone_evidence_persisted''
      then stage_in (evidence_by_operation st s g ''verify_cleanup'') [''COMPLETED'']
      else if p = ''no_ambiguous_provisioning_job'' then no_job
      else if p = ''no_mutation_lock_held'' then no_lock
      else p = ''slot_release_audit_persisted'')"

definition pool_release ::
  "(string \<Rightarrow> string) \<Rightarrow> string \<Rightarrow> int \<Rightarrow> int \<Rightarrow> bool \<Rightarrow> bool \<Rightarrow> int \<Rightarrow> slot_store \<Rightarrow>
   (store_error, unit, slot_store) outcome" where
  "pool_release sha u s g no_job no_lock now st =
     (case assert_evidence_complete st s g of
        Inl e \<Rightarrow> (Inl e, st)
      | Inr _ \<Rightarrow>
          (case record_audit sha (release_event ''tombstone_completed'' u now) (Some s) (Some g) st of
             (Inl e, st1) \<Rightarrow> (Inl e, st1)
           | (Inr _, st1) \<Rightarrow>
               (case release_after_tombstone u s g (pool_release_proofs st s g no_job no_lock) now st1 of
                  (Inl e, st2) \<Rightarrow> (Inl e, st2) | (Inr _, st2) \<Rightarrow> (Inr (), st2))))"

section \<open>Properties\<close>

text \<open>
  Only materialisation can take pool capacity. Resolving any other operation leaves the slot
  store exactly as it was and succeeds only for a runtime that already holds a slot; the path it
  yields is the fixed directory of the slot number and nothing of the request enters it.
\<close>
theorem resolution_allocates_only_on_materialise:
  assumes "pool_resolve sha root_dir u oper now st = (res, st')"
  shows "(oper \<noteq> ''MATERIALISE'' \<longrightarrow> st' = st \<and> (slot_lookup st u = None \<longrightarrow> failed res)) \<and>
    (\<forall>ctx. res = Inr ctx \<longrightarrow> sc_slot_path ctx = slot_runtime_dir beta_slots_root (sc_slot ctx) \<and>
       (oper \<noteq> ''MATERIALISE'' \<longrightarrow> slot_lookup st u = Some (sc_slot ctx, sc_generation ctx)))"
proof -
  have path: "si_slot_path si = slot_runtime_dir beta_slots_root n" if "resolve_slot_input n = Inr si" for n si
    using that by (auto simp: resolve_slot_input_def Let_def split: if_splits sum.splits)
  show ?thesis
  proof (cases "oper = ''MATERIALISE''")
    case False
    with assms path show ?thesis
      by (auto simp: pool_resolve_def split: option.splits sum.splits prod.splits)
  next
    case True
    with assms path show ?thesis
      by (auto simp: pool_resolve_def split: option.splits sum.splits prod.splits)
  qed
qed

lemma audit_checkpoint_view [simp]: "pool_view (snd (audit_checkpoint sha b s now st)) = pool_view st"
  by (rule view_cong) simp

lemma record_audit_view [simp]: "pool_view (snd (record_audit sha m s g st)) = pool_view st"
  by (rule view_cong) simp

text \<open>
  The release operation returns a slot to the pool only on proof. When it succeeds, no process
  was observed, the audit chain verified, the occupancy's evidence is complete and records a
  completed tombstone and cleanup, the slot was not quarantined and held exactly this runtime and
  generation; then the slot is free under the next generation and the audit ends with the
  release. When it fails, the occupancy of every slot is unchanged.
\<close>
theorem op_release_correct:
  assumes wf: "slot_wf st" and r: "op_release sha obs u s g now st = (res, st')"
  shows "(succeeded res \<longrightarrow>
      ob_outcome obs = ''absent'' \<and> succeeded (verify_audit_chain sha st) \<and>
      assert_evidence_complete st s g = Inr () \<and>
      stage_in (evidence_by_operation st s g ''tombstone'') [''COMPLETED'', ''ALREADY_COMPLETED''] \<and>
      stage_in (evidence_by_operation st s g ''verify_cleanup'') [''COMPLETED''] \<and>
      \<not> is_quarantined st s \<and> pool_view st s = Some (Some u, g) \<and>
      pool_view st' = (pool_view st)(s \<mapsto> (None, g + 1)) \<and>
      (\<exists>row. audit_tbl st' = audit_tbl st @ [row] \<and> am_event (au_material row) = ''slot_released'' \<and>
             am_slot (au_material row) = s \<and> am_generation (au_material row) = g)) \<and>
    (failed res \<longrightarrow> pool_view st' = pool_view st)"
proof (cases "ob_outcome obs = ''absent''")
  case False
  with r show ?thesis by (auto simp: op_release_def)
next
  case obs: True
  obtain c st1 where c: "audit_checkpoint sha ''before_release'' (Some s) now st = (c, st1)"
    by (cases "audit_checkpoint sha ''before_release'' (Some s) now st")
  have v1: "pool_view st1 = pool_view st" using audit_checkpoint_view [of sha _ "Some s" now st] c by (metis snd_conv)
  show ?thesis
  proof (cases c)
    case (Inl e)
    with r obs c v1 show ?thesis by (auto simp: op_release_def)
  next
    case (Inr n)
    with c have st1: "st1 = st" and valid: "succeeded (verify_audit_chain sha st)"
      by (auto simp: audit_checkpoint_def audit_checkpoints_def split: sum.splits)
    show ?thesis
    proof (cases "assert_evidence_complete st s g")
      case (Inl e)
      with r obs c Inr st1 show ?thesis by (auto simp: op_release_def)
    next
      case ev: (Inr y)
      obtain k st2 where k: "release_after_tombstone u s g (op_release_proofs st s g) now st = (k, st2)"
        by (cases "release_after_tombstone u s g (op_release_proofs st s g) now st")
      note C = release_correct [OF wf k]
      show ?thesis
      proof (cases k)
        case (Inl e)
        with r obs c Inr st1 ev k C show ?thesis by (auto simp: op_release_def)
      next
        case kk: (Inr g')
        from C kk have proofs: "list_all (op_release_proofs st s g) release_proofs"
          and q: "\<not> is_quarantined st s" "pool_view st s = Some (Some u, g)"
            "pool_view st2 = (pool_view st)(s \<mapsto> (None, g + 1))" by simp_all
        have a2: "audit_tbl st2 = audit_tbl st"
          using audit_tbl_kept(3) [of u s g "op_release_proofs st s g" now st] k by simp
        obtain a st3 where a: "record_audit sha (release_event ''slot_released'' u now) (Some s) (Some g) st2 = (a, st3)"
          by (cases "record_audit sha (release_event ''slot_released'' u now) (Some s) (Some g) st2")
        then have a': "a = Inr ()" "\<exists>row. audit_tbl st3 = audit_tbl st2 @ [row] \<and>
            am_event (au_material row) = ''slot_released'' \<and> am_slot (au_material row) = s \<and>
            am_generation (au_material row) = g"
          by (auto simp: record_audit_def release_event_def audit_events_def Let_def)
        have v3: "pool_view st3 = pool_view st2"
          using record_audit_view [of sha _ "Some s" "Some g" st2] a by (metis snd_conv)
        have stages: "stage_in (evidence_by_operation st s g ''tombstone'') [''COMPLETED'', ''ALREADY_COMPLETED'']"
            "stage_in (evidence_by_operation st s g ''verify_cleanup'') [''COMPLETED'']"
          using proofs by (auto simp: release_proofs_def op_release_proofs_def)
        have "succeeded res" "st' = st3" using r obs c Inr st1 ev k kk a a'(1)
          by (auto simp: op_release_def)
        with obs valid ev stages q v3 a2 a'(2) show ?thesis by (auto split: sum.splits)
      qed
    qed
  qed
qed

text \<open>
  What crosses the management channel names the occupancy and never the file system path: the
  remote projection of verification evidence has no \<open>canonical_path\<close>, keeps every other agreed
  field, and an absent or empty ownership marker is reported as absent, never as a digest.
\<close>
theorem remote_evidence_hides_path:
  "map_of (remote_evidence (build_verification_evidence sha u s g dir raw pid session manifest protocol
       verified_at started_at path_ok exe_ok)) k =
     (if k \<in> set remote_evidence_fields
      then map_of (build_verification_evidence sha u s g dir raw pid session manifest protocol
             verified_at started_at path_ok exe_ok) k
      else None) \<and>
   ''canonical_path'' \<notin> set remote_evidence_fields \<and>
   (owner_marker_digest sha raw = JNull \<longleftrightarrow> raw = None \<or> raw = Some '''')"
proof -
  have m: "map_of (List.map_filter (\<lambda>k. map_option (\<lambda>v. (k, v)) (map_of ev k)) ks) k =
      (if k \<in> set ks then map_of ev k else None)" for ev :: "(string \<times> json) list" and ks k
    by (induction ks) (auto simp: List.map_filter_simps split: option.splits)
  have "map_of (remote_evidence ev) k = (if k \<in> set remote_evidence_fields then map_of ev k else None)" for ev k
    unfolding remote_evidence_def by (rule m)
  moreover have "''canonical_path'' \<notin> set remote_evidence_fields" by (simp add: remote_evidence_fields_def)
  moreover have "owner_marker_digest sha raw = JNull \<longleftrightarrow> raw = None \<or> raw = Some ''''"
    by (auto simp: owner_marker_digest_def split: option.splits)
  ultimately show ?thesis by blast
qed

text \<open>
  A torn-down or fresh slot passes the marker-free gate exactly when it is not quarantined,
  its recorded generation is the caller's and, for a torn-down slot, the store still records this
  runtime as its holder; the marker-free gate never changes the store.
\<close>
theorem marker_free_gate:
  assumes "slot_wf st" "pool_gate sha u s g None require torn now st = (res, st')" "torn \<or> \<not> require"
  shows "st' = st \<and> (res = Inr () \<longleftrightarrow> \<not> is_quarantined st s \<and> generation_of st s = Some g \<and>
           (torn \<longrightarrow> pool_view st s = Some (Some u, g)))"
  using assms monotonic_iff [OF assms(1), of s g] lookup_view [OF assms(1), of u s g]
  by (auto simp: pool_gate_def split: if_splits)

section \<open>Concrete instances\<close>

theorem resolution_allocates_only_on_materialise_witness:
  "failed (fst (pool_resolve id beta_slots_root ''v'' ''START'' 3 demo_held))"
proof -
  have "slot_lookup demo_held ''v'' = None" by (simp add: slot_eval upto.simps)
  with resolution_allocates_only_on_materialise
    [OF prod.collapse [symmetric, of "pool_resolve id beta_slots_root ''v'' ''START'' 3 demo_held"]]
  show ?thesis by simp
qed

definition demo_attestation :: attestation where
  "demo_attestation = \<lparr>at_evidence_digest = ''d'', at_stage_status = ''COMPLETED'',
     at_failure_category = '''', at_reason_code = ''''\<rparr>"

abbreviation demo_torn_ops :: "slot_op list" where
  "demo_torn_ops \<equiv> [OpRecordStage 1 1 ''tombstone'' demo_attestation 2,
     OpRecordStage 1 1 ''verify_cleanup'' demo_attestation 3]"

abbreviation demo_torn :: slot_store where
  "demo_torn \<equiv> slot_run id demo_torn_ops demo_held"

lemma demo_torn_facts:
  "slot_wf demo_torn" "pool_view demo_torn 1 = Some (Some ''u'', 1)" "\<not> is_quarantined demo_torn 1"
  "audit_tbl demo_torn = []" "assert_evidence_complete demo_torn 1 1 = Inr ()"
proof -
  show "slot_wf demo_torn" by (rule slot_run_wf [OF demo_held_wf])
  have f: "slots_tbl demo_torn = slots_tbl demo_held" "generations_tbl demo_torn = generations_tbl demo_held"
      "quarantine_tbl demo_torn = quarantine_tbl demo_held" "audit_tbl demo_torn = audit_tbl demo_held"
    by (simp_all del: audit_tbl_kept)
  then show "pool_view demo_torn 1 = Some (Some ''u'', 1)"
    using demo_held_view view_cong [of demo_torn demo_held] by simp
  have "\<not> is_quarantined demo_held 1" by (simp add: slot_eval upto.simps)
  with f(3) show "\<not> is_quarantined demo_torn 1" by (simp add: is_quarantined_def)
  show "audit_tbl demo_torn = []" using f(4) by (simp add: demo_store_def)
  have "sequence_ok demo_held 1 1 \<and> evidence_ok demo_held 1 1"
    by (simp add: sequence_ok_def evidence_ok_def slot_eval upto.simps)
  then show "assert_evidence_complete demo_torn 1 1 = Inr ()"
    by (intro evidence_complete slot_run_sequence slot_run_evidence)
      (simp_all add: sequences_only_def)
qed

lemma demo_torn_stages:
  "stage_in (evidence_by_operation demo_torn 1 1 ''tombstone'') [''COMPLETED''] \<and>
   stage_in (evidence_by_operation demo_torn 1 1 ''verify_cleanup'') [''COMPLETED'']"
  by (simp add: evidence_by_operation_def stage_evidence_for_occupancy_def record_stage_def
      append_sequence_def next_sequence_def evidence_at_def demo_attestation_def slot_eval upto.simps
      stage_in_def Let_def)

lemma op_release_proofs_hold:
  assumes "stage_in (evidence_by_operation st s g ''tombstone'') [''COMPLETED'', ''ALREADY_COMPLETED'']"
    and "stage_in (evidence_by_operation st s g ''verify_cleanup'') [''COMPLETED'']"
  shows "list_all (op_release_proofs st s g) release_proofs"
  using assms by (auto simp: release_proofs_def op_release_proofs_def list_all_iff)

lemma op_release_succeeds:
  assumes "slot_wf st" "chain_valid sha st" "assert_evidence_complete st s g = Inr ()"
    and "list_all (op_release_proofs st s g) release_proofs" "\<not> is_quarantined st s"
    and "pool_view st s = Some (Some u, g)" "ob_outcome obs = ''absent''"
  shows "succeeded (fst (op_release sha obs u s g now st))"
proof -
  obtain k st2 where k: "release_after_tombstone u s g (op_release_proofs st s g) now st = (k, st2)"
    by (cases "release_after_tombstone u s g (op_release_proofs st s g) now st")
  with release_correct [OF assms(1) k] assms(4-6) obtain g' where "k = Inr g'" by (cases k) auto
  moreover have "audit_checkpoint sha ''before_release'' (Some s) now st = (Inr (length (audit_tbl st)), st)"
    using assms(2) unfolding verify_audit_chain_iff [symmetric]
    by (simp add: audit_checkpoint_def audit_checkpoints_def)
  moreover have "record_audit sha (release_event ''slot_released'' u now) (Some s) (Some g) st2 =
      (Inr (), snd (record_audit sha (release_event ''slot_released'' u now) (Some s) (Some g) st2))"
    by (simp add: record_audit_def release_event_def audit_events_def Let_def)
  ultimately show ?thesis using assms(3,7) k by (auto simp: op_release_def split: prod.splits sum.splits)
qed

theorem op_release_correct_witness:
  "pool_view (snd (op_release id \<lparr>ob_outcome = ''absent'', ob_reason = ''''\<rparr> ''u'' 1 1 5 demo_torn)) 1 =
     Some (None, 2)"
proof -
  let ?r = "op_release id \<lparr>ob_outcome = ''absent'', ob_reason = ''''\<rparr> ''u'' 1 1 5 demo_torn"
  have "chain_valid id demo_torn" unfolding chain_valid_def demo_torn_facts(4) by simp
  moreover have "list_all (op_release_proofs demo_torn 1 1) release_proofs"
    by (rule op_release_proofs_hold) (use demo_torn_stages in \<open>auto simp: stage_in_def split: option.splits\<close>)
  ultimately have "succeeded (fst ?r)"
    using demo_torn_facts by (intro op_release_succeeds) auto
  with op_release_correct [OF demo_torn_facts(1) prod.collapse [symmetric, of ?r]]
  have "pool_view (snd ?r) = (pool_view demo_torn)(1 \<mapsto> (None, 1 + 1))" by blast
  then show ?thesis by (simp only: fun_upd_same one_add_one)
qed

theorem marker_free_gate_witness:
  "fst (pool_gate id ''u'' 1 1 None True True 5 demo_held) = Inr ()"
proof -
  have "\<not> is_quarantined demo_held 1" "generation_of demo_held 1 = Some 1"
    by (simp_all add: slot_eval upto.simps)
  with marker_free_gate [OF demo_held_wf
      prod.collapse [symmetric, of "pool_gate id ''u'' 1 1 None True True 5 demo_held"]] demo_held_view
  show ?thesis by simp
qed

end
