(* ===== verification/BrokerHealth.thy ===== *)
theory BrokerHealth
  imports PyJson
begin

text \<open>
  The continuous broker-health state machine (\<^verbatim>\<open>backend/reliability/broker_health.py\<close>,
  \<^verbatim>\<open>backend/reliability/models.py\<close>): validation attempts and time fold into one state per
  account, each update applies one net transition, and the transition decides the signals. Times
  are integers in microseconds. One account is modelled; its row lock makes every service call one
  step.
\<close>

section \<open>State\<close>

datatype health_state = Unknown | Healthy | Degraded | Stale | Disconnected | Tombstoned

definition pause_states :: "health_state set" where
  "pause_states = {Degraded, Stale, Disconnected, Tombstoned}"

definition recoverable_states :: "health_state set" where
  "recoverable_states = {Degraded, Stale, Disconnected}"

definition failure_substates :: "health_state set" where
  "failure_substates = {Degraded, Disconnected}"

record broker_health =
  bh_state :: health_state
  bh_reason :: string
  bh_last_success :: "int option"
  bh_last_attempt :: "int option"
  bh_successes :: nat
  bh_failures :: nat
  bh_watermark :: "int option"
  bh_resume_eligible :: bool
  bh_version :: nat

definition new_health :: broker_health where
  "new_health = \<lparr>bh_state = Unknown, bh_reason = '''', bh_last_success = None, bh_last_attempt = None,
     bh_successes = 0, bh_failures = 0, bh_watermark = None, bh_resume_eligible = False, bh_version = 0\<rparr>"

definition health_eligible :: "broker_health \<Rightarrow> bool" where
  "health_eligible h \<longleftrightarrow> bh_state h = Healthy"

definition pause_required :: "broker_health \<Rightarrow> bool" where
  "pause_required h \<longleftrightarrow> bh_state h \<in> pause_states"

text \<open>The convergence contract the execution layer reads.\<close>

record health_contract =
  ct_state :: health_state
  ct_eligible :: bool
  ct_pause_required :: bool
  ct_resume_eligible :: bool
  ct_reason :: string
  ct_version :: nat

definition contract_of :: "broker_health \<Rightarrow> health_contract" where
  "contract_of h = \<lparr>ct_state = bh_state h, ct_eligible = health_eligible h,
     ct_pause_required = pause_required h, ct_resume_eligible = bh_resume_eligible h,
     ct_reason = bh_reason h, ct_version = bh_version h\<rparr>"

record health_config =
  hc_failure_threshold :: nat
  hc_success_threshold :: nat
  hc_stale_timeout_s :: int

section \<open>Folding evidence\<close>

datatype outcome_kind = Success | FailureSoft | FailureHard

definition classify_status :: "string \<Rightarrow> outcome_kind" where
  "classify_status s =
     (let t = map upper_char (strip s) in
      if t = ''HEALTHY'' then Success else if t = ''UNAVAILABLE'' then FailureHard else FailureSoft)"

definition adverse_state :: "outcome_kind \<Rightarrow> health_state" where
  "adverse_state k = (if k = FailureHard then Disconnected else Degraded)"

definition fold_outcome :: "health_config \<Rightarrow> outcome_kind \<Rightarrow> int \<Rightarrow> broker_health \<Rightarrow> broker_health" where
  "fold_outcome cfg k evidence_at h =
     (if bh_state h = Tombstoned then h
      else if k = Success then
        (let h1 = h\<lparr>bh_successes := bh_successes h + 1, bh_failures := 0, bh_last_success := Some evidence_at\<rparr>
         in if bh_state h \<in> recoverable_states
            then (if bh_successes h1 \<ge> hc_success_threshold cfg then h1\<lparr>bh_state := Healthy\<rparr> else h1)
            else if bh_state h = Unknown then h1\<lparr>bh_state := Healthy\<rparr>
            else h1)
      else
        (let h1 = h\<lparr>bh_failures := bh_failures h + 1, bh_successes := 0\<rparr>
         in if bh_state h \<in> failure_substates then h1
            else if bh_failures h1 \<ge> hc_failure_threshold cfg then h1\<lparr>bh_state := adverse_state k\<rparr>
            else h1))"

definition fold_stale :: "health_config \<Rightarrow> int \<Rightarrow> broker_health \<Rightarrow> broker_health" where
  "fold_stale cfg now h =
     (if bh_state h \<noteq> Healthy then h
      else case bh_last_success h of
        None \<Rightarrow> h\<lparr>bh_state := Stale\<rparr>
      | Some t \<Rightarrow>
          if now - t > hc_stale_timeout_s cfg * 1000000 then h\<lparr>bh_state := Stale\<rparr> else h)"

definition state_reason :: "health_state \<Rightarrow> string" where
  "state_reason s =
     (case s of Degraded \<Rightarrow> ''degraded_auth'' | Disconnected \<Rightarrow> ''broker_unreachable''
      | Stale \<Rightarrow> ''stale_no_recent_success'' | Tombstoned \<Rightarrow> ''account_disconnected'' | _ \<Rightarrow> '''')"

text \<open>\<open>_finalize\<close>: the one net transition of an update.\<close>

definition finalize :: "health_state \<Rightarrow> nat \<Rightarrow> broker_health \<Rightarrow> bool \<times> broker_health" where
  "finalize old_state old_version h =
     (let new = bh_state h in
      if new = old_state then (False, h)
      else (True,
        (if new = Healthy then
           (if old_state \<in> pause_states
            then h\<lparr>bh_version := old_version + 1, bh_reason := ''recovered'', bh_resume_eligible := True\<rparr>
            else h\<lparr>bh_version := old_version + 1, bh_reason := ''validated'', bh_resume_eligible := False\<rparr>)
         else h\<lparr>bh_version := old_version + 1, bh_reason := state_reason new, bh_resume_eligible := False\<rparr>)))"

section \<open>The account's row, its evidence and its signals\<close>

record validation_attempt =
  va_id :: int
  va_status :: string
  va_created_at :: "int option"

datatype alert_status = AlertOpen | AlertAcknowledged | AlertResolved

text \<open>Broker-health alerts of the account, by the state in their deduplication key.\<close>

record health_world =
  hw_health :: "broker_health option"
  hw_attempts :: "validation_attempt list"
  hw_disconnected :: bool
  hw_alerts :: "(health_state \<times> alert_status) list"
  hw_log :: "string list"

definition open_alert :: "health_state \<Rightarrow> (health_state \<times> alert_status) list \<Rightarrow> (health_state \<times> alert_status) list" where
  "open_alert s alerts = (if (s, AlertOpen) \<in> set alerts then alerts else alerts @ [(s, AlertOpen)])"

definition resolve_open_alerts :: "(health_state \<times> alert_status) list \<Rightarrow> (health_state \<times> alert_status) list" where
  "resolve_open_alerts alerts = map (\<lambda>(s, _). (s, AlertResolved)) alerts"

definition enter_event :: "health_state \<Rightarrow> string" where
  "enter_event s =
     (case s of Degraded \<Rightarrow> ''BROKER_HEALTH_DEGRADED'' | Disconnected \<Rightarrow> ''BROKER_HEALTH_DISCONNECTED''
      | Stale \<Rightarrow> ''BROKER_HEALTH_STALE_DETECTED'' | Tombstoned \<Rightarrow> ''BROKER_HEALTH_TOMBSTONED''
      | _ \<Rightarrow> ''BROKER_HEALTH_TRANSITION'')"

definition emit_signals ::
  "broker_health \<Rightarrow> health_state \<Rightarrow> bool \<Rightarrow> bool \<Rightarrow> health_world \<Rightarrow> health_world" where
  "emit_signals h old_state old_resume changed w =
     (if \<not> changed \<and> bh_resume_eligible h = old_resume then w
      else
        (let w1 = (if changed then
               (if bh_state h = Healthy
                then w\<lparr>hw_alerts := resolve_open_alerts (hw_alerts w),
                       hw_log := hw_log w @ [if old_state \<noteq> Unknown then ''BROKER_HEALTH_RECOVERED''
                                             else ''BROKER_HEALTH_VALIDATED'']\<rparr>
                else w\<lparr>hw_alerts := open_alert (bh_state h) (hw_alerts w),
                       hw_log := hw_log w @ enter_event (bh_state h) #
                         (if pause_required h then [''BROKER_HEALTH_PAUSE_REQUIRED''] else [])\<rparr>)
             else w)
         in if bh_resume_eligible h \<and> \<not> old_resume
            then w1\<lparr>hw_log := hw_log w1 @ [''BROKER_HEALTH_RESUME_ELIGIBLE'']\<rparr> else w1))"

definition consume_attempt :: "health_config \<Rightarrow> int \<Rightarrow> validation_attempt \<Rightarrow> broker_health \<Rightarrow> broker_health" where
  "consume_attempt cfg now a h =
     (let evidence_at = (case va_created_at a of Some t \<Rightarrow> t | None \<Rightarrow> now) in
      (fold_outcome cfg (classify_status (va_status a)) evidence_at h)
        \<lparr>bh_last_attempt := Some evidence_at, bh_watermark := Some (va_id a)\<rparr>)"

text \<open>The attempts above the watermark, in id order.\<close>

definition pending_attempts :: "broker_health \<Rightarrow> validation_attempt list \<Rightarrow> validation_attempt list" where
  "pending_attempts h as =
     sort_key va_id (filter (\<lambda>a. va_id a > (case bh_watermark h of None \<Rightarrow> 0 | Some i \<Rightarrow> i)) as)"

definition fold_evidence :: "health_config \<Rightarrow> int \<Rightarrow> health_world \<Rightarrow> broker_health \<Rightarrow> broker_health" where
  "fold_evidence cfg now w h =
     (if hw_disconnected w then h\<lparr>bh_state := Tombstoned\<rparr>
      else if bh_state h = Tombstoned then h
      else fold_stale cfg now (fold (consume_attempt cfg now) (pending_attempts h (hw_attempts w)) h))"

definition record_validation_outcome :: "health_config \<Rightarrow> int \<Rightarrow> health_world \<Rightarrow> health_contract \<times> health_world" where
  "record_validation_outcome cfg now w =
     (let h0 = (case hw_health w of None \<Rightarrow> new_health | Some h \<Rightarrow> h);
          (changed, h) = finalize (bh_state h0) (bh_version h0) (fold_evidence cfg now w h0)
      in (contract_of h,
          emit_signals h (bh_state h0) (bh_resume_eligible h0) changed (w\<lparr>hw_health := Some h\<rparr>)))"

definition sweep_stale :: "health_config \<Rightarrow> int \<Rightarrow> health_world \<Rightarrow> health_contract option \<times> health_world" where
  "sweep_stale cfg now w =
     (case hw_health w of
        None \<Rightarrow> (None, w)
      | Some h0 \<Rightarrow>
          if bh_state h0 \<noteq> Healthy then (Some (contract_of h0), w)
          else let (changed, h) = finalize (bh_state h0) (bh_version h0) (fold_stale cfg now h0)
               in (Some (contract_of h),
                   if changed
                   then emit_signals h (bh_state h0) (bh_resume_eligible h0) changed (w\<lparr>hw_health := Some h\<rparr>)
                   else w))"

definition invalidate_for_credential_replacement :: "health_world \<Rightarrow> health_contract option \<times> health_world" where
  "invalidate_for_credential_replacement w =
     (case hw_health w of
        None \<Rightarrow> (None, w)
      | Some h0 \<Rightarrow>
          if bh_state h0 = Tombstoned then (Some (contract_of h0), w)
          else
            (let h1 = (if bh_state h0 \<noteq> Unknown
                       then h0\<lparr>bh_state := Unknown, bh_version := bh_version h0 + 1\<rparr> else h0);
                 h = h1\<lparr>bh_reason := ''credential_replaced'', bh_successes := 0, bh_failures := 0,
                        bh_last_success := None, bh_resume_eligible := False\<rparr>
             in (Some (contract_of h),
                 w\<lparr>hw_health := Some h,
                   hw_log := hw_log w @ (if bh_state h0 \<noteq> Unknown
                                         then [''BROKER_HEALTH_CREDENTIAL_INVALIDATED''] else [])\<rparr>)))"

definition get_contract :: "health_world \<Rightarrow> health_contract option" where
  "get_contract w = map_option contract_of (hw_health w)"

section \<open>Histories\<close>

datatype health_event =
    AttemptRecorded validation_attempt
  | AccountDisconnected
  | ValidationFolded int
  | StaleSwept int
  | CredentialReplaced

fun health_step :: "health_config \<Rightarrow> health_event \<Rightarrow> health_world \<Rightarrow> health_world" where
  "health_step cfg (AttemptRecorded a) w = w\<lparr>hw_attempts := hw_attempts w @ [a]\<rparr>"
| "health_step cfg AccountDisconnected w = w\<lparr>hw_disconnected := True\<rparr>"
| "health_step cfg (ValidationFolded now) w = snd (record_validation_outcome cfg now w)"
| "health_step cfg (StaleSwept now) w = snd (sweep_stale cfg now w)"
| "health_step cfg CredentialReplaced w = snd (invalidate_for_credential_replacement w)"

definition health_run :: "health_config \<Rightarrow> health_event list \<Rightarrow> health_world \<Rightarrow> health_world" where
  "health_run cfg evs w = fold (health_step cfg) evs w"

definition new_world :: health_world where
  "new_world = \<lparr>hw_health = None, hw_attempts = [], hw_disconnected = False, hw_alerts = [], hw_log = []\<rparr>"

text \<open>The state and version a service call starts from: a missing row counts as a fresh one.\<close>

definition current_health :: "health_world \<Rightarrow> broker_health" where
  "current_health w = (case hw_health w of None \<Rightarrow> new_health | Some h \<Rightarrow> h)"

section \<open>The net transition\<close>

lemma finalize_state [simp]: "bh_state (snd (finalize s v h)) = bh_state h"
  by (simp add: finalize_def Let_def)

lemma finalize_changed: "fst (finalize s v h) \<longleftrightarrow> bh_state h \<noteq> s"
  by (simp add: finalize_def Let_def)

lemma finalize_version:
  "bh_version (snd (finalize s v h)) = (if bh_state h = s then bh_version h else v + 1)"
  by (simp add: finalize_def Let_def)

lemma fold_outcome_frame [simp]:
  "bh_version (fold_outcome cfg k t h) = bh_version h"
  "bh_resume_eligible (fold_outcome cfg k t h) = bh_resume_eligible h"
  "bh_reason (fold_outcome cfg k t h) = bh_reason h"
  "bh_watermark (fold_outcome cfg k t h) = bh_watermark h"
  by (simp_all add: fold_outcome_def Let_def)

lemma fold_stale_frame [simp]:
  "bh_version (fold_stale cfg now h) = bh_version h"
  "bh_resume_eligible (fold_stale cfg now h) = bh_resume_eligible h"
  "bh_reason (fold_stale cfg now h) = bh_reason h"
  "bh_watermark (fold_stale cfg now h) = bh_watermark h"
  by (simp_all add: fold_stale_def split: option.splits)

lemma consume_frame [simp]:
  "bh_version (consume_attempt cfg now a h) = bh_version h"
  "bh_resume_eligible (consume_attempt cfg now a h) = bh_resume_eligible h"
  "bh_watermark (consume_attempt cfg now a h) = Some (va_id a)"
  by (simp_all add: consume_attempt_def Let_def)

lemma fold_consume_frame [simp]:
  "bh_version (fold (consume_attempt cfg now) as h) = bh_version h"
  "bh_resume_eligible (fold (consume_attempt cfg now) as h) = bh_resume_eligible h"
  by (induction as arbitrary: h) simp_all

lemma fold_evidence_frame [simp]:
  "bh_version (fold_evidence cfg now w h) = bh_version h"
  "bh_resume_eligible (fold_evidence cfg now w h) = bh_resume_eligible h"
  by (simp_all add: fold_evidence_def)

lemma emit_signals_frame [simp]:
  "hw_health (emit_signals h s r c w) = hw_health w"
  "hw_attempts (emit_signals h s r c w) = hw_attempts w"
  "hw_disconnected (emit_signals h s r c w) = hw_disconnected w"
  by (simp_all add: emit_signals_def Let_def)

lemma record_health:
  "hw_health (snd (record_validation_outcome cfg now w)) =
     Some (snd (finalize (bh_state (current_health w)) (bh_version (current_health w))
                 (fold_evidence cfg now w (current_health w))))"
  by (simp add: record_validation_outcome_def current_health_def case_prod_beta Let_def)

lemma sweep_health:
  "hw_health (snd (sweep_stale cfg now w)) =
     (case hw_health w of None \<Rightarrow> None
      | Some h \<Rightarrow> Some (if bh_state h \<noteq> Healthy then h
                        else snd (finalize (bh_state h) (bh_version h) (fold_stale cfg now h))))"
proof (cases "hw_health w")
  case (Some h)
  show ?thesis
  proof (cases "bh_state (fold_stale cfg now h) = bh_state h")
    case True
    then have "fold_stale cfg now h = h" by (auto simp: fold_stale_def split: option.splits if_splits)
    with Some show ?thesis by (simp add: sweep_stale_def finalize_def case_prod_beta Let_def)
  next
    case False
    then have "bh_state h = Healthy" "bh_state (fold_stale cfg now h) = Stale"
      by (auto simp: fold_stale_def split: option.splits if_splits)
    with Some show ?thesis by (simp add: sweep_stale_def finalize_changed case_prod_beta Let_def)
  qed
qed (simp add: sweep_stale_def)

lemma current_step:
  "current_health (health_step cfg e w) =
     (case e of
        ValidationFolded now \<Rightarrow>
          snd (finalize (bh_state (current_health w)) (bh_version (current_health w))
                (fold_evidence cfg now w (current_health w)))
      | StaleSwept now \<Rightarrow>
          (case hw_health w of None \<Rightarrow> new_health
           | Some h \<Rightarrow> if bh_state h \<noteq> Healthy then h
                       else snd (finalize (bh_state h) (bh_version h) (fold_stale cfg now h)))
      | CredentialReplaced \<Rightarrow> current_health (snd (invalidate_for_credential_replacement w))
      | _ \<Rightarrow> current_health w)"
  by (cases e) (simp_all add: current_health_def record_health sweep_health split: option.splits)

lemma version_step:
  "bh_version (current_health (health_step cfg e w)) =
     bh_version (current_health w) +
     (if bh_state (current_health (health_step cfg e w)) = bh_state (current_health w) then 0 else 1)"
proof (cases e)
  case (ValidationFolded now)
  then show ?thesis by (simp add: current_step finalize_version del: health_step.simps)
next
  case (StaleSwept now)
  then show ?thesis
    by (cases "hw_health w") (simp_all add: current_health_def sweep_health finalize_version)
next
  case CredentialReplaced
  then show ?thesis
    by (cases "hw_health w")
      (simp_all add: invalidate_for_credential_replacement_def current_health_def Let_def)
qed (simp_all add: current_step del: health_step.simps)

text \<open>
  Every service call makes at most one net transition. Whatever batch of evidence it folds,
  the version grows by exactly one when the account's state differs afterwards and is unchanged
  otherwise, so a consumer that has seen a version has seen its state.
\<close>
theorem one_version_per_transition:
  "bh_version (current_health (health_step cfg e w)) =
     bh_version (current_health w) +
     (if bh_state (current_health (health_step cfg e w)) = bh_state (current_health w) then 0 else 1)"
  by (rule version_step)

section \<open>Decommissioning is final\<close>

lemma tombstoned_step:
  assumes "bh_state (current_health w) = Tombstoned"
  shows "bh_state (current_health (health_step cfg e w)) = Tombstoned \<and>
    bh_version (current_health (health_step cfg e w)) = bh_version (current_health w)"
proof -
  from assms obtain h where h: "hw_health w = Some h" "bh_state h = Tombstoned"
    by (cases "hw_health w") (simp_all add: current_health_def new_health_def)
  then show ?thesis
    by (cases e) (simp_all add: record_health sweep_health fold_evidence_def finalize_def
        current_health_def invalidate_for_credential_replacement_def Let_def)
qed

lemma tombstoned_run:
  "bh_state (current_health w) = Tombstoned \<Longrightarrow>
   bh_state (current_health (health_run cfg evs w)) = Tombstoned \<and>
   bh_version (current_health (health_run cfg evs w)) = bh_version (current_health w)"
  unfolding health_run_def
proof (induction evs arbitrary: w)
  case (Cons e evs)
  from Cons.IH [of "health_step cfg e w"] tombstoned_step [OF Cons.prems, of cfg e] show ?case by simp
qed simp

text \<open>
  A decommissioned account never comes back. After the account was disconnected and one
  validation fold has run, its health is TOMBSTONED and no further event - success, sweep,
  credential replacement - changes its state or version again.
\<close>
theorem tombstoned_is_terminal:
  assumes "hw_disconnected w"
  shows "bh_state (current_health (health_run cfg evs (snd (record_validation_outcome cfg now w)))) = Tombstoned \<and>
    bh_version (current_health (health_run cfg evs (snd (record_validation_outcome cfg now w)))) =
    bh_version (current_health (snd (record_validation_outcome cfg now w)))"
proof -
  have "bh_state (current_health (snd (record_validation_outcome cfg now w))) = Tombstoned"
    using assms by (simp add: current_health_def record_health fold_evidence_def)
  then show ?thesis by (rule tombstoned_run)
qed

section \<open>Resume signals\<close>

definition resume_ok :: "health_world \<Rightarrow> bool" where
  "resume_ok w \<longleftrightarrow> (bh_resume_eligible (current_health w) \<longrightarrow> bh_state (current_health w) = Healthy) \<and>
     (bh_state (current_health w) = Healthy \<longrightarrow> list_all (\<lambda>(_, a). a = AlertResolved) (hw_alerts w))"

lemma fold_stale_state: "bh_state (fold_stale cfg now h) \<in> {bh_state h, Stale}"
  by (simp add: fold_stale_def split: option.splits)

lemma emit_alerts:
  "hw_alerts (emit_signals h s r c w) =
     (if \<not> c then hw_alerts w
      else if bh_state h = Healthy then resolve_open_alerts (hw_alerts w)
      else open_alert (bh_state h) (hw_alerts w))"
  by (simp add: emit_signals_def Let_def)

lemma resolved_all: "list_all (\<lambda>(_, a). a = AlertResolved) (resolve_open_alerts as)"
  by (auto simp: resolve_open_alerts_def list_all_iff)

lemma finalize_resume:
  "bh_resume_eligible (snd (finalize s v h)) =
     (if bh_state h = s then bh_resume_eligible h else bh_state h = Healthy \<and> s \<in> pause_states)"
  by (simp add: finalize_def Let_def)

lemma resume_ok_step: "resume_ok w \<Longrightarrow> resume_ok (health_step cfg e w)"
proof (cases e)
  case (ValidationFolded now)
  let ?h0 = "current_health w" and ?h1 = "fold_evidence cfg now w (current_health w)"
  assume ok: "resume_ok w"
  have a: "hw_alerts (health_step cfg (ValidationFolded now) w) =
      (if bh_state ?h1 = bh_state ?h0 then hw_alerts w
       else if bh_state ?h1 = Healthy then resolve_open_alerts (hw_alerts w)
       else open_alert (bh_state ?h1) (hw_alerts w))"
    by (simp add: record_validation_outcome_def current_health_def case_prod_beta Let_def emit_alerts finalize_changed)
  show ?thesis
    using ok ValidationFolded resolved_all
    by (auto simp: resume_ok_def a current_step finalize_resume simp del: health_step.simps)
next
  case (StaleSwept now)
  assume ok: "resume_ok w"
  show ?thesis
  proof (cases "hw_health w")
    case (Some h0)
    with ok StaleSwept show ?thesis using fold_stale_state [of cfg now h0]
      by (auto simp: resume_ok_def current_health_def sweep_stale_def finalize_changed finalize_resume
          case_prod_beta Let_def emit_alerts finalize_def)
  qed (use ok StaleSwept in \<open>simp add: resume_ok_def current_health_def sweep_stale_def\<close>)
next
  case CredentialReplaced
  assume "resume_ok w"
  with CredentialReplaced show ?thesis
    by (cases "hw_health w")
      (auto simp: resume_ok_def current_health_def invalidate_for_credential_replacement_def Let_def)
qed (simp_all add: resume_ok_def current_health_def)

lemma resume_ok_run: "resume_ok w \<Longrightarrow> resume_ok (health_run cfg evs w)"
  unfolding health_run_def by (induction evs arbitrary: w) (simp_all add: resume_ok_step)

text \<open>
  The resume signal and the alerts never contradict the state. Over any history from a fresh
  account, an account marked resume-eligible is HEALTHY, never in a state that requires a pause,
  and a HEALTHY account has no open or acknowledged broker-health alert left.
\<close>
theorem resume_and_alerts_agree:
  "(bh_resume_eligible (current_health (health_run cfg evs new_world)) \<longrightarrow>
      health_eligible (current_health (health_run cfg evs new_world)) \<and>
      \<not> pause_required (current_health (health_run cfg evs new_world))) \<and>
   (health_eligible (current_health (health_run cfg evs new_world)) \<longrightarrow>
      list_all (\<lambda>(_, a). a = AlertResolved) (hw_alerts (health_run cfg evs new_world)))"
proof -
  have "resume_ok new_world" by (simp add: resume_ok_def new_world_def current_health_def new_health_def)
  from resume_ok_run [OF this, of cfg evs] show ?thesis
    by (auto simp: resume_ok_def health_eligible_def pause_required_def pause_states_def)
qed

section \<open>Thresholds\<close>

definition failing :: "health_config \<Rightarrow> int \<Rightarrow> outcome_kind list \<Rightarrow> broker_health \<Rightarrow> broker_health" where
  "failing cfg t ks h = fold (\<lambda>k. fold_outcome cfg k t) ks h"

lemma failing_latched:
  "bh_state h \<in> failure_substates \<Longrightarrow> Success \<notin> set ks \<Longrightarrow>
   bh_state (fold (\<lambda>k. fold_outcome cfg k t) ks h) = bh_state h"
proof (induction ks arbitrary: h)
  case (Cons k ks)
  then have s: "bh_state (fold_outcome cfg k t h) = bh_state h"
    by (auto simp: fold_outcome_def Let_def failure_substates_def)
  with Cons show ?case by simp
qed simp

text \<open>
  Failures only count when they persist, and the first sustained failure decides. An account
  outside the failure states keeps its state while fewer failures in a row than the threshold
  arrive; the failure that reaches the threshold sets DEGRADED or DISCONNECTED by its own kind,
  and later failures of either kind do not flip it.
\<close>
theorem failure_threshold_latches:
  assumes "Success \<notin> set ks" "bh_state h \<in> {Healthy, Unknown, Stale}"
    and "bh_failures h < hc_failure_threshold cfg"
  shows "bh_state (failing cfg t ks h) =
    (if bh_failures h + length ks < hc_failure_threshold cfg then bh_state h
     else adverse_state (ks ! (hc_failure_threshold cfg - bh_failures h - 1)))"
  using assms
proof (induction ks arbitrary: h)
  case Nil
  then show ?case by (simp add: failing_def)
next
  case (Cons k ks)
  let ?h = "fold_outcome cfg k t h"
  from Cons.prems have k: "k \<noteq> Success" and nf: "bh_state h \<notin> failure_substates" "bh_state h \<noteq> Tombstoned"
    by (auto simp: failure_substates_def)
  show ?case
  proof (cases "bh_failures h + 1 < hc_failure_threshold cfg")
    case True
    with k nf have h: "bh_state ?h = bh_state h" "bh_failures ?h = bh_failures h + 1"
      by (simp_all add: fold_outcome_def Let_def)
    have "bh_state (failing cfg t ks ?h) =
        (if bh_failures ?h + length ks < hc_failure_threshold cfg then bh_state ?h
         else adverse_state (ks ! (hc_failure_threshold cfg - bh_failures ?h - 1)))"
      by (rule Cons.IH) (use Cons.prems True h in auto)
    moreover have "hc_failure_threshold cfg - bh_failures h - 1 =
        Suc (hc_failure_threshold cfg - bh_failures ?h - 1)"
      using True h by simp
    ultimately show ?thesis using h by (simp add: failing_def)
  next
    case False
    with Cons.prems(3) have e: "hc_failure_threshold cfg = bh_failures h + 1" by simp
    with k nf have s: "bh_state ?h = adverse_state k" by (simp add: fold_outcome_def Let_def)
    have "adverse_state k \<in> failure_substates" by (simp add: adverse_state_def failure_substates_def)
    with s failing_latched [of ?h ks cfg t] Cons.prems(1) have "bh_state (failing cfg t (k # ks) h) = adverse_state k"
      by (simp add: failing_def)
    with e show ?thesis by simp
  qed
qed

section \<open>Consuming evidence once\<close>

lemma consumed_watermark:
  "as \<noteq> [] \<Longrightarrow> bh_watermark (fold (consume_attempt cfg now) as h) = Some (va_id (last as))"
  by (induction as rule: rev_induct) simp_all

lemma nothing_pending:
  assumes "bh_watermark h = Some m" "\<forall>a \<in> set as. va_id a \<le> m"
  shows "pending_attempts h as = []"
proof -
  have "filter (\<lambda>a. m < va_id a) as = []" using assms(2) by (auto simp: filter_empty_conv)
  then show ?thesis by (simp add: pending_attempts_def assms(1))
qed

lemma pending_all_consumed:
  assumes "\<forall>a \<in> set as. 0 < va_id a"
  shows "pending_attempts (fold (consume_attempt cfg now) (pending_attempts h as) h) as = []"
proof (cases "pending_attempts h as = []")
  case True
  then show ?thesis by simp
next
  case False
  let ?p = "pending_attempts h as" and ?w = "case bh_watermark h of None \<Rightarrow> 0 | Some i \<Rightarrow> i"
  have s: "sorted (map va_id ?p)" by (simp add: pending_attempts_def)
  have "va_id a \<le> va_id (last ?p)" if a: "a \<in> set as" for a
  proof (cases "va_id a > ?w")
    case True
    with a have "a \<in> set ?p" by (simp add: pending_attempts_def)
    with sorted_last_max [OF s] have "va_id a \<le> last (map va_id ?p)" by simp
    then show ?thesis using False by (simp add: last_map)
  next
    case F: False
    from False have "last ?p \<in> set ?p" by simp
    then have "va_id (last ?p) > ?w" by (simp add: pending_attempts_def)
    with F show ?thesis by simp
  qed
  with nothing_pending [OF consumed_watermark [OF False]] show ?thesis by blast
qed

lemma fold_stale_idem: "fold_stale cfg now (fold_stale cfg now h) = fold_stale cfg now h"
  by (simp add: fold_stale_def split: option.splits)

lemma fold_evidence_settled:
  assumes "\<not> hw_disconnected w"
    and "pending_attempts h (hw_attempts w) = [] \<and> fold_stale cfg now h = h \<or> bh_state h = Tombstoned"
  shows "fold_evidence cfg now w h = h"
  using assms by (auto simp: fold_evidence_def)

lemma pending_cong: "bh_watermark h = bh_watermark h' \<Longrightarrow> pending_attempts h as = pending_attempts h' as"
  by (simp add: pending_attempts_def)

text \<open>
  Each attempt counts exactly once. Folding the same evidence again at the same time changes
  nothing: the row, the alerts and the audit log stay as they are and the contract returned is
  the same.
\<close>
theorem validation_fold_idempotent:
  assumes ids: "\<forall>a \<in> set (hw_attempts w). 0 < va_id a"
    and r: "record_validation_outcome cfg now w = (c, w')"
  shows "record_validation_outcome cfg now w' = (c, w')"
proof -
  let ?old = "current_health w"
  let ?folded = "fold_evidence cfg now w ?old"
  let ?new = "snd (finalize (bh_state ?old) (bh_version ?old) ?folded)"
  have w': "w' = snd (record_validation_outcome cfg now w)" and c: "c = contract_of ?new"
    using r by (simp_all add: record_validation_outcome_def current_health_def case_prod_beta Let_def)
  have h: "hw_health w' = Some ?new" unfolding w' by (rule record_health)
  have f: "hw_attempts w' = hw_attempts w" "hw_disconnected w' = hw_disconnected w"
    unfolding w' by (simp_all add: record_validation_outcome_def case_prod_beta Let_def)
  have wm: "bh_watermark ?new = bh_watermark ?folded" by (simp add: finalize_def Let_def)
  have "fold_evidence cfg now w' ?new = ?new"
  proof (cases "hw_disconnected w")
    case True
    then show ?thesis by (simp add: fold_evidence_def f finalize_def Let_def)
  next
    case d: False
    show ?thesis
    proof (cases "bh_state ?old = Tombstoned")
      case True
      have e: "?folded = ?old" using d True by (simp add: fold_evidence_def)
      have "snd (finalize (bh_state x) (bh_version x) x) = x" for x by (simp add: finalize_def)
      from this [of ?old] have "?new = ?old" by (simp only: e)
      moreover have "fold_evidence cfg now w' ?old = ?old"
        by (rule fold_evidence_settled) (use True d f in simp_all)
      ultimately show ?thesis by (simp only:)
    next
      case False
      let ?g = "fold (consume_attempt cfg now) (pending_attempts ?old (hw_attempts w)) ?old"
      have h1: "?folded = fold_stale cfg now ?g" using d False by (simp add: fold_evidence_def)
      have "pending_attempts ?new (hw_attempts w) = pending_attempts ?g (hw_attempts w)"
        by (rule pending_cong) (simp add: h1 finalize_def fold_stale_def Let_def split: option.splits)
      then have p: "pending_attempts ?new (hw_attempts w) = []" using pending_all_consumed [OF ids] by simp
      have "fold_stale cfg now ?new = ?new"
      proof -
        have "bh_state ?new = bh_state (fold_stale cfg now ?g)" "bh_last_success ?new = bh_last_success (fold_stale cfg now ?g)"
          by (simp_all add: finalize_def Let_def h1)
        then show ?thesis using fold_stale_idem [of cfg now ?g]
          by (auto simp: fold_stale_def split: option.splits if_splits)
      qed
      with p f d show ?thesis by (intro fold_evidence_settled disjI1 conjI) (simp_all only: not_False_eq_True)
    qed
  qed
  then show ?thesis unfolding c
    by (simp add: record_validation_outcome_def h finalize_def case_prod_beta Let_def emit_signals_def)

qed

section \<open>Concrete instances\<close>

definition demo_health_config :: health_config where
  "demo_health_config = \<lparr>hc_failure_threshold = 3, hc_success_threshold = 2, hc_stale_timeout_s = 3600\<rparr>"

theorem tombstoned_is_terminal_witness:
  "bh_state (current_health (health_run demo_health_config [CredentialReplaced, StaleSwept 9]
     (snd (record_validation_outcome demo_health_config 5 (new_world\<lparr>hw_disconnected := True\<rparr>))))) = Tombstoned"
  using tombstoned_is_terminal [of "new_world\<lparr>hw_disconnected := True\<rparr>"] by simp

theorem failure_threshold_latches_witness:
  "bh_state (failing demo_health_config 0 [FailureSoft, FailureSoft, FailureHard, FailureSoft] new_health) = Disconnected"
  using failure_threshold_latches [of "[FailureSoft, FailureSoft, FailureHard, FailureSoft]" new_health demo_health_config 0]
  by (simp add: new_health_def demo_health_config_def adverse_state_def)

theorem validation_fold_idempotent_witness:
  "record_validation_outcome demo_health_config 5
     (snd (record_validation_outcome demo_health_config 5
        (new_world\<lparr>hw_attempts := [\<lparr>va_id = 1, va_status = ''healthy'', va_created_at = Some 4\<rparr>]\<rparr>))) =
   record_validation_outcome demo_health_config 5
     (new_world\<lparr>hw_attempts := [\<lparr>va_id = 1, va_status = ''healthy'', va_created_at = Some 4\<rparr>]\<rparr>)"
  using validation_fold_idempotent [OF _ prod.collapse [symmetric],
      of "new_world\<lparr>hw_attempts := [\<lparr>va_id = 1, va_status = ''healthy'', va_created_at = Some 4\<rparr>]\<rparr>"
         demo_health_config 5]
  by simp

end
