(* ===== verification/WorkspaceCore.thy ===== *)
theory WorkspaceCore
  imports PyJson
begin

text \<open>
  The canonical lifecycle of a hosted MT5 workspace: the transition graph
  (\<^verbatim>\<open>hosted_workspace/state_machine.py\<close>), the manager that derives a decision from an observation
  (\<^verbatim>\<open>manager.py\<close>), the account matcher (\<^verbatim>\<open>matching.py\<close>), the observation producer
  (\<^verbatim>\<open>producer.py\<close>), the single state writer (\<^verbatim>\<open>persistence.py\<close>) and the consumer that joins them
  (\<^verbatim>\<open>consumer.py\<close>). Times are integers in microseconds; the raw facts of a snapshot are JSON values.
\<close>

section \<open>Lifecycle\<close>

text \<open>\<open>OtherState\<close> stands for a column value outside the nine canonical states.\<close>

datatype lifecycle =
    WsProvisioning | WsWaitingForLogin | WsConnected | WsExecutionReady | WsExecuting
  | WsDisconnected | WsRecovering | WsSuspended | WsRetired | OtherState string

datatype ws_reason =
    RNone | RAccountMismatch | RIpcFailure | RBrokerAuthFailure | RDegraded | RStaleObservation
  | ROperatorPause | RError | OtherReason string

fun lifecycle_name :: "lifecycle \<Rightarrow> string" where
  "lifecycle_name WsProvisioning = ''PROVISIONING''"
| "lifecycle_name WsWaitingForLogin = ''WAITING_FOR_LOGIN''"
| "lifecycle_name WsConnected = ''CONNECTED''"
| "lifecycle_name WsExecutionReady = ''EXECUTION_READY''"
| "lifecycle_name WsExecuting = ''EXECUTING''"
| "lifecycle_name WsDisconnected = ''DISCONNECTED''"
| "lifecycle_name WsRecovering = ''RECOVERING''"
| "lifecycle_name WsSuspended = ''SUSPENDED''"
| "lifecycle_name WsRetired = ''RETIRED''"
| "lifecycle_name (OtherState s) = s"

fun reason_name :: "ws_reason \<Rightarrow> string" where
  "reason_name RNone = ''NONE''"
| "reason_name RAccountMismatch = ''ACCOUNT_MISMATCH''"
| "reason_name RIpcFailure = ''IPC_FAILURE''"
| "reason_name RBrokerAuthFailure = ''BROKER_AUTH_FAILURE''"
| "reason_name RDegraded = ''DEGRADED''"
| "reason_name RStaleObservation = ''STALE_OBSERVATION''"
| "reason_name ROperatorPause = ''OPERATOR_PAUSE''"
| "reason_name RError = ''ERROR''"
| "reason_name (OtherReason s) = s"

fun workspace_transitions :: "lifecycle \<Rightarrow> lifecycle list option" where
  "workspace_transitions WsProvisioning = Some [WsWaitingForLogin, WsRetired]"
| "workspace_transitions WsWaitingForLogin = Some [WsConnected]"
| "workspace_transitions WsConnected = Some [WsExecutionReady, WsDisconnected, WsSuspended]"
| "workspace_transitions WsExecutionReady = Some [WsExecuting, WsConnected, WsDisconnected, WsSuspended]"
| "workspace_transitions WsExecuting = Some [WsExecutionReady]"
| "workspace_transitions WsDisconnected = Some [WsRecovering, WsRetired]"
| "workspace_transitions WsRecovering = Some [WsConnected]"
| "workspace_transitions WsSuspended = Some [WsConnected, WsRetired]"
| "workspace_transitions WsRetired = Some []"
| "workspace_transitions (OtherState _) = None"

definition evaluate_workspace_transition :: "lifecycle \<Rightarrow> lifecycle \<Rightarrow> bool \<times> string" where
  "evaluate_workspace_transition from to =
     (case workspace_transitions from of
        None \<Rightarrow> (False, ''unknown_state'')
      | Some allowed \<Rightarrow>
          if workspace_transitions to = None then (False, ''unknown_state'')
          else if from = to then (True, ''idempotent'')
          else if to \<in> set allowed then (True, ''ok'')
          else (False, ''illegal_transition''))"

definition to_canonical :: "string \<Rightarrow> lifecycle \<times> ws_reason" where
  "to_canonical legacy =
     (if legacy = ''NOT_PROVISIONED'' \<or> legacy = ''PROVISIONING'' then (WsProvisioning, RNone)
      else if legacy = ''AWAITING_USER_LOGIN'' then (WsWaitingForLogin, RNone)
      else if legacy = ''CONNECTED'' then (WsConnected, RNone)
      else if legacy = ''ACTIVE_ACCOUNT_MISMATCH'' then (WsSuspended, RAccountMismatch)
      else if legacy = ''DISCONNECTED'' then (WsDisconnected, RNone)
      else if legacy = ''DEGRADED'' then (WsRecovering, RDegraded)
      else if legacy = ''STOPPED'' then (WsSuspended, ROperatorPause)
      else (WsSuspended, RError))"

section \<open>The manager\<close>

record ws_observation =
  wo_process_running :: bool
  wo_ipc_available :: bool
  wo_connected :: bool
  wo_account_match :: bool
  wo_trade_allowed :: bool
  wo_fresh :: bool
  wo_previous_state :: lifecycle
  wo_previous_reason :: ws_reason
  wo_observed_at :: "json option"
  wo_margin_mode :: "int option"

record ws_decision =
  wd_next_state :: lifecycle
  wd_reason :: ws_reason
  wd_transition_required :: bool
  wd_telemetry_event :: "string option"
  wd_execution_ready :: bool
  wd_recovery_required :: bool

fun event_for_state :: "lifecycle \<Rightarrow> string option" where
  "event_for_state WsProvisioning = Some ''workspace.created''"
| "event_for_state WsWaitingForLogin = Some ''workspace.waiting_for_login''"
| "event_for_state WsConnected = Some ''workspace.connected''"
| "event_for_state WsExecutionReady = Some ''workspace.execution_ready''"
| "event_for_state WsDisconnected = Some ''workspace.disconnected''"
| "event_for_state WsRecovering = Some ''workspace.recovering''"
| "event_for_state WsSuspended = Some ''workspace.execution_paused''"
| "event_for_state _ = None"

definition all_execution_conditions :: "ws_observation \<Rightarrow> bool" where
  "all_execution_conditions obs \<longleftrightarrow>
     wo_process_running obs \<and> wo_ipc_available obs \<and> wo_connected obs \<and>
     wo_account_match obs \<and> wo_fresh obs \<and> wo_trade_allowed obs"

definition target_for :: "ws_observation \<Rightarrow> lifecycle \<times> ws_reason" where
  "target_for obs =
     (let attached = wo_process_running obs \<and> wo_ipc_available obs; prev = wo_previous_state obs in
      if all_execution_conditions obs then (WsExecutionReady, RNone)
      else if attached \<and> wo_connected obs then
        (if \<not> wo_account_match obs then (WsSuspended, RAccountMismatch)
         else if \<not> wo_fresh obs then (WsConnected, RStaleObservation)
         else (WsConnected, RNone))
      else if attached \<and> \<not> wo_connected obs then
        (if prev \<in> {WsProvisioning, WsWaitingForLogin} then (WsWaitingForLogin, RNone)
         else (WsDisconnected, RBrokerAuthFailure))
      else if prev = WsProvisioning then (WsWaitingForLogin, RNone)
      else if prev = WsDisconnected then (WsRecovering, RNone)
      else if prev \<in> {WsWaitingForLogin, WsRecovering, WsSuspended, WsRetired}
      then (prev, wo_previous_reason obs)
      else (WsDisconnected, if wo_process_running obs then RIpcFailure else RNone))"

definition derive_workspace_decision :: "ws_observation \<Rightarrow> ws_decision" where
  "derive_workspace_decision obs =
     (let (target, reason) = target_for obs;
          prev = wo_previous_state obs;
          (target, reason, required) =
            (if prev = target then (target, reason, False)
             else if fst (evaluate_workspace_transition prev target) then (target, reason, True)
             else (prev, RError, False))
      in \<lparr>wd_next_state = target, wd_reason = reason, wd_transition_required = required,
          wd_telemetry_event = (if required then event_for_state target else None),
          wd_execution_ready = (target = WsExecutionReady),
          wd_recovery_required = (target \<in> {WsDisconnected, WsRecovering})\<rparr>)"

section \<open>The account matcher\<close>

text \<open>
  \<open>str.casefold\<close> on code points below 256; only U+00DF expands. (U+00B5 folds to a code point
  outside this range that no other character below 256 folds to, so it is kept.)
\<close>

definition casefold_char :: "char \<Rightarrow> string" where
  "casefold_char c =
     (let n = of_char c :: nat in
      if (65 \<le> n \<and> n \<le> 90) \<or> (192 \<le> n \<and> n \<le> 222 \<and> n \<noteq> 215) then [char_of (n + 32)]
      else if n = 223 then ''ss'' else [c])"

definition casefold :: "string \<Rightarrow> string" where
  "casefold s = concat (map casefold_char s)"

definition norm_server :: "string option \<Rightarrow> string" where
  "norm_server s = casefold (strip (case s of None \<Rightarrow> '''' | Some t \<Rightarrow> t))"

record match_observation =
  mo_process_running :: bool
  mo_ipc_available :: bool
  mo_connected :: "bool option"
  mo_trade_allowed :: "bool option"
  mo_login :: "string option"
  mo_server :: "string option"
  mo_trade_mode :: "int option"

record expected_account =
  ea_login :: "string option"
  ea_server :: "string option"
  ea_is_demo :: bool
  ea_allow_live :: bool

definition falsy_str :: "string option \<Rightarrow> bool" where
  "falsy_str s \<longleftrightarrow> s = None \<or> s = Some ''''"

definition evaluate_active_account_match :: "match_observation \<Rightarrow> expected_account \<Rightarrow> bool \<times> string" where
  "evaluate_active_account_match obs e =
     (if \<not> mo_process_running obs then (False, ''workspace_not_running'')
      else if \<not> mo_ipc_available obs then (False, ''workspace_ipc_unavailable'')
      else if mo_connected obs \<noteq> Some True then (False, ''terminal_not_connected'')
      else if mo_trade_allowed obs \<noteq> Some True then (False, ''trade_not_allowed'')
      else if mo_login obs = None then (False, ''active_login_unavailable'')
      else if mo_server obs = None then (False, ''active_server_unavailable'')
      else if mo_trade_mode obs = None then (False, ''trade_mode_unavailable'')
      else if falsy_str (ea_login e) then (False, ''expected_login_unconfigured'')
      else if falsy_str (ea_server e) then (False, ''expected_server_unconfigured'')
      else if mo_login obs \<noteq> ea_login e then (False, ''active_account_login_mismatch'')
      else if norm_server (mo_server obs) \<noteq> norm_server (ea_server e)
      then (False, ''active_account_server_mismatch'')
      else if (mo_trade_mode obs = Some 0) \<noteq> ea_is_demo e then (False, ''classification_mismatch'')
      else if mo_trade_mode obs \<noteq> Some 0 \<and> \<not> ea_allow_live e then (False, ''live_execution_not_authorised'')
      else (True, ''ok''))"

section \<open>The producer\<close>

record raw_snapshot =
  rs_expected_login :: json
  rs_expected_server :: json
  rs_expected_is_demo :: "bool option"
  rs_expected_allow_live :: bool
  rs_process_running :: json
  rs_attach_succeeded :: json
  rs_ipc_available :: json
  rs_terminal_connected :: json
  rs_trade_allowed :: json
  rs_observed_login :: json
  rs_observed_server :: json
  rs_observed_trade_mode :: json
  rs_observed_margin_mode :: json
  rs_observed_at :: json
  rs_freshness_limit :: json

text \<open>
  \<open>_is_number\<close>: \<open>math.isfinite\<close> converts an integer to a float, which raises on integers that do not
  fit one; \<open>Inl ()\<close> is that exception. A float is taken at its exact rational value.
\<close>

definition float_limit :: int where
  "float_limit = 2 ^ 1024 - 2 ^ 970"

fun as_number :: "json \<Rightarrow> unit + rat option" where
  "as_number (JInt i) = (if float_limit \<le> \<bar>i\<bar> then Inl () else Inr (Some (of_int i)))"
| "as_number (JFloat (Finite r) _) = Inr (Some r)"
| "as_number _ = Inr None"

definition is_true :: "json \<Rightarrow> bool" where
  "is_true v \<longleftrightarrow> v = JBool True"

definition clean_identity :: "json \<Rightarrow> string option" where
  "clean_identity v =
     (if v = JNull then None else let s = strip (py_str v) in if s = '''' then None else Some s)"

definition clean_trade_mode :: "json \<Rightarrow> int option" where
  "clean_trade_mode v = (case v of JInt i \<Rightarrow> Some i | _ \<Rightarrow> None)"

definition compute_freshness :: "json \<Rightarrow> json \<Rightarrow> json \<Rightarrow> json \<Rightarrow> unit + bool" where
  "compute_freshness observed_at now limit tolerance =
     (case as_number observed_at of Inl e \<Rightarrow> Inl e | Inr None \<Rightarrow> Inr False | Inr (Some t) \<Rightarrow>
     (case as_number now of Inl e \<Rightarrow> Inl e | Inr None \<Rightarrow> Inr False | Inr (Some n) \<Rightarrow>
     (case as_number limit of Inl e \<Rightarrow> Inl e | Inr None \<Rightarrow> Inr False | Inr (Some l) \<Rightarrow>
        if l \<le> 0 then Inr False
        else (case as_number tolerance of Inl e \<Rightarrow> Inl e | Inr tol \<Rightarrow>
          let tol = (case tol of Some x \<Rightarrow> \<bar>x\<bar> | None \<Rightarrow> 0); age = n - t
          in Inr (\<not> age < - tol \<and> \<not> age > l)))))"

definition account_match :: "raw_snapshot \<Rightarrow> bool" where
  "account_match s =
     fst (evaluate_active_account_match
       \<lparr>mo_process_running = True, mo_ipc_available = True, mo_connected = Some True,
        mo_trade_allowed = Some True, mo_login = clean_identity (rs_observed_login s),
        mo_server = clean_identity (rs_observed_server s),
        mo_trade_mode = clean_trade_mode (rs_observed_trade_mode s)\<rparr>
       \<lparr>ea_login = clean_identity (rs_expected_login s), ea_server = clean_identity (rs_expected_server s),
        ea_is_demo = (case rs_expected_is_demo s of None \<Rightarrow> True | Some b \<Rightarrow> b),
        ea_allow_live = rs_expected_allow_live s\<rparr>)"

definition build_workspace_observation ::
  "raw_snapshot \<Rightarrow> json \<Rightarrow> lifecycle \<Rightarrow> ws_reason \<Rightarrow> json \<Rightarrow> ws_observation" where
  "build_workspace_observation s now prev prev_reason tolerance =
     (case (compute_freshness (rs_observed_at s) now (rs_freshness_limit s) tolerance,
            as_number (rs_observed_at s)) of
        (Inr fresh, Inr ts) \<Rightarrow>
          \<lparr>wo_process_running = is_true (rs_process_running s),
           wo_ipc_available = is_true (rs_attach_succeeded s) \<and> is_true (rs_ipc_available s),
           wo_connected = is_true (rs_terminal_connected s), wo_account_match = account_match s,
           wo_trade_allowed = is_true (rs_trade_allowed s), wo_fresh = fresh,
           wo_previous_state = prev, wo_previous_reason = prev_reason,
           wo_observed_at = (if ts = None then None else Some (rs_observed_at s)),
           wo_margin_mode = clean_trade_mode (rs_observed_margin_mode s)\<rparr>
      | _ \<Rightarrow>
          \<lparr>wo_process_running = False, wo_ipc_available = False, wo_connected = False,
           wo_account_match = False, wo_trade_allowed = False, wo_fresh = False,
           wo_previous_state = prev, wo_previous_reason = prev_reason,
           wo_observed_at = None, wo_margin_mode = None\<rparr>)"

end
