(* ===== verification/WorkspaceStore.thy ===== *)
theory WorkspaceStore
  imports WorkspaceCore
begin

text \<open>
  The hosted workspace row and its only state writer, \<open>persist_workspace_decision\<close>
  (\<^verbatim>\<open>hosted_workspace/persistence.py\<close>), fed by \<open>ingest_observation\<close> (\<^verbatim>\<open>consumer.py\<close>). One
  workspace is modelled with its transition rows and its operational events; the row lock makes a
  write one step, while the decision may rest on a state read earlier.
\<close>

section \<open>The row\<close>

record hosted_ws =
  hs_uuid :: string
  hs_account_id :: int
  hs_canonical_state :: lifecycle
  hs_canonical_reason :: ws_reason
  hs_observation_version :: int
  hs_decision_version :: int
  hs_last_decision_at :: "int option"
  hs_last_transition_at :: "int option"
  hs_process_running :: "bool option"
  hs_ipc_available :: "bool option"
  hs_connected :: "bool option"
  hs_account_match :: "bool option"
  hs_trade_allowed :: "bool option"
  hs_execution_ready :: "bool option"
  hs_margin_mode :: "int option"
  hs_last_correlation_id :: string
  hs_last_reason :: string
  hs_broker_ever_matched :: bool
  hs_execution_enabled :: bool
  hs_auto_arm_suppressed :: bool
  hs_execution_authorized_at :: "int option"
  hs_execution_node :: "int option"
  hs_binding_generation :: int
  hs_workspace_node :: "int option"

definition canonical_execution_ready :: "hosted_ws \<Rightarrow> bool" where
  "canonical_execution_ready ws \<longleftrightarrow> hs_canonical_state ws = WsExecutionReady"

record ws_transition =
  tr_from :: lifecycle
  tr_to :: lifecycle
  tr_reason :: ws_reason
  tr_observation_version :: int
  tr_decision_version :: int
  tr_state_changed :: bool
  tr_execution_ready_changed :: bool
  tr_telemetry_event :: string
  tr_source :: string
  tr_correlation_id :: string
  tr_dedupe_key :: string

record op_event =
  oe_event_type :: string
  oe_status :: string
  oe_reason_code :: string
  oe_state_version :: int
  oe_correlation_id :: string
  oe_dedup_key :: string

record ws_world =
  ww_row :: hosted_ws
  ww_transitions :: "ws_transition list"
  ww_events :: "op_event list"

datatype persist_status = Applied | Idempotent | RejectedStale | RejectedIllegal | RejectedInvalid

record persist_result =
  pr_status :: persist_status
  pr_state :: lifecycle
  pr_reason :: ws_reason
  pr_observation_version :: int
  pr_decision_version :: int
  pr_transition_created :: bool
  pr_telemetry_emitted :: bool

section \<open>The writer\<close>

definition max_version :: int where
  "max_version = 2 ^ 63 - 1"

definition coerce_version :: "json \<Rightarrow> int option" where
  "coerce_version v =
     (case v of JInt i \<Rightarrow> if 1 \<le> i \<and> i \<le> max_version then Some i else None | _ \<Rightarrow> None)"

definition dedupe_key :: "string \<Rightarrow> int \<Rightarrow> lifecycle \<Rightarrow> ws_reason \<Rightarrow> string" where
  "dedupe_key uuid version target reason =
     take 200 (uuid @ '':'' @ py_str_int version @ '':'' @ lifecycle_name target @ '':'' @ reason_name reason)"

text \<open>
  \<open>record_event\<close> of the operational events: nothing while that subsystem is off; otherwise an event
  with the same key is returned as it is. The metadata is left out.
\<close>

definition record_event :: "bool \<Rightarrow> op_event \<Rightarrow> op_event list \<Rightarrow> bool \<times> op_event list" where
  "record_event events_on e evs =
     (if \<not> events_on then (False, evs)
      else if oe_dedup_key e \<in> oe_dedup_key ` set evs then (True, evs)
      else (True, evs @ [e]))"

definition emit_transition_event ::
  "bool \<Rightarrow> hosted_ws \<Rightarrow> ws_decision \<Rightarrow> string \<Rightarrow> lifecycle \<Rightarrow> string \<Rightarrow> string \<Rightarrow> op_event list \<Rightarrow> bool \<times> op_event list" where
  "emit_transition_event events_on row d event target corr key evs =
     record_event events_on
       \<lparr>oe_event_type = take 64 event, oe_status = take 32 (lifecycle_name target),
        oe_reason_code = take 64 (reason_name (wd_reason d)), oe_state_version = hs_decision_version row,
        oe_correlation_id = take 128 corr, oe_dedup_key = take 200 key\<rparr> evs"

definition refresh_projection :: "ws_observation \<Rightarrow> ws_decision \<Rightarrow> int \<Rightarrow> int \<Rightarrow> string \<Rightarrow> hosted_ws \<Rightarrow> hosted_ws" where
  "refresh_projection obs d version now corr row =
     row\<lparr>hs_observation_version := version,
         hs_process_running := Some (wo_process_running obs),
         hs_ipc_available := Some (wo_ipc_available obs),
         hs_connected := Some (wo_connected obs),
         hs_account_match := Some (wo_account_match obs),
         hs_trade_allowed := Some (wo_trade_allowed obs),
         hs_execution_ready := Some (wd_execution_ready d),
         hs_margin_mode := wo_margin_mode obs,
         hs_last_correlation_id := corr,
         hs_last_decision_at := Some now,
         hs_last_reason := '''',
         hs_broker_ever_matched := hs_broker_ever_matched row \<or> (wo_connected obs \<and> wo_account_match obs)\<rparr>"

definition rejection :: "persist_status \<Rightarrow> hosted_ws \<Rightarrow> persist_result" where
  "rejection st row =
     \<lparr>pr_status = st, pr_state = hs_canonical_state row, pr_reason = hs_canonical_reason row,
      pr_observation_version = hs_observation_version row, pr_decision_version = hs_decision_version row,
      pr_transition_created = False, pr_telemetry_emitted = False\<rparr>"

definition persist_workspace_decision ::
  "bool \<Rightarrow> ws_observation \<Rightarrow> ws_decision \<Rightarrow> json \<Rightarrow> string \<Rightarrow> string \<Rightarrow> int \<Rightarrow> ws_world \<Rightarrow> persist_result \<times> ws_world" where
  "persist_workspace_decision events_on obs d observation_version corr source now w =
     (let row = ww_row w; stored = hs_canonical_state row; target = wd_next_state d in
      case coerce_version observation_version of
        None \<Rightarrow> (rejection RejectedInvalid row, w)
      | Some version \<Rightarrow>
          if version \<le> hs_observation_version row then (rejection RejectedStale row, w)
          else if target \<noteq> stored \<and> \<not> fst (evaluate_workspace_transition stored target)
          then (rejection RejectedIllegal row, w)
          else
            (let state_changed = (target \<noteq> stored);
                 reason_changed = (wd_reason d \<noteq> hs_canonical_reason row);
                 exec_ready_changed = ((hs_execution_ready row = Some True) \<noteq> wd_execution_ready d);
                 row1 = refresh_projection obs d version now (take 128 corr) row
             in if \<not> (state_changed \<or> reason_changed \<or> exec_ready_changed)
                then (\<lparr>pr_status = Idempotent, pr_state = stored, pr_reason = hs_canonical_reason row,
                       pr_observation_version = version, pr_decision_version = hs_decision_version row,
                       pr_transition_created = False, pr_telemetry_emitted = False\<rparr>,
                      w\<lparr>ww_row := row1\<rparr>)
                else
                  (let row2 = row1\<lparr>hs_canonical_state := target, hs_canonical_reason := wd_reason d,
                                   hs_decision_version := hs_decision_version row + 1,
                                   hs_last_transition_at := (if state_changed then Some now
                                                             else hs_last_transition_at row)\<rparr>;
                       key = dedupe_key (hs_uuid row) version target (wd_reason d);
                       created = (key \<notin> tr_dedupe_key ` set (ww_transitions w));
                       event = (if state_changed then (case wd_telemetry_event d of None \<Rightarrow> '''' | Some e \<Rightarrow> e)
                                else '''');
                       trs = (if created then ww_transitions w @
                                [\<lparr>tr_from = stored, tr_to = target, tr_reason = wd_reason d,
                                  tr_observation_version = version, tr_decision_version = hs_decision_version row2,
                                  tr_state_changed = state_changed,
                                  tr_execution_ready_changed = exec_ready_changed,
                                  tr_telemetry_event = event, tr_source = take 64 source,
                                  tr_correlation_id = take 128 corr, tr_dedupe_key = key\<rparr>]
                              else ww_transitions w);
                       (emitted, events) =
                         (if created \<and> state_changed \<and> event \<noteq> ''''
                          then emit_transition_event events_on row2 d event target (take 128 corr) key (ww_events w)
                          else (False, ww_events w))
                   in (\<lparr>pr_status = Applied, pr_state = target, pr_reason = wd_reason d,
                        pr_observation_version = version, pr_decision_version = hs_decision_version row2,
                        pr_transition_created = created, pr_telemetry_emitted = emitted\<rparr>,
                       w\<lparr>ww_row := row2, ww_transitions := trs, ww_events := events\<rparr>))))"

section \<open>The consumer\<close>

text \<open>
  \<open>ingest_observation\<close> reads the state and reason without the lock, derives the decision and hands
  it to the writer; \<open>read_state\<close> and \<open>read_reason\<close> are what that read returned.
\<close>

definition ingest_with_premise ::
  "bool \<Rightarrow> lifecycle \<Rightarrow> ws_reason \<Rightarrow> ws_observation \<Rightarrow> json \<Rightarrow> string \<Rightarrow> string \<Rightarrow> int \<Rightarrow> ws_world \<Rightarrow> persist_result \<times> ws_world" where
  "ingest_with_premise events_on read_state read_reason obs version corr source now w =
     (let obs = obs\<lparr>wo_previous_state := read_state, wo_previous_reason := read_reason\<rparr>
      in persist_workspace_decision events_on obs (derive_workspace_decision obs) version corr source now w)"

definition ingest_observation ::
  "bool \<Rightarrow> bool \<Rightarrow> ws_observation \<Rightarrow> json \<Rightarrow> string \<Rightarrow> string \<Rightarrow> int \<Rightarrow> ws_world \<Rightarrow> persist_result option \<times> ws_world" where
  "ingest_observation hosted_on events_on obs version corr source now w =
     (if \<not> hosted_on then (None, w)
      else (let (r, w') = ingest_with_premise events_on (hs_canonical_state (ww_row w))
                            (hs_canonical_reason (ww_row w)) obs version corr source now w
            in (Some r, w')))"

text \<open>One pass of the observation runner over the workspace (\<^verbatim>\<open>observation_runner.py\<close>).\<close>

datatype poll_outcome = PollDark | PollUnavailable | PollApplied | PollNotApplied

definition poll_workspace ::
  "bool \<Rightarrow> bool \<Rightarrow> ws_observation option \<Rightarrow> string \<Rightarrow> string \<Rightarrow> int \<Rightarrow> ws_world \<Rightarrow> poll_outcome \<times> ws_world" where
  "poll_workspace hosted_on events_on observed corr source now w =
     (if \<not> hosted_on then (PollDark, w)
      else case observed of
        None \<Rightarrow> (PollUnavailable, w\<lparr>ww_row := (ww_row w)\<lparr>hs_last_reason := ''observation_unavailable''\<rparr>\<rparr>)
      | Some obs \<Rightarrow>
          (let (r, w') = ingest_observation hosted_on events_on obs
                           (JInt (hs_observation_version (ww_row w) + 1)) corr source now w
           in (case r of
                 Some pr \<Rightarrow> if pr_status pr \<in> {Applied, Idempotent} then PollApplied else PollNotApplied
               | None \<Rightarrow> PollNotApplied, w')))"

section \<open>Histories\<close>

text \<open>
  What reaches the writer: an observation, with the state its decision was derived from (a concurrent
  write may have changed the row since), or a poll without an observation.
\<close>

datatype ws_input =
    Observed lifecycle ws_reason ws_observation json string string int
  | Unobserved string

fun ws_step :: "bool \<Rightarrow> ws_input \<Rightarrow> ws_world \<Rightarrow> ws_world" where
  "ws_step events_on (Observed s r obs v corr source now) w =
     snd (ingest_with_premise events_on s r obs v corr source now w)"
| "ws_step events_on (Unobserved reason) w = w\<lparr>ww_row := (ww_row w)\<lparr>hs_last_reason := reason\<rparr>\<rparr>"

definition ws_run :: "bool \<Rightarrow> ws_input list \<Rightarrow> ws_world \<Rightarrow> ws_world" where
  "ws_run events_on ins w = fold (ws_step events_on) ins w"

definition new_hosted_ws :: "string \<Rightarrow> int \<Rightarrow> hosted_ws" where
  "new_hosted_ws uuid account =
     \<lparr>hs_uuid = uuid, hs_account_id = account, hs_canonical_state = WsProvisioning,
      hs_canonical_reason = RNone, hs_observation_version = 0, hs_decision_version = 0,
      hs_last_decision_at = None, hs_last_transition_at = None, hs_process_running = None,
      hs_ipc_available = None, hs_connected = None, hs_account_match = None, hs_trade_allowed = None,
      hs_execution_ready = None, hs_margin_mode = None, hs_last_correlation_id = '''',
      hs_last_reason = '''', hs_broker_ever_matched = False, hs_execution_enabled = False,
      hs_auto_arm_suppressed = False, hs_execution_authorized_at = None, hs_execution_node = None,
      hs_binding_generation = 0, hs_workspace_node = None\<rparr>"

definition new_ws_world :: "string \<Rightarrow> int \<Rightarrow> ws_world" where
  "new_ws_world uuid account =
     \<lparr>ww_row = new_hosted_ws uuid account, ww_transitions = [], ww_events = []\<rparr>"

lemma ws_run_induct:
  assumes "I w" and "\<And>w i. I w \<Longrightarrow> I (ws_step ev i w)"
  shows "I (ws_run ev ins w)"
  using assms(1) unfolding ws_run_def by (induction ins arbitrary: w) (simp_all add: assms(2))

section \<open>What the writer does\<close>

lemma eval_known: "fst (evaluate_workspace_transition s t) \<Longrightarrow>
    workspace_transitions s \<noteq> None \<and> workspace_transitions t \<noteq> None"
  by (auto simp: evaluate_workspace_transition_def split: option.splits if_splits)

lemma eval_same: "workspace_transitions s \<noteq> None \<Longrightarrow> fst (evaluate_workspace_transition s s)"
  by (auto simp: evaluate_workspace_transition_def)

text \<open>An accepted write leaves the decision's state and the observation's projection in the row.\<close>

lemma persist_cases:
  assumes "persist_workspace_decision ev obs d v corr src now w = (r, w')"
  obtains (rejected) "w' = w" "pr_status r \<in> {RejectedInvalid, RejectedStale, RejectedIllegal}"
  | (accepted) version where
      "coerce_version v = Some version" "hs_observation_version (ww_row w) < version"
      "wd_next_state d = hs_canonical_state (ww_row w) \<or>
       fst (evaluate_workspace_transition (hs_canonical_state (ww_row w)) (wd_next_state d))"
      "pr_status r \<in> {Applied, Idempotent}"
      "hs_canonical_state (ww_row w') = wd_next_state d"
      "hs_process_running (ww_row w') = Some (wo_process_running obs)"
      "hs_ipc_available (ww_row w') = Some (wo_ipc_available obs)"
      "hs_connected (ww_row w') = Some (wo_connected obs)"
      "hs_account_match (ww_row w') = Some (wo_account_match obs)"
      "hs_trade_allowed (ww_row w') = Some (wo_trade_allowed obs)"
      "hs_execution_ready (ww_row w') = Some (wd_execution_ready d)"
      "hs_observation_version (ww_row w') = version"
proof (cases "coerce_version v")
  case None
  with assms rejected show ?thesis
    by (auto simp: persist_workspace_decision_def rejection_def Let_def)
next
  case (Some version)
  show ?thesis
  proof (cases "version \<le> hs_observation_version (ww_row w) \<or>
      (wd_next_state d \<noteq> hs_canonical_state (ww_row w) \<and>
       \<not> fst (evaluate_workspace_transition (hs_canonical_state (ww_row w)) (wd_next_state d)))")
    case True
    with assms Some have "w' = w" "pr_status r \<in> {RejectedInvalid, RejectedStale, RejectedIllegal}"
      by (auto simp: persist_workspace_decision_def rejection_def Let_def split: if_splits)
    then show ?thesis by (rule rejected)
  next
    case False
    with assms Some show ?thesis
      by (intro accepted [of version])
        (auto simp: persist_workspace_decision_def refresh_projection_def Let_def case_prod_beta
          split: if_splits)
  qed
qed

lemma derive_ready_iff [simp]: "wd_execution_ready (derive_workspace_decision obs) \<longleftrightarrow>
    wd_next_state (derive_workspace_decision obs) = WsExecutionReady"
  by (simp add: derive_workspace_decision_def case_prod_beta Let_def)

lemma derive_ready_conditions:
  assumes "wd_next_state (derive_workspace_decision obs) = WsExecutionReady"
  shows "all_execution_conditions obs"
proof (rule ccontr)
  assume n: "\<not> all_execution_conditions obs"
  then have "fst (target_for obs) \<noteq> WsExecutionReady"
    by (auto simp: target_for_def Let_def)
  moreover have "fst (evaluate_workspace_transition WsExecutionReady (fst (target_for obs)))"
    if "wo_previous_state obs = WsExecutionReady"
    using n that by (auto simp: target_for_def Let_def evaluate_workspace_transition_def)
  ultimately show False using assms
    by (auto simp: derive_workspace_decision_def case_prod_beta Let_def split: if_splits)
qed

definition backed :: "hosted_ws \<Rightarrow> bool" where
  "backed row \<longleftrightarrow>
     (hs_execution_ready row = Some True) = (hs_canonical_state row = WsExecutionReady) \<and>
     (hs_canonical_state row = WsExecutionReady \<longrightarrow>
        hs_process_running row = Some True \<and> hs_ipc_available row = Some True \<and>
        hs_connected row = Some True \<and> hs_account_match row = Some True \<and>
        hs_trade_allowed row = Some True)"

lemma backed_step: "backed (ww_row w) \<Longrightarrow> backed (ww_row (ws_step ev i w))"
proof (cases i)
  case (Observed s r obs v corr src now)
  let ?obs = "obs\<lparr>wo_previous_state := s, wo_previous_reason := r\<rparr>"
  assume b: "backed (ww_row w)"
  obtain r' w' where p: "persist_workspace_decision ev ?obs (derive_workspace_decision ?obs) v corr src now w = (r', w')"
    by force
  with Observed have w': "ws_step ev i w = w'" by (simp add: ingest_with_premise_def Let_def)
  from p show ?thesis
  proof (cases rule: persist_cases)
    case rejected
    with b w' show ?thesis by simp
  next
    case (accepted version)
    with w' derive_ready_conditions [of ?obs] show ?thesis
      by (auto simp: backed_def all_execution_conditions_def)
  qed
qed (simp add: backed_def)

text \<open>
  C8: EXECUTION_READY is never stored without proof. Whatever observations arrive, in whatever order
  and with whatever outdated premise their decision was derived, a row in EXECUTION_READY has the
  projection of one observation in which the process ran, the IPC and broker connection were up,
  the account matched and trading was allowed.
\<close>
theorem ready_state_is_backed:
  assumes "canonical_execution_ready (ww_row (ws_run ev ins (new_ws_world uuid account)))"
  shows "hs_process_running (ww_row (ws_run ev ins (new_ws_world uuid account))) = Some True \<and>
    hs_ipc_available (ww_row (ws_run ev ins (new_ws_world uuid account))) = Some True \<and>
    hs_connected (ww_row (ws_run ev ins (new_ws_world uuid account))) = Some True \<and>
    hs_account_match (ww_row (ws_run ev ins (new_ws_world uuid account))) = Some True \<and>
    hs_trade_allowed (ww_row (ws_run ev ins (new_ws_world uuid account))) = Some True"
proof -
  have "backed (ww_row (ws_run ev ins (new_ws_world uuid account)))"
    by (rule ws_run_induct [where I = "\<lambda>w. backed (ww_row w)"])
      (simp add: backed_def new_ws_world_def new_hosted_ws_def, rule backed_step)
  with assms show ?thesis by (simp add: backed_def canonical_execution_ready_def)
qed

section \<open>The transition history\<close>

text \<open>The rows form a path of legal moves that starts in \<open>s\<close> and ends in \<open>t\<close>.\<close>

fun legal_path :: "lifecycle \<Rightarrow> ws_transition list \<Rightarrow> lifecycle \<Rightarrow> bool" where
  "legal_path s [] t \<longleftrightarrow> s = t"
| "legal_path s (tr # trs) t \<longleftrightarrow>
     tr_from tr = s \<and> fst (evaluate_workspace_transition s (tr_to tr)) \<and> legal_path (tr_to tr) trs t"

lemma legal_path_snoc:
  "legal_path s (trs @ [tr]) t \<longleftrightarrow>
     (\<exists>u. legal_path s trs u \<and> tr_from tr = u \<and> fst (evaluate_workspace_transition u (tr_to tr)) \<and> tr_to tr = t)"
  by (induction s trs t rule: legal_path.induct) auto

lemma colon_not_digit: "CHR '':'' \<notin> set (digits_of n)"
proof (induction n rule: digits_of.induct)
  case (1 n)
  have *: "CHR '':'' \<noteq> (char_of (48 + d) :: char)" if "d < 10" for d :: nat
  proof
    assume "CHR '':'' = (char_of (48 + d) :: char)"
    then have "(of_char (CHR '':'') :: nat) = of_char (char_of (48 + d) :: char)" by (rule arg_cong)
    with that show False by (simp add: of_char_of)
  qed
  show ?case
  proof (cases "n < 10")
    case True
    with * [OF True] show ?thesis by (subst digits_of.simps) (simp del: char_of_eq_iff)
  next
    case False
    with 1 * [of "n mod 10"] show ?thesis by (subst digits_of.simps) (simp del: char_of_eq_iff)
  qed
qed

lemma takeWhile_take:
  "CHR '':'' \<notin> set d \<Longrightarrow> length d < n \<Longrightarrow> takeWhile (\<lambda>c. c \<noteq> CHR '':'') (take n (d @ CHR '':'' # r)) = d"
proof (induction d arbitrary: n)
  case Nil
  then show ?case by (cases n) simp_all
next
  case (Cons c d)
  then show ?case by (cases n) auto
qed

lemma digits_of_length: "n < 10 ^ k \<Longrightarrow> 0 < k \<Longrightarrow> length (digits_of n) \<le> k"
proof (induction n arbitrary: k rule: digits_of.induct)
  case (1 n)
  show ?case
  proof (cases "n < 10")
    case True
    with 1 show ?thesis by (subst digits_of.simps) simp
  next
    case False
    then obtain j where k: "k = Suc j" "0 < j" using 1 by (cases k; cases "k - 1") auto
    then have "n div 10 < 10 ^ j" using 1(2) by (simp add: less_mult_imp_div_less mult.commute)
    with "1.IH" [OF False] k have "length (digits_of (n div 10)) \<le> j" by simp
    with False k show ?thesis by (subst digits_of.simps) simp
  qed
qed

text \<open>Keys of one workspace differ when the observation versions differ.\<close>

lemma dedupe_key_version:
  assumes u: "length uuid \<le> 36" and r: "1 \<le> v" "v \<le> max_version" "1 \<le> v'" "v' \<le> max_version"
    and e: "dedupe_key uuid v s a = dedupe_key uuid v' s' a'"
  shows "v = v'"
proof -
  have d: "py_str_int x = digits_of (nat x) \<and> length (digits_of (nat x)) \<le> 19"
    if "1 \<le> x" "x \<le> max_version" for x
  proof -
    have "nat x < 10 ^ 19" using that by (simp add: max_version_def nat_less_iff)
    then have "length (digits_of (nat x)) \<le> 19" by (rule digits_of_length) simp
    then show ?thesis using that by (simp add: py_str_int_def)
  qed
  have k: "takeWhile (\<lambda>c. c \<noteq> CHR '':'') (drop (Suc (length uuid)) (dedupe_key uuid x t b)) = digits_of (nat x)"
    if "1 \<le> x" "x \<le> max_version" for x t b
  proof -
    have "dedupe_key uuid x t b = take 200 (uuid @ CHR '':'' # digits_of (nat x) @ CHR '':'' #
        (lifecycle_name t @ '':'' @ reason_name b))" (is "_ = take 200 (_ @ _ # _ @ _ # ?r)")
      using d [OF that] by (simp add: dedupe_key_def)
    then have "drop (Suc (length uuid)) (dedupe_key uuid x t b) =
        take (199 - length uuid) (digits_of (nat x) @ CHR '':'' # ?r)"
      by (simp only: drop_take) simp
    moreover have "length (digits_of (nat x)) < 199 - length uuid" using conjunct2 [OF d [OF that]] u by linarith
    ultimately show ?thesis using takeWhile_take [OF colon_not_digit] by (simp only:)
  qed
  from k [OF r(1,2), of s a] k [OF r(3,4), of s' a'] e have "digits_of (nat v) = digits_of (nat v')" by simp
  then have "nat v = nat v'" by (rule digits_of_inj)
  with r show ?thesis by simp
qed

definition history_ok :: "ws_world \<Rightarrow> bool" where
  "history_ok w \<longleftrightarrow>
     length (hs_uuid (ww_row w)) \<le> 36 \<and> 0 \<le> hs_observation_version (ww_row w) \<and>
     hs_decision_version (ww_row w) = int (length (ww_transitions w)) \<and>
     map tr_decision_version (ww_transitions w) = [1..int (length (ww_transitions w))] \<and>
     sorted_wrt (<) (map tr_observation_version (ww_transitions w)) \<and>
     (\<forall>tr \<in> set (ww_transitions w).
        1 \<le> tr_observation_version tr \<and> tr_observation_version tr \<le> max_version \<and>
        tr_observation_version tr \<le> hs_observation_version (ww_row w) \<and>
        tr_dedupe_key tr = dedupe_key (hs_uuid (ww_row w)) (tr_observation_version tr) (tr_to tr) (tr_reason tr)) \<and>
     workspace_transitions (hs_canonical_state (ww_row w)) \<noteq> None \<and>
     legal_path WsProvisioning (ww_transitions w) (hs_canonical_state (ww_row w))"

lemma persist_effect:
  assumes "persist_workspace_decision ev obs d v corr src now w = (r, w')" "w' \<noteq> w"
  obtains version where "coerce_version v = Some version" "hs_observation_version (ww_row w) < version"
    "hs_observation_version (ww_row w') = version" "hs_uuid (ww_row w') = hs_uuid (ww_row w)"
    "hs_canonical_state (ww_row w') = wd_next_state d"
    "wd_next_state d = hs_canonical_state (ww_row w) \<or>
     fst (evaluate_workspace_transition (hs_canonical_state (ww_row w)) (wd_next_state d))"
    "(wd_next_state d = hs_canonical_state (ww_row w) \<and> ww_transitions w' = ww_transitions w \<and>
      hs_decision_version (ww_row w') = hs_decision_version (ww_row w)) \<or>
     (hs_decision_version (ww_row w') = hs_decision_version (ww_row w) + 1 \<and>
      (if dedupe_key (hs_uuid (ww_row w)) version (wd_next_state d) (wd_reason d) \<in> tr_dedupe_key ` set (ww_transitions w)
       then ww_transitions w' = ww_transitions w
       else \<exists>tr. ww_transitions w' = ww_transitions w @ [tr] \<and> tr_from tr = hs_canonical_state (ww_row w) \<and>
         tr_to tr = wd_next_state d \<and> tr_observation_version tr = version \<and>
         tr_decision_version tr = hs_decision_version (ww_row w) + 1 \<and>
         tr_dedupe_key tr = dedupe_key (hs_uuid (ww_row w)) version (tr_to tr) (tr_reason tr)))"
proof (cases "coerce_version v")
  case None
  with assms show ?thesis by (simp add: persist_workspace_decision_def Let_def)
next
  case (Some version)
  let ?row = "ww_row w" and ?t = "wd_next_state d"
  have acc: "hs_observation_version ?row < version"
    "?t = hs_canonical_state ?row \<or> fst (evaluate_workspace_transition (hs_canonical_state ?row) ?t)"
    using assms Some by (auto simp: persist_workspace_decision_def Let_def split: if_splits)
  let ?m = "?t \<noteq> hs_canonical_state ?row \<or> wd_reason d \<noteq> hs_canonical_reason ?row \<or>
    (hs_execution_ready ?row = Some True) \<noteq> wd_execution_ready d"
  have w': "w' = snd (persist_workspace_decision ev obs d v corr src now w)" using assms(1) by simp
  have "\<not> version \<le> hs_observation_version ?row" using acc(1) by simp
  note unf = w' persist_workspace_decision_def Let_def Some this
  show ?thesis
  proof (cases ?m)
    case True
    let ?in = "dedupe_key (hs_uuid ?row) version ?t (wd_reason d) \<in> tr_dedupe_key ` set (ww_transitions w)"
    have "hs_observation_version (ww_row w') = version \<and> hs_uuid (ww_row w') = hs_uuid ?row \<and>
        hs_canonical_state (ww_row w') = ?t \<and> hs_decision_version (ww_row w') = hs_decision_version ?row + 1"
      using True acc(2) by (simp add: unf case_prod_beta refresh_projection_def disj_commute)
    moreover have "if ?in then ww_transitions w' = ww_transitions w
       else \<exists>tr. ww_transitions w' = ww_transitions w @ [tr] \<and> tr_from tr = hs_canonical_state ?row \<and>
         tr_to tr = ?t \<and> tr_observation_version tr = version \<and>
         tr_decision_version tr = hs_decision_version ?row + 1 \<and>
         tr_dedupe_key tr = dedupe_key (hs_uuid ?row) version (tr_to tr) (tr_reason tr)"
      using True acc(2) by (auto simp: unf case_prod_beta refresh_projection_def)
    ultimately show ?thesis using that [of version] acc Some by blast
  next
    case False
    then have "hs_observation_version (ww_row w') = version \<and> hs_uuid (ww_row w') = hs_uuid ?row \<and>
        hs_canonical_state (ww_row w') = ?t \<and> ww_transitions w' = ww_transitions w \<and>
        hs_decision_version (ww_row w') = hs_decision_version ?row"
      using acc(2) by (simp add: unf refresh_projection_def)
    then show ?thesis using that [of version] acc Some False by blast
  qed
qed

lemma history_step:
  assumes h: "history_ok w"
  shows "history_ok (ws_step ev i w)"
proof (cases i)
  case (Observed s r obs v corr src now)
  let ?obs = "obs\<lparr>wo_previous_state := s, wo_previous_reason := r\<rparr>"
  let ?d = "derive_workspace_decision ?obs"
  obtain r' w' where p: "persist_workspace_decision ev ?obs ?d v corr src now w = (r', w')" by force
  with Observed have w': "ws_step ev i w = w'" by (simp add: ingest_with_premise_def Let_def)
  show ?thesis
  proof (cases "w' = w")
    case False
    from p this obtain version where e:
      "coerce_version v = Some version" "hs_observation_version (ww_row w) < version"
      "hs_observation_version (ww_row w') = version" "hs_uuid (ww_row w') = hs_uuid (ww_row w)"
      "hs_canonical_state (ww_row w') = wd_next_state ?d"
      "wd_next_state ?d = hs_canonical_state (ww_row w) \<or>
       fst (evaluate_workspace_transition (hs_canonical_state (ww_row w)) (wd_next_state ?d))"
      "(wd_next_state ?d = hs_canonical_state (ww_row w) \<and> ww_transitions w' = ww_transitions w \<and>
        hs_decision_version (ww_row w') = hs_decision_version (ww_row w)) \<or>
       (hs_decision_version (ww_row w') = hs_decision_version (ww_row w) + 1 \<and>
        (if dedupe_key (hs_uuid (ww_row w)) version (wd_next_state ?d) (wd_reason ?d) \<in> tr_dedupe_key ` set (ww_transitions w)
         then ww_transitions w' = ww_transitions w
         else \<exists>tr. ww_transitions w' = ww_transitions w @ [tr] \<and> tr_from tr = hs_canonical_state (ww_row w) \<and>
           tr_to tr = wd_next_state ?d \<and> tr_observation_version tr = version \<and>
           tr_decision_version tr = hs_decision_version (ww_row w) + 1 \<and>
           tr_dedupe_key tr = dedupe_key (hs_uuid (ww_row w)) version (tr_to tr) (tr_reason tr)))"
      by (rule persist_effect)
    from e(1) have v: "1 \<le> version" "version \<le> max_version"
      by (auto simp: coerce_version_def split: json.splits if_splits)
    have ev: "fst (evaluate_workspace_transition (hs_canonical_state (ww_row w)) (wd_next_state ?d))"
      using e(6) h eval_same by (auto simp: history_ok_def)
    have known: "workspace_transitions (wd_next_state ?d) \<noteq> None" using eval_known [OF ev] by simp
    have fresh: "dedupe_key (hs_uuid (ww_row w)) version (wd_next_state ?d) (wd_reason ?d) \<notin>
        tr_dedupe_key ` set (ww_transitions w)"
    proof
      assume "dedupe_key (hs_uuid (ww_row w)) version (wd_next_state ?d) (wd_reason ?d) \<in>
        tr_dedupe_key ` set (ww_transitions w)"
      then obtain tr where tr: "tr \<in> set (ww_transitions w)"
        "dedupe_key (hs_uuid (ww_row w)) version (wd_next_state ?d) (wd_reason ?d) = tr_dedupe_key tr" by auto
      then have "version = tr_observation_version tr"
        using h v by (intro dedupe_key_version [of "hs_uuid (ww_row w)"]) (auto simp: history_ok_def)
      with tr h e(2) show False by (auto simp: history_ok_def)
    qed
    from e(7) fresh consider
        (same) "wd_next_state ?d = hs_canonical_state (ww_row w)" "ww_transitions w' = ww_transitions w"
          "hs_decision_version (ww_row w') = hs_decision_version (ww_row w)"
      | (new) tr where "hs_decision_version (ww_row w') = hs_decision_version (ww_row w) + 1"
          "ww_transitions w' = ww_transitions w @ [tr]" "tr_from tr = hs_canonical_state (ww_row w)"
          "tr_to tr = wd_next_state ?d" "tr_observation_version tr = version"
          "tr_decision_version tr = hs_decision_version (ww_row w) + 1"
          "tr_dedupe_key tr = dedupe_key (hs_uuid (ww_row w)) version (tr_to tr) (tr_reason tr)"
      by auto
    then have "history_ok w'"
    proof cases
      case same
      with h e(2-5) known show ?thesis by (fastforce simp: history_ok_def)
    next
      case new
      let ?n = "int (length (ww_transitions w))"
      have n: "int (length (ww_transitions w')) = ?n + 1" using new by simp
      have "map tr_decision_version (ww_transitions w') = [1..?n] @ [?n + 1]"
        using new h by (simp add: history_ok_def)
      then have "map tr_decision_version (ww_transitions w') = [1..int (length (ww_transitions w'))]"
        unfolding n using upto_snoc [of 1 ?n] by simp
      moreover have "sorted_wrt (<) (map tr_observation_version (ww_transitions w'))"
        using new h e(2) by (fastforce simp: history_ok_def sorted_wrt_append)
      moreover have "legal_path WsProvisioning (ww_transitions w') (wd_next_state ?d)"
        using new h ev by (auto simp: history_ok_def legal_path_snoc)
      ultimately show ?thesis
        using new h e(2-5) known v by (fastforce simp: history_ok_def)
    qed
    with w' show ?thesis by simp
  qed (use h w' in simp)
qed (use h in \<open>simp add: history_ok_def\<close>)

text \<open>
  C38: The transition table is the workspace's history. After any sequence of observations (stale,
  replayed or with an outdated premise) the rows form one legal path of the lifecycle graph from
  PROVISIONING to the stored state, there is exactly one row per applied decision, numbered
  consecutively, and their observation versions increase strictly.
\<close>
theorem transitions_are_the_history:
  assumes "length uuid \<le> 36" and "w = ws_run ev ins (new_ws_world uuid account)"
  shows "legal_path WsProvisioning (ww_transitions w) (hs_canonical_state (ww_row w)) \<and>
    map tr_decision_version (ww_transitions w) = [1..hs_decision_version (ww_row w)] \<and>
    sorted_wrt (<) (map tr_observation_version (ww_transitions w))"
proof -
  have "history_ok (ws_run ev ins (new_ws_world uuid account))"
    by (rule ws_run_induct [where I = history_ok])
      (use assms(1) in \<open>simp add: history_ok_def new_ws_world_def new_hosted_ws_def\<close>, rule history_step)
  then show ?thesis unfolding assms(2) by (simp add: history_ok_def)
qed

section \<open>Recovery\<close>

definition poll_run :: "bool \<Rightarrow> ws_observation list \<Rightarrow> int \<Rightarrow> ws_world \<Rightarrow> ws_world" where
  "poll_run events_on obss now w =
     fold (\<lambda>obs w. snd (poll_workspace True events_on (Some obs) '''' '''' now w)) obss w"

lemma poll_state:
  "hs_canonical_state (ww_row (snd (poll_workspace True ev (Some obs) corr src now w))) =
     hs_canonical_state (ww_row w) \<or>
   hs_canonical_state (ww_row (snd (poll_workspace True ev (Some obs) corr src now w))) =
     wd_next_state (derive_workspace_decision (obs\<lparr>wo_previous_state := hs_canonical_state (ww_row w),
        wo_previous_reason := hs_canonical_reason (ww_row w)\<rparr>))"
proof -
  let ?obs = "obs\<lparr>wo_previous_state := hs_canonical_state (ww_row w), wo_previous_reason := hs_canonical_reason (ww_row w)\<rparr>"
  let ?v = "JInt (hs_observation_version (ww_row w) + 1)"
  obtain r w' where p: "persist_workspace_decision ev ?obs (derive_workspace_decision ?obs) ?v corr src now w = (r, w')"
    by force
  then have "snd (poll_workspace True ev (Some obs) corr src now w) = w'"
    by (simp add: poll_workspace_def ingest_observation_def ingest_with_premise_def Let_def)
  with p show ?thesis by (cases rule: persist_cases [OF p]) auto
qed

lemma derive_healthy_held:
  assumes "all_execution_conditions obs"
    and "wo_previous_state obs \<in> {WsProvisioning, WsWaitingForLogin, WsDisconnected, WsRecovering, WsSuspended}"
  shows "wd_next_state (derive_workspace_decision obs) = wo_previous_state obs"
  using assms by (auto simp: derive_workspace_decision_def target_for_def evaluate_workspace_transition_def Let_def)

lemma conditions_premise [simp]:
  "all_execution_conditions (obs\<lparr>wo_previous_state := s, wo_previous_reason := r\<rparr>) = all_execution_conditions obs"
  by (simp add: all_execution_conditions_def)

text \<open>
  A workspace that lost its account or its link does not become ready again from healthy
  observations alone. In WAITING_FOR_LOGIN, DISCONNECTED, RECOVERING, SUSPENDED or PROVISIONING,
  polls that all report every execution condition leave the state where it is: the manager aims at
  EXECUTION_READY, which the graph only allows from CONNECTED or EXECUTING, and holds. The
  automatic re-eligibility that \<^verbatim>\<open>hosted_switch_policy.py\<close> describes needs an observation that is
  stale or not allowed to trade in between.
\<close>
theorem healthy_polls_do_not_resume:
  assumes "hs_canonical_state (ww_row w) \<in>
      {WsProvisioning, WsWaitingForLogin, WsDisconnected, WsRecovering, WsSuspended}"
    and "list_all all_execution_conditions obss"
  shows "hs_canonical_state (ww_row (poll_run ev obss now w)) = hs_canonical_state (ww_row w) \<and>
    \<not> canonical_execution_ready (ww_row (poll_run ev obss now w))"
proof -
  have "hs_canonical_state (ww_row (poll_run ev obss now w)) = hs_canonical_state (ww_row w)"
    using assms unfolding poll_run_def
  proof (induction obss arbitrary: w)
    case (Cons obs obss)
    let ?w = "snd (poll_workspace True ev (Some obs) '''' '''' now w)"
    have "hs_canonical_state (ww_row ?w) = hs_canonical_state (ww_row w)"
      using poll_state [of ev obs "''''" "''''" now w] Cons.prems
        derive_healthy_held [of "obs\<lparr>wo_previous_state := hs_canonical_state (ww_row w),
          wo_previous_reason := hs_canonical_reason (ww_row w)\<rparr>"] by auto
    with Cons.IH [of ?w] Cons.prems show ?case by simp
  qed simp
  with assms(1) show ?thesis by (auto simp: canonical_execution_ready_def)
qed

section \<open>What a ready observation means\<close>

lemma match_iff:
  "fst (evaluate_active_account_match obs e) \<longleftrightarrow>
     mo_process_running obs \<and> mo_ipc_available obs \<and> mo_connected obs = Some True \<and>
     mo_trade_allowed obs = Some True \<and> mo_login obs = ea_login e \<and> mo_login obs \<notin> {None, Some ''''} \<and>
     mo_server obs \<noteq> None \<and> ea_server e \<notin> {None, Some ''''} \<and>
     norm_server (mo_server obs) = norm_server (ea_server e) \<and>
     mo_trade_mode obs \<noteq> None \<and> (mo_trade_mode obs = Some 0) = ea_is_demo e \<and> (ea_is_demo e \<or> ea_allow_live e)"
  by (auto simp: evaluate_active_account_match_def falsy_str_def split: if_splits)

text \<open>
  The producer reports a ready workspace exactly when the facts say so. Its observation meets every
  execution condition if and only if the process, attach, IPC, connection and trading facts are
  literally \<open>True\<close>, the observed login equals the expected one, the servers agree up to case, the
  demo or live class is the expected one (live only when permitted), and the timestamp is neither
  older than the limit nor ahead of the clock by more than the tolerance.
\<close>
theorem ready_observation_exact:
  assumes "as_number now = Inr (Some n)" "as_number tol = Inr (Some c)"
    and "as_number (rs_freshness_limit s) = Inr (Some l)" "0 < l"
  shows "all_execution_conditions (build_workspace_observation s now prev reason tol) \<longleftrightarrow>
    rs_process_running s = JBool True \<and> rs_attach_succeeded s = JBool True \<and>
    rs_ipc_available s = JBool True \<and> rs_terminal_connected s = JBool True \<and>
    rs_trade_allowed s = JBool True \<and>
    (\<exists>login server expected mode x.
       clean_identity (rs_observed_login s) = Some login \<and> clean_identity (rs_expected_login s) = Some login \<and>
       clean_identity (rs_observed_server s) = Some server \<and> clean_identity (rs_expected_server s) = Some expected \<and>
       norm_server (Some server) = norm_server (Some expected) \<and>
       rs_observed_trade_mode s = JInt mode \<and>
       (mode = 0) = (rs_expected_is_demo s \<noteq> Some False) \<and>
       (mode = 0 \<or> rs_expected_allow_live s) \<and>
       as_number (rs_observed_at s) = Inr (Some x) \<and> x - \<bar>c\<bar> \<le> n \<and> n \<le> x + l)"
proof -
  have cl: "clean_identity v \<noteq> Some ''''" for v by (simp add: clean_identity_def Let_def)
  have tm: "clean_trade_mode v = Some m \<longleftrightarrow> v = JInt m" for v m
    by (cases v) (auto simp: clean_trade_mode_def)
  have m: "account_match s \<longleftrightarrow>
    (\<exists>login server expected mode.
       clean_identity (rs_observed_login s) = Some login \<and> clean_identity (rs_expected_login s) = Some login \<and>
       clean_identity (rs_observed_server s) = Some server \<and> clean_identity (rs_expected_server s) = Some expected \<and>
       norm_server (Some server) = norm_server (Some expected) \<and> rs_observed_trade_mode s = JInt mode \<and>
       (mode = 0) = (rs_expected_is_demo s \<noteq> Some False) \<and> (mode = 0 \<or> rs_expected_allow_live s))"
    unfolding account_match_def match_iff using cl tm
    by (cases "rs_expected_is_demo s") (auto split: option.splits)
  have f: "compute_freshness (rs_observed_at s) now (rs_freshness_limit s) tol = Inr True \<longleftrightarrow>
      (\<exists>x. as_number (rs_observed_at s) = Inr (Some x) \<and> x - \<bar>c\<bar> \<le> n \<and> n \<le> x + l)"
    using assms by (auto simp: compute_freshness_def Let_def split: sum.splits option.splits)
  have "all_execution_conditions (build_workspace_observation s now prev reason tol) \<longleftrightarrow>
    rs_process_running s = JBool True \<and> rs_attach_succeeded s = JBool True \<and>
    rs_ipc_available s = JBool True \<and> rs_terminal_connected s = JBool True \<and>
    rs_trade_allowed s = JBool True \<and> account_match s \<and>
    compute_freshness (rs_observed_at s) now (rs_freshness_limit s) tol = Inr True"
  proof (cases "as_number (rs_observed_at s)")
    case (Inl e)
    then show ?thesis
      by (simp add: build_workspace_observation_def all_execution_conditions_def compute_freshness_def)
  next
    case (Inr t)
    then show ?thesis
      by (cases "compute_freshness (rs_observed_at s) now (rs_freshness_limit s) tol")
        (auto simp: build_workspace_observation_def all_execution_conditions_def is_true_def)
  qed
  with m f show ?thesis by auto
qed

section \<open>Concrete instances\<close>

definition demo_observation :: "bool \<Rightarrow> bool \<Rightarrow> ws_observation" where
  "demo_observation up trading =
     \<lparr>wo_process_running = up, wo_ipc_available = up, wo_connected = up, wo_account_match = up,
      wo_trade_allowed = trading, wo_fresh = up, wo_previous_state = WsProvisioning,
      wo_previous_reason = RNone, wo_observed_at = None, wo_margin_mode = None\<rparr>"

definition demo_login :: "ws_input list" where
  "demo_login =
     [Observed WsProvisioning RNone (demo_observation False False) (JInt 1) '''' '''' 10,
      Observed WsWaitingForLogin RNone (demo_observation True False) (JInt 2) '''' '''' 20,
      Observed WsConnected RNone (demo_observation True True) (JInt 3) '''' '''' 30]"

theorem ready_state_is_backed_witness:
  "hs_account_match (ww_row (ws_run True demo_login (new_ws_world ''w'' 7))) = Some True"
proof -
  have "canonical_execution_ready (ww_row (ws_run True demo_login (new_ws_world ''w'' 7)))" by code_simp
  from ready_state_is_backed [OF this] show ?thesis by simp
qed

theorem transitions_are_the_history_witness:
  "legal_path WsProvisioning (ww_transitions (ws_run True demo_login (new_ws_world ''w'' 7)))
     (hs_canonical_state (ww_row (ws_run True demo_login (new_ws_world ''w'' 7)))) \<and>
   length (ww_transitions (ws_run True demo_login (new_ws_world ''w'' 7))) = 3"
proof -
  have "length (ww_transitions (ws_run True demo_login (new_ws_world ''w'' 7))) = 3" by code_simp
  with transitions_are_the_history [of "''w''" _ True demo_login 7, OF _ refl] show ?thesis by simp
qed

definition demo_suspended :: ws_world where
  "demo_suspended = (new_ws_world ''w'' 7)\<lparr>ww_row := (new_hosted_ws ''w'' 7)\<lparr>hs_canonical_state := WsSuspended\<rparr>\<rparr>"

theorem healthy_polls_do_not_resume_witness:
  "hs_canonical_state (ww_row (poll_run True
     [demo_observation True True, demo_observation True True] 5 demo_suspended)) = WsSuspended"
  using healthy_polls_do_not_resume [of demo_suspended "[demo_observation True True, demo_observation True True]"]
  by (simp add: demo_suspended_def new_ws_world_def new_hosted_ws_def demo_observation_def all_execution_conditions_def)

definition demo_snapshot :: raw_snapshot where
  "demo_snapshot =
     \<lparr>rs_expected_login = JStr ''77'', rs_expected_server = JStr ''Broker-Demo'', rs_expected_is_demo = None,
      rs_expected_allow_live = False, rs_process_running = JBool True, rs_attach_succeeded = JBool True,
      rs_ipc_available = JBool True, rs_terminal_connected = JBool True, rs_trade_allowed = JBool True,
      rs_observed_login = JInt 77, rs_observed_server = JStr '' broker-DEMO'', rs_observed_trade_mode = JInt 0,
      rs_observed_margin_mode = JInt 2, rs_observed_at = JInt 100, rs_freshness_limit = JInt 60\<rparr>"

theorem ready_observation_exact_witness:
  "all_execution_conditions (build_workspace_observation demo_snapshot (JInt 160) WsConnected RNone (JInt 5)) \<and>
   \<not> all_execution_conditions (build_workspace_observation demo_snapshot (JInt 161) WsConnected RNone (JInt 5))"
proof -
  have n: "as_number (JInt 160) = Inr (Some 160)" "as_number (JInt 161) = Inr (Some 161)"
    "as_number (JInt 5) = Inr (Some 5)" "as_number (rs_freshness_limit demo_snapshot) = Inr (Some 60)"
    "as_number (rs_observed_at demo_snapshot) = Inr (Some 100)"
    by (simp_all add: float_limit_def demo_snapshot_def)
  have i: "clean_identity (rs_observed_login demo_snapshot) = Some ''77''"
    "clean_identity (rs_expected_login demo_snapshot) = Some ''77''"
    "clean_identity (rs_observed_server demo_snapshot) = Some ''broker-DEMO''"
    "clean_identity (rs_expected_server demo_snapshot) = Some ''Broker-Demo''"
    "norm_server (Some ''broker-DEMO'') = norm_server (Some ''Broker-Demo'')"
    by code_simp+
  show ?thesis
    unfolding ready_observation_exact [OF n(1) n(3) n(4), simplified]
      ready_observation_exact [OF n(2) n(3) n(4), simplified]
    using i n(5) by (simp add: demo_snapshot_def)
qed

end
