(* ===== verification/Readiness.thy ===== *)
theory Readiness
  imports WorkspaceStore
begin

text \<open>
  Who may execute: the demo or live classification of an account (\<^verbatim>\<open>trading/account_policy.py\<close>,
  \<^verbatim>\<open>trading/classification.py\<close>), the authorization of live accounts (\<^verbatim>\<open>execution/live_authz.py\<close>),
  tenant isolation and the supervised posture (\<^verbatim>\<open>hosted_workspace/tenant_isolation.py\<close>,
  \<^verbatim>\<open>supervised_beta.py\<close>) and the two readiness providers (\<^verbatim>\<open>execution/readiness.py\<close>). The database
  is a record of tables; the flags, the configured hosts and the clock are a record of settings.
\<close>

section \<open>Tables\<close>

record broker_server =
  bs_server_name :: string
  bs_environment :: string

text \<open>\<open>DanglingServer\<close>: a foreign key whose row is gone, so reading it raises \<open>ObjectDoesNotExist\<close>.\<close>

datatype server_ref = NoServer | Server broker_server | DanglingServer

datatype validation_status = VsNever | VsValidated | VsConnectionFailed | VsTechnicalError | VsOther string

record trading_account =
  ac_id :: int
  ac_user :: int
  ac_is_active :: bool
  ac_is_demo :: bool
  ac_disconnected_at :: "int option"
  ac_password_enc :: string
  ac_validation_status :: validation_status
  ac_readiness_provider :: string
  ac_account_number :: string
  ac_server :: server_ref
  ac_workspace_confirmed_at :: "int option"
  ac_terminal_node :: "int option"

datatype node_status = NodeActive | NodeDraining | NodeOffline | NodeDisabled

record exec_node =
  en_id :: int
  en_rdp_host :: string
  en_status :: node_status

text \<open>The sizing fingerprint is \<open>None\<close> where no sizing row exists (\<open>sizing_snapshot_for\<close> gives \<open>{}\<close>).\<close>

record assignment_row =
  sa_id :: int
  sa_account :: int
  sa_is_active :: bool
  sa_stage :: string
  sa_sizing :: "(string \<times> int) option"

record live_authorization =
  la_account :: int
  la_is_active :: bool
  la_revoked_at :: "int option"
  la_identity :: "(string \<times> json) list"
  la_assignment :: "int option"
  la_strategy_snapshot :: "(string \<times> json) list"
  la_sizing :: "(string \<times> int) option"
  la_created_at :: int

record fleet =
  fl_accounts :: "trading_account list"
  fl_workspaces :: "hosted_ws list"
  fl_nodes :: "exec_node list"
  fl_authorizations :: "live_authorization list"
  fl_assignments :: "assignment_row list"

record exec_settings =
  st_gate :: bool
  st_health :: bool
  st_hosted :: bool
  st_execution :: bool
  st_monitoring :: bool
  st_live_execution :: bool
  st_isolation_certified :: bool
  st_supervised :: bool
  st_node_isolation :: bool
  st_forbidden_hosts :: "string list"
  st_now :: int

definition workspace_of :: "fleet \<Rightarrow> trading_account \<Rightarrow> hosted_ws option" where
  "workspace_of db a = find (\<lambda>ws. hs_account_id ws = ac_id a) (fl_workspaces db)"

definition account_of :: "fleet \<Rightarrow> hosted_ws \<Rightarrow> trading_account option" where
  "account_of db ws = find (\<lambda>a. ac_id a = hs_account_id ws) (fl_accounts db)"

definition node_of :: "fleet \<Rightarrow> int option \<Rightarrow> exec_node option" where
  "node_of db n = (case n of None \<Rightarrow> None | Some i \<Rightarrow> find (\<lambda>r. en_id r = i) (fl_nodes db))"

section \<open>Environment of an account\<close>

datatype environment = Demo | Live

definition classification_error :: "bool \<Rightarrow> broker_server option \<Rightarrow> string option" where
  "classification_error is_demo server =
     (case server of
        None \<Rightarrow> None
      | Some s \<Rightarrow>
          if bs_environment s \<notin> {''demo'', ''live''} then Some ''unrecognised environment''
          else if is_demo \<noteq> (bs_environment s = ''demo'') then Some ''classification mismatch''
          else None)"

text \<open>\<open>None\<close> is \<open>AccountEnvironmentIntegrityError\<close>.\<close>

definition account_environment :: "trading_account \<Rightarrow> environment option" where
  "account_environment a =
     (case ac_server a of
        DanglingServer \<Rightarrow> None
      | NoServer \<Rightarrow>
          (if classification_error (ac_is_demo a) None = None
           then Some (if ac_is_demo a then Demo else Live) else None)
      | Server s \<Rightarrow>
          (if classification_error (ac_is_demo a) (Some s) = None
           then Some (if ac_is_demo a then Demo else Live) else None))"

definition is_demo_environment :: "trading_account \<Rightarrow> bool" where
  "is_demo_environment a \<longleftrightarrow> account_environment a = Some Demo"

definition is_live_environment :: "trading_account \<Rightarrow> bool" where
  "is_live_environment a \<longleftrightarrow> account_environment a = Some Live"

section \<open>Live authorization\<close>

definition current_identity :: "trading_account \<Rightarrow> string \<times> string" where
  "current_identity a =
     (strip (ac_account_number a), case ac_server a of Server s \<Rightarrow> strip (bs_server_name s) | _ \<Rightarrow> '''')"

text \<open>The newest active, unrevoked authorization of the account.\<close>

fun newest :: "live_authorization list \<Rightarrow> live_authorization option" where
  "newest [] = None"
| "newest (x # xs) = (case newest xs of None \<Rightarrow> Some x
                      | Some y \<Rightarrow> Some (if la_created_at y > la_created_at x then y else x))"

definition live_authorization_for :: "fleet \<Rightarrow> trading_account \<Rightarrow> live_authorization option" where
  "live_authorization_for db a =
     newest (filter (\<lambda>l. la_account l = ac_id a \<and> la_is_active l \<and> la_revoked_at l = None) (fl_authorizations db))"

definition snapshot_field :: "(string \<times> json) list \<Rightarrow> string \<Rightarrow> string" where
  "snapshot_field snap k = strip (case map_of snap k of None \<Rightarrow> '''' | Some v \<Rightarrow> py_str v)"

definition stage_live :: string where
  "stage_live = ''LIVE''"

definition material_facts_unchanged :: "fleet \<Rightarrow> live_authorization \<Rightarrow> trading_account \<Rightarrow> bool" where
  "material_facts_unchanged db l a =
     (case la_assignment l of
        None \<Rightarrow> la_strategy_snapshot l = []
      | Some i \<Rightarrow>
          (case find (\<lambda>r. sa_id r = i) (fl_assignments db) of
             None \<Rightarrow> False
           | Some r \<Rightarrow>
               sa_is_active r \<and> sa_account r = ac_id a \<and> sa_stage r = stage_live \<and>
               map sa_id (filter (\<lambda>r. sa_account r = ac_id a \<and> sa_is_active r \<and> sa_stage r = stage_live)
                            (fl_assignments db)) = [sa_id r] \<and>
               sa_sizing r = la_sizing l))"

definition is_live_execution_authorized :: "fleet \<Rightarrow> trading_account \<Rightarrow> bool" where
  "is_live_execution_authorized db a =
     (case live_authorization_for db a of
        None \<Rightarrow> False
      | Some l \<Rightarrow>
          let (login, server) = current_identity a in
          if login = '''' then False
          else if \<not> (snapshot_field (la_identity l) ''login'' = login \<and>
                      snapshot_field (la_identity l) ''server'' = server) then False
          else material_facts_unchanged db l a)"

definition live_execution_permitted :: "exec_settings \<Rightarrow> fleet \<Rightarrow> trading_account \<Rightarrow> bool" where
  "live_execution_permitted st db a \<longleftrightarrow> st_live_execution st \<and> is_live_execution_authorized db a"

section \<open>Tenant isolation and the supervised posture\<close>

definition reserved_customer_zero :: "int list" where
  "reserved_customer_zero = [1]"

definition is_customer_zero_account :: "int \<Rightarrow> bool" where
  "is_customer_zero_account i \<longleftrightarrow> i \<in> set reserved_customer_zero"

definition forbidden_execution_node_ids :: "exec_settings \<Rightarrow> fleet \<Rightarrow> int list" where
  "forbidden_execution_node_ids st db =
     (let hosts = filter (\<lambda>h. h \<noteq> '''') (map strip (st_forbidden_hosts st)) in
      concat (map (\<lambda>a. if is_customer_zero_account (ac_id a)
                       then (case ac_terminal_node a of Some n \<Rightarrow> [n] | None \<Rightarrow> []) else []) (fl_accounts db)) @
      concat (map (\<lambda>ws. if is_customer_zero_account (hs_account_id ws)
                        then (case hs_execution_node ws of Some n \<Rightarrow> [n] | None \<Rightarrow> []) @
                             (case hs_workspace_node ws of Some n \<Rightarrow> [n] | None \<Rightarrow> []) else []) (fl_workspaces db)) @
      map en_id (filter (\<lambda>r. list_ex (\<lambda>h. map upper_char h = map upper_char (en_rdp_host r)) hosts) (fl_nodes db)))"

text \<open>\<open>True\<close> is \<open>CrossTenantCoResidencyError\<close>.\<close>

definition assert_allocation_refused :: "exec_settings \<Rightarrow> fleet \<Rightarrow> int \<Rightarrow> int \<Rightarrow> bool" where
  "assert_allocation_refused st db account node =
     (if \<not> st_node_isolation st then False
      else if is_customer_zero_account account then False
      else node \<in> set (forbidden_execution_node_ids st db))"

definition node_is_single_tenant_for :: "fleet \<Rightarrow> exec_node \<Rightarrow> int \<Rightarrow> bool" where
  "node_is_single_tenant_for db node account =
     (if strip (en_rdp_host node) = '''' then False
      else if list_ex (\<lambda>a. ac_terminal_node a = Some (en_id node) \<and> ac_is_active a \<and> ac_id a \<noteq> account)
                (fl_accounts db) then False
      else \<not> list_ex (\<lambda>ws. (hs_execution_node ws = Some (en_id node) \<or> hs_workspace_node ws = Some (en_id node)) \<and>
                           hs_account_id ws \<noteq> account) (fl_workspaces db))"

definition supervised_single_tenant_beta_active :: "exec_settings \<Rightarrow> fleet \<Rightarrow> hosted_ws \<Rightarrow> bool" where
  "supervised_single_tenant_beta_active st db ws =
     (if \<not> st_supervised st then False
      else case account_of db ws of
        None \<Rightarrow> False
      | Some a \<Rightarrow>
          if is_customer_zero_account (ac_id a) then False
          else if \<not> is_demo_environment a then False
          else (case node_of db (hs_execution_node ws) of
              None \<Rightarrow> False
            | Some n \<Rightarrow>
                if en_status n \<noteq> NodeActive then False
                else if en_id n \<in> set (forbidden_execution_node_ids st db) then False
                else node_is_single_tenant_for db n (ac_id a)))"

definition execution_permitted_under_posture :: "exec_settings \<Rightarrow> fleet \<Rightarrow> hosted_ws \<Rightarrow> bool" where
  "execution_permitted_under_posture st db ws =
     (if st_isolation_certified st then True
      else if \<not> st_supervised st then True
      else supervised_single_tenant_beta_active st db ws)"

section \<open>Readiness\<close>

record readiness_decision =
  rd_eligible :: bool
  rd_reason :: string
  rd_provider :: string

definition temporary_validation :: string where
  "temporary_validation = ''temporary_validation''"

definition persistent_workspace :: string where
  "persistent_workspace = ''persistent_workspace''"

definition not_validated_reason :: "validation_status \<Rightarrow> string" where
  "not_validated_reason s =
     (case s of VsNever \<Rightarrow> ''not_validated_never''
      | VsConnectionFailed \<Rightarrow> ''not_validated_connection_failed''
      | VsTechnicalError \<Rightarrow> ''not_validated_technical_error''
      | _ \<Rightarrow> ''validation_state_unknown'')"

definition evaluate_temporary :: "trading_account \<Rightarrow> readiness_decision" where
  "evaluate_temporary a =
     (let d = (\<lambda>ok r. \<lparr>rd_eligible = ok, rd_reason = r, rd_provider = temporary_validation\<rparr>) in
      if \<not> ac_is_active a then d False ''account_inactive''
      else if ac_disconnected_at a \<noteq> None then d False ''account_disconnected''
      else if ac_password_enc a = '''' then d False ''credential_missing''
      else if ac_validation_status a = VsValidated then d True ''ok''
      else d False (not_validated_reason (ac_validation_status a)))"

definition observation_fresh_us :: int where
  "observation_fresh_us = 300 * 1000000"

definition observation_fresh :: "exec_settings \<Rightarrow> hosted_ws \<Rightarrow> bool" where
  "observation_fresh st ws =
     (case hs_last_decision_at ws of
        None \<Rightarrow> False
      | Some ts \<Rightarrow> 0 \<le> st_now st - ts \<and> st_now st - ts \<le> observation_fresh_us)"

definition workspace_verdict :: "exec_settings \<Rightarrow> fleet \<Rightarrow> trading_account \<Rightarrow> bool \<times> string" where
  "workspace_verdict st db a =
     (if \<not> st_hosted st then (False, ''workspace_subsystem_disabled'')
      else if \<not> st_execution st then (False, ''workspace_execution_feature_disabled'')
      else if \<not> ac_is_active a then (False, ''account_inactive'')
      else if ac_disconnected_at a \<noteq> None then (False, ''account_disconnected'')
      else if \<not> is_demo_environment a \<and> \<not> (st_live_execution st \<and> is_live_execution_authorized db a)
      then (False, ''real_account_not_enabled'')
      else case workspace_of db a of
        None \<Rightarrow> (False, ''workspace_missing'')
      | Some ws \<Rightarrow>
          if \<not> execution_permitted_under_posture st db ws then (False, ''supervised_single_tenant_boundary'')
          else if \<not> hs_execution_enabled ws then (False, ''workspace_execution_disabled'')
          else if hs_connected ws \<noteq> Some True then (False, ''workspace_not_connected'')
          else if hs_account_match ws \<noteq> Some True then (False, ''active_account_mismatch'')
          else if ac_workspace_confirmed_at a = None then (False, ''workspace_account_not_confirmed'')
          else if hs_execution_authorized_at ws = None then (False, ''workspace_execution_not_authorized'')
          else if hs_trade_allowed ws \<noteq> Some True \<or> \<not> canonical_execution_ready ws
          then (False, ''workspace_not_execution_ready'')
          else if \<not> observation_fresh st ws then (False, ''workspace_observation_stale'')
          else (True, ''ok''))"

definition evaluate_workspace :: "exec_settings \<Rightarrow> fleet \<Rightarrow> trading_account \<Rightarrow> readiness_decision" where
  "evaluate_workspace st db a =
     (let (ok, r) = workspace_verdict st db a
      in \<lparr>rd_eligible = ok, rd_reason = r, rd_provider = persistent_workspace\<rparr>)"

definition monitoring_verdict :: "exec_settings \<Rightarrow> fleet \<Rightarrow> trading_account \<Rightarrow> bool \<times> string" where
  "monitoring_verdict st db a =
     (if \<not> st_hosted st then (False, ''workspace_subsystem_disabled'')
      else if \<not> st_monitoring st then (False, ''monitoring_subsystem_disabled'')
      else if ac_disconnected_at a \<noteq> None then (False, ''account_disconnected'')
      else case workspace_of db a of
        None \<Rightarrow> (False, ''workspace_missing'')
      | Some ws \<Rightarrow>
          if hs_connected ws \<noteq> Some True then (False, ''workspace_not_connected'')
          else if hs_account_match ws \<noteq> Some True then (False, ''active_account_mismatch'')
          else if ac_workspace_confirmed_at a = None then (False, ''workspace_account_not_confirmed'')
          else if \<not> observation_fresh st ws then (False, ''workspace_observation_stale'')
          else (True, ''monitoring_ok''))"

definition evaluate_readiness :: "exec_settings \<Rightarrow> fleet \<Rightarrow> trading_account \<Rightarrow> readiness_decision" where
  "evaluate_readiness st db a =
     (if ac_readiness_provider a = persistent_workspace then evaluate_workspace st db a
      else evaluate_temporary a)"

definition evaluate_monitoring_readiness :: "exec_settings \<Rightarrow> fleet \<Rightarrow> trading_account \<Rightarrow> readiness_decision" where
  "evaluate_monitoring_readiness st db a =
     (if ac_readiness_provider a = persistent_workspace
      then (let (ok, r) = monitoring_verdict st db a
            in \<lparr>rd_eligible = ok, rd_reason = r, rd_provider = persistent_workspace\<rparr>)
      else \<lparr>rd_eligible = False, rd_reason = ''workspace_subsystem_disabled'',
            rd_provider = temporary_validation\<rparr>)"

end
