(* ===== verification/RuntimePause.thy ===== *)
theory RuntimePause
  imports BrokerHealth Readiness
begin

text \<open>
  The execution gate (\<^verbatim>\<open>execution/broker_gate.py\<close>) and the durable broker-health pause
  (\<^verbatim>\<open>execution/runtime_pause.py\<close>): creation-time and dispatch-time decisions, the pause processor
  that follows the health contract by its version, and the controlled resume. The processor reads the
  contract before it takes the row lock, so the two are separate steps of a relation over
  interleaved callers.
\<close>

section \<open>The gates\<close>

definition evaluate_execution_gate :: "exec_settings \<Rightarrow> fleet \<Rightarrow> trading_account option \<Rightarrow> bool \<times> string" where
  "evaluate_execution_gate st db account =
     (if \<not> st_gate st then (True, ''gate_disabled'')
      else case account of
        None \<Rightarrow> (False, ''account_missing'')
      | Some a \<Rightarrow> (let d = evaluate_readiness st db a in (rd_eligible d, rd_reason d)))"

text \<open>\<open>_ELIGIBILITY_TO_SHARED\<close> with its default \<open>SR_VALIDATION_REQUIRED\<close>.\<close>

definition eligibility_table :: "(string \<times> string) list" where
  "eligibility_table =
     [(''ok'', ''dispatch_ok''),
      (''account_missing'', ''broker_account_missing''),
      (''account_inactive'', ''broker_account_inactive''),
      (''account_disconnected'', ''broker_account_disconnected''),
      (''credential_missing'', ''broker_credential_missing''),
      (''not_validated_never'', ''broker_validation_required''),
      (''not_validated_connection_failed'', ''broker_validation_failed''),
      (''not_validated_technical_error'', ''broker_validation_unavailable''),
      (''validation_state_unknown'', ''broker_validation_required''),
      (''workspace_subsystem_disabled'', ''broker_validation_required''),
      (''workspace_missing'', ''broker_validation_required''),
      (''workspace_not_execution_ready'', ''broker_workspace_not_ready''),
      (''workspace_not_connected'', ''broker_health_disconnected''),
      (''active_account_mismatch'', ''broker_active_account_mismatch''),
      (''workspace_observation_stale'', ''broker_health_stale''),
      (''workspace_execution_feature_disabled'', ''broker_workspace_not_ready''),
      (''workspace_execution_disabled'', ''broker_workspace_not_ready''),
      (''real_account_not_enabled'', ''broker_workspace_not_ready'')]"

definition eligibility_to_shared :: "string \<Rightarrow> string" where
  "eligibility_to_shared r =
     (case map_of eligibility_table r of Some s \<Rightarrow> s | None \<Rightarrow> ''broker_validation_required'')"

definition health_state_to_shared :: "health_state \<Rightarrow> string" where
  "health_state_to_shared s =
     (case s of Degraded \<Rightarrow> ''broker_health_degraded'' | Stale \<Rightarrow> ''broker_health_stale''
      | Disconnected \<Rightarrow> ''broker_health_disconnected'' | Tombstoned \<Rightarrow> ''broker_account_tombstoned''
      | Unknown \<Rightarrow> ''broker_validation_required'' | Healthy \<Rightarrow> ''broker_health_state_changed'')"

text \<open>Reading the health contract gives \<open>Inl ()\<close> when it raises, \<open>Inr None\<close> without a row.\<close>

definition evaluate_dispatch_gate ::
  "exec_settings \<Rightarrow> fleet \<Rightarrow> trading_account option \<Rightarrow> unit + health_contract option \<Rightarrow> bool \<times> string" where
  "evaluate_dispatch_gate st db account health =
     (if \<not> st_gate st then (True, ''gate_disabled'')
      else
        (let base = evaluate_execution_gate st db account in
         if \<not> fst base then (False, eligibility_to_shared (snd base))
         else if st_health st then
           (case health of
              Inl _ \<Rightarrow> (False, ''broker_health_state_changed'')
            | Inr None \<Rightarrow> (True, ''dispatch_ok'')
            | Inr (Some c) \<Rightarrow>
                if \<not> ct_eligible c then (False, health_state_to_shared (ct_state c)) else (True, ''dispatch_ok''))
         else (True, ''dispatch_ok'')))"

section \<open>The pause record\<close>

record pause_rec =
  pz_paused :: bool
  pz_reason :: string
  pz_source_version :: nat
  pz_last_version :: nat
  pz_paused_at :: "int option"
  pz_resume_eligible :: bool
  pz_resumed_at :: "int option"
  pz_resumed_version :: nat

definition new_pause :: pause_rec where
  "new_pause = \<lparr>pz_paused = False, pz_reason = '''', pz_source_version = 0, pz_last_version = 0,
     pz_paused_at = None, pz_resume_eligible = False, pz_resumed_at = None, pz_resumed_version = 0\<rparr>"

definition pause_processing_enabled :: "exec_settings \<Rightarrow> bool" where
  "pause_processing_enabled st \<longleftrightarrow> st_gate st \<and> st_health st"

definition pause_reason :: "health_state \<Rightarrow> string" where
  "pause_reason s =
     (case s of Degraded \<Rightarrow> ''broker_health_degraded'' | Stale \<Rightarrow> ''broker_health_stale''
      | Disconnected \<Rightarrow> ''broker_health_disconnected'' | Tombstoned \<Rightarrow> ''broker_account_tombstoned''
      | _ \<Rightarrow> ''broker_health_state_changed'')"

text \<open>
  The processor after it read \<open>c\<close>. \<open>seen_paused\<close> is the unlocked check of the fast path; \<open>rec\<close> the row
  under the lock, \<open>None\<close> when it is created now. The result is the snapshot returned and the row.
\<close>

definition process_contract ::
  "health_contract \<Rightarrow> bool \<Rightarrow> int \<Rightarrow> pause_rec option \<Rightarrow> pause_rec option \<times> pause_rec option" where
  "process_contract c seen_paused now rec =
     (if \<not> ct_pause_required c \<and> \<not> seen_paused then (None, rec)
      else
        (let created = (rec = None); r = (case rec of None \<Rightarrow> new_pause | Some r \<Rightarrow> r) in
         if \<not> created \<and> ct_version c < pz_last_version r then (Some r, Some r)
         else if \<not> created \<and> ct_version c = pz_last_version r then (Some r, Some r)
         else if ct_pause_required c then
           (let r' = r\<lparr>pz_last_version := ct_version c, pz_paused := True,
                       pz_reason := pause_reason (ct_state c), pz_source_version := ct_version c,
                       pz_resume_eligible := False, pz_resumed_at := None,
                       pz_paused_at := (if \<not> pz_paused r then Some now else pz_paused_at r)\<rparr>
            in (Some r', Some r'))
         else
           (let r' = r\<lparr>pz_last_version := ct_version c,
                       pz_resume_eligible := (pz_resume_eligible r \<or> (pz_paused r \<and> ct_eligible c))\<rparr>
            in (Some r', Some r'))))"

definition process_broker_health_pause ::
  "exec_settings \<Rightarrow> health_contract option \<Rightarrow> int \<Rightarrow> pause_rec option \<Rightarrow> pause_rec option \<times> pause_rec option" where
  "process_broker_health_pause st contract now rec =
     (if \<not> pause_processing_enabled st then (None, rec)
      else case contract of
        None \<Rightarrow> (None, rec)
      | Some c \<Rightarrow> process_contract c (case rec of None \<Rightarrow> False | Some r \<Rightarrow> pz_paused r) now rec)"

definition is_broker_paused :: "exec_settings \<Rightarrow> health_contract option \<Rightarrow> bool" where
  "is_broker_paused st contract \<longleftrightarrow>
     pause_processing_enabled st \<and> (case contract of None \<Rightarrow> False | Some c \<Rightarrow> ct_pause_required c)"

text \<open>\<open>Inl reason\<close> is \<open>ExecutionGateRefused\<close>.\<close>

definition require_not_broker_paused :: "exec_settings \<Rightarrow> health_contract option \<Rightarrow> string + unit" where
  "require_not_broker_paused st contract =
     (if \<not> pause_processing_enabled st then Inr ()
      else case contract of
        None \<Rightarrow> Inr ()
      | Some c \<Rightarrow> if ct_pause_required c then Inl (pause_reason (ct_state c)) else Inr ())"

text \<open>The worker's check right before an order; a refusal also reconciles the pause record.\<close>

definition evaluate_job_dispatch ::
  "exec_settings \<Rightarrow> fleet \<Rightarrow> trading_account option \<Rightarrow> unit + health_contract option \<Rightarrow> int \<Rightarrow>
   pause_rec option \<Rightarrow> (bool \<times> string) \<times> pause_rec option" where
  "evaluate_job_dispatch st db job_account health now rec =
     (if \<not> st_gate st then ((True, ''gate_disabled''), rec)
      else case job_account of
        None \<Rightarrow> ((False, ''broker_account_missing''), rec)
      | Some a \<Rightarrow>
          (let d = evaluate_dispatch_gate st db (Some a) health in
           (d, if fst d then rec
               else case health of
                 Inl _ \<Rightarrow> rec
               | Inr c \<Rightarrow> snd (process_broker_health_pause st c now rec))))"

section \<open>Controlled resume\<close>

record resume_result =
  rr_resumed :: bool
  rr_idempotent :: bool
  rr_refused :: bool
  rr_reason :: string
  rr_processed_version :: nat
  rr_current_version :: nat

definition refuse_resume :: "string \<Rightarrow> nat \<Rightarrow> nat \<Rightarrow> resume_result" where
  "refuse_resume reason p c = \<lparr>rr_resumed = False, rr_idempotent = False, rr_refused = True,
     rr_reason = reason, rr_processed_version = p, rr_current_version = c\<rparr>"

definition resume_with ::
  "bool \<times> string \<Rightarrow> health_contract option \<Rightarrow> int \<Rightarrow> pause_rec option \<Rightarrow> resume_result \<times> pause_rec option" where
  "resume_with base contract now rec =
     (case rec of
        None \<Rightarrow> (refuse_resume ''broker_resume_not_eligible'' 0 0, None)
      | Some r \<Rightarrow>
          if \<not> pz_paused r then
            (\<lparr>rr_resumed = False, rr_idempotent = True, rr_refused = False, rr_reason = '''',
              rr_processed_version = pz_resumed_version r, rr_current_version = pz_resumed_version r\<rparr>, Some r)
          else if \<not> fst base then
            (refuse_resume (eligibility_to_shared (snd base)) (pz_source_version r) 0, Some r)
          else (case contract of
              None \<Rightarrow> (refuse_resume ''broker_resume_not_eligible'' (pz_source_version r) 0, Some r)
            | Some c \<Rightarrow>
                if ct_pause_required c \<or> \<not> ct_eligible c then
                  (refuse_resume (pause_reason (ct_state c)) (ct_version c) (ct_version c), Some r)
                else if ct_version c < pz_source_version r then
                  (refuse_resume ''broker_health_state_changed'' (ct_version c) (pz_source_version r), Some r)
                else
                  (\<lparr>rr_resumed = True, rr_idempotent = False, rr_refused = False, rr_reason = '''',
                    rr_processed_version = ct_version c, rr_current_version = ct_version c\<rparr>,
                   Some (r\<lparr>pz_paused := False, pz_resumed_at := Some now, pz_resumed_version := ct_version c,
                           pz_last_version := max (pz_last_version r) (ct_version c),
                           pz_resume_eligible := False, pz_reason := ''''\<rparr>))))"

definition request_broker_runtime_resume ::
  "exec_settings \<Rightarrow> fleet \<Rightarrow> trading_account option \<Rightarrow> health_contract option \<Rightarrow> int \<Rightarrow> pause_rec option \<Rightarrow>
   resume_result \<times> pause_rec option" where
  "request_broker_runtime_resume st db account contract now rec =
     (if \<not> pause_processing_enabled st then (refuse_resume ''broker_resume_not_eligible'' 0 0, rec)
      else resume_with (evaluate_execution_gate st db account) contract now rec)"

section \<open>Interleaved callers\<close>

text \<open>
  A state holds the health world, the contracts callers have read and may still act on, and the pause
  row. Callers read, process what they read, or resume; the health world moves in between.
\<close>

type_synonym 'w pause_state = "'w \<times> health_contract list \<times> pause_rec option"

inductive pause_step ::
  "('e \<Rightarrow> 'w \<Rightarrow> 'w) \<Rightarrow> ('w \<Rightarrow> health_contract option) \<Rightarrow> 'w pause_state \<Rightarrow> 'w pause_state \<Rightarrow> bool"
  for hstep contract where
  HealthMoves: "pause_step hstep contract (w, reads, rec) (hstep e w, reads, rec)"
| ContractRead: "contract w = Some c \<Longrightarrow> pause_step hstep contract (w, reads, rec) (w, c # reads, rec)"
| ContractProcessed: "c \<in> set reads \<Longrightarrow> process_contract c seen now rec = (snap, rec') \<Longrightarrow>
    pause_step hstep contract (w, reads, rec) (w, reads, rec')"
| ResumeRequested: "resume_with base (contract w) now rec = (res, rec') \<Longrightarrow>
    pause_step hstep contract (w, reads, rec) (w, reads, rec')"

inductive_cases pause_stepE
  [consumes 1, case_names HealthMoves ContractRead ContractProcessed ResumeRequested]:
  "pause_step hstep contract (w, reads, rec) s"

text \<open>The processor either leaves the row alone or advances it to the version it read.\<close>

lemma process_contract_cases:
  assumes "process_contract c seen now rec = (snap, Some r')"
  obtains (same) "rec = Some r'"
    | (pauses) "ct_pause_required c"
        "rec = None \<or> pz_last_version (case rec of None \<Rightarrow> new_pause | Some r \<Rightarrow> r) < ct_version c"
        "pz_last_version r' = ct_version c" "pz_source_version r' = ct_version c" "pz_paused r'"
        "pz_resumed_version r' = pz_resumed_version (case rec of None \<Rightarrow> new_pause | Some r \<Rightarrow> r)"
    | (recovers) "\<not> ct_pause_required c"
        "rec = None \<or> pz_last_version (case rec of None \<Rightarrow> new_pause | Some r \<Rightarrow> r) < ct_version c"
        "pz_last_version r' = ct_version c"
        "pz_source_version r' = pz_source_version (case rec of None \<Rightarrow> new_pause | Some r \<Rightarrow> r)"
        "pz_paused r' = pz_paused (case rec of None \<Rightarrow> new_pause | Some r \<Rightarrow> r)"
        "pz_resumed_version r' = pz_resumed_version (case rec of None \<Rightarrow> new_pause | Some r \<Rightarrow> r)"
proof (cases "rec = Some r'")
  case False
  show ?thesis
  proof (cases "ct_pause_required c")
    case True
    with assms False show ?thesis
      by (intro pauses) (auto simp: process_contract_def Let_def split: if_splits option.splits)
  next
    case n: False
    with assms False show ?thesis
      by (intro recovers) (auto simp: process_contract_def Let_def split: if_splits option.splits)
  qed
qed (rule same)

text \<open>What the pause processor relies on: versions only grow, and a version has one verdict.\<close>

locale versioned_health =
  fixes hstep :: "'e \<Rightarrow> 'w \<Rightarrow> 'w" and contract :: "'w \<Rightarrow> health_contract option" and ok :: "'w \<Rightarrow> bool"
  assumes ok_step: "ok w \<Longrightarrow> ok (hstep e w)"
    and kept: "contract w = Some c \<Longrightarrow> \<exists>c'. contract (hstep e w) = Some c' \<and> ct_version c \<le> ct_version c' \<and>
      (ct_version c' = ct_version c \<longrightarrow> ct_pause_required c' = ct_pause_required c)"
    and pausing_positive: "ok w \<Longrightarrow> contract w = Some c \<Longrightarrow> ct_pause_required c \<Longrightarrow> 0 < ct_version c"
begin

definition live_version :: "'w \<Rightarrow> nat" where
  "live_version w = (case contract w of None \<Rightarrow> 0 | Some c \<Rightarrow> ct_version c)"

text \<open>Every contract in flight is an older one, or agrees with the live one.\<close>

definition read_ok :: "'w \<Rightarrow> health_contract \<Rightarrow> bool" where
  "read_ok w c \<longleftrightarrow> (\<exists>l. contract w = Some l \<and> ct_version c \<le> ct_version l \<and>
     (ct_version c = ct_version l \<longrightarrow> ct_pause_required c = ct_pause_required l) \<and>
     (ct_pause_required c \<longrightarrow> 0 < ct_version c))"

definition rec_ok :: "'w \<Rightarrow> pause_rec \<Rightarrow> bool" where
  "rec_ok w r \<longleftrightarrow> pz_last_version r \<le> live_version w \<and> pz_source_version r \<le> pz_last_version r \<and>
     pz_resumed_version r \<le> pz_last_version r \<and>
     (pz_paused r \<longrightarrow> pz_resumed_version r < pz_source_version r) \<and>
     (\<forall>l. contract w = Some l \<longrightarrow> ct_pause_required l \<longrightarrow> pz_last_version r = ct_version l \<longrightarrow> pz_paused r)"

definition state_ok :: "'w pause_state \<Rightarrow> bool" where
  "state_ok s = (case s of (w, reads, rec) \<Rightarrow>
     ok w \<and> (\<forall>c \<in> set reads. read_ok w c) \<and> (\<forall>r. rec = Some r \<longrightarrow> rec_ok w r))"

lemma read_ok_step:
  assumes "read_ok w c"
  shows "read_ok (hstep e w) c"
proof -
  from assms obtain l where l: "contract w = Some l" "ct_version c \<le> ct_version l"
    "ct_version c = ct_version l \<longrightarrow> ct_pause_required c = ct_pause_required l"
    "ct_pause_required c \<longrightarrow> 0 < ct_version c" by (auto simp: read_ok_def)
  from kept [OF l(1), of e] obtain l' where l': "contract (hstep e w) = Some l'" "ct_version l \<le> ct_version l'"
    "ct_version l' = ct_version l \<longrightarrow> ct_pause_required l' = ct_pause_required l" by blast
  have "ct_version c \<le> ct_version l'" using l(2) l'(2) by simp
  moreover have "ct_pause_required c = ct_pause_required l'" if "ct_version c = ct_version l'"
    using that l(2,3) l'(2,3) by simp
  ultimately show ?thesis using l(4) l'(1) by (auto simp: read_ok_def)
qed

lemma rec_ok_step:
  assumes w: "ok w" and r: "rec_ok w r"
  shows "rec_ok (hstep e w) r"
proof (cases "contract w")
  case (Some c)
  then obtain c' where c': "contract (hstep e w) = Some c'" "ct_version c \<le> ct_version c'"
    "ct_version c' = ct_version c \<longrightarrow> ct_pause_required c' = ct_pause_required c" using kept by blast
  with r Some show ?thesis by (auto simp: rec_ok_def live_version_def)
next
  case None
  with r have z: "pz_last_version r = 0" by (simp add: rec_ok_def live_version_def)
  have "0 < ct_version l" if "contract (hstep e w) = Some l" "ct_pause_required l" for l
    using pausing_positive [OF ok_step [OF w] that] .
  with r z show ?thesis by (fastforce simp: rec_ok_def)
qed

lemma rec_ok_process:
  assumes "ok w" "read_ok w c" "\<And>r. rec = Some r \<Longrightarrow> rec_ok w r"
    and "process_contract c seen now rec = (snap, Some r')"
  shows "rec_ok w r'"
proof -
  obtain l where l: "contract w = Some l" "ct_version c \<le> ct_version l"
    "ct_version c = ct_version l \<longrightarrow> ct_pause_required c = ct_pause_required l"
    "ct_pause_required c \<longrightarrow> 0 < ct_version c" using assms(2) by (auto simp: read_ok_def)
  have lp: "ct_pause_required l \<longrightarrow> 0 < ct_version l" using pausing_positive [OF assms(1) l(1)] by blast
  let ?r = "case rec of None \<Rightarrow> new_pause | Some r \<Rightarrow> r"
  from assms(4) consider (same) "rec = Some r'"
    | (pauses) "ct_pause_required c" "rec = None \<or> pz_last_version ?r < ct_version c"
        "pz_last_version r' = ct_version c" "pz_source_version r' = ct_version c" "pz_paused r'"
        "pz_resumed_version r' = pz_resumed_version ?r"
    | (recovers) "\<not> ct_pause_required c" "rec = None \<or> pz_last_version ?r < ct_version c"
        "pz_last_version r' = ct_version c" "pz_source_version r' = pz_source_version ?r"
        "pz_paused r' = pz_paused ?r" "pz_resumed_version r' = pz_resumed_version ?r"
    by (rule process_contract_cases)
  then show ?thesis
  proof cases
    case same
    then show ?thesis by (rule assms(3))
  next
    case pauses
    have "pz_resumed_version ?r < ct_version c"
      using pauses(1,2) l(4) assms(3) by (cases rec) (auto simp: new_pause_def rec_ok_def)
    with pauses l show ?thesis by (simp add: rec_ok_def live_version_def)
  next
    case recovers
    have "pz_source_version ?r \<le> ct_version c \<and> pz_resumed_version ?r \<le> ct_version c \<and>
        (pz_paused ?r \<longrightarrow> pz_resumed_version ?r < pz_source_version ?r)"
      using recovers(2) assms(3) by (cases rec) (fastforce simp: new_pause_def rec_ok_def)+
    with recovers l show ?thesis by (auto simp: rec_ok_def live_version_def)
  qed
qed

lemma rec_ok_resume:
  assumes "ok w" "\<And>r. rec = Some r \<Longrightarrow> rec_ok w r" "resume_with base (contract w) now rec = (res, Some r')"
  shows "rec_ok w r'"
  using assms
  by (auto simp: resume_with_def rec_ok_def live_version_def split: option.splits if_splits)

lemma state_ok_step: "pause_step hstep contract s s' \<Longrightarrow> state_ok s \<Longrightarrow> state_ok s'"
proof (induction rule: pause_step.induct)
  case (HealthMoves w reads rec e)
  then show ?case using ok_step read_ok_step rec_ok_step by (auto simp: state_ok_def)
next
  case (ContractRead w c reads rec)
  then have "read_ok w c" using pausing_positive by (auto simp: read_ok_def state_ok_def)
  with ContractRead show ?case by (auto simp: state_ok_def)
next
  case (ContractProcessed c reads seen now rec snap rec' w)
  then show ?case using rec_ok_process [of w c rec seen now snap] by (auto simp: state_ok_def)
next
  case (ResumeRequested base w now rec res rec' reads)
  then show ?case using rec_ok_resume [of w rec base now res] by (auto simp: state_ok_def)
qed

lemma state_ok_reach: "(pause_step hstep contract)\<^sup>*\<^sup>* s s' \<Longrightarrow> state_ok s \<Longrightarrow> state_ok s'"
  by (induction rule: rtranclp_induct) (auto intro: state_ok_step)

lemma fresh_ok: "ok w \<Longrightarrow> state_ok (w, [], None)"
  by (simp add: state_ok_def)

lemma processing_live_pauses:
  assumes "state_ok (w, reads, rec)" "contract w = Some c" "ct_pause_required c"
  obtains r where "snd (process_contract c seen now rec) = Some r" "pz_paused r"
    "pz_last_version r = ct_version c"
proof -
  have "\<exists>r. snd (process_contract c seen now rec) = Some r \<and> pz_paused r \<and> pz_last_version r = ct_version c"
    using assms by (cases rec)
      (auto simp: process_contract_def Let_def state_ok_def rec_ok_def live_version_def)
  then show ?thesis using that by blast
qed

end

text \<open>The broker-health machine provides that contract.\<close>

definition health_ok :: "health_world \<Rightarrow> bool" where
  "health_ok w \<longleftrightarrow> bh_state (current_health w) = Unknown \<or> 0 < bh_version (current_health w)"

lemma get_contract_current: "get_contract w = Some c \<Longrightarrow> c = contract_of (current_health w)"
  by (auto simp: get_contract_def current_health_def)

lemma health_row_kept: "hw_health w \<noteq> None \<Longrightarrow> hw_health (health_step cfg e w) \<noteq> None"
  by (cases e) (auto simp: record_health sweep_health invalidate_for_credential_replacement_def Let_def
      split: option.splits)

interpretation broker_health: versioned_health "health_step cfg" get_contract health_ok
  for cfg
proof
  fix w e
  assume "health_ok w"
  then show "health_ok (health_step cfg e w)"
    using version_step [of cfg e w] by (auto simp: health_ok_def split: if_splits)
next
  fix w c e
  assume c: "get_contract w = Some c"
  then obtain h where h: "hw_health (health_step cfg e w) = Some h"
    using health_row_kept [of w cfg e] by (auto simp: get_contract_def)
  then have c': "get_contract (health_step cfg e w) = Some (contract_of (current_health (health_step cfg e w)))"
    by (simp add: get_contract_def current_health_def)
  show "\<exists>c'. get_contract (health_step cfg e w) = Some c' \<and> ct_version c \<le> ct_version c' \<and>
      (ct_version c' = ct_version c \<longrightarrow> ct_pause_required c' = ct_pause_required c)"
    using c' get_contract_current [OF c] version_step [of cfg e w]
    by (auto simp: contract_of_def pause_required_def split: if_splits)
next
  fix w c
  assume "health_ok w" "get_contract w = Some c" "ct_pause_required c"
  then show "0 < ct_version c"
    using get_contract_current [of w c]
    by (auto simp: health_ok_def contract_of_def pause_required_def pause_states_def)
qed

section \<open>The pause follows the health of the account\<close>

definition pause_reach :: "health_config \<Rightarrow> health_world pause_state \<Rightarrow> bool" where
  "pause_reach cfg s \<longleftrightarrow> (pause_step (health_step cfg) get_contract)\<^sup>*\<^sup>* (new_world, [], None) s"

lemma reach_ok: "pause_reach cfg s \<Longrightarrow> broker_health.state_ok s"
  unfolding pause_reach_def
  by (erule broker_health.state_ok_reach, rule broker_health.fresh_ok)
    (simp add: health_ok_def new_world_def current_health_def new_health_def)

text \<open>
  Whatever callers did before - reading, processing and resuming in any interleaving, with contracts
  that went out of date in between - a caller that processes the account's live contract while it
  requires a pause leaves the account durably paused, at that contract's version.
\<close>
theorem processing_pauses:
  assumes "pause_reach cfg (w, reads, rec)" "get_contract w = Some c" "ct_pause_required c"
  shows "case snd (process_contract c seen now rec) of None \<Rightarrow> False
    | Some r \<Rightarrow> pz_paused r \<and> pz_last_version r = ct_version c"
proof -
  obtain r where "snd (process_contract c seen now rec) = Some r" "pz_paused r" "pz_last_version r = ct_version c"
    using broker_health.processing_live_pauses [OF reach_ok [OF assms(1)] assms(2,3)] by blast
  then show ?thesis by simp
qed

text \<open>
  C39: An older decision never reverses a newer one. In every reachable state a pause in force was
  caused by a health version newer than the one that authorised the last resume, and the record is
  never ahead of the account's live version.
\<close>
theorem pause_outranks_resume:
  assumes "pause_reach cfg (w, reads, Some r)" "pz_paused r" "get_contract w = Some c"
  shows "pz_resumed_version r < pz_source_version r \<and> pz_source_version r \<le> pz_last_version r \<and>
    pz_last_version r \<le> ct_version c"
  using reach_ok [OF assms(1)] assms(2,3)
  by (simp add: broker_health.state_ok_def broker_health.rec_ok_def broker_health.live_version_def)

text \<open>
  Nothing but the controlled resume lifts a pause. A step after which a paused account is no longer
  paused is a resume whose eligibility gate allowed it, on a live contract that is HEALTHY, requires
  no pause and is not older than the pause.
\<close>
theorem only_resume_lifts_a_pause:
  assumes "pause_step (health_step cfg) get_contract (w, reads, Some r) (w', reads', Some r')"
    and "pz_paused r" "\<not> pz_paused r'"
  shows "\<exists>base c now. fst base \<and> get_contract w = Some c \<and> ct_eligible c \<and> \<not> ct_pause_required c \<and>
    pz_source_version r \<le> ct_version c \<and> w' = w \<and>
    resume_with base (get_contract w) now (Some r) =
      (\<lparr>rr_resumed = True, rr_idempotent = False, rr_refused = False, rr_reason = '''',
        rr_processed_version = ct_version c, rr_current_version = ct_version c\<rparr>, Some r')"
  using assms(1)
proof (cases rule: pause_stepE)
  case (ContractProcessed c seen now snap)
  then have "process_contract c seen now (Some r) = (snap, Some r')" by simp
  then have False using assms(2,3) by (cases rule: process_contract_cases) simp_all
  then show ?thesis ..
next
  case (ResumeRequested base now res)
  then have e: "resume_with base (get_contract w) now (Some r) = (res, Some r')" by simp
  then obtain c where "get_contract w = Some c" "fst base" "ct_eligible c" "\<not> ct_pause_required c"
    "pz_source_version r \<le> ct_version c"
    "res = \<lparr>rr_resumed = True, rr_idempotent = False, rr_refused = False, rr_reason = '''',
        rr_processed_version = ct_version c, rr_current_version = ct_version c\<rparr>"
    using assms(2,3) by (auto simp: resume_with_def split: option.splits if_splits)
  with e ResumeRequested show ?thesis by blast
qed (use assms(2,3) in auto)

section \<open>Dispatch\<close>

text \<open>
  An order is only dispatched for an account that is eligible now. With the gate on, the dispatch
  decision is exactly: the account exists, its readiness provider finds it eligible at this moment,
  and, with the health engine on, its health contract could be read and is absent or HEALTHY.
\<close>
theorem dispatch_gate_exact:
  assumes "st_gate st"
  shows "fst (evaluate_dispatch_gate st db account health) \<longleftrightarrow>
    (case account of None \<Rightarrow> False | Some a \<Rightarrow> rd_eligible (evaluate_readiness st db a)) \<and>
    (if st_health st then (case health of Inl _ \<Rightarrow> False | Inr None \<Rightarrow> True | Inr (Some c) \<Rightarrow> ct_eligible c) else True)"
  using assms
  by (simp add: evaluate_dispatch_gate_def evaluate_execution_gate_def Let_def
      split: option.split sum.split)

lemma collapsed_reasons:
  "eligibility_to_shared ''workspace_account_not_confirmed'' = ''broker_validation_required''"
  "eligibility_to_shared ''workspace_execution_not_authorized'' = ''broker_validation_required''"
  "eligibility_to_shared ''supervised_single_tenant_boundary'' = ''broker_validation_required''"
  by code_simp+

text \<open>
  The dispatch gate does not consult the durable pause. An account whose live contract has become
  HEALTHY again is dispatched while its pause record is still in force, before any controlled
  resume; and a hosted account that is unconfirmed, unauthorized or outside the supervised boundary
  is refused with the code that asks for a re-validation, not with its own reason.
\<close>
theorem dispatch_ignores_durable_pause:
  assumes "st_gate st" "rd_eligible (evaluate_readiness st db a)" "ct_eligible c" "pz_paused r"
    and "b \<in> {''workspace_account_not_confirmed'', ''workspace_execution_not_authorized'',
      ''supervised_single_tenant_boundary''}"
  shows "evaluate_job_dispatch st db (Some a) (Inr (Some c)) now (Some r) = ((True, ''dispatch_ok''), Some r) \<and>
    eligibility_to_shared b = ''broker_validation_required''"
proof
  show "evaluate_job_dispatch st db (Some a) (Inr (Some c)) now (Some r) = ((True, ''dispatch_ok''), Some r)"
    using assms(1-3)
    by (simp add: evaluate_job_dispatch_def evaluate_dispatch_gate_def evaluate_execution_gate_def Let_def)
  show "eligibility_to_shared b = ''broker_validation_required''"
    using assms(5) collapsed_reasons by auto
qed

section \<open>Concrete instances\<close>

definition demo_tombstone :: health_world where
  "demo_tombstone = health_step demo_health_config (ValidationFolded 5)
     (health_step demo_health_config AccountDisconnected new_world)"

lemma reach_health: "pause_reach cfg (w, reads, rec) \<Longrightarrow> pause_reach cfg (health_step cfg e w, reads, rec)"
  unfolding pause_reach_def by (rule rtranclp.rtrancl_into_rtrancl, assumption, rule pause_step.HealthMoves)

lemma demo_tombstone_reach: "pause_reach demo_health_config (demo_tombstone, [], None)"
  unfolding demo_tombstone_def by (intro reach_health) (simp add: pause_reach_def)

definition demo_contract :: health_contract where
  "demo_contract = \<lparr>ct_state = Tombstoned, ct_eligible = False, ct_pause_required = True,
     ct_resume_eligible = False, ct_reason = ''account_disconnected'', ct_version = 1\<rparr>"

lemma demo_tombstone_contract: "get_contract demo_tombstone = Some demo_contract"
  by (simp add: demo_contract_def demo_tombstone_def new_world_def new_health_def get_contract_def contract_of_def
      record_validation_outcome_def fold_evidence_def finalize_def state_reason_def emit_signals_def
      health_eligible_def pause_required_def pause_states_def Let_def)

theorem processing_pauses_witness:
  "case snd (process_contract demo_contract False 9 None) of
     None \<Rightarrow> False | Some r \<Rightarrow> pz_paused r \<and> pz_last_version r = ct_version demo_contract"
  by (rule processing_pauses [OF demo_tombstone_reach demo_tombstone_contract])
    (simp add: demo_contract_def)

definition demo_pause :: pause_rec where
  "demo_pause = new_pause\<lparr>pz_paused := True, pz_reason := ''broker_account_tombstoned'',
     pz_source_version := 1, pz_last_version := 1, pz_paused_at := Some 9\<rparr>"

theorem pause_outranks_resume_witness:
  "pz_resumed_version demo_pause < pz_source_version demo_pause"
proof -
  let ?c = demo_contract
  let ?p = "pause_step (health_step demo_health_config) get_contract"
  have "?p (demo_tombstone, [], None) (demo_tombstone, [?c], None)"
    using demo_tombstone_contract by (rule pause_step.ContractRead)
  moreover have "?p (demo_tombstone, [?c], None) (demo_tombstone, [?c], Some demo_pause)"
    by (rule pause_step.ContractProcessed [of ?c _ False 9])
      (simp_all add: demo_contract_def process_contract_def Let_def demo_pause_def new_pause_def pause_reason_def)
  ultimately have "pause_reach demo_health_config (demo_tombstone, [?c], Some demo_pause)"
    using demo_tombstone_reach unfolding pause_reach_def by (meson rtranclp.rtrancl_into_rtrancl)
  from pause_outranks_resume [OF this _ demo_tombstone_contract] show ?thesis
    by (simp add: demo_pause_def)
qed

definition demo_healthy :: health_world where
  "demo_healthy = new_world\<lparr>hw_health := Some (new_health\<lparr>bh_state := Healthy, bh_version := 2\<rparr>)\<rparr>"

theorem only_resume_lifts_a_pause_witness:
  "\<exists>c. get_contract demo_healthy = Some c \<and> ct_eligible c \<and> pz_source_version demo_pause \<le> ct_version c"
proof -
  have "snd (resume_with (True, ''ok'') (get_contract demo_healthy) 3 (Some demo_pause)) =
      Some (demo_pause\<lparr>pz_paused := False, pz_resumed_at := Some 3, pz_resumed_version := 2,
        pz_last_version := 2, pz_resume_eligible := False, pz_reason := ''''\<rparr>)" (is "_ = Some ?r")
    by (simp add: resume_with_def demo_healthy_def demo_pause_def new_pause_def get_contract_def contract_of_def
        health_eligible_def pause_required_def pause_states_def)
  then have "pause_step (health_step demo_health_config) get_contract
      (demo_healthy, [], Some demo_pause) (demo_healthy, [], Some ?r)"
    by (intro pause_step.ResumeRequested [of "(True, ''ok'')" _ _ 3]) (rule prod.collapse [symmetric, THEN trans], simp)
  from only_resume_lifts_a_pause [OF this] show ?thesis by (auto simp: demo_pause_def)
qed

definition demo_gate_account :: trading_account where
  "demo_gate_account = \<lparr>ac_id = 7, ac_user = 3, ac_is_active = True, ac_is_demo = True,
     ac_disconnected_at = None, ac_password_enc = ''enc'', ac_validation_status = VsValidated,
     ac_readiness_provider = temporary_validation, ac_account_number = ''77'', ac_server = NoServer,
     ac_workspace_confirmed_at = None, ac_terminal_node = None\<rparr>"

definition demo_gate_settings :: exec_settings where
  "demo_gate_settings = \<lparr>st_gate = True, st_health = True, st_hosted = False, st_execution = False,
     st_monitoring = False, st_live_execution = False, st_isolation_certified = False, st_supervised = False,
     st_node_isolation = False, st_forbidden_hosts = [], st_now = 200\<rparr>"

definition empty_fleet :: fleet where
  "empty_fleet = \<lparr>fl_accounts = [], fl_workspaces = [], fl_nodes = [], fl_authorizations = [], fl_assignments = []\<rparr>"

theorem dispatch_gate_exact_witness:
  "\<not> fst (evaluate_dispatch_gate demo_gate_settings empty_fleet (Some demo_gate_account)
      (Inr (get_contract demo_tombstone)))"
  using dispatch_gate_exact [of demo_gate_settings empty_fleet "Some demo_gate_account"]
  by (simp add: demo_gate_settings_def demo_tombstone_contract demo_contract_def)

theorem dispatch_ignores_durable_pause_witness:
  "fst (evaluate_job_dispatch demo_gate_settings empty_fleet (Some demo_gate_account)
      (Inr (get_contract demo_healthy)) 9 (Some demo_pause)) = (True, ''dispatch_ok'')"
proof -
  have "rd_eligible (evaluate_readiness demo_gate_settings empty_fleet demo_gate_account)" by code_simp
  from dispatch_ignores_durable_pause [OF _ this, of "contract_of (new_health\<lparr>bh_state := Healthy, bh_version := 2\<rparr>)"
      demo_pause "''supervised_single_tenant_boundary''" 9]
  show ?thesis
    by (simp add: demo_gate_settings_def demo_healthy_def get_contract_def contract_of_def health_eligible_def demo_pause_def)
qed

end
