(* ===== verification/HostedExecution.thy ===== *)
theory HostedExecution
  imports Readiness
begin

text \<open>
  Arming a hosted workspace and routing its jobs: provisioning and arming
  (\<^verbatim>\<open>execution/hosted_provisioning.py\<close>, \<^verbatim>\<open>hosted_workspace/auto_arm_runner.py\<close>), the customer's
  confirmation and authorization (\<^verbatim>\<open>hosted_workspace/provisioning.py\<close>), the route and the claim of
  a job (\<^verbatim>\<open>execution/hosted_routing.py\<close>), its identity pin (\<^verbatim>\<open>hosted_pin.py\<close>), the idempotency key
  and the ambiguous-send rule (\<^verbatim>\<open>hosted_idempotency.py\<close>).
\<close>

section \<open>Writing workspaces and accounts\<close>

definition put_workspace :: "hosted_ws \<Rightarrow> fleet \<Rightarrow> fleet" where
  "put_workspace ws db =
     db\<lparr>fl_workspaces := map (\<lambda>x. if hs_account_id x = hs_account_id ws then ws else x) (fl_workspaces db)\<rparr>"

definition put_account :: "trading_account \<Rightarrow> fleet \<Rightarrow> fleet" where
  "put_account a db = db\<lparr>fl_accounts := map (\<lambda>x. if ac_id x = ac_id a then a else x) (fl_accounts db)\<rparr>"

section \<open>Provisioning, arming, disarming\<close>

definition arm_preconditions :: "exec_settings \<Rightarrow> fleet \<Rightarrow> trading_account \<Rightarrow> bool \<times> string" where
  "arm_preconditions st db a =
     (if \<not> (st_hosted st \<and> st_execution st) then (False, ''workspace_execution_feature_disabled'')
      else if ac_readiness_provider a \<noteq> persistent_workspace then (False, ''workspace_subsystem_disabled'')
      else if \<not> ac_is_active a then (False, ''broker_account_inactive'')
      else if ac_disconnected_at a \<noteq> None then (False, ''broker_account_disconnected'')
      else if \<not> is_demo_environment a \<and> \<not> (st_live_execution st \<and> is_live_execution_authorized db a)
      then (False, ''real_account_not_enabled'')
      else case workspace_of db a of
        None \<Rightarrow> (False, ''workspace_missing'')
      | Some ws \<Rightarrow>
          if hs_account_id ws \<noteq> ac_id a then (False, ''workspace_owner_mismatch'')
          else if \<not> execution_permitted_under_posture st db ws then (False, ''supervised_single_tenant_boundary'')
          else if ac_terminal_node a = None then (False, ''workspace_route_missing'')
          else if hs_execution_node ws = None then (False, ''workspace_execution_node_unbound'')
          else if hs_execution_node ws \<noteq> ac_terminal_node a then (False, ''workspace_execution_node_mismatch'')
          else if hs_connected ws \<noteq> Some True then (False, ''workspace_not_connected'')
          else if hs_account_match ws \<noteq> Some True then (False, ''active_account_mismatch'')
          else if hs_trade_allowed ws \<noteq> Some True \<or> \<not> canonical_execution_ready ws
          then (False, ''workspace_not_execution_ready'')
          else if \<not> observation_fresh st ws then (False, ''workspace_observation_stale'')
          else if hs_execution_authorized_at ws = None then (False, ''workspace_execution_not_authorized'')
          else (True, ''armed''))"

definition arm_hosted_workspace_execution ::
  "exec_settings \<Rightarrow> trading_account \<Rightarrow> fleet \<Rightarrow> (bool \<times> string) \<times> fleet" where
  "arm_hosted_workspace_execution st a db =
     (let pre = arm_preconditions st db a in
      if \<not> fst pre then (pre, db)
      else case workspace_of db a of
        None \<Rightarrow> (pre, db)
      | Some ws \<Rightarrow>
          ((True, ''armed''),
           put_workspace (ws\<lparr>hs_execution_enabled := True, hs_auto_arm_suppressed := False\<rparr>) db))"

definition disarm_hosted_workspace_execution :: "trading_account \<Rightarrow> fleet \<Rightarrow> (bool \<times> string) \<times> fleet" where
  "disarm_hosted_workspace_execution a db =
     (case workspace_of db a of
        None \<Rightarrow> ((False, ''workspace_missing''), db)
      | Some ws \<Rightarrow>
          ((True, ''disarmed''),
           put_workspace (ws\<lparr>hs_execution_enabled := False, hs_auto_arm_suppressed := True\<rparr>) db))"

definition provision_hosted_workspace :: "string \<Rightarrow> trading_account \<Rightarrow> fleet \<Rightarrow> fleet" where
  "provision_hosted_workspace uuid a db =
     (let db1 = (if workspace_of db a = None
                 then db\<lparr>fl_workspaces := fl_workspaces db @ [new_hosted_ws uuid (ac_id a)]\<rparr> else db)
      in if ac_readiness_provider a \<noteq> persistent_workspace
         then put_account (a\<lparr>ac_readiness_provider := persistent_workspace\<rparr>) db1 else db1)"

text \<open>\<open>Inl ()\<close> is \<open>CrossTenantCoResidencyError\<close>, raised before any write.\<close>

definition assign_workspace_execution_node ::
  "exec_settings \<Rightarrow> trading_account \<Rightarrow> int \<Rightarrow> fleet \<Rightarrow> unit + fleet" where
  "assign_workspace_execution_node st a node db =
     (case workspace_of db a of
        None \<Rightarrow> Inr db
      | Some ws \<Rightarrow>
          if assert_allocation_refused st db (hs_account_id ws) node then Inl ()
          else if hs_execution_node ws = Some node then Inr db
          else Inr (put_workspace (ws\<lparr>hs_execution_node := Some node,
                                      hs_binding_generation := hs_binding_generation ws + 1\<rparr>) db))"

definition clear_workspace_execution_node :: "trading_account \<Rightarrow> fleet \<Rightarrow> fleet" where
  "clear_workspace_execution_node a db =
     (case workspace_of db a of
        None \<Rightarrow> db
      | Some ws \<Rightarrow>
          if hs_execution_node ws = None then db
          else put_workspace (ws\<lparr>hs_execution_node := None,
                                 hs_binding_generation := hs_binding_generation ws + 1\<rparr>) db)"

section \<open>Confirmation and authorization by the customer\<close>

text \<open>
  The admission decision of the user, \<open>hosted_workspace_admission\<close>, is an input: \<open>None\<close> admits,
  \<open>Some reason\<close> refuses. The workspace handed in is read again under its row lock; a workspace
  without an account cannot exist and is refused like a foreign one.
\<close>

definition locked_workspace :: "fleet \<Rightarrow> hosted_ws \<Rightarrow> (hosted_ws \<times> trading_account) option" where
  "locked_workspace db ws0 =
     (case find (\<lambda>ws. hs_account_id ws = hs_account_id ws0) (fl_workspaces db) of
        None \<Rightarrow> None
      | Some ws \<Rightarrow> map_option (\<lambda>a. (ws, a)) (account_of db ws))"

definition confirm_broker_account ::
  "exec_settings \<Rightarrow> string option \<Rightarrow> int \<Rightarrow> hosted_ws \<Rightarrow> fleet \<Rightarrow> (bool \<times> string) \<times> fleet" where
  "confirm_broker_account st refusal user ws0 db =
     (case refusal of
        Some r \<Rightarrow> ((False, r), db)
      | None \<Rightarrow>
          (case locked_workspace db ws0 of
             None \<Rightarrow> ((False, ''not_owner''), db)
           | Some (ws, a) \<Rightarrow>
               if ac_user a \<noteq> user then ((False, ''not_owner''), db)
               else if ac_workspace_confirmed_at a \<noteq> None then ((True, ''already_confirmed''), db)
               else if hs_canonical_state ws \<notin> {WsConnected, WsExecutionReady} \<or> hs_account_match ws \<noteq> Some True
               then ((False, ''no_discovered_match''), db)
               else ((True, ''confirmed''),
                     put_account (a\<lparr>ac_workspace_confirmed_at := Some (st_now st), ac_is_active := True\<rparr>) db)))"

definition authorize_workspace_execution ::
  "exec_settings \<Rightarrow> string option \<Rightarrow> int \<Rightarrow> bool \<Rightarrow> hosted_ws \<Rightarrow> fleet \<Rightarrow> (bool \<times> string) \<times> fleet" where
  "authorize_workspace_execution st refusal user allow_pre_ready ws0 db =
     (case refusal of
        Some r \<Rightarrow> ((False, r), db)
      | None \<Rightarrow>
          (case locked_workspace db ws0 of
             None \<Rightarrow> ((False, ''not_owner''), db)
           | Some (ws, a) \<Rightarrow>
               if ac_user a \<noteq> user then ((False, ''not_owner''), db)
               else if ac_workspace_confirmed_at a = None then ((False, ''account_not_confirmed''), db)
               else if hs_connected ws \<noteq> Some True \<or> hs_account_match ws \<noteq> Some True
               then ((False, ''workspace_not_execution_ready''), db)
               else if \<not> allow_pre_ready \<and> hs_canonical_state ws \<noteq> WsExecutionReady
               then ((False, ''workspace_not_execution_ready''), db)
               else
                 (let already = hs_execution_authorized_at ws \<noteq> None;
                      db1 = (if already then db
                             else put_workspace (ws\<lparr>hs_execution_authorized_at := Some (st_now st)\<rparr>) db);
                      db2 = snd (arm_hosted_workspace_execution st a db1)
                  in ((True, if already then ''already_authorized'' else ''authorized''), db2))))"

section \<open>The autonomous arming pass\<close>

definition auto_arm_candidate :: "hosted_ws \<Rightarrow> bool" where
  "auto_arm_candidate ws \<longleftrightarrow> hs_canonical_state ws = WsExecutionReady \<and> \<not> hs_execution_enabled ws \<and>
     \<not> hs_auto_arm_suppressed ws \<and> hs_execution_authorized_at ws \<noteq> None"

definition auto_arm_one :: "exec_settings \<Rightarrow> hosted_ws \<Rightarrow> fleet \<Rightarrow> fleet" where
  "auto_arm_one st ws db =
     (case account_of db ws of
        None \<Rightarrow> db
      | Some a \<Rightarrow> snd (arm_hosted_workspace_execution st a db))"

definition run_hosted_auto_arm :: "exec_settings \<Rightarrow> fleet \<Rightarrow> fleet" where
  "run_hosted_auto_arm st db =
     (if \<not> (st_hosted st \<and> st_execution st) then db
      else fold (auto_arm_one st) (filter auto_arm_candidate (fl_workspaces db)) db)"

section \<open>Identity pin\<close>

record isolation_profile =
  ip_account :: int
  ip_windows_username :: string
  ip_status :: string
  ip_is_admin :: bool

definition is_hosted_workspace_account :: "exec_settings \<Rightarrow> trading_account \<Rightarrow> bool" where
  "is_hosted_workspace_account st a \<longleftrightarrow> st_hosted st \<and> ac_readiness_provider a = persistent_workspace"

definition hosted_windows_username_for :: "exec_settings \<Rightarrow> isolation_profile list \<Rightarrow> trading_account \<Rightarrow> string" where
  "hosted_windows_username_for st profiles a =
     (if \<not> is_hosted_workspace_account st a then ''''
      else case find (\<lambda>p. ip_account p = ac_id a \<and> ip_status p = ''PROVISIONED'' \<and> \<not> ip_is_admin p) profiles of
        None \<Rightarrow> '''' | Some p \<Rightarrow> strip (ip_windows_username p))"

text \<open>The server is read only through a set foreign key; \<open>None\<close> is the exception of a dangling one.\<close>

definition pin_server :: "trading_account \<Rightarrow> string option" where
  "pin_server a = (case ac_server a of NoServer \<Rightarrow> Some '''' | Server s \<Rightarrow> Some (strip (bs_server_name s))
                   | DanglingServer \<Rightarrow> None)"

definition identity_pin_for ::
  "exec_settings \<Rightarrow> isolation_profile list \<Rightarrow> trading_account \<Rightarrow> (string \<times> json) list option" where
  "identity_pin_for st profiles a =
     (if \<not> is_hosted_workspace_account st a then Some []
      else case pin_server a of
        None \<Rightarrow> None
      | Some server \<Rightarrow>
          Some [(''require_identity_pin'', JBool True),
                (''expected_login'', JStr (strip (ac_account_number a))),
                (''expected_server'', JStr server),
                (''is_demo'', JBool (ac_is_demo a)),
                (''windows_username'', JStr (hosted_windows_username_for st profiles a))])"

fun dict_put :: "string \<Rightarrow> json \<Rightarrow> (string \<times> json) list \<Rightarrow> (string \<times> json) list" where
  "dict_put k v [] = [(k, v)]"
| "dict_put k v ((k', v') # d) = (if k' = k then (k', v) # d else (k', v') # dict_put k v d)"

fun dict_setdefault :: "string \<Rightarrow> json \<Rightarrow> (string \<times> json) list \<Rightarrow> (string \<times> json) list" where
  "dict_setdefault k v [] = [(k, v)]"
| "dict_setdefault k v ((k', v') # d) = (if k' = k then (k', v') # d else (k', v') # dict_setdefault k v d)"

definition inject_key :: "string \<times> json \<Rightarrow> (string \<times> json) list \<Rightarrow> (string \<times> json) list" where
  "inject_key kv d =
     (case kv of (k, v) \<Rightarrow>
        if k = ''require_identity_pin'' then dict_put k (JBool True) d
        else if k = ''windows_username'' then dict_put k v d
        else dict_setdefault k v d)"

definition inject_identity_pin ::
  "exec_settings \<Rightarrow> isolation_profile list \<Rightarrow> trading_account \<Rightarrow> (string \<times> json) list \<Rightarrow> (string \<times> json) list option" where
  "inject_identity_pin st profiles a payload =
     (if \<not> st_hosted st then Some payload
      else map_option (\<lambda>pin. fold inject_key pin payload) (identity_pin_for st profiles a))"

section \<open>Route and claim\<close>

record route_decision =
  rt_ok :: bool
  rt_reason :: string
  rt_workspace_uuid :: string
  rt_expected_login :: string
  rt_expected_server :: string

definition refuse_route :: "string \<Rightarrow> route_decision" where
  "refuse_route r = \<lparr>rt_ok = False, rt_reason = r, rt_workspace_uuid = '''', rt_expected_login = '''',
     rt_expected_server = ''''\<rparr>"

definition route_ok :: route_decision where
  "route_ok = \<lparr>rt_ok = True, rt_reason = ''execution_route_ok'', rt_workspace_uuid = '''',
     rt_expected_login = '''', rt_expected_server = ''''\<rparr>"

definition hosted_execution_armed :: "exec_settings \<Rightarrow> fleet \<Rightarrow> trading_account \<Rightarrow> bool" where
  "hosted_execution_armed st db a \<longleftrightarrow>
     is_hosted_workspace_account st a \<and> rd_eligible (evaluate_workspace st db a)"

definition workspace_owner_id :: "fleet \<Rightarrow> hosted_ws \<Rightarrow> trading_account \<Rightarrow> int option" where
  "workspace_owner_id db ws a =
     (if hs_account_id ws = ac_id a then Some (ac_user a) else map_option ac_user (account_of db ws))"

definition resolve_hosted_route :: "exec_settings \<Rightarrow> fleet \<Rightarrow> trading_account \<Rightarrow> route_decision option" where
  "resolve_hosted_route st db a =
     (case workspace_of db a of
        None \<Rightarrow> Some (refuse_route ''workspace_not_found'')
      | Some ws \<Rightarrow>
          if hs_account_id ws \<noteq> ac_id a then Some (refuse_route ''workspace_owner_mismatch'')
          else if workspace_owner_id db ws a \<noteq> Some (ac_user a) then Some (refuse_route ''workspace_owner_mismatch'')
          else if \<not> hosted_execution_armed st db a then Some (refuse_route ''workspace_execution_not_armed'')
          else if hs_execution_node ws = None then Some (refuse_route ''workspace_execution_node_unbound'')
          else if ac_terminal_node a = None \<or> hs_execution_node ws \<noteq> ac_terminal_node a
          then Some (refuse_route ''workspace_execution_node_mismatch'')
          else case pin_server a of
            None \<Rightarrow> None
          | Some server \<Rightarrow>
              let login = strip (ac_account_number a) in
              if login = '''' then Some (refuse_route ''binding_mismatch'')
              else Some \<lparr>rt_ok = True, rt_reason = ''execution_route_ok'', rt_workspace_uuid = hs_uuid ws,
                         rt_expected_login = login, rt_expected_server = server\<rparr>)"

definition authorize_hosted_claim ::
  "exec_settings \<Rightarrow> fleet \<Rightarrow> trading_account \<Rightarrow> int option \<Rightarrow> bool \<Rightarrow> route_decision option" where
  "authorize_hosted_claim st db a job_node worker_is_node_aware =
     (if \<not> st_hosted st then Some route_ok
      else if \<not> is_hosted_workspace_account st a then Some route_ok
      else case resolve_hosted_route st db a of
        None \<Rightarrow> None
      | Some route \<Rightarrow>
          if \<not> rt_ok route then Some route
          else if job_node = None then Some (refuse_route ''workspace_route_missing'')
          else if job_node \<noteq> ac_terminal_node a then Some (refuse_route ''workspace_execution_node_mismatch'')
          else if \<not> worker_is_node_aware then Some (refuse_route ''worker_not_entitled'')
          else Some route)"

definition hosted_execution_effectively_paused :: "exec_settings \<Rightarrow> fleet \<Rightarrow> trading_account \<Rightarrow> bool option" where
  "hosted_execution_effectively_paused st db a = map_option (\<lambda>r. \<not> rt_ok r) (resolve_hosted_route st db a)"

section \<open>Idempotency key and ambiguous sends\<close>

definition key_labels :: "string list" where
  "key_labels = [''ws='', ''login='', ''server='', ''job='', ''op='', ''strat='']"

definition key_text :: "string list \<Rightarrow> string" where
  "key_text parts = join_with ''|'' (map2 (@) key_labels (map strip parts))"

definition hosted_idempotency_key :: "(string \<Rightarrow> string) \<Rightarrow> string list \<Rightarrow> string" where
  "hosted_idempotency_key sha256_hex parts = ''HWX-'' @ take 32 (sha256_hex (key_text parts))"

datatype ambiguous_class = ConfirmedExecuted | ConfirmedNotExecuted | StillAmbiguous

definition classify_ambiguous_result :: "bool \<Rightarrow> bool \<Rightarrow> bool \<Rightarrow> bool \<Rightarrow> ambiguous_class" where
  "classify_ambiguous_result authoritative order_found position_found deal_found =
     (if order_found \<or> position_found \<or> deal_found then ConfirmedExecuted
      else if authoritative then ConfirmedNotExecuted else StillAmbiguous)"

definition may_retry_after_ambiguous :: "ambiguous_class \<Rightarrow> bool" where
  "may_retry_after_ambiguous c \<longleftrightarrow> c = ConfirmedNotExecuted"

section \<open>Histories\<close>

datatype hosted_op =
    OpProvision string trading_account
  | OpObserve bool ws_input int
  | OpArm exec_settings trading_account
  | OpDisarm trading_account
  | OpAutoArm exec_settings
  | OpAssignNode exec_settings trading_account int
  | OpClearNode trading_account
  | OpConfirm exec_settings "string option" int hosted_ws
  | OpAuthorize exec_settings "string option" int bool hosted_ws

text \<open>The writer's update of a row does not depend on the transition and event tables.\<close>

definition observe_row :: "bool \<Rightarrow> ws_input \<Rightarrow> hosted_ws \<Rightarrow> hosted_ws" where
  "observe_row ev i row = ww_row (ws_step ev i \<lparr>ww_row = row, ww_transitions = [], ww_events = []\<rparr>)"

fun hosted_step :: "hosted_op \<Rightarrow> fleet \<Rightarrow> fleet" where
  "hosted_step (OpProvision uuid a) db = provision_hosted_workspace uuid a db"
| "hosted_step (OpObserve ev i account) db =
     (case find (\<lambda>ws. hs_account_id ws = account) (fl_workspaces db) of
        None \<Rightarrow> db | Some ws \<Rightarrow> put_workspace (observe_row ev i ws) db)"
| "hosted_step (OpArm st a) db = snd (arm_hosted_workspace_execution st a db)"
| "hosted_step (OpDisarm a) db = snd (disarm_hosted_workspace_execution a db)"
| "hosted_step (OpAutoArm st) db = run_hosted_auto_arm st db"
| "hosted_step (OpAssignNode st a n) db =
     (case assign_workspace_execution_node st a n db of Inl _ \<Rightarrow> db | Inr db' \<Rightarrow> db')"
| "hosted_step (OpClearNode a) db = clear_workspace_execution_node a db"
| "hosted_step (OpConfirm st r u ws) db = snd (confirm_broker_account st r u ws db)"
| "hosted_step (OpAuthorize st r u pre ws) db = snd (authorize_workspace_execution st r u pre ws db)"

definition hosted_run :: "hosted_op list \<Rightarrow> fleet \<Rightarrow> fleet" where
  "hosted_run ops db = fold hosted_step ops db"

lemma observe_row_frame:
  "hs_account_id (observe_row ev i row) = hs_account_id row"
  "hs_execution_enabled (observe_row ev i row) = hs_execution_enabled row"
  "hs_auto_arm_suppressed (observe_row ev i row) = hs_auto_arm_suppressed row"
  "hs_execution_authorized_at (observe_row ev i row) = hs_execution_authorized_at row"
  by (cases i; simp add: observe_row_def ingest_with_premise_def persist_workspace_decision_def
      refresh_projection_def Let_def case_prod_beta split: option.splits)+

lemma workspace_of_mem:
  "workspace_of db a = Some ws \<Longrightarrow> ws \<in> set (fl_workspaces db) \<and> hs_account_id ws = ac_id a"
  unfolding workspace_of_def by (rule find_SomeD)

lemma put_workspace_mem:
  "x \<in> set (fl_workspaces (put_workspace ws db)) \<Longrightarrow>
   x = ws \<or> (x \<in> set (fl_workspaces db) \<and> hs_account_id x \<noteq> hs_account_id ws)"
  by (auto simp: put_workspace_def)

lemma put_account_workspaces [simp]: "fl_workspaces (put_account a db) = fl_workspaces db"
  by (simp add: put_account_def)

text \<open>
  A property of the workspace rows is kept by every operation when it is kept by each field change
  the operations make.
\<close>

definition row_inv :: "(hosted_ws \<Rightarrow> bool) \<Rightarrow> fleet \<Rightarrow> bool" where
  "row_inv P db \<longleftrightarrow> (\<forall>ws \<in> set (fl_workspaces db). P ws)"

lemma row_inv_put: "row_inv P db \<Longrightarrow> P ws \<Longrightarrow> row_inv P (put_workspace ws db)"
  using put_workspace_mem by (fastforce simp: row_inv_def)

lemma row_inv_found: "row_inv P db \<Longrightarrow> find Q (fl_workspaces db) = Some ws \<Longrightarrow> P ws"
  using find_SomeD by (fastforce simp: row_inv_def)

lemma row_inv_arm:
  assumes "row_inv P db"
    and "\<And>ws. P ws \<Longrightarrow> hs_account_id ws = ac_id a \<Longrightarrow> hs_execution_authorized_at ws \<noteq> None \<Longrightarrow>
      P (ws\<lparr>hs_execution_enabled := True, hs_auto_arm_suppressed := False\<rparr>)"
  shows "row_inv P (snd (arm_hosted_workspace_execution st a db))"
proof (cases "fst (arm_preconditions st db a)")
  case True
  then obtain ws where ws: "workspace_of db a = Some ws" "hs_execution_authorized_at ws \<noteq> None"
    by (auto simp: arm_preconditions_def split: option.splits if_splits)
  with assms(1) have "P ws" by (auto simp: row_inv_def dest: workspace_of_mem)
  with assms ws True show ?thesis
    by (auto simp: arm_hosted_workspace_execution_def Let_def dest: workspace_of_mem intro!: row_inv_put)
qed (use assms in \<open>simp add: arm_hosted_workspace_execution_def Let_def\<close>)

lemma row_inv_auto_arm:
  assumes "row_inv P db"
    and "\<And>ws (a :: trading_account). P ws \<Longrightarrow> hs_account_id ws = ac_id a \<Longrightarrow>
      hs_execution_authorized_at ws \<noteq> None \<Longrightarrow> (\<exists>c \<in> set (fl_workspaces db). auto_arm_candidate c \<and> hs_account_id c = ac_id a) \<Longrightarrow>
      P (ws\<lparr>hs_execution_enabled := True, hs_auto_arm_suppressed := False\<rparr>)"
  shows "row_inv P (run_hosted_auto_arm st db)"
proof -
  have "row_inv P (fold (auto_arm_one st) cs d)"
    if "set cs \<subseteq> set (filter auto_arm_candidate (fl_workspaces db))" "row_inv P d" for cs d
    using that
  proof (induction cs arbitrary: d)
    case (Cons c cs)
    have "row_inv P (auto_arm_one st c d)"
    proof (cases "account_of d c")
      case (Some a)
      then have "ac_id a = hs_account_id c" unfolding account_of_def by (auto dest: find_SomeD)
      with Cons.prems have "\<exists>c \<in> set (fl_workspaces db). auto_arm_candidate c \<and> hs_account_id c = ac_id a"
        by auto
      with Cons.prems(2) have "row_inv P (snd (arm_hosted_workspace_execution st a d))"
        using assms(2) by (intro row_inv_arm) blast+
      with Some show ?thesis by (simp add: auto_arm_one_def)
    qed (use Cons.prems in \<open>simp add: auto_arm_one_def\<close>)
    with Cons show ?case by simp
  qed simp
  with assms(1) show ?thesis unfolding run_hosted_auto_arm_def by simp
qed

text \<open>The field changes of the operations.\<close>

lemma row_inv_step:
  assumes "row_inv P db"
    and observe: "\<And>ws ev i. P ws \<Longrightarrow> P (observe_row ev i ws)"
    and disarm: "\<And>ws. P ws \<Longrightarrow> P (ws\<lparr>hs_execution_enabled := False, hs_auto_arm_suppressed := True\<rparr>)"
    and fresh: "\<And>uuid i. P (new_hosted_ws uuid i)"
    and bind: "\<And>ws n. P ws \<Longrightarrow>
      P (ws\<lparr>hs_execution_node := n, hs_binding_generation := hs_binding_generation ws + 1\<rparr>)"
    and authorize: "\<And>ws t. P ws \<Longrightarrow> arms (hs_account_id ws) \<Longrightarrow> P (ws\<lparr>hs_execution_authorized_at := Some t\<rparr>)"
    and arm: "\<And>ws. P ws \<Longrightarrow> hs_execution_authorized_at ws \<noteq> None \<Longrightarrow>
      arms (hs_account_id ws) \<Longrightarrow> P (ws\<lparr>hs_execution_enabled := True, hs_auto_arm_suppressed := False\<rparr>)"
    and who: "\<And>st a. op = OpArm st a \<Longrightarrow> arms (ac_id a)"
      "\<And>st r u pre ws. op = OpAuthorize st r u pre ws \<Longrightarrow> arms (hs_account_id ws)"
      "\<And>st c. op = OpAutoArm st \<Longrightarrow> c \<in> set (fl_workspaces db) \<Longrightarrow> auto_arm_candidate c \<Longrightarrow> arms (hs_account_id c)"
  shows "row_inv P (hosted_step op db)"
proof (cases op)
  case (OpProvision uuid a)
  then show ?thesis using assms(1) fresh
    by (auto simp: provision_hosted_workspace_def Let_def row_inv_def)
next
  case (OpObserve ev i account)
  then show ?thesis using assms(1) observe
    by (auto split: option.split intro!: row_inv_put dest: row_inv_found)
next
  case (OpArm st a)
  then show ?thesis using assms(1) by (auto intro!: row_inv_arm arm simp: who(1))
next
  case (OpDisarm a)
  then show ?thesis using assms(1) disarm
    by (auto simp: disarm_hosted_workspace_execution_def workspace_of_def split: option.split
        intro!: row_inv_put dest: row_inv_found)
next
  case (OpAutoArm st)
  have "row_inv P (run_hosted_auto_arm st db)"
  proof (rule row_inv_auto_arm [OF assms(1)])
    fix ws and a :: trading_account
    assume a: "P ws" "hs_account_id ws = ac_id a" "hs_execution_authorized_at ws \<noteq> None"
      "\<exists>c \<in> set (fl_workspaces db). auto_arm_candidate c \<and> hs_account_id c = ac_id a"
    then have "arms (hs_account_id ws)" using who(3) [OF OpAutoArm] by metis
    with a(1,3) show "P (ws\<lparr>hs_execution_enabled := True, hs_auto_arm_suppressed := False\<rparr>)" by (intro arm)
  qed
  then show ?thesis using OpAutoArm by simp
next
  case (OpAssignNode st a n)
  then show ?thesis using assms(1) bind
    by (auto simp: assign_workspace_execution_node_def workspace_of_def split: option.split
        intro!: row_inv_put dest: row_inv_found)
next
  case (OpClearNode a)
  then show ?thesis using assms(1) bind
    by (auto simp: clear_workspace_execution_node_def workspace_of_def split: option.split
        intro!: row_inv_put dest: row_inv_found)
next
  case (OpConfirm st r u ws)
  then show ?thesis using assms(1)
    by (auto simp: confirm_broker_account_def row_inv_def split: option.split)
next
  case (OpAuthorize st r u pre ws0)
  show ?thesis
  proof (cases "\<exists>ws a. r = None \<and> locked_workspace db ws0 = Some (ws, a)")
    case True
    then obtain ws a where l: "r = None" "locked_workspace db ws0 = Some (ws, a)" by blast
    then have ws: "P ws" "hs_account_id ws = hs_account_id ws0" "ac_id a = hs_account_id ws"
      using row_inv_found [OF assms(1)]
      by (auto simp: locked_workspace_def account_of_def split: option.splits dest: find_SomeD)
    have "row_inv P (put_workspace (ws\<lparr>hs_execution_authorized_at := Some (st_now st)\<rparr>) db)"
      using assms(1) ws(1,2) who(2) [OF OpAuthorize] by (intro row_inv_put authorize) simp_all
    then have *: "row_inv P (snd (arm_hosted_workspace_execution st a
        (if hs_execution_authorized_at ws \<noteq> None then db
         else put_workspace (ws\<lparr>hs_execution_authorized_at := Some (st_now st)\<rparr>) db)))"
      using assms(1) ws who(2) [OF OpAuthorize] by (intro row_inv_arm) (auto intro!: arm)
    show ?thesis using OpAuthorize l * assms(1)
      by (simp add: authorize_workspace_execution_def Let_def)
  next
    case False
    then show ?thesis using OpAuthorize assms(1)
      by (auto simp: authorize_workspace_execution_def split: option.split)
  qed
qed

text \<open>
  Capability is never authorization. Whatever the observations, provisioning steps, node bindings,
  operator actions and autonomous arming passes, a workspace that may execute has a recorded
  authorization of its customer, and that record is only ever written by the customer's own
  authorization, never by reaching EXECUTION_READY.
\<close>
theorem armed_only_when_authorized:
  assumes "list_all (\<lambda>ws. \<not> hs_execution_enabled ws) (fl_workspaces db)"
    and "ws \<in> set (fl_workspaces (hosted_run ops db))" "hs_execution_enabled ws"
  shows "hs_execution_authorized_at ws \<noteq> None"
proof -
  let ?P = "\<lambda>ws. hs_execution_enabled ws \<longrightarrow> hs_execution_authorized_at ws \<noteq> None"
  have "row_inv ?P db" using assms(1) by (auto simp: row_inv_def list_all_iff)
  then have "row_inv ?P (hosted_run ops db)" unfolding hosted_run_def
  proof (induction ops arbitrary: db)
    case (Cons op ops)
    have "row_inv ?P (hosted_step op db)"
      by (rule row_inv_step [where arms = "\<lambda>_. True"])
        (use Cons.prems in \<open>simp_all add: observe_row_frame new_hosted_ws_def\<close>)
    with Cons.IH show ?case by simp
  qed simp
  with assms show ?thesis by (auto simp: row_inv_def)
qed

text \<open>Does the operation arm this account on somebody's explicit request?\<close>

fun explicit_arm :: "int \<Rightarrow> hosted_op \<Rightarrow> bool" where
  "explicit_arm i (OpArm _ a) \<longleftrightarrow> ac_id a = i"
| "explicit_arm i (OpAuthorize _ _ _ _ ws) \<longleftrightarrow> hs_account_id ws = i"
| "explicit_arm i _ \<longleftrightarrow> False"

text \<open>
  A disarm sticks. Once an operator has disarmed a workspace, no sequence of observations,
  autonomous arming passes, node changes, confirmations or operations on other accounts arms it
  again; only an explicit arm or the customer's own authorization of this account can.
\<close>
theorem disarm_sticks:
  assumes "workspace_of db a \<noteq> None"
    and "list_all (\<lambda>op. \<not> explicit_arm (ac_id a) op) ops"
    and "ws \<in> set (fl_workspaces (hosted_run ops (snd (disarm_hosted_workspace_execution a db))))"
    and "hs_account_id ws = ac_id a"
  shows "\<not> hs_execution_enabled ws"
proof -
  let ?P = "\<lambda>ws. hs_account_id ws = ac_id a \<longrightarrow>
    \<not> hs_execution_enabled ws \<and> (hs_auto_arm_suppressed ws \<or> hs_execution_authorized_at ws = None)"
  let ?db = "snd (disarm_hosted_workspace_execution a db)"
  obtain w where w: "workspace_of db a = Some w" using assms(1) by blast
  then have "row_inv ?P ?db"
    using workspace_of_mem [OF w]
    by (auto simp: row_inv_def disarm_hosted_workspace_execution_def dest!: put_workspace_mem)
  moreover have "row_inv ?P d \<Longrightarrow> list_all (\<lambda>op. \<not> explicit_arm (ac_id a) op) ops \<Longrightarrow>
      row_inv ?P (hosted_run ops d)" for d ops
    unfolding hosted_run_def
  proof (induction ops arbitrary: d)
    case (Cons op ops)
    have "row_inv ?P (hosted_step op d)"
      by (rule row_inv_step [where arms = "\<lambda>i. i \<noteq> ac_id a"])
        (use Cons.prems in \<open>auto simp: observe_row_frame new_hosted_ws_def row_inv_def auto_arm_candidate_def\<close>)
    with Cons show ?case by simp
  qed simp
  ultimately have "row_inv ?P (hosted_run ops ?db)" using assms(2) by blast
  with assms(3,4) show ?thesis by (auto simp: row_inv_def)
qed

section \<open>Claims and readiness\<close>

lemma workspace_eligible:
  assumes "rd_eligible (evaluate_workspace st db a)"
  obtains ws where "workspace_of db a = Some ws" "st_hosted st" "st_execution st" "ac_is_active a"
    "ac_disconnected_at a = None" "is_demo_environment a \<or> live_execution_permitted st db a"
    "execution_permitted_under_posture st db ws" "hs_execution_enabled ws" "hs_connected ws = Some True"
    "hs_account_match ws = Some True" "ac_workspace_confirmed_at a \<noteq> None"
    "hs_execution_authorized_at ws \<noteq> None" "hs_trade_allowed ws = Some True"
    "canonical_execution_ready ws" "observation_fresh st ws"
  using assms
  by (auto simp: evaluate_workspace_def workspace_verdict_def case_prod_beta live_execution_permitted_def
      split: if_splits option.splits)

lemma route_accepted:
  assumes "resolve_hosted_route st db a = Some r" "rt_ok r"
  obtains ws where "workspace_of db a = Some ws" "rd_eligible (evaluate_workspace st db a)"
    "hs_execution_node ws = ac_terminal_node a" "ac_terminal_node a \<noteq> None"
    "rt_workspace_uuid r = hs_uuid ws" "rt_expected_login r = strip (ac_account_number a)"
    "strip (ac_account_number a) \<noteq> ''''" "pin_server a = Some (rt_expected_server r)"
  using assms
  by (auto simp: resolve_hosted_route_def refuse_route_def hosted_execution_armed_def Let_def
      split: option.splits if_splits)

text \<open>
  A hosted job is only claimed on proof. A claim of a hosted account's job succeeds only for a
  node-aware worker on the one node that the job, the account and the workspace agree on, with an
  armed, customer-confirmed and customer-authorized workspace whose last observation, at most 300
  seconds old, showed the right account connected and allowed to trade; the worker is handed the
  account's own login and server.
\<close>
theorem claimed_job_is_proven:
  assumes "is_hosted_workspace_account st a"
    and "authorize_hosted_claim st db a job_node aware = Some r" "rt_ok r"
  shows "\<exists>ws t. workspace_of db a = Some ws \<and> aware \<and> job_node = ac_terminal_node a \<and>
    ac_terminal_node a = hs_execution_node ws \<and> job_node \<noteq> None \<and>
    ac_is_active a \<and> ac_disconnected_at a = None \<and> ac_workspace_confirmed_at a \<noteq> None \<and>
    hs_execution_enabled ws \<and> hs_execution_authorized_at ws \<noteq> None \<and>
    hs_connected ws = Some True \<and> hs_account_match ws = Some True \<and> hs_trade_allowed ws = Some True \<and>
    canonical_execution_ready ws \<and> hs_last_decision_at ws = Some t \<and>
    t \<le> st_now st \<and> st_now st \<le> t + 300000000 \<and>
    rt_workspace_uuid r = hs_uuid ws \<and> rt_expected_login r = strip (ac_account_number a) \<and>
    rt_expected_login r \<noteq> '''' \<and> pin_server a = Some (rt_expected_server r)"
proof -
  have r: "resolve_hosted_route st db a = Some r" and j: "job_node = ac_terminal_node a" "aware" "job_node \<noteq> None"
    using assms by (auto simp: authorize_hosted_claim_def is_hosted_workspace_account_def refuse_route_def
        split: option.splits if_splits)
  from r assms(3) obtain ws where ws: "workspace_of db a = Some ws" "rd_eligible (evaluate_workspace st db a)"
    "hs_execution_node ws = ac_terminal_node a" "rt_workspace_uuid r = hs_uuid ws"
    "rt_expected_login r = strip (ac_account_number a)" "strip (ac_account_number a) \<noteq> ''''"
    "pin_server a = Some (rt_expected_server r)" by (rule route_accepted)
  from ws(2) obtain w where w: "workspace_of db a = Some w" "ac_is_active a" "ac_disconnected_at a = None"
    "hs_execution_enabled w" "hs_connected w = Some True" "hs_account_match w = Some True"
    "ac_workspace_confirmed_at a \<noteq> None" "hs_execution_authorized_at w \<noteq> None"
    "hs_trade_allowed w = Some True" "canonical_execution_ready w" "observation_fresh st w"
    by (rule workspace_eligible)
  have "w = ws" using w(1) ws(1) by simp
  moreover obtain t where "hs_last_decision_at w = Some t" "t \<le> st_now st" "st_now st \<le> t + 300000000"
    using w(11) by (auto simp: observation_fresh_def observation_fresh_us_def split: option.splits)
  ultimately show ?thesis using j ws w by auto
qed

lemma newest_mem: "newest ls = Some l \<Longrightarrow> l \<in> set ls"
  by (induction ls arbitrary: l) (auto split: option.splits if_splits)

text \<open>
  Real money needs a valid human authorization. An account that is not cleanly DEMO (live, or with
  a classification that disagrees with its server) is execution-ready or armable only with the live
  flag on and an active, unrevoked authorization of this account whose recorded login and server are
  the current ones; and if that authorization names a strategy assignment, it is still the account's
  only active LIVE assignment, with the sizing that was authorized.
\<close>
theorem live_orders_need_authorization:
  assumes "\<not> is_demo_environment a"
    and "rd_eligible (evaluate_workspace st db a) \<or> fst (arm_preconditions st db a)"
  shows "st_live_execution st \<and> (\<exists>l. l \<in> set (fl_authorizations db) \<and> la_account l = ac_id a \<and>
    la_is_active l \<and> la_revoked_at l = None \<and>
    snapshot_field (la_identity l) ''login'' = fst (current_identity a) \<and> fst (current_identity a) \<noteq> '''' \<and>
    snapshot_field (la_identity l) ''server'' = snd (current_identity a) \<and>
    (case la_assignment l of None \<Rightarrow> la_strategy_snapshot l = []
     | Some i \<Rightarrow> map (\<lambda>r. (sa_id r, sa_sizing r)) (filter (\<lambda>r. sa_account r = ac_id a \<and> sa_is_active r \<and> sa_stage r = stage_live)
                   (fl_assignments db)) = [(i, la_sizing l)]))"
proof -
  have p: "live_execution_permitted st db a"
    using assms by (auto simp: arm_preconditions_def live_execution_permitted_def split: if_splits
        elim: workspace_eligible)
  then obtain l where l: "live_authorization_for db a = Some l"
    "snapshot_field (la_identity l) ''login'' = fst (current_identity a)" "fst (current_identity a) \<noteq> ''''"
    "snapshot_field (la_identity l) ''server'' = snd (current_identity a)" "material_facts_unchanged db l a"
    by (auto simp: live_execution_permitted_def is_live_execution_authorized_def case_prod_beta Let_def
        split: option.splits if_splits)
  have mem: "l \<in> set (fl_authorizations db) \<and> la_account l = ac_id a \<and> la_is_active l \<and> la_revoked_at l = None"
    using newest_mem [OF l(1) [unfolded live_authorization_for_def]] by simp
  let ?as = "filter (\<lambda>r. sa_account r = ac_id a \<and> sa_is_active r \<and> sa_stage r = stage_live) (fl_assignments db)"
  have "map (\<lambda>r. (sa_id r, sa_sizing r)) ?as = [(i, la_sizing l)]" if i: "la_assignment l = Some i" for i
  proof -
    from l(5) i obtain r where r: "find (\<lambda>r. sa_id r = i) (fl_assignments db) = Some r" "sa_is_active r"
      "sa_account r = ac_id a" "sa_stage r = stage_live" "map sa_id ?as = [sa_id r]" "sa_sizing r = la_sizing l"
      by (auto simp: material_facts_unchanged_def split: option.splits)
    then have "r \<in> set ?as" "sa_id r = i" by (auto dest: find_SomeD)
    moreover from r(5) obtain x where "?as = [x]" by (cases ?as) auto
    ultimately show ?thesis using r(6) by simp
  qed
  then show ?thesis using p l mem
    by (auto simp: live_execution_permitted_def material_facts_unchanged_def split: option.splits)
qed

text \<open>
  Under the supervised posture a second tenant on the node stops everything. While isolation is not
  certified and the supervised flag is on, a workspace whose node also serves another active account
  or another workspace is neither execution-ready nor armable, and its account has no route.
\<close>
theorem second_tenant_stops_execution:
  assumes "\<not> st_isolation_certified st" "st_supervised st"
    and "workspace_of db a = Some ws" "hs_execution_node ws = Some n"
    and "(\<exists>b. b \<in> set (fl_accounts db) \<and> ac_terminal_node b = Some n \<and> ac_is_active b \<and> ac_id b \<noteq> ac_id a) \<or>
      (\<exists>w. w \<in> set (fl_workspaces db) \<and> n \<in> set_option (hs_execution_node w) \<union> set_option (hs_workspace_node w) \<and>
           hs_account_id w \<noteq> ac_id a)"
  shows "\<not> rd_eligible (evaluate_workspace st db a) \<and> \<not> fst (arm_preconditions st db a) \<and>
    list_all (\<lambda>r. \<not> rt_ok r) (case resolve_hosted_route st db a of None \<Rightarrow> [] | Some r \<Rightarrow> [r])"
proof -
  have id: "hs_account_id ws = ac_id a" using workspace_of_mem [OF assms(3)] by simp
  have "\<not> supervised_single_tenant_beta_active st db ws"
  proof
    assume s: "supervised_single_tenant_beta_active st db ws"
    then obtain acc node where acc: "account_of db ws = Some acc" "node_of db (hs_execution_node ws) = Some node"
      "node_is_single_tenant_for db node (ac_id acc)"
      by (auto simp: supervised_single_tenant_beta_active_def split: option.splits if_splits)
    then have e: "ac_id acc = ac_id a" "en_id node = n"
      using id assms(4) by (auto simp: account_of_def node_of_def dest: find_SomeD)
    from assms(5) show False
    proof (elim disjE exE conjE)
      fix b
      assume "b \<in> set (fl_accounts db)" "ac_terminal_node b = Some n" "ac_is_active b" "ac_id b \<noteq> ac_id a"
      with acc(3) e show False by (auto simp: node_is_single_tenant_for_def list_ex_iff split: if_splits)
    next
      fix w
      assume "w \<in> set (fl_workspaces db)" "hs_account_id w \<noteq> ac_id a"
        "n \<in> set_option (hs_execution_node w) \<union> set_option (hs_workspace_node w)"
      with acc(3) e show False by (auto simp: node_is_single_tenant_for_def list_ex_iff split: if_splits)
    qed
  qed
  then have np: "\<not> execution_permitted_under_posture st db ws"
    using assms(1,2) by (simp add: execution_permitted_under_posture_def)
  have ne: "\<not> rd_eligible (evaluate_workspace st db a)"
    using np assms(3) by (auto elim: workspace_eligible)
  moreover have "\<not> fst (arm_preconditions st db a)"
    using np assms(3) by (auto simp: arm_preconditions_def split: if_splits)
  moreover have "\<not> rt_ok r" if "resolve_hosted_route st db a = Some r" for r
    using that ne by (auto elim: route_accepted)
  ultimately show ?thesis by (auto split: option.split)
qed

section \<open>Arming and dispatch agree\<close>

lemma put_workspace_of:
  assumes "workspace_of db a = Some ws" "hs_account_id ws' = hs_account_id ws"
  shows "workspace_of (put_workspace ws' db) a = Some ws'"
proof -
  have "find (\<lambda>w. hs_account_id w = ac_id a) (map (\<lambda>x. if hs_account_id x = ac_id a then ws' else x) xs) =
      map_option (\<lambda>_. ws') (find (\<lambda>w. hs_account_id w = ac_id a) xs)" if "hs_account_id ws' = ac_id a" for xs
    using that by (induction xs) auto
  then show ?thesis
    using workspace_of_mem [OF assms(1)] assms by (simp add: workspace_of_def put_workspace_def)
qed

text \<open>A change that keeps the nodes of the rows keeps every check that looks at other tenants.\<close>

lemma put_workspace_frame:
  assumes "workspace_of db a = Some ws" "distinct (map hs_account_id (fl_workspaces db))"
    and s: "hs_account_id ws' = hs_account_id ws" "hs_execution_node ws' = hs_execution_node ws"
      "hs_workspace_node ws' = hs_workspace_node ws"
  shows "execution_permitted_under_posture st (put_workspace ws' db) ws' = execution_permitted_under_posture st db ws"
    and "is_live_execution_authorized (put_workspace ws' db) b = is_live_execution_authorized db b"
proof -
  let ?db = "put_workspace ws' db"
  have t: "fl_accounts ?db = fl_accounts db" "fl_nodes ?db = fl_nodes db"
    "fl_authorizations ?db = fl_authorizations db" "fl_assignments ?db = fl_assignments db"
    by (simp_all add: put_workspace_def)
  have ws: "ws \<in> set (fl_workspaces db)" using workspace_of_mem [OF assms(1)] by simp
  have m: "map (\<lambda>w. (hs_account_id w, hs_execution_node w, hs_workspace_node w)) (fl_workspaces ?db) =
      map (\<lambda>w. (hs_account_id w, hs_execution_node w, hs_workspace_node w)) (fl_workspaces db)"
    using assms(2) ws s by (auto simp: put_workspace_def distinct_map dest: inj_onD)
  have ex: "list_ex (\<lambda>w. Q (hs_account_id w) (hs_execution_node w) (hs_workspace_node w)) (fl_workspaces ?db) =
      list_ex (\<lambda>w. Q (hs_account_id w) (hs_execution_node w) (hs_workspace_node w)) (fl_workspaces db)" for Q
    using arg_cong [OF m, of "list_ex (\<lambda>(i, e, d). Q i e d)"] by (simp add: list_ex_iff)
  have cc: "concat (map (\<lambda>w. F (hs_account_id w) (hs_execution_node w) (hs_workspace_node w)) (fl_workspaces ?db)) =
      concat (map (\<lambda>w. F (hs_account_id w) (hs_execution_node w) (hs_workspace_node w)) (fl_workspaces db))"
    for F :: "int \<Rightarrow> int option \<Rightarrow> int option \<Rightarrow> int list"
    using arg_cong [OF m, of "\<lambda>xs. concat (map (\<lambda>(i, e, d). F i e d) xs)"] by (simp add: o_def)
  have f: "forbidden_execution_node_ids st ?db = forbidden_execution_node_ids st db"
    using cc [of "\<lambda>i e d. if is_customer_zero_account i then (case e of Some n \<Rightarrow> [n] | None \<Rightarrow> []) @
        (case d of Some n \<Rightarrow> [n] | None \<Rightarrow> []) else []"]
    by (simp add: forbidden_execution_node_ids_def t Let_def)
  have n: "node_is_single_tenant_for ?db node i = node_is_single_tenant_for db node i" for node i
    using ex [of "\<lambda>j e d. (e = Some (en_id node) \<or> d = Some (en_id node)) \<and> j \<noteq> i"]
    by (simp add: node_is_single_tenant_for_def t)
  have an: "account_of ?db ws' = account_of db ws" "node_of ?db (hs_execution_node ws') = node_of db (hs_execution_node ws)"
    unfolding account_of_def node_of_def t s by (rule refl)+
  show "execution_permitted_under_posture st ?db ws' = execution_permitted_under_posture st db ws"
    unfolding execution_permitted_under_posture_def supervised_single_tenant_beta_active_def an f n ..
  show "is_live_execution_authorized ?db b = is_live_execution_authorized db b"
    unfolding is_live_execution_authorized_def live_authorization_for_def material_facts_unchanged_def t ..
qed

text \<open>
  Arming and dispatch agree. Right after a successful arm the readiness of the account is decided
  by one remaining fact: it is execution-ready if the customer has confirmed the account, and is
  refused as unconfirmed otherwise.
\<close>
theorem arm_then_dispatch:
  assumes "arm_hosted_workspace_execution st a db = ((True, reason), db')"
    and "distinct (map hs_account_id (fl_workspaces db))"
  shows "evaluate_readiness st db' a =
    (if ac_workspace_confirmed_at a \<noteq> None
     then \<lparr>rd_eligible = True, rd_reason = ''ok'', rd_provider = persistent_workspace\<rparr>
     else \<lparr>rd_eligible = False, rd_reason = ''workspace_account_not_confirmed'',
           rd_provider = persistent_workspace\<rparr>)"
proof -
  from assms(1) have pre: "fst (arm_preconditions st db a)"
    by (auto simp: arm_hosted_workspace_execution_def Let_def split: if_splits)
  then obtain ws where ws: "workspace_of db a = Some ws" "ac_readiness_provider a = persistent_workspace"
    "st_hosted st" "st_execution st" "ac_is_active a" "ac_disconnected_at a = None"
    "is_demo_environment a \<or> (st_live_execution st \<and> is_live_execution_authorized db a)"
    "execution_permitted_under_posture st db ws" "hs_connected ws = Some True" "hs_account_match ws = Some True"
    "hs_trade_allowed ws = Some True" "canonical_execution_ready ws" "observation_fresh st ws"
    "hs_execution_authorized_at ws \<noteq> None"
    by (auto simp: arm_preconditions_def split: if_splits option.splits)
  let ?ws = "ws\<lparr>hs_execution_enabled := True, hs_auto_arm_suppressed := False\<rparr>"
  from assms(1) pre ws(1) have db': "db' = put_workspace ?ws db"
    by (auto simp: arm_hosted_workspace_execution_def Let_def)
  have wo: "workspace_of db' a = Some ?ws" unfolding db' by (rule put_workspace_of [OF ws(1)]) simp
  have p: "execution_permitted_under_posture st db' ?ws" "is_live_execution_authorized db' a = is_live_execution_authorized db a"
    unfolding db' using put_workspace_frame [OF ws(1) assms(2), of ?ws] ws(8) by simp_all
  have o: "observation_fresh st ?ws" "canonical_execution_ready ?ws"
    using ws(12,13) by (simp_all add: observation_fresh_def canonical_execution_ready_def)
  show ?thesis
    using ws p wo o by (simp add: evaluate_readiness_def evaluate_workspace_def workspace_verdict_def)
qed

section \<open>The injected pin\<close>

lemma map_of_dict_put: "map_of (dict_put k v d) x = (if x = k then Some v else map_of d x)"
  by (induction k v d rule: dict_put.induct) auto

lemma map_of_dict_setdefault:
  "map_of (dict_setdefault k v d) x =
     (if x = k then (case map_of d k of None \<Rightarrow> Some v | Some u \<Rightarrow> Some u) else map_of d x)"
  by (induction k v d rule: dict_setdefault.induct) auto

text \<open>
  A hosted order is never sent unpinned or under a foreign Windows identity. Whatever the caller
  put in the payload of a hosted account's job, the stored payload requires the identity pin and
  carries the server-derived Windows user, which is empty or belongs to a provisioned
  non-administrator profile of this account; expected login, server and class are filled in when the
  caller gave none, and every other entry is untouched.
\<close>
theorem injected_pin_is_enforced:
  assumes "is_hosted_workspace_account st a"
    and "inject_identity_pin st profiles a payload = Some p"
  shows "map_of p ''require_identity_pin'' = Some (JBool True) \<and>
    map_of p ''windows_username'' = Some (JStr (hosted_windows_username_for st profiles a)) \<and>
    (hosted_windows_username_for st profiles a = '''' \<or>
     (\<exists>prof. prof \<in> set profiles \<and> ip_account prof = ac_id a \<and> ip_status prof = ''PROVISIONED'' \<and>
        \<not> ip_is_admin prof \<and> strip (ip_windows_username prof) = hosted_windows_username_for st profiles a)) \<and>
    map_of p ''expected_login'' =
      (case map_of payload ''expected_login'' of None \<Rightarrow> Some (JStr (strip (ac_account_number a))) | v \<Rightarrow> v) \<and>
    map_of p ''is_demo'' = (case map_of payload ''is_demo'' of None \<Rightarrow> Some (JBool (ac_is_demo a)) | v \<Rightarrow> v) \<and>
    map_of (filter (\<lambda>(k, _). k \<notin> {''require_identity_pin'', ''windows_username'', ''expected_login'',
                              ''expected_server'', ''is_demo''}) p) =
    map_of (filter (\<lambda>(k, _). k \<notin> {''require_identity_pin'', ''windows_username'', ''expected_login'',
                              ''expected_server'', ''is_demo''}) payload)"
proof -
  from assms obtain server where p: "p = fold inject_key
      [(''require_identity_pin'', JBool True), (''expected_login'', JStr (strip (ac_account_number a))),
       (''expected_server'', JStr server), (''is_demo'', JBool (ac_is_demo a)),
       (''windows_username'', JStr (hosted_windows_username_for st profiles a))] payload"
    by (auto simp: inject_identity_pin_def identity_pin_for_def is_hosted_workspace_account_def
        split: option.splits)
  have m: "map_of (filter (\<lambda>(k, _). k \<notin> K) d) x = (if x \<in> K then None else map_of d x)"
    for K x and d :: "(string \<times> json) list" by (induction d) auto
  have w: "hosted_windows_username_for st profiles a = '''' \<or>
     (\<exists>prof. prof \<in> set profiles \<and> ip_account prof = ac_id a \<and> ip_status prof = ''PROVISIONED'' \<and>
        \<not> ip_is_admin prof \<and> strip (ip_windows_username prof) = hosted_windows_username_for st profiles a)"
    unfolding hosted_windows_username_for_def by (auto split: option.splits dest: find_SomeD)
  have q: "map_of p x =
      (if x = ''windows_username'' then Some (JStr (hosted_windows_username_for st profiles a))
       else if x = ''is_demo'' then (case map_of payload x of None \<Rightarrow> Some (JBool (ac_is_demo a)) | v \<Rightarrow> v)
       else if x = ''expected_server'' then (case map_of payload x of None \<Rightarrow> Some (JStr server) | v \<Rightarrow> v)
       else if x = ''expected_login'' then (case map_of payload x of None \<Rightarrow> Some (JStr (strip (ac_account_number a))) | v \<Rightarrow> v)
       else if x = ''require_identity_pin'' then Some (JBool True) else map_of payload x)" for x
    unfolding p by (simp add: inject_key_def map_of_dict_put map_of_dict_setdefault split: option.splits)
  let ?K = "{''require_identity_pin'', ''windows_username'', ''expected_login'', ''expected_server'', ''is_demo''}"
  have f: "map_of (filter (\<lambda>(k, _). k \<notin> ?K) p) = map_of (filter (\<lambda>(k, _). k \<notin> ?K) payload)"
    by (rule ext) (unfold m q, simp)
  show ?thesis by (intro conjI w f) (simp_all add: q)
qed

section \<open>The idempotency key\<close>

lemma split_at_unique:
  "c \<notin> set x \<Longrightarrow> c \<notin> set y \<Longrightarrow> x @ c # r = y @ c # s \<Longrightarrow> x = y \<and> r = s"
proof (induction x arbitrary: y)
  case Nil
  then show ?case by (cases y) auto
next
  case (Cons a x)
  then show ?case by (cases y) auto
qed

lemma join_with_bar_inj:
  assumes "length xs = length ys" "list_all (\<lambda>x. CHR ''|'' \<notin> set x) xs" "list_all (\<lambda>y. CHR ''|'' \<notin> set y) ys"
    and "join_with ''|'' xs = join_with ''|'' ys"
  shows "xs = ys"
  using assms
proof (induction xs ys rule: list_induct2)
  case (Cons x xs y ys)
  show ?case
  proof (cases xs)
    case Nil
    with Cons show ?thesis by simp
  next
    case c: (Cons x' xs')
    then obtain y' ys' where d: "ys = y' # ys'" using Cons.hyps by (cases ys) auto
    from Cons.prems c d have "x @ CHR ''|'' # join_with ''|'' xs = y @ CHR ''|'' # join_with ''|'' ys" by simp
    with Cons.prems have "x = y \<and> join_with ''|'' xs = join_with ''|'' ys"
      by (intro split_at_unique) simp_all
    with Cons show ?thesis by simp
  qed
qed simp

lemma strip_subset: "set (strip s) \<subseteq> set s"
  unfolding strip_def by (auto dest!: set_dropWhileD)

lemma map2_append_inj:
  "length ps = length xs \<Longrightarrow> length xs = length ys \<Longrightarrow> map2 (@) ps xs = map2 (@) ps ys \<Longrightarrow> xs = ys"
  by (induction ps xs ys rule: list_induct3) auto

lemma map2_bar_free:
  assumes "list_all (\<lambda>x. CHR ''|'' \<notin> set x) ps" "list_all (\<lambda>x. CHR ''|'' \<notin> set x) zs"
  shows "list_all (\<lambda>x. CHR ''|'' \<notin> set x) (map2 (@) ps (map strip zs))"
  using assms
proof (induction ps arbitrary: zs)
  case (Cons p ps)
  show ?case
  proof (cases zs)
    case c: (Cons z zs')
    have "CHR ''|'' \<notin> set (strip z)" using Cons.prems c strip_subset [of z] by auto
    with Cons c show ?thesis by simp
  qed simp
qed simp

lemma key_text_inj:
  assumes "length xs = 6" "length ys = 6"
    and "list_all (\<lambda>x. CHR ''|'' \<notin> set x) xs" "list_all (\<lambda>y. CHR ''|'' \<notin> set y) ys"
    and "key_text xs = key_text ys"
  shows "map strip xs = map strip ys"
proof -
  have l: "length key_labels = 6" "list_all (\<lambda>x. CHR ''|'' \<notin> set x) key_labels"
    by (simp_all add: key_labels_def)
  have b: "list_all (\<lambda>x. CHR ''|'' \<notin> set x) (map2 (@) key_labels (map strip zs))"
    if "list_all (\<lambda>x. CHR ''|'' \<notin> set x) zs" for zs
    by (rule map2_bar_free [OF l(2) that])
  have "map2 (@) key_labels (map strip xs) = map2 (@) key_labels (map strip ys)"
    by (rule join_with_bar_inj [OF _ b [OF assms(3)] b [OF assms(4)] assms(5) [unfolded key_text_def]])
      (simp only: length_map length_zip assms l)
  from map2_append_inj [OF _ _ this] show ?thesis by (simp only: length_map assms l)
qed

text \<open>
  The idempotency key identifies the execution attempt, up to its separator. For components without
  a vertical bar, equal keys mean equal components up to surrounding white space, or two texts whose
  SHA-256 agrees in its first 32 digits. The separator is not escaped: two different attempts whose
  login or server contains a bar get the same key with any hash.
\<close>
theorem idempotency_key_identifies:
  assumes "length xs = 6" "length ys = 6"
    and "list_all (\<lambda>x. CHR ''|'' \<notin> set x) xs" "list_all (\<lambda>y. CHR ''|'' \<notin> set y) ys"
    and "hosted_idempotency_key sha xs = hosted_idempotency_key sha ys"
  shows "(map strip xs = map strip ys \<or>
      (\<exists>t u. t \<noteq> u \<and> take 32 (sha t) = take 32 (sha u))) \<and>
    hosted_idempotency_key sha [w, ''1|server=A'', ''B'', j, p, s] =
    hosted_idempotency_key sha [w, ''1'', ''A|server=B'', j, p, s]"
proof
  show "map strip xs = map strip ys \<or> (\<exists>t u. t \<noteq> u \<and> take 32 (sha t) = take 32 (sha u))"
    using assms key_text_inj [OF assms(1-4)] by (auto simp: hosted_idempotency_key_def)
  have "key_text [w, ''1|server=A'', ''B'', j, p, s] = key_text [w, ''1'', ''A|server=B'', j, p, s]"
    by (simp add: key_text_def key_labels_def) (simp add: strip_def is_space_def)
  then show "hosted_idempotency_key sha [w, ''1|server=A'', ''B'', j, p, s] =
      hosted_idempotency_key sha [w, ''1'', ''A|server=B'', j, p, s]"
    by (simp add: hosted_idempotency_key_def)
qed

section \<open>Concrete instances\<close>

definition demo_account :: trading_account where
  "demo_account = \<lparr>ac_id = 7, ac_user = 3, ac_is_active = True, ac_is_demo = True, ac_disconnected_at = None,
     ac_password_enc = '''', ac_validation_status = VsNever, ac_readiness_provider = persistent_workspace,
     ac_account_number = ''77'', ac_server = Server \<lparr>bs_server_name = ''Broker-Demo'', bs_environment = ''demo''\<rparr>,
     ac_workspace_confirmed_at = Some 1, ac_terminal_node = Some 4\<rparr>"

definition demo_live_account :: trading_account where
  "demo_live_account = demo_account\<lparr>ac_is_demo := False,
     ac_server := Server \<lparr>bs_server_name = ''Broker-Live'', bs_environment = ''live''\<rparr>\<rparr>"

definition demo_ready_ws :: hosted_ws where
  "demo_ready_ws = (new_hosted_ws ''w'' 7)\<lparr>hs_canonical_state := WsExecutionReady, hs_connected := Some True,
     hs_account_match := Some True, hs_trade_allowed := Some True, hs_last_decision_at := Some 100,
     hs_execution_authorized_at := Some 50, hs_execution_node := Some 4, hs_workspace_node := Some 4\<rparr>"

definition demo_fleet :: fleet where
  "demo_fleet = \<lparr>fl_accounts = [demo_account], fl_workspaces = [demo_ready_ws],
     fl_nodes = [\<lparr>en_id = 4, en_rdp_host = ''h'', en_status = NodeActive\<rparr>],
     fl_authorizations = [\<lparr>la_account = 7, la_is_active = True, la_revoked_at = None,
       la_identity = [(''login'', JStr ''77''), (''server'', JStr ''Broker-Live'')], la_assignment = None,
       la_strategy_snapshot = [], la_sizing = None, la_created_at = 1\<rparr>],
     fl_assignments = []\<rparr>"

definition demo_settings :: exec_settings where
  "demo_settings = \<lparr>st_gate = True, st_health = True, st_hosted = True, st_execution = True,
     st_monitoring = True, st_live_execution = True, st_isolation_certified = False, st_supervised = False,
     st_node_isolation = False, st_forbidden_hosts = [], st_now = 200\<rparr>"

theorem armed_only_when_authorized_witness:
  "\<exists>ws. ws \<in> set (fl_workspaces (hosted_run [OpArm demo_settings demo_account] demo_fleet)) \<and>
     hs_execution_enabled ws \<and> hs_execution_authorized_at ws \<noteq> None"
proof -
  have n: "list_all (\<lambda>ws. \<not> hs_execution_enabled ws) (fl_workspaces demo_fleet)" by code_simp
  have "list_ex (\<lambda>ws. hs_execution_enabled ws)
      (fl_workspaces (hosted_run [OpArm demo_settings demo_account] demo_fleet))" by code_simp
  then obtain ws where "ws \<in> set (fl_workspaces (hosted_run [OpArm demo_settings demo_account] demo_fleet))"
    "hs_execution_enabled ws" by (auto simp: list_ex_iff)
  with armed_only_when_authorized [OF n this] show ?thesis by blast
qed

definition demo_disarmed_run :: fleet where
  "demo_disarmed_run = hosted_run [OpAutoArm demo_settings, OpAutoArm demo_settings]
     (snd (disarm_hosted_workspace_execution demo_account demo_fleet))"

theorem disarm_sticks_witness:
  "map hs_execution_enabled (fl_workspaces demo_disarmed_run) = [False]"
proof -
  have d: "workspace_of demo_fleet demo_account \<noteq> None" by code_simp
  have l: "map hs_account_id (fl_workspaces demo_disarmed_run) = [7]" by code_simp
  then obtain ws where ws: "fl_workspaces demo_disarmed_run = [ws]" "hs_account_id ws = 7"
    by (cases "fl_workspaces demo_disarmed_run") auto
  have "\<not> hs_execution_enabled ws"
    by (rule disarm_sticks [OF d, of "[OpAutoArm demo_settings, OpAutoArm demo_settings]"])
      (use ws in \<open>simp_all add: demo_disarmed_run_def [symmetric]\<close>, simp add: demo_account_def)
  with ws show ?thesis by simp
qed

definition demo_armed :: fleet where
  "demo_armed = snd (arm_hosted_workspace_execution demo_settings demo_account demo_fleet)"

theorem claimed_job_is_proven_witness:
  "\<exists>r. authorize_hosted_claim demo_settings demo_armed demo_account (Some 4) True = Some r \<and>
     rt_expected_login r = ''77''"
proof -
  have h: "is_hosted_workspace_account demo_settings demo_account" by code_simp
  have "map_option rt_ok (authorize_hosted_claim demo_settings demo_armed demo_account (Some 4) True) = Some True"
    by code_simp
  then obtain r where r: "authorize_hosted_claim demo_settings demo_armed demo_account (Some 4) True = Some r" "rt_ok r"
    by auto
  have "strip (ac_account_number demo_account) = ''77''" by code_simp
  with claimed_job_is_proven [OF h r] r(1) show ?thesis by auto
qed

theorem live_orders_need_authorization_witness:
  "\<exists>l. l \<in> set (fl_authorizations demo_fleet) \<and> la_account l = ac_id demo_live_account \<and> la_is_active l"
proof -
  have n: "\<not> is_demo_environment demo_live_account" by code_simp
  have "fst (arm_preconditions demo_settings demo_fleet demo_live_account)" by code_simp
  with live_orders_need_authorization [OF n disjI2, of demo_settings demo_fleet] show ?thesis by blast
qed

theorem second_tenant_stops_execution_witness:
  "\<not> rd_eligible (evaluate_workspace (demo_settings\<lparr>st_supervised := True\<rparr>)
     (demo_armed\<lparr>fl_accounts := [demo_account, demo_account\<lparr>ac_id := 8\<rparr>]\<rparr>) demo_account)"
proof -
  let ?db = "demo_armed\<lparr>fl_accounts := [demo_account, demo_account\<lparr>ac_id := 8\<rparr>]\<rparr>"
  have "map_option hs_execution_node (workspace_of ?db demo_account) = Some (Some 4)" by code_simp
  then obtain ws where ws: "workspace_of ?db demo_account = Some ws" "hs_execution_node ws = Some 4" by auto
  show ?thesis
    by (rule conjunct1 [OF second_tenant_stops_execution [OF _ _ ws]])
      (simp_all add: demo_settings_def, rule disjI1, rule exI [of _ "demo_account\<lparr>ac_id := 8\<rparr>"],
       simp add: demo_account_def)
qed

theorem arm_then_dispatch_witness:
  "rd_eligible (evaluate_readiness demo_settings demo_armed demo_account)"
proof -
  have "fst (arm_hosted_workspace_execution demo_settings demo_account demo_fleet) = (True, ''armed'')" by code_simp
  then have "arm_hosted_workspace_execution demo_settings demo_account demo_fleet = ((True, ''armed''), demo_armed)"
    by (simp add: demo_armed_def prod_eq_iff)
  from arm_then_dispatch [OF this] show ?thesis by (simp add: demo_fleet_def demo_account_def)
qed

theorem injected_pin_is_enforced_witness:
  "\<exists>p. inject_identity_pin demo_settings [] demo_account [(''require_identity_pin'', JBool False)] = Some p \<and>
     map_of p ''require_identity_pin'' = Some (JBool True)"
proof -
  have h: "is_hosted_workspace_account demo_settings demo_account" by code_simp
  have "inject_identity_pin demo_settings [] demo_account [(''require_identity_pin'', JBool False)] \<noteq> None"
    by code_simp
  with injected_pin_is_enforced [OF h] show ?thesis by blast
qed

theorem idempotency_key_identifies_witness:
  "map strip [''w'', ''1'', ''S'', ''5'', ''OPEN'', '' ''] = map strip [''w'', ''1'', ''S'', ''5'', ''OPEN'', ''''] \<or>
   (\<exists>t u. t \<noteq> u \<and> take 32 (id t :: string) = take 32 (id u))"
proof -
  have "hosted_idempotency_key id [''w'', ''1'', ''S'', ''5'', ''OPEN'', '' ''] =
      hosted_idempotency_key id [''w'', ''1'', ''S'', ''5'', ''OPEN'', '''']" by code_simp
  from idempotency_key_identifies [OF _ _ _ _ this] show ?thesis by simp
qed

end
