(* ===== verification/SignalTables.thy ===== *)
theory SignalTables
  imports RuntimePause HostedExecution
begin

text \<open>
  The tables of the signal pipeline (\<^verbatim>\<open>execution/models.py\<close>, \<^verbatim>\<open>signal_intake/models.py\<close>,
  \<^verbatim>\<open>strategies/models.py\<close>, \<^verbatim>\<open>trading/models.py\<close>) as lists of records, the environment a pass of
  the pipeline reads (flags, clock, caps, the bridge's \<open>order_check\<close>), the kill switch, the
  symbol registry (\<^verbatim>\<open>execution/broker_symbols.py\<close>) and the guards of \<open>ExecutionJob.save\<close>. Decimals
  are rationals, times are microseconds.
\<close>

section \<open>Rows\<close>

datatype signal_mode = ModeShadow | ModeDemo | ModeOther string

record control =
  xc_kill_switch :: bool
  xc_proposals_enabled :: bool
  xc_mode :: signal_mode
  xc_auto_enabled :: bool

definition default_control :: control where
  "default_control = \<lparr>xc_kill_switch = False, xc_proposals_enabled = True, xc_mode = ModeShadow,
                      xc_auto_enabled = False\<rparr>"

record source_config =
  cf_source :: string
  cf_enabled :: bool
  cf_total_lot_target :: rat
  cf_max_lot_per_leg :: rat
  cf_max_total_lot :: rat
  cf_daily_group_cap :: nat
  cf_command_engine :: bool
  cf_incremental :: bool

datatype assignment_mode = AmManual | AmAutoShadow | AmAutoDemo | AmAutoLive

text \<open>The routing columns of a \<open>StrategyAssignment\<close>, with its \<open>AssignmentLegSizing\<close> row.\<close>

record auto_assignment =
  aa_id :: int
  aa_account :: int
  aa_is_active :: bool
  aa_stage :: string
  aa_mode :: assignment_mode
  aa_source :: string
  aa_magic :: "int option"
  aa_lot_per_leg :: "rat option"

record instrument =
  bi_account :: int
  bi_broker_symbol :: string
  bi_base_symbol :: string
  bi_enabled :: bool
  bi_metadata :: json

datatype approval_status = ApPending | ApApproved | ApRejected | ApExpired | ApQuarantined

record approval =
  ap_id :: nat
  ap_source :: string
  ap_chat_id :: string
  ap_message_id :: string
  ap_symbol :: string
  ap_direction :: string
  ap_entry :: string
  ap_stop_loss :: string
  ap_take_profits :: "string list"
  ap_raw_payload :: "(string \<times> json) list"
  ap_correlation_id :: string
  ap_provider :: "string option"
  ap_status :: approval_status
  ap_source_edited :: bool
  ap_created_at :: int

datatype plan_status = PlPlanned | PlHeld | PlVoided | PlSuperseded | PlPromoted | PlClosed

record plan =
  pl_id :: nat
  pl_approval :: nat
  pl_account :: int
  pl_assignment :: "int option"
  pl_source :: string
  pl_chat_id :: string
  pl_message_id :: string
  pl_symbol :: string
  pl_direction :: string
  pl_stop_loss :: string
  pl_total_lot :: rat
  pl_is_demo :: bool
  pl_environment :: string
  pl_signal_timestamp :: "int option"
  pl_status :: plan_status
  pl_hold_reason :: string
  pl_correlation_id :: string
  pl_created_at :: int

datatype leg_status = LgPlanned | LgHeld | LgVoided | LgPromoted

datatype protection_stage = StageInitial | StageBreakeven | StageTp2Locked

record leg =
  lg_plan :: nat
  lg_index :: nat
  lg_take_profit :: string
  lg_stop_loss :: string
  lg_lot :: rat
  lg_status :: leg_status
  lg_job :: "nat option"
  lg_breakeven_job :: "nat option"
  lg_attempts :: nat
  lg_applied_at :: "int option"
  lg_stage :: protection_stage

datatype job_type =
    TestConnection | OpenTrade | CloseTrade | SyncPositions | PlaceTestOrder | PlaceOrder
  | ModifyPosition | PartialCloseTrade | PlaceOrderShadow

datatype job_status = JbPending | JbRunning | JbSuccess | JbFailed

record job =
  jb_id :: nat
  jb_type :: job_type
  jb_account :: int
  jb_node :: "int option"
  jb_assignment :: "int option"
  jb_payload :: "(string \<times> json) list"
  jb_status :: job_status
  jb_worker :: string
  jb_started :: bool
  jb_result :: "(string \<times> json) list"
  jb_error :: string
  jb_created_at :: int
  jb_lease :: "int option"
  jb_hosted_uuid :: string

record trade =
  td_account :: int
  td_ticket :: string
  td_symbol :: string
  td_volume :: rat
  td_open_time :: int
  td_close_time :: "int option"
  td_open_price :: rat
  td_close_price :: "rat option"
  td_profit :: rat
  td_comment :: string
  td_assignment :: "int option"

text \<open>The audit tables keep the event, the plan, the approval and the code of the detail.\<close>

record pipeline_audit =
  ad_event :: string
  ad_plan :: "nat option"
  ad_approval :: "nat option"
  ad_code :: string

text \<open>Alerts are known by their dedup key.\<close>

record alert =
  al_key :: string
  al_severity :: string
  al_open :: bool

datatype command_type =
    MoveSlBe | MoveSlPrice | CloseAll | CloseLeg | CancelSignal | NonActionable | AmbiguousCommand | UnknownCommand

datatype command_status = CmPending | CmApplied | CmRejected | CmAmbiguous | CmSkipped | CmHeld

record provider_command =
  cm_id :: nat
  cm_provider :: string
  cm_chat_id :: string
  cm_message_id :: string
  cm_reply_to :: string
  cm_type :: command_type
  cm_args :: "(string \<times> json) list"
  cm_status :: command_status
  cm_processed :: bool
  cm_result :: "(string \<times> json) list"
  cm_created_at :: int

record pipe_db =
  db_control :: "control option"
  db_configs :: "source_config list"
  db_assignments :: "auto_assignment list"
  db_instruments :: "instrument list"
  db_approvals :: "approval list"
  db_plans :: "plan list"
  db_legs :: "leg list"
  db_jobs :: "job list"
  db_trades :: "trade list"
  db_audit :: "pipeline_audit list"
  db_alerts :: "alert list"
  db_commands :: "provider_command list"
  db_next_plan :: nat
  db_next_job :: nat

section \<open>Environment\<close>

text \<open>
  \<open>pe_margin_projection\<close> is the margin mode and the decision time of the account's workspace row.
  What the bridge answers to \<open>order_check\<close> for one leg: the equity, the margin of the leg and the
  free margin after it. \<open>None\<close> in a field is a missing one; no answer at all is \<open>None\<close> outside.
\<close>

record order_check =
  oc_equity :: "rat option"
  oc_margin :: "rat option"
  oc_free_margin :: "rat option"

record risk_caps =
  rc_account_exposure :: rat
  rc_symbol_exposure :: rat
  rc_open_positions :: nat
  rc_daily_drawdown :: rat
  rc_margin_floor :: rat
  rc_margin_guard :: bool
  rc_concurrent_groups :: nat

record pipe_env =
  pe_settings :: exec_settings
  pe_fleet :: fleet
  pe_health :: "int \<Rightarrow> health_contract option"
  pe_profiles :: "isolation_profile list"
  pe_mt5_username :: "int \<Rightarrow> string option"
  pe_globally_disabled :: bool
  pe_stop_gate :: bool
  pe_chat_aware :: bool
  pe_dual_write :: bool
  pe_magic_send :: bool
  pe_symbol_conflict :: bool
  pe_strict_symbols :: bool
  pe_multi_account :: bool
  pe_require_node :: bool
  pe_caps :: risk_caps
  pe_today_start :: int
  pe_parse_datetime :: "string \<Rightarrow> int option"
  pe_new_correlation :: string
  pe_order_check :: "plan \<Rightarrow> leg \<Rightarrow> order_check option"
  pe_margin_projection :: "int \<Rightarrow> (json \<times> int option) option"

abbreviation pe_now :: "pipe_env \<Rightarrow> int" where
  "pe_now env \<equiv> st_now (pe_settings env)"

definition account_by_id :: "pipe_env \<Rightarrow> int \<Rightarrow> trading_account option" where
  "account_by_id env i = find (\<lambda>a. ac_id a = i) (fl_accounts (pe_fleet env))"

section \<open>Safety constants\<close>

definition signal_max_lot_size :: rat where "signal_max_lot_size = 2 / 100"
definition max_plan_legs :: nat where "max_plan_legs = 3"
definition lot_step :: rat where "lot_step = 1 / 100"
definition max_total_lot_per_signal :: rat where "max_total_lot_per_signal = 6 / 100"
definition signal_max_age_us :: int where "signal_max_age_us = 120 * 1000000"
definition signal_allowed_symbols :: "string list" where
  "signal_allowed_symbols = [''EURUSD'', ''GBPUSD'', ''XAUUSD'']"

definition sizing_caps :: "pipe_db \<Rightarrow> string \<Rightarrow> rat \<times> rat" where
  "sizing_caps db s =
     (case find (\<lambda>c. cf_source c = s) (db_configs db) of
        None \<Rightarrow> (signal_max_lot_size, max_total_lot_per_signal)
      | Some c \<Rightarrow> (cf_max_lot_per_leg c, cf_max_total_lot c))"

section \<open>Kill switch\<close>

definition get_solo :: "pipe_db \<Rightarrow> control" where
  "get_solo db = (case db_control db of None \<Rightarrow> default_control | Some c \<Rightarrow> c)"

definition order_creation_kill_reason :: "pipe_env \<Rightarrow> pipe_db \<Rightarrow> string option" where
  "order_creation_kill_reason env db =
     (if pe_globally_disabled env then Some ''execution_globally_disabled''
      else case db_control db of
        None \<Rightarrow> None
      | Some c \<Rightarrow> if xc_kill_switch c then Some ''kill_switch_engaged'' else None)"

section \<open>Symbol registry\<close>

definition upper :: "string \<Rightarrow> string" where
  "upper s = map upper_char s"

definition normalize_symbol :: "string \<Rightarrow> string" where
  "normalize_symbol s = upper (strip s)"

datatype symbol_resolution = SymRejected string | SymAccepted string string

text \<open>An accepted symbol carries the reason and the broker's own symbol.\<close>

definition can_account_trade_symbol :: "pipe_env \<Rightarrow> pipe_db \<Rightarrow> int \<Rightarrow> string \<Rightarrow> symbol_resolution" where
  "can_account_trade_symbol env db account provider_symbol =
     (let sym = normalize_symbol provider_symbol in
      if sym = '''' then SymRejected ''invalid_symbol''
      else
        let instruments = filter (\<lambda>i. bi_account i = account \<and> bi_enabled i) (db_instruments db) in
        if instruments \<noteq> [] then
          (case filter (\<lambda>i. normalize_symbol (bi_broker_symbol i) = sym) instruments of
             [i] \<Rightarrow> SymAccepted ''broker_symbol_exact'' (bi_broker_symbol i)
           | _ # _ # _ \<Rightarrow> SymRejected ''SYMBOL_MAPPING_AMBIGUOUS''
           | [] \<Rightarrow>
               (case filter (\<lambda>i. normalize_symbol (bi_base_symbol i) = sym) instruments of
                  [i] \<Rightarrow> SymAccepted ''broker_symbol_mapped'' (bi_broker_symbol i)
                | _ # _ # _ \<Rightarrow> SymRejected ''SYMBOL_MAPPING_AMBIGUOUS''
                | [] \<Rightarrow> SymRejected ''SYMBOL_NOT_AVAILABLE_ON_BROKER''))
        else if pe_strict_symbols env then SymRejected ''SYMBOL_REGISTRY_UNAVAILABLE''
        else if sym \<in> set signal_allowed_symbols then SymAccepted ''default_baseline'' sym
        else SymRejected ''SYMBOL_NOT_AVAILABLE_ON_BROKER'')"

section \<open>Job creation\<close>

definition kill_switch_blocked :: "job_type set" where
  "kill_switch_blocked = {OpenTrade, PlaceOrder, PlaceTestOrder, PlaceOrderShadow}"

definition broker_gate_blocked :: "job_type set" where
  "broker_gate_blocked = {OpenTrade, PlaceOrder, PlaceTestOrder}"

definition identity_pin_types :: "job_type set" where
  "identity_pin_types =
     {OpenTrade, PlaceOrder, PlaceTestOrder, CloseTrade, ModifyPosition, PartialCloseTrade}"

definition account_stopped_blocked :: "job_type set" where
  "account_stopped_blocked = {OpenTrade, PlaceOrder}"

datatype save_error =
    KillSwitchEngaged string | AccountStopped int | GateRefused string | PinUnavailable

text \<open>
  \<open>ExecutionJob.save\<close> on insert: the kill switch, the stopped account, the broker gate, the health
  pause and the identity pin, in this order, and then the row.
\<close>

definition save_guards :: "pipe_env \<Rightarrow> pipe_db \<Rightarrow> job_type \<Rightarrow> trading_account \<Rightarrow> save_error option" where
  "save_guards env db ty a =
     (case (if ty \<in> kill_switch_blocked then order_creation_kill_reason env db else None) of
        Some r \<Rightarrow> Some (KillSwitchEngaged r)
      | None \<Rightarrow>
          if ty \<in> account_stopped_blocked \<and> pe_stop_gate env \<and> \<not> ac_is_active a
          then Some (AccountStopped (ac_id a))
          else if ty \<notin> broker_gate_blocked then None
          else
            let (allowed, reason) = evaluate_execution_gate (pe_settings env) (pe_fleet env) (Some a) in
            if \<not> allowed then Some (GateRefused reason)
            else case require_not_broker_paused (pe_settings env) (pe_health env (ac_id a)) of
              Inl r \<Rightarrow> Some (GateRefused r)
            | Inr _ \<Rightarrow> None)"

definition pinned_payload ::
  "pipe_env \<Rightarrow> job_type \<Rightarrow> trading_account \<Rightarrow> (string \<times> json) list \<Rightarrow> (string \<times> json) list option" where
  "pinned_payload env ty a payload =
     (if ty \<in> identity_pin_types
      then inject_identity_pin (pe_settings env) (pe_profiles env) a payload
      else Some payload)"

definition hosted_workspace_uuid_for :: "pipe_env \<Rightarrow> trading_account \<Rightarrow> string" where
  "hosted_workspace_uuid_for env a =
     (if \<not> is_hosted_workspace_account (pe_settings env) a then ''''
      else case workspace_of (pe_fleet env) a of None \<Rightarrow> '''' | Some ws \<Rightarrow> hs_uuid ws)"

definition new_job ::
  "pipe_env \<Rightarrow> pipe_db \<Rightarrow> job_type \<Rightarrow> trading_account \<Rightarrow> int option \<Rightarrow> (string \<times> json) list \<Rightarrow> job" where
  "new_job env db ty a owner payload =
     \<lparr>jb_id = db_next_job db, jb_type = ty, jb_account = ac_id a, jb_node = ac_terminal_node a,
      jb_assignment = owner, jb_payload = payload, jb_status = JbPending, jb_worker = '''',
      jb_started = False, jb_result = [], jb_error = '''', jb_created_at = pe_now env, jb_lease = None,
      jb_hosted_uuid = (if ty \<in> identity_pin_types \<and> st_hosted (pe_settings env)
                        then hosted_workspace_uuid_for env a else '''')\<rparr>"

definition create_job ::
  "pipe_env \<Rightarrow> job_type \<Rightarrow> trading_account \<Rightarrow> int option \<Rightarrow> (string \<times> json) list \<Rightarrow> pipe_db
     \<Rightarrow> (save_error, job, pipe_db) outcome" where
  "create_job env ty a owner payload db =
     (case save_guards env db ty a of
        Some e \<Rightarrow> (Inl e, db)
      | None \<Rightarrow>
          (case pinned_payload env ty a payload of
             None \<Rightarrow> (Inl PinUnavailable, db)
           | Some p \<Rightarrow>
               (let j = new_job env db ty a owner p
                in (Inr j, db\<lparr>db_jobs := db_jobs db @ [j], db_next_job := Suc (db_next_job db)\<rparr>))))"

section \<open>Plan queries\<close>

text \<open>\<open>WAY{plan}L{leg}\<close>, the order comment that ties a trade to a leg.\<close>

definition leg_comment :: "nat \<Rightarrow> nat \<Rightarrow> string" where
  "leg_comment p k = ''WAY'' @ digits_of p @ ''L'' @ digits_of k"

definition legs_of :: "pipe_db \<Rightarrow> nat \<Rightarrow> leg list" where
  "legs_of db p = sort_key lg_index (filter (\<lambda>l. lg_plan l = p) (db_legs db))"

definition count_today :: "pipe_env \<Rightarrow> pipe_db \<Rightarrow> int \<Rightarrow> string \<Rightarrow> string \<Rightarrow> nat" where
  "count_today env db account symbol source =
     length (filter (\<lambda>p. pl_account p = account \<and> pl_symbol p = symbol \<and> pl_source p = source \<and>
                          pl_status p \<in> {PlPlanned, PlPromoted, PlClosed} \<and>
                          pe_today_start env \<le> pl_created_at p) (db_plans db))"

definition count_active :: "pipe_db \<Rightarrow> int \<Rightarrow> string \<Rightarrow> nat" where
  "count_active db account symbol =
     length (filter (\<lambda>p. pl_account p = account \<and> pl_symbol p = symbol \<and> pl_status p = PlPlanned)
               (db_plans db))"

definition find_plan :: "pipe_db \<Rightarrow> nat \<Rightarrow> plan option" where
  "find_plan db i = find (\<lambda>p. pl_id p = i) (db_plans db)"

definition find_job :: "pipe_db \<Rightarrow> nat \<Rightarrow> job option" where
  "find_job db i = find (\<lambda>j. jb_id j = i) (db_jobs db)"

definition update_plan :: "nat \<Rightarrow> (plan \<Rightarrow> plan) \<Rightarrow> pipe_db \<Rightarrow> pipe_db" where
  "update_plan i f db = db\<lparr>db_plans := map (\<lambda>p. if pl_id p = i then f p else p) (db_plans db)\<rparr>"

definition update_leg :: "nat \<Rightarrow> nat \<Rightarrow> (leg \<Rightarrow> leg) \<Rightarrow> pipe_db \<Rightarrow> pipe_db" where
  "update_leg p k f db =
     db\<lparr>db_legs := map (\<lambda>l. if lg_plan l = p \<and> lg_index l = k then f l else l) (db_legs db)\<rparr>"

definition add_audit :: "string \<Rightarrow> nat option \<Rightarrow> nat option \<Rightarrow> string \<Rightarrow> pipe_db \<Rightarrow> pipe_db" where
  "add_audit ev p a code db =
     db\<lparr>db_audit := db_audit db @ [\<lparr>ad_event = ev, ad_plan = p, ad_approval = a, ad_code = code\<rparr>]\<rparr>"

lemma find_key_mem: "find (\<lambda>r. key r = k) rs = Some r \<Longrightarrow> r \<in> set rs \<and> key r = k"
  by (auto dest: find_SomeD)

lemma add_audit_simps [simp]:
  "db_plans (add_audit e p a c db) = db_plans db" "db_legs (add_audit e p a c db) = db_legs db"
  "db_jobs (add_audit e p a c db) = db_jobs db" "db_configs (add_audit e p a c db) = db_configs db"
  "db_trades (add_audit e p a c db) = db_trades db" "db_control (add_audit e p a c db) = db_control db"
  "db_approvals (add_audit e p a c db) = db_approvals db"
  "db_assignments (add_audit e p a c db) = db_assignments db"
  "db_instruments (add_audit e p a c db) = db_instruments db"
  "db_alerts (add_audit e p a c db) = db_alerts db" "db_commands (add_audit e p a c db) = db_commands db"
  "db_next_plan (add_audit e p a c db) = db_next_plan db"
  "db_next_job (add_audit e p a c db) = db_next_job db"
  by (simp_all add: add_audit_def)

end
