(* ===== verification/SignalPlan.thy ===== *)
theory SignalPlan
  imports SignalTables
begin

text \<open>
  Planning (\<^verbatim>\<open>execution/signal_planning.py\<close>): the deterministic split of a signal's volume over its
  legs and the planner that turns an approved signal into a plan for one account.
\<close>

section \<open>Volume split\<close>

datatype split_error =
    InvalidLegCount | InvalidTotal | InsufficientTotal | LegExceedsCap | TotalExceedsCap

text \<open>
  \<open>None\<close> stands for a total \<open>Decimal(str(x))\<close> rejects. The quotient is truncated towards zero, which
  Python does in a context of 28 digits.
\<close>

definition truncate_units :: "rat \<Rightarrow> int" where
  "truncate_units x = (if 0 \<le> x then \<lfloor>x\<rfloor> else \<lceil>x\<rceil>)"

definition split_units :: "int \<Rightarrow> nat \<Rightarrow> int list" where
  "split_units tot n =
     map (\<lambda>i. tot div int n + (if int i < tot mod int n then 1 else 0)) [0..<n]"

definition split_volume ::
  "pyfloat option \<Rightarrow> nat \<Rightarrow> rat \<Rightarrow> rat \<Rightarrow> rat \<Rightarrow> split_error + (rat list \<times> rat \<times> bool)" where
  "split_volume tot n step max_per_leg max_total =
     (if n < 1 \<or> n > max_plan_legs then Inl InvalidLegCount
      else case tot of
        Some (Finite requested) \<Rightarrow>
          if requested \<le> 0 then Inl InvalidTotal
          else
            let effective = min (min requested (of_nat n * max_per_leg)) max_total;
                units = truncate_units (effective / step) in
            if units < int n then Inl InsufficientTotal
            else
              let legs = map (\<lambda>u. of_int u * step) (split_units units n) in
              if list_ex (\<lambda>lot. lot > max_per_leg) legs then Inl LegExceedsCap
              else if sum_list legs > max_total then Inl TotalExceedsCap
              else Inr (legs, effective, effective < requested)
      | _ \<Rightarrow> Inl InvalidTotal)"

lemma split_units_length [simp]: "length (split_units tot n) = n"
  by (simp add: split_units_def)

lemma sum_list_threshold:
  "(\<Sum>i\<leftarrow>[0..<n]. q + (if int i < r then 1 else 0)) = int n * q + min (int n) (max 0 r)"
  by (induction n) (auto simp: algebra_simps)

lemma split_units_sum: "0 < n \<Longrightarrow> sum_list (split_units tot n) = tot"
  unfolding split_units_def sum_list_threshold
  by (simp add: min_def max_def) (smt (verit) of_nat_0_less_iff pos_mod_bound)

lemma split_units_ge: "u \<in> set (split_units tot n) \<Longrightarrow> tot div int n \<le> u"
  by (auto simp: split_units_def)

lemma split_units_le:
  assumes u: "u \<in> set (split_units tot n)" and n: "0 < n" and le: "tot \<le> int n * k"
  shows "u \<le> k"
proof (cases "0 < tot mod int n")
  case True
  have "int n * (tot div int n) < int n * k"
    using True le by (smt (verit) mult_div_mod_eq)
  with n have "tot div int n + 1 \<le> k" by simp
  moreover have "u \<le> tot div int n + 1" using u by (auto simp: split_units_def)
  ultimately show ?thesis by linarith
next
  case False
  with n have "tot mod int n = 0" by (simp add: order.antisym not_less)
  with u have "u = tot div int n" by (auto simp: split_units_def split: if_splits)
  moreover have "int n * (tot div int n) \<le> int n * k"
    using le False by (smt (verit) \<open>tot mod int n = 0\<close> mult_div_mod_eq)
  ultimately show ?thesis using n by simp
qed


lemma split_units_sorted: "sorted_wrt (\<ge>) (split_units tot n)"
  unfolding split_units_def sorted_wrt_map by (rule sorted_wrt_mono_rel [OF _ sorted_wrt_upt]) auto

lemma split_units_spread: "u \<in> set (split_units tot n) \<Longrightarrow> v \<in> set (split_units tot n) \<Longrightarrow> u - v \<le> 1"
  by (auto simp: split_units_def)

lemma sum_list_scaled: "(\<Sum>u\<leftarrow>us. of_int u * c) = (of_int (sum_list us) * c :: rat)"
  by (induction us) (auto simp: algebra_simps)

lemma truncate_units_le: "0 \<le> x \<Longrightarrow> of_int (truncate_units x) \<le> x"
  by (simp add: truncate_units_def)

lemma truncate_units_ge_nat: "1 \<le> n \<Longrightarrow> int n \<le> truncate_units x \<longleftrightarrow> of_nat n \<le> x"
proof -
  assume n: "1 \<le> n"
  show ?thesis
  proof (cases "0 \<le> x")
    case True then show ?thesis by (simp add: truncate_units_def le_floor_iff)
  next
    case False
    then have "\<lceil>x\<rceil> \<le> 0" by (simp add: ceiling_le_iff)
    moreover have "(0::rat) \<le> of_nat n" by simp
    ultimately have "\<not> int n \<le> \<lceil>x\<rceil>" using n by linarith
    moreover have "\<not> of_nat n \<le> x" using False by (meson of_nat_0_le_iff order_trans)
    ultimately show ?thesis using False by (simp add: truncate_units_def)
  qed
qed

text \<open>The common facts of a split that got past its checks on the number of units.\<close>

lemma split_facts:
  assumes step: "0 < (step :: rat)" and n: "1 \<le> n" and units: "units = truncate_units (eff / step)"
    and enough: "int n \<le> units"
  shows "of_int units * step \<le> eff" and "eff - step < of_int units * step"
    and "\<And>u. u \<in> set (split_units units n) \<Longrightarrow> 1 \<le> u"
proof -
  have pos: "of_nat n \<le> eff / step"
    using enough n unfolding units by (simp add: truncate_units_ge_nat)
  then have nn: "0 \<le> eff / step" by (meson of_nat_0_le_iff order_trans)
  have "of_int units \<le> eff / step" unfolding units by (rule truncate_units_le [OF nn])
  then show "of_int units * step \<le> eff" using step by (simp add: pos_le_divide_eq)
  have "eff / step < of_int units + 1" unfolding units truncate_units_def using nn by simp linarith
  then show "eff - step < of_int units * step" using step by (simp add: pos_divide_less_eq algebra_simps)
  fix u assume "u \<in> set (split_units units n)"
  then have "units div int n \<le> u" by (rule split_units_ge)
  moreover have "1 \<le> units div int n" using enough n
    by (metis One_nat_def div_self int_one_le_iff_zero_less less_le_trans nat_neq_iff not_one_le_zero of_nat_0_less_iff zdiv_mono1 zero_less_one zero_neq_one)
  ultimately show "1 \<le> u" by simp
qed

lemma split_volume_InrD:
  assumes "split_volume tot n step cap mx = Inr (legs, eff, capped)"
  obtains r where "tot = Some (Finite r)" "0 < r" "1 \<le> n" "n \<le> max_plan_legs"
    "eff = min (min r (of_nat n * cap)) mx" "int n \<le> truncate_units (eff / step)"
    "legs = map (\<lambda>u. of_int u * step) (split_units (truncate_units (eff / step)) n)"
    "\<forall>l \<in> set legs. l \<le> cap" "sum_list legs \<le> mx" "capped = (eff < r)"
  using assms
  by (auto simp: split_volume_def Let_def list_ex_iff not_less split: if_splits option.splits pyfloat.splits)

text \<open>
  A split has one leg per take profit, each leg at least one lot step and at most the cap of a leg,
  the legs together stay within the request and both caps and lose less than one step to rounding,
  and the legs decrease from the first and differ by one step at most.
\<close>
theorem split_volume_bounds:
  assumes "split_volume (Some (Finite r)) n step cap mx = Inr (legs, eff, capped)" and "0 < step"
  shows "length legs = n \<and> (\<forall>l \<in> set legs. step \<le> l \<and> l \<le> cap) \<and>
         sum_list legs \<le> min r (min (of_nat n * cap) mx) \<and> eff - step < sum_list legs \<and>
         sorted_wrt (\<ge>) legs \<and> (\<forall>l \<in> set legs. \<forall>l' \<in> set legs. l - l' \<le> step)"
proof -
  from split_volume_InrD [OF assms(1)] have n: "1 \<le> n" and eff: "eff = min (min r (of_nat n * cap)) mx"
    and en: "int n \<le> truncate_units (eff / step)"
    and legs: "legs = map (\<lambda>u. of_int u * step) (split_units (truncate_units (eff / step)) n)"
    and cap: "\<forall>l \<in> set legs. l \<le> cap" by (metis pyfloat.inject option.inject)+
  note f = split_facts [OF assms(2) n refl en]
  have sum: "sum_list legs = of_int (truncate_units (eff / step)) * step"
    unfolding legs sum_list_scaled using n by (simp add: split_units_sum)
  have ge: "step \<le> l" if "l \<in> set legs" for l
    using that assms(2) unfolding legs by (auto dest!: f(3))
  have sorted: "sorted_wrt (\<ge>) legs"
    unfolding legs sorted_wrt_map
    by (rule sorted_wrt_mono_rel [OF _ split_units_sorted]) (use assms(2) in auto)
  have spread: "l - l' \<le> step" if ll: "l \<in> set legs" "l' \<in> set legs" for l l'
  proof -
    from ll obtain u v where uv: "l = of_int u * step" "l' = of_int v * step"
      "u \<in> set (split_units (truncate_units (eff / step)) n)" "v \<in> set (split_units (truncate_units (eff / step)) n)"
      unfolding legs by auto
    from split_units_spread [OF uv(3,4)] have "of_int u - of_int v \<le> (1 :: rat)" by linarith
    then have "(of_int u - of_int v) * step \<le> 1 * step" using assms(2) by (intro mult_right_mono) auto
    then show ?thesis unfolding uv by (simp add: algebra_simps)
  qed
  show ?thesis
    using ge cap sorted spread f(1,2) unfolding sum eff by (auto simp: legs)
qed

text \<open>
  When the cap of a leg is a whole number of steps, as every stored cap is, a valid request is
  split unless it cannot give each leg one step: the two later checks never fire.
\<close>
theorem split_volume_exact:
  assumes "0 < step" "1 \<le> n" "n \<le> max_plan_legs" "0 < r" "cap = of_int k * step"
    "eff = min (min r (of_nat n * cap)) mx"
  shows "split_volume (Some (Finite r)) n step cap mx =
           (if eff < of_nat n * step then Inl InsufficientTotal
            else Inr (map (\<lambda>u. of_int u * step) (split_units (truncate_units (eff / step)) n), eff, eff < r))"
proof (cases "eff < of_nat n * step")
  case True
  then have "truncate_units (eff / step) < int n"
    using truncate_units_ge_nat [OF assms(2), of "eff / step"] assms(1)
    by (auto simp: not_le [symmetric] pos_le_divide_eq)
  with True assms show ?thesis by (simp add: split_volume_def Let_def)
next
  case False
  then have en: "int n \<le> truncate_units (eff / step)"
    using truncate_units_ge_nat [OF assms(2), of "eff / step"] assms(1) by (auto simp: pos_le_divide_eq)
  note f = split_facts [OF assms(1,2) refl en]
  let ?us = "split_units (truncate_units (eff / step)) n"
  have "of_int (truncate_units (eff / step)) * step \<le> of_nat n * cap" using f(1) assms(6) by linarith
  then have "of_int (truncate_units (eff / step)) \<le> (of_int (int n * k) :: rat)"
    using assms(1) unfolding assms(5) by (metis mult.assoc mult_le_cancel_right not_less of_int_mult of_int_of_nat_eq)
  then have le: "truncate_units (eff / step) \<le> int n * k" by linarith
  have "u \<le> k" if "u \<in> set ?us" for u
    by (rule split_units_le [OF that _ le]) (use assms(2) in simp)
  then have caps: "\<not> list_ex (\<lambda>lot. lot > cap) (map (\<lambda>u. of_int u * step) ?us)"
    using assms(1) unfolding assms(5) list_ex_iff by (auto simp: not_less)
  have sum: "\<not> sum_list (map (\<lambda>u. of_int u * step) ?us) > mx"
    unfolding sum_list_scaled using assms(2,6) f(1) by (simp add: split_units_sum)
  show ?thesis
    using assms(1-4) False en caps sum by (simp add: split_volume_def Let_def assms(6) [symmetric])
qed

section \<open>The planner\<close>

definition config_of :: "pipe_db \<Rightarrow> string \<Rightarrow> source_config option" where
  "config_of db s = find (\<lambda>c. cf_source c = s) (db_configs db)"

definition existing_plan :: "pipe_db \<Rightarrow> nat \<Rightarrow> int \<Rightarrow> plan option" where
  "existing_plan db ap account = find (\<lambda>p. pl_approval p = ap \<and> pl_account p = account) (db_plans db)"

definition plan_chat_id :: "pipe_env \<Rightarrow> approval \<Rightarrow> string" where
  "plan_chat_id env ap =
     (if pe_chat_aware env then ap_chat_id ap
      else case map_of (ap_raw_payload ap) ''chat_id'' of None \<Rightarrow> '''' | Some v \<Rightarrow> py_str v)"

definition env_admitted :: "pipe_env \<Rightarrow> trading_account \<Rightarrow> bool" where
  "env_admitted env a \<longleftrightarrow>
     is_demo_environment a \<or>
     is_live_environment a \<and> live_execution_permitted (pe_settings env) (pe_fleet env) a"

text \<open>The checks before any plan exists; a code is the argument of \<open>PlanRejected\<close>.\<close>

definition plan_refusal :: "pipe_env \<Rightarrow> pipe_db \<Rightarrow> approval \<Rightarrow> trading_account \<Rightarrow> string option" where
  "plan_refusal env db ap a =
     (if ap_status ap \<noteq> ApApproved then Some ''approval_not_approved''
      else case order_creation_kill_reason env db of
        Some r \<Rightarrow> Some r
      | None \<Rightarrow>
          (case config_of db (ap_source ap) of
             None \<Rightarrow> Some ''source_not_enabled''
           | Some cfg \<Rightarrow>
               if \<not> cf_enabled cfg then Some ''source_not_enabled''
               else if \<not> env_admitted env a then Some ''account_not_demo''
               else
                 let symbol = upper (ap_symbol ap); direction = upper (ap_direction ap) in
                 if symbol = '''' \<or> direction \<notin> {''BUY'', ''SELL''} then Some ''not_tradeable''
                 else case can_account_trade_symbol env db (ac_id a) symbol of
                   SymRejected r \<Rightarrow> Some r
                 | SymAccepted _ _ \<Rightarrow>
                     if cf_daily_group_cap cfg \<noteq> 0 \<and>
                        cf_daily_group_cap cfg \<le> count_today env db (ac_id a) symbol (ap_source ap)
                     then Some ''daily_limit_exceeded''
                     else if rc_concurrent_groups (pe_caps env) \<le> count_active db (ac_id a) symbol
                     then Some ''concurrent_limit_exceeded''
                     else None))"

fun first_timestamp :: "pipe_env \<Rightarrow> (string \<times> json) list \<Rightarrow> string list \<Rightarrow> int option" where
  "first_timestamp env raw [] = None"
| "first_timestamp env raw (k # ks) =
     (case map_of raw k of
        Some (JStr v) \<Rightarrow>
          (case pe_parse_datetime env v of Some t \<Rightarrow> Some t | None \<Rightarrow> first_timestamp env raw ks)
      | _ \<Rightarrow> first_timestamp env raw ks)"

definition resolve_signal_timestamp :: "pipe_env \<Rightarrow> approval \<Rightarrow> int option \<Rightarrow> int" where
  "resolve_signal_timestamp env ap override =
     (case override of
        Some t \<Rightarrow> t
      | None \<Rightarrow>
          (case first_timestamp env (ap_raw_payload ap) [''signal_timestamp'', ''date'', ''timestamp''] of
             Some t \<Rightarrow> t | None \<Rightarrow> ap_created_at ap))"

definition customer_leg_size_override :: "auto_assignment option \<Rightarrow> source_config \<Rightarrow> rat option" where
  "customer_leg_size_override assignment cfg =
     (case assignment of
        None \<Rightarrow> None
      | Some s \<Rightarrow> map_option (\<lambda>lot. min lot (cf_max_lot_per_leg cfg)) (aa_lot_per_leg s))"

text \<open>The total and the cap of a leg: the caller's total, the customer's size, or the source's.\<close>

definition plan_sizing ::
  "source_config \<Rightarrow> auto_assignment option \<Rightarrow> pyfloat option option \<Rightarrow> nat \<Rightarrow> pyfloat option \<times> rat" where
  "plan_sizing cfg assignment total_lot n =
     (case total_lot of
        Some tot \<Rightarrow> (tot, cf_max_lot_per_leg cfg)
      | None \<Rightarrow>
          (case customer_leg_size_override assignment cfg of
             Some lot \<Rightarrow> (Some (Finite (min (lot * of_nat n) (cf_max_total_lot cfg))), lot)
           | None \<Rightarrow> (Some (Finite (cf_total_lot_target cfg)), cf_max_lot_per_leg cfg)))"

definition common_plan ::
  "pipe_env \<Rightarrow> pipe_db \<Rightarrow> approval \<Rightarrow> trading_account \<Rightarrow> int option \<Rightarrow> auto_assignment option \<Rightarrow> plan" where
  "common_plan env db ap a ts assignment =
     \<lparr>pl_id = db_next_plan db, pl_approval = ap_id ap, pl_account = ac_id a,
      pl_assignment = (case assignment of
                         Some s \<Rightarrow> if pe_dual_write env \<and> aa_account s = ac_id a then Some (aa_id s) else None
                       | None \<Rightarrow> None),
      pl_source = ap_source ap, pl_chat_id = plan_chat_id env ap, pl_message_id = ap_message_id ap,
      pl_symbol = upper (ap_symbol ap), pl_direction = upper (ap_direction ap),
      pl_stop_loss = ap_stop_loss ap, pl_total_lot = 0, pl_is_demo = ac_is_demo a,
      pl_environment = (case ac_server a of Server s \<Rightarrow> bs_environment s | _ \<Rightarrow> ''''),
      pl_signal_timestamp = Some (resolve_signal_timestamp env ap ts),
      pl_status = PlPlanned, pl_hold_reason = '''',
      pl_correlation_id = (if ap_correlation_id ap = '''' then pe_new_correlation env else ap_correlation_id ap),
      pl_created_at = pe_now env\<rparr>"

text \<open>Inserting a plan: both unique constraints of the table, or the row and the next id.\<close>

definition insert_plan :: "plan \<Rightarrow> pipe_db \<Rightarrow> pipe_db option" where
  "insert_plan p db =
     (if list_ex (\<lambda>q. pl_approval q = pl_approval p \<and> pl_account q = pl_account p \<or>
                      pl_source q = pl_source p \<and> pl_chat_id q = pl_chat_id p \<and>
                      pl_message_id q = pl_message_id p \<and> pl_account q = pl_account p) (db_plans db)
      then None
      else Some (db\<lparr>db_plans := db_plans db @ [p], db_next_plan := Suc (db_next_plan db)\<rparr>))"

definition existing_or_raise :: "plan \<Rightarrow> pipe_db \<Rightarrow> (string, plan, pipe_db) outcome" where
  "existing_or_raise p db =
     (case existing_plan db (pl_approval p) (pl_account p) of
        Some q \<Rightarrow> (Inr q, db) | None \<Rightarrow> (Inl ''plan_integrity_error'', db))"

definition hold_plan :: "plan \<Rightarrow> string \<Rightarrow> pipe_db \<Rightarrow> (string, plan, pipe_db) outcome" where
  "hold_plan common reason db =
     (let p = common\<lparr>pl_status := PlHeld, pl_hold_reason := reason\<rparr> in
      case insert_plan p db of
        None \<Rightarrow> existing_or_raise p db
      | Some db' \<Rightarrow> (Inr p, add_audit ''PLAN_HELD'' (Some (pl_id p)) (Some (pl_approval p)) reason db'))"

definition void_plan :: "plan \<Rightarrow> string \<Rightarrow> pipe_db \<Rightarrow> (string, plan, pipe_db) outcome" where
  "void_plan common reason db =
     (let p = common\<lparr>pl_status := PlVoided, pl_hold_reason := reason\<rparr> in
      case insert_plan p db of
        None \<Rightarrow> existing_or_raise p db
      | Some db' \<Rightarrow> (Inr p, add_audit ''PLAN_VOIDED'' (Some (pl_id p)) (Some (pl_approval p)) reason db'))"

definition new_leg :: "nat \<Rightarrow> string \<Rightarrow> nat \<times> string \<times> rat \<Rightarrow> leg" where
  "new_leg p sl x =
     (case x of (k, tp, lot) \<Rightarrow>
        \<lparr>lg_plan = p, lg_index = k, lg_take_profit = tp, lg_stop_loss = sl, lg_lot = lot,
         lg_status = LgPlanned, lg_job = None, lg_breakeven_job = None, lg_attempts = 0,
         lg_applied_at = None, lg_stage = StageInitial\<rparr>)"

definition plan_legs :: "nat \<Rightarrow> string \<Rightarrow> string list \<Rightarrow> rat list \<Rightarrow> leg list" where
  "plan_legs p sl tps lots = map (new_leg p sl) (zip [1..<Suc (length lots)] (zip tps lots))"

definition usable_take_profits :: "approval \<Rightarrow> string list" where
  "usable_take_profits ap = filter (\<lambda>t. t \<noteq> '''') (ap_take_profits ap)"

definition plan_with_legs ::
  "plan \<Rightarrow> string list \<Rightarrow> rat list \<Rightarrow> pipe_db \<Rightarrow> (string, plan, pipe_db) outcome" where
  "plan_with_legs common tps lots db =
     (let p = common\<lparr>pl_total_lot := sum_list lots\<rparr> in
      case insert_plan p db of
        None \<Rightarrow> existing_or_raise p db
      | Some db' \<Rightarrow>
          (let legs = plan_legs (pl_id p) (pl_stop_loss p) tps lots;
               db2 = add_audit ''PLAN_CREATED'' (Some (pl_id p)) (Some (pl_approval p)) ''''
                       (db'\<lparr>db_legs := db_legs db' @ legs\<rparr>)
           in (Inr p, fold (\<lambda>l. add_audit ''LEG_CREATED'' (Some (pl_id p)) (Some (pl_approval p)) '''') legs db2)))"

definition plan_admitted ::
  "pipe_env \<Rightarrow> source_config \<Rightarrow> approval \<Rightarrow> trading_account \<Rightarrow> int option \<Rightarrow> pyfloat option option
     \<Rightarrow> auto_assignment option \<Rightarrow> pipe_db \<Rightarrow> (string, plan, pipe_db) outcome" where
  "plan_admitted env cfg ap a ts total_lot assignment db =
     (let common = common_plan env db ap a ts assignment; tps = usable_take_profits ap in
      if ap_stop_loss ap = '''' then hold_plan common ''missing_stop_loss'' db
      else if tps = [] then hold_plan common ''missing_take_profit'' db
      else if pe_now env - resolve_signal_timestamp env ap ts > signal_max_age_us
      then void_plan common ''stale_signal'' db
      else
        let n = min (length tps) max_plan_legs;
            (tot, cap) = plan_sizing cfg assignment total_lot n in
        case split_volume tot n lot_step cap (cf_max_total_lot cfg) of
          Inl _ \<Rightarrow> hold_plan common ''volume_split_invalid'' db
        | Inr (lots, _) \<Rightarrow> plan_with_legs common (take n tps) lots db)"

definition plan_demo_execution ::
  "pipe_env \<Rightarrow> approval \<Rightarrow> trading_account \<Rightarrow> int option \<Rightarrow> pyfloat option option \<Rightarrow> auto_assignment option
     \<Rightarrow> pipe_db \<Rightarrow> (string, plan, pipe_db) outcome" where
  "plan_demo_execution env ap a ts total_lot assignment db =
     (case existing_plan db (ap_id ap) (ac_id a) of
        Some p \<Rightarrow> (Inr p, db)
      | None \<Rightarrow>
          (case plan_refusal env db ap a of
             Some code \<Rightarrow> (Inl code, add_audit ''PLAN_HELD'' None (Some (ap_id ap)) code db)
           | None \<Rightarrow>
               (case config_of db (ap_source ap) of
                  None \<Rightarrow> (Inl ''source_not_enabled'', db)
                | Some cfg \<Rightarrow> plan_admitted env cfg ap a ts total_lot assignment db)))"

definition set_source_enabled :: "string \<Rightarrow> bool \<Rightarrow> rat option \<Rightarrow> pipe_db \<Rightarrow> pipe_db" where
  "set_source_enabled s enabled target db =
     (let fresh = \<lparr>cf_source = s, cf_enabled = False, cf_total_lot_target = 3 / 100,
                   cf_max_lot_per_leg = signal_max_lot_size, cf_max_total_lot = max_total_lot_per_signal,
                   cf_daily_group_cap = 24, cf_command_engine = False, cf_incremental = False\<rparr>;
          cfgs = (if config_of db s = None then db_configs db @ [fresh] else db_configs db)
      in db\<lparr>db_configs := map (\<lambda>c. if cf_source c = s
               then c\<lparr>cf_enabled := enabled,
                      cf_total_lot_target := (case target of None \<Rightarrow> cf_total_lot_target c | Some t \<Rightarrow> t)\<rparr>
               else c) cfgs\<rparr>)"

section \<open>What a planning call leaves behind\<close>

lemma fold_audit [simp]:
  "db_plans (fold (\<lambda>l. add_audit e p a c) ls db) = db_plans db"
  "db_legs (fold (\<lambda>l. add_audit e p a c) ls db) = db_legs db"
  "db_jobs (fold (\<lambda>l. add_audit e p a c) ls db) = db_jobs db"
  "db_trades (fold (\<lambda>l. add_audit e p a c) ls db) = db_trades db"
  "db_control (fold (\<lambda>l. add_audit e p a c) ls db) = db_control db"
  "db_configs (fold (\<lambda>l. add_audit e p a c) ls db) = db_configs db"
  "db_approvals (fold (\<lambda>l. add_audit e p a c) ls db) = db_approvals db"
  "db_assignments (fold (\<lambda>l. add_audit e p a c) ls db) = db_assignments db"
  "db_instruments (fold (\<lambda>l. add_audit e p a c) ls db) = db_instruments db"
  "db_next_plan (fold (\<lambda>l. add_audit e p a c) ls db) = db_next_plan db"
  "db_next_job (fold (\<lambda>l. add_audit e p a c) ls db) = db_next_job db"
  by (induction ls arbitrary: db) simp_all

text \<open>One of three things happens: the existing plan comes back, nothing is stored, or one plan is.\<close>

definition stores_plan :: "plan \<Rightarrow> leg list \<Rightarrow> pipe_db \<Rightarrow> pipe_db \<Rightarrow> bool" where
  "stores_plan p legs db db' \<longleftrightarrow>
     insert_plan p db \<noteq> None \<and> db_plans db' = db_plans db @ [p] \<and> db_legs db' = db_legs db @ legs \<and>
     db_next_plan db' = Suc (db_next_plan db)"

definition pipe_frame :: "pipe_db \<Rightarrow> pipe_db \<Rightarrow> bool" where
  "pipe_frame db db' \<longleftrightarrow>
     db_jobs db' = db_jobs db \<and> db_next_job db' = db_next_job db \<and> db_trades db' = db_trades db \<and>
     db_control db' = db_control db \<and> db_configs db' = db_configs db \<and>
     db_assignments db' = db_assignments db \<and> db_instruments db' = db_instruments db \<and>
     db_approvals db' = db_approvals db"

definition plan_tables_kept :: "pipe_db \<Rightarrow> pipe_db \<Rightarrow> bool" where
  "plan_tables_kept db db' \<longleftrightarrow>
     db_plans db' = db_plans db \<and> db_legs db' = db_legs db \<and> db_next_plan db' = db_next_plan db"

lemma insert_plan_SomeD:
  "insert_plan p db = Some db' \<Longrightarrow>
     db' = db\<lparr>db_plans := db_plans db @ [p], db_next_plan := Suc (db_next_plan db)\<rparr>"
  by (auto simp: insert_plan_def split: if_splits)

lemma hold_plan_result:
  assumes "existing_plan db (pl_approval c) (pl_account c) = None" "hold_plan c reason db = (r, db')"
  shows "pipe_frame db db' \<and>
         ((\<exists>code. r = Inl code \<and> plan_tables_kept db db') \<or>
          (\<exists>p. r = Inr p \<and> p = c\<lparr>pl_status := PlHeld, pl_hold_reason := reason\<rparr> \<and> stores_plan p [] db db'))"
  using assms
  by (auto simp: hold_plan_def existing_or_raise_def pipe_frame_def plan_tables_kept_def stores_plan_def Let_def
      split: option.splits dest: insert_plan_SomeD)

lemma void_plan_result:
  assumes "existing_plan db (pl_approval c) (pl_account c) = None" "void_plan c reason db = (r, db')"
  shows "pipe_frame db db' \<and>
         ((\<exists>code. r = Inl code \<and> plan_tables_kept db db') \<or>
          (\<exists>p. r = Inr p \<and> p = c\<lparr>pl_status := PlVoided, pl_hold_reason := reason\<rparr> \<and> stores_plan p [] db db'))"
  using assms
  by (auto simp: void_plan_def existing_or_raise_def pipe_frame_def plan_tables_kept_def stores_plan_def Let_def
      split: option.splits dest: insert_plan_SomeD)

lemma plan_with_legs_result:
  assumes "existing_plan db (pl_approval c) (pl_account c) = None" "plan_with_legs c tps lots db = (r, db')"
  shows "pipe_frame db db' \<and>
         ((\<exists>code. r = Inl code \<and> plan_tables_kept db db') \<or>
          (\<exists>p. r = Inr p \<and> p = c\<lparr>pl_total_lot := sum_list lots\<rparr> \<and>
               stores_plan p (plan_legs (pl_id p) (pl_stop_loss p) tps lots) db db'))"
  using assms
  by (auto simp: plan_with_legs_def existing_or_raise_def pipe_frame_def plan_tables_kept_def stores_plan_def Let_def
      split: option.splits dest: insert_plan_SomeD)

lemma common_plan_simps [simp]:
  "pl_approval (common_plan env db ap a ts s) = ap_id ap"
  "pl_account (common_plan env db ap a ts s) = ac_id a"
  "pl_id (common_plan env db ap a ts s) = db_next_plan db"
  "pl_status (common_plan env db ap a ts s) = PlPlanned"
  "pl_stop_loss (common_plan env db ap a ts s) = ap_stop_loss ap"
  "pl_source (common_plan env db ap a ts s) = ap_source ap"
  "pl_signal_timestamp (common_plan env db ap a ts s) = Some (resolve_signal_timestamp env ap ts)"
  "pl_created_at (common_plan env db ap a ts s) = pe_now env"
  by (simp_all add: common_plan_def)

text \<open>The only way a call stores a \<open>PLANNED\<close> plan, and what it stores otherwise.\<close>

definition planned_by ::
  "pipe_env \<Rightarrow> source_config \<Rightarrow> approval \<Rightarrow> trading_account \<Rightarrow> int option \<Rightarrow> auto_assignment option \<Rightarrow> plan \<Rightarrow> leg list
     \<Rightarrow> pipe_db \<Rightarrow> bool" where
  "planned_by env cfg ap a ts assignment p legs db \<longleftrightarrow>
     ap_stop_loss ap \<noteq> '''' \<and> usable_take_profits ap \<noteq> [] \<and>
     pe_now env - resolve_signal_timestamp env ap ts \<le> signal_max_age_us \<and>
     (\<exists>lots tot cap eff capped.
        let n = min (length (usable_take_profits ap)) max_plan_legs in
        (\<exists>total_lot. (tot, cap) = plan_sizing cfg assignment total_lot n) \<and>
        split_volume tot n lot_step cap (cf_max_total_lot cfg) = Inr (lots, eff, capped) \<and>
        p = (common_plan env db ap a ts assignment)\<lparr>pl_total_lot := sum_list lots\<rparr> \<and>
        legs = plan_legs (db_next_plan db) (ap_stop_loss ap) (take n (usable_take_profits ap)) lots)"

lemma plan_admitted_result:
  assumes ex: "existing_plan db (ap_id ap) (ac_id a) = None"
    and call: "plan_admitted env cfg ap a ts total_lot s db = (r, db')"
  shows "pipe_frame db db' \<and>
         ((\<exists>code. r = Inl code \<and> plan_tables_kept db db') \<or>
          (\<exists>p legs. r = Inr p \<and> stores_plan p legs db db' \<and> pl_approval p = ap_id ap \<and> pl_account p = ac_id a \<and>
             pl_id p = db_next_plan db \<and>
             (legs = [] \<and> pl_status p \<in> {PlHeld, PlVoided} \<or>
              pl_status p = PlPlanned \<and> planned_by env cfg ap a ts s p legs db)))"
proof -
  let ?c = "common_plan env db ap a ts s" and ?tps = "usable_take_profits ap"
  let ?n = "min (length ?tps) max_plan_legs"
  have ex': "existing_plan db (pl_approval ?c) (pl_account ?c) = None" using ex by simp
  note unf = call [unfolded plan_admitted_def Let_def]
  show ?thesis
  proof (cases "ap_stop_loss ap = '''' \<or> ?tps = []")
    case True
    then obtain reason where "hold_plan ?c reason db = (r, db')" using unf by (auto split: if_splits)
    from hold_plan_result [OF ex' this] show ?thesis by fastforce
  next
    case False
    note sl = False
    show ?thesis
    proof (cases "pe_now env - resolve_signal_timestamp env ap ts > signal_max_age_us")
      case True
      with sl unf have "void_plan ?c ''stale_signal'' db = (r, db')" by auto
      from void_plan_result [OF ex' this] show ?thesis by fastforce
    next
      case False
      obtain tot cap where z: "plan_sizing cfg s total_lot ?n = (tot, cap)" by (rule prod.exhaust)
      show ?thesis
      proof (cases "split_volume tot ?n lot_step cap (cf_max_total_lot cfg)")
        case (Inl e)
        with False sl unf z have "hold_plan ?c ''volume_split_invalid'' db = (r, db')" by auto
        from hold_plan_result [OF ex' this] show ?thesis by fastforce
      next
        case (Inr x)
        obtain lots eff capped where x: "x = (lots, eff, capped)" by (cases x)
        from False sl unf z Inr x have "plan_with_legs ?c (take ?n ?tps) lots db = (r, db')" by auto
        from plan_with_legs_result [OF ex' this]
        consider (kept) "pipe_frame db db'" "\<exists>code. r = Inl code" "plan_tables_kept db db'"
          | (new) p where "pipe_frame db db'" "r = Inr p" "p = ?c\<lparr>pl_total_lot := sum_list lots\<rparr>"
              "stores_plan p (plan_legs (pl_id p) (pl_stop_loss p) (take ?n ?tps) lots) db db'" by blast
        then show ?thesis
        proof cases
          case kept then show ?thesis by blast
        next
          case new
          have "planned_by env cfg ap a ts s p (plan_legs (pl_id p) (pl_stop_loss p) (take ?n ?tps) lots) db"
            unfolding planned_by_def Let_def using sl False z Inr x new(3)
            by (intro conjI exI [of _ lots] exI [of _ tot] exI [of _ cap] exI [of _ eff] exI [of _ capped]
                exI [of _ total_lot]) auto
          with new show ?thesis by auto
        qed
      qed
    qed
  qed
qed

lemma plan_demo_execution_result:
  assumes ex: "existing_plan db (ap_id ap) (ac_id a) = None"
    and call: "plan_demo_execution env ap a ts total_lot s db = (r, db')"
  shows "pipe_frame db db' \<and>
         ((\<exists>code. r = Inl code \<and> plan_tables_kept db db') \<or>
          (\<exists>p legs cfg. r = Inr p \<and> stores_plan p legs db db' \<and> pl_approval p = ap_id ap \<and> pl_account p = ac_id a \<and>
             pl_id p = db_next_plan db \<and> plan_refusal env db ap a = None \<and> config_of db (ap_source ap) = Some cfg \<and>
             (legs = [] \<and> pl_status p \<in> {PlHeld, PlVoided} \<or>
              pl_status p = PlPlanned \<and> planned_by env cfg ap a ts s p legs db)))"
proof (cases "plan_refusal env db ap a")
  case (Some code)
  with call ex show ?thesis
    by (auto simp: plan_demo_execution_def pipe_frame_def plan_tables_kept_def)
next
  case None
  show ?thesis
  proof (cases "config_of db (ap_source ap)")
    case None
    with call ex \<open>plan_refusal env db ap a = None\<close> show ?thesis
      by (auto simp: plan_demo_execution_def pipe_frame_def plan_tables_kept_def)
  next
    case (Some cfg)
    with call ex None have "plan_admitted env cfg ap a ts total_lot s db = (r, db')"
      by (simp add: plan_demo_execution_def)
    from plan_admitted_result [OF ex this] None Some show ?thesis by blast
  qed
qed

section \<open>Properties of planning\<close>

lemma existing_plan_stored:
  assumes "existing_plan db (pl_approval p) (pl_account p) = None" "stores_plan p legs db db'"
  shows "existing_plan db' (pl_approval p) (pl_account p) = Some p"
  using assms by (simp add: existing_plan_def stores_plan_def find_append)

text \<open>
  C34: Planning is idempotent: once a plan of the approval exists for the account, every later call for
  them, whatever its clock, flags, sizes and switches, returns that plan and changes nothing.
\<close>
theorem planning_idempotent:
  assumes call: "plan_demo_execution env ap a ts total_lot s db = (Inr p, db')"
    and same: "ap_id ap2 = ap_id ap" "ac_id a2 = ac_id a"
  shows "plan_demo_execution env2 ap2 a2 ts2 total_lot2 s2 db' = (Inr p, db')"
proof (cases "existing_plan db (ap_id ap) (ac_id a)")
  case (Some q)
  with call same show ?thesis by (simp add: plan_demo_execution_def)
next
  case None
  from plan_demo_execution_result [OF None call] obtain legs where
    "stores_plan p legs db db'" "pl_approval p = ap_id ap" "pl_account p = ac_id a" by blast
  with existing_plan_stored [of db p legs db'] None same show ?thesis
    by (simp add: plan_demo_execution_def)
qed

lemma plan_sizing_cap: "plan_sizing cfg s total_lot n = (tot, cap) \<Longrightarrow> cap \<le> cf_max_lot_per_leg cfg"
  by (auto simp: plan_sizing_def customer_leg_size_override_def split: option.splits)

lemma plan_legs_facts:
  assumes "length lots = length tps"
  shows "map lg_take_profit (plan_legs p sl tps lots) = tps" "map lg_lot (plan_legs p sl tps lots) = lots"
    "map lg_index (plan_legs p sl tps lots) = [1..<Suc (length lots)]"
    "l \<in> set (plan_legs p sl tps lots) \<Longrightarrow>
       lg_plan l = p \<and> lg_stop_loss l = sl \<and> lg_status l = LgPlanned \<and> lg_job l = None \<and>
       lg_breakeven_job l = None \<and> lg_attempts l = 0 \<and> lg_stage l = StageInitial \<and> lg_lot l \<in> set lots \<and>
       lg_take_profit l \<in> set tps \<and> 1 \<le> lg_index l \<and> lg_index l \<le> length lots"
proof -
  have z: "plan_legs p sl tps lots = map (new_leg p sl) (zip [1..<Suc (length lots)] (zip tps lots))"
    by (simp add: plan_legs_def)
  have f: "lg_take_profit \<circ> new_leg p sl = fst \<circ> snd" "lg_lot \<circ> new_leg p sl = snd \<circ> snd"
    "lg_index \<circ> new_leg p sl = fst"
    by (auto simp: new_leg_def fun_eq_iff)
  show "map lg_take_profit (plan_legs p sl tps lots) = tps"
    unfolding z list.map_comp f using assms by (metis length_map length_upt diff_Suc_1 length_zip map_fst_zip map_map map_snd_zip min.idem)
  show "map lg_lot (plan_legs p sl tps lots) = lots"
    unfolding z list.map_comp f using assms by (metis length_map length_upt diff_Suc_1 length_zip map_map map_snd_zip min.idem)
  show "map lg_index (plan_legs p sl tps lots) = [1..<Suc (length lots)]"
    unfolding z list.map_comp f using assms by (simp del: upt_Suc)
  show "l \<in> set (plan_legs p sl tps lots) \<Longrightarrow>
       lg_plan l = p \<and> lg_stop_loss l = sl \<and> lg_status l = LgPlanned \<and> lg_job l = None \<and>
       lg_breakeven_job l = None \<and> lg_attempts l = 0 \<and> lg_stage l = StageInitial \<and> lg_lot l \<in> set lots \<and>
       lg_take_profit l \<in> set tps \<and> 1 \<le> lg_index l \<and> lg_index l \<le> length lots"
  proof -
    assume "l \<in> set (plan_legs p sl tps lots)"
    then obtain k tp lot where l: "l = new_leg p sl (k, tp, lot)"
      and m: "(k, tp, lot) \<in> set (zip [1..<Suc (length lots)] (zip tps lots))" unfolding z by auto
    from m have "k \<in> set [1..<Suc (length lots)]" "(tp, lot) \<in> set (zip tps lots)"
      by (auto dest: set_zip_leftD set_zip_rightD simp del: upt_Suc)
    then show ?thesis by (auto simp: l new_leg_def dest: set_zip_leftD set_zip_rightD simp del: upt_Suc)
  qed
qed

lemma plan_refusal_NoneD:
  "plan_refusal env db ap a = None \<Longrightarrow>
     ap_status ap = ApApproved \<and> order_creation_kill_reason env db = None \<and> env_admitted env a \<and>
     (\<exists>cfg. config_of db (ap_source ap) = Some cfg \<and> cf_enabled cfg) \<and>
     upper (ap_direction ap) \<in> {''BUY'', ''SELL''}"
  by (auto simp: plan_refusal_def Let_def split: if_splits option.splits symbol_resolution.splits)

text \<open>
  A plan that is stored as \<open>PLANNED\<close> stands for an approved, fresh signal of an enabled source on an
  admitted account while nothing blocks orders; it has one leg per take profit, at most three, within
  the caps of the source, and no job was created.
\<close>
theorem new_plan_within_policy:
  assumes ex: "existing_plan db (ap_id ap) (ac_id a) = None"
    and call: "plan_demo_execution env ap a ts total_lot s db = (Inr p, db')"
    and planned: "pl_status p = PlPlanned"
  shows "ap_status ap = ApApproved \<and> order_creation_kill_reason env db = None \<and> env_admitted env a \<and>
         ap_stop_loss ap \<noteq> '''' \<and> pe_now env - resolve_signal_timestamp env ap ts \<le> signal_max_age_us \<and>
         db_jobs db' = db_jobs db \<and>
         (\<exists>cfg legs. config_of db (ap_source ap) = Some cfg \<and> cf_enabled cfg \<and>
            db_plans db' = db_plans db @ [p] \<and> db_legs db' = db_legs db @ legs \<and> legs \<noteq> [] \<and>
            map lg_take_profit legs = take max_plan_legs (usable_take_profits ap) \<and>
            map lg_index legs = [1..<Suc (length legs)] \<and>
            (\<forall>l \<in> set legs. lg_plan l = pl_id p \<and> lg_job l = None \<and> lot_step \<le> lg_lot l \<and>
                             lg_lot l \<le> cf_max_lot_per_leg cfg) \<and>
            sum_list (map lg_lot legs) = pl_total_lot p \<and> pl_total_lot p \<le> cf_max_total_lot cfg)"
proof -
  from plan_demo_execution_result [OF ex call] planned obtain legs cfg where
    frame: "pipe_frame db db'" and st: "stores_plan p legs db db'" and ref: "plan_refusal env db ap a = None"
    and cfg: "config_of db (ap_source ap) = Some cfg" and pb: "planned_by env cfg ap a ts s p legs db"
    and pid: "pl_id p = db_next_plan db" by fastforce
  let ?tps = "usable_take_profits ap" let ?n = "min (length ?tps) max_plan_legs"
  from pb obtain lots tot cap eff capped total_lot where
    sz: "plan_sizing cfg s total_lot ?n = (tot, cap)"
    and sv: "split_volume tot ?n lot_step cap (cf_max_total_lot cfg) = Inr (lots, eff, capped)"
    and p: "p = (common_plan env db ap a ts s)\<lparr>pl_total_lot := sum_list lots\<rparr>"
    and legs: "legs = plan_legs (db_next_plan db) (ap_stop_loss ap) (take ?n ?tps) lots"
    and tps: "?tps \<noteq> []"
    unfolding planned_by_def Let_def by metis
  from split_volume_InrD [OF sv] obtain r where tot: "tot = Some (Finite r)" by blast
  note b = split_volume_bounds [OF sv [unfolded tot]]
  have step: "0 < lot_step" by (simp add: lot_step_def)
  from b [OF step] have len: "length lots = length (take ?n ?tps)" by simp
  note lf = plan_legs_facts [OF len, where p = "db_next_plan db" and sl = "ap_stop_loss ap"]
  have ll: "length legs = length lots" unfolding legs using lf(2) by (metis length_map)
  have ne: "legs \<noteq> []" using ll len tps by (cases ?tps) (auto simp: max_plan_legs_def)
  have take: "take ?n ?tps = take max_plan_legs ?tps" by (simp add: min_def)
  from plan_refusal_NoneD [OF ref] cfg have en: "cf_enabled cfg" by auto
  have r1: "ap_status ap = ApApproved \<and> order_creation_kill_reason env db = None \<and> env_admitted env a"
    using plan_refusal_NoneD [OF ref] by blast
  have r2: "ap_stop_loss ap \<noteq> '''' \<and> pe_now env - resolve_signal_timestamp env ap ts \<le> signal_max_age_us"
    using pb unfolding planned_by_def by blast
  have r3: "db_jobs db' = db_jobs db" using frame unfolding pipe_frame_def by blast
  have r4: "db_plans db' = db_plans db @ [p] \<and> db_legs db' = db_legs db @ legs"
    using st unfolding stores_plan_def by blast
  have r5: "map lg_take_profit legs = take max_plan_legs ?tps" using lf(1) by (simp only: legs take)
  have r6: "map lg_index legs = [1..<Suc (length legs)]" unfolding ll unfolding legs lf(3) by (rule refl)
  have r7: "lg_plan l = pl_id p \<and> lg_job l = None \<and> lot_step \<le> lg_lot l \<and> lg_lot l \<le> cf_max_lot_per_leg cfg"
    if "l \<in> set legs" for l
  proof -
    note q = lf(4) [OF that [unfolded legs]]
    from q b [OF step] have "lot_step \<le> lg_lot l \<and> lg_lot l \<le> cap" by blast
    with q plan_sizing_cap [OF sz] pid show ?thesis by auto
  qed
  have r8: "sum_list (map lg_lot legs) = pl_total_lot p" unfolding legs lf(2) p by simp
  have r9: "pl_total_lot p \<le> cf_max_total_lot cfg" using b [OF step] unfolding p by auto
  show ?thesis using r1 r2 r3 r4 r5 r6 r7 r8 r9 cfg en ne by blast
qed

section \<open>Witnesses\<close>

definition no_caps :: risk_caps where
  "no_caps = \<lparr>rc_account_exposure = 240 / 100, rc_symbol_exposure = 240 / 100, rc_open_positions = 20,
     rc_daily_drawdown = 100, rc_margin_floor = 300, rc_margin_guard = True, rc_concurrent_groups = 10\<rparr>"

definition demo_env :: pipe_env where
  "demo_env = \<lparr>pe_settings = demo_gate_settings\<lparr>st_gate := False, st_hosted := False, st_now := 1000\<rparr>,
     pe_fleet = empty_fleet\<lparr>fl_accounts := [demo_account]\<rparr>, pe_health = (\<lambda>_. None), pe_profiles = [],
     pe_mt5_username = (\<lambda>_. Some ''trader''), pe_globally_disabled = False, pe_stop_gate = True,
     pe_chat_aware = False, pe_dual_write = False, pe_magic_send = False, pe_symbol_conflict = False,
     pe_strict_symbols = False, pe_multi_account = False, pe_require_node = False, pe_caps = no_caps,
     pe_today_start = 0, pe_parse_datetime = (\<lambda>_. None), pe_new_correlation = ''c1'',
     pe_order_check = (\<lambda>_ _. None), pe_margin_projection = (\<lambda>_. None)\<rparr>"

definition demo_config :: source_config where
  "demo_config = \<lparr>cf_source = ''wayond'', cf_enabled = True, cf_total_lot_target = 5 / 100,
     cf_max_lot_per_leg = 2 / 100, cf_max_total_lot = 6 / 100, cf_daily_group_cap = 24,
     cf_command_engine = True, cf_incremental = True\<rparr>"

definition demo_approval :: approval where
  "demo_approval = \<lparr>ap_id = 7, ap_source = ''wayond'', ap_chat_id = '''', ap_message_id = ''m1'',
     ap_symbol = ''EURUSD'', ap_direction = ''BUY'', ap_entry = ''1.1'', ap_stop_loss = ''1.0'',
     ap_take_profits = [''1.2'', ''1.3'', ''1.4''], ap_raw_payload = [], ap_correlation_id = ''c0'',
     ap_provider = Some ''wayond'', ap_status = ApApproved, ap_source_edited = False, ap_created_at = 900\<rparr>"

definition empty_db :: pipe_db where
  "empty_db = \<lparr>db_control = None, db_configs = [demo_config], db_assignments = [], db_instruments = [],
     db_approvals = [demo_approval], db_plans = [], db_legs = [], db_jobs = [], db_trades = [], db_audit = [], db_alerts = [], db_commands = [],
     db_next_plan = 1, db_next_job = 1\<rparr>"

definition demo_split :: "rat list" where
  "demo_split = [2 / 100, 2 / 100, 1 / 100]"

lemma demo_split_eq:
  "split_volume (Some (Finite (5 / 100))) 3 lot_step (2 / 100) (6 / 100) = Inr (demo_split, 5 / 100, False)"
  by code_simp

definition demo_plan :: plan where
  "demo_plan = (common_plan demo_env empty_db demo_approval demo_account None None)\<lparr>pl_total_lot := 5 / 100\<rparr>"

definition demo_planned :: pipe_db where
  "demo_planned = snd (plan_demo_execution demo_env demo_approval demo_account None None None empty_db)"

lemma demo_planned_eq:
  "plan_demo_execution demo_env demo_approval demo_account None None None empty_db = (Inr demo_plan, demo_planned)"
proof -
  have "fst (plan_demo_execution demo_env demo_approval demo_account None None None empty_db) = Inr demo_plan"
    by code_simp
  then show ?thesis unfolding demo_planned_def by (metis prod.collapse)
qed

lemma demo_no_plan: "existing_plan empty_db (ap_id demo_approval) (ac_id demo_account) = None"
  by code_simp

theorem split_volume_bounds_witness:
  "split_volume (Some (Finite (5 / 100))) 3 lot_step (2 / 100) (6 / 100) = Inr (demo_split, 5 / 100, False) \<and>
   sorted_wrt (\<ge>) demo_split"
  using split_volume_bounds [OF demo_split_eq] demo_split_eq by (simp add: lot_step_def)

theorem split_volume_exact_witness:
  "split_volume (Some (Finite (1 / 100))) 3 lot_step (of_int 2 * lot_step) (6 / 100) = Inl InsufficientTotal"
  using split_volume_exact [of lot_step 3 "1 / 100" "of_int 2 * lot_step" 2 "1 / 100" "6 / 100"]
  by (simp add: lot_step_def max_plan_legs_def)

theorem planning_idempotent_witness:
  "plan_demo_execution demo_env demo_approval demo_account None None None demo_planned
     = (Inr demo_plan, demo_planned)"
  using planning_idempotent [OF demo_planned_eq refl refl] .

theorem new_plan_within_policy_witness:
  "pl_total_lot demo_plan = 5 / 100 \<and> db_jobs demo_planned = []"
  using new_plan_within_policy [OF demo_no_plan demo_planned_eq]
  by (simp add: demo_plan_def empty_db_def)

end
