(* ===== verification/SignalPromotion.thy ===== *)
theory SignalPromotion
  imports SignalPlan "HOL-Library.Multiset"
begin

text \<open>
  Promotion (\<^verbatim>\<open>execution/signal_promotion.py\<close>) and the risk controls it runs
  (\<^verbatim>\<open>execution/risk_controls.py\<close>, \<^verbatim>\<open>hosted_workspace/margin_mode.py\<close>): a planned plan becomes one job
  per leg when every gate passes. Prices and margins are exact rationals where the margin guard
  computes with floats.
\<close>

section \<open>Margin mode\<close>

definition label_for :: "json \<Rightarrow> string" where
  "label_for raw =
     (case raw of
        JInt i \<Rightarrow> if i = 2 then ''HEDGING'' else if i = 0 then ''NETTING''
                  else if i = 1 then ''EXCHANGE'' else ''UNKNOWN''
      | _ \<Rightarrow> ''UNKNOWN'')"

definition supports_independent_same_symbol :: "string \<Rightarrow> bool" where
  "supports_independent_same_symbol l \<longleftrightarrow> l = ''HEDGING''"

definition margin_freshness_us :: int where
  "margin_freshness_us = 24 * 3600 * 1000000"

definition label_if_fresh :: "json \<Rightarrow> int option \<Rightarrow> int \<Rightarrow> string" where
  "label_if_fresh raw last_decision_at now =
     (case last_decision_at of
        None \<Rightarrow> ''UNKNOWN''
      | Some t \<Rightarrow> if now - t < 0 \<or> now - t > margin_freshness_us then ''UNKNOWN'' else label_for raw)"

definition account_margin_label :: "pipe_env \<Rightarrow> int \<Rightarrow> string" where
  "account_margin_label env account =
     (case pe_margin_projection env account of
        None \<Rightarrow> ''UNKNOWN'' | Some (raw, t) \<Rightarrow> label_if_fresh raw t (pe_now env))"

section \<open>Ownership\<close>

definition assignment_of :: "pipe_db \<Rightarrow> int \<Rightarrow> auto_assignment option" where
  "assignment_of db i = find (\<lambda>s. aa_id s = i) (db_assignments db)"

definition resolve_plan_assignment :: "pipe_db \<Rightarrow> plan \<Rightarrow> auto_assignment option" where
  "resolve_plan_assignment db p =
     (case Option.bind (pl_assignment p) (assignment_of db) of
        Some owner \<Rightarrow> if aa_account owner = pl_account p then Some owner else None
      | None \<Rightarrow>
          (case filter (\<lambda>s. aa_account s = pl_account p \<and> aa_source s = pl_source p \<and> aa_is_active s)
                  (db_assignments db) of
             [s] \<Rightarrow> Some s | _ \<Rightarrow> None))"

definition active_plan_statuses :: "plan_status set" where
  "active_plan_statuses = {PlPlanned, PlPromoted}"

definition foreign_symbol_owner_exists :: "pipe_db \<Rightarrow> int \<Rightarrow> string \<Rightarrow> int \<Rightarrow> nat \<Rightarrow> bool" where
  "foreign_symbol_owner_exists db account symbol owner exclude \<longleftrightarrow>
     list_ex (\<lambda>t. td_account t = account \<and> td_symbol t = symbol \<and> td_close_time t = None \<and>
                  td_assignment t \<noteq> Some owner) (db_trades db) \<or>
     list_ex (\<lambda>q. pl_account q = account \<and> pl_symbol q = symbol \<and> pl_status q \<in> active_plan_statuses \<and>
                  pl_assignment q \<noteq> Some owner \<and> pl_id q \<noteq> exclude) (db_plans db)"

definition evaluate_symbol_conflict :: "pipe_env \<Rightarrow> pipe_db \<Rightarrow> plan \<Rightarrow> auto_assignment option \<Rightarrow> string option" where
  "evaluate_symbol_conflict env db p owner =
     (if \<not> pe_symbol_conflict env then None
      else
        let label = account_margin_label env (pl_account p);
            reason = (if label = ''NETTING'' then ''multi_strategy_netting_symbol_conflict''
                      else if label = ''EXCHANGE'' then ''exchange_mode_multi_strategy_uncertified''
                      else ''margin_mode_unknown_multi_strategy_conflict'') in
        if supports_independent_same_symbol label then None
        else case owner of
          None \<Rightarrow> Some reason
        | Some s \<Rightarrow>
            if foreign_symbol_owner_exists db (pl_account p) (pl_symbol p) (aa_id s) (pl_id p)
            then Some reason else None)"

section \<open>Risk state\<close>

definition require_terminal_node :: "pipe_env \<Rightarrow> bool" where
  "require_terminal_node env \<longleftrightarrow> pe_require_node env \<or> pe_multi_account env"

definition node_assignment_block_reason :: "pipe_env \<Rightarrow> trading_account \<Rightarrow> string option" where
  "node_assignment_block_reason env a =
     (if \<not> require_terminal_node env then None
      else case node_of (pe_fleet env) (ac_terminal_node a) of
        None \<Rightarrow> Some ''account_node_unassigned''
      | Some n \<Rightarrow> if en_status n \<noteq> NodeActive then Some ''node_not_active'' else None)"

text \<open>An absent or empty symbol does not filter.\<close>

definition symbol_matches :: "string option \<Rightarrow> string \<Rightarrow> bool" where
  "symbol_matches f s \<longleftrightarrow> f = None \<or> f = Some '''' \<or> f = Some s"

definition open_trades :: "pipe_db \<Rightarrow> int \<Rightarrow> string option \<Rightarrow> trade list" where
  "open_trades db account symbol =
     filter (\<lambda>t. td_account t = account \<and> td_close_time t = None \<and> symbol_matches symbol (td_symbol t))
       (db_trades db)"

definition open_position_lots :: "pipe_db \<Rightarrow> int \<Rightarrow> string option \<Rightarrow> rat" where
  "open_position_lots db account symbol = sum_list (map td_volume (open_trades db account symbol))"

definition open_comments :: "pipe_db \<Rightarrow> int \<Rightarrow> string option \<Rightarrow> string list" where
  "open_comments db account symbol = filter (\<lambda>c. c \<noteq> '''') (map td_comment (open_trades db account symbol))"

definition in_flight_plan :: "pipe_db \<Rightarrow> int \<Rightarrow> string option \<Rightarrow> nat option \<Rightarrow> nat \<Rightarrow> bool" where
  "in_flight_plan db account symbol exclude i \<longleftrightarrow>
     (case find_plan db i of
        None \<Rightarrow> False
      | Some p \<Rightarrow> pl_account p = account \<and> pl_status p = PlPromoted \<and> symbol_matches symbol (pl_symbol p) \<and>
                  exclude \<noteq> Some i)"

definition active_signal_lots :: "pipe_db \<Rightarrow> int \<Rightarrow> string option \<Rightarrow> nat option \<Rightarrow> rat" where
  "active_signal_lots db account symbol exclude =
     sum_list (map lg_lot
       (filter (\<lambda>l. in_flight_plan db account symbol exclude (lg_plan l) \<and>
                    leg_comment (lg_plan l) (lg_index l) \<notin> set (open_comments db account symbol)) (db_legs db)))"

definition order_opening_jobs :: "job_type set" where
  "order_opening_jobs = {OpenTrade, PlaceOrder, PlaceOrderShadow}"

definition open_positions_count :: "pipe_db \<Rightarrow> int \<Rightarrow> nat" where
  "open_positions_count db account =
     length (open_trades db account None) +
     length (filter (\<lambda>j. jb_account j = account \<and> jb_status j \<in> {JbPending, JbRunning} \<and>
                          jb_type j \<in> order_opening_jobs) (db_jobs db))"

definition today_realized_pnl :: "pipe_env \<Rightarrow> pipe_db \<Rightarrow> int \<Rightarrow> rat" where
  "today_realized_pnl env db account =
     sum_list (map td_profit
       (filter (\<lambda>t. td_account t = account \<and>
                    (case td_close_time t of None \<Rightarrow> False | Some c \<Rightarrow> pe_today_start env \<le> c)) (db_trades db)))"

section \<open>Risk controls\<close>

text \<open>
  The free-margin guard. No answer of the bridge, and every field it needs missing, blocks; a zero
  equity counts as missing.
\<close>

definition margin_guard_reason :: "pipe_env \<Rightarrow> plan \<Rightarrow> leg list \<Rightarrow> rat \<Rightarrow> string option" where
  "margin_guard_reason env p legs new_total =
     (if \<not> rc_margin_guard (pe_caps env) then None
      else if new_total \<le> max_total_lot_per_signal then None
      else case legs of
        [] \<Rightarrow> Some ''margin_unverifiable''
      | l # _ \<Rightarrow>
          if lg_lot l \<le> 0 then Some ''margin_unverifiable''
          else case pe_order_check env p l of
            None \<Rightarrow> Some ''margin_unverifiable''
          | Some oc \<Rightarrow>
              (case (oc_equity oc, oc_margin oc, oc_free_margin oc) of
                 (Some equity, Some leg_margin, Some free_after) \<Rightarrow>
                   if equity = 0 \<or> leg_margin \<le> 0 then Some ''margin_unverifiable''
                   else
                     let used_before = equity - free_after - leg_margin;
                         projected = used_before + new_total * (leg_margin / lg_lot l) in
                     if projected \<le> 0 then None
                     else if equity / projected * 100 < rc_margin_floor (pe_caps env)
                     then Some ''margin_level_too_low'' else None
               | _ \<Rightarrow> Some ''margin_unverifiable''))"

definition account_exposure :: "pipe_db \<Rightarrow> int \<Rightarrow> string option \<Rightarrow> nat option \<Rightarrow> rat" where
  "account_exposure db account symbol exclude =
     open_position_lots db account symbol + active_signal_lots db account symbol exclude"

definition other_active_plans :: "pipe_db \<Rightarrow> plan \<Rightarrow> nat" where
  "other_active_plans db p =
     length (filter (\<lambda>q. pl_account q = pl_account p \<and> pl_symbol q = pl_symbol p \<and>
                          pl_status q \<in> active_plan_statuses \<and> pl_id q \<noteq> pl_id p) (db_plans db))"

definition evaluate_promotion_risk ::
  "pipe_env \<Rightarrow> pipe_db \<Rightarrow> trading_account \<Rightarrow> plan \<Rightarrow> leg list \<Rightarrow> string option" where
  "evaluate_promotion_risk env db a p legs =
     (let account = pl_account p; symbol = pl_symbol p; caps = pe_caps env;
          new_total = sum_list (map lg_lot legs) in
      case node_assignment_block_reason env a of
        Some r \<Rightarrow> Some r
      | None \<Rightarrow>
          if account_exposure db account None (Some (pl_id p)) + new_total > rc_account_exposure caps
          then Some ''account_exposure_exceeded''
          else if account_exposure db account (Some symbol) (Some (pl_id p)) + new_total > rc_symbol_exposure caps
          then Some ''symbol_exposure_exceeded''
          else if open_positions_count db account \<ge> rc_open_positions caps
          then Some ''max_open_positions_reached''
          else if today_realized_pnl env db account \<le> - rc_daily_drawdown caps
          then Some ''daily_drawdown_hit''
          else case margin_guard_reason env p legs new_total of
            Some r \<Rightarrow> Some r
          | None \<Rightarrow>
              if other_active_plans db p \<ge> rc_concurrent_groups caps
              then Some ''concurrent_position_limit'' else None)"

section \<open>Validation at promotion\<close>

fun leg_sizes_refusal :: "rat \<Rightarrow> rat \<Rightarrow> rat \<Rightarrow> leg list \<Rightarrow> string option" where
  "leg_sizes_refusal cap total_cap tot [] = (if tot > total_cap then Some ''total_lot_exceeds_cap'' else None)"
| "leg_sizes_refusal cap total_cap tot (l # ls) =
     (if lg_take_profit l = '''' then Some ''missing_take_profit''
      else if lg_lot l \<le> 0 \<or> lg_lot l > cap then Some ''lot_out_of_range''
      else leg_sizes_refusal cap total_cap (tot + lg_lot l) ls)"

definition promotion_refusal ::
  "pipe_env \<Rightarrow> pipe_db \<Rightarrow> trading_account \<Rightarrow> signal_mode \<Rightarrow> symbol_resolution \<Rightarrow> plan \<Rightarrow> string option" where
  "promotion_refusal env db a expected res p =
     (if pl_status p \<noteq> PlPlanned then Some ''plan_not_planned''
      else if xc_mode (get_solo db) \<noteq> expected then Some ''execution_mode_mismatch''
      else case order_creation_kill_reason env db of
        Some r \<Rightarrow> Some r
      | None \<Rightarrow>
      if \<not> (case config_of db (pl_source p) of None \<Rightarrow> False | Some cfg \<Rightarrow> cf_enabled cfg)
      then Some ''source_not_enabled''
      else if \<not> env_admitted env a then Some ''account_not_demo''
      else
        let (allowed, reason) = evaluate_execution_gate (pe_settings env) (pe_fleet env) (Some a) in
        if \<not> allowed then Some (''broker_gate_'' @ reason)
        else if is_broker_paused (pe_settings env) (pe_health env (ac_id a)) then Some ''broker_gate_paused''
        else case res of
          SymRejected r \<Rightarrow> Some r
        | SymAccepted _ _ \<Rightarrow>
        if pl_stop_loss p = '''' then Some ''missing_stop_loss''
        else if legs_of db (pl_id p) = [] then Some ''no_legs''
        else case pl_signal_timestamp p of
          None \<Rightarrow> Some ''no_signal_timestamp''
        | Some t \<Rightarrow>
        if pe_now env - t > signal_max_age_us then Some ''stale_signal''
        else
          let (cap, total_cap) = sizing_caps db (pl_source p) in
          case leg_sizes_refusal cap total_cap 0 (legs_of db (pl_id p)) of
            Some r \<Rightarrow> Some r
          | None \<Rightarrow>
              (case evaluate_promotion_risk env db a p (legs_of db (pl_id p)) of
                 Some r \<Rightarrow> Some r
               | None \<Rightarrow> evaluate_symbol_conflict env db p (resolve_plan_assignment db p)))"

section \<open>Order payload\<close>

definition pad_zeros :: "nat \<Rightarrow> string \<Rightarrow> string" where
  "pad_zeros k s = replicate (k - length s) (CHR ''0'') @ s"

text \<open>\<open>str\<close> of a non-negative \<open>Decimal\<close> with two places, as the lot columns store it.\<close>

definition lot_text :: "rat \<Rightarrow> string" where
  "lot_text x = (let cents = nat \<lfloor>x * 100\<rfloor>
                 in digits_of (cents div 100) @ ''.'' @ pad_zeros 2 (digits_of (cents mod 100)))"

text \<open>\<open>datetime.isoformat\<close> of a UTC instant, with the civil date from the day number.\<close>

definition civil_from_days :: "int \<Rightarrow> int \<times> int \<times> int" where
  "civil_from_days days =
     (let z = days + 719468; era = z div 146097; doe = z mod 146097;
          yoe = (doe - doe div 1460 + doe div 36524 - doe div 146096) div 365;
          doy = doe - (365 * yoe + yoe div 4 - yoe div 100);
          mp = (5 * doy + 2) div 153;
          m = (if mp < 10 then mp + 3 else mp - 9)
      in (yoe + era * 400 + (if m \<le> 2 then 1 else 0), m, doy - (153 * mp + 2) div 5 + 1))"

definition two :: "int \<Rightarrow> string" where
  "two i = pad_zeros 2 (digits_of (nat i))"

definition isoformat :: "int \<Rightarrow> string" where
  "isoformat us =
     (let secs = us div 1000000; micro = us mod 1000000; s = secs mod 86400;
          (y, m, d) = civil_from_days (secs div 86400)
      in pad_zeros 4 (digits_of (nat y)) @ ''-'' @ two m @ ''-'' @ two d @ ''T'' @ two (s div 3600) @ '':'' @
         two (s div 60 mod 60) @ '':'' @ two (s mod 60) @
         (if micro = 0 then '''' else ''.'' @ pad_zeros 6 (digits_of (nat micro))) @ ''+00:00'')"

definition order_payload ::
  "pipe_env \<Rightarrow> pipe_db \<Rightarrow> plan \<Rightarrow> leg \<Rightarrow> string \<Rightarrow> string \<Rightarrow> int option \<Rightarrow> (string \<times> json) list" where
  "order_payload env db p l mode broker_symbol magic =
     [(''symbol'', JStr (if broker_symbol = '''' then pl_symbol p else broker_symbol)),
      (''provider_symbol'', JStr (pl_symbol p)), (''side'', JStr (pl_direction p)),
      (''lots'', JStr (lot_text (lg_lot l))), (''sl_price'', JStr (pl_stop_loss p)),
      (''tp_price'', JStr (lg_take_profit l)), (''entry_price'', JNull),
      (''is_demo'', JBool (pl_is_demo p)), (''execution_mode'', JStr mode),
      (''comment'', JStr (leg_comment (pl_id p) (lg_index l))), (''plan_id'', JInt (int (pl_id p))),
      (''leg_index'', JInt (int (lg_index l))), (''signal_source'', JStr (pl_source p)),
      (''max_lot'', JStr (lot_text (fst (sizing_caps db (pl_source p))))),
      (''correlation_id'', JStr (pl_correlation_id p)),
      (''signal_timestamp'', case pl_signal_timestamp p of None \<Rightarrow> JNull | Some t \<Rightarrow> JStr (isoformat t)),
      (''windows_username'', case pe_mt5_username env (pl_account p) of None \<Rightarrow> JNull | Some u \<Rightarrow> JStr u)] @
     (case magic of None \<Rightarrow> [] | Some i \<Rightarrow> [(''magic'', JInt i)])"

section \<open>Promotion\<close>

datatype promotion_error = PromotionRejected string | PromotionFailed save_error | AccountMissing

definition existing_jobs :: "pipe_db \<Rightarrow> nat \<Rightarrow> nat list" where
  "existing_jobs db p = List.map_filter lg_job (legs_of db p)"

definition mode_text :: "signal_mode \<Rightarrow> string" where
  "mode_text m = (case m of ModeShadow \<Rightarrow> ''SHADOW'' | ModeDemo \<Rightarrow> ''DEMO'' | ModeOther s \<Rightarrow> s)"

definition promotion_owner :: "pipe_env \<Rightarrow> pipe_db \<Rightarrow> plan \<Rightarrow> auto_assignment option" where
  "promotion_owner env db p = (if pe_dual_write env then resolve_plan_assignment db p else None)"

definition promotion_magic :: "pipe_env \<Rightarrow> signal_mode \<Rightarrow> auto_assignment option \<Rightarrow> int option" where
  "promotion_magic env mode owner =
     (if pe_magic_send env \<and> mode = ModeDemo then Option.bind owner aa_magic else None)"

text \<open>The loop over the legs, inside the transaction: a leg that has a job keeps it.\<close>

fun promote_legs ::
  "pipe_env \<Rightarrow> job_type \<Rightarrow> signal_mode \<Rightarrow> trading_account \<Rightarrow> plan \<Rightarrow> string \<Rightarrow> leg list \<Rightarrow> pipe_db
     \<Rightarrow> (save_error, nat list, pipe_db) outcome" where
  "promote_legs env ty mode a p bsym [] db = (Inr [], db)"
| "promote_legs env ty mode a p bsym (l # ls) db =
     (case lg_job l of
        Some j \<Rightarrow>
          (case promote_legs env ty mode a p bsym ls db of
             (Inl e, db') \<Rightarrow> (Inl e, db') | (Inr js, db') \<Rightarrow> (Inr (j # js), db'))
      | None \<Rightarrow>
          (let owner = promotion_owner env db p in
           case create_job env ty a (map_option aa_id owner)
                  (order_payload env db p l (mode_text mode) bsym (promotion_magic env mode owner)) db of
             (Inl e, db') \<Rightarrow> (Inl e, db')
           | (Inr j, db1) \<Rightarrow>
               (let db2 = add_audit ''JOB_CREATED'' (Some (pl_id p)) (Some (pl_approval p)) ''''
                     (update_leg (lg_plan l) (lg_index l)
                        (\<lambda>x. x\<lparr>lg_job := Some (jb_id j), lg_status := LgPromoted\<rparr>) db1)
                in case promote_legs env ty mode a p bsym ls db2 of
                     (Inl e, db') \<Rightarrow> (Inl e, db')
                   | (Inr js, db') \<Rightarrow> (Inr (jb_id j # js), db'))))"

text \<open>
  The code validates before its transaction and takes no lock on the plan, so a promotion is two steps
  with a gap in between: the check, which loads the account, the broker symbol and the legs, and the
  transaction, which works with what was loaded on whatever the tables hold by then. A refusal leaves an
  audit row; an exception inside the transaction leaves nothing.
\<close>

record promotion_load =
  po_account :: trading_account
  po_symbol :: string
  po_legs :: "leg list"

definition check_promotion ::
  "pipe_env \<Rightarrow> signal_mode \<Rightarrow> plan \<Rightarrow> pipe_db \<Rightarrow> (promotion_error, promotion_load, pipe_db) outcome" where
  "check_promotion env mode p db =
     (case account_by_id env (pl_account p) of
        None \<Rightarrow> (Inl AccountMissing, db)
      | Some a \<Rightarrow>
          (let res = can_account_trade_symbol env db (pl_account p) (pl_symbol p) in
           case promotion_refusal env db a mode res p of
             Some code \<Rightarrow> (Inl (PromotionRejected code),
                           add_audit ''PROMOTION_REJECTED'' (Some (pl_id p)) (Some (pl_approval p)) code db)
           | None \<Rightarrow> (Inr \<lparr>po_account = a, po_symbol = (case res of SymAccepted _ b \<Rightarrow> b | SymRejected _ \<Rightarrow> ''''),
                          po_legs = legs_of db (pl_id p)\<rparr>, db)))"

definition perform_promotion ::
  "pipe_env \<Rightarrow> signal_mode \<Rightarrow> job_type \<Rightarrow> plan \<Rightarrow> promotion_load \<Rightarrow> pipe_db
     \<Rightarrow> (promotion_error, nat list, pipe_db) outcome" where
  "perform_promotion env mode ty p po db =
     (case promote_legs env ty mode (po_account po) p (po_symbol po) (po_legs po) db of
        (Inl e, _) \<Rightarrow> (Inl (PromotionFailed e), db)
      | (Inr js, db') \<Rightarrow>
          (Inr js, add_audit ''PROMOTION_CREATED'' (Some (pl_id p)) (Some (pl_approval p)) ''''
                     (update_plan (pl_id p) (\<lambda>q. q\<lparr>pl_status := PlPromoted\<rparr>) db')))"

text \<open>A promotion nothing interrupts.\<close>

definition promote_plan ::
  "pipe_env \<Rightarrow> signal_mode \<Rightarrow> job_type \<Rightarrow> plan \<Rightarrow> pipe_db \<Rightarrow> (promotion_error, nat list, pipe_db) outcome" where
  "promote_plan env mode ty p db =
     (if pl_status p = PlPromoted then (Inr (existing_jobs db (pl_id p)), db)
      else case check_promotion env mode p db of
        (Inl e, db') \<Rightarrow> (Inl e, db')
      | (Inr po, db') \<Rightarrow> perform_promotion env mode ty p po db')"

lemma promote_plan_unfold:
  "promote_plan env mode ty p db =
     (if pl_status p = PlPromoted then (Inr (existing_jobs db (pl_id p)), db)
      else case account_by_id env (pl_account p) of
        None \<Rightarrow> (Inl AccountMissing, db)
      | Some a \<Rightarrow>
          (let res = can_account_trade_symbol env db (pl_account p) (pl_symbol p) in
           case promotion_refusal env db a mode res p of
             Some code \<Rightarrow> (Inl (PromotionRejected code),
                           add_audit ''PROMOTION_REJECTED'' (Some (pl_id p)) (Some (pl_approval p)) code db)
           | None \<Rightarrow>
               (case promote_legs env ty mode a p
                       (case res of SymAccepted _ b \<Rightarrow> b | SymRejected _ \<Rightarrow> '''') (legs_of db (pl_id p)) db of
                  (Inl e, _) \<Rightarrow> (Inl (PromotionFailed e), db)
                | (Inr js, db') \<Rightarrow>
                    (Inr js, add_audit ''PROMOTION_CREATED'' (Some (pl_id p)) (Some (pl_approval p)) ''''
                               (update_plan (pl_id p) (\<lambda>q. q\<lparr>pl_status := PlPromoted\<rparr>) db')))))"
  by (simp add: promote_plan_def check_promotion_def perform_promotion_def Let_def split: option.split)

definition promote_plan_to_shadow_jobs :: "pipe_env \<Rightarrow> plan \<Rightarrow> pipe_db \<Rightarrow> (promotion_error, nat list, pipe_db) outcome" where
  "promote_plan_to_shadow_jobs env = promote_plan env ModeShadow PlaceOrderShadow"

definition promote_plan_to_demo_jobs :: "pipe_env \<Rightarrow> plan \<Rightarrow> pipe_db \<Rightarrow> (promotion_error, nat list, pipe_db) outcome" where
  "promote_plan_to_demo_jobs env = promote_plan env ModeDemo PlaceOrder"

section \<open>What a promotion stores\<close>

definition leg_key :: "leg \<Rightarrow> nat \<times> nat" where
  "leg_key l = (lg_plan l, lg_index l)"

definition assign_jobs :: "((nat \<times> nat) \<times> nat) list \<Rightarrow> leg \<Rightarrow> leg" where
  "assign_jobs al l = (case map_of al (leg_key l) of
     None \<Rightarrow> l | Some j \<Rightarrow> l\<lparr>lg_job := Some j, lg_status := LgPromoted\<rparr>)"

lemma assign_jobs_simps [simp]:
  "lg_plan (assign_jobs al l) = lg_plan l" "lg_index (assign_jobs al l) = lg_index l"
  "lg_lot (assign_jobs al l) = lg_lot l" "leg_key (assign_jobs al l) = leg_key l"
  "lg_take_profit (assign_jobs al l) = lg_take_profit l" "lg_stage (assign_jobs al l) = lg_stage l"
  by (simp_all add: assign_jobs_def leg_key_def split: option.splits)

text \<open>The job of one leg: its type, state and account, and the payload the guards pinned.\<close>

definition job_for ::
  "pipe_env \<Rightarrow> pipe_db \<Rightarrow> job_type \<Rightarrow> signal_mode \<Rightarrow> trading_account \<Rightarrow> plan \<Rightarrow> string \<Rightarrow> job \<Rightarrow> leg \<Rightarrow> bool" where
  "job_for env db ty mode a p bsym j l \<longleftrightarrow>
     jb_type j = ty \<and> jb_status j = JbPending \<and> jb_account j = ac_id a \<and> jb_node j = ac_terminal_node a \<and>
     save_guards env db ty a = None \<and>
     pinned_payload env ty a (order_payload env db p l (mode_text mode) bsym
        (promotion_magic env mode (promotion_owner env db p))) = Some (jb_payload j)"

definition promotion_frame :: "pipe_db \<Rightarrow> pipe_db \<Rightarrow> bool" where
  "promotion_frame db db' \<longleftrightarrow>
     db_trades db' = db_trades db \<and> db_control db' = db_control db \<and> db_configs db' = db_configs db \<and>
     db_assignments db' = db_assignments db \<and> db_instruments db' = db_instruments db \<and>
     db_approvals db' = db_approvals db \<and> db_next_plan db' = db_next_plan db"

lemma promotion_frame_trans: "promotion_frame a b \<Longrightarrow> promotion_frame b c \<Longrightarrow> promotion_frame a c"
  by (simp add: promotion_frame_def)

lemma create_job_InrD:
  assumes "create_job env ty a owner payload db = (Inr j, db')"
  shows "save_guards env db ty a = None \<and> pinned_payload env ty a payload = Some (jb_payload j) \<and>
         jb_id j = db_next_job db \<and> jb_type j = ty \<and> jb_status j = JbPending \<and> jb_account j = ac_id a \<and>
         jb_node j = ac_terminal_node a \<and>
         db' = db\<lparr>db_jobs := db_jobs db @ [j], db_next_job := Suc (db_next_job db)\<rparr>"
  using assms by (auto simp: create_job_def new_job_def Let_def split: option.splits)

lemma frame_congs:
  assumes "promotion_frame db db'"
  shows "order_payload env db' p l m b g = order_payload env db p l m b g"
    "promotion_owner env db' q = promotion_owner env db q"
    "save_guards env db' ty a = save_guards env db ty a"
proof -
  show "order_payload env db' p l m b g = order_payload env db p l m b g"
    using assms unfolding order_payload_def sizing_caps_def promotion_frame_def by simp
  have "assignment_of db' = assignment_of db"
    using assms unfolding assignment_of_def promotion_frame_def by (intro ext) simp
  moreover have "db_assignments db' = db_assignments db" using assms by (simp add: promotion_frame_def)
  ultimately show "promotion_owner env db' q = promotion_owner env db q"
    by (simp only: promotion_owner_def resolve_plan_assignment_def)
  show "save_guards env db' ty a = save_guards env db ty a"
    using assms unfolding save_guards_def order_creation_kill_reason_def promotion_frame_def by simp
qed

lemma map_of_zip_notin: "k \<notin> set ks \<Longrightarrow> map_of (zip ks vs) k = None"
  by (metis map_of_SomeD not_None_eq set_zip_leftD)

lemma promote_legs_result:
  assumes "promote_legs env ty mode a p bsym ls db = (Inr js, db')"
    and "\<forall>l \<in> set ls. lg_job l = None" and "distinct (map leg_key ls)"
  shows "\<exists>new. db_jobs db' = db_jobs db @ new \<and> js = map jb_id new \<and>
           js = [db_next_job db ..< db_next_job db + length ls] \<and> db_next_job db' = db_next_job db + length ls \<and>
           list_all2 (job_for env db ty mode a p bsym) new ls \<and>
           db_legs db' = map (assign_jobs (zip (map leg_key ls) js)) (db_legs db) \<and>
           db_plans db' = db_plans db \<and> promotion_frame db db'"
  using assms
proof (induction ls arbitrary: db js)
  case Nil
  then show ?case by (auto simp: assign_jobs_def promotion_frame_def intro!: exI [of _ "[]"])
next
  case (Cons l ls)
  let ?pay = "order_payload env db p l (mode_text mode) bsym (promotion_magic env mode (promotion_owner env db p))"
  from Cons.prems(1,2) obtain j db1 js1 where
    c: "create_job env ty a (map_option aa_id (promotion_owner env db p)) ?pay db = (Inr j, db1)" and
    rest: "promote_legs env ty mode a p bsym ls (add_audit ''JOB_CREATED'' (Some (pl_id p)) (Some (pl_approval p)) ''''
        (update_leg (lg_plan l) (lg_index l) (\<lambda>x. x\<lparr>lg_job := Some (jb_id j), lg_status := LgPromoted\<rparr>) db1))
        = (Inr js1, db')" and js: "js = jb_id j # js1"
    by (auto simp: Let_def split: prod.splits sum.splits)
  let ?db2 = "add_audit ''JOB_CREATED'' (Some (pl_id p)) (Some (pl_approval p)) ''''
        (update_leg (lg_plan l) (lg_index l) (\<lambda>x. x\<lparr>lg_job := Some (jb_id j), lg_status := LgPromoted\<rparr>) db1)"
  note cj = create_job_InrD [OF c]
  have fr: "promotion_frame db ?db2" using cj by (simp add: promotion_frame_def update_leg_def)
  have plans: "db_plans ?db2 = db_plans db" using cj by (simp add: update_leg_def)
  have nj: "db_next_job ?db2 = Suc (db_next_job db)" using cj by (simp add: update_leg_def)
  have jobs: "db_jobs ?db2 = db_jobs db @ [j]" using cj by (simp add: update_leg_def)
  have legs: "db_legs ?db2 = map (\<lambda>x. if leg_key x = leg_key l
      then x\<lparr>lg_job := Some (jb_id j), lg_status := LgPromoted\<rparr> else x) (db_legs db)"
    using cj by (simp add: update_leg_def leg_key_def)
  from Cons.IH [OF rest] Cons.prems(2,3) obtain new where
    n1: "db_jobs db' = db_jobs ?db2 @ new" and n2: "js1 = map jb_id new"
    and n3: "js1 = [db_next_job ?db2 ..< db_next_job ?db2 + length ls]"
    and n4: "db_next_job db' = db_next_job ?db2 + length ls"
    and n5: "list_all2 (job_for env ?db2 ty mode a p bsym) new ls"
    and n6: "db_legs db' = map (assign_jobs (zip (map leg_key ls) js1)) (db_legs ?db2)"
    and n7: "db_plans db' = db_plans ?db2" and n8: "promotion_frame ?db2 db'" by auto
  have jf: "job_for env ?db2 ty mode a p bsym = job_for env db ty mode a p bsym"
    unfolding job_for_def frame_congs [OF fr] by (rule refl)
  have this_job: "job_for env db ty mode a p bsym j l" using cj unfolding job_for_def by simp
  have nd: "leg_key l \<notin> set (map leg_key ls)" using Cons.prems(3) by simp
  then have none: "map_of (zip (map leg_key ls) js1) (leg_key l) = None" by (rule map_of_zip_notin)
  have "assign_jobs (zip (map leg_key ls) js1) (if leg_key x = leg_key l
          then x\<lparr>lg_job := Some (jb_id j), lg_status := LgPromoted\<rparr> else x) =
        assign_jobs (zip (map leg_key (l # ls)) js) x" for x
  proof (cases "leg_key x = leg_key l")
    case True
    have "leg_key (x\<lparr>lg_job := Some (jb_id j), lg_status := LgPromoted\<rparr>) = leg_key x" by (simp add: leg_key_def)
    with True none show ?thesis by (simp add: assign_jobs_def js)
  next
    case False then show ?thesis by (simp add: assign_jobs_def js)
  qed
  then have lg: "db_legs db' = map (assign_jobs (zip (map leg_key (l # ls)) js)) (db_legs db)"
    unfolding n6 legs by simp
  have upt: "js = [db_next_job db ..< db_next_job db + length (l # ls)]"
  proof -
    have "js1 = [Suc (db_next_job db) ..< db_next_job db + Suc (length ls)]" using n3 unfolding nj by simp
    moreover have "jb_id j = db_next_job db" using cj by blast
    ultimately show ?thesis unfolding js by (simp add: upt_conv_Cons del: upt_Suc)
  qed
  have nj': "db_next_job db' = db_next_job db + length (l # ls)" using n4 nj by simp
  have la: "list_all2 (job_for env db ty mode a p bsym) (j # new) (l # ls)"
    using n5 [unfolded jf] this_job by simp
  show ?case
  proof (intro exI [of _ "j # new"] conjI lg upt nj' la promotion_frame_trans [OF fr n8])
    show "db_jobs db' = db_jobs db @ j # new" unfolding n1 jobs by simp
    show "js = map jb_id (j # new)" unfolding js n2 by simp
    show "db_plans db' = db_plans db" unfolding n7 by (rule plans)
  qed
qed

section \<open>Properties of promotion\<close>

text \<open>A plan as the planner stored it: its row is the one in the table and no leg has a job yet.\<close>

definition freshly_planned :: "pipe_db \<Rightarrow> plan \<Rightarrow> bool" where
  "freshly_planned db p \<longleftrightarrow>
     pl_status p = PlPlanned \<and> find_plan db (pl_id p) = Some p \<and>
     (\<forall>l \<in> set (legs_of db (pl_id p)). lg_job l = None) \<and> distinct (map lg_index (legs_of db (pl_id p)))"

lemma legs_of_plan: "l \<in> set (legs_of db i) \<Longrightarrow> lg_plan l = i"
  by (simp add: legs_of_def)

lemma distinct_leg_keys:
  assumes "distinct (map lg_index (legs_of db i))"
  shows "distinct (map leg_key (legs_of db i))"
proof -
  have "map leg_key (legs_of db i) = map (Pair i) (map lg_index (legs_of db i))"
    by (auto simp: leg_key_def dest: legs_of_plan)
  then show ?thesis using assms by (simp add: distinct_map inj_on_def del: map_map)
qed

lemma promote_plan_InrD:
  assumes "promote_plan env mode ty p db = (Inr js, db')" and "pl_status p \<noteq> PlPromoted"
  obtains a b why db1 where "account_by_id env (pl_account p) = Some a"
    "can_account_trade_symbol env db (pl_account p) (pl_symbol p) = SymAccepted why b"
    "promotion_refusal env db a mode (SymAccepted why b) p = None"
    "promote_legs env ty mode a p b (legs_of db (pl_id p)) db = (Inr js, db1)"
    "db' = add_audit ''PROMOTION_CREATED'' (Some (pl_id p)) (Some (pl_approval p)) ''''
             (update_plan (pl_id p) (\<lambda>q. q\<lparr>pl_status := PlPromoted\<rparr>) db1)"
proof -
  from assms obtain a where a: "account_by_id env (pl_account p) = Some a"
    by (auto simp: promote_plan_unfold split: option.splits)
  let ?res = "can_account_trade_symbol env db (pl_account p) (pl_symbol p)"
  have ref: "promotion_refusal env db a mode ?res p = None"
    using assms a by (auto simp: promote_plan_unfold Let_def split: option.splits prod.splits sum.splits)
  then obtain why b where res: "?res = SymAccepted why b"
    by (cases ?res) (auto simp: promotion_refusal_def split: if_splits option.splits prod.splits)
  from assms a ref res obtain db1 where
    "promote_legs env ty mode a p b (legs_of db (pl_id p)) db = (Inr js, db1)"
    "db' = add_audit ''PROMOTION_CREATED'' (Some (pl_id p)) (Some (pl_approval p)) ''''
             (update_plan (pl_id p) (\<lambda>q. q\<lparr>pl_status := PlPromoted\<rparr>) db1)"
    by (auto simp: promote_plan_unfold Let_def split: prod.splits sum.splits)
  with a res ref show thesis using that by metis
qed

lemma leg_sizes_refusal_NoneD:
  "leg_sizes_refusal cap total_cap t ls = None \<Longrightarrow>
     (\<forall>l \<in> set ls. lg_take_profit l \<noteq> '''' \<and> 0 < lg_lot l \<and> lg_lot l \<le> cap) \<and>
     t + sum_list (map lg_lot ls) \<le> total_cap"
proof (induction ls arbitrary: t)
  case Nil then show ?case by (simp split: if_splits)
next
  case (Cons l ls)
  from Cons.prems have ok: "lg_take_profit l \<noteq> ''''" "0 < lg_lot l" "lg_lot l \<le> cap"
    and rest: "leg_sizes_refusal cap total_cap (t + lg_lot l) ls = None" by (auto split: if_splits)
  from Cons.IH [OF rest] ok show ?case by (simp add: add.assoc)
qed

lemma promotion_refusal_NoneD:
  assumes "promotion_refusal env db a mode res p = None"
  shows "xc_mode (get_solo db) = mode" "order_creation_kill_reason env db = None" "env_admitted env a"
    "fst (evaluate_execution_gate (pe_settings env) (pe_fleet env) (Some a))"
    "\<not> is_broker_paused (pe_settings env) (pe_health env (ac_id a))"
    "pl_stop_loss p \<noteq> ''''" "legs_of db (pl_id p) \<noteq> []"
    "\<exists>t. pl_signal_timestamp p = Some t \<and> pe_now env - t \<le> signal_max_age_us"
    "leg_sizes_refusal (fst (sizing_caps db (pl_source p))) (snd (sizing_caps db (pl_source p))) 0
       (legs_of db (pl_id p)) = None"
    "evaluate_promotion_risk env db a p (legs_of db (pl_id p)) = None"
    "evaluate_symbol_conflict env db p (resolve_plan_assignment db p) = None"
  using assms unfolding promotion_refusal_def
  by (auto simp: Let_def split: if_splits option.splits prod.splits symbol_resolution.splits)

lemma promotion_risk_NoneD:
  assumes "evaluate_promotion_risk env db a p legs = None"
  shows "account_exposure db (pl_account p) None (Some (pl_id p)) + sum_list (map lg_lot legs)
           \<le> rc_account_exposure (pe_caps env)"
    "account_exposure db (pl_account p) (Some (pl_symbol p)) (Some (pl_id p)) + sum_list (map lg_lot legs)
       \<le> rc_symbol_exposure (pe_caps env)"
    "open_positions_count db (pl_account p) < rc_open_positions (pe_caps env)"
    "- rc_daily_drawdown (pe_caps env) < today_realized_pnl env db (pl_account p)"
    "margin_guard_reason env p legs (sum_list (map lg_lot legs)) = None"
    "other_active_plans db p < rc_concurrent_groups (pe_caps env)"
    "node_assignment_block_reason env a = None"
  using assms unfolding evaluate_promotion_risk_def
  by (auto simp: Let_def split: if_splits option.splits)

lemma margin_guard_NoneD:
  assumes "margin_guard_reason env p legs tot = None" "rc_margin_guard (pe_caps env)"
    "tot > max_total_lot_per_signal"
  shows "\<exists>l ls oc equity margin free. legs = l # ls \<and> pe_order_check env p l = Some oc \<and>
           oc_equity oc = Some equity \<and> oc_margin oc = Some margin \<and> oc_free_margin oc = Some free \<and>
           0 < margin \<and> 0 < lg_lot l \<and>
           (let projected = equity - free - margin + tot * (margin / lg_lot l)
            in projected \<le> 0 \<or> rc_margin_floor (pe_caps env) \<le> equity / projected * 100)"
  using assms unfolding margin_guard_reason_def
  by (auto simp: Let_def not_less not_le split: if_splits option.splits list.splits)

lemma promotion_refusal_gates:
  assumes "promotion_refusal env db a mode res p = None"
  shows "pl_status p = PlPlanned" "\<exists>cfg. config_of db (pl_source p) = Some cfg \<and> cf_enabled cfg"
    "\<exists>why b. res = SymAccepted why b"
    "is_demo_environment a \<or> is_live_environment a \<and> live_execution_permitted (pe_settings env) (pe_fleet env) a"
  using assms unfolding promotion_refusal_def env_admitted_def
  by (auto simp: Let_def split: if_splits option.splits prod.splits symbol_resolution.splits)

lemma node_block_NoneD:
  "node_assignment_block_reason env a = None \<Longrightarrow> pe_require_node env \<or> pe_multi_account env \<Longrightarrow>
   \<exists>n. node_of (pe_fleet env) (ac_terminal_node a) = Some n \<and> en_status n = NodeActive"
  by (auto simp: node_assignment_block_reason_def require_terminal_node_def split: option.splits if_splits)

lemma symbol_conflict_NoneD:
  "evaluate_symbol_conflict env db p owner = None \<Longrightarrow> pe_symbol_conflict env \<Longrightarrow>
   account_margin_label env (pl_account p) \<noteq> ''HEDGING'' \<Longrightarrow>
   \<exists>s. owner = Some s \<and>
     (\<forall>t \<in> set (db_trades db). td_account t = pl_account p \<longrightarrow> td_symbol t = pl_symbol p \<longrightarrow> td_close_time t = None \<longrightarrow>
        td_assignment t = Some (aa_id s)) \<and>
     (\<forall>q \<in> set (db_plans db). pl_account q = pl_account p \<longrightarrow> pl_symbol q = pl_symbol p \<longrightarrow>
        pl_status q \<in> {PlPlanned, PlPromoted} \<longrightarrow> pl_id q \<noteq> pl_id p \<longrightarrow> pl_assignment q = Some (aa_id s))"
  by (auto simp: evaluate_symbol_conflict_def supports_independent_same_symbol_def foreign_symbol_owner_exists_def
        active_plan_statuses_def list_ex_iff Let_def split: option.splits if_splits)

lemma promote_plan_InlD:
  assumes "promote_plan env mode ty p db = (Inl e, db')"
  shows "db_jobs db' = db_jobs db \<and> db_legs db' = db_legs db \<and> db_plans db' = db_plans db"
  using assms unfolding promote_plan_unfold
  by (auto simp: Let_def split: if_splits option.splits prod.splits sum.splits)

text \<open>
  C25: A promotion that fails leaves jobs, legs and plans alone. One that succeeds found, when it checked,
  the plan planned, its mode in force, no kill switch, the source enabled, a demo account or a permitted
  live one, eligible and not paused, a symbol of its broker, stop and targets set, a fresh signal, every
  lot and the total within the source's sizes, both exposures, the open positions, the concurrent groups
  and the day's loss within their caps, an active node where one is required, margin for an order above
  the default total, and, under the symbol policy, no foreign owner of the symbol.
\<close>
theorem promoted_under_every_gate:
  assumes call: "promote_plan env mode ty p db = (r, db')" and new: "pl_status p \<noteq> PlPromoted"
  shows "case r of
    Inl _ \<Rightarrow> db_jobs db' = db_jobs db \<and> db_legs db' = db_legs db \<and> db_plans db' = db_plans db
  | Inr js \<Rightarrow>
    pl_status p = PlPlanned \<and> xc_mode (get_solo db) = mode \<and> order_creation_kill_reason env db = None \<and>
    (\<exists>cfg. config_of db (pl_source p) = Some cfg \<and> cf_enabled cfg) \<and>
    (\<exists>a. account_by_id env (pl_account p) = Some a \<and>
         (is_demo_environment a \<or> is_live_environment a \<and> live_execution_permitted (pe_settings env) (pe_fleet env) a) \<and>
         fst (evaluate_execution_gate (pe_settings env) (pe_fleet env) (Some a)) \<and>
         \<not> is_broker_paused (pe_settings env) (pe_health env (ac_id a)) \<and>
         (pe_require_node env \<or> pe_multi_account env \<longrightarrow>
            (\<exists>n. node_of (pe_fleet env) (ac_terminal_node a) = Some n \<and> en_status n = NodeActive))) \<and>
    (\<exists>why b. can_account_trade_symbol env db (pl_account p) (pl_symbol p) = SymAccepted why b) \<and>
    pl_stop_loss p \<noteq> '''' \<and>
    (\<exists>t. pl_signal_timestamp p = Some t \<and> pe_now env - t \<le> signal_max_age_us) \<and>
    (let legs = legs_of db (pl_id p); tot = sum_list (map lg_lot legs) in
       legs \<noteq> [] \<and>
       (\<forall>l \<in> set legs. lg_take_profit l \<noteq> '''' \<and> 0 < lg_lot l \<and> lg_lot l \<le> fst (sizing_caps db (pl_source p))) \<and>
       tot \<le> snd (sizing_caps db (pl_source p)) \<and>
       account_exposure db (pl_account p) None (Some (pl_id p)) + tot \<le> rc_account_exposure (pe_caps env) \<and>
       account_exposure db (pl_account p) (Some (pl_symbol p)) (Some (pl_id p)) + tot \<le> rc_symbol_exposure (pe_caps env) \<and>
       open_positions_count db (pl_account p) < rc_open_positions (pe_caps env) \<and>
       - rc_daily_drawdown (pe_caps env) < today_realized_pnl env db (pl_account p) \<and>
       other_active_plans db p < rc_concurrent_groups (pe_caps env) \<and>
       (rc_margin_guard (pe_caps env) \<and> max_total_lot_per_signal < tot \<longrightarrow>
          (\<exists>l oc equity margin free. pe_order_check env p l = Some oc \<and> l \<in> set legs \<and>
             oc_equity oc = Some equity \<and> oc_margin oc = Some margin \<and> oc_free_margin oc = Some free \<and>
             (let projected = equity - free - margin + tot * (margin / lg_lot l)
              in projected \<le> 0 \<or> rc_margin_floor (pe_caps env) \<le> equity / projected * 100)))) \<and>
    (pe_symbol_conflict env \<and> account_margin_label env (pl_account p) \<noteq> ''HEDGING'' \<longrightarrow>
       (\<exists>s. resolve_plan_assignment db p = Some s \<and>
          (\<forall>t \<in> set (db_trades db). td_account t = pl_account p \<longrightarrow> td_symbol t = pl_symbol p \<longrightarrow> td_close_time t = None \<longrightarrow>
             td_assignment t = Some (aa_id s)) \<and>
          (\<forall>q \<in> set (db_plans db). pl_account q = pl_account p \<longrightarrow> pl_symbol q = pl_symbol p \<longrightarrow>
             pl_status q \<in> {PlPlanned, PlPromoted} \<longrightarrow> pl_id q \<noteq> pl_id p \<longrightarrow> pl_assignment q = Some (aa_id s))))"
proof (cases r)
  case (Inl e)
  then show ?thesis using promote_plan_InlD call by simp
next
  case (Inr js)
  from promote_plan_InrD [OF call [unfolded Inr] new] obtain a b why where
    a: "account_by_id env (pl_account p) = Some a"
    and sy: "can_account_trade_symbol env db (pl_account p) (pl_symbol p) = SymAccepted why b"
    and ref: "promotion_refusal env db a mode (SymAccepted why b) p = None" by metis
  note g = promotion_refusal_NoneD [OF ref] and h = promotion_refusal_gates [OF ref]
  note r = promotion_risk_NoneD [OF g(10)] and s = leg_sizes_refusal_NoneD [OF g(9)]
  let ?tot = "sum_list (map lg_lot (legs_of db (pl_id p)))"
  have m: "\<exists>l oc equity margin free. pe_order_check env p l = Some oc \<and> l \<in> set (legs_of db (pl_id p)) \<and>
             oc_equity oc = Some equity \<and> oc_margin oc = Some margin \<and> oc_free_margin oc = Some free \<and>
             (let projected = equity - free - margin + ?tot * (margin / lg_lot l)
              in projected \<le> 0 \<or> rc_margin_floor (pe_caps env) \<le> equity / projected * 100)"
    if "rc_margin_guard (pe_caps env) \<and> max_total_lot_per_signal < ?tot"
    using margin_guard_NoneD [OF r(5)] that by (metis list.set_intros(1))
  have s': "\<forall>l \<in> set (legs_of db (pl_id p)). lg_take_profit l \<noteq> '''' \<and> 0 < lg_lot l \<and> lg_lot l \<le> fst (sizing_caps db (pl_source p))"
    "?tot \<le> snd (sizing_caps db (pl_source p))" using s by simp_all
  have n: "pe_require_node env \<or> pe_multi_account env \<longrightarrow>
      (\<exists>n. node_of (pe_fleet env) (ac_terminal_node a) = Some n \<and> en_status n = NodeActive)"
    using node_block_NoneD [OF r(7)] by blast
  have c: "pe_symbol_conflict env \<and> account_margin_label env (pl_account p) \<noteq> ''HEDGING'' \<longrightarrow>
       (\<exists>s. resolve_plan_assignment db p = Some s \<and>
          (\<forall>t \<in> set (db_trades db). td_account t = pl_account p \<longrightarrow> td_symbol t = pl_symbol p \<longrightarrow> td_close_time t = None \<longrightarrow>
             td_assignment t = Some (aa_id s)) \<and>
          (\<forall>q \<in> set (db_plans db). pl_account q = pl_account p \<longrightarrow> pl_symbol q = pl_symbol p \<longrightarrow>
             pl_status q \<in> {PlPlanned, PlPromoted} \<longrightarrow> pl_id q \<noteq> pl_id p \<longrightarrow> pl_assignment q = Some (aa_id s)))"
    using symbol_conflict_NoneD [OF g(11)] by blast
  have m': "rc_margin_guard (pe_caps env) \<and> max_total_lot_per_signal < ?tot \<longrightarrow>
      (\<exists>l oc equity margin free. pe_order_check env p l = Some oc \<and> l \<in> set (legs_of db (pl_id p)) \<and>
             oc_equity oc = Some equity \<and> oc_margin oc = Some margin \<and> oc_free_margin oc = Some free \<and>
             (let projected = equity - free - margin + ?tot * (margin / lg_lot l)
              in projected \<le> 0 \<or> rc_margin_floor (pe_caps env) \<le> equity / projected * 100))"
    using m by blast
  show ?thesis
    unfolding Inr sum.case Let_def
    by (intro conjI exI [of _ a] h(1,2,4) g(1,2,4-8) a r(1-4,6) s' n c m' [unfolded Let_def] exI [of _ why] exI [of _ b] sy)
qed

lemma sum_list_sort_key: "sum_list (map (f :: 'a \<Rightarrow> rat) (sort_key k xs)) = sum_list (map f xs)"
  by (metis mset_map mset_sort sum_mset_sum_list)

lemma sum_filter_cover:
  assumes "\<And>x. x \<in> set xs \<Longrightarrow> P x \<Longrightarrow> Q x \<or> R x" and "\<And>x. x \<in> set xs \<Longrightarrow> Q x \<Longrightarrow> P x"
    and "\<And>x. x \<in> set xs \<Longrightarrow> R x \<Longrightarrow> (0 :: rat) \<le> f x"
  shows "sum_list (map f (filter P xs)) \<le> sum_list (map f (filter Q xs)) + sum_list (map f (filter R xs))"
  using assms
proof (induction xs)
  case (Cons x xs)
  have ih: "sum_list (map f (filter P xs)) \<le> sum_list (map f (filter Q xs)) + sum_list (map f (filter R xs))"
    by (rule Cons.IH) (use Cons.prems in auto)
  from Cons.prems(1-3) [of x] ih show ?case by auto
qed simp

lemma open_trades_frame: "db_trades db' = db_trades db \<Longrightarrow> open_trades db' = open_trades db"
  by (simp add: open_trades_def fun_eq_iff)

lemma in_flight_after_promotion:
  assumes "db_plans db' = map (\<lambda>q. if pl_id q = pl_id p then q\<lparr>pl_status := PlPromoted\<rparr> else q) (db_plans db)"
  shows "in_flight_plan db' A s None i \<Longrightarrow> in_flight_plan db A s (Some (pl_id p)) i \<or> i = pl_id p"
    "in_flight_plan db A s (Some (pl_id p)) i \<Longrightarrow> in_flight_plan db' A s None i"
proof -
  have "find_plan db' i = map_option (\<lambda>q. if pl_id q = pl_id p then q\<lparr>pl_status := PlPromoted\<rparr> else q) (find_plan db i)"
    unfolding find_plan_def assms by (rule find_map_key) simp
  moreover have "find_plan db i = Some q \<Longrightarrow> pl_id q = i" for q
    unfolding find_plan_def by (auto dest: find_SomeD)
  ultimately show "in_flight_plan db' A s None i \<Longrightarrow> in_flight_plan db A s (Some (pl_id p)) i \<or> i = pl_id p"
    "in_flight_plan db A s (Some (pl_id p)) i \<Longrightarrow> in_flight_plan db' A s None i"
    unfolding in_flight_plan_def by (auto split: option.splits if_splits)
qed

lemma exposure_after_promotion:
  assumes plans: "db_plans db' = map (\<lambda>q. if pl_id q = pl_id p then q\<lparr>pl_status := PlPromoted\<rparr> else q) (db_plans db)"
    and trades: "db_trades db' = db_trades db" and legs: "db_legs db' = map (assign_jobs al) (db_legs db)"
    and pos: "\<forall>l \<in> set (legs_of db (pl_id p)). 0 < lg_lot l"
  shows "account_exposure db' A s None
           \<le> account_exposure db A s (Some (pl_id p)) + sum_list (map lg_lot (legs_of db (pl_id p)))"
proof -
  let ?P = "\<lambda>l. in_flight_plan db' A s None (lg_plan l) \<and> leg_comment (lg_plan l) (lg_index l) \<notin> set (open_comments db A s)"
  let ?Q = "\<lambda>l. in_flight_plan db A s (Some (pl_id p)) (lg_plan l) \<and> leg_comment (lg_plan l) (lg_index l) \<notin> set (open_comments db A s)"
  have oc: "open_comments db' = open_comments db" "open_position_lots db' = open_position_lots db"
    using open_trades_frame [OF trades] by (simp_all add: open_comments_def open_position_lots_def fun_eq_iff)
  have "active_signal_lots db' A s None = sum_list (map lg_lot (filter ?P (db_legs db)))"
    unfolding active_signal_lots_def oc legs filter_map by (simp add: comp_def)
  also have "\<dots> \<le> sum_list (map lg_lot (filter ?Q (db_legs db))) +
                  sum_list (map lg_lot (filter (\<lambda>l. lg_plan l = pl_id p) (db_legs db)))"
    by (rule sum_filter_cover)
      (use in_flight_after_promotion [OF plans] pos in \<open>auto simp: legs_of_def intro: less_imp_le\<close>)
  also have "\<dots> = active_signal_lots db A s (Some (pl_id p)) + sum_list (map lg_lot (legs_of db (pl_id p)))"
    unfolding active_signal_lots_def legs_of_def sum_list_sort_key by (rule refl)
  finally show ?thesis unfolding account_exposure_def oc by linarith
qed

lemma promotion_stores:
  assumes call: "promote_plan env mode ty p db = (Inr js, db')" and fresh: "freshly_planned db p"
  obtains a b why new where "account_by_id env (pl_account p) = Some a"
    "promotion_refusal env db a mode (SymAccepted why b) p = None"
    "db_jobs db' = db_jobs db @ new" "js = map jb_id new"
    "js = [db_next_job db ..< db_next_job db + length (legs_of db (pl_id p))]"
    "list_all2 (job_for env db ty mode a p b) new (legs_of db (pl_id p))"
    "db_legs db' = map (assign_jobs (zip (map leg_key (legs_of db (pl_id p))) js)) (db_legs db)"
    "db_plans db' = map (\<lambda>q. if pl_id q = pl_id p then q\<lparr>pl_status := PlPromoted\<rparr> else q) (db_plans db)"
    "promotion_frame db db'" "db_next_job db' = db_next_job db + length (legs_of db (pl_id p))"
proof -
  from fresh have st: "pl_status p \<noteq> PlPromoted" and nj: "\<forall>l \<in> set (legs_of db (pl_id p)). lg_job l = None"
    and d: "distinct (map leg_key (legs_of db (pl_id p)))"
    by (auto simp: freshly_planned_def intro: distinct_leg_keys)
  from promote_plan_InrD [OF call st] obtain a b why db1 where
    a: "account_by_id env (pl_account p) = Some a" and ref: "promotion_refusal env db a mode (SymAccepted why b) p = None"
    and pr: "promote_legs env ty mode a p b (legs_of db (pl_id p)) db = (Inr js, db1)"
    and db': "db' = add_audit ''PROMOTION_CREATED'' (Some (pl_id p)) (Some (pl_approval p)) ''''
             (update_plan (pl_id p) (\<lambda>q. q\<lparr>pl_status := PlPromoted\<rparr>) db1)" by metis
  from promote_legs_result [OF pr nj d] obtain new where n: "db_jobs db1 = db_jobs db @ new" "js = map jb_id new"
    "js = [db_next_job db ..< db_next_job db + length (legs_of db (pl_id p))]"
    "list_all2 (job_for env db ty mode a p b) new (legs_of db (pl_id p))"
    "db_legs db1 = map (assign_jobs (zip (map leg_key (legs_of db (pl_id p))) js)) (db_legs db)"
    "db_plans db1 = db_plans db" "promotion_frame db db1"
    "db_next_job db1 = db_next_job db + length (legs_of db (pl_id p))" by auto
  have p1: "db_jobs db' = db_jobs db @ new" and p2: "db_next_job db' = db_next_job db + length (legs_of db (pl_id p))"
    unfolding db' update_plan_def using n(1,8) by simp_all
  have p3: "db_legs db' = map (assign_jobs (zip (map leg_key (legs_of db (pl_id p))) js)) (db_legs db)"
    unfolding db' update_plan_def add_audit_simps using n(5) by simp
  have p4: "db_plans db' = map (\<lambda>q. if pl_id q = pl_id p then q\<lparr>pl_status := PlPromoted\<rparr> else q) (db_plans db)"
    unfolding db' update_plan_def add_audit_simps using n(6) by simp
  have p5: "promotion_frame db db'" using n(7) unfolding db' promotion_frame_def update_plan_def by simp
  show thesis by (rule that [OF a ref p1 n(2,3,4) p3 p4 p5 p2])
qed

text \<open>
  C3: Promotion keeps the exposure of the account and of the symbol within their caps: after it, the open
  positions and all legs in flight, those of the promoted plan included, stay below the limit.
\<close>
theorem promotion_keeps_exposure_bounded:
  assumes call: "promote_plan env mode ty p db = (Inr js, db')" and fresh: "freshly_planned db p"
  shows "account_exposure db' (pl_account p) None None \<le> rc_account_exposure (pe_caps env) \<and>
         account_exposure db' (pl_account p) (Some (pl_symbol p)) None \<le> rc_symbol_exposure (pe_caps env)"
proof (rule promotion_stores [OF call fresh])
  fix a b why
  assume ref: "promotion_refusal env db a mode (SymAccepted why b) p = None"
    and legs: "db_legs db' = map (assign_jobs (zip (map leg_key (legs_of db (pl_id p))) js)) (db_legs db)"
    and plans: "db_plans db' = map (\<lambda>q. if pl_id q = pl_id p then q\<lparr>pl_status := PlPromoted\<rparr> else q) (db_plans db)"
    and fr: "promotion_frame db db'"
  have pos: "\<forall>l \<in> set (legs_of db (pl_id p)). 0 < lg_lot l"
    using leg_sizes_refusal_NoneD [OF promotion_refusal_NoneD(9) [OF ref]] by blast
  have trades: "db_trades db' = db_trades db" using fr by (simp add: promotion_frame_def)
  note e = exposure_after_promotion [OF plans trades legs pos, of "pl_account p"]
  note r = promotion_risk_NoneD [OF promotion_refusal_NoneD(10) [OF ref]]
  show ?thesis using e [of None] e [of "Some (pl_symbol p)"] r(1,2) by linarith
qed

lemma inject_key_keep: "k \<noteq> fst kv \<Longrightarrow> map_of (inject_key kv d) k = map_of d k"
  by (cases kv) (auto simp: inject_key_def map_of_dict_put map_of_dict_setdefault)

lemma fold_inject_keep: "k \<notin> fst ` set pin \<Longrightarrow> map_of (fold inject_key pin d) k = map_of d k"
  by (induction pin arbitrary: d) (auto simp: inject_key_keep)

definition pin_keys :: "string set" where
  "pin_keys = {''require_identity_pin'', ''expected_login'', ''expected_server'', ''is_demo'', ''windows_username''}"

lemma pinned_payload_keep:
  assumes "pinned_payload env ty a d = Some d'" and "k \<notin> pin_keys"
  shows "map_of d' k = map_of d k"
proof (cases "ty \<in> identity_pin_types \<and> st_hosted (pe_settings env)")
  case False
  with assms(1) show ?thesis by (auto simp: pinned_payload_def inject_identity_pin_def split: if_splits)
next
  case True
  with assms(1) obtain pin where pin: "identity_pin_for (pe_settings env) (pe_profiles env) a = Some pin"
    and d': "d' = fold inject_key pin d"
    by (auto simp: pinned_payload_def inject_identity_pin_def)
  from pin have "fst ` set pin \<subseteq> pin_keys"
    by (auto simp: identity_pin_for_def pin_keys_def split: if_splits option.splits)
  with assms(2) show ?thesis unfolding d' by (intro fold_inject_keep) auto
qed

definition order_fields :: "plan \<Rightarrow> leg \<Rightarrow> string \<Rightarrow> (string \<times> json) list" where
  "order_fields p l mode =
     [(''side'', JStr (pl_direction p)), (''lots'', JStr (lot_text (lg_lot l))),
      (''sl_price'', JStr (pl_stop_loss p)), (''tp_price'', JStr (lg_take_profit l)),
      (''execution_mode'', JStr mode), (''comment'', JStr (leg_comment (pl_id p) (lg_index l)))]"

lemma order_payload_fields:
  "map_of (order_payload env db p l mode b g) ''side'' = Some (JStr (pl_direction p))"
  "map_of (order_payload env db p l mode b g) ''lots'' = Some (JStr (lot_text (lg_lot l)))"
  "map_of (order_payload env db p l mode b g) ''sl_price'' = Some (JStr (pl_stop_loss p))"
  "map_of (order_payload env db p l mode b g) ''tp_price'' = Some (JStr (lg_take_profit l))"
  "map_of (order_payload env db p l mode b g) ''execution_mode'' = Some (JStr mode)"
  "map_of (order_payload env db p l mode b g) ''comment'' = Some (JStr (leg_comment (pl_id p) (lg_index l)))"
  unfolding order_payload_def by simp_all

lemma order_fields_payload:
  "(k, v) \<in> set (order_fields p l mode) \<Longrightarrow> map_of (order_payload env db p l mode b g) k = Some v"
  unfolding order_fields_def list.set
  by (elim insertE emptyE; simp only: prod.inject order_payload_fields)

lemma order_fields_unpinned: "(k, v) \<in> set (order_fields p l mode) \<Longrightarrow> k \<notin> pin_keys"
  unfolding order_fields_def list.set pin_keys_def by (elim insertE emptyE; simp)

lemma job_for_fields:
  assumes "job_for env db ty mode a p b j l" "(k, v) \<in> set (order_fields p l (mode_text mode))"
  shows "map_of (jb_payload j) k = Some v"
proof -
  from assms(2) have k: "k \<notin> pin_keys" by (rule order_fields_unpinned)
  from assms(1) have "map_of (jb_payload j) k =
      map_of (order_payload env db p l (mode_text mode) b (promotion_magic env mode (promotion_owner env db p))) k"
    unfolding job_for_def by (intro pinned_payload_keep [OF _ k]) blast
  also have "\<dots> = Some v" by (rule order_fields_payload [OF assms(2)])
  finally show ?thesis .
qed

lemma insort_key_map: "(\<And>x. k (f x) = k x) \<Longrightarrow> insort_key k (f x) (map f xs) = map f (insort_key k x xs)"
  by (induction xs) auto

lemma sort_key_map_same: "(\<And>x. k (f x) = k x) \<Longrightarrow> sort_key k (map f xs) = map f (sort_key k xs)"
  by (induction xs) (simp_all add: insort_key_map)

lemma legs_of_assigned:
  assumes "db_legs db' = map (assign_jobs al) (db_legs db)"
  shows "legs_of db' i = map (assign_jobs al) (legs_of db i)"
  unfolding legs_of_def assms filter_map by (simp add: comp_def sort_key_map_same)

lemma map_filter_Some: "map f xs = map Some ys \<Longrightarrow> List.map_filter f xs = ys"
  by (induction xs arbitrary: ys) (auto simp: List.map_filter_def Cons_eq_map_conv)

lemma account_by_id_SomeD: "account_by_id env i = Some a \<Longrightarrow> ac_id a = i"
  unfolding account_by_id_def by (auto dest: find_SomeD)

text \<open>
  A promotion appends exactly one pending job per leg, of the asked type and for the plan's account,
  with the side, size, prices, mode and comment of that leg, links each leg to its job and marks the
  plan; promoting it again returns the same jobs and changes nothing.
\<close>
theorem promotion_one_job_per_leg:
  assumes call: "promote_plan env mode ty p db = (Inr js, db')" and fresh: "freshly_planned db p"
  shows "(\<exists>new. db_jobs db' = db_jobs db @ new \<and> js = map jb_id new \<and>
            list_all2 (\<lambda>j l. jb_type j = ty \<and> jb_status j = JbPending \<and> jb_account j = pl_account p \<and>
                (\<forall>(k, v) \<in> set (order_fields p l (mode_text mode)). map_of (jb_payload j) k = Some v))
              new (legs_of db (pl_id p))) \<and>
         existing_jobs db' (pl_id p) = js \<and>
         find_plan db' (pl_id p) = Some (p\<lparr>pl_status := PlPromoted\<rparr>) \<and>
         promote_plan env2 mode2 ty2 (p\<lparr>pl_status := PlPromoted\<rparr>) db' = (Inr js, db')"
proof (rule promotion_stores [OF call fresh])
  fix a b why new
  let ?legs = "legs_of db (pl_id p)" let ?al = "zip (map leg_key ?legs) js"
  assume a: "account_by_id env (pl_account p) = Some a" and new: "db_jobs db' = db_jobs db @ new" "js = map jb_id new"
    and js: "js = [db_next_job db ..< db_next_job db + length ?legs]"
    and jf: "list_all2 (job_for env db ty mode a p b) new ?legs"
    and legs: "db_legs db' = map (assign_jobs ?al) (db_legs db)"
    and plans: "db_plans db' = map (\<lambda>q. if pl_id q = pl_id p then q\<lparr>pl_status := PlPromoted\<rparr> else q) (db_plans db)"
  have len: "length js = length ?legs" unfolding js by simp
  have d: "distinct (map leg_key ?legs)" using fresh by (auto simp: freshly_planned_def intro: distinct_leg_keys)
  have one: "list_all2 (\<lambda>j l. jb_type j = ty \<and> jb_status j = JbPending \<and> jb_account j = pl_account p \<and>
                (\<forall>(k, v) \<in> set (order_fields p l (mode_text mode)). map_of (jb_payload j) k = Some v)) new ?legs"
  proof (rule list_all2_mono [OF jf])
    fix j l assume jl: "job_for env db ty mode a p b j l"
    then show "jb_type j = ty \<and> jb_status j = JbPending \<and> jb_account j = pl_account p \<and>
                (\<forall>(k, v) \<in> set (order_fields p l (mode_text mode)). map_of (jb_payload j) k = Some v)"
      using job_for_fields [OF jl] account_by_id_SomeD [OF a] jl [unfolded job_for_def] by auto
  qed
  have nth: "lg_job (assign_jobs ?al (?legs ! i)) = Some (js ! i)" if i: "i < length ?legs" for i
  proof -
    have "map_of ?al (map leg_key ?legs ! i) = Some (js ! i)" using d len i by (intro map_of_zip_nth) simp_all
    with i show ?thesis by (simp add: assign_jobs_def)
  qed
  have "map lg_job (map (assign_jobs ?al) ?legs) = map Some js"
    using nth len by (intro nth_equalityI) simp_all
  then have "List.map_filter lg_job (map (assign_jobs ?al) ?legs) = js" by (rule map_filter_Some)
  then have ex: "existing_jobs db' (pl_id p) = js"
    unfolding existing_jobs_def legs_of_assigned [OF legs] .
  have "find_plan db' (pl_id p) = map_option (\<lambda>q. if pl_id q = pl_id p then q\<lparr>pl_status := PlPromoted\<rparr> else q) (find_plan db (pl_id p))"
    unfolding find_plan_def plans by (rule find_map_key) simp
  then have fp: "find_plan db' (pl_id p) = Some (p\<lparr>pl_status := PlPromoted\<rparr>)"
    using fresh by (simp add: freshly_planned_def)
  have again: "promote_plan env2 mode2 ty2 (p\<lparr>pl_status := PlPromoted\<rparr>) db' = (Inr js, db')"
    using ex by (simp add: promote_plan_unfold)
  show ?thesis using new one ex fp again by blast
qed

section \<open>Exposure of settled legs\<close>

lemma digits_of_no_L: "CHR ''L'' \<notin> set (digits_of n)"
proof (induction n rule: digits_of.induct)
  case (1 n)
  have d: "char_of (48 + m :: nat) \<noteq> CHR ''L''" if "m < 10" for m
  proof
    assume "char_of (48 + m) = CHR ''L''"
    then have "(of_char (char_of (48 + m) :: char) :: nat) = of_char (CHR ''L'')" by simp
    with that show False by (simp add: of_char_of)
  qed
  show ?case
  proof (cases "n < 10")
    case True then show ?thesis by (subst digits_of.simps) (auto dest: d)
  next
    case False
    from 1 [OF False] d [of "n mod 10"] show ?thesis by (subst digits_of.simps) (auto simp: False)
  qed
qed

lemma leg_comment_inj:
  assumes "leg_comment p k = leg_comment q m"
  shows "p = q \<and> k = m"
proof -
  have tw: "takeWhile (\<lambda>c. c \<noteq> CHR ''L'') (digits_of n @ CHR ''L'' # r) = digits_of n" for n r
    using digits_of_no_L [of n] by (subst takeWhile_append2) auto
  from assms have e: "digits_of p @ CHR ''L'' # digits_of k = digits_of q @ CHR ''L'' # digits_of m"
    by (simp add: leg_comment_def)
  from arg_cong [OF e, of "takeWhile (\<lambda>c. c \<noteq> CHR ''L'')"] have "digits_of p = digits_of q" unfolding tw .
  with e show ?thesis by (auto dest: digits_of_inj)
qed

lemma leg_comment_not_Nil [simp]: "leg_comment p k \<noteq> ''''"
  by (simp add: leg_comment_def)

text \<open>
  Closing the position of a promoted leg frees no exposure while its plan is promoted: the volume leaves
  the open positions and the same lots come back as in flight.
\<close>
theorem closed_leg_still_counts:
  assumes trades: "db_trades db = ts1 @ t # ts2" and legs: "db_legs db = ls1 @ l # ls2"
    and t: "td_account t = A" "td_close_time t = None" "td_comment t = leg_comment (lg_plan l) (lg_index l)"
      "td_volume t = lg_lot l"
    and only_leg: "\<forall>x \<in> set (ls1 @ ls2). leg_key x \<noteq> leg_key l"
    and only_trade: "\<forall>x \<in> set (ts1 @ ts2). td_account x = A \<and> td_close_time x = None \<longrightarrow> td_comment x \<noteq> td_comment t"
    and promoted: "in_flight_plan db A None None (lg_plan l)"
    and db': "db' = db\<lparr>db_trades := ts1 @ t\<lparr>td_close_time := Some c\<rparr> # ts2\<rparr>"
  shows "account_exposure db' A None None = account_exposure db A None None"
proof -
  let ?c = "td_comment t"
  have pos: "open_position_lots db A None = open_position_lots db' A None + lg_lot l"
    unfolding open_position_lots_def open_trades_def db' trades using t by (simp add: symbol_matches_def)
  have oc: "set (open_comments db A None) = insert ?c (set (open_comments db' A None))"
    unfolding open_comments_def open_trades_def db' trades using t by (auto simp: symbol_matches_def)
  have nin: "?c \<notin> set (open_comments db' A None)"
    unfolding open_comments_def open_trades_def db' using only_trade by (auto simp: symbol_matches_def)
  have fl: "in_flight_plan db' = in_flight_plan db"
    by (simp add: fun_eq_iff in_flight_plan_def find_plan_def db')
  let ?Q = "\<lambda>d l. in_flight_plan db A None None (lg_plan l) \<and> leg_comment (lg_plan l) (lg_index l) \<notin> set (open_comments d A None)"
  have same: "?Q db' x = ?Q db x" if "x \<in> set (ls1 @ ls2)" for x
  proof -
    have "leg_comment (lg_plan x) (lg_index x) \<noteq> ?c"
      using only_leg that unfolding t(3) by (auto simp: leg_key_def dest!: leg_comment_inj)
    then show ?thesis using oc by auto
  qed
  have f: "filter (?Q db') ls1 = filter (?Q db) ls1" "filter (?Q db') ls2 = filter (?Q db) ls2"
    using same by (auto intro!: filter_cong)
  have "active_signal_lots db' A None None = active_signal_lots db A None None + lg_lot l"
    unfolding active_signal_lots_def fl using oc nin promoted t(3) f
    by (simp add: db' legs)
  with pos show ?thesis unfolding account_exposure_def by simp
qed

section \<open>Witnesses\<close>

definition demo_promoted :: pipe_db where
  "demo_promoted = snd (promote_plan demo_env ModeShadow PlaceOrderShadow demo_plan demo_planned)"

lemma demo_promoted_eq:
  "promote_plan demo_env ModeShadow PlaceOrderShadow demo_plan demo_planned = (Inr [1, 2, 3], demo_promoted)"
proof -
  have "fst (promote_plan demo_env ModeShadow PlaceOrderShadow demo_plan demo_planned) = Inr [1, 2, 3]"
    by code_simp
  then show ?thesis unfolding demo_promoted_def by (metis prod.collapse)
qed

lemma demo_plan_status: "pl_status demo_plan \<noteq> PlPromoted"
  by (simp add: demo_plan_def)

lemma demo_freshly_planned: "freshly_planned demo_planned demo_plan"
  by code_simp

theorem promoted_under_every_gate_witness:
  "order_creation_kill_reason demo_env demo_planned = None \<and>
   open_positions_count demo_planned (pl_account demo_plan) < rc_open_positions (pe_caps demo_env)"
  using promoted_under_every_gate [OF demo_promoted_eq demo_plan_status] unfolding Let_def sum.case by blast

theorem promotion_keeps_exposure_bounded_witness:
  "account_exposure demo_promoted (pl_account demo_plan) None None \<le> rc_account_exposure (pe_caps demo_env)"
  using promotion_keeps_exposure_bounded [OF demo_promoted_eq demo_freshly_planned] by blast

theorem promotion_one_job_per_leg_witness:
  "existing_jobs demo_promoted (pl_id demo_plan) = [1, 2, 3]"
  using promotion_one_job_per_leg [OF demo_promoted_eq demo_freshly_planned] by blast

definition demo_trade :: trade where
  "demo_trade = \<lparr>td_account = ac_id demo_account, td_ticket = ''t1'', td_symbol = ''EURUSD'', td_volume = 2 / 100,
     td_open_time = 1000, td_close_time = None, td_open_price = 11 / 10, td_close_price = None, td_profit = 0,
     td_comment = leg_comment 1 1, td_assignment = None\<rparr>"

definition demo_filled :: pipe_db where
  "demo_filled = demo_promoted\<lparr>db_trades := [demo_trade]\<rparr>"

definition demo_leg :: "nat \<Rightarrow> string \<Rightarrow> rat \<Rightarrow> leg" where
  "demo_leg k tp lot = (new_leg 1 ''1.0'' (k, tp, lot))\<lparr>lg_job := Some k, lg_status := LgPromoted\<rparr>"

lemma demo_promoted_legs:
  "db_legs demo_promoted = [demo_leg 1 ''1.2'' (2 / 100), demo_leg 2 ''1.3'' (2 / 100), demo_leg 3 ''1.4'' (1 / 100)]"
  by code_simp

lemma demo_filled_legs:
  "db_legs demo_filled = [] @ demo_leg 1 ''1.2'' (2 / 100) # [demo_leg 2 ''1.3'' (2 / 100), demo_leg 3 ''1.4'' (1 / 100)]"
  by (simp add: demo_filled_def demo_promoted_legs)

lemma demo_in_flight: "in_flight_plan demo_promoted (ac_id demo_account) None None 1"
  by code_simp

theorem closed_leg_still_counts_witness:
  "account_exposure (demo_filled\<lparr>db_trades := [demo_trade\<lparr>td_close_time := Some 2000\<rparr>]\<rparr>) (ac_id demo_account) None None
     = account_exposure demo_filled (ac_id demo_account) None None"
proof -
  have h: "td_account demo_trade = ac_id demo_account" "td_close_time demo_trade = None"
    by (simp_all add: demo_trade_def)
  let ?l = "demo_leg 1 ''1.2'' (2 / 100)"
  have k: "td_comment demo_trade = leg_comment (lg_plan ?l) (lg_index ?l)" "td_volume demo_trade = lg_lot ?l"
    by (simp_all add: demo_trade_def demo_leg_def new_leg_def)
  have o: "\<forall>x \<in> set ([] @ [demo_leg 2 ''1.3'' (2 / 100), demo_leg 3 ''1.4'' (1 / 100)]). leg_key x \<noteq> leg_key ?l"
    by (simp add: demo_leg_def new_leg_def leg_key_def)
  have p: "in_flight_plan demo_filled (ac_id demo_account) None None (lg_plan ?l)"
    using demo_in_flight by (simp add: in_flight_plan_def find_plan_def demo_filled_def demo_leg_def new_leg_def)
  have tr: "db_trades demo_filled = [] @ demo_trade # []" by (simp add: demo_filled_def)
  have nt: "\<forall>x \<in> set ([] @ []). td_account x = ac_id demo_account \<and> td_close_time x = None \<longrightarrow>
              td_comment x \<noteq> td_comment demo_trade" by simp
  show ?thesis
    by (rule closed_leg_still_counts [OF tr demo_filled_legs h k o nt p]) simp
qed

end
