(* ===== verification/AutoRouter.thy ===== *)
theory AutoRouter
  imports SignalPromotion
begin

text \<open>
  The auto-execution router (\<^verbatim>\<open>execution/auto_router.py\<close>) and the review decisions of
  \<^verbatim>\<open>signal_intake/services.py\<close> it uses: which assignment a signal goes to, when a signal is routed at
  all, and the approve, plan and promote sequence for every destination.
\<close>

section \<open>Providers and reviewers\<close>

datatype provider_status = PvOnboarding | PvArmed | PvPaused | PvInactive | PvRetired

record provider =
  pv_slug :: string
  pv_status :: provider_status
  pv_certification :: string

definition is_armed :: "provider \<Rightarrow> bool" where
  "is_armed p \<longleftrightarrow> pv_status p = PvArmed"

definition confidence_ok :: "provider \<Rightarrow> bool" where
  "confidence_ok p \<longleftrightarrow> pv_certification p \<in> {''MEDIUM'', ''HIGH''}"

text \<open>A reviewer is an active user with or without the \<open>review_signals\<close> permission.\<close>

record reviewer =
  rv_is_active :: bool
  rv_may_review :: bool

definition can_review :: "reviewer option \<Rightarrow> bool" where
  "can_review r = (case r of None \<Rightarrow> False | Some u \<Rightarrow> rv_is_active u \<and> rv_may_review u)"

definition find_approval :: "pipe_db \<Rightarrow> nat \<Rightarrow> approval option" where
  "find_approval db i = find (\<lambda>a. ap_id a = i) (db_approvals db)"

definition set_approval_status :: "nat \<Rightarrow> approval_status \<Rightarrow> pipe_db \<Rightarrow> pipe_db" where
  "set_approval_status i s db =
     db\<lparr>db_approvals := map (\<lambda>a. if ap_id a = i then a\<lparr>ap_status := s\<rparr> else a) (db_approvals db)\<rparr>"

text \<open>\<open>approve\<close> and \<open>reject\<close>; \<open>Inl ()\<close> is \<open>ReviewPermissionDenied\<close>, audited before it is raised.\<close>

definition decide_approval ::
  "approval_status \<Rightarrow> string \<Rightarrow> reviewer option \<Rightarrow> nat \<Rightarrow> pipe_db \<Rightarrow> (unit, unit, pipe_db) outcome" where
  "decide_approval s event r i db =
     (if \<not> can_review r then (Inl (), add_audit ''APPROVAL_DENIED'' None (Some i) '''' db)
      else (Inr (), add_audit event None (Some i) '''' (set_approval_status i s db)))"

definition approve :: "reviewer option \<Rightarrow> nat \<Rightarrow> pipe_db \<Rightarrow> (unit, unit, pipe_db) outcome" where
  "approve = decide_approval ApApproved ''SIGNAL_APPROVED''"

definition reject :: "reviewer option \<Rightarrow> nat \<Rightarrow> pipe_db \<Rightarrow> (unit, unit, pipe_db) outcome" where
  "reject = decide_approval ApRejected ''SIGNAL_REJECTED''"

section \<open>Targets\<close>

definition stage_routable :: string where
  "stage_routable = ''LIVE''"

definition assignment_account :: "pipe_env \<Rightarrow> auto_assignment \<Rightarrow> trading_account option" where
  "assignment_account env s = account_by_id env (aa_account s)"

definition account_env_admitted :: "pipe_env \<Rightarrow> trading_account \<Rightarrow> bool" where
  "account_env_admitted env a \<longleftrightarrow>
     is_demo_environment a \<or>
     is_live_environment a \<and> live_execution_permitted (pe_settings env) (pe_fleet env) a"

abbreviation live_routing :: "pipe_env \<Rightarrow> bool" where
  "live_routing env \<equiv> st_live_execution (pe_settings env)"

definition routable_base :: "pipe_env \<Rightarrow> assignment_mode \<Rightarrow> pipe_db \<Rightarrow> auto_assignment list" where
  "routable_base env mode db =
     filter (\<lambda>s. aa_mode s = mode \<and> aa_stage s = stage_routable \<and>
                 (case assignment_account env s of
                    None \<Rightarrow> False
                  | Some a \<Rightarrow> ac_is_active a \<and> (live_routing env \<or> ac_is_demo a))) (db_assignments db)"

definition admitted :: "pipe_env \<Rightarrow> auto_assignment \<Rightarrow> bool" where
  "admitted env s =
     (case assignment_account env s of None \<Rightarrow> False | Some a \<Rightarrow> account_env_admitted env a)"

definition unique_admitted :: "pipe_env \<Rightarrow> auto_assignment list \<Rightarrow> auto_assignment option" where
  "unique_admitted env qs =
     (let xs = (if live_routing env then filter (admitted env) qs else qs)
      in case xs of [s] \<Rightarrow> Some s | _ \<Rightarrow> None)"

definition source_claimed :: "pipe_db \<Rightarrow> string \<Rightarrow> bool" where
  "source_claimed db source \<longleftrightarrow> source \<noteq> '''' \<and> list_ex (\<lambda>s. aa_source s = source) (db_assignments db)"

definition bound_to :: "string \<Rightarrow> auto_assignment list \<Rightarrow> auto_assignment list" where
  "bound_to source = filter (\<lambda>s. aa_source s = source \<and> aa_is_active s)"

definition resolve_target :: "pipe_env \<Rightarrow> assignment_mode \<Rightarrow> string \<Rightarrow> pipe_db \<Rightarrow> auto_assignment option" where
  "resolve_target env mode source db =
     (let base = routable_base env mode db in
      if source_claimed db source then unique_admitted env (bound_to source base)
      else if source \<noteq> '''' \<and> pe_multi_account env \<and> config_of db source \<noteq> None then None
      else if source \<noteq> '''' \<and> length (filter cf_enabled (db_configs db)) > 1 then None
      else unique_admitted env (bound_to '''' base))"

definition resolve_targets :: "pipe_env \<Rightarrow> assignment_mode \<Rightarrow> string \<Rightarrow> pipe_db \<Rightarrow> auto_assignment list" where
  "resolve_targets env mode source db =
     (let base = routable_base env mode db in
      if source_claimed db source then
        (if live_routing env then filter (admitted env) (bound_to source base) else bound_to source base)
      else case resolve_target env mode source db of None \<Rightarrow> [] | Some s \<Rightarrow> [s])"

section \<open>The mode of a signal\<close>

datatype router_mode = RmManual | RmAutoShadow | RmAutoDemo

definition tier_for :: "signal_mode \<Rightarrow> (router_mode \<times> assignment_mode \<times> signal_mode) option" where
  "tier_for m = (case m of ModeShadow \<Rightarrow> Some (RmAutoShadow, AmAutoShadow, ModeShadow)
                 | ModeDemo \<Rightarrow> Some (RmAutoDemo, AmAutoDemo, ModeDemo) | ModeOther _ \<Rightarrow> None)"

definition tier_by_router_mode :: "router_mode \<Rightarrow> (assignment_mode \<times> signal_mode) option" where
  "tier_by_router_mode m = (case m of RmAutoShadow \<Rightarrow> Some (AmAutoShadow, ModeShadow)
                            | RmAutoDemo \<Rightarrow> Some (AmAutoDemo, ModeDemo) | RmManual \<Rightarrow> None)"

text \<open>The row of the approval is read again; an exception here also ends in the manual queue.\<close>

definition effective_mode :: "pipe_env \<Rightarrow> provider list \<Rightarrow> approval \<Rightarrow> pipe_db \<Rightarrow> router_mode \<times> string" where
  "effective_mode env providers ap db =
     (let ctrl = get_solo db in
      if find_approval db (ap_id ap) = None then (RmManual, ''error:DoesNotExist'')
      else if map_option ap_source_edited (find_approval db (ap_id ap)) = Some True then (RmManual, ''edited_signal'')
      else if \<not> xc_auto_enabled ctrl then (RmManual, ''auto_execution_disabled'')
      else if order_creation_kill_reason env db \<noteq> None then (RmManual, ''kill_switch'')
      else case tier_for (xc_mode ctrl) of
        None \<Rightarrow> (RmManual, ''execution_mode_unsupported'')
      | Some (tier, mode, _) \<Rightarrow>
          (case Option.bind (ap_provider ap) (\<lambda>g. find (\<lambda>p. pv_slug p = g) providers) of
             None \<Rightarrow> (RmManual, ''provider_not_armed'')
           | Some pv \<Rightarrow>
               if \<not> is_armed pv then (RmManual, ''provider_not_armed'')
               else if \<not> (case config_of db (ap_source ap) of None \<Rightarrow> False | Some c \<Rightarrow> cf_enabled c)
               then (RmManual, ''source_not_enabled'')
               else if \<not> confidence_ok pv then (RmManual, ''parser_confidence_below_medium'')
               else if pe_multi_account env then
                 (if resolve_targets env mode (ap_source ap) db = [] then (RmManual, ''no_routable_assignment'')
                  else (tier, ''armed''))
               else if resolve_target env mode (ap_source ap) db = None
               then (RmManual, ''no_unique_auto_assignment'')
               else (tier, ''armed'')))"

definition should_auto_execute :: "pipe_env \<Rightarrow> provider list \<Rightarrow> approval \<Rightarrow> pipe_db \<Rightarrow> bool \<times> string" where
  "should_auto_execute env providers ap db =
     (case effective_mode env providers ap db of (m, r) \<Rightarrow> (m \<noteq> RmManual, r))"

section \<open>Routing\<close>

definition record_deferral :: "approval \<Rightarrow> string \<Rightarrow> pipe_db \<Rightarrow> pipe_db" where
  "record_deferral ap reason = add_audit ''AUTO_ROUTE_DEFERRED'' None (Some (ap_id ap)) reason"

definition void_rejected_plan :: "plan \<Rightarrow> string \<Rightarrow> pipe_db \<Rightarrow> pipe_db" where
  "void_rejected_plan p code db =
     (if list_ex (\<lambda>q. pl_id q = pl_id p \<and> pl_status q = PlPlanned) (db_plans db)
      then add_audit ''PLAN_VOIDED'' (Some (pl_id p)) (Some (pl_approval p)) code
             (db\<lparr>db_plans := map (\<lambda>q. if pl_id q = pl_id p \<and> pl_status q = PlPlanned
                 then q\<lparr>pl_status := PlVoided, pl_hold_reason := take 64 (''promotion_rejected:'' @ code)\<rparr>
                 else q) (db_plans db)\<rparr>)
      else db)"

definition save_error_name :: "save_error \<Rightarrow> string" where
  "save_error_name e =
     (case e of KillSwitchEngaged _ \<Rightarrow> ''ExecutionKillSwitchEngaged'' | AccountStopped _ \<Rightarrow> ''ExecutionAccountStopped''
      | GateRefused _ \<Rightarrow> ''ExecutionGateRefused'' | PinUnavailable \<Rightarrow> ''DoesNotExist'')"

definition mode_job :: "signal_mode \<Rightarrow> job_type" where
  "mode_job m = (if m = ModeDemo then PlaceOrder else PlaceOrderShadow)"

definition promote_in_mode :: "pipe_env \<Rightarrow> signal_mode \<Rightarrow> plan \<Rightarrow> pipe_db \<Rightarrow> (promotion_error, nat list, pipe_db) outcome" where
  "promote_in_mode env m =
     (if m = ModeDemo then promote_plan_to_demo_jobs env else promote_plan_to_shadow_jobs env)"

definition route_label :: "signal_mode \<Rightarrow> string" where
  "route_label m = (if m = ModeDemo then ''auto-demo'' else ''auto-shadow'')"

definition plan_and_promote_one ::
  "pipe_env \<Rightarrow> approval \<Rightarrow> int option \<Rightarrow> signal_mode \<Rightarrow> auto_assignment \<Rightarrow> pipe_db \<Rightarrow> pipe_db" where
  "plan_and_promote_one env ap ts mode target db =
     (case assignment_account env target of
        None \<Rightarrow> record_deferral ap (route_label mode @ ''_error:DoesNotExist'') db
      | Some a \<Rightarrow>
          (case plan_demo_execution env ap a ts None (Some target) db of
             (Inl code, db1) \<Rightarrow> record_deferral ap (route_label mode @ ''_rejected:'' @ code) db1
           | (Inr p, db1) \<Rightarrow>
               if pl_status p \<noteq> PlPlanned then db1
               else case promote_in_mode env mode p db1 of
                 (Inr _, db2) \<Rightarrow> db2
               | (Inl (PromotionRejected code), db2) \<Rightarrow>
                   void_rejected_plan p code (record_deferral ap (route_label mode @ ''_rejected:'' @ code) db2)
               | (Inl (PromotionFailed e), db2) \<Rightarrow>
                   record_deferral ap (route_label mode @ ''_error:'' @ save_error_name e) db2
               | (Inl AccountMissing, db2) \<Rightarrow> record_deferral ap (route_label mode @ ''_error:DoesNotExist'') db2))"

definition route_targets :: "pipe_env \<Rightarrow> assignment_mode \<Rightarrow> string \<Rightarrow> pipe_db \<Rightarrow> auto_assignment list" where
  "route_targets env mode source db =
     (if pe_multi_account env then resolve_targets env mode source db
      else case resolve_target env mode source db of None \<Rightarrow> [] | Some s \<Rightarrow> [s])"

text \<open>The approval once for all destinations: \<open>None\<close> stops, with the state it leaves.\<close>

definition approve_for_route ::
  "reviewer option \<Rightarrow> approval \<Rightarrow> signal_mode \<Rightarrow> pipe_db \<Rightarrow> approval option \<times> pipe_db" where
  "approve_for_route actor ap mode db =
     (case find_approval db (ap_id ap) of
        None \<Rightarrow> (None, record_deferral ap (route_label mode @ ''_error:DoesNotExist'') db)
      | Some row \<Rightarrow>
          let ap' = ap\<lparr>ap_status := ap_status row, ap_source_edited := ap_source_edited row\<rparr> in
          if ap_source_edited row then (None, db)
          else if ap_status row = ApPending then
            (case approve actor (ap_id ap) db of
               (Inl _, db1) \<Rightarrow> (None, record_deferral ap (route_label mode @ ''_error:ReviewPermissionDenied'') db1)
             | (Inr _, db1) \<Rightarrow> (Some (ap'\<lparr>ap_status := ApApproved\<rparr>), db1))
          else if ap_status row \<noteq> ApApproved then (None, db)
          else (Some ap', db))"

definition auto_execute ::
  "pipe_env \<Rightarrow> reviewer option \<Rightarrow> approval \<Rightarrow> int option \<Rightarrow> assignment_mode \<Rightarrow> signal_mode \<Rightarrow> pipe_db \<Rightarrow> pipe_db" where
  "auto_execute env actor ap ts amode mode db =
     (if actor = None then db
      else if route_targets env amode (ap_source ap) db = [] then db
      else case approve_for_route actor ap mode db of
        (None, db1) \<Rightarrow> db1
      | (Some ap', db1) \<Rightarrow>
          fold (plan_and_promote_one env ap' ts mode) (route_targets env amode (ap_source ap) db) db1)"

text \<open>The \<open>signal_acquired\<close> receiver for an intaken message; \<open>ts\<close> is the message's own date.\<close>

definition route_acquired_signal ::
  "pipe_env \<Rightarrow> provider list \<Rightarrow> reviewer option \<Rightarrow> bool \<Rightarrow> approval option \<Rightarrow> int option \<Rightarrow> pipe_db \<Rightarrow> pipe_db" where
  "route_acquired_signal env providers actor intaken approval ts db =
     (case approval of
        None \<Rightarrow> db
      | Some ap \<Rightarrow>
          if \<not> intaken then db
          else case effective_mode env providers ap db of (m, reason) \<Rightarrow>
            (case tier_by_router_mode m of
               None \<Rightarrow> record_deferral ap reason db
             | Some (amode, mode) \<Rightarrow> auto_execute env actor ap ts amode mode db))"

section \<open>A validated promotion does not fail midway\<close>

lemma pin_available:
  assumes "env_admitted env a"
  shows "pinned_payload env ty a payload \<noteq> None"
proof -
  from assms have "ac_server a \<noteq> DanglingServer"
    by (auto simp: env_admitted_def is_demo_environment_def is_live_environment_def account_environment_def)
  then have "pin_server a \<noteq> None" by (auto simp: pin_server_def split: server_ref.splits)
  then show ?thesis
    by (auto simp: pinned_payload_def inject_identity_pin_def identity_pin_for_def split: option.splits)
qed

lemma guards_pass:
  assumes "order_creation_kill_reason env db = None" "ac_is_active a"
    "fst (evaluate_execution_gate (pe_settings env) (pe_fleet env) (Some a))"
    "\<not> is_broker_paused (pe_settings env) (pe_health env (ac_id a))"
  shows "save_guards env db ty a = None"
proof -
  from assms(4) have "require_not_broker_paused (pe_settings env) (pe_health env (ac_id a)) = Inr ()"
    by (auto simp: is_broker_paused_def require_not_broker_paused_def split: option.splits)
  then show ?thesis using assms(1-3)
    unfolding save_guards_def by (cases "evaluate_execution_gate (pe_settings env) (pe_fleet env) (Some a)") simp
qed

lemma promote_legs_total:
  assumes "save_guards env db ty a = None" "env_admitted env a"
  shows "\<exists>js db'. promote_legs env ty mode a p b ls db = (Inr js, db')"
  using assms
proof (induction ls arbitrary: db)
  case (Cons l ls)
  show ?case
  proof (cases "lg_job l")
    case (Some j)
    with Cons.IH [OF Cons.prems] show ?thesis by auto
  next
    case None
    let ?pay = "order_payload env db p l (mode_text mode) b (promotion_magic env mode (promotion_owner env db p))"
    from pin_available [OF Cons.prems(2)] obtain pl where pl: "pinned_payload env ty a ?pay = Some pl" by blast
    let ?j = "new_job env db ty a (map_option aa_id (promotion_owner env db p)) pl"
    let ?db1 = "db\<lparr>db_jobs := db_jobs db @ [?j], db_next_job := Suc (db_next_job db)\<rparr>"
    let ?db2 = "add_audit ''JOB_CREATED'' (Some (pl_id p)) (Some (pl_approval p)) ''''
        (update_leg (lg_plan l) (lg_index l) (\<lambda>x. x\<lparr>lg_job := Some (jb_id ?j), lg_status := LgPromoted\<rparr>) ?db1)"
    have c: "create_job env ty a (map_option aa_id (promotion_owner env db p)) ?pay db = (Inr ?j, ?db1)"
      using Cons.prems(1) pl by (simp add: create_job_def Let_def)
    have "promotion_frame db ?db2" by (simp add: promotion_frame_def update_leg_def)
    from frame_congs(3) [OF this] Cons.prems(1) have "save_guards env ?db2 ty a = None" by simp
    from Cons.IH [OF this Cons.prems(2)] obtain js db' where "promote_legs env ty mode a p b ls ?db2 = (Inr js, db')"
      by blast
    with None c show ?thesis by (simp add: Let_def)
  qed
qed simp

text \<open>So the outcome is a refusal by the validation or a success, for an account that trades.\<close>

lemma promote_plan_outcome:
  assumes "account_by_id env (pl_account p) = Some a" "ac_is_active a" "pl_status p = PlPlanned"
  shows "(\<exists>code. promote_plan env mode ty p db =
            (Inl (PromotionRejected code), add_audit ''PROMOTION_REJECTED'' (Some (pl_id p)) (Some (pl_approval p)) code db)) \<or>
         (\<exists>js db'. promote_plan env mode ty p db = (Inr js, db'))"
proof (cases "promotion_refusal env db a mode (can_account_trade_symbol env db (pl_account p) (pl_symbol p)) p")
  case (Some code)
  with assms show ?thesis by (simp add: promote_plan_unfold)
next
  case None
  note g = promotion_refusal_NoneD [OF None]
  from guards_pass [OF g(2) assms(2) g(4,5)] promote_legs_total [OF _ g(3)] obtain js db1 where
    "promote_legs env ty mode a p
       (case can_account_trade_symbol env db (pl_account p) (pl_symbol p) of SymAccepted _ b \<Rightarrow> b | SymRejected _ \<Rightarrow> '''')
       (legs_of db (pl_id p)) db = (Inr js, db1)" by blast
  with None assms show ?thesis by (simp add: promote_plan_unfold Let_def)
qed

section \<open>Which jobs a route creates\<close>

lemma promote_legs_jobs:
  assumes "promote_legs env ty mode a p b ls db = (Inr js, db')"
  shows "db_plans db' = db_plans db \<and> db_next_plan db' = db_next_plan db \<and> promotion_frame db db' \<and>
         (\<exists>new. db_jobs db' = db_jobs db @ new \<and>
            (\<forall>j \<in> set new. jb_type j = ty \<and> jb_status j = JbPending \<and> jb_account j = ac_id a))"
  using assms
proof (induction ls arbitrary: db js)
  case Nil then show ?case by (auto simp: promotion_frame_def)
next
  case (Cons l ls)
  show ?case
  proof (cases "lg_job l")
    case (Some j)
    with Cons.prems obtain js1 where "promote_legs env ty mode a p b ls db = (Inr js1, db')"
      by (auto split: prod.splits sum.splits)
    from Cons.IH [OF this] show ?thesis .
  next
    case None
    with Cons.prems obtain j db1 js1 where
      c: "create_job env ty a (map_option aa_id (promotion_owner env db p))
            (order_payload env db p l (mode_text mode) b (promotion_magic env mode (promotion_owner env db p))) db = (Inr j, db1)"
      and rest: "promote_legs env ty mode a p b ls (add_audit ''JOB_CREATED'' (Some (pl_id p)) (Some (pl_approval p)) ''''
        (update_leg (lg_plan l) (lg_index l) (\<lambda>x. x\<lparr>lg_job := Some (jb_id j), lg_status := LgPromoted\<rparr>) db1))
        = (Inr js1, db')"
      by (auto simp: Let_def split: prod.splits sum.splits)
    note cj = create_job_InrD [OF c]
    from Cons.IH [OF rest] obtain new where n:
      "db_plans db' = db_plans db" "db_next_plan db' = db_next_plan db"
      "promotion_frame db db'" "db_jobs db' = db_jobs db @ j # new"
      "\<forall>j \<in> set new. jb_type j = ty \<and> jb_status j = JbPending \<and> jb_account j = ac_id a"
      using cj by (auto simp: update_leg_def promotion_frame_def)
    show ?thesis using n cj by auto
  qed
qed

text \<open>The jobs of one destination: of the tier's type, pending, and on the destination's account.\<close>

definition adds_jobs :: "job_type \<Rightarrow> int set \<Rightarrow> pipe_db \<Rightarrow> pipe_db \<Rightarrow> bool" where
  "adds_jobs ty accounts db db' \<longleftrightarrow>
     (\<exists>new. db_jobs db' = db_jobs db @ new \<and>
        (\<forall>j \<in> set new. jb_type j = ty \<and> jb_status j = JbPending \<and> jb_account j \<in> accounts))"

lemma adds_jobs_refl [intro]: "db_jobs db' = db_jobs db \<Longrightarrow> adds_jobs ty A db db'"
  by (simp add: adds_jobs_def)

lemma adds_jobs_trans: "adds_jobs ty A a b \<Longrightarrow> adds_jobs ty B b c \<Longrightarrow> adds_jobs ty (A \<union> B) a c"
  by (fastforce simp: adds_jobs_def)

lemma promote_in_mode_eq: "promote_in_mode env m p db =
    promote_plan env (if m = ModeDemo then ModeDemo else ModeShadow) (mode_job m) p db"
  by (simp add: promote_in_mode_def mode_job_def promote_plan_to_demo_jobs_def promote_plan_to_shadow_jobs_def)

lemma promote_plan_jobs:
  assumes "promote_plan env mode ty p db = (r, db')" and "pl_status p = PlPlanned"
  shows "adds_jobs ty {pl_account p} db db' \<and> db_control db' = db_control db"
proof (cases r)
  case (Inl e)
  with assms show ?thesis
    by (auto simp: promote_plan_unfold Let_def split: option.splits prod.splits sum.splits if_splits)
next
  case (Inr js)
  have new: "pl_status p \<noteq> PlPromoted" using assms(2) by simp
  from promote_plan_InrD [OF assms(1) [unfolded Inr] new] obtain a b why db1 where
    a: "account_by_id env (pl_account p) = Some a"
    and pr: "promote_legs env ty mode a p b (legs_of db (pl_id p)) db = (Inr js, db1)"
    and db': "db' = add_audit ''PROMOTION_CREATED'' (Some (pl_id p)) (Some (pl_approval p)) ''''
             (update_plan (pl_id p) (\<lambda>q. q\<lparr>pl_status := PlPromoted\<rparr>) db1)" by metis
  from promote_legs_jobs [OF pr] account_by_id_SomeD [OF a] show ?thesis
    unfolding adds_jobs_def db' by (auto simp: update_plan_def promotion_frame_def)
qed

lemma planned_account:
  assumes "plan_demo_execution env ap a ts tot s db = (Inr p, db')"
  shows "pl_account p = ac_id a \<and> pl_approval p = ap_id ap"
proof (cases "existing_plan db (ap_id ap) (ac_id a)")
  case None
  from plan_demo_execution_result [OF None assms] show ?thesis by blast
next
  case (Some q)
  with assms show ?thesis by (auto simp: plan_demo_execution_def existing_plan_def dest: find_SomeD)
qed

lemma planning_frame:
  assumes "plan_demo_execution env ap a ts tot s db = (r, db')"
  shows "pipe_frame db db'"
proof (cases "existing_plan db (ap_id ap) (ac_id a)")
  case None
  from plan_demo_execution_result [OF None assms] show ?thesis by blast
next
  case (Some q)
  with assms show ?thesis by (simp add: plan_demo_execution_def pipe_frame_def)
qed

lemma record_deferral_simps [simp]:
  "db_jobs (record_deferral ap r db) = db_jobs db" "db_plans (record_deferral ap r db) = db_plans db"
  "db_legs (record_deferral ap r db) = db_legs db" "db_next_plan (record_deferral ap r db) = db_next_plan db"
  "db_control (record_deferral ap r db) = db_control db"
  by (simp_all add: record_deferral_def)

lemma void_rejected_jobs [simp]: "db_jobs (void_rejected_plan p c db) = db_jobs db"
  by (simp add: void_rejected_plan_def)

lemma plan_and_promote_one_jobs:
  "adds_jobs (mode_job mode) {aa_account s} db (plan_and_promote_one env ap ts mode s db)"
proof (cases "assignment_account env s")
  case None then show ?thesis by (simp add: plan_and_promote_one_def adds_jobs_refl)
next
  case (Some a)
  have acc: "ac_id a = aa_account s" using Some by (auto simp: assignment_account_def dest: account_by_id_SomeD)
  obtain r db1 where pl: "plan_demo_execution env ap a ts None (Some s) db = (r, db1)" by (rule prod.exhaust)
  have j1: "db_jobs db1 = db_jobs db" using planning_frame [OF pl] by (simp add: pipe_frame_def)
  show ?thesis
  proof (cases r)
    case (Inl code) with Some pl j1 show ?thesis by (simp add: plan_and_promote_one_def adds_jobs_refl)
  next
    case (Inr p)
    show ?thesis
    proof (cases "pl_status p = PlPlanned")
      case False with Some pl Inr j1 show ?thesis by (simp add: plan_and_promote_one_def adds_jobs_refl)
    next
      case True
      obtain r2 db2 where pr: "promote_in_mode env mode p db1 = (r2, db2)" by (rule prod.exhaust)
      from promote_plan_jobs [OF pr [unfolded promote_in_mode_eq] True] planned_account [OF pl [unfolded Inr]] acc
      have "adds_jobs (mode_job mode) {aa_account s} db1 db2" by simp
      then have "adds_jobs (mode_job mode) {aa_account s} db db2" by (simp add: adds_jobs_def j1)
      moreover have "db_jobs (plan_and_promote_one env ap ts mode s db) = db_jobs db2"
        using Some pl Inr True pr
        by (simp add: plan_and_promote_one_def split: sum.splits promotion_error.splits)
      ultimately show ?thesis by (simp add: adds_jobs_def)
    qed
  qed
qed

lemma fold_promote_jobs:
  "adds_jobs (mode_job mode) (aa_account ` set ss) db (fold (plan_and_promote_one env ap ts mode) ss db)"
proof (induction ss arbitrary: db)
  case (Cons s ss)
  from adds_jobs_trans [OF plan_and_promote_one_jobs Cons.IH] show ?case by simp
qed (simp add: adds_jobs_refl)

lemma approve_for_route_jobs:
  assumes "approve_for_route actor ap mode db = (r, db')"
  shows "db_jobs db' = db_jobs db \<and> db_plans db' = db_plans db \<and> db_next_plan db' = db_next_plan db \<and>
         (r \<noteq> None \<longrightarrow> (\<exists>row. find_approval db (ap_id ap) = Some row \<and> \<not> ap_source_edited row \<and>
            (ap_status row = ApApproved \<or> ap_status row = ApPending \<and> can_review actor)))"
  using assms
  by (auto simp: approve_for_route_def approve_def decide_approval_def set_approval_status_def Let_def
      split: option.splits if_splits prod.splits sum.splits)

lemma auto_execute_jobs:
  assumes "db' = auto_execute env actor ap ts amode mode db"
  shows "adds_jobs (mode_job mode) (aa_account ` set (route_targets env amode (ap_source ap) db)) db db' \<and>
         (db_jobs db' \<noteq> db_jobs db \<longrightarrow> actor \<noteq> None \<and>
            (\<exists>row. find_approval db (ap_id ap) = Some row \<and> \<not> ap_source_edited row \<and>
               (ap_status row = ApApproved \<or> ap_status row = ApPending \<and> can_review actor)))"
proof -
  obtain r db1 where r: "approve_for_route actor ap mode db = (r, db1)" by (rule prod.exhaust)
  note f = approve_for_route_jobs [OF r]
  show ?thesis
  proof (cases "actor = None \<or> route_targets env amode (ap_source ap) db = [] \<or> r = None")
    case True
    then have "db_jobs db' = db_jobs db" using assms r f by (auto simp: auto_execute_def)
    then show ?thesis by (simp add: adds_jobs_refl)
  next
    case False
    then obtain ap' where r': "r = Some ap'" by auto
    with False assms r have "db' = fold (plan_and_promote_one env ap' ts mode) (route_targets env amode (ap_source ap) db) db1"
      by (auto simp: auto_execute_def)
    with fold_promote_jobs [of mode "route_targets env amode (ap_source ap) db" db1 env ap' ts] f False r' show ?thesis
      by (simp add: adds_jobs_def)
  qed
qed

text \<open>
  C6: A signal reaches the order queue only through every gate at once: the automatic path is on, nothing
  blocks orders, the provider is armed and its parser certified, the source is enabled, the stored
  approval was never edited and is approved or approvable by the system reviewer; the jobs have the type
  of the global mode and belong to the accounts of the routed assignments.
\<close>
theorem routing_is_gated:
  assumes route: "db' = route_acquired_signal env providers actor intaken (Some ap) ts db"
    and jobs: "db_jobs db' \<noteq> db_jobs db"
  shows "intaken \<and> actor \<noteq> None \<and> xc_auto_enabled (get_solo db) \<and> order_creation_kill_reason env db = None \<and>
    (\<exists>pv \<in> set providers. Some (pv_slug pv) = ap_provider ap \<and> is_armed pv \<and> confidence_ok pv) \<and>
    (\<exists>cfg. config_of db (ap_source ap) = Some cfg \<and> cf_enabled cfg) \<and>
    (\<exists>row. find_approval db (ap_id ap) = Some row \<and> \<not> ap_source_edited row \<and>
       (ap_status row = ApApproved \<or> ap_status row = ApPending \<and> can_review actor)) \<and>
    (\<exists>tier amode. tier_for (xc_mode (get_solo db)) = Some (tier, amode, xc_mode (get_solo db)) \<and>
       adds_jobs (mode_job (xc_mode (get_solo db)))
         (aa_account ` set (route_targets env amode (ap_source ap) db)) db db')"
proof -
  obtain m reason where em: "effective_mode env providers ap db = (m, reason)" by (rule prod.exhaust)
  from route jobs em have int: "intaken" and tm: "tier_by_router_mode m \<noteq> None"
    by (auto simp: route_acquired_signal_def split: if_splits option.splits)
  then have man: "m \<noteq> RmManual" by (auto simp: tier_by_router_mode_def)
  from em man have g: "xc_auto_enabled (get_solo db)" "order_creation_kill_reason env db = None"
    "\<exists>cfg. config_of db (ap_source ap) = Some cfg \<and> cf_enabled cfg"
    by (auto simp: effective_mode_def Let_def split: if_splits option.splits prod.splits)
  from em man have pv: "\<exists>pv. Option.bind (ap_provider ap) (\<lambda>g. find (\<lambda>p. pv_slug p = g) providers) = Some pv \<and>
      is_armed pv \<and> confidence_ok pv"
    by (auto simp: effective_mode_def Let_def split: if_splits option.splits prod.splits)
  then have pv': "\<exists>pv \<in> set providers. Some (pv_slug pv) = ap_provider ap \<and> is_armed pv \<and> confidence_ok pv"
  proof -
    from pv obtain pv y where "ap_provider ap = Some y" "find (\<lambda>p. pv_slug p = y) providers = Some pv"
      "is_armed pv" "confidence_ok pv" by (auto simp: bind_eq_Some_conv)
    then show ?thesis by (intro bexI [of _ pv]) (auto dest: find_SomeD)
  qed
  from em man obtain amode mode where tier: "tier_for (xc_mode (get_solo db)) = Some (m, amode, mode)"
    by (auto simp: effective_mode_def Let_def split: if_splits option.splits prod.splits)
  then have mode: "mode = xc_mode (get_solo db)" and tback: "tier_by_router_mode m = Some (amode, mode)"
    by (auto simp: tier_for_def tier_by_router_mode_def split: signal_mode.splits)
  from route int em tback have db': "db' = auto_execute env actor ap ts amode mode db"
    by (simp add: route_acquired_signal_def)
  show ?thesis
    using int g pv' auto_execute_jobs [OF db'] jobs tier unfolding mode by blast
qed

section \<open>Where a signal may go\<close>

lemma unique_admitted_SomeD: "unique_admitted env qs = Some s \<Longrightarrow> s \<in> set qs \<and> (live_routing env \<longrightarrow> admitted env s)"
proof -
  assume u: "unique_admitted env qs = Some s"
  let ?xs = "if live_routing env then filter (admitted env) qs else qs"
  from u have "?xs = [s]" by (auto simp: unique_admitted_def Let_def split: list.splits)
  then have "s \<in> set ?xs" by (metis list.set_intros(1))
  then show ?thesis by (auto split: if_splits)
qed

lemma bound_to_iff [simp]: "s \<in> set (bound_to x qs) \<longleftrightarrow> s \<in> set qs \<and> aa_source s = x \<and> aa_is_active s"
  by (auto simp: bound_to_def)

lemma routable_base_iff:
  "s \<in> set (routable_base env mode db) \<longleftrightarrow>
     s \<in> set (db_assignments db) \<and> aa_mode s = mode \<and> aa_stage s = stage_routable \<and>
     (\<exists>a. assignment_account env s = Some a \<and> ac_is_active a \<and> (live_routing env \<or> ac_is_demo a))"
  by (auto simp: routable_base_def split: option.splits)

lemma resolve_target_SomeD:
  assumes "resolve_target env mode source db = Some s"
  shows "s \<in> set (routable_base env mode db)" "aa_is_active s"
    "aa_source s = (if source_claimed db source then source else '''')" "live_routing env \<longrightarrow> admitted env s"
  using assms
  by (auto simp: resolve_target_def Let_def split: if_splits dest!: unique_admitted_SomeD)

lemma route_targets_mem:
  assumes "s \<in> set (route_targets env mode source db)"
  shows "s \<in> set (routable_base env mode db) \<and> aa_is_active s \<and>
         aa_source s = (if source_claimed db source then source else '''') \<and> (live_routing env \<longrightarrow> admitted env s)"
proof -
  from assms consider "resolve_target env mode source db = Some s"
    | "source_claimed db source" "s \<in> set (bound_to source (routable_base env mode db))" "live_routing env \<longrightarrow> admitted env s"
    by (auto simp: route_targets_def resolve_targets_def Let_def split: if_splits option.splits)
  then show ?thesis
  proof cases
    case 1 from resolve_target_SomeD [OF 1] show ?thesis by blast
  qed auto
qed

text \<open>
  Signals stay with their owner. A destination is an active assignment of the mode, staged live, on an
  active account, bound to the signal's source when any assignment claims that source, whatever state
  the claiming one is in, and unbound otherwise; a non-demo account needs a live authorization; without
  fan-out there is at most one destination.
\<close>
theorem targets_belong_to_source:
  assumes "s \<in> set (route_targets env mode source db)"
  shows "s \<in> set (db_assignments db) \<and> aa_is_active s \<and> aa_mode s = mode \<and> aa_stage s = ''LIVE'' \<and>
         aa_source s = (if source_claimed db source then source else '''') \<and>
         (\<exists>a. assignment_account env s = Some a \<and> ac_is_active a \<and>
              (ac_is_demo a \<or> live_execution_permitted (pe_settings env) (pe_fleet env) a)) \<and>
         (\<not> pe_multi_account env \<longrightarrow> route_targets env mode source db = [s])"
proof -
  from route_targets_mem [OF assms] obtain a where m: "s \<in> set (db_assignments db)" "aa_mode s = mode"
    "aa_stage s = stage_routable" "aa_is_active s" "assignment_account env s = Some a" "ac_is_active a"
    "aa_source s = (if source_claimed db source then source else '''')"
    and ad: "live_routing env \<longrightarrow> admitted env s" "live_routing env \<or> ac_is_demo a"
    by (auto simp: routable_base_iff)
  have "ac_is_demo a \<or> live_execution_permitted (pe_settings env) (pe_fleet env) a"
    using ad m(5) by (auto simp: admitted_def account_env_admitted_def is_demo_environment_def account_environment_def
        split: server_ref.splits if_splits)
  moreover have "\<not> pe_multi_account env \<Longrightarrow> route_targets env mode source db = [s]"
    using assms by (cases "resolve_target env mode source db") (simp_all add: route_targets_def)
  ultimately show ?thesis using m by (auto simp: stage_routable_def)
qed

section \<open>No plan is left waiting\<close>

definition plan_key :: "plan \<Rightarrow> nat \<times> int" where
  "plan_key p = (pl_approval p, pl_account p)"

definition plans_unique :: "pipe_db \<Rightarrow> bool" where
  "plans_unique db \<longleftrightarrow> distinct (map pl_id (db_plans db)) \<and> (\<forall>p \<in> set (db_plans db). pl_id p < db_next_plan db) \<and>
     distinct (map plan_key (db_plans db))"

text \<open>The plans of other keys stay, and none of this key is left \<open>PLANNED\<close>.\<close>

definition settles :: "nat \<times> int \<Rightarrow> pipe_db \<Rightarrow> pipe_db \<Rightarrow> bool" where
  "settles k db db' \<longleftrightarrow>
     plans_unique db' \<and> filter (\<lambda>q. plan_key q \<noteq> k) (db_plans db') = filter (\<lambda>q. plan_key q \<noteq> k) (db_plans db) \<and>
     (\<forall>q \<in> set (db_plans db'). plan_key q = k \<longrightarrow> pl_status q \<noteq> PlPlanned)"

lemma existing_plan_key: "existing_plan db (fst k) (snd k) = find (\<lambda>p. plan_key p = k) (db_plans db)"
  unfolding existing_plan_def plan_key_def by (rule arg_cong [where f = "\<lambda>P. find P (db_plans db)"]) auto

lemma planning_keys:
  assumes u: "plans_unique db" and call: "plan_demo_execution env ap a ts tot s db = (r, db1)"
  shows "plans_unique db1 \<and>
         filter (\<lambda>q. plan_key q \<noteq> (ap_id ap, ac_id a)) (db_plans db1) = filter (\<lambda>q. plan_key q \<noteq> (ap_id ap, ac_id a)) (db_plans db) \<and>
         (case r of Inl _ \<Rightarrow> \<forall>q \<in> set (db_plans db1). plan_key q \<noteq> (ap_id ap, ac_id a)
          | Inr p \<Rightarrow> p \<in> set (db_plans db1) \<and> plan_key p = (ap_id ap, ac_id a))"
proof (cases "existing_plan db (ap_id ap) (ac_id a)")
  case (Some q)
  with u call show ?thesis
    by (auto simp: plan_demo_execution_def existing_plan_def plan_key_def dest: find_SomeD)
next
  case None
  then have none: "\<forall>q \<in> set (db_plans db). plan_key q \<noteq> (ap_id ap, ac_id a)"
    using existing_plan_key [of db "(ap_id ap, ac_id a)"] by (auto dest: find_NoneD dest!: sym [of None])
  from plan_demo_execution_result [OF None call]
  consider (no) "\<exists>code. r = Inl code" "plan_tables_kept db db1"
    | (new) p legs where "r = Inr p" "stores_plan p legs db db1" "plan_key p = (ap_id ap, ac_id a)" "pl_id p = db_next_plan db"
    unfolding plan_key_def by blast
  then show ?thesis
  proof cases
    case no then show ?thesis using u none by (auto simp: plan_tables_kept_def plans_unique_def)
  next
    case new
    have "db_plans db1 = db_plans db @ [p]" "db_next_plan db1 = Suc (db_next_plan db)"
      using new(2) by (simp_all add: stores_plan_def)
    with u new none show ?thesis by (auto simp: plans_unique_def image_iff less_Suc_eq)
  qed
qed

lemma plans_unique_map:
  assumes "plans_unique db" and "db_plans db' = map f (db_plans db)" and "db_next_plan db' = db_next_plan db"
    and "\<And>q. pl_id (f q) = pl_id q" "\<And>q. plan_key (f q) = plan_key q"
  shows "plans_unique db'"
  using assms by (auto simp: plans_unique_def comp_def)

lemma filter_map_other:
  assumes "\<And>q. q \<in> set xs \<Longrightarrow> P q \<Longrightarrow> f q = q" "\<And>q. P (f q) = P q"
  shows "filter P (map f xs) = filter P xs"
  using assms by (induction xs) auto

lemma distinct_map_eq: "distinct (map f xs) \<Longrightarrow> x \<in> set xs \<Longrightarrow> y \<in> set xs \<Longrightarrow> f x = f y \<Longrightarrow> x = y"
  by (metis distinct_map inj_onD)

lemma plans_uniqueD:
  "plans_unique db \<Longrightarrow> p \<in> set (db_plans db) \<Longrightarrow> q \<in> set (db_plans db) \<Longrightarrow> pl_id p = pl_id q \<Longrightarrow> p = q"
  "plans_unique db \<Longrightarrow> p \<in> set (db_plans db) \<Longrightarrow> q \<in> set (db_plans db) \<Longrightarrow> plan_key p = plan_key q \<Longrightarrow> p = q"
  by (auto simp: plans_unique_def intro: distinct_map_eq)

lemma settle_by_map:
  assumes u: "plans_unique db" and p: "p \<in> set (db_plans db)" and k: "plan_key p = k"
    and map: "db_plans db' = map (\<lambda>q. if pl_id q = pl_id p then f q else q) (db_plans db)"
    and nx: "db_next_plan db' = db_next_plan db"
    and f: "\<And>q. pl_id (f q) = pl_id q" "\<And>q. plan_key (f q) = plan_key q" "\<And>q. pl_status (f q) \<noteq> PlPlanned"
  shows "settles k db db'"
proof -
  have same: "q = p" if "q \<in> set (db_plans db)" "pl_id q = pl_id p" for q
    using plans_uniqueD(1) [OF u that(1) p that(2)] .
  have key: "q = p" if "q \<in> set (db_plans db)" "plan_key q = k" for q
    using plans_uniqueD(2) [OF u that(1) p] that(2) k by simp
  have "plans_unique db'" by (rule plans_unique_map [OF u map nx]) (simp_all add: f)
  moreover have "filter (\<lambda>q. plan_key q \<noteq> k) (db_plans db') = filter (\<lambda>q. plan_key q \<noteq> k) (db_plans db)"
    unfolding map by (rule filter_map_other) (use same k in \<open>auto simp: f(2)\<close>)
  moreover have "pl_status q \<noteq> PlPlanned" if q: "q \<in> set (db_plans db')" "plan_key q = k" for q
  proof -
    from q(1) obtain x where x: "x \<in> set (db_plans db)" "q = (if pl_id x = pl_id p then f x else x)"
      unfolding map by auto
    with q(2) have "plan_key x = k" by (simp add: f(2) split: if_splits)
    from key [OF x(1) this] x(2) show ?thesis by (simp add: f(3))
  qed
  ultimately show ?thesis by (simp add: settles_def)
qed

lemma settles_audit: "db_plans db2 = db_plans db1 \<Longrightarrow> db_next_plan db2 = db_next_plan db1 \<Longrightarrow> settles k db db1 \<Longrightarrow> settles k db db2"
  by (simp add: settles_def plans_unique_def)

lemma settles_after:
  "filter (\<lambda>q. plan_key q \<noteq> k) (db_plans db1) = filter (\<lambda>q. plan_key q \<noteq> k) (db_plans db) \<Longrightarrow> settles k db1 db2 \<Longrightarrow> settles k db db2"
  by (simp add: settles_def)

lemma plan_and_promote_one_settles:
  assumes u: "plans_unique db" and a: "assignment_account env s = Some a" "ac_is_active a"
  shows "settles (ap_id ap, ac_id a) db (plan_and_promote_one env ap ts mode s db)"
proof -
  let ?k = "(ap_id ap, ac_id a)"
  obtain r db1 where pl: "plan_demo_execution env ap a ts None (Some s) db = (r, db1)" by (rule prod.exhaust)
  note pk = planning_keys [OF u pl]
  then have u1: "plans_unique db1" and others: "filter (\<lambda>q. plan_key q \<noteq> ?k) (db_plans db1) = filter (\<lambda>q. plan_key q \<noteq> ?k) (db_plans db)"
    by blast+
  show ?thesis
  proof (cases r)
    case (Inl code)
    with pk a pl show ?thesis by (auto simp: plan_and_promote_one_def settles_def plans_unique_def)
  next
    case (Inr p)
    with pk have p: "p \<in> set (db_plans db1)" "plan_key p = ?k" by auto
    have only: "q = p" if "q \<in> set (db_plans db1)" "plan_key q = ?k" for q
      using plans_uniqueD(2) [OF u1 that(1) p(1)] that(2) p(2) by simp
    show ?thesis
    proof (cases "pl_status p = PlPlanned")
      case False
      then have "plan_and_promote_one env ap ts mode s db = db1"
        using a pl Inr by (simp add: plan_and_promote_one_def)
      with u1 others only False show ?thesis by (auto simp: settles_def)
    next
      case True
      have acc: "account_by_id env (pl_account p) = Some a"
        using p(2) a(1) account_by_id_SomeD [of env "aa_account s" a]
        by (simp add: plan_key_def assignment_account_def)
      note out = promote_plan_outcome [OF acc a(2) True, of "if mode = ModeDemo then ModeDemo else ModeShadow"
          "mode_job mode" db1, folded promote_in_mode_eq]
      then consider (rej) code where "promote_in_mode env mode p db1 = (Inl (PromotionRejected code),
              add_audit ''PROMOTION_REJECTED'' (Some (pl_id p)) (Some (pl_approval p)) code db1)"
        | (ok) js db2 where "promote_in_mode env mode p db1 = (Inr js, db2)" by blast
      then have "settles ?k db1 (plan_and_promote_one env ap ts mode s db)"
      proof cases
        case rej
        let ?db2 = "record_deferral ap (route_label mode @ ''_rejected:'' @ code)
            (add_audit ''PROMOTION_REJECTED'' (Some (pl_id p)) (Some (pl_approval p)) code db1)"
        have eq: "plan_and_promote_one env ap ts mode s db = void_rejected_plan p code ?db2"
          using a pl Inr True rej by (simp add: plan_and_promote_one_def)
        have ex: "list_ex (\<lambda>q. pl_id q = pl_id p \<and> pl_status q = PlPlanned) (db_plans ?db2)"
          using p True by (auto simp: list_ex_iff)
        have "db_plans (void_rejected_plan p code ?db2) =
            map (\<lambda>q. if pl_id q = pl_id p then (if pl_status q = PlPlanned then q\<lparr>pl_status := PlVoided,
                 pl_hold_reason := take 64 (''promotion_rejected:'' @ code)\<rparr> else q) else q) (db_plans db1)"
          using ex unfolding void_rejected_plan_def by (auto intro!: map_cong)
        then show ?thesis unfolding eq
          by (rule settle_by_map [OF u1 p(1) p(2)])
            (auto simp: void_rejected_plan_def plan_key_def)
      next
        case ok
        have eq: "plan_and_promote_one env ap ts mode s db = db2"
          using a pl Inr True ok by (simp add: plan_and_promote_one_def)
        have new: "pl_status p \<noteq> PlPromoted" using True by simp
        from promote_plan_InrD [OF ok [unfolded promote_in_mode_eq] new] obtain a' b why db3 where
          pr: "promote_legs env (mode_job mode) (if mode = ModeDemo then ModeDemo else ModeShadow) a' p b
                 (legs_of db1 (pl_id p)) db1 = (Inr js, db3)"
          and db2: "db2 = add_audit ''PROMOTION_CREATED'' (Some (pl_id p)) (Some (pl_approval p)) ''''
             (update_plan (pl_id p) (\<lambda>q. q\<lparr>pl_status := PlPromoted\<rparr>) db3)" by metis
        note fr = promote_legs_jobs [OF pr]
        show ?thesis unfolding eq
          by (rule settle_by_map [OF u1 p(1) p(2), where f = "\<lambda>q. q\<lparr>pl_status := PlPromoted\<rparr>"])
            (use fr in \<open>auto simp: db2 update_plan_def plan_key_def\<close>)
      qed
      with others show ?thesis by (rule settles_after)
    qed
  qed
qed

lemma settles_keep:
  assumes "settles k db db'" "k' \<noteq> k" "\<forall>q \<in> set (db_plans db). plan_key q = k' \<longrightarrow> pl_status q \<noteq> PlPlanned"
  shows "\<forall>q \<in> set (db_plans db'). plan_key q = k' \<longrightarrow> pl_status q \<noteq> PlPlanned"
proof (intro ballI impI)
  fix q assume "q \<in> set (db_plans db')" "plan_key q = k'"
  with assms(2) have "q \<in> set (filter (\<lambda>q. plan_key q \<noteq> k) (db_plans db'))" by simp
  moreover have "filter (\<lambda>q. plan_key q \<noteq> k) (db_plans db') = filter (\<lambda>q. plan_key q \<noteq> k) (db_plans db)"
    using assms(1) by (simp add: settles_def)
  ultimately have "q \<in> set (db_plans db)" by simp
  with assms(3) \<open>plan_key q = k'\<close> show "pl_status q \<noteq> PlPlanned" by blast
qed

lemma fold_settles:
  assumes "plans_unique db" and "\<forall>s \<in> set ss. \<exists>a. assignment_account env s = Some a \<and> ac_is_active a"
    and "\<forall>s \<in> A. \<forall>q \<in> set (db_plans db). plan_key q = (ap_id ap, aa_account s) \<longrightarrow> pl_status q \<noteq> PlPlanned"
  shows "plans_unique (fold (plan_and_promote_one env ap ts mode) ss db) \<and>
         (\<forall>s \<in> A \<union> set ss. \<forall>q \<in> set (db_plans (fold (plan_and_promote_one env ap ts mode) ss db)).
            plan_key q = (ap_id ap, aa_account s) \<longrightarrow> pl_status q \<noteq> PlPlanned)"
  using assms
proof (induction ss arbitrary: db A)
  case (Cons s ss)
  from Cons.prems(2) obtain a where a: "assignment_account env s = Some a" "ac_is_active a" by auto
  have acc: "ac_id a = aa_account s" using a(1) by (auto simp: assignment_account_def dest: account_by_id_SomeD)
  let ?db = "plan_and_promote_one env ap ts mode s db"
  note st = plan_and_promote_one_settles [OF Cons.prems(1) a, of ap ts mode]
  have "\<forall>x \<in> insert s A. \<forall>q \<in> set (db_plans ?db). plan_key q = (ap_id ap, aa_account x) \<longrightarrow> pl_status q \<noteq> PlPlanned"
  proof
    fix x assume x: "x \<in> insert s A"
    show "\<forall>q \<in> set (db_plans ?db). plan_key q = (ap_id ap, aa_account x) \<longrightarrow> pl_status q \<noteq> PlPlanned"
    proof (cases "(ap_id ap, aa_account x) = (ap_id ap, ac_id a)")
      case True with st show ?thesis by (auto simp: settles_def)
    next
      case False
      with x acc have "x \<in> A" by auto
      with Cons.prems(3) show ?thesis by (intro settles_keep [OF st False]) blast
    qed
  qed
  from Cons.IH [OF _ _ this] st Cons.prems(2) show ?case by (auto simp: settles_def)
qed simp

text \<open>
  Routing never leaves a plan waiting: once a signal was approved and sent to its destinations, no plan
  of it is \<open>PLANNED\<close> on any of their accounts, so none keeps occupying a group slot; it is promoted,
  held, voided, or was refused.
\<close>
theorem routed_plans_are_settled:
  assumes u: "plans_unique db" and ok: "approve_for_route actor ap mode db = (Some ap', db1)" "actor \<noteq> None"
    and s: "s \<in> set (route_targets env amode (ap_source ap) db)"
    and q: "q \<in> set (db_plans (auto_execute env actor ap ts amode mode db))"
      "pl_approval q = ap_id ap" "pl_account q = aa_account s"
  shows "pl_status q \<noteq> PlPlanned"
proof -
  let ?ss = "route_targets env amode (ap_source ap) db"
  have ap': "ap_id ap' = ap_id ap" using ok(1)
    by (auto simp: approve_for_route_def Let_def split: option.splits if_splits prod.splits sum.splits)
  have u1: "plans_unique db1" using approve_for_route_jobs [OF ok(1)] u by (simp add: plans_unique_def)
  have act: "\<forall>s \<in> set ?ss. \<exists>a. assignment_account env s = Some a \<and> ac_is_active a"
    using targets_belong_to_source by blast
  have eq: "auto_execute env actor ap ts amode mode db = fold (plan_and_promote_one env ap' ts mode) ?ss db1"
    using ok s by (auto simp: auto_execute_def)
  from fold_settles [OF u1 act, of "{}" ap' ts mode] s q show ?thesis
    unfolding eq by (auto simp: ap' plan_key_def)
qed

section \<open>Witnesses\<close>

definition demo_provider :: provider where
  "demo_provider = \<lparr>pv_slug = ''wayond'', pv_status = PvArmed, pv_certification = ''HIGH''\<rparr>"

definition demo_reviewer :: reviewer where
  "demo_reviewer = \<lparr>rv_is_active = True, rv_may_review = True\<rparr>"

definition demo_assignment :: auto_assignment where
  "demo_assignment = \<lparr>aa_id = 5, aa_account = ac_id demo_account, aa_is_active = True, aa_stage = ''LIVE'',
     aa_mode = AmAutoShadow, aa_source = ''wayond'', aa_magic = None, aa_lot_per_leg = None\<rparr>"

definition demo_armed_db :: pipe_db where
  "demo_armed_db = empty_db\<lparr>db_control := Some (default_control\<lparr>xc_auto_enabled := True\<rparr>),
     db_assignments := [demo_assignment], db_approvals := [demo_approval\<lparr>ap_status := ApPending\<rparr>]\<rparr>"

definition demo_pending :: approval where
  "demo_pending = demo_approval\<lparr>ap_status := ApPending\<rparr>"

definition demo_routed :: pipe_db where
  "demo_routed =
     route_acquired_signal demo_env [demo_provider] (Some demo_reviewer) True (Some demo_pending) None demo_armed_db"

lemma demo_routed_jobs: "map jb_type (db_jobs demo_routed) = [PlaceOrderShadow, PlaceOrderShadow, PlaceOrderShadow]"
  by code_simp

lemma demo_targets: "route_targets demo_env AmAutoShadow ''wayond'' demo_armed_db = [demo_assignment]"
  by code_simp

theorem routing_is_gated_witness:
  "xc_auto_enabled (get_solo demo_armed_db) \<and> order_creation_kill_reason demo_env demo_armed_db = None"
proof -
  have "db_jobs demo_routed \<noteq> db_jobs demo_armed_db"
    using demo_routed_jobs by (auto simp: demo_armed_db_def empty_db_def)
  from routing_is_gated [OF demo_routed_def this] show ?thesis by blast
qed

theorem targets_belong_to_source_witness:
  "aa_is_active demo_assignment \<and> aa_source demo_assignment = (if source_claimed demo_armed_db ''wayond'' then ''wayond'' else '''')"
proof -
  have "demo_assignment \<in> set (route_targets demo_env AmAutoShadow ''wayond'' demo_armed_db)"
    unfolding demo_targets by simp
  from targets_belong_to_source [OF this] show ?thesis by blast
qed

definition demo_executed :: pipe_db where
  "demo_executed = auto_execute demo_env (Some demo_reviewer) demo_pending None AmAutoShadow ModeShadow demo_armed_db"

lemma demo_executed_plan:
  "map (\<lambda>p. (pl_approval p, pl_account p = aa_account demo_assignment)) (db_plans demo_executed) = [(ap_id demo_pending, True)]"
  by code_simp

theorem routed_plans_are_settled_witness:
  "db_plans demo_executed \<noteq> [] \<and> pl_status (hd (db_plans demo_executed)) \<noteq> PlPlanned"
proof -
  have ok: "approve_for_route (Some demo_reviewer) demo_pending ModeShadow demo_armed_db =
      (Some (demo_approval), snd (approve_for_route (Some demo_reviewer) demo_pending ModeShadow demo_armed_db))"
    by (simp add: approve_for_route_def demo_armed_db_def demo_pending_def find_approval_def approve_def
        decide_approval_def can_review_def demo_reviewer_def demo_approval_def)
  have u: "plans_unique demo_armed_db" by (simp add: plans_unique_def demo_armed_db_def empty_db_def)
  have s: "demo_assignment \<in> set (route_targets demo_env AmAutoShadow (ap_source demo_pending) demo_armed_db)"
    using demo_targets by (simp add: demo_pending_def demo_approval_def)
  obtain q qs where q: "db_plans demo_executed = q # qs" "pl_approval q = ap_id demo_pending"
    "pl_account q = aa_account demo_assignment" using demo_executed_plan by (cases "db_plans demo_executed") auto
  have "q \<in> set (db_plans (auto_execute demo_env (Some demo_reviewer) demo_pending None AmAutoShadow ModeShadow demo_armed_db))"
    using q(1) unfolding demo_executed_def by simp
  from routed_plans_are_settled [OF u ok _ s this q(2,3)] q(1) show ?thesis by simp
qed

end
