(* ===== verification/Protection.thy ===== *)
theory Protection
  imports AutoRouter
begin

text \<open>
  The stop-loss protection ladder (\<^verbatim>\<open>execution/breakeven.py\<close>): decimals as Python parses them, the
  stage a leg should be in, and the sweep that reconciles each open leg with its last
  \<open>MODIFY_POSITION\<close> job. A sweep returns the keys of the counters it increments. The two audit entries
  \<open>idempotency_key\<close> and \<open>reason\<close> of the job payload, which nothing reads, are left out.
\<close>

section \<open>Decimals\<close>

fun digits_value :: "nat \<Rightarrow> string \<Rightarrow> nat" where
  "digits_value acc [] = acc"
| "digits_value acc (c # cs) = digits_value (10 * acc + (case digit_val c of None \<Rightarrow> 0 | Some d \<Rightarrow> d)) cs"

definition split_digits :: "string \<Rightarrow> string \<times> string" where
  "split_digits s = (takeWhile (\<lambda>c. digit_val c \<noteq> None) s, dropWhile (\<lambda>c. digit_val c \<noteq> None) s)"

definition take_sign :: "string \<Rightarrow> bool \<times> string" where
  "take_sign s = (case s of
     [] \<Rightarrow> (False, [])
   | c # cs \<Rightarrow> if c = CHR ''-'' then (True, cs) else if c = CHR ''+'' then (False, cs) else (False, s))"

definition exponent_part :: "string \<Rightarrow> int option" where
  "exponent_part s =
     (case s of
        [] \<Rightarrow> Some 0
      | e # r \<Rightarrow>
          if upper_char e \<noteq> CHR ''E'' then None
          else
            let (neg, u) = take_sign r; (ds, rest) = split_digits u in
            if ds = [] \<or> rest \<noteq> [] then None
            else Some (if neg then - int (digits_value 0 ds) else int (digits_value 0 ds)))"

definition scale_ten :: "rat \<Rightarrow> int \<Rightarrow> rat" where
  "scale_ten x e = (if 0 \<le> e then x * 10 ^ nat e else x / 10 ^ nat (- e))"

definition special_decimal :: "bool \<Rightarrow> string \<Rightarrow> pyfloat option" where
  "special_decimal neg u =
     (let v = upper u in
      if v = ''INF'' \<or> v = ''INFINITY'' then Some (if neg then NegInf else PosInf)
      else if (take 3 v = ''NAN'' \<and> snd (split_digits (drop 3 v)) = []) \<or>
              (take 4 v = ''SNAN'' \<and> snd (split_digits (drop 4 v)) = []) then Some NaN
      else None)"

text \<open>\<open>Decimal(text)\<close>; \<open>None\<close> is \<open>InvalidOperation\<close>.\<close>

definition decimal_of_string :: "string \<Rightarrow> pyfloat option" where
  "decimal_of_string s =
     (let (neg, u) = take_sign (filter (\<lambda>c. c \<noteq> CHR ''_'') (strip s));
          (ip, r1) = split_digits u;
          (fp, r2) = (case r1 of c # r \<Rightarrow> if c = CHR ''.'' then split_digits r else ([], r1) | [] \<Rightarrow> ([], r1)) in
      if ip = [] \<and> fp = [] then special_decimal neg u
      else case exponent_part r2 of
        None \<Rightarrow> None
      | Some e \<Rightarrow>
          Some (Finite ((if neg then - 1 else 1) *
                        scale_ten (of_nat (digits_value 0 (ip @ fp))) (e - int (length fp)))))"

definition to_decimal :: "string \<Rightarrow> pyfloat option" where
  "to_decimal s = (if s = '''' then None else decimal_of_string s)"

text \<open>An ordering comparison raises on a NaN: \<open>None\<close>.\<close>

definition dec_less :: "pyfloat \<Rightarrow> pyfloat \<Rightarrow> bool option" where
  "dec_less x y =
     (case (x, y) of
        (NaN, _) \<Rightarrow> None | (_, NaN) \<Rightarrow> None
      | (Finite a, Finite b) \<Rightarrow> Some (a < b)
      | (Finite _, PosInf) \<Rightarrow> Some True | (NegInf, Finite _) \<Rightarrow> Some True | (NegInf, PosInf) \<Rightarrow> Some True
      | _ \<Rightarrow> Some False)"

section \<open>When a stage applies\<close>

definition is_risk_reducing :: "string \<Rightarrow> pyfloat option \<Rightarrow> pyfloat option \<Rightarrow> bool option" where
  "is_risk_reducing direction new_sl old_sl =
     (case (new_sl, old_sl) of
        (Some n, Some old) \<Rightarrow>
          (let d = upper (strip direction) in
           if d = ''BUY'' then dec_less old n else if d = ''SELL'' then dec_less n old else Some False)
      | _ \<Rightarrow> Some False)"

text \<open>The trade closed at or through its take profit: the close covers the reach fraction of the way.\<close>

definition closed_profitably :: "rat \<Rightarrow> trade \<Rightarrow> string \<Rightarrow> string \<Rightarrow> bool option" where
  "closed_profitably reach t tp_price direction =
     (case (td_close_time t, td_close_price t, to_decimal tp_price) of
        (Some _, Some cp, Some tp) \<Rightarrow>
          (let en = td_open_price t; d = upper (strip direction) in
           case tp of
             Finite x \<Rightarrow>
               if \<bar>x - en\<bar> = 0 then Some False
               else if d = ''SELL'' then Some (en - cp \<ge> \<bar>x - en\<bar> * reach)
               else if d = ''BUY'' then Some (cp - en \<ge> \<bar>x - en\<bar> * reach)
               else Some False
           | NaN \<Rightarrow> if d \<in> {''SELL'', ''BUY''} then None else Some False
           | _ \<Rightarrow> Some False)
      | _ \<Rightarrow> Some False)"

fun latest_open :: "trade list \<Rightarrow> trade option" where
  "latest_open [] = None"
| "latest_open (t # ts) = (case latest_open ts of None \<Rightarrow> Some t
                           | Some u \<Rightarrow> Some (if td_open_time u > td_open_time t then u else t))"

definition leg_trade :: "pipe_db \<Rightarrow> plan \<Rightarrow> leg \<Rightarrow> trade option" where
  "leg_trade db p l =
     latest_open (filter (\<lambda>t. td_account t = pl_account p \<and> td_comment t = leg_comment (pl_id p) (lg_index l))
                    (db_trades db))"

definition stage_name :: "protection_stage \<Rightarrow> string" where
  "stage_name s = (case s of StageInitial \<Rightarrow> ''INITIAL'' | StageBreakeven \<Rightarrow> ''BREAKEVEN''
                   | StageTp2Locked \<Rightarrow> ''TP2_LOCKED'')"

definition stage_rank :: "protection_stage \<Rightarrow> nat" where
  "stage_rank s = (case s of StageInitial \<Rightarrow> 0 | StageBreakeven \<Rightarrow> 1 | StageTp2Locked \<Rightarrow> 2)"

definition leg_at :: "leg list \<Rightarrow> nat \<Rightarrow> leg option" where
  "leg_at legs k = find (\<lambda>l. lg_index l = k) legs"

definition tp_hit :: "rat \<Rightarrow> pipe_db \<Rightarrow> plan \<Rightarrow> leg list \<Rightarrow> nat \<Rightarrow> bool option" where
  "tp_hit reach db p legs k =
     (case leg_at legs k of
        None \<Rightarrow> Some False
      | Some l \<Rightarrow> (case leg_trade db p l of
                   None \<Rightarrow> Some False
                 | Some t \<Rightarrow> closed_profitably reach t (lg_take_profit l) (pl_direction p)))"

definition desired_stage ::
  "rat \<Rightarrow> pipe_db \<Rightarrow> plan \<Rightarrow> leg list \<Rightarrow> bool \<Rightarrow> leg \<Rightarrow> (protection_stage \<times> pyfloat option) option" where
  "desired_stage reach db p legs allow l =
     (case (tp_hit reach db p legs 1, tp_hit reach db p legs 2) of
        (Some tp1, Some tp2) \<Rightarrow>
          if allow \<and> tp2 \<and> lg_index l = 3
          then Some (StageTp2Locked, Option.bind (leg_at legs 2) (\<lambda>l2. to_decimal (lg_take_profit l2)))
          else if tp1 \<and> lg_index l \<in> {2, 3}
          then Some (StageBreakeven, map_option (\<lambda>t. Finite (td_open_price t)) (leg_trade db p l))
          else Some (StageInitial, None)
      | _ \<Rightarrow> None)"

definition baseline_sl :: "plan \<Rightarrow> leg \<Rightarrow> trade \<Rightarrow> pyfloat option" where
  "baseline_sl p l t =
     (if lg_stage l = StageBreakeven then Some (Finite (td_open_price t)) else to_decimal (pl_stop_loss p))"

section \<open>Jobs of the ladder\<close>

record sweep_cfg =
  sw_enabled :: bool
  sw_max_attempts :: nat
  sw_overdue_us :: int
  sw_reach :: rat
  sw_to_float :: "pyfloat \<Rightarrow> json"

fun py_truthy :: "json \<Rightarrow> bool" where
  "py_truthy JNull = False"
| "py_truthy (JBool b) = b"
| "py_truthy (JInt i) = (i \<noteq> 0)"
| "py_truthy (JFloat x _) = (x \<noteq> Finite 0)"
| "py_truthy (JStr s) = (s \<noteq> [])"
| "py_truthy (JArr xs) = (xs \<noteq> [])"
| "py_truthy (JObj kvs) = (kvs \<noteq> [])"

definition result_flag :: "job \<Rightarrow> string \<Rightarrow> bool" where
  "result_flag j k = (case map_of (jb_result j) k of None \<Rightarrow> False | Some v \<Rightarrow> py_truthy v)"

definition is_active_job :: "job \<Rightarrow> bool" where
  "is_active_job j \<longleftrightarrow> jb_status j \<in> {JbPending, JbRunning}"

definition modifies :: "trade \<Rightarrow> protection_stage \<Rightarrow> job \<Rightarrow> bool" where
  "modifies t s j \<longleftrightarrow>
     jb_type j = ModifyPosition \<and> jb_account j = td_account t \<and>
     map_of (jb_payload j) ''ticket'' = Some (JStr (td_ticket t)) \<and>
     map_of (jb_payload j) ''protection_stage'' = Some (JStr (stage_name s))"

definition protection_inflight :: "pipe_db \<Rightarrow> trade \<Rightarrow> protection_stage \<Rightarrow> bool" where
  "protection_inflight db t s \<longleftrightarrow> list_ex (\<lambda>j. modifies t s j \<and> is_active_job j) (db_jobs db)"

definition superseded :: "trade \<Rightarrow> job \<Rightarrow> bool" where
  "superseded t j \<longleftrightarrow> modifies t StageBreakeven j \<and> jb_status j = JbPending"

definition retire_job :: "job \<Rightarrow> job" where
  "retire_job j =
     j\<lparr>jb_status := JbFailed, jb_error := ''superseded by TP2_LOCKED'',
       jb_result := [(''ok'', JBool False), (''superseded_by'', JStr ''TP2_LOCKED''), (''retryable'', JBool False)]\<rparr>"

definition supersede_pending_breakeven :: "trade \<Rightarrow> pipe_db \<Rightarrow> nat \<times> pipe_db" where
  "supersede_pending_breakeven t db =
     (length (filter (superseded t) (db_jobs db)),
      db\<lparr>db_jobs := map (\<lambda>j. if superseded t j then retire_job j else j) (db_jobs db)\<rparr>)"

definition modify_payload ::
  "sweep_cfg \<Rightarrow> plan \<Rightarrow> leg \<Rightarrow> trade \<Rightarrow> string \<Rightarrow> pyfloat \<Rightarrow> protection_stage \<Rightarrow> (string \<times> json) list" where
  "modify_payload cfg p l t username sl s =
     [(''windows_username'', JStr username), (''ticket'', JStr (td_ticket t)), (''symbol'', JStr (pl_symbol p)),
      (''sl'', sw_to_float cfg sl), (''plan_id'', JInt (int (pl_id p))), (''leg_index'', JInt (int (lg_index l))),
      (''signal_source'', JStr (pl_source p)), (''correlation_id'', JStr (pl_correlation_id p)),
      (''protection_stage'', JStr (stage_name s))] @
     (case to_decimal (lg_take_profit l) of None \<Rightarrow> [] | Some tp \<Rightarrow> [(''tp'', sw_to_float cfg tp)])"

text \<open>\<open>Inr None\<close>: nothing enqueued. The account of the plan is the row itself.\<close>

definition usable_username :: "pipe_env \<Rightarrow> int \<Rightarrow> string option" where
  "usable_username env account =
     (case pe_mt5_username env account of Some u \<Rightarrow> if u = '''' then None else Some u | None \<Rightarrow> None)"

definition enqueue_modify ::
  "sweep_cfg \<Rightarrow> pipe_env \<Rightarrow> trading_account \<Rightarrow> plan \<Rightarrow> leg \<Rightarrow> trade \<Rightarrow> pyfloat \<Rightarrow> protection_stage \<Rightarrow> pipe_db
     \<Rightarrow> (save_error, job option, pipe_db) outcome" where
  "enqueue_modify cfg env a p l t sl s db =
     (case usable_username env (pl_account p) of
        None \<Rightarrow> (Inr None, db)
      | Some username \<Rightarrow>
          if td_ticket t = '''' \<or> protection_inflight db t s then (Inr None, db)
          else case create_job env ModifyPosition a None (modify_payload cfg p l t username sl s) db of
            (Inl e, db') \<Rightarrow> (Inl e, db')
          | (Inr j, db') \<Rightarrow> (Inr (Some j), db'))"

definition alert_open :: "pipe_db \<Rightarrow> string \<Rightarrow> bool" where
  "alert_open db key \<longleftrightarrow> list_ex (\<lambda>x. al_key x = key \<and> al_open x) (db_alerts db)"

definition raise_alert :: "string \<Rightarrow> string \<Rightarrow> pipe_db \<Rightarrow> pipe_db" where
  "raise_alert key severity db =
     (if alert_open db key then db
      else db\<lparr>db_alerts := db_alerts db @ [\<lparr>al_key = key, al_severity = severity, al_open = True\<rparr>]\<rparr>)"

definition alert_key :: "string \<Rightarrow> plan \<Rightarrow> leg \<Rightarrow> protection_stage \<Rightarrow> string" where
  "alert_key kind p l s =
     kind @ '':plan:'' @ digits_of (pl_id p) @ '':leg:'' @ digits_of (lg_index l) @ '':'' @ stage_name s"

section \<open>The sweep\<close>

datatype sweep_error = SaveFailed save_error | DecimalComparison

definition set_leg :: "leg \<Rightarrow> (leg \<Rightarrow> leg) \<Rightarrow> pipe_db \<Rightarrow> pipe_db" where
  "set_leg l f db = update_leg (lg_plan l) (lg_index l) f db"

text \<open>The guard and the new job, after the last job of the leg was reconciled.\<close>

definition advance_leg ::
  "sweep_cfg \<Rightarrow> pipe_env \<Rightarrow> trading_account \<Rightarrow> plan \<Rightarrow> leg \<Rightarrow> trade \<Rightarrow> protection_stage \<Rightarrow> pyfloat option \<Rightarrow> bool \<Rightarrow> bool
     \<Rightarrow> pipe_db \<Rightarrow> (sweep_error, string list, pipe_db) outcome" where
  "advance_leg cfg env a p l t s target soft same_stage db =
     (case target of
        None \<Rightarrow> (Inr [''skipped''], db)
      | Some sl \<Rightarrow>
          (case is_risk_reducing (pl_direction p) target (baseline_sl p l t) of
             None \<Rightarrow> (Inl DecimalComparison, db)
           | Some False \<Rightarrow> (Inr [''skipped''], db)
           | Some True \<Rightarrow>
               (let (n, db1) = (if s = StageTp2Locked then supersede_pending_breakeven t db else (0, db)) in
                case enqueue_modify cfg env a p l t sl s db1 of
                  (Inl e, db2) \<Rightarrow> (Inl (SaveFailed e), db2)
                | (Inr None, db2) \<Rightarrow>
                    (Inr (replicate n ''superseded'' @
                          [if protection_inflight db2 t s then ''inflight'' else ''skipped'']), db2)
                | (Inr (Some j), db2) \<Rightarrow>
                    (Inr (replicate n ''superseded'' @ [''enqueued'']),
                     set_leg l (\<lambda>x. x\<lparr>lg_breakeven_job := Some (jb_id j),
                       lg_attempts := (if soft then lg_attempts x else if same_stage then lg_attempts x + 1 else 1)\<rparr>) db2))))"

definition overdue_check ::
  "sweep_cfg \<Rightarrow> pipe_env \<Rightarrow> plan \<Rightarrow> leg \<Rightarrow> protection_stage \<Rightarrow> trade option \<Rightarrow> pipe_db \<Rightarrow> string list \<times> pipe_db" where
  "overdue_check cfg env p l s trigger db =
     (case Option.bind trigger td_close_time of
        Some c \<Rightarrow>
          if pe_now env - c > sw_overdue_us cfg
          then ([''overdue''], raise_alert (alert_key ''tp_protection_overdue'' p l s) ''WARN'' db)
          else ([], db)
      | None \<Rightarrow> ([], db))"

definition reconcile_leg ::
  "sweep_cfg \<Rightarrow> pipe_env \<Rightarrow> trading_account \<Rightarrow> plan \<Rightarrow> leg \<Rightarrow> trade \<Rightarrow> protection_stage \<Rightarrow> pyfloat option \<Rightarrow> trade option
     \<Rightarrow> pipe_db \<Rightarrow> (sweep_error, string list, pipe_db) outcome" where
  "reconcile_leg cfg env a p l t s target trigger db =
     (case Option.bind (lg_breakeven_job l) (find_job db) of
        None \<Rightarrow> advance_leg cfg env a p l t s target False False db
      | Some j \<Rightarrow>
          if map_of (jb_payload j) ''protection_stage'' \<noteq> Some (JStr (stage_name s))
          then advance_leg cfg env a p l t s target False False db
          else
            let (ev, db1) = (if jb_status j \<noteq> JbSuccess then overdue_check cfg env p l s trigger db else ([], db)) in
            (case jb_status j of
               JbSuccess \<Rightarrow>
                 if result_flag j ''already_closed'' then (Inr [''noop_closed''], db1)
                 else (Inr (''applied'' # (if s = StageTp2Locked then [''tp2_locked''] else [])),
                       set_leg l (\<lambda>x. x\<lparr>lg_stage := s,
                         lg_applied_at := (case lg_applied_at x of None \<Rightarrow> Some (pe_now env) | Some w \<Rightarrow> Some w)\<rparr>) db1)
             | JbFailed \<Rightarrow>
                 if result_flag j ''retryable'' then
                   (case advance_leg cfg env a p l t s target True True db1 of
                      (Inl e, db2) \<Rightarrow> (Inl e, db2) | (Inr ev2, db2) \<Rightarrow> (Inr (ev @ ''deferred'' # ev2), db2))
                 else if lg_attempts l \<ge> sw_max_attempts cfg then
                   (Inr (ev @ [''alerted'']), raise_alert (alert_key ''tp_protection_failed'' p l s) ''CRITICAL'' db1)
                 else
                   (case advance_leg cfg env a p l t s target False True db1 of
                      (Inl e, db2) \<Rightarrow> (Inl e, db2) | (Inr ev2, db2) \<Rightarrow> (Inr (ev @ ev2), db2))
             | _ \<Rightarrow> (Inr (ev @ [''inflight'']), db1)))"

definition protect_leg ::
  "sweep_cfg \<Rightarrow> pipe_env \<Rightarrow> trading_account \<Rightarrow> plan \<Rightarrow> leg list \<Rightarrow> bool \<Rightarrow> leg \<Rightarrow> pipe_db
     \<Rightarrow> (sweep_error, string list, pipe_db) outcome" where
  "protect_leg cfg env a p legs allow l db =
     (if lg_index l = 1 then (Inr [], db)
      else case leg_trade db p l of
        None \<Rightarrow> (Inr [], db)
      | Some t \<Rightarrow>
          if td_close_time t \<noteq> None then (Inr [], db)
          else
            let seen = ''open_legs'' # (if lg_stage l \<noteq> StageInitial then [''advanced_open_legs''] else []) in
            (case desired_stage (sw_reach cfg) db p legs allow l of
               None \<Rightarrow> (Inl DecimalComparison, db)
             | Some (s, target) \<Rightarrow>
                 if stage_rank s \<le> stage_rank (lg_stage l) then (Inr seen, db)
                 else
                   (case reconcile_leg cfg env a p l t s target
                           (Option.bind (leg_at legs (if s = StageTp2Locked then 2 else 1)) (leg_trade db p)) db of
                      (Inl e, db') \<Rightarrow> (Inl e, db') | (Inr ev, db') \<Rightarrow> (Inr (seen @ ev), db'))))"

fun protect_legs ::
  "sweep_cfg \<Rightarrow> pipe_env \<Rightarrow> trading_account \<Rightarrow> plan \<Rightarrow> leg list \<Rightarrow> bool \<Rightarrow> leg list \<Rightarrow> pipe_db
     \<Rightarrow> (sweep_error, string list, pipe_db) outcome" where
  "protect_legs cfg env a p legs allow [] db = (Inr [], db)"
| "protect_legs cfg env a p legs allow (l # ls) db =
     (case protect_leg cfg env a p legs allow l db of
        (Inl e, db') \<Rightarrow> (Inl e, db')
      | (Inr ev, db1) \<Rightarrow>
          (case protect_legs cfg env a p legs allow ls db1 of
             (Inl e, db') \<Rightarrow> (Inl e, db') | (Inr ev', db') \<Rightarrow> (Inr (ev @ ev'), db')))"

definition incremental_sources :: "pipe_db \<Rightarrow> string list" where
  "incremental_sources db = map cf_source (filter cf_incremental (db_configs db))"

fun protect_plans :: "sweep_cfg \<Rightarrow> pipe_env \<Rightarrow> plan list \<Rightarrow> pipe_db \<Rightarrow> (sweep_error, string list, pipe_db) outcome" where
  "protect_plans cfg env [] db = (Inr [], db)"
| "protect_plans cfg env (p # ps) db =
     (case account_by_id env (pl_account p) of
        None \<Rightarrow> protect_plans cfg env ps db
      | Some a \<Rightarrow>
          (case protect_legs cfg env a p (legs_of db (pl_id p))
                  (pl_source p \<in> set (incremental_sources db)) (legs_of db (pl_id p)) db of
             (Inl e, db') \<Rightarrow> (Inl e, db')
           | (Inr ev, db1) \<Rightarrow>
               (case protect_plans cfg env ps db1 of
                  (Inl e, db') \<Rightarrow> (Inl e, db') | (Inr ev', db') \<Rightarrow> (Inr (''scanned'' # ev @ ev'), db'))))"

definition sync_username :: "pipe_env \<Rightarrow> int \<Rightarrow> string option" where
  "sync_username env account =
     (case usable_username env account of
        Some u \<Rightarrow> Some u
      | None \<Rightarrow>
          (case find (\<lambda>q. ip_account q = account \<and> ip_status q = ''PROVISIONED'' \<and> \<not> ip_is_admin q) (pe_profiles env) of
             None \<Rightarrow> None | Some q \<Rightarrow> if ip_windows_username q = '''' then None else Some (ip_windows_username q)))"

text \<open>One position sync per account without one under way; a failing one is logged and skipped.\<close>

definition ensure_position_sync_one :: "pipe_env \<Rightarrow> int \<Rightarrow> pipe_db \<Rightarrow> pipe_db" where
  "ensure_position_sync_one env account db =
     (if list_ex (\<lambda>j. jb_account j = account \<and> jb_type j = SyncPositions \<and> is_active_job j) (db_jobs db) then db
      else case account_by_id env account of
        None \<Rightarrow> db
      | Some a \<Rightarrow>
          (case sync_username env account of
             None \<Rightarrow> db
           | Some u \<Rightarrow> snd (create_job env SyncPositions a None
               [(''windows_username'', JStr u), (''breakeven_sync'', JBool True)] db)))"

definition ensure_position_sync :: "pipe_env \<Rightarrow> int list \<Rightarrow> pipe_db \<Rightarrow> pipe_db" where
  "ensure_position_sync env accounts db = fold (ensure_position_sync_one env) accounts db"

definition sweep_plans :: "string list option \<Rightarrow> nat \<Rightarrow> pipe_db \<Rightarrow> plan list" where
  "sweep_plans sources limit db =
     take limit (sort_key pl_id
       (filter (\<lambda>p. pl_status p = PlPromoted \<and>
                    (case sources of None \<Rightarrow> True | Some ss \<Rightarrow> pl_source p \<in> set ss)) (db_plans db)))"

definition sweep_breakeven ::
  "sweep_cfg \<Rightarrow> pipe_env \<Rightarrow> string list option \<Rightarrow> nat \<Rightarrow> pipe_db \<Rightarrow> (sweep_error, string list, pipe_db) outcome" where
  "sweep_breakeven cfg env sources limit db =
     (if \<not> sw_enabled cfg then (Inr [], db)
      else
        let ps = sweep_plans sources limit db
        in protect_plans cfg env ps (ensure_position_sync env (remdups (map pl_account ps)) db))"

section \<open>What a sweep does to jobs\<close>

text \<open>Old jobs keep identity and payload and only a pending one is failed; new ones satisfy \<open>P\<close>.\<close>

definition retires :: "(job \<Rightarrow> job) \<Rightarrow> bool" where
  "retires f \<longleftrightarrow> (\<forall>j. jb_id (f j) = jb_id j \<and> jb_type (f j) = jb_type j \<and> jb_account (f j) = jb_account j \<and>
                     jb_payload (f j) = jb_payload j \<and>
                     (f j = j \<or> jb_status j = JbPending \<and> jb_status (f j) = JbFailed))"

definition sweep_jobs :: "(job_type \<Rightarrow> (string \<times> json) list \<Rightarrow> bool) \<Rightarrow> pipe_db \<Rightarrow> pipe_db \<Rightarrow> bool" where
  "sweep_jobs P db db' \<longleftrightarrow>
     (\<exists>f new. retires f \<and> db_jobs db' = map f (db_jobs db) @ new \<and>
        (\<forall>j \<in> set new. P (jb_type j) (jb_payload j) \<and> jb_status j \<noteq> JbSuccess))"

lemma retires_id: "retires (\<lambda>j. j)"
  by (simp add: retires_def)

lemma retires_comp:
  assumes "retires f" "retires g"
  shows "retires (g \<circ> f)"
  unfolding retires_def
proof (intro allI)
  fix j
  from assms(1) have f: "f j = j \<or> jb_status j = JbPending \<and> jb_status (f j) = JbFailed"
    by (auto simp: retires_def)
  from assms(2) have g: "g (f j) = f j \<or> jb_status (f j) = JbPending \<and> jb_status (g (f j)) = JbFailed"
    by (auto simp: retires_def)
  have fg: "g (f j) = j \<or> jb_status j = JbPending \<and> jb_status (g (f j)) = JbFailed" using f g by auto
  show "jb_id ((g \<circ> f) j) = jb_id j \<and> jb_type ((g \<circ> f) j) = jb_type j \<and> jb_account ((g \<circ> f) j) = jb_account j \<and>
        jb_payload ((g \<circ> f) j) = jb_payload j \<and>
        ((g \<circ> f) j = j \<or> jb_status j = JbPending \<and> jb_status ((g \<circ> f) j) = JbFailed)"
    using assms fg unfolding retires_def comp_def by presburger
qed

lemma sweep_jobs_refl: "db_jobs db' = db_jobs db \<Longrightarrow> sweep_jobs P db db'"
  unfolding sweep_jobs_def by (intro exI [of _ "\<lambda>j. j"] exI [of _ "[]"]) (simp add: retires_id)

lemma sweep_jobs_new:
  "db_jobs db' = db_jobs db @ [j] \<Longrightarrow> P (jb_type j) (jb_payload j) \<Longrightarrow> jb_status j \<noteq> JbSuccess \<Longrightarrow> sweep_jobs P db db'"
  unfolding sweep_jobs_def by (intro exI [of _ "\<lambda>j. j"] exI [of _ "[j]"]) (simp add: retires_id)

lemma sweep_jobs_trans:
  assumes "sweep_jobs P a b" "sweep_jobs P b c"
  shows "sweep_jobs P a c"
proof -
  from assms obtain f n g m where f: "retires f" "db_jobs b = map f (db_jobs a) @ n"
      "\<forall>j \<in> set n. P (jb_type j) (jb_payload j) \<and> jb_status j \<noteq> JbSuccess"
    and g: "retires g" "db_jobs c = map g (db_jobs b) @ m" "\<forall>j \<in> set m. P (jb_type j) (jb_payload j) \<and> jb_status j \<noteq> JbSuccess"
    unfolding sweep_jobs_def by blast
  have keep: "P (jb_type (g j)) (jb_payload (g j)) \<and> jb_status (g j) \<noteq> JbSuccess" if "j \<in> set n" for j
  proof -
    have "jb_type (g j) = jb_type j \<and> jb_payload (g j) = jb_payload j \<and> (g j = j \<or> jb_status (g j) = JbFailed)"
      using g(1) by (auto simp: retires_def)
    with f(3) that show ?thesis by (metis job_status.distinct(11))
  qed
  show ?thesis unfolding sweep_jobs_def
    by (intro exI [of _ "g \<circ> f"] exI [of _ "map g n @ m"]) (use retires_comp f g keep in auto)
qed

lemma sweep_jobs_mono: "sweep_jobs P a b \<Longrightarrow> (\<And>t p. P t p \<Longrightarrow> Q t p) \<Longrightarrow> sweep_jobs Q a b"
  unfolding sweep_jobs_def by blast

lemma sweep_jobs_success:
  assumes "sweep_jobs P a b" "j \<in> set (db_jobs b)" "jb_status j = JbSuccess"
  shows "j \<in> set (db_jobs a)"
proof -
  from assms obtain f n where f: "retires f" "db_jobs b = map f (db_jobs a) @ n"
    "\<forall>j \<in> set n. jb_status j \<noteq> JbSuccess" unfolding sweep_jobs_def by blast
  with assms(2,3) obtain i where i: "i \<in> set (db_jobs a)" "j = f i" by auto
  with f(1) assms(3) have "f i = i" unfolding retires_def by (metis job_status.distinct(11))
  with i show ?thesis by simp
qed

text \<open>A new job of the ladder moves the stop of one open position in the risk-reducing direction.\<close>

definition safe_modify :: "sweep_cfg \<Rightarrow> pipe_env \<Rightarrow> pipe_db \<Rightarrow> plan \<Rightarrow> leg \<Rightarrow> job_type \<Rightarrow> (string \<times> json) list \<Rightarrow> bool" where
  "safe_modify cfg env db p l ty pay \<longleftrightarrow>
     ty = ModifyPosition \<and> usable_username env (pl_account p) \<noteq> None \<and>
     (\<exists>t sl. leg_trade db p l = Some t \<and> td_close_time t = None \<and> td_ticket t \<noteq> '''' \<and>
        is_risk_reducing (pl_direction p) (Some sl) (baseline_sl p l t) = Some True \<and>
        map_of pay ''ticket'' = Some (JStr (td_ticket t)) \<and> map_of pay ''sl'' = Some (sw_to_float cfg sl))"

lemma create_job_result:
  assumes "create_job env ty a owner payload db = (r, db')"
  shows "promotion_frame db db' \<and> db_plans db' = db_plans db \<and> db_legs db' = db_legs db \<and> db_alerts db' = db_alerts db \<and>
         (case r of
            Inl _ \<Rightarrow> db_jobs db' = db_jobs db
          | Inr j \<Rightarrow> db_jobs db' = db_jobs db @ [j] \<and> jb_type j = ty \<and> jb_status j = JbPending \<and> jb_id j = db_next_job db \<and>
                     jb_account j = ac_id a \<and> pinned_payload env ty a payload = Some (jb_payload j) \<and>
                     db_next_job db' = Suc (db_next_job db))"
  using assms by (auto simp: create_job_def new_job_def promotion_frame_def Let_def split: option.splits)

lemma enqueue_modify_result:
  assumes "enqueue_modify cfg env a p l t sl s db = (r, db')"
  shows "promotion_frame db db' \<and> db_plans db' = db_plans db \<and> db_legs db' = db_legs db \<and> db_alerts db' = db_alerts db \<and>
         (case r of
            Inr (Some j) \<Rightarrow> db_jobs db' = db_jobs db @ [j] \<and> jb_type j = ModifyPosition \<and> jb_status j = JbPending \<and>
              jb_id j = db_next_job db \<and> jb_account j = ac_id a \<and> td_ticket t \<noteq> '''' \<and>
              usable_username env (pl_account p) \<noteq> None \<and>
              map_of (jb_payload j) ''ticket'' = Some (JStr (td_ticket t)) \<and>
              map_of (jb_payload j) ''sl'' = Some (sw_to_float cfg sl) \<and>
              map_of (jb_payload j) ''protection_stage'' = Some (JStr (stage_name s)) \<and>
              db_next_job db' = Suc (db_next_job db)
          | _ \<Rightarrow> db_jobs db' = db_jobs db)"
proof (cases "usable_username env (pl_account p)")
  case None
  with assms show ?thesis by (auto simp: enqueue_modify_def promotion_frame_def)
next
  case (Some u)
  show ?thesis
  proof (cases "td_ticket t = '''' \<or> protection_inflight db t s")
    case True
    with assms Some show ?thesis by (auto simp: enqueue_modify_def promotion_frame_def)
  next
    case False
    let ?pay = "modify_payload cfg p l t u sl s"
    obtain r1 db1 where c: "create_job env ModifyPosition a None ?pay db = (r1, db1)" by (rule prod.exhaust)
    note cr = create_job_result [OF c]
    show ?thesis
    proof (cases r1)
      case (Inl e) with assms Some False c cr show ?thesis by (auto simp: enqueue_modify_def)
    next
      case (Inr j)
      with assms Some False c have rd: "r = Inr (Some j)" "db' = db1" by (auto simp: enqueue_modify_def)
      have pp: "pinned_payload env ModifyPosition a ?pay = Some (jb_payload j)" using cr Inr by simp
      have "map_of (jb_payload j) ''ticket'' = map_of ?pay ''ticket''" "map_of (jb_payload j) ''sl'' = map_of ?pay ''sl''"
        "map_of (jb_payload j) ''protection_stage'' = map_of ?pay ''protection_stage''"
        by (rule pinned_payload_keep [OF pp]; simp add: pin_keys_def)+
      moreover have "map_of ?pay ''ticket'' = Some (JStr (td_ticket t))" "map_of ?pay ''sl'' = Some (sw_to_float cfg sl)"
        "map_of ?pay ''protection_stage'' = Some (JStr (stage_name s))"
        unfolding modify_payload_def by simp_all
      ultimately show ?thesis using cr Inr rd Some False by simp
    qed
  qed
qed

lemma supersede_result:
  assumes "supersede_pending_breakeven t db = (n, db')"
  shows "promotion_frame db db' \<and> db_plans db' = db_plans db \<and> db_legs db' = db_legs db \<and> db_alerts db' = db_alerts db \<and>
         db_next_job db' = db_next_job db \<and> sweep_jobs P db db' \<and> (\<forall>j \<in> set (db_jobs db'). \<not> superseded t j)"
proof -
  let ?f = "\<lambda>j. if superseded t j then retire_job j else j"
  have db': "db' = db\<lparr>db_jobs := map ?f (db_jobs db)\<rparr>"
    using assms by (simp add: supersede_pending_breakeven_def)
  have st: "jb_status (retire_job j) = JbFailed" "jb_id (retire_job j) = jb_id j" "jb_type (retire_job j) = jb_type j"
    "jb_account (retire_job j) = jb_account j" "jb_payload (retire_job j) = jb_payload j" for j
    by (simp_all add: retire_job_def)
  have r: "retires ?f" by (auto simp: retires_def st superseded_def)
  have jobs: "db_jobs db' = map ?f (db_jobs db)" unfolding db' by simp
  have "sweep_jobs P db db'" unfolding sweep_jobs_def
    by (intro exI [of _ ?f] exI [of _ "[]"]) (simp add: r jobs)
  moreover have "\<not> superseded t (?f j)" for j by (auto simp: superseded_def st)
  then have "\<forall>j \<in> set (db_jobs db'). \<not> superseded t j" unfolding jobs set_map by blast
  moreover have "promotion_frame db db' \<and> db_plans db' = db_plans db \<and> db_legs db' = db_legs db \<and>
      db_alerts db' = db_alerts db \<and> db_next_job db' = db_next_job db"
    unfolding db' promotion_frame_def by simp
  ultimately show ?thesis by blast
qed

section \<open>What a sweep does to legs\<close>

text \<open>
  A leg keeps its identity, its order and its job; its stage stays or rises to the stage of a modify job
  of its own that succeeded on an open position; the attempts stay within the bound.
\<close>

definition verified_stage :: "pipe_db \<Rightarrow> leg \<Rightarrow> leg \<Rightarrow> bool" where
  "verified_stage db x x' \<longleftrightarrow>
     stage_rank (lg_stage x) < stage_rank (lg_stage x') \<and>
     (\<exists>j \<in> set (db_jobs db). lg_breakeven_job x = Some (jb_id j) \<and> jb_status j = JbSuccess \<and>
        \<not> result_flag j ''already_closed'' \<and>
        map_of (jb_payload j) ''protection_stage'' = Some (JStr (stage_name (lg_stage x'))))"

definition ladder_ok :: "sweep_cfg \<Rightarrow> pipe_db \<Rightarrow> leg \<Rightarrow> leg \<Rightarrow> bool" where
  "ladder_ok cfg db x x' \<longleftrightarrow>
     leg_key x' = leg_key x \<and> lg_lot x' = lg_lot x \<and> lg_job x' = lg_job x \<and> lg_take_profit x' = lg_take_profit x \<and>
     (lg_attempts x \<le> sw_max_attempts cfg \<longrightarrow> lg_attempts x' \<le> sw_max_attempts cfg) \<and>
     (lg_stage x' = lg_stage x \<or> verified_stage db x x')"

definition ladder_on :: "(nat \<times> nat) set \<Rightarrow> sweep_cfg \<Rightarrow> pipe_db \<Rightarrow> pipe_db \<Rightarrow> bool" where
  "ladder_on S cfg db db' \<longleftrightarrow>
     list_all2 (\<lambda>x x'. if leg_key x \<in> S then ladder_ok cfg db x x' else x' = x) (db_legs db) (db_legs db')"

lemma ladder_ok_refl [simp]: "ladder_ok cfg db x x"
  by (simp add: ladder_ok_def)

lemma ladder_on_refl: "db_legs db' = db_legs db \<Longrightarrow> ladder_on S cfg db db'"
  by (simp add: ladder_on_def list_all2_same)

lemma list_all2_keys: "list_all2 (\<lambda>x x'. leg_key x' = leg_key x) xs ys \<Longrightarrow> map leg_key ys = map leg_key xs"
  by (induction rule: list_all2_induct) auto

lemma ladder_on_keys: "ladder_on S cfg db db' \<Longrightarrow> map leg_key (db_legs db') = map leg_key (db_legs db)"
  unfolding ladder_on_def
  by (rule list_all2_keys, erule list_all2_mono) (auto simp: ladder_ok_def split: if_splits)

lemma ladder_on_mono: "ladder_on S cfg db db' \<Longrightarrow> S \<subseteq> T \<Longrightarrow> ladder_on T cfg db db'"
  unfolding ladder_on_def by (erule list_all2_mono) (auto split: if_splits)

definition success_subset :: "pipe_db \<Rightarrow> pipe_db \<Rightarrow> bool" where
  "success_subset db db1 \<longleftrightarrow> (\<forall>j \<in> set (db_jobs db1). jb_status j = JbSuccess \<longrightarrow> j \<in> set (db_jobs db))"

lemma ladder_ok_earlier: "success_subset db db1 \<Longrightarrow> ladder_ok cfg db1 x x' \<Longrightarrow> ladder_ok cfg db x x'"
  unfolding ladder_ok_def verified_stage_def success_subset_def by blast

lemma ladder_on_comp:
  assumes a: "ladder_on S cfg db db1" and b: "ladder_on T cfg db1 db2" and st: "S \<inter> T = {}"
    and ss: "success_subset db db1"
  shows "ladder_on (S \<union> T) cfg db db2"
proof -
  have "list_all2 (\<lambda>x x'. if leg_key x \<in> S \<union> T then ladder_ok cfg db x x' else x' = x) (db_legs db) (db_legs db2)"
  proof (rule list_all2_trans [OF _ a [unfolded ladder_on_def] b [unfolded ladder_on_def]])
    fix x y z
    assume 1: "if leg_key x \<in> S then ladder_ok cfg db x y else y = x"
      and 2: "if leg_key y \<in> T then ladder_ok cfg db1 y z else z = y"
    have k: "leg_key y = leg_key x" using 1 by (auto simp: ladder_ok_def split: if_splits)
    show "if leg_key x \<in> S \<union> T then ladder_ok cfg db x z else z = x"
      using 1 2 k st ladder_ok_earlier [OF ss] by (auto split: if_splits)
  qed
  then show ?thesis by (simp add: ladder_on_def)
qed

lemma legs_unique: "distinct (map leg_key (db_legs db)) \<Longrightarrow> l \<in> set (db_legs db) \<Longrightarrow> x \<in> set (db_legs db) \<Longrightarrow>
    leg_key x = leg_key l \<Longrightarrow> x = l"
  by (rule distinct_map_eq)

lemma set_leg_ladder:
  assumes d: "distinct (map leg_key (db_legs db))" "l \<in> set (db_legs db)"
    and legs: "db_legs db' = map (\<lambda>x. if lg_plan x = lg_plan l \<and> lg_index x = lg_index l then g x else x) (db_legs db)"
    and ok: "ladder_ok cfg db l (g l)"
  shows "ladder_on {leg_key l} cfg db db'"
proof -
  have "if leg_key x \<in> {leg_key l} then ladder_ok cfg db x (if lg_plan x = lg_plan l \<and> lg_index x = lg_index l then g x else x)
        else (if lg_plan x = lg_plan l \<and> lg_index x = lg_index l then g x else x) = x" if "x \<in> set (db_legs db)" for x
    using legs_unique [OF d that] ok by (auto simp: leg_key_def)
  then show ?thesis unfolding ladder_on_def legs by (simp add: list_all2_map2 list_all2_same)
qed

text \<open>The facts a step of the sweep on the leg \<open>l\<close> guarantees, whether it raises or not.\<close>

definition sweep_step :: "sweep_cfg \<Rightarrow> pipe_env \<Rightarrow> plan \<Rightarrow> leg \<Rightarrow> pipe_db \<Rightarrow> pipe_db \<Rightarrow> bool" where
  "sweep_step cfg env p l db db' \<longleftrightarrow>
     promotion_frame db db' \<and> db_plans db' = db_plans db \<and> ladder_on {leg_key l} cfg db db' \<and>
     sweep_jobs (safe_modify cfg env db p l) db db'"

lemma promotion_frame_refl [simp]: "promotion_frame db db"
  by (simp add: promotion_frame_def)

lemma raise_alert_simps [simp]:
  "db_plans (raise_alert k s db) = db_plans db" "db_legs (raise_alert k s db) = db_legs db"
  "db_jobs (raise_alert k s db) = db_jobs db" "promotion_frame db (raise_alert k s db)"
  "db_trades (raise_alert k s db) = db_trades db" "db_next_job (raise_alert k s db) = db_next_job db"
  by (simp_all add: raise_alert_def promotion_frame_def)

lemma advance_leg_step:
  assumes call: "advance_leg cfg env a p l t s target soft same db = (r, db')"
    and d: "distinct (map leg_key (db_legs db))" "l \<in> set (db_legs db)"
    and t: "leg_trade db p l = Some t" "td_close_time t = None"
    and att: "1 \<le> sw_max_attempts cfg" "same \<and> \<not> soft \<longrightarrow> lg_attempts l < sw_max_attempts cfg"
  shows "sweep_step cfg env p l db db'"
proof -
  have refl: "sweep_step cfg env p l db db" by (simp add: sweep_step_def ladder_on_refl sweep_jobs_refl)
  consider (none) "db' = db" | (go) sl where "target = Some sl" "is_risk_reducing (pl_direction p) target (baseline_sl p l t) = Some True"
    using call by (cases target; cases "is_risk_reducing (pl_direction p) target (baseline_sl p l t)")
      (auto simp: advance_leg_def split: bool.splits)
  then show ?thesis
  proof cases
    case none then show ?thesis using refl by simp
  next
    case go
    obtain n db1 where sup: "(if s = StageTp2Locked then supersede_pending_breakeven t db else (0, db)) = (n, db1)"
      by (rule prod.exhaust)
    have f1: "promotion_frame db db1 \<and> db_plans db1 = db_plans db \<and> db_legs db1 = db_legs db \<and>
        sweep_jobs (safe_modify cfg env db p l) db db1"
    proof (cases "s = StageTp2Locked")
      case True
      with sup have "supersede_pending_breakeven t db = (n, db1)" by simp
      from supersede_result [OF this] show ?thesis by blast
    next
      case False with sup show ?thesis by (simp add: sweep_jobs_refl)
    qed
    obtain q db2 where enq: "enqueue_modify cfg env a p l t sl s db1 = (q, db2)" by (rule prod.exhaust)
    note eq = enqueue_modify_result [OF enq]
    have fr: "promotion_frame db db2" using f1 eq promotion_frame_trans by blast
    show ?thesis
    proof (cases "\<exists>j. q = Inr (Some j)")
      case False
      have "db' = db2" using call go sup enq False
        by (auto simp: advance_leg_def split: sum.splits option.splits)
      moreover have "db_jobs db2 = db_jobs db1" using eq False by (auto split: sum.splits option.splits)
      ultimately show ?thesis
        using f1 eq fr by (auto simp: sweep_step_def sweep_jobs_def intro: ladder_on_refl)
    next
      case True
      then obtain j where j: "q = Inr (Some j)" by blast
      let ?g = "\<lambda>x. x\<lparr>lg_breakeven_job := Some (jb_id j),
         lg_attempts := (if soft then lg_attempts x else if same then lg_attempts x + 1 else 1)\<rparr>"
      have db': "db' = set_leg l ?g db2" using call go sup enq j by (auto simp: advance_leg_def)
      have legs: "db_legs db' = map (\<lambda>x. if lg_plan x = lg_plan l \<and> lg_index x = lg_index l then ?g x else x) (db_legs db)"
        unfolding db' using f1 eq by (simp add: set_leg_def update_leg_def)
      have "ladder_ok cfg db l (?g l)" using att by (auto simp: ladder_ok_def leg_key_def)
      from set_leg_ladder [OF d legs this] have lad: "ladder_on {leg_key l} cfg db db'" .
      have "safe_modify cfg env db p l (jb_type j) (jb_payload j)"
        using eq j t go by (auto simp: safe_modify_def)
      then have "sweep_jobs (safe_modify cfg env db p l) db1 db'"
        by (intro sweep_jobs_new [of _ _ j]) (use eq j in \<open>auto simp: db' set_leg_def update_leg_def\<close>)
      then have jobs: "sweep_jobs (safe_modify cfg env db p l) db db'" using f1 sweep_jobs_trans by blast
      have "promotion_frame db db'" using fr by (simp add: db' set_leg_def update_leg_def promotion_frame_def)
      moreover have "db_plans db' = db_plans db" using f1 eq by (simp add: db' set_leg_def update_leg_def)
      ultimately show ?thesis using lad jobs by (simp add: sweep_step_def)
    qed
  qed
qed

lemma sweep_step_refl [simp]: "sweep_step cfg env p l db db"
  by (simp add: sweep_step_def ladder_on_refl sweep_jobs_refl)

lemma leg_trade_frame: "promotion_frame db db' \<Longrightarrow> leg_trade db' = leg_trade db"
  by (simp add: leg_trade_def promotion_frame_def fun_eq_iff)

lemma safe_modify_frame: "promotion_frame db db' \<Longrightarrow> safe_modify cfg env db' p l = safe_modify cfg env db p l"
  by (simp add: safe_modify_def leg_trade_frame fun_eq_iff)

lemma quiet_step:
  assumes "promotion_frame db db1" "db_plans db1 = db_plans db" "db_legs db1 = db_legs db" "db_jobs db1 = db_jobs db"
    and "sweep_step cfg env p l db1 db'"
  shows "sweep_step cfg env p l db db'"
proof -
  have "success_subset db db1" using assms(4) by (simp add: success_subset_def)
  have "verified_stage db1 = verified_stage db" using assms(4) by (simp add: verified_stage_def fun_eq_iff)
  then have "ladder_ok cfg db1 = ladder_ok cfg db" by (simp add: ladder_ok_def fun_eq_iff)
  note lo = this
  have "ladder_on {leg_key l} cfg db db'"
    using assms(5) unfolding sweep_step_def ladder_on_def lo assms(3) by blast
  moreover have "sweep_jobs (safe_modify cfg env db p l) db db'"
    using assms(5) unfolding sweep_step_def sweep_jobs_def safe_modify_frame [OF assms(1)] assms(4) by blast
  moreover have "promotion_frame db db'"
    using assms(1,5) promotion_frame_trans unfolding sweep_step_def by blast
  ultimately show ?thesis using assms(2,5) by (simp add: sweep_step_def)
qed

lemma overdue_check_quiet:
  assumes "overdue_check cfg env p l s trigger db = (ev, db1)"
  shows "promotion_frame db db1 \<and> db_plans db1 = db_plans db \<and> db_legs db1 = db_legs db \<and> db_jobs db1 = db_jobs db"
  using assms by (auto simp: overdue_check_def split: option.splits if_splits)

lemma reconcile_leg_step:
  assumes call: "reconcile_leg cfg env a p l t s target trigger db = (r, db')"
    and d: "distinct (map leg_key (db_legs db))" "l \<in> set (db_legs db)"
    and t: "leg_trade db p l = Some t" "td_close_time t = None"
    and up: "stage_rank (lg_stage l) < stage_rank s" and att: "1 \<le> sw_max_attempts cfg"
  shows "sweep_step cfg env p l db db'"
proof (cases "Option.bind (lg_breakeven_job l) (find_job db)")
  case None
  with call have "advance_leg cfg env a p l t s target False False db = (r, db')" by (simp add: reconcile_leg_def)
  from advance_leg_step [OF this d t att] show ?thesis by simp
next
  case (Some j)
  then have j: "lg_breakeven_job l = Some (jb_id j)" "j \<in> set (db_jobs db)"
    by (auto simp: bind_eq_Some_conv find_job_def dest: find_SomeD)
  show ?thesis
  proof (cases "map_of (jb_payload j) ''protection_stage'' = Some (JStr (stage_name s))")
    case False
    with call Some have "advance_leg cfg env a p l t s target False False db = (r, db')" by (simp add: reconcile_leg_def)
    from advance_leg_step [OF this d t att] show ?thesis by simp
  next
    case True
    obtain ev db1 where oc: "(if jb_status j \<noteq> JbSuccess then overdue_check cfg env p l s trigger db else ([], db)) = (ev, db1)"
      by (rule prod.exhaust)
    have q: "promotion_frame db db1 \<and> db_plans db1 = db_plans db \<and> db_legs db1 = db_legs db \<and> db_jobs db1 = db_jobs db"
      using oc overdue_check_quiet by (cases "jb_status j = JbSuccess") auto
    then have d1: "distinct (map leg_key (db_legs db1))" "l \<in> set (db_legs db1)" and t1: "leg_trade db1 p l = Some t"
      using d t leg_trade_frame by auto
    note unf = call [unfolded reconcile_leg_def Some option.case oc Let_def prod.case]
    have bk: "sweep_step cfg env p l db1 x \<Longrightarrow> sweep_step cfg env p l db x" for x
      using quiet_step q by blast
    show ?thesis
    proof (cases "jb_status j")
      case JbSuccess
      show ?thesis
      proof (cases "result_flag j ''already_closed''")
        case True
        with unf JbSuccess \<open>map_of _ _ = _\<close> have "db' = db1" by auto
        then show ?thesis using bk [of db1] by simp
      next
        case False
        let ?g = "\<lambda>x. x\<lparr>lg_stage := s, lg_applied_at := (case lg_applied_at x of None \<Rightarrow> Some (pe_now env) | Some w \<Rightarrow> Some w)\<rparr>"
        from unf JbSuccess False \<open>map_of _ _ = _\<close> have db': "db' = set_leg l ?g db1" by auto
        have legs: "db_legs db' = map (\<lambda>x. if lg_plan x = lg_plan l \<and> lg_index x = lg_index l then ?g x else x) (db_legs db1)"
          by (simp add: db' set_leg_def update_leg_def)
        have "verified_stage db1 l (?g l)"
          unfolding verified_stage_def using up j JbSuccess False True q by (auto intro!: bexI [of _ j])
        then have "ladder_ok cfg db1 l (?g l)" by (simp add: ladder_ok_def leg_key_def)
        from set_leg_ladder [OF d1 legs this] have "sweep_step cfg env p l db1 db'"
          by (auto simp: sweep_step_def db' set_leg_def update_leg_def promotion_frame_def intro: sweep_jobs_refl)
        then show ?thesis by (rule bk)
      qed
    next
      case JbFailed
      show ?thesis
      proof (cases "result_flag j ''retryable''")
        case True
        obtain r2 db2 where ad: "advance_leg cfg env a p l t s target True True db1 = (r2, db2)" by (rule prod.exhaust)
        have "db' = db2" using unf JbFailed True \<open>map_of _ _ = _\<close> ad by (auto split: sum.splits)
        with bk advance_leg_step [OF ad d1 t1 t(2) att] show ?thesis by simp
      next
        case False
        note soft = False
        show ?thesis
        proof (cases "lg_attempts l \<ge> sw_max_attempts cfg")
          case True
          with unf JbFailed soft \<open>map_of _ _ = _\<close>
          have db': "db' = raise_alert (alert_key ''tp_protection_failed'' p l s) ''CRITICAL'' db1" by auto
          have "sweep_step cfg env p l db1 db'" unfolding db'
            by (simp add: sweep_step_def ladder_on_refl sweep_jobs_refl)
          then show ?thesis by (rule bk)
        next
          case False
          obtain r2 db2 where ad: "advance_leg cfg env a p l t s target False True db1 = (r2, db2)" by (rule prod.exhaust)
          have "db' = db2" using unf JbFailed soft False \<open>map_of _ _ = _\<close> ad by (auto split: sum.splits)
          with bk advance_leg_step [OF ad d1 t1 t(2) att] False show ?thesis by simp
        qed
      qed
    next
      case JbPending
      with unf \<open>map_of _ _ = _\<close> have "db' = db1" by auto
      then show ?thesis using bk [of db1] by simp
    next
      case JbRunning
      with unf \<open>map_of _ _ = _\<close> have "db' = db1" by auto
      then show ?thesis using bk [of db1] by simp
    qed
  qed
qed

lemma protect_leg_step:
  assumes call: "protect_leg cfg env a p legs allow l db = (r, db')"
    and d: "distinct (map leg_key (db_legs db))" "l \<in> set (db_legs db)" and att: "1 \<le> sw_max_attempts cfg"
  shows "sweep_step cfg env p l db db'"
proof -
  consider "db' = db"
    | t s target r2 where "leg_trade db p l = Some t" "td_close_time t = None" "stage_rank (lg_stage l) < stage_rank s"
      "reconcile_leg cfg env a p l t s target
         (Option.bind (leg_at legs (if s = StageTp2Locked then 2 else 1)) (leg_trade db p)) db = (r2, db')"
    using call
    by (auto simp: protect_leg_def Let_def not_le split: if_splits option.splits prod.splits sum.splits)
  then show ?thesis
  proof cases
    case 1 then show ?thesis by simp
  next
    case 2 from reconcile_leg_step [OF 2(4) d 2(1,2,3) att] show ?thesis .
  qed
qed

section \<open>A whole sweep\<close>

definition sweep_run ::
  "sweep_cfg \<Rightarrow> (nat \<times> nat) set \<Rightarrow> (job_type \<Rightarrow> (string \<times> json) list \<Rightarrow> bool) \<Rightarrow> pipe_db \<Rightarrow> pipe_db \<Rightarrow> bool" where
  "sweep_run cfg S P db db' \<longleftrightarrow>
     promotion_frame db db' \<and> db_plans db' = db_plans db \<and> ladder_on S cfg db db' \<and> sweep_jobs P db db'"

lemma sweep_run_refl [simp]: "sweep_run cfg S P db db"
  by (simp add: sweep_run_def ladder_on_refl sweep_jobs_refl)

lemma sweep_run_trans:
  assumes a: "sweep_run cfg S P a b" and b: "sweep_run cfg T P b c" and st: "S \<inter> T = {}"
  shows "sweep_run cfg (S \<union> T) P a c"
proof -
  have "success_subset a b" using a sweep_jobs_success unfolding sweep_run_def success_subset_def by blast
  then have "ladder_on (S \<union> T) cfg a c" using a b st ladder_on_comp unfolding sweep_run_def by blast
  moreover have "sweep_jobs P a c" using a b sweep_jobs_trans unfolding sweep_run_def by blast
  ultimately show ?thesis using a b promotion_frame_trans unfolding sweep_run_def by metis
qed

lemma sweep_run_mono:
  "sweep_run cfg S P a b \<Longrightarrow> S \<subseteq> T \<Longrightarrow> (\<And>t q. P t q \<Longrightarrow> Q t q) \<Longrightarrow> sweep_run cfg T Q a b"
  unfolding sweep_run_def using ladder_on_mono sweep_jobs_mono by blast

lemma sweep_step_run:
  assumes "sweep_step cfg env p l db1 db'" "promotion_frame db db1" "\<And>t q. safe_modify cfg env db p l t q \<Longrightarrow> P t q"
  shows "sweep_run cfg {leg_key l} P db1 db'"
proof -
  have "sweep_jobs P db1 db'"
    by (rule sweep_jobs_mono [of "safe_modify cfg env db1 p l"])
      (use assms safe_modify_frame [OF assms(2)] in \<open>simp_all add: sweep_step_def\<close>)
  then show ?thesis using assms(1) by (simp add: sweep_step_def sweep_run_def)
qed

lemma sweep_run_distinct:
  "sweep_run cfg S P db db' \<Longrightarrow> distinct (map leg_key (db_legs db)) \<Longrightarrow> distinct (map leg_key (db_legs db'))"
  unfolding sweep_run_def using ladder_on_keys by metis

lemma sweep_run_untouched:
  assumes run: "sweep_run cfg S P db db'" and l: "l \<in> set (db_legs db)" "leg_key l \<notin> S"
  shows "l \<in> set (db_legs db')"
proof -
  have a: "list_all2 (\<lambda>x x'. if leg_key x \<in> S then ladder_ok cfg db x x' else x' = x) (db_legs db) (db_legs db')"
    using run by (simp add: sweep_run_def ladder_on_def)
  from l(1) obtain i where i: "i < length (db_legs db)" "db_legs db ! i = l" by (auto simp: in_set_conv_nth)
  with list_all2_nthD [OF a i(1)] l(2) have "db_legs db' ! i = l" by simp
  moreover have "i < length (db_legs db')" using i list_all2_lengthD [OF a] by simp
  ultimately show ?thesis by (metis nth_mem)
qed

text \<open>Every new modify job tightens the stop of an open leg of one of the swept plans.\<close>

definition ladder_job :: "sweep_cfg \<Rightarrow> pipe_env \<Rightarrow> pipe_db \<Rightarrow> plan list \<Rightarrow> job_type \<Rightarrow> (string \<times> json) list \<Rightarrow> bool" where
  "ladder_job cfg env db ps ty pay \<longleftrightarrow>
     (\<exists>p \<in> set ps. \<exists>l \<in> set (db_legs db). lg_plan l = pl_id p \<and> lg_index l \<noteq> 1 \<and> safe_modify cfg env db p l ty pay)"

lemma protect_legs_run:
  assumes "protect_legs cfg env a p legs allow ls db1 = (r, db')"
    and "distinct (map leg_key (db_legs db1))" "set ls \<subseteq> set (db_legs db1)" "distinct (map leg_key ls)"
    and "promotion_frame db db1" and att: "1 \<le> sw_max_attempts cfg"
    and P: "\<And>l t q. l \<in> set ls \<Longrightarrow> lg_index l \<noteq> 1 \<Longrightarrow> safe_modify cfg env db p l t q \<Longrightarrow> P t q"
  shows "sweep_run cfg (leg_key ` set ls) P db1 db'"
  using assms(1-5) P
proof (induction ls arbitrary: db1 r)
  case Nil then show ?case by simp
next
  case (Cons l ls)
  obtain r1 db2 where c1: "protect_leg cfg env a p legs allow l db1 = (r1, db2)" by (rule prod.exhaust)
  have run1: "sweep_run cfg {leg_key l} P db1 db2"
  proof (cases "lg_index l = 1")
    case True then show ?thesis using c1 by (simp add: protect_leg_def)
  next
    case False
    show ?thesis
      by (rule sweep_step_run [OF protect_leg_step [OF c1 _ _ att]]) (use Cons.prems False in auto)
  qed
  show ?case
  proof (cases r1)
    case (Inl e)
    with Cons.prems(1) c1 have "db' = db2" by auto
    with run1 show ?thesis by (auto elim: sweep_run_mono)
  next
    case (Inr ev)
    obtain r2 db3 where c2: "protect_legs cfg env a p legs allow ls db2 = (r2, db3)" by (rule prod.exhaust)
    have "db' = db3" using Cons.prems(1) c1 c2 Inr by (auto split: sum.splits)
    have in2: "set ls \<subseteq> set (db_legs db2)"
    proof
      fix x assume x: "x \<in> set ls"
      then have "leg_key x \<in> leg_key ` set ls" by simp
      then have "leg_key x \<notin> {leg_key l}" using Cons.prems(4) by auto
      with sweep_run_untouched [OF run1 _ this] x Cons.prems(3) show "x \<in> set (db_legs db2)" by auto
    qed
    have fr: "promotion_frame db db2" using Cons.prems(5) run1 promotion_frame_trans unfolding sweep_run_def by blast
    have "sweep_run cfg (leg_key ` set ls) P db2 db'"
      by (rule Cons.IH [OF c2 [folded \<open>db' = db3\<close>] sweep_run_distinct [OF run1 Cons.prems(2)] in2 _ fr])
        (use Cons.prems in auto)
    from sweep_run_trans [OF run1 this] Cons.prems(4) show ?thesis by simp
  qed
qed

lemma legs_of_props:
  "distinct (map leg_key (db_legs db)) \<Longrightarrow> distinct (map leg_key (legs_of db i))"
  "set (legs_of db i) = {l \<in> set (db_legs db). lg_plan l = i}"
proof -
  assume d: "distinct (map leg_key (db_legs db))"
  have "distinct (map leg_key (filter (\<lambda>l. lg_plan l = i) (db_legs db)))"
    using d by (rule distinct_map_filter)
  then have "distinct (filter (\<lambda>l. lg_plan l = i) (db_legs db))" "inj_on leg_key (set (filter (\<lambda>l. lg_plan l = i) (db_legs db)))"
    by (simp_all only: distinct_map)
  then show "distinct (map leg_key (legs_of db i))" by (simp add: legs_of_def distinct_map)
next
  show "set (legs_of db i) = {l \<in> set (db_legs db). lg_plan l = i}" by (auto simp: legs_of_def)
qed

lemma protect_plans_run:
  assumes "protect_plans cfg env ps db1 = (r, db')"
    and "distinct (map leg_key (db_legs db1))" "distinct (map pl_id ps)"
    and "promotion_frame db db1" and att: "1 \<le> sw_max_attempts cfg"
    and P: "\<And>p l t q. p \<in> set ps \<Longrightarrow> l \<in> set (db_legs db1) \<Longrightarrow> lg_plan l = pl_id p \<Longrightarrow> lg_index l \<noteq> 1 \<Longrightarrow>
              safe_modify cfg env db p l t q \<Longrightarrow> P t q"
  shows "sweep_run cfg {k. fst k \<in> pl_id ` set ps} P db1 db'"
  using assms(1-4) P
proof (induction ps arbitrary: db1 r)
  case Nil then show ?case by simp
next
  case (Cons p ps)
  show ?case
  proof (cases "account_by_id env (pl_account p)")
    case None
    with Cons.prems(1) have "protect_plans cfg env ps db1 = (r, db')" by simp
    then have "sweep_run cfg {k. fst k \<in> pl_id ` set ps} P db1 db'"
      by (rule Cons.IH) (use Cons.prems in auto)
    then show ?thesis by (rule sweep_run_mono) auto
  next
    case (Some a)
    let ?legs = "legs_of db1 (pl_id p)"
    obtain r1 db2 where c1: "protect_legs cfg env a p ?legs (pl_source p \<in> set (incremental_sources db1)) ?legs db1 = (r1, db2)"
      by (rule prod.exhaust)
    have "sweep_run cfg (leg_key ` set ?legs) P db1 db2"
      by (rule protect_legs_run [OF c1 Cons.prems(2) _ _ Cons.prems(4) att])
        (use Cons.prems legs_of_props [of db1 "pl_id p"] in auto)
    then have run1: "sweep_run cfg {k. fst k = pl_id p} P db1 db2"
      by (rule sweep_run_mono) (auto simp: legs_of_props leg_key_def)
    show ?thesis
    proof (cases r1)
      case (Inl e)
      with Cons.prems(1) c1 Some have "db' = db2" by auto
      with run1 show ?thesis by (auto elim: sweep_run_mono)
    next
      case (Inr ev)
      obtain r2 db3 where c2: "protect_plans cfg env ps db2 = (r2, db3)" by (rule prod.exhaust)
      have e: "db' = db3" using Cons.prems(1) c1 c2 Inr Some by (auto split: sum.splits)
      have fr: "promotion_frame db db2" using Cons.prems(4) run1 promotion_frame_trans unfolding sweep_run_def by blast
      have back2: "l \<in> set (db_legs db1)" if "l \<in> set (db_legs db2)" "fst (leg_key l) \<noteq> pl_id p" for l
      proof -
        have "ladder_on {k. fst k = pl_id p} cfg db1 db2" using run1 by (simp add: sweep_run_def)
        then have a: "list_all2 (\<lambda>x x'. if leg_key x \<in> {k. fst k = pl_id p} then ladder_ok cfg db1 x x' else x' = x)
            (db_legs db1) (db_legs db2)" by (simp add: ladder_on_def)
        from that obtain i where i: "i < length (db_legs db2)" "db_legs db2 ! i = l" by (auto simp: in_set_conv_nth)
        then have i1: "i < length (db_legs db1)" using list_all2_lengthD [OF a] by simp
        from list_all2_nthD [OF a i1] i that have "db_legs db1 ! i = l"
          by (auto simp: ladder_ok_def split: if_splits)
        with i1 show ?thesis by (metis nth_mem)
      qed
      have "sweep_run cfg {k. fst k \<in> pl_id ` set ps} P db2 db'"
      proof (rule Cons.IH [OF c2 [folded e] sweep_run_distinct [OF run1 Cons.prems(2)] _ fr])
        show "distinct (map pl_id ps)" using Cons.prems(3) by simp
        fix q l t pay
        assume q: "q \<in> set ps" and l: "l \<in> set (db_legs db2)" "lg_plan l = pl_id q" "lg_index l \<noteq> 1"
          and s: "safe_modify cfg env db q l t pay"
        have "pl_id q \<in> pl_id ` set ps" using q by simp
        then have "pl_id q \<noteq> pl_id p" using Cons.prems(3) by auto
        with l back2 [OF l(1)] have "l \<in> set (db_legs db1)" by (simp add: leg_key_def)
        with Cons.prems(5) [of q l t pay] q l s show "P t pay" by simp
      qed
      moreover have "{k :: nat \<times> nat. fst k = pl_id p} \<inter> {k. fst k \<in> pl_id ` set ps} = {}" using Cons.prems(3) by auto
      ultimately have "sweep_run cfg ({k. fst k = pl_id p} \<union> {k. fst k \<in> pl_id ` set ps}) P db1 db'"
        using sweep_run_trans [OF run1] by blast
      then show ?thesis by (rule sweep_run_mono) auto
    qed
  qed
qed

lemma ensure_position_sync_one_run:
  "sweep_run cfg {} (\<lambda>ty pay. ty = SyncPositions) db (ensure_position_sync_one env account db)"
proof (cases "list_ex (\<lambda>j. jb_account j = account \<and> jb_type j = SyncPositions \<and> is_active_job j) (db_jobs db)")
  case True then show ?thesis by (simp add: ensure_position_sync_one_def)
next
  case False
  show ?thesis
  proof (cases "account_by_id env account")
    case None with False show ?thesis by (simp add: ensure_position_sync_one_def)
  next
    case (Some a)
    show ?thesis
    proof (cases "sync_username env account")
      case None with False Some show ?thesis by (simp add: ensure_position_sync_one_def)
    next
      case (Some u)
      let ?pay = "[(''windows_username'', JStr u), (''breakeven_sync'', JBool True)]"
      obtain r db1 where c: "create_job env SyncPositions a None ?pay db = (r, db1)" by (rule prod.exhaust)
      note cr = create_job_result [OF c]
      have "ensure_position_sync_one env account db = db1"
        using False Some \<open>account_by_id env account = Some a\<close> c by (simp add: ensure_position_sync_one_def)
      moreover have "sweep_jobs (\<lambda>ty pay. ty = SyncPositions) db db1"
        using cr by (cases r) (auto intro: sweep_jobs_refl sweep_jobs_new)
      ultimately show ?thesis using cr by (simp add: sweep_run_def ladder_on_refl)
    qed
  qed
qed

lemma ensure_position_sync_run:
  "sweep_run cfg {} (\<lambda>ty pay. ty = SyncPositions) db (ensure_position_sync env accounts db)"
proof (induction accounts arbitrary: db)
  case Nil then show ?case by (simp add: ensure_position_sync_def)
next
  case (Cons x xs)
  from sweep_run_trans [OF ensure_position_sync_one_run Cons.IH] show ?case
    by (fastforce simp: ensure_position_sync_def)
qed

lemma ensure_position_sync_legs: "db_legs (ensure_position_sync env accounts db) = db_legs db"
proof -
  have "ladder_on {} undefined db (ensure_position_sync env accounts db)"
    using ensure_position_sync_run [of undefined db env accounts] by (simp add: sweep_run_def)
  then have "list_all2 (\<lambda>x x'. x = x') (db_legs db) (db_legs (ensure_position_sync env accounts db))"
    unfolding ladder_on_def by (rule list_all2_mono) simp
  then show ?thesis by (simp add: list.rel_eq)
qed

lemma sweep_plans_distinct: "distinct (map pl_id (db_plans db)) \<Longrightarrow> distinct (map pl_id (sweep_plans sources limit db))"
proof -
  assume "distinct (map pl_id (db_plans db))"
  let ?ps = "filter (\<lambda>p. pl_status p = PlPromoted \<and>
      (case sources of None \<Rightarrow> True | Some ss \<Rightarrow> pl_source p \<in> set ss)) (db_plans db)"
  have "distinct (map pl_id ?ps)" using \<open>distinct _\<close> by (rule distinct_map_filter)
  then have "distinct (map pl_id (sort_key pl_id ?ps))" by (simp add: distinct_map)
  then show ?thesis unfolding sweep_plans_def take_map [symmetric] by (rule distinct_take)
qed

definition sweep_job :: "sweep_cfg \<Rightarrow> pipe_env \<Rightarrow> pipe_db \<Rightarrow> plan list \<Rightarrow> job_type \<Rightarrow> (string \<times> json) list \<Rightarrow> bool" where
  "sweep_job cfg env db ps ty pay \<longleftrightarrow> ty = SyncPositions \<or> ladder_job cfg env db ps ty pay"

lemma sweep_breakeven_run:
  assumes call: "sweep_breakeven cfg env sources limit db = (r, db')"
    and legs: "distinct (map leg_key (db_legs db))" and plans: "distinct (map pl_id (db_plans db))"
    and att: "1 \<le> sw_max_attempts cfg"
  shows "sweep_run cfg {k. fst k \<in> pl_id ` set (sweep_plans sources limit db)}
           (sweep_job cfg env db (sweep_plans sources limit db)) db db'"
proof (cases "sw_enabled cfg")
  case False
  with call show ?thesis by (simp add: sweep_breakeven_def)
next
  case True
  let ?ps = "sweep_plans sources limit db"
  let ?db1 = "ensure_position_sync env (remdups (map pl_account ?ps)) db"
  have c: "protect_plans cfg env ?ps ?db1 = (r, db')" using call True by (simp add: sweep_breakeven_def Let_def)
  have run0: "sweep_run cfg {} (sweep_job cfg env db ?ps) db ?db1"
    by (rule sweep_run_mono [OF ensure_position_sync_run]) (auto simp: sweep_job_def)
  have fr: "promotion_frame db ?db1" using run0 by (simp add: sweep_run_def)
  have "sweep_run cfg {k. fst k \<in> pl_id ` set ?ps} (sweep_job cfg env db ?ps) ?db1 db'"
  proof (rule protect_plans_run [OF c _ sweep_plans_distinct [OF plans] fr att])
    show "distinct (map leg_key (db_legs ?db1))" using legs by (simp add: ensure_position_sync_legs)
    fix p l t pay
    assume "p \<in> set ?ps" "l \<in> set (db_legs ?db1)" "lg_plan l = pl_id p" "lg_index l \<noteq> 1" "safe_modify cfg env db p l t pay"
    then show "sweep_job cfg env db ?ps t pay"
      unfolding sweep_job_def ladder_job_def ensure_position_sync_legs by blast
  qed
  from sweep_run_trans [OF run0 this] show ?thesis by simp
qed

section \<open>The properties of a sweep\<close>

lemma ladder_all:
  assumes "sweep_run cfg S P db db'"
  shows "list_all2 (ladder_ok cfg db) (db_legs db) (db_legs db')"
proof -
  have "ladder_on S cfg db db'" using assms by (simp add: sweep_run_def)
  then show ?thesis unfolding ladder_on_def by (rule list_all2_mono) (auto split: if_splits)
qed

text \<open>
  C23: The ladder only climbs. A sweep, even one that raises half-way, keeps every leg's identity, lot, take
  profit and order job; its stage stays or rises to the stage of its own last modify job, and that job
  had succeeded on a still open position; and no leg goes over the attempt bound.
\<close>
theorem ladder_only_climbs:
  assumes "sweep_breakeven cfg env sources limit db = (r, db')"
    and "distinct (map leg_key (db_legs db))" "distinct (map pl_id (db_plans db))"
    and "1 \<le> sw_max_attempts cfg"
  shows "list_all2 (ladder_ok cfg db) (db_legs db) (db_legs db')"
  by (rule ladder_all [OF sweep_breakeven_run [OF assms]])

text \<open>The order of prices, the infinities included; a NaN is below nothing.\<close>

fun price_below :: "pyfloat \<Rightarrow> pyfloat \<Rightarrow> bool" where
  "price_below (Finite a) (Finite b) = (a < b)"
| "price_below NegInf y = (y = PosInf \<or> (\<exists>b. y = Finite b))"
| "price_below (Finite a) y = (y = PosInf)"
| "price_below x y = False"

lemma dec_less_below: "dec_less x y = Some True \<longleftrightarrow> price_below x y"
  by (cases x; cases y) (simp_all add: dec_less_def)

lemma risk_reducing_iff:
  "is_risk_reducing direction (Some sl) old = Some True \<longleftrightarrow>
     (\<exists>base. old = Some base \<and>
        (upper (strip direction) = ''BUY'' \<and> price_below base sl \<or> upper (strip direction) = ''SELL'' \<and> price_below sl base))"
  by (cases old) (auto simp: is_risk_reducing_def dec_less_below Let_def)

text \<open>
  C4: A sweep can only tighten stops. Every job it adds is a position sync, or a modify of an open position
  that belongs to a leg past the first of a swept plan, addressed by its ticket: for a BUY with a stop
  strictly above, for a SELL strictly below the leg's present one, which is the entry price once breakeven
  is recorded and the plan's stop before. An old job is left as it was, or was pending and becomes failed;
  and plans, trades and everything but legs, jobs and alerts are untouched.
\<close>
theorem sweep_only_tightens:
  assumes "sweep_breakeven cfg env sources limit db = (r, db')"
    and "distinct (map leg_key (db_legs db))" "distinct (map pl_id (db_plans db))"
    and "1 \<le> sw_max_attempts cfg"
  shows "(\<exists>f new. db_jobs db' = map f (db_jobs db) @ new \<and>
           (\<forall>j. f j = j \<or> jb_status j = JbPending \<and> jb_status (f j) = JbFailed \<and> jb_id (f j) = jb_id j \<and>
                jb_type (f j) = jb_type j \<and> jb_payload (f j) = jb_payload j) \<and>
           (\<forall>j \<in> set new. jb_type j = SyncPositions \<or>
              jb_type j = ModifyPosition \<and>
              (\<exists>p l t sl base. p \<in> set (sweep_plans sources limit db) \<and> l \<in> set (db_legs db) \<and>
                 lg_plan l = pl_id p \<and> lg_index l \<noteq> 1 \<and> leg_trade db p l = Some t \<and> td_close_time t = None \<and>
                 map_of (jb_payload j) ''ticket'' = Some (JStr (td_ticket t)) \<and>
                 map_of (jb_payload j) ''sl'' = Some (sw_to_float cfg sl) \<and>
                 (if lg_stage l = StageBreakeven then base = Finite (td_open_price t)
                  else to_decimal (pl_stop_loss p) = Some base) \<and>
                 (upper (strip (pl_direction p)) = ''BUY'' \<and> price_below base sl \<or>
                  upper (strip (pl_direction p)) = ''SELL'' \<and> price_below sl base)))) \<and>
         db_plans db' = db_plans db \<and> promotion_frame db db'"
proof -
  note run = sweep_breakeven_run [OF assms]
  then obtain f new where f: "retires f" "db_jobs db' = map f (db_jobs db) @ new"
    "\<forall>j \<in> set new. sweep_job cfg env db (sweep_plans sources limit db) (jb_type j) (jb_payload j)"
    unfolding sweep_run_def sweep_jobs_def by blast
  show ?thesis
  proof (intro conjI exI [of _ f] exI [of _ new] ballI f(2) allI)
    show "f j = j \<or> jb_status j = JbPending \<and> jb_status (f j) = JbFailed \<and> jb_id (f j) = jb_id j \<and>
        jb_type (f j) = jb_type j \<and> jb_payload (f j) = jb_payload j" for j
      using f(1) by (auto simp: retires_def)
    fix j assume "j \<in> set new"
    with f(3) have "sweep_job cfg env db (sweep_plans sources limit db) (jb_type j) (jb_payload j)" by blast
    then show "jb_type j = SyncPositions \<or> jb_type j = ModifyPosition \<and>
              (\<exists>p l t sl base. p \<in> set (sweep_plans sources limit db) \<and> l \<in> set (db_legs db) \<and>
                 lg_plan l = pl_id p \<and> lg_index l \<noteq> 1 \<and> leg_trade db p l = Some t \<and> td_close_time t = None \<and>
                 map_of (jb_payload j) ''ticket'' = Some (JStr (td_ticket t)) \<and>
                 map_of (jb_payload j) ''sl'' = Some (sw_to_float cfg sl) \<and>
                 (if lg_stage l = StageBreakeven then base = Finite (td_open_price t)
                  else to_decimal (pl_stop_loss p) = Some base) \<and>
                 (upper (strip (pl_direction p)) = ''BUY'' \<and> price_below base sl \<or>
                  upper (strip (pl_direction p)) = ''SELL'' \<and> price_below sl base))"
    proof (cases "jb_type j = SyncPositions")
      case False
      with \<open>sweep_job _ _ _ _ _ _\<close> obtain p l t sl base where
        e: "p \<in> set (sweep_plans sources limit db)" "l \<in> set (db_legs db)" "lg_plan l = pl_id p" "lg_index l \<noteq> 1"
          "leg_trade db p l = Some t" "td_close_time t = None" "map_of (jb_payload j) ''ticket'' = Some (JStr (td_ticket t))"
          "map_of (jb_payload j) ''sl'' = Some (sw_to_float cfg sl)" "baseline_sl p l t = Some base" "jb_type j = ModifyPosition"
          "upper (strip (pl_direction p)) = ''BUY'' \<and> price_below base sl \<or>
           upper (strip (pl_direction p)) = ''SELL'' \<and> price_below sl base"
        unfolding sweep_job_def ladder_job_def safe_modify_def risk_reducing_iff by blast
      have "if lg_stage l = StageBreakeven then base = Finite (td_open_price t) else to_decimal (pl_stop_loss p) = Some base"
        using e(9) by (simp add: baseline_sl_def split: if_splits)
      with e show ?thesis by blast
    qed simp
  qed (use run in \<open>simp_all add: sweep_run_def\<close>)
qed

text \<open>
  An account without an MT5 instance username gets no protection: the sweep of its plans adds no modify job at all,
  however many targets were hit.
\<close>
theorem unaddressed_accounts_unprotected:
  assumes "sweep_breakeven cfg env sources limit db = (r, db')"
    and "distinct (map leg_key (db_legs db))" "distinct (map pl_id (db_plans db))"
    and "1 \<le> sw_max_attempts cfg"
    and none: "list_all (\<lambda>p. usable_username env (pl_account p) = None) (sweep_plans sources limit db)"
  shows "sweep_jobs (\<lambda>ty pay. ty = SyncPositions) db db'"
proof -
  have "sweep_jobs (sweep_job cfg env db (sweep_plans sources limit db)) db db'"
    using sweep_breakeven_run [OF assms(1-4)] by (simp add: sweep_run_def)
  then show ?thesis
    by (rule sweep_jobs_mono) (use none in \<open>auto simp: sweep_job_def ladder_job_def safe_modify_def list_all_iff\<close>)
qed

text \<open>
  When the third leg is moved to the second target, no breakeven modify of its position stays queued:
  every pending one is failed in the same step, and the lock is queued after them.
\<close>
theorem lock_retires_pending_breakeven:
  assumes "advance_leg cfg env a p l t StageTp2Locked target soft same db = (Inr ev, db')"
    and "''enqueued'' \<in> set ev" and acc: "ac_id a = td_account t"
  shows "list_all (\<lambda>j. \<not> superseded t j) (db_jobs db') \<and>
         list_ex (\<lambda>j. modifies t StageTp2Locked j \<and> jb_status j = JbPending) (drop (length (db_jobs db)) (db_jobs db'))"
proof -
  obtain sl where tg: "target = Some sl" and rr: "is_risk_reducing (pl_direction p) target (baseline_sl p l t) = Some True"
    using assms by (auto simp: advance_leg_def split: option.splits bool.splits)
  obtain n db1 where sup: "supersede_pending_breakeven t db = (n, db1)" by (rule prod.exhaust)
  obtain q db2 where enq: "enqueue_modify cfg env a p l t sl StageTp2Locked db1 = (q, db2)" by (rule prod.exhaust)
  note sr = supersede_result [OF sup, of "\<lambda>_ _. True"]
  note eq = enqueue_modify_result [OF enq]
  have len: "length (db_jobs db1) = length (db_jobs db)"
    using sup by (auto simp: supersede_pending_breakeven_def)
  obtain j where j: "q = Inr (Some j)"
    using assms tg rr sup enq by (auto simp: advance_leg_def split: sum.splits option.splits if_splits)
  have jobs: "db_jobs db' = db_jobs db1 @ [j]"
    using assms(1) tg rr sup enq j eq by (auto simp: advance_leg_def set_leg_def update_leg_def)
  have st: "map_of (jb_payload j) ''protection_stage'' = Some (JStr (stage_name StageTp2Locked))" using eq j by simp
  have "\<not> superseded t j" using st by (auto simp: superseded_def modifies_def stage_name_def)
  then have "list_all (\<lambda>j. \<not> superseded t j) (db_jobs db')" using sr jobs by (simp add: list_all_iff)
  moreover have "modifies t StageTp2Locked j \<and> jb_status j = JbPending"
    using eq j acc by (simp add: modifies_def)
  ultimately show ?thesis using jobs len by auto
qed

lemma desired_stage_leg:
  "lg_index l' = lg_index l \<Longrightarrow> desired_stage reach db p legs allow l' = desired_stage reach db p legs allow l \<or>
     leg_trade db p l' \<noteq> leg_trade db p l"
  by (auto simp: desired_stage_def split: option.splits)

lemma set_leg_rows:
  "distinct (map leg_key (db_legs db)) \<Longrightarrow> l \<in> set (db_legs db) \<Longrightarrow>
   leg_key l' = leg_key l \<Longrightarrow> l' \<in> set (db_legs (set_leg l f db)) \<Longrightarrow> (\<And>x. leg_key (f x) = leg_key x) \<Longrightarrow> l' = f l"
proof -
  assume d: "distinct (map leg_key (db_legs db))" "l \<in> set (db_legs db)" and k: "leg_key l' = leg_key l"
    and l': "l' \<in> set (db_legs (set_leg l f db))" and f: "\<And>x. leg_key (f x) = leg_key x"
  from l' obtain x where x: "x \<in> set (db_legs db)"
    "l' = (if lg_plan x = lg_plan l \<and> lg_index x = lg_index l then f x else x)"
    by (auto simp: set_leg_def update_leg_def)
  then have "leg_key x = leg_key l" using f k by (auto split: if_splits)
  with legs_unique [OF d x(1)] have "x = l" by simp
  with x show "l' = f l" by simp
qed

text \<open>One more pass over a leg: its row and the legs of its plan are read afresh.\<close>

definition protect_again ::
  "sweep_cfg \<Rightarrow> trading_account \<Rightarrow> plan \<Rightarrow> bool \<Rightarrow> nat \<times> nat \<Rightarrow> pipe_env \<Rightarrow> pipe_db \<Rightarrow> pipe_db" where
  "protect_again cfg a p allow k env db =
     (case find (\<lambda>l. leg_key l = k) (db_legs db) of
        None \<Rightarrow> db
      | Some l \<Rightarrow> snd (protect_leg cfg env a p (legs_of db (pl_id p)) allow l db))"

lemma leg_trade_cong: "lg_index l' = lg_index l \<Longrightarrow> leg_trade db p l' = leg_trade db p l"
  by (simp add: leg_trade_def)

lemma leg_at_map:
  "(\<And>x. lg_index (g x) = lg_index x) \<Longrightarrow> leg_at (map g ls) k = map_option g (leg_at ls k)"
  by (induction ls) (simp_all add: leg_at_def)

text \<open>What a leg should be at depends on the indices and targets of the legs and on the trades only.\<close>

lemma desired_stage_rows:
  assumes g: "\<And>x. lg_index (g x) = lg_index x" "\<And>x. lg_take_profit (g x) = lg_take_profit x"
    and tr: "leg_trade db' = leg_trade db"
  shows "desired_stage reach db' p (map g ls) allow (g l) = desired_stage reach db p ls allow l"
proof -
  have lt: "leg_trade db p (g x) = leg_trade db p x" for x by (rule leg_trade_cong) (rule g(1))
  have "tp_hit reach db' p (map g ls) k = tp_hit reach db p ls k" for k
    by (simp add: tp_hit_def leg_at_map [OF g(1)] tr lt g(2) split: option.split)
  then show ?thesis
    by (cases "leg_at ls 2") (auto simp: desired_stage_def leg_at_map [OF g(1)] tr lt g split: option.split)
qed

lemma legs_of_map:
  "(\<And>x. lg_plan (g x) = lg_plan x) \<Longrightarrow> (\<And>x. lg_index (g x) = lg_index x) \<Longrightarrow> db_legs db' = map g (db_legs db) \<Longrightarrow>
   legs_of db' i = map g (legs_of db i)"
  by (simp add: legs_of_def filter_map comp_def sort_key_map_same)

text \<open>A leg at or above the stage the prices call for is left alone.\<close>

lemma protect_leg_at_rest:
  assumes "lg_index l \<noteq> 1" "leg_trade db p l = Some t" "td_close_time t = None"
    "desired_stage (sw_reach cfg) db p legs allow l = Some (s, target)" "stage_rank s \<le> stage_rank (lg_stage l)"
  shows "snd (protect_leg cfg env a p legs allow l db) = db"
  using assms by (simp add: protect_leg_def)


section \<open>A signal under way\<close>

text \<open>The first leg closed at its target; the two others are open.\<close>

definition ladder_trade :: "nat \<Rightarrow> (int \<times> rat) option \<Rightarrow> trade" where
  "ladder_trade k cl =
     \<lparr>td_account = ac_id demo_account, td_ticket = ''t'' @ digits_of k, td_symbol = ''EURUSD'', td_volume = 2 / 100,
      td_open_time = 1000, td_close_time = map_option fst cl, td_open_price = 11 / 10, td_close_price = map_option snd cl,
      td_profit = 0, td_comment = leg_comment 1 k, td_assignment = None\<rparr>"

definition first_target :: pipe_db where
  "first_target = empty_db\<lparr>
     db_plans := [demo_plan\<lparr>pl_status := PlPromoted\<rparr>],
     db_legs := [demo_leg 1 ''1.2'' (2 / 100), demo_leg 2 ''1.3'' (2 / 100), demo_leg 3 ''1.4'' (1 / 100)],
     db_trades := [ladder_trade 1 (Some (900, 12 / 10)), ladder_trade 2 None, ladder_trade 3 None],
     db_next_plan := 2, db_next_job := 4\<rparr>"

definition ladder_cfg :: sweep_cfg where
  "ladder_cfg = \<lparr>sw_enabled = True, sw_max_attempts = 3, sw_overdue_us = 180000000, sw_reach = 9 / 10,
                 sw_to_float = (\<lambda>x. JFloat x ''x'')\<rparr>"

definition no_username_env :: pipe_env where
  "no_username_env = demo_env\<lparr>pe_mt5_username := (\<lambda>_. None)\<rparr>"

lemma first_target_keys: "distinct (map leg_key (db_legs first_target))" "distinct (map pl_id (db_plans first_target))"
  by code_simp+

lemma first_target_events:
  "fst (sweep_breakeven ladder_cfg demo_env None 500 first_target) =
     Inr [''scanned'', ''open_legs'', ''enqueued'', ''open_legs'', ''enqueued'']"
  by code_simp

definition after_first :: pipe_db where
  "after_first = snd (sweep_breakeven ladder_cfg demo_env None 500 first_target)"

lemma first_target_sweep:
  "sweep_breakeven ladder_cfg demo_env None 500 first_target =
     (Inr [''scanned'', ''open_legs'', ''enqueued'', ''open_legs'', ''enqueued''], after_first)"
  using first_target_events unfolding after_first_def by (metis prod.collapse)

lemma ladder_cfg_attempts: "1 \<le> sw_max_attempts ladder_cfg"
  by (simp add: ladder_cfg_def)

theorem ladder_only_climbs_witness:
  "list_all2 (ladder_ok ladder_cfg first_target) (db_legs first_target) (db_legs after_first)"
  by (rule ladder_only_climbs [OF first_target_sweep first_target_keys ladder_cfg_attempts])

theorem sweep_only_tightens_witness:
  "db_plans after_first = db_plans first_target \<and> promotion_frame first_target after_first"
  using sweep_only_tightens [OF first_target_sweep first_target_keys ladder_cfg_attempts] by blast

definition unaddressed :: pipe_db where
  "unaddressed = snd (sweep_breakeven ladder_cfg no_username_env None 500 first_target)"

lemma unaddressed_sweep:
  "sweep_breakeven ladder_cfg no_username_env None 500 first_target =
     (Inr [''scanned'', ''open_legs'', ''skipped'', ''open_legs'', ''skipped''], unaddressed)"
proof -
  have "fst (sweep_breakeven ladder_cfg no_username_env None 500 first_target) =
     Inr [''scanned'', ''open_legs'', ''skipped'', ''open_legs'', ''skipped'']" by code_simp
  then show ?thesis unfolding unaddressed_def by (metis prod.collapse)
qed

lemma unaddressed_plans:
  "list_all (\<lambda>p. usable_username no_username_env (pl_account p) = None) (sweep_plans None 500 first_target)"
  by code_simp

theorem unaddressed_accounts_unprotected_witness:
  "sweep_jobs (\<lambda>ty pay. ty = SyncPositions) first_target unaddressed"
  by (rule unaddressed_accounts_unprotected
      [OF unaddressed_sweep first_target_keys ladder_cfg_attempts unaddressed_plans])

text \<open>The second target is hit while the breakeven modify of the third leg is still pending.\<close>

definition third_leg :: leg where
  "third_leg = (demo_leg 3 ''1.4'' (1 / 100))\<lparr>lg_breakeven_job := Some 6, lg_attempts := 1\<rparr>"

definition third_trade :: trade where
  "third_trade = ladder_trade 3 None"

definition locked_db :: pipe_db where
  "locked_db = snd (advance_leg ladder_cfg demo_env demo_account demo_plan third_leg third_trade StageTp2Locked
                      (Some (Finite (13 / 10))) False False after_first)"

lemma lock_call:
  "advance_leg ladder_cfg demo_env demo_account demo_plan third_leg third_trade StageTp2Locked
     (Some (Finite (13 / 10))) False False after_first = (Inr [''superseded'', ''enqueued''], locked_db)"
proof -
  have "fst (advance_leg ladder_cfg demo_env demo_account demo_plan third_leg third_trade StageTp2Locked
     (Some (Finite (13 / 10))) False False after_first) = Inr [''superseded'', ''enqueued'']" by code_simp
  then show ?thesis unfolding locked_db_def by (metis prod.collapse)
qed

theorem lock_retires_pending_breakeven_witness:
  "list_all (\<lambda>j. \<not> superseded third_trade j) (db_jobs locked_db) \<and>
   list_ex (\<lambda>j. modifies third_trade StageTp2Locked j \<and> jb_status j = JbPending)
     (drop (length (db_jobs after_first)) (db_jobs locked_db))"
  by (rule lock_retires_pending_breakeven [OF lock_call])
    (simp_all add: third_trade_def ladder_trade_def)

text \<open>The breakeven modify of the third leg has succeeded.\<close>

definition third_job :: job where
  "third_job =
     \<lparr>jb_id = 6, jb_type = ModifyPosition, jb_account = ac_id demo_account, jb_node = None, jb_assignment = None,
      jb_payload = modify_payload ladder_cfg demo_plan third_leg third_trade ''trader'' (Finite (11 / 10)) StageBreakeven,
      jb_status = JbSuccess, jb_worker = ''w'', jb_started = True, jb_result = [(''ok'', JBool True)], jb_error = '''',
      jb_created_at = 950, jb_lease = None, jb_hosted_uuid = ''''\<rparr>"

definition verified_db :: pipe_db where
  "verified_db = first_target\<lparr>
     db_legs := [demo_leg 1 ''1.2'' (2 / 100), demo_leg 2 ''1.3'' (2 / 100), third_leg], db_jobs := [third_job]\<rparr>"

lemma verified_facts:
  "distinct (map leg_key (db_legs verified_db))" "third_leg \<in> set (db_legs verified_db)" "lg_index third_leg \<noteq> 1"
  "leg_trade verified_db demo_plan third_leg = Some third_trade" "td_close_time third_trade = None"
  "desired_stage (sw_reach ladder_cfg) verified_db demo_plan (legs_of verified_db (pl_id demo_plan)) True third_leg =
     Some (StageBreakeven, Some (Finite (11 / 10)))"
  "stage_rank (lg_stage third_leg) < stage_rank StageBreakeven"
  "Option.bind (lg_breakeven_job third_leg) (find_job verified_db) = Some third_job" "jb_status third_job = JbSuccess"
  "map_of (jb_payload third_job) ''protection_stage'' = Some (JStr (stage_name StageBreakeven))"
  "\<not> result_flag third_job ''already_closed''"
  by code_simp+


end
