(* ===== verification/JobQueue.thy ===== *)
theory JobQueue
  imports Protection
begin

text \<open>
  The worker side of the job table: worker identities (\<^verbatim>\<open>execution/auth.py\<close>), the nodes a worker
  serves and its liveness (\<^verbatim>\<open>execution/node_execution.py\<close>), and the two worker actions of
  \<^verbatim>\<open>execution/views.py\<close>, claiming the next job and completing it. Rows other transactions hold are a
  parameter of the claim (\<open>skip_locked\<close>). The provenance rows of hosted jobs and the metrics are left out.
\<close>

section \<open>Workers\<close>

record worker =
  wk_id :: string
  wk_secret_hash :: string
  wk_permissions :: "(string \<times> json) list"
  wk_active :: bool
  wk_last_seen :: "int option"

definition legacy_worker_id :: string where
  "legacy_worker_id = ''legacy-worker''"

record queue_env =
  qe_sha :: "string \<Rightarrow> string"
  qe_legacy_enabled :: bool
  qe_legacy_token :: string
  qe_hostname :: "int \<Rightarrow> string option"
  qe_bridge_url :: "int \<Rightarrow> string"
  qe_bridge_health :: "int \<Rightarrow> string"
  qe_liveness_us :: int
  qe_lease_us :: int
  qe_sync_lease_us :: int

definition worker_by_id :: "worker list \<Rightarrow> string \<Rightarrow> worker option" where
  "worker_by_id ws i = find (\<lambda>w. wk_id w = i) ws"

definition authenticate_worker :: "queue_env \<Rightarrow> worker list \<Rightarrow> string \<Rightarrow> string \<Rightarrow> worker option" where
  "authenticate_worker qe ws i secret =
     (case worker_by_id ws i of
        None \<Rightarrow> None
      | Some w \<Rightarrow> if \<not> wk_active w then None
                  else if qe_sha qe secret \<noteq> wk_secret_hash w then None
                  else Some w)"

definition authenticate_legacy_worker :: "queue_env \<Rightarrow> worker list \<Rightarrow> string \<Rightarrow> worker option" where
  "authenticate_legacy_worker qe ws token =
     (if \<not> qe_legacy_enabled qe then None
      else if qe_legacy_token qe = '''' \<or> qe_legacy_token qe \<noteq> token then None
      else case worker_by_id ws legacy_worker_id of
        None \<Rightarrow> None
      | Some w \<Rightarrow> if wk_active w then Some w else None)"

text \<open>
  A request: the logged-in user, if any, with whether it is staff and which accounts' jobs it sees, and
  the worker headers.
\<close>

record user =
  us_staff :: bool
  us_sees :: "int \<Rightarrow> bool"

record request =
  rq_user :: "user option"
  rq_worker_id :: string
  rq_worker_secret :: string
  rq_worker_token :: string

datatype caller = StaffCaller user | WorkerCaller worker

text \<open>Both permission classes of the worker actions.\<close>

definition worker_caller :: "queue_env \<Rightarrow> worker list \<Rightarrow> request \<Rightarrow> caller option" where
  "worker_caller qe ws rq =
     (case rq_user rq of
        Some u \<Rightarrow> if us_staff u then Some (StaffCaller u) else None
      | None \<Rightarrow>
          if rq_worker_id rq \<noteq> '''' \<and> rq_worker_secret rq \<noteq> ''''
          then map_option WorkerCaller (authenticate_worker qe ws (rq_worker_id rq) (rq_worker_secret rq))
          else if rq_worker_token rq \<noteq> ''''
          then map_option WorkerCaller (authenticate_legacy_worker qe ws (rq_worker_token rq))
          else None)"

definition worker_of :: "caller \<Rightarrow> worker option" where
  "worker_of c = (case c of StaffCaller _ \<Rightarrow> None | WorkerCaller w \<Rightarrow> Some w)"

definition permission :: "caller \<Rightarrow> string \<Rightarrow> bool" where
  "permission c k =
     (case worker_of c of
        None \<Rightarrow> False
      | Some w \<Rightarrow> (case map_of (wk_permissions w) k of None \<Rightarrow> False | Some v \<Rightarrow> py_truthy v))"

definition authorized_nodes_of :: "worker \<Rightarrow> string list" where
  "authorized_nodes_of w =
     (case map_of (wk_permissions w) ''authorized_nodes'' of
        Some (JArr xs) \<Rightarrow> map py_str xs
      | _ \<Rightarrow> [])"

definition worker_authorized_nodes :: "worker option \<Rightarrow> string list" where
  "worker_authorized_nodes mw =
     (case mw of
        None \<Rightarrow> []
      | Some w \<Rightarrow> if \<not> wk_active w \<or> wk_id w = legacy_worker_id then [] else authorized_nodes_of w)"

definition worker_recently_seen :: "queue_env \<Rightarrow> int \<Rightarrow> worker \<Rightarrow> bool" where
  "worker_recently_seen qe now w \<longleftrightarrow>
     (case wk_last_seen w of None \<Rightarrow> False | Some t \<Rightarrow> now - t \<le> qe_liveness_us qe)"

text \<open>The probe: whether a live claimant exists, the reason and the worker.\<close>

definition eligible_order_claimant :: "queue_env \<Rightarrow> int \<Rightarrow> worker list \<Rightarrow> exec_node \<Rightarrow> bool \<times> string \<times> string option" where
  "eligible_order_claimant qe now ws n =
     (case qe_hostname qe (en_id n) of
        None \<Rightarrow> (False, ''EP_NODE_NO_HOSTNAME'', None)
      | Some h \<Rightarrow>
          if h = '''' then (False, ''EP_NODE_NO_HOSTNAME'', None)
          else
            let cs = filter (\<lambda>w. h \<in> set (worker_authorized_nodes (Some w))) ws in
            (case find (worker_recently_seen qe now) cs of
               Some w \<Rightarrow> (True, ''EP_CLAIMANT_OK'', Some (wk_id w))
             | None \<Rightarrow>
                 if cs = [] then (False, ''EP_NO_ELIGIBLE_WORKER'', None)
                 else (False, ''EP_WORKER_STALE'', Some (wk_id (List.last cs)))))"

definition node_execution_operational :: "queue_env \<Rightarrow> int \<Rightarrow> worker list \<Rightarrow> exec_node option \<Rightarrow> bool \<Rightarrow> bool \<times> string" where
  "node_execution_operational qe now ws node require_liveness =
     (case node of
        None \<Rightarrow> (False, ''NODE_NULL'')
      | Some n \<Rightarrow>
          if en_status n \<noteq> NodeActive then (False, ''NODE_STATUS_NOT_ACTIVE'')
          else if strip (qe_bridge_url qe (en_id n)) = '''' then (False, ''NODE_BRIDGE_UNCONFIGURED'')
          else
            let (ok, reason, _) = eligible_order_claimant qe now ws n in
            if reason = ''EP_NO_ELIGIBLE_WORKER'' \<or> reason = ''EP_NODE_NO_HOSTNAME''
            then (False, ''NODE_NO_ELIGIBLE_WORKER'')
            else if require_liveness \<and> \<not> ok then (False, ''NODE_WORKER_NOT_LIVE'')
            else (True, ''NODE_OPERATIONAL''))"

text \<open>\<open>None\<close>: the route lookup raised.\<close>

definition evaluate_execution_path_readiness ::
  "queue_env \<Rightarrow> pipe_env \<Rightarrow> worker list \<Rightarrow> trading_account \<Rightarrow> bool \<Rightarrow> bool \<times> string" where
  "evaluate_execution_path_readiness qe env ws a require_liveness =
     (let st = pe_settings env; fl = pe_fleet env in
      if is_hosted_workspace_account st a \<and> \<not> st_hosted st then (False, ''EP_EXPECTED_DARK'')
      else if \<not> is_hosted_workspace_account st a then (False, ''EP_NOT_HOSTED'')
      else case resolve_hosted_route st fl a of
        None \<Rightarrow> (False, ''EP_INDETERMINATE'')
      | Some route \<Rightarrow>
          if \<not> rt_ok route then (False, ''EP_ROUTE:'' @ rt_reason route)
          else case node_of fl (ac_terminal_node a) of
            None \<Rightarrow> (False, ''EP_NODE_UNBOUND'')
          | Some n \<Rightarrow>
              if en_status n \<noteq> NodeActive then (False, ''EP_NODE_NOT_ACTIVE'')
              else if strip (qe_bridge_url qe (en_id n)) = '''' then (False, ''EP_BRIDGE_UNCONFIGURED'')
              else
                let (ok, reason, _) = eligible_order_claimant qe (pe_now env) ws n in
                if \<not> ok \<and> \<not> (\<not> require_liveness \<and> reason = ''EP_WORKER_STALE'') then (False, reason)
                else
                  let bridge = qe_bridge_health qe (en_id n) in
                  if bridge = ''DEGRADED'' then (False, ''EP_BRIDGE_UNHEALTHY'')
                  else if bridge = ''UNOBSERVED'' \<and> require_liveness then (False, ''EP_BRIDGE_UNOBSERVED'')
                  else (True, ''EP_READY''))"

section \<open>Claiming a job\<close>

definition job_type_name :: "job_type \<Rightarrow> string" where
  "job_type_name ty =
     (case ty of TestConnection \<Rightarrow> ''TEST_CONNECTION'' | OpenTrade \<Rightarrow> ''OPEN_TRADE'' | CloseTrade \<Rightarrow> ''CLOSE_TRADE''
      | SyncPositions \<Rightarrow> ''SYNC_POSITIONS'' | PlaceTestOrder \<Rightarrow> ''PLACE_TEST_ORDER'' | PlaceOrder \<Rightarrow> ''PLACE_ORDER''
      | ModifyPosition \<Rightarrow> ''MODIFY_POSITION'' | PartialCloseTrade \<Rightarrow> ''PARTIAL_CLOSE_TRADE''
      | PlaceOrderShadow \<Rightarrow> ''PLACE_ORDER_SHADOW'')"

record claim_query =
  cq_worker_id :: string
  cq_account :: "int option"
  cq_job_type :: string
  cq_job_types :: string

definition types_to_try :: "pipe_env \<Rightarrow> pipe_db \<Rightarrow> claim_query \<Rightarrow> string list" where
  "types_to_try env db q =
     (let types = (if cq_job_types q \<noteq> '''' then filter (\<lambda>t. t \<noteq> '''') (map strip (split_on CHR '','' (cq_job_types q)))
                   else if cq_job_type q \<noteq> '''' then [cq_job_type q]
                   else [job_type_name SyncPositions])
      in if order_creation_kill_reason env db \<noteq> None
         then filter (\<lambda>t. t \<notin> job_type_name ` kill_switch_blocked) types else types)"

definition active_node_ids :: "queue_env \<Rightarrow> pipe_env \<Rightarrow> string list \<Rightarrow> int list" where
  "active_node_ids qe env hosts =
     map en_id (filter (\<lambda>n. en_status n = NodeActive \<and>
                       (case qe_hostname qe (en_id n) of None \<Rightarrow> False | Some h \<Rightarrow> h \<in> set hosts))
                  (fl_nodes (pe_fleet env)))"

definition claimable :: "queue_env \<Rightarrow> pipe_env \<Rightarrow> caller \<Rightarrow> claim_query \<Rightarrow> job \<Rightarrow> bool" where
  "claimable qe env c q j \<longleftrightarrow>
     jb_status j = JbPending \<and> (case cq_account q of None \<Rightarrow> True | Some i \<Rightarrow> jb_account j = i) \<and>
     (jb_type j = PlaceOrderShadow \<longrightarrow> permission c ''shadow_worker'') \<and> jb_type j \<noteq> PartialCloseTrade \<and>
     (let nodes = worker_authorized_nodes (worker_of c) in
      if nodes \<noteq> [] then (case jb_node j of None \<Rightarrow> False | Some n \<Rightarrow> n \<in> set (active_node_ids qe env nodes))
      else jb_node j = None)"

fun oldest :: "job list \<Rightarrow> job option" where
  "oldest [] = None"
| "oldest (j # js) = (case oldest js of None \<Rightarrow> Some j
                      | Some k \<Rightarrow> Some (if jb_created_at k < jb_created_at j then k else j))"

fun first_claimable :: "(string \<Rightarrow> job option) \<Rightarrow> string list \<Rightarrow> job option" where
  "first_claimable pick [] = None"
| "first_claimable pick (t # ts) = (case pick t of Some j \<Rightarrow> Some j | None \<Rightarrow> first_claimable pick ts)"

definition pick_job ::
  "queue_env \<Rightarrow> pipe_env \<Rightarrow> caller \<Rightarrow> claim_query \<Rightarrow> (nat \<Rightarrow> bool) \<Rightarrow> pipe_db \<Rightarrow> string \<Rightarrow> job option" where
  "pick_job qe env c q locked db t =
     oldest (filter (\<lambda>j. claimable qe env c q j \<and> job_type_name (jb_type j) = t \<and> \<not> locked (jb_id j)) (db_jobs db))"

definition update_job :: "nat \<Rightarrow> (job \<Rightarrow> job) \<Rightarrow> pipe_db \<Rightarrow> pipe_db" where
  "update_job i f db = db\<lparr>db_jobs := map (\<lambda>j. if jb_id j = i then f j else j) (db_jobs db)\<rparr>"

definition fail_job :: "nat \<Rightarrow> string \<Rightarrow> pipe_db \<Rightarrow> pipe_db" where
  "fail_job i text = update_job i (\<lambda>j. j\<lparr>jb_status := JbFailed, jb_error := text\<rparr>)"

text \<open>Pending work of a requested type the caller can not see is reported, without its payload.\<close>

definition wrong_node_job :: "queue_env \<Rightarrow> pipe_env \<Rightarrow> caller \<Rightarrow> claim_query \<Rightarrow> string list \<Rightarrow> pipe_db \<Rightarrow> job option" where
  "wrong_node_job qe env c q types db =
     find (\<lambda>j. jb_status j = JbPending \<and> job_type_name (jb_type j) \<in> set types \<and>
               (case cq_account q of None \<Rightarrow> True | Some i \<Rightarrow> jb_account j = i) \<and> jb_type j \<noteq> PartialCloseTrade \<and>
               \<not> claimable qe env c q j) (rev (db_jobs db))"

datatype claim_response = Claimed job | NoJobs | ClaimForbidden | ClaimRaised

text \<open>The two gates under the row lock: the refusal with its text, or \<open>Inr\<close> when the claim may go on.\<close>

datatype claim_gate = GateRaised | GateRefuses string | GatePasses

definition claim_gates :: "pipe_env \<Rightarrow> caller \<Rightarrow> job \<Rightarrow> claim_gate" where
  "claim_gates env c j =
     (let st = pe_settings env; fl = pe_fleet env; account = account_by_id env (jb_account j);
          (allowed, reason) =
            (if st_gate st \<and> jb_type j \<in> broker_gate_blocked
             then evaluate_dispatch_gate st fl account (Inr (pe_health env (jb_account j))) else (True, '''')) in
      if \<not> allowed then GateRefuses (''broker dispatch gate refused at claim: '' @ reason)
      else if jb_type j \<notin> identity_pin_types then GatePasses
      else case account of
        None \<Rightarrow> GateRaised
      | Some a \<Rightarrow>
          (case authorize_hosted_claim st fl a (jb_node j) (worker_authorized_nodes (worker_of c) \<noteq> []) of
             None \<Rightarrow> GateRaised
           | Some r \<Rightarrow> if rt_ok r then GatePasses
                       else GateRefuses (''hosted claim entitlement refused: '' @ rt_reason r)))"

definition lease_us :: "queue_env \<Rightarrow> job \<Rightarrow> int" where
  "lease_us qe j =
     (if jb_type j = SyncPositions \<and>
         (case map_of (jb_payload j) ''breakeven_sync'' of None \<Rightarrow> False | Some v \<Rightarrow> py_truthy v)
      then qe_sync_lease_us qe else qe_lease_us qe)"

definition start_job :: "queue_env \<Rightarrow> pipe_env \<Rightarrow> claim_query \<Rightarrow> job \<Rightarrow> job" where
  "start_job qe env q j =
     j\<lparr>jb_status := JbRunning, jb_worker := cq_worker_id q, jb_started := True,
       jb_lease := Some (pe_now env + lease_us qe j)\<rparr>"

definition next_job ::
  "queue_env \<Rightarrow> pipe_env \<Rightarrow> caller \<Rightarrow> claim_query \<Rightarrow> (nat \<Rightarrow> bool) \<Rightarrow> pipe_db \<Rightarrow> claim_response \<times> pipe_db" where
  "next_job qe env c q locked db =
     (if permission c ''partial_close_worker'' then (ClaimForbidden, db)
      else
        let types = types_to_try env db q in
        case first_claimable (pick_job qe env c q locked db) types of
          None \<Rightarrow>
            (NoJobs, (case wrong_node_job qe env c q types db of
                        None \<Rightarrow> db
                      | Some j \<Rightarrow> add_audit ''NODE_WRONG_CLAIM'' None None (digits_of (jb_id j)) db))
        | Some j \<Rightarrow>
            (case claim_gates env c j of
               GateRaised \<Rightarrow> (ClaimRaised, db)
             | GateRefuses text \<Rightarrow>
                 (NoJobs, add_audit ''DISPATCH_REFUSED'' None None text (fail_job (jb_id j) text db))
             | GatePasses \<Rightarrow>
                 (Claimed (start_job qe env q j), update_job (jb_id j) (start_job qe env q) db)))"

definition stamp_worker_last_seen :: "int \<Rightarrow> caller \<Rightarrow> worker list \<Rightarrow> worker list" where
  "stamp_worker_last_seen now c ws =
     (case worker_of c of
        None \<Rightarrow> ws
      | Some w \<Rightarrow>
          if (case wk_last_seen w of None \<Rightarrow> False | Some t \<Rightarrow> now - t < 30 * 1000000) then ws
          else map (\<lambda>x. if wk_id x = wk_id w then x\<lparr>wk_last_seen := Some now\<rparr> else x) ws)"

section \<open>Completing a job\<close>

datatype complete_response =
    NotFound | InvalidStatus | NotRunning job_status | NotEntitled | Completed "nat option"

definition caller_sees :: "caller \<Rightarrow> job \<Rightarrow> bool" where
  "caller_sees c j = (case c of WorkerCaller _ \<Rightarrow> True | StaffCaller u \<Rightarrow> us_sees u (jb_account j))"

text \<open>A text value of \<open>authorized_nodes\<close> becomes the set of its characters here.\<close>

definition completion_nodes :: "worker \<Rightarrow> string list" where
  "completion_nodes w =
     (if wk_id w = legacy_worker_id then []
      else case map_of (wk_permissions w) ''authorized_nodes'' of
        Some (JArr xs) \<Rightarrow> concat (map (\<lambda>x. case x of JStr s \<Rightarrow> [s] | _ \<Rightarrow> []) xs)
      | Some (JStr s) \<Rightarrow> map (\<lambda>ch. [ch]) s
      | Some (JObj kvs) \<Rightarrow> map fst kvs
      | _ \<Rightarrow> [])"

definition completion_entitled :: "queue_env \<Rightarrow> pipe_env \<Rightarrow> caller \<Rightarrow> job \<Rightarrow> bool" where
  "completion_entitled qe env c j \<longleftrightarrow>
     (case worker_of c of
        None \<Rightarrow> True
      | Some w \<Rightarrow>
          \<not> (st_hosted (pe_settings env) \<and> jb_hosted_uuid j \<noteq> '''') \<or>
          (case Option.bind (jb_node j) (qe_hostname qe) of None \<Rightarrow> False | Some h \<Rightarrow> h \<in> set (completion_nodes w)))"

definition queue_sync_positions :: "pipe_env \<Rightarrow> job \<Rightarrow> pipe_db \<Rightarrow> nat option \<times> pipe_db" where
  "queue_sync_positions env j db =
     (let from_payload = (case map_of (jb_payload j) ''windows_username'' of
                            Some v \<Rightarrow> if py_truthy v then Some v else None | None \<Rightarrow> None);
          username = (case from_payload of Some v \<Rightarrow> Some v
                      | None \<Rightarrow> map_option JStr (usable_username env (jb_account j))) in
      case (username, account_by_id env (jb_account j)) of
        (Some v, Some a) \<Rightarrow>
          (case create_job env SyncPositions a (jb_assignment j)
                  [(''windows_username'', v), (''trigger_job_id'', JInt (int (jb_id j))), (''auto_sync'', JBool True)] db of
             (Inr s, db') \<Rightarrow> (Some (jb_id s), update_job (jb_id s) (\<lambda>x. x\<lparr>jb_node := jb_node j\<rparr>) db')
           | (Inl _, _) \<Rightarrow> (None, db))
      | _ \<Rightarrow> (None, db))"

definition finish_job :: "job_status \<Rightarrow> (string \<times> json) list \<Rightarrow> string \<Rightarrow> job \<Rightarrow> job" where
  "finish_job s result err j = j\<lparr>jb_status := s, jb_result := result, jb_error := err\<rparr>"

text \<open>
  The code reads the row without a lock, checks it and then writes four columns of it, so a completion is
  two steps: the check answers a refusal or the row as it was loaded; the write reaches the row with that
  identifier whatever its status has become by then.
\<close>

definition check_completion ::
  "queue_env \<Rightarrow> pipe_env \<Rightarrow> caller \<Rightarrow> nat \<Rightarrow> string \<Rightarrow> pipe_db \<Rightarrow> complete_response + job" where
  "check_completion qe env c i status db =
     (case find (\<lambda>j. jb_id j = i \<and> caller_sees c j) (db_jobs db) of
        None \<Rightarrow> Inl NotFound
      | Some j \<Rightarrow>
          if status \<notin> {''SUCCESS'', ''FAILED''} then Inl InvalidStatus
          else if jb_status j \<noteq> JbRunning then Inl (NotRunning (jb_status j))
          else if \<not> completion_entitled qe env c j then Inl NotEntitled
          else Inr j)"

definition save_completion ::
  "pipe_env \<Rightarrow> job \<Rightarrow> string \<Rightarrow> (string \<times> json) list \<Rightarrow> string \<Rightarrow> pipe_db \<Rightarrow> complete_response \<times> pipe_db" where
  "save_completion env j status result err db =
     (let s = (if status = ''SUCCESS'' then JbSuccess else JbFailed);
          db1 = update_job (jb_id j) (finish_job s result err) db in
      if jb_type j \<in> {PlaceTestOrder, PlaceOrder} \<and> s = JbSuccess
      then (let (sync, db2) = queue_sync_positions env (finish_job s result err j) db1 in (Completed sync, db2))
      else (Completed None, db1))"

text \<open>A completion nothing interrupts.\<close>

definition complete ::
  "queue_env \<Rightarrow> pipe_env \<Rightarrow> caller \<Rightarrow> nat \<Rightarrow> string \<Rightarrow> (string \<times> json) list \<Rightarrow> string \<Rightarrow> pipe_db
     \<Rightarrow> complete_response \<times> pipe_db" where
  "complete qe env c i status result err db =
     (case check_completion qe env c i status db of
        Inl r \<Rightarrow> (r, db)
      | Inr j \<Rightarrow> save_completion env j status result err db)"

lemma complete_unfold:
  "complete qe env c i status result err db =
     (case find (\<lambda>j. jb_id j = i \<and> caller_sees c j) (db_jobs db) of
        None \<Rightarrow> (NotFound, db)
      | Some j \<Rightarrow>
          if status \<notin> {''SUCCESS'', ''FAILED''} then (InvalidStatus, db)
          else if jb_status j \<noteq> JbRunning then (NotRunning (jb_status j), db)
          else if \<not> completion_entitled qe env c j then (NotEntitled, db)
          else
            let s = (if status = ''SUCCESS'' then JbSuccess else JbFailed);
                db1 = update_job i (finish_job s result err) db in
            if jb_type j \<in> {PlaceTestOrder, PlaceOrder} \<and> s = JbSuccess
            then (let (sync, db2) = queue_sync_positions env (finish_job s result err j) db1 in (Completed sync, db2))
            else (Completed None, db1))"
  by (auto simp: complete_def check_completion_def save_completion_def Let_def split: option.split dest: find_SomeD)

section \<open>The administrator's actions\<close>

text \<open>
  The retry of a failed job and the cancelling of a pending one (\<^verbatim>\<open>admin_ops/views.py\<close>), after the role
  check. The retry is a new job with the parameters of the old one, its payload included, and leaves the old
  one alone. The cancelling reads and writes without a lock, so it is two steps again.
\<close>

definition retry_job :: "pipe_env \<Rightarrow> nat \<Rightarrow> pipe_db \<Rightarrow> job option \<times> pipe_db" where
  "retry_job env i db =
     (case find (\<lambda>j. jb_id j = i) (db_jobs db) of
        None \<Rightarrow> (None, db)
      | Some j \<Rightarrow>
          if jb_status j \<noteq> JbFailed then (None, db)
          else
            (case account_by_id env (jb_account j) of
               None \<Rightarrow> (None, db)
             | Some a \<Rightarrow>
                 (case create_job env (jb_type j) a (jb_assignment j) (jb_payload j) db of
                    (Inl _, _) \<Rightarrow> (None, db)
                  | (Inr k, db') \<Rightarrow>
                      (Some (k\<lparr>jb_node := jb_node j\<rparr>), update_job (jb_id k) (\<lambda>x. x\<lparr>jb_node := jb_node j\<rparr>) db'))))"

definition check_cancel :: "nat \<Rightarrow> pipe_db \<Rightarrow> job option" where
  "check_cancel i db =
     (case find (\<lambda>j. jb_id j = i) (db_jobs db) of
        None \<Rightarrow> None | Some j \<Rightarrow> if jb_status j = JbPending then Some j else None)"

definition save_cancel :: "job \<Rightarrow> string \<Rightarrow> pipe_db \<Rightarrow> pipe_db" where
  "save_cancel j reason = fail_job (jb_id j) (''Cancelled by admin: '' @ reason)"

section \<open>How jobs evolve\<close>

text \<open>
  A job keeps its identity and only moves forward, from pending over running to a final status; new jobs
  have fresh identifiers.
\<close>

definition status_rank :: "job_status \<Rightarrow> nat" where
  "status_rank s = (case s of JbPending \<Rightarrow> 0 | JbRunning \<Rightarrow> 1 | _ \<Rightarrow> 2)"

definition advances :: "(job \<Rightarrow> job) \<Rightarrow> bool" where
  "advances f \<longleftrightarrow> (\<forall>j. jb_id (f j) = jb_id j \<and> jb_type (f j) = jb_type j \<and> jb_account (f j) = jb_account j \<and>
                      jb_node (f j) = jb_node j \<and> jb_payload (f j) = jb_payload j \<and>
                      (f j = j \<or> status_rank (jb_status j) < status_rank (jb_status (f j))))"

definition jobs_advance :: "pipe_db \<Rightarrow> pipe_db \<Rightarrow> bool" where
  "jobs_advance db db' \<longleftrightarrow>
     (\<exists>f new. advances f \<and> db_jobs db' = map f (db_jobs db) @ new \<and> distinct (map jb_id new) \<and>
        (\<forall>j \<in> set new. db_next_job db \<le> jb_id j \<and> jb_id j < db_next_job db') \<and> db_next_job db \<le> db_next_job db')"

definition job_ids_ok :: "pipe_db \<Rightarrow> bool" where
  "job_ids_ok db \<longleftrightarrow> distinct (map jb_id (db_jobs db)) \<and> (\<forall>j \<in> set (db_jobs db). jb_id j < db_next_job db)"

lemma advances_id: "advances (\<lambda>j. j)"
  by (simp add: advances_def)

lemma advances_comp: "advances f \<Longrightarrow> advances g \<Longrightarrow> advances (\<lambda>j. g (f j))"
  unfolding advances_def by (metis order_less_trans)

lemma advances_idD: "advances f \<Longrightarrow> jb_id (f j) = jb_id j"
  by (simp add: advances_def)

lemma jobs_advance_same:
  "db_jobs db' = db_jobs db \<Longrightarrow> db_next_job db \<le> db_next_job db' \<Longrightarrow> jobs_advance db db'"
  unfolding jobs_advance_def by (intro exI [of _ "\<lambda>j. j"] exI [of _ "[]"]) (simp add: advances_id)

lemma jobs_advance_refl [simp]: "jobs_advance db db"
  by (simp add: jobs_advance_same)

lemma jobs_advance_map:
  "advances f \<Longrightarrow> db_jobs db' = map f (db_jobs db) \<Longrightarrow> db_next_job db' = db_next_job db \<Longrightarrow> jobs_advance db db'"
  unfolding jobs_advance_def by (intro exI [of _ f] exI [of _ "[]"]) simp

lemma jobs_advance_new:
  "db_jobs db' = db_jobs db @ [j] \<Longrightarrow> jb_id j = db_next_job db \<Longrightarrow> db_next_job db' = Suc (db_next_job db) \<Longrightarrow>
   jobs_advance db db'"
  unfolding jobs_advance_def by (intro exI [of _ "\<lambda>j. j"] exI [of _ "[j]"]) (simp add: advances_id)

lemma jobs_advance_trans:
  assumes "jobs_advance a b" "jobs_advance b c"
  shows "jobs_advance a c"
proof -
  from assms(1) obtain f n where f: "advances f" "db_jobs b = map f (db_jobs a) @ n" "distinct (map jb_id n)"
    "\<forall>j \<in> set n. db_next_job a \<le> jb_id j \<and> jb_id j < db_next_job b" "db_next_job a \<le> db_next_job b"
    unfolding jobs_advance_def by blast
  from assms(2) obtain g m where g: "advances g" "db_jobs c = map g (db_jobs b) @ m" "distinct (map jb_id m)"
    "\<forall>j \<in> set m. db_next_job b \<le> jb_id j \<and> jb_id j < db_next_job c" "db_next_job b \<le> db_next_job c"
    unfolding jobs_advance_def by blast
  have ids: "map jb_id (map g n) = map jb_id n" using g(1) by (simp add: advances_def)
  have "distinct (map jb_id (map g n @ m))"
    unfolding map_append distinct_append ids
  proof (intro conjI)
    have "jb_id x \<noteq> jb_id y" if "x \<in> set n" "y \<in> set m" for x y
      using f(4) g(4) that by (metis leD)
    then show "set (map jb_id n) \<inter> set (map jb_id m) = {}" by auto
  qed (use f g in auto)
  moreover have "\<forall>j \<in> set (map g n @ m). db_next_job a \<le> jb_id j \<and> jb_id j < db_next_job c"
    using f(4,5) g(4,5) advances_idD [OF g(1)] by fastforce
  moreover have "db_jobs c = map (\<lambda>j. g (f j)) (db_jobs a) @ (map g n @ m)" using f(2) g(2) by simp
  moreover have "db_next_job a \<le> db_next_job c" using f(5) g(5) by simp
  ultimately show ?thesis unfolding jobs_advance_def using advances_comp [OF f(1) g(1)] by blast
qed

lemma jobs_advance_ids:
  assumes "jobs_advance db db'" "job_ids_ok db"
  shows "job_ids_ok db'"
proof -
  from assms(1) obtain f n where f: "advances f" "db_jobs db' = map f (db_jobs db) @ n" "distinct (map jb_id n)"
    "\<forall>j \<in> set n. db_next_job db \<le> jb_id j \<and> jb_id j < db_next_job db'" "db_next_job db \<le> db_next_job db'"
    unfolding jobs_advance_def by blast
  have ids: "map jb_id (map f (db_jobs db)) = map jb_id (db_jobs db)" using f(1) by (simp add: advances_def)
  have "distinct (map jb_id (db_jobs db'))"
    unfolding f(2) map_append distinct_append ids
  proof (intro conjI)
    have "jb_id x \<noteq> jb_id y" if "x \<in> set (db_jobs db)" "y \<in> set n" for x y
      using f(4) assms(2) that unfolding job_ids_ok_def by (metis leD)
    then show "set (map jb_id (db_jobs db)) \<inter> set (map jb_id n) = {}" by auto
  qed (use f assms(2) in \<open>auto simp: job_ids_ok_def\<close>)
  moreover have "jb_id j < db_next_job db'" if "j \<in> set (db_jobs db')" for j
    using that f(2,4,5) assms(2) advances_idD [OF f(1)] unfolding job_ids_ok_def by fastforce
  ultimately show ?thesis by (simp add: job_ids_ok_def)
qed

text \<open>The successor of a job: the row with its identifier afterwards.\<close>

lemma jobs_advance_row:
  assumes "jobs_advance db db'" "job_ids_ok db" "j \<in> set (db_jobs db)" "j' \<in> set (db_jobs db')" "jb_id j' = jb_id j"
  shows "j' = j \<or> status_rank (jb_status j) < status_rank (jb_status j')"
proof -
  from assms(1) obtain f n where f: "advances f" "db_jobs db' = map f (db_jobs db) @ n"
    "\<forall>j \<in> set n. db_next_job db \<le> jb_id j" unfolding jobs_advance_def by blast
  have "jb_id j < db_next_job db" using assms(2,3) by (simp add: job_ids_ok_def)
  then have "j' \<notin> set n" using f(3) assms(5) by fastforce
  then obtain x where x: "x \<in> set (db_jobs db)" "j' = f x" using assms(4) f(2) by auto
  then have "jb_id x = jb_id j" using f(1) assms(5) by (simp add: advances_def)
  then have "x = j" using assms(2,3) x(1) by (metis distinct_map_eq job_ids_ok_def)
  then show ?thesis using f(1) x(2) unfolding advances_def by blast
qed

lemma update_job_advance:
  "advances (\<lambda>j. if jb_id j = i then f j else j) \<Longrightarrow> jobs_advance db (update_job i f db)"
  unfolding update_job_def by (rule jobs_advance_map [where f = "\<lambda>j. if jb_id j = i then f j else j"]) auto

lemma create_job_advance: "create_job env ty a owner payload db = (r, db') \<Longrightarrow> jobs_advance db db'"
  using create_job_result [of env ty a owner payload db r db']
  by (cases r) (auto simp: create_job_def Let_def intro: jobs_advance_new split: option.splits)

lemma jobs_advance_update_new:
  assumes "job_ids_ok db" "db_jobs db' = db_jobs db @ [j]" "jb_id j = db_next_job db" "db_next_job db' = Suc (db_next_job db)"
    "\<And>x. jb_id (f x) = jb_id x"
  shows "jobs_advance db (update_job (jb_id j) f db')"
proof -
  have "map (\<lambda>x. if jb_id x = jb_id j then f x else x) (db_jobs db) = db_jobs db"
    using assms(1,3) unfolding job_ids_ok_def by (intro map_idI) auto
  then have "db_jobs (update_job (jb_id j) f db') = db_jobs db @ [f j]" using assms(2) by (simp add: update_job_def)
  then show ?thesis
    by (rule jobs_advance_new) (simp_all add: assms(3-5) update_job_def)
qed

lemma queue_sync_positions_advance:
  assumes "job_ids_ok db"
  shows "jobs_advance db (snd (queue_sync_positions env j db))"
proof -
  have *: "jobs_advance db (snd (case create_job env SyncPositions a o' pay db of
             (Inr s, db') \<Rightarrow> (Some (jb_id s), update_job (jb_id s) (\<lambda>x. x\<lparr>jb_node := jb_node j\<rparr>) db')
           | (Inl _, _) \<Rightarrow> (None, db)))" for a o' pay
  proof (cases "create_job env SyncPositions a o' pay db")
    case (Pair r db')
    have "jobs_advance db (update_job (jb_id s) (\<lambda>x. x\<lparr>jb_node := jb_node j\<rparr>) db')" if "r = Inr s" for s
      using create_job_result [OF Pair] that by (intro jobs_advance_update_new [OF assms]) simp_all
    then show ?thesis using Pair by (cases r) simp_all
  qed
  then show ?thesis
    unfolding queue_sync_positions_def by (simp add: Let_def split: option.splits)
qed

section \<open>What a claim takes\<close>

lemma oldest_None [simp]: "oldest js = None \<longleftrightarrow> js = []"
  by (cases js) (auto split: option.splits)

lemma oldest_mem: "oldest js = Some j \<Longrightarrow> j \<in> set js \<and> (\<forall>k \<in> set js. jb_created_at j \<le> jb_created_at k)"
proof (induction js arbitrary: j)
  case (Cons x js)
  then show ?case by (cases "oldest js") (auto split: if_splits)
qed simp

lemma first_claimable_Some: "first_claimable pick ts = Some j \<Longrightarrow> \<exists>t \<in> set ts. pick t = Some j"
  by (induction ts) (auto split: option.splits)

lemma first_claimable_None: "first_claimable pick ts = None \<longleftrightarrow> (\<forall>t \<in> set ts. pick t = None)"
  by (induction ts) (auto split: option.splits)

lemma job_type_name_inj: "job_type_name a = job_type_name b \<Longrightarrow> a = b"
  by (cases a; cases b) (simp_all add: job_type_name_def)

lemma types_to_try_kill:
  "job_type_name ty \<in> set (types_to_try env db q) \<Longrightarrow> order_creation_kill_reason env db \<noteq> None \<Longrightarrow> ty \<notin> kill_switch_blocked"
  by (auto simp: types_to_try_def Let_def)

lemma pick_job_Some:
  assumes "first_claimable (pick_job qe env c q locked db) (types_to_try env db q) = Some j"
  shows "j \<in> set (db_jobs db)" "claimable qe env c q j" "\<not> locked (jb_id j)"
    "job_type_name (jb_type j) \<in> set (types_to_try env db q)"
proof -
  from assms obtain t where t: "t \<in> set (types_to_try env db q)" "pick_job qe env c q locked db t = Some j"
    using first_claimable_Some by metis
  from oldest_mem [OF t(2) [unfolded pick_job_def]] t(1)
  show "j \<in> set (db_jobs db)" "claimable qe env c q j" "\<not> locked (jb_id j)"
    "job_type_name (jb_type j) \<in> set (types_to_try env db q)" by auto
qed

text \<open>The gates, as conditions on the job.\<close>

definition dispatch_allowed :: "pipe_env \<Rightarrow> job \<Rightarrow> bool" where
  "dispatch_allowed env j \<longleftrightarrow>
     fst (evaluate_dispatch_gate (pe_settings env) (pe_fleet env) (account_by_id env (jb_account j))
            (Inr (pe_health env (jb_account j))))"

definition hosted_entitled :: "pipe_env \<Rightarrow> caller \<Rightarrow> job \<Rightarrow> bool" where
  "hosted_entitled env c j \<longleftrightarrow>
     (case account_by_id env (jb_account j) of
        None \<Rightarrow> False
      | Some a \<Rightarrow>
          (case authorize_hosted_claim (pe_settings env) (pe_fleet env) a (jb_node j)
                  (worker_authorized_nodes (worker_of c) \<noteq> []) of
             None \<Rightarrow> False | Some r \<Rightarrow> rt_ok r))"

lemma claim_gates_pass:
  "claim_gates env c j = GatePasses \<longleftrightarrow>
     (st_gate (pe_settings env) \<and> jb_type j \<in> broker_gate_blocked \<longrightarrow> dispatch_allowed env j) \<and>
     (jb_type j \<in> identity_pin_types \<longrightarrow> hosted_entitled env c j)"
  unfolding claim_gates_def dispatch_allowed_def hosted_entitled_def Let_def
  by (auto split: prod.splits option.splits if_splits)

lemma next_job_cases:
  assumes "next_job qe env c q locked db = (r, db')"
  obtains (claimed) j where "r = Claimed (start_job qe env q j)" "j \<in> set (db_jobs db)"
      "first_claimable (pick_job qe env c q locked db) (types_to_try env db q) = Some j"
      "claim_gates env c j = GatePasses" "\<not> permission c ''partial_close_worker''"
      "db' = update_job (jb_id j) (start_job qe env q) db"
  | (refused) j msg where "r = NoJobs" "j \<in> set (db_jobs db)" "claimable qe env c q j"
      "claim_gates env c j = GateRefuses msg"
      "db' = add_audit ''DISPATCH_REFUSED'' None None msg (fail_job (jb_id j) msg db)"
  | (other) "db_jobs db' = db_jobs db" "db_next_job db' = db_next_job db" "\<forall>j. r \<noteq> Claimed j"
proof (cases "permission c ''partial_close_worker''")
  case True
  then show ?thesis using assms other by (simp add: next_job_def)
next
  case False
  note nf = this
  show ?thesis
  proof (cases "first_claimable (pick_job qe env c q locked db) (types_to_try env db q)")
    case None
    then show ?thesis using assms nf other
      by (auto simp: next_job_def Let_def split: option.splits)
  next
    case (Some j)
    note p = pick_job_Some [OF Some]
    show ?thesis
    proof (cases "claim_gates env c j")
      case GateRaised
      then show ?thesis using assms nf Some other by (auto simp: next_job_def Let_def)
    next
      case (GateRefuses msg)
      then show ?thesis using assms nf Some p refused [of j msg] by (auto simp: next_job_def Let_def)
    next
      case GatePasses
      then show ?thesis using assms nf Some p claimed [of j] by (auto simp: next_job_def Let_def)
    qed
  qed
qed

lemma start_job_fields [simp]:
  "jb_id (start_job qe env q j) = jb_id j" "jb_type (start_job qe env q j) = jb_type j"
  "jb_account (start_job qe env q j) = jb_account j" "jb_node (start_job qe env q j) = jb_node j"
  "jb_payload (start_job qe env q j) = jb_payload j" "jb_status (start_job qe env q j) = JbRunning"
  by (simp_all add: start_job_def)

text \<open>An update of one known row moves the table forward when it moves that row forward.\<close>

lemma update_row_advance:
  assumes ids: "job_ids_ok db" and j: "j \<in> set (db_jobs db)"
    and f: "jb_id (f j) = jb_id j" "jb_type (f j) = jb_type j" "jb_account (f j) = jb_account j"
      "jb_node (f j) = jb_node j" "jb_payload (f j) = jb_payload j"
      "status_rank (jb_status j) < status_rank (jb_status (f j))"
  shows "jobs_advance db (update_job (jb_id j) f db)"
proof (rule jobs_advance_map)
  show "advances (\<lambda>x. if x = j then f x else x)" using f by (simp add: advances_def)
  have "jb_id x = jb_id j \<longleftrightarrow> x = j" if "x \<in> set (db_jobs db)" for x
    using ids j that by (metis distinct_map_eq job_ids_ok_def)
  then show "db_jobs (update_job (jb_id j) f db) = map (\<lambda>x. if x = j then f x else x) (db_jobs db)"
    by (simp add: update_job_def)
qed (simp add: update_job_def)

lemma next_job_advance:
  assumes "job_ids_ok db" "next_job qe env c q locked db = (r, db')"
  shows "jobs_advance db db'"
  using assms(2)
proof (cases rule: next_job_cases)
  case (claimed j)
  have "jb_status j = JbPending" using pick_job_Some(2) [OF claimed(3)] by (simp add: claimable_def)
  then show ?thesis using claimed update_row_advance [OF assms(1) claimed(2), of "start_job qe env q"]
    by (simp add: status_rank_def)
next
  case (refused j msg)
  have "jb_status j = JbPending" using refused(3) by (simp add: claimable_def)
  then have "jobs_advance db (fail_job (jb_id j) msg db)"
    unfolding fail_job_def by (intro update_row_advance [OF assms(1) refused(2)]) (simp_all add: status_rank_def)
  then show ?thesis unfolding refused(5)
    by (rule jobs_advance_trans) (rule jobs_advance_same, simp_all)
qed (simp add: jobs_advance_same)

lemma complete_advance:
  assumes "job_ids_ok db"
  shows "jobs_advance db (snd (complete qe env c i status result err db))"
proof (cases "find (\<lambda>j. jb_id j = i \<and> caller_sees c j) (db_jobs db)")
  case None
  then show ?thesis by (simp add: complete_unfold)
next
  case (Some j)
  then have j: "j \<in> set (db_jobs db)" "jb_id j = i" by (auto simp: find_Some_iff)
  show ?thesis
  proof (cases "status \<in> {''SUCCESS'', ''FAILED''} \<and> jb_status j = JbRunning \<and> completion_entitled qe env c j")
    case False
    then have "snd (complete qe env c i status result err db) = db"
      using Some by (simp add: complete_unfold) blast
    then show ?thesis by simp
  next
    case True
    let ?s = "if status = ''SUCCESS'' then JbSuccess else JbFailed"
    let ?db = "update_job i (finish_job ?s result err) db"
    have a: "jobs_advance db ?db"
      using True update_row_advance [OF assms j(1), of "finish_job ?s result err"] j(2)
      by (simp add: finish_job_def status_rank_def)
    have b: "jobs_advance ?db (snd (queue_sync_positions env x ?db))" for x
      by (rule queue_sync_positions_advance [OF jobs_advance_ids [OF a assms]])
    have "snd (complete qe env c i status result err db) = ?db \<or>
          snd (complete qe env c i status result err db) = snd (queue_sync_positions env (finish_job ?s result err j) ?db)"
      using Some True by (auto simp: complete_unfold Let_def case_prod_beta)
    with a jobs_advance_trans [OF a b] show ?thesis by metis
  qed
qed

lemma complete_absent:
  "find (\<lambda>j. jb_id j = i \<and> caller_sees c j) (db_jobs db) = None \<Longrightarrow>
   complete qe env c i status result err db = (NotFound, db)"
  by (simp add: complete_unfold)

lemma complete_final:
  "find (\<lambda>j. jb_id j = i \<and> caller_sees c j) (db_jobs db) = Some j \<Longrightarrow> jb_status j \<noteq> JbRunning \<Longrightarrow>
   complete qe env c i status result err db =
     (if status \<in> {''SUCCESS'', ''FAILED''} then NotRunning (jb_status j) else InvalidStatus, db)"
  by (simp add: complete_unfold)

section \<open>Properties\<close>

lemma claim_gates_refuse:
  "claim_gates env c j = GateRefuses msg \<Longrightarrow>
     st_gate (pe_settings env) \<and> jb_type j \<in> broker_gate_blocked \<and> \<not> dispatch_allowed env j \<or>
     jb_type j \<in> identity_pin_types \<and> \<not> hosted_entitled env c j"
  using claim_gates_pass [of env c j] by auto

lemma next_job_answers:
  assumes "next_job qe env c q locked db = (r, db')"
  shows "r = ClaimForbidden \<or> r = ClaimRaised \<Longrightarrow> db' = db"
    and "r = NoJobs \<Longrightarrow> db_jobs db' = db_jobs db \<Longrightarrow>
      (\<forall>t \<in> set (types_to_try env db q). pick_job qe env c q locked db t = None) \<or>
      (\<exists>j msg. first_claimable (pick_job qe env c q locked db) (types_to_try env db q) = Some j \<and>
         claim_gates env c j = GateRefuses msg)"
    and "r = ClaimForbidden \<longleftrightarrow> permission c ''partial_close_worker''"
  using assms unfolding next_job_def
  by (auto simp: Let_def first_claimable_None split: if_splits option.splits claim_gate.splits)

lemma one_row_updated:
  "job_ids_ok db \<Longrightarrow> j \<in> set (db_jobs db) \<Longrightarrow>
   db_jobs (update_job (jb_id j) f db) = map (\<lambda>x. if x = j then f j else x) (db_jobs db)"
  unfolding update_job_def by (auto simp: job_ids_ok_def dest: distinct_map_eq)

text \<open>
  The worker gets only jobs it is entitled to: pending, not held by another claim, of a requested type
  the kill switch lets through, oldest of its type, never a partial close, shadow orders only with the
  permission, without a node or on an active authorized one, and past the dispatch and hosted gates.
  Nothing but that row changes, which is then running with a lease. Every other answer starts nothing:
  an empty one leaves all jobs alone, because no free job of a requested type was claimable, or fails the
  one pending job it looked at, which a gate refused; a forbidden one and an exception change nothing.
\<close>

theorem claim_is_entitled:
  assumes "job_ids_ok db" "next_job qe env c q locked db = (r, db')"
  shows "case r of
    Claimed j' \<Rightarrow>
      (\<exists>j. j' = start_job qe env q j \<and> j \<in> set (db_jobs db) \<and> jb_status j = JbPending \<and> \<not> locked (jb_id j) \<and>
       jb_status j' = JbRunning \<and> jb_lease j' = Some (pe_now env + lease_us qe j) \<and>
       job_type_name (jb_type j) \<in> set (types_to_try env db q) \<and>
       (order_creation_kill_reason env db \<noteq> None \<longrightarrow> jb_type j \<notin> kill_switch_blocked) \<and>
       (\<forall>k \<in> set (db_jobs db). claimable qe env c q k \<longrightarrow> jb_type k = jb_type j \<longrightarrow> \<not> locked (jb_id k) \<longrightarrow>
          jb_created_at j \<le> jb_created_at k) \<and>
       jb_type j \<noteq> PartialCloseTrade \<and> (jb_type j = PlaceOrderShadow \<longrightarrow> permission c ''shadow_worker'') \<and>
       (case jb_node j of
          None \<Rightarrow> worker_authorized_nodes (worker_of c) = []
        | Some n \<Rightarrow> n \<in> set (active_node_ids qe env (worker_authorized_nodes (worker_of c)))) \<and>
       (st_gate (pe_settings env) \<and> jb_type j \<in> broker_gate_blocked \<longrightarrow> dispatch_allowed env j) \<and>
       (jb_type j \<in> identity_pin_types \<longrightarrow> hosted_entitled env c j) \<and>
       db_jobs db' = map (\<lambda>x. if x = j then j' else x) (db_jobs db) \<and> db_audit db' = db_audit db)
  | NoJobs \<Rightarrow>
      db_jobs db' = db_jobs db \<and>
        (\<forall>k \<in> set (db_jobs db). claimable qe env c q k \<longrightarrow>
           job_type_name (jb_type k) \<in> set (types_to_try env db q) \<longrightarrow> locked (jb_id k)) \<or>
      (\<exists>j msg. j \<in> set (db_jobs db) \<and> jb_status j = JbPending \<and>
         (st_gate (pe_settings env) \<and> jb_type j \<in> broker_gate_blocked \<and> \<not> dispatch_allowed env j \<or>
          jb_type j \<in> identity_pin_types \<and> \<not> hosted_entitled env c j) \<and>
         db_jobs db' = map (\<lambda>x. if x = j then j\<lparr>jb_status := JbFailed, jb_error := msg\<rparr> else x) (db_jobs db))
  | ClaimForbidden \<Rightarrow> permission c ''partial_close_worker'' \<and> db' = db
  | ClaimRaised \<Rightarrow> db' = db"
proof (cases r)
  case (Claimed j')
  with assms(2) show ?thesis
  proof (cases rule: next_job_cases)
    case (claimed j)
    note p = pick_job_Some [OF claimed(3)]
    have c: "jb_status j = JbPending" "jb_type j \<noteq> PartialCloseTrade"
      "jb_type j = PlaceOrderShadow \<longrightarrow> permission c ''shadow_worker''"
      "case jb_node j of None \<Rightarrow> worker_authorized_nodes (worker_of c) = []
        | Some n \<Rightarrow> n \<in> set (active_node_ids qe env (worker_authorized_nodes (worker_of c)))"
      using p(2) by (auto simp: claimable_def Let_def split: option.splits if_splits)
    have k: "order_creation_kill_reason env db \<noteq> None \<longrightarrow> jb_type j \<notin> kill_switch_blocked"
      using types_to_try_kill [OF p(4)] by blast
    have j': "j' = start_job qe env q j" using claimed Claimed by simp
    have lease: "jb_lease j' = Some (pe_now env + lease_us qe j)" by (simp add: j' start_job_def)
    have old: "\<forall>k \<in> set (db_jobs db). claimable qe env c q k \<longrightarrow> jb_type k = jb_type j \<longrightarrow> \<not> locked (jb_id k) \<longrightarrow>
        jb_created_at j \<le> jb_created_at k"
    proof -
      obtain t where t: "pick_job qe env c q locked db t = Some j" using first_claimable_Some [OF claimed(3)] by blast
      from oldest_mem [OF t [unfolded pick_job_def]] show ?thesis by auto
    qed
    have "db_jobs db' = map (\<lambda>x. if x = j then j' else x) (db_jobs db)" "db_audit db' = db_audit db"
      using one_row_updated [OF assms(1) p(1)] by (simp_all add: claimed(6) j' update_job_def)
    with c k p old lease claimed(4) [unfolded claim_gates_pass] show ?thesis
      unfolding Claimed claim_response.case by (intro exI [of _ j] conjI) (simp_all add: j')
  qed simp_all
next
  case NoJobs
  note cases = assms(2) [unfolded NoJobs]
  have none: "locked (jb_id k)"
    if "\<forall>t \<in> set (types_to_try env db q). pick_job qe env c q locked db t = None" "k \<in> set (db_jobs db)"
      "claimable qe env c q k" "job_type_name (jb_type k) \<in> set (types_to_try env db q)" for k
    using that by (auto simp: pick_job_def filter_empty_conv)
  show ?thesis
  proof (cases "first_claimable (pick_job qe env c q locked db) (types_to_try env db q)")
    case None
    have "permission c ''partial_close_worker'' \<Longrightarrow> False" using next_job_answers(3) [OF cases] by simp
    then have "db_jobs db' = db_jobs db" using cases None
      by (auto simp: next_job_def Let_def split: if_splits option.splits)
    with None none show ?thesis unfolding NoJobs claim_response.case first_claimable_None by blast
  next
    case (Some j)
    note p = pick_job_Some [OF Some]
    have "permission c ''partial_close_worker'' \<Longrightarrow> False" using next_job_answers(3) [OF cases] by simp
    then obtain msg where m: "claim_gates env c j = GateRefuses msg" "db_jobs db' = db_jobs (fail_job (jb_id j) msg db)"
      using cases Some by (auto simp: next_job_def Let_def split: if_splits claim_gate.splits)
    have "jb_status j = JbPending" using p(2) by (simp add: claimable_def)
    moreover have "db_jobs db' = map (\<lambda>x. if x = j then j\<lparr>jb_status := JbFailed, jb_error := msg\<rparr> else x) (db_jobs db)"
      unfolding m(2) fail_job_def by (rule one_row_updated [OF assms(1) p(1)])
    ultimately show ?thesis using claim_gates_refuse [OF m(1)] p(1) unfolding NoJobs claim_response.case by blast
  qed
next
  case ClaimForbidden
  then show ?thesis using next_job_answers(1,3) [OF assms(2)] by simp
next
  case ClaimRaised
  then show ?thesis using next_job_answers(1) [OF assms(2)] by simp
qed

lemma completed_row:
  assumes "job_ids_ok db" "complete qe env c i status result err db = (Completed s, db')"
  obtains j where "j \<in> set (db_jobs db)" "jb_id j = i" "jb_status j = JbRunning"
    "finish_job (if status = ''SUCCESS'' then JbSuccess else JbFailed) result err j \<in> set (db_jobs db')"
    "\<And>x. x \<in> set (db_jobs db') \<Longrightarrow> jb_id x = i \<Longrightarrow>
       x = finish_job (if status = ''SUCCESS'' then JbSuccess else JbFailed) result err j"
proof -
  let ?s = "if status = ''SUCCESS'' then JbSuccess else JbFailed"
  let ?db = "update_job i (finish_job ?s result err) db"
  obtain j where f: "find (\<lambda>j. jb_id j = i \<and> caller_sees c j) (db_jobs db) = Some j"
    using assms(2) by (cases "find (\<lambda>j. jb_id j = i \<and> caller_sees c j) (db_jobs db)") (simp_all add: complete_unfold)
  then have j: "j \<in> set (db_jobs db)" "jb_id j = i" by (auto simp: find_Some_iff)
  have r: "jb_status j = JbRunning" "status \<in> {''SUCCESS'', ''FAILED''}" "completion_entitled qe env c j"
    using assms(2) f by (auto simp: complete_unfold split: if_splits)
  have adv: "jobs_advance db ?db"
    using r update_row_advance [OF assms(1) j(1), of "finish_job ?s result err"] j(2)
    by (simp add: finish_job_def status_rank_def)
  have ids: "job_ids_ok ?db" by (rule jobs_advance_ids [OF adv assms(1)])
  have "jobs_advance ?db db'"
  proof -
    have "db' = ?db \<or> db' = snd (queue_sync_positions env (finish_job ?s result err j) ?db)"
      using assms(2) f r by (auto simp: complete_unfold Let_def case_prod_beta split: if_splits)
    then show ?thesis using queue_sync_positions_advance [OF ids] by auto
  qed
  note adv2 = this
  let ?j = "finish_job ?s result err j"
  have m: "?j \<in> set (db_jobs ?db)" using j by (force simp: update_job_def)
  have fields: "jb_id ?j = i" "jb_status ?j = ?s" using j by (simp_all add: finish_job_def)
  have uniq: "x = ?j" if "x \<in> set (db_jobs db')" "jb_id x = i" for x
    using jobs_advance_row [OF adv2 ids m that(1)] that(2) fields by (auto simp: status_rank_def split: job_status.splits)
  have in': "?j \<in> set (db_jobs db')"
  proof -
    from adv2 obtain g n where "advances g" "db_jobs db' = map g (db_jobs ?db) @ n" unfolding jobs_advance_def by blast
    then have "g ?j \<in> set (db_jobs db')" "jb_id (g ?j) = i" using m fields by (auto simp: advances_def)
    with uniq show ?thesis by metis
  qed
  show ?thesis using j r(1) in' uniq by (rule that)
qed

text \<open>Who may report on a job, spelled out.\<close>

lemma completion_entitled_iff:
  "completion_entitled qe env c j \<longleftrightarrow>
     (\<forall>w. c = WorkerCaller w \<longrightarrow> st_hosted (pe_settings env) \<longrightarrow> jb_hosted_uuid j \<noteq> '''' \<longrightarrow>
        (\<exists>n h. jb_node j = Some n \<and> qe_hostname qe n = Some h \<and> h \<in> set (completion_nodes w)))"
  by (cases c; cases "jb_node j") (auto simp: completion_entitled_def worker_of_def split: option.splits)

lemma find_job_Some:
  "job_ids_ok db \<Longrightarrow> j \<in> set (db_jobs db) \<Longrightarrow> jb_id j = i \<Longrightarrow> P j \<Longrightarrow>
   find (\<lambda>x. jb_id x = i \<and> P x) (db_jobs db) = Some j"
  by (cases "find (\<lambda>x. jb_id x = i \<and> P x) (db_jobs db)")
    (auto simp: find_None_iff job_ids_ok_def dest!: find_SomeD dest: distinct_map_eq)

lemma queue_sync_rows:
  assumes "job_ids_ok db"
  shows "case fst (queue_sync_positions env j db) of
      None \<Rightarrow> snd (queue_sync_positions env j db) = db
    | Some n \<Rightarrow> \<exists>k. db_jobs (snd (queue_sync_positions env j db)) = db_jobs db @ [k] \<and> jb_id k = n \<and>
        jb_type k = SyncPositions \<and> jb_status k = JbPending \<and> jb_account k = jb_account j \<and> jb_node k = jb_node j"
proof -
  have new: "\<exists>k'. db_jobs (update_job (jb_id k) (\<lambda>x. x\<lparr>jb_node := jb_node j\<rparr>) db') = db_jobs db @ [k'] \<and> jb_id k' = jb_id k \<and>
        jb_type k' = SyncPositions \<and> jb_status k' = JbPending \<and> jb_account k' = jb_account j \<and> jb_node k' = jb_node j"
    if cr: "create_job env SyncPositions a own pay db = (Inr k, db')" and a: "account_by_id env (jb_account j) = Some a"
    for a own pay k db'
  proof -
    note c = create_job_InrD [OF cr]
    have "map (\<lambda>x. if jb_id x = jb_id k then x\<lparr>jb_node := jb_node j\<rparr> else x) (db_jobs db) = db_jobs db"
      using assms c unfolding job_ids_ok_def by (intro map_idI) auto
    then show ?thesis
      using c account_by_id_SomeD [OF a]
      by (intro exI [of _ "k\<lparr>jb_node := jb_node j\<rparr>"]) (simp add: update_job_def)
  qed
  show ?thesis
    unfolding queue_sync_positions_def Let_def
    by (auto split: option.split prod.split sum.split dest: new)
qed

lemma completion_writes:
  assumes "job_ids_ok db" "complete qe env c i status result err db = (r, db')"
    and f: "find (\<lambda>j. jb_id j = i \<and> caller_sees c j) (db_jobs db) = Some j"
    and ok: "status \<in> {''SUCCESS'', ''FAILED''} \<and> jb_status j = JbRunning \<and> completion_entitled qe env c j"
  shows "\<exists>sync new. r = Completed sync \<and>
    db_jobs db' = db_jobs (update_job i (finish_job (if status = ''SUCCESS'' then JbSuccess else JbFailed) result err) db) @ new \<and>
    (case sync of
       None \<Rightarrow> new = []
     | Some n \<Rightarrow> status = ''SUCCESS'' \<and> jb_type j \<in> {PlaceTestOrder, PlaceOrder} \<and>
         (\<exists>k. new = [k] \<and> jb_id k = n \<and> jb_type k = SyncPositions \<and> jb_status k = JbPending \<and>
            jb_account k = jb_account j \<and> jb_node k = jb_node j))"
proof -
  let ?s = "if status = ''SUCCESS'' then JbSuccess else JbFailed"
  let ?db = "update_job i (finish_job ?s result err) db" and ?j = "finish_job ?s result err j"
  have j: "j \<in> set (db_jobs db)" "jb_id j = i" using f by (auto dest: find_SomeD)
  have ids: "job_ids_ok ?db"
    using ok j update_row_advance [OF assms(1) j(1), of "finish_job ?s result err"]
    by (intro jobs_advance_ids [OF _ assms(1)]) (simp add: finish_job_def status_rank_def)
  have fields: "jb_account ?j = jb_account j" "jb_node ?j = jb_node j" by (simp_all add: finish_job_def)
  show ?thesis
  proof (cases "jb_type j \<in> {PlaceTestOrder, PlaceOrder} \<and> status = ''SUCCESS''")
    case False
    then have "r = Completed None" "db' = ?db" using assms(2) f ok by (auto simp: complete_unfold Let_def split: if_splits)
    then show ?thesis by simp
  next
    case True
    then have "r = Completed (fst (queue_sync_positions env ?j ?db))" "db' = snd (queue_sync_positions env ?j ?db)"
      using assms(2) f ok by (simp_all add: complete_unfold Let_def case_prod_beta)
    then show ?thesis using queue_sync_rows [OF ids, of env ?j] True fields
      by (cases "fst (queue_sync_positions env ?j ?db)") auto
  qed
qed

lemma completed_then_refused:
  assumes "job_ids_ok db" "complete qe env c i status result err db = (Completed s, db')"
  shows "let (r2, db2) = complete qe2 env2 c2 i status2 result2 err2 db'
         in db2 = db' \<and> r2 \<in> {NotFound, InvalidStatus, NotRunning JbSuccess, NotRunning JbFailed}"
proof -
  let ?s = "if status = ''SUCCESS'' then JbSuccess else JbFailed"
  obtain j where uniq: "\<And>x. x \<in> set (db_jobs db') \<Longrightarrow> jb_id x = i \<Longrightarrow> x = finish_job ?s result err j"
    using completed_row [OF assms] by blast
  let ?j = "finish_job ?s result err j"
  have fields: "jb_status ?j = ?s" by (simp add: finish_job_def)
  have "find (\<lambda>x. jb_id x = i \<and> caller_sees c2 x) (db_jobs db') = None \<or>
        find (\<lambda>x. jb_id x = i \<and> caller_sees c2 x) (db_jobs db') = Some ?j"
    using uniq by (cases "find (\<lambda>x. jb_id x = i \<and> caller_sees c2 x) (db_jobs db')") (auto dest: find_SomeD)
  then show ?thesis
    using complete_absent [of i c2 db'] complete_final [of i c2 db' ?j] fields
    by (elim disjE) (simp_all split: if_splits)
qed

text \<open>
  A completion that runs through succeeds exactly for a job the caller sees, with a valid status, which is
  running and which the caller may report on; that row then holds the reported result, and nothing else
  changes but one position sync queued for an order that succeeded. Otherwise the first failing check gives
  the answer and nothing changes. A completion that reads the row afterwards is refused and changes nothing.
\<close>

theorem completion_happens_once:
  assumes "job_ids_ok db" "complete qe env c i status result err db = (r, db')"
  shows "(case r of
       Completed sync \<Rightarrow>
         (\<exists>j new. j \<in> set (db_jobs db) \<and> jb_id j = i \<and> caller_sees c j \<and> jb_status j = JbRunning \<and>
            status \<in> {''SUCCESS'', ''FAILED''} \<and>
            (\<forall>w. c = WorkerCaller w \<longrightarrow> st_hosted (pe_settings env) \<longrightarrow> jb_hosted_uuid j \<noteq> '''' \<longrightarrow>
               (\<exists>n h. jb_node j = Some n \<and> qe_hostname qe n = Some h \<and> h \<in> set (completion_nodes w))) \<and>
            db_jobs db' = map (\<lambda>x. if x = j
               then j\<lparr>jb_status := (if status = ''SUCCESS'' then JbSuccess else JbFailed), jb_result := result, jb_error := err\<rparr>
               else x) (db_jobs db) @ new \<and>
            (case sync of
               None \<Rightarrow> new = []
             | Some n \<Rightarrow> status = ''SUCCESS'' \<and> jb_type j \<in> {PlaceTestOrder, PlaceOrder} \<and>
                 (\<exists>k. new = [k] \<and> jb_id k = n \<and> jb_type k = SyncPositions \<and> jb_status k = JbPending \<and>
                    jb_account k = jb_account j \<and> jb_node k = jb_node j)))
     | _ \<Rightarrow> db' = db) \<and>
   (r = NotFound \<longleftrightarrow> (\<forall>j \<in> set (db_jobs db). jb_id j = i \<longrightarrow> \<not> caller_sees c j)) \<and>
   (r = InvalidStatus \<longleftrightarrow> status \<notin> {''SUCCESS'', ''FAILED''} \<and> (\<exists>j \<in> set (db_jobs db). jb_id j = i \<and> caller_sees c j)) \<and>
   (\<forall>s. r = NotRunning s \<longleftrightarrow> status \<in> {''SUCCESS'', ''FAILED''} \<and> s \<noteq> JbRunning \<and>
      (\<exists>j \<in> set (db_jobs db). jb_id j = i \<and> caller_sees c j \<and> jb_status j = s)) \<and>
   (r = NotEntitled \<longleftrightarrow> status \<in> {''SUCCESS'', ''FAILED''} \<and>
      (\<exists>j \<in> set (db_jobs db). jb_id j = i \<and> caller_sees c j \<and> jb_status j = JbRunning \<and>
         (\<exists>w. c = WorkerCaller w \<and> st_hosted (pe_settings env) \<and> jb_hosted_uuid j \<noteq> '''' \<and>
            (\<forall>n h. jb_node j = Some n \<longrightarrow> qe_hostname qe n = Some h \<longrightarrow> h \<notin> set (completion_nodes w))))) \<and>
   ((\<exists>sync. r = Completed sync) \<longrightarrow>
      (let (r2, db2) = complete qe2 env2 c2 i status2 result2 err2 db'
       in db2 = db' \<and> r2 \<in> {NotFound, InvalidStatus, NotRunning JbSuccess, NotRunning JbFailed}))"
proof (cases "find (\<lambda>j. jb_id j = i \<and> caller_sees c j) (db_jobs db)")
  case None
  then have "r = NotFound" "db' = db" using assms(2) by (simp_all add: complete_unfold)
  with None show ?thesis by (auto simp: find_None_iff)
next
  case (Some j)
  then have j: "j \<in> set (db_jobs db)" "jb_id j = i" "caller_sees c j" by (auto dest: find_SomeD)
  have uniq: "x = j" if "x \<in> set (db_jobs db)" "jb_id x = i" for x
    using assms(1) that j by (metis distinct_map_eq job_ids_ok_def)
  let ?s = "if status = ''SUCCESS'' then JbSuccess else JbFailed"
  let ?db = "update_job i (finish_job ?s result err) db"
  have a: "(\<forall>x \<in> set (db_jobs db). jb_id x = i \<longrightarrow> P x) = P j" "(\<exists>x \<in> set (db_jobs db). jb_id x = i \<and> P x) = P j" for P
    using j(1,2) uniq by blast+
  show ?thesis
  proof (cases "status \<in> {''SUCCESS'', ''FAILED''} \<and> jb_status j = JbRunning \<and> completion_entitled qe env c j")
    case False
    then consider (invalid) "status \<notin> {''SUCCESS'', ''FAILED''}" "r = InvalidStatus" "db' = db"
      | (final) "status \<in> {''SUCCESS'', ''FAILED''}" "jb_status j \<noteq> JbRunning" "r = NotRunning (jb_status j)" "db' = db"
      | (barred) "status \<in> {''SUCCESS'', ''FAILED''}" "jb_status j = JbRunning" "\<not> completion_entitled qe env c j" "r = NotEntitled" "db' = db"
      using assms(2) Some by (auto simp: complete_unfold split: if_splits)
    then show ?thesis
    proof cases
      case invalid
      then show ?thesis unfolding a by (simp add: j(3))
    next
      case final
      then show ?thesis unfolding a by (auto simp: j(3))
    next
      case barred
      then show ?thesis unfolding a completion_entitled_iff by (simp add: j(3)) blast
    qed
  next
    case True
    have rows: "db_jobs ?db = map (\<lambda>x. if x = j
        then j\<lparr>jb_status := ?s, jb_result := result, jb_error := err\<rparr> else x) (db_jobs db)"
      using one_row_updated [OF assms(1) j(1), of "finish_job ?s result err"] j(2) by (simp add: finish_job_def)
    obtain sync new where n: "r = Completed sync" "db_jobs db' = db_jobs ?db @ new"
      "case sync of None \<Rightarrow> new = []
       | Some n \<Rightarrow> status = ''SUCCESS'' \<and> jb_type j \<in> {PlaceTestOrder, PlaceOrder} \<and>
           (\<exists>k. new = [k] \<and> jb_id k = n \<and> jb_type k = SyncPositions \<and> jb_status k = JbPending \<and>
              jb_account k = jb_account j \<and> jb_node k = jb_node j)"
      using completion_writes [OF assms Some True] by blast
    have late: "let (r2, db2) = complete qe2 env2 c2 i status2 result2 err2 db'
       in db2 = db' \<and> r2 \<in> {NotFound, InvalidStatus, NotRunning JbSuccess, NotRunning JbFailed}"
      using completed_then_refused [OF assms(1) assms(2) [unfolded n(1)]] .
    have e: "\<forall>w. c = WorkerCaller w \<longrightarrow> st_hosted (pe_settings env) \<longrightarrow> jb_hosted_uuid j \<noteq> '''' \<longrightarrow>
               (\<exists>n h. jb_node j = Some n \<and> qe_hostname qe n = Some h \<and> h \<in> set (completion_nodes w))"
      using True unfolding completion_entitled_iff by simp
    have ne: "\<not> (\<exists>w. c = WorkerCaller w \<and> st_hosted (pe_settings env) \<and> jb_hosted_uuid j \<noteq> '''' \<and>
            (\<forall>n h. jb_node j = Some n \<longrightarrow> qe_hostname qe n = Some h \<longrightarrow> h \<notin> set (completion_nodes w)))"
      using e by blast
    have t: "jb_status j = JbRunning" "status \<in> {''SUCCESS'', ''FAILED''}" using True by simp_all
    have found: "\<not> (caller_sees c j \<longrightarrow> False)" using j(3) by simp
    show ?thesis
      unfolding n(1) complete_response.case a
    proof (intro conjI impI)
      show "\<exists>j new. j \<in> set (db_jobs db) \<and> jb_id j = i \<and> caller_sees c j \<and> jb_status j = JbRunning \<and>
            status \<in> {''SUCCESS'', ''FAILED''} \<and>
            (\<forall>w. c = WorkerCaller w \<longrightarrow> st_hosted (pe_settings env) \<longrightarrow> jb_hosted_uuid j \<noteq> '''' \<longrightarrow>
               (\<exists>n h. jb_node j = Some n \<and> qe_hostname qe n = Some h \<and> h \<in> set (completion_nodes w))) \<and>
            db_jobs db' = map (\<lambda>x. if x = j
               then j\<lparr>jb_status := (if status = ''SUCCESS'' then JbSuccess else JbFailed), jb_result := result, jb_error := err\<rparr>
               else x) (db_jobs db) @ new \<and>
            (case sync of
               None \<Rightarrow> new = []
             | Some n \<Rightarrow> status = ''SUCCESS'' \<and> jb_type j \<in> {PlaceTestOrder, PlaceOrder} \<and>
                 (\<exists>k. new = [k] \<and> jb_id k = n \<and> jb_type k = SyncPositions \<and> jb_status k = JbPending \<and>
                    jb_account k = jb_account j \<and> jb_node k = jb_node j))"
        by (rule exI [of _ j], rule exI [of _ new]) (intro conjI j t e n(3) n(2) [unfolded rows])
    qed (use t j(3) ne late in simp_all, auto)
  qed
qed

section \<open>Writes that come late\<close>

text \<open>
  What is left when a checked write arrives after others: a row keeps its identity, parameters and
  payload and never moves back, but a final one may be written again.
\<close>

definition moves :: "(job \<Rightarrow> job) \<Rightarrow> bool" where
  "moves f \<longleftrightarrow> (\<forall>j. jb_id (f j) = jb_id j \<and> jb_type (f j) = jb_type j \<and> jb_account (f j) = jb_account j \<and>
                   jb_node (f j) = jb_node j \<and> jb_payload (f j) = jb_payload j \<and>
                   status_rank (jb_status j) \<le> status_rank (jb_status (f j)))"

definition jobs_forward :: "pipe_db \<Rightarrow> pipe_db \<Rightarrow> bool" where
  "jobs_forward db db' \<longleftrightarrow>
     (\<exists>f new. moves f \<and> db_jobs db' = map f (db_jobs db) @ new \<and> distinct (map jb_id new) \<and>
        (\<forall>j \<in> set new. db_next_job db \<le> jb_id j \<and> jb_id j < db_next_job db') \<and> db_next_job db \<le> db_next_job db')"

lemma advances_moves: "advances f \<Longrightarrow> moves f"
  unfolding advances_def moves_def by (metis order_refl order_less_imp_le)

lemma moves_comp: "moves f \<Longrightarrow> moves g \<Longrightarrow> moves (\<lambda>j. g (f j))"
  unfolding moves_def by (metis order_trans)

lemma moves_idD: "moves f \<Longrightarrow> jb_id (f j) = jb_id j"
  by (simp add: moves_def)

lemma jobs_advance_forward: "jobs_advance db db' \<Longrightarrow> jobs_forward db db'"
  unfolding jobs_advance_def jobs_forward_def using advances_moves by blast

lemma jobs_forward_same:
  "db_jobs db' = db_jobs db \<Longrightarrow> db_next_job db \<le> db_next_job db' \<Longrightarrow> jobs_forward db db'"
  by (simp add: jobs_advance_forward jobs_advance_same)

lemma jobs_forward_refl [simp]: "jobs_forward db db"
  by (simp add: jobs_forward_same)

lemma jobs_forward_map:
  "moves f \<Longrightarrow> db_jobs db' = map f (db_jobs db) \<Longrightarrow> db_next_job db' = db_next_job db \<Longrightarrow> jobs_forward db db'"
  unfolding jobs_forward_def by (intro exI [of _ f] exI [of _ "[]"]) simp

lemma jobs_forward_trans:
  assumes "jobs_forward a b" "jobs_forward b c"
  shows "jobs_forward a c"
proof -
  from assms(1) obtain f n where f: "moves f" "db_jobs b = map f (db_jobs a) @ n" "distinct (map jb_id n)"
    "\<forall>j \<in> set n. db_next_job a \<le> jb_id j \<and> jb_id j < db_next_job b" "db_next_job a \<le> db_next_job b"
    unfolding jobs_forward_def by blast
  from assms(2) obtain g m where g: "moves g" "db_jobs c = map g (db_jobs b) @ m" "distinct (map jb_id m)"
    "\<forall>j \<in> set m. db_next_job b \<le> jb_id j \<and> jb_id j < db_next_job c" "db_next_job b \<le> db_next_job c"
    unfolding jobs_forward_def by blast
  have ids: "map jb_id (map g n) = map jb_id n" using g(1) by (simp add: moves_def)
  have "distinct (map jb_id (map g n @ m))"
    unfolding map_append distinct_append ids
  proof (intro conjI)
    have "jb_id x \<noteq> jb_id y" if "x \<in> set n" "y \<in> set m" for x y
      using f(4) g(4) that by (metis leD)
    then show "set (map jb_id n) \<inter> set (map jb_id m) = {}" by auto
  qed (use f g in auto)
  moreover have "\<forall>j \<in> set (map g n @ m). db_next_job a \<le> jb_id j \<and> jb_id j < db_next_job c"
    using f(4,5) g(4,5) moves_idD [OF g(1)] by fastforce
  moreover have "db_jobs c = map (\<lambda>j. g (f j)) (db_jobs a) @ (map g n @ m)" using f(2) g(2) by simp
  moreover have "db_next_job a \<le> db_next_job c" using f(5) g(5) by simp
  ultimately show ?thesis unfolding jobs_forward_def using moves_comp [OF f(1) g(1)] by blast
qed

lemma jobs_forward_ids:
  assumes "jobs_forward db db'" "job_ids_ok db"
  shows "job_ids_ok db'"
proof -
  from assms(1) obtain f n where f: "moves f" "db_jobs db' = map f (db_jobs db) @ n" "distinct (map jb_id n)"
    "\<forall>j \<in> set n. db_next_job db \<le> jb_id j \<and> jb_id j < db_next_job db'" "db_next_job db \<le> db_next_job db'"
    unfolding jobs_forward_def by blast
  have ids: "map jb_id (map f (db_jobs db)) = map jb_id (db_jobs db)" using f(1) by (simp add: moves_def)
  have "distinct (map jb_id (db_jobs db'))"
    unfolding f(2) map_append distinct_append ids
  proof (intro conjI)
    have "jb_id x \<noteq> jb_id y" if "x \<in> set (db_jobs db)" "y \<in> set n" for x y
      using f(4) assms(2) that unfolding job_ids_ok_def by (metis leD)
    then show "set (map jb_id (db_jobs db)) \<inter> set (map jb_id n) = {}" by auto
  qed (use f assms(2) in \<open>auto simp: job_ids_ok_def\<close>)
  moreover have "jb_id j < db_next_job db'" if "j \<in> set (db_jobs db')" for j
    using that f(2,4,5) assms(2) moves_idD [OF f(1)] unfolding job_ids_ok_def by fastforce
  ultimately show ?thesis by (simp add: job_ids_ok_def)
qed

lemma jobs_forward_successor:
  assumes "jobs_forward db db'" "j \<in> set (db_jobs db)"
  obtains j' where "j' \<in> set (db_jobs db')" "jb_id j' = jb_id j" "jb_type j' = jb_type j" "jb_account j' = jb_account j"
    "jb_node j' = jb_node j" "jb_payload j' = jb_payload j" "status_rank (jb_status j) \<le> status_rank (jb_status j')"
  using assms unfolding jobs_forward_def moves_def by (metis UnI1 image_eqI set_append set_map)

lemma save_completion_forward:
  assumes "job_ids_ok db"
  shows "jobs_forward db (snd (save_completion env j status result err db))"
proof -
  let ?s = "if status = ''SUCCESS'' then JbSuccess else JbFailed"
  let ?db = "update_job (jb_id j) (finish_job ?s result err) db"
  have f: "jobs_forward db ?db"
    unfolding update_job_def
    by (rule jobs_forward_map [where f = "\<lambda>x. if jb_id x = jb_id j then finish_job ?s result err x else x"])
      (simp_all add: moves_def finish_job_def status_rank_def split: job_status.split)
  have "jobs_forward ?db (snd (queue_sync_positions env k ?db))" for k
    by (rule jobs_advance_forward [OF queue_sync_positions_advance [OF jobs_forward_ids [OF f assms]]])
  then show ?thesis using f jobs_forward_trans [OF f]
    by (auto simp: save_completion_def Let_def case_prod_beta)
qed

lemma save_cancel_forward: "jobs_forward db (save_cancel j reason db)"
  unfolding save_cancel_def fail_job_def update_job_def
  by (rule jobs_forward_map [where f = "\<lambda>x. if jb_id x = jb_id j
        then x\<lparr>jb_status := JbFailed, jb_error := ''Cancelled by admin: '' @ reason\<rparr> else x"])
    (simp_all add: moves_def status_rank_def split: job_status.split)

text \<open>The retry adds one job: same type, account, node and payload, still to be claimed.\<close>

lemma retry_job_result:
  assumes "retry_job env i db = (r, db')" "job_ids_ok db"
  shows "case r of
      None \<Rightarrow> db' = db
    | Some k \<Rightarrow> \<exists>j. j \<in> set (db_jobs db) \<and> jb_id j = i \<and> jb_status j = JbFailed \<and> db_jobs db' = db_jobs db @ [k] \<and>
        jb_id k = db_next_job db \<and> db_next_job db' = Suc (db_next_job db) \<and> jb_status k = JbPending \<and>
        jb_type k = jb_type j \<and> jb_account k = jb_account j \<and> jb_node k = jb_node j \<and>
        (\<exists>a. account_by_id env (jb_account j) = Some a \<and>
           pinned_payload env (jb_type j) a (jb_payload j) = Some (jb_payload k)) \<and>
        db_plans db' = db_plans db \<and> db_legs db' = db_legs db \<and> db_next_plan db' = db_next_plan db"
proof (cases r)
  case None
  then show ?thesis using assms(1) by (auto simp: retry_job_def split: option.splits prod.splits sum.splits if_splits)
next
  case (Some k)
  then obtain j a k0 db1 where j: "find (\<lambda>j. jb_id j = i) (db_jobs db) = Some j" "jb_status j = JbFailed"
    "account_by_id env (jb_account j) = Some a"
    "create_job env (jb_type j) a (jb_assignment j) (jb_payload j) db = (Inr k0, db1)"
    "k = k0\<lparr>jb_node := jb_node j\<rparr>" "db' = update_job (jb_id k0) (\<lambda>x. x\<lparr>jb_node := jb_node j\<rparr>) db1"
    using assms(1) by (auto simp: retry_job_def split: option.splits prod.splits sum.splits if_splits)
  note c = create_job_InrD [OF j(4)]
  have "map (\<lambda>x. if jb_id x = jb_id k0 then x\<lparr>jb_node := jb_node j\<rparr> else x) (db_jobs db) = db_jobs db"
    using assms(2) c unfolding job_ids_ok_def by (intro map_idI) auto
  then show ?thesis using Some j c account_by_id_SomeD [OF j(3)] find_SomeD [OF j(1)]
    by (auto simp: update_job_def)
qed

text \<open>
  Both completions of a running job that were checked before either is written are written: both callers
  are told they completed it, and the row keeps the second report, whatever the first one said.
\<close>

lemma concurrent_completions_both_save:
  assumes ids: "job_ids_ok db" and one: "check_completion qe env c i status1 db = Inr j1"
    and two: "check_completion qe env c' i status2 db = Inr j2"
  shows "case save_completion env j1 status1 result1 err1 db of (r1, db1) \<Rightarrow>
         case save_completion env2 j2 status2 result2 err2 db1 of (r2, db2) \<Rightarrow>
           (\<exists>s1 s2. r1 = Completed s1 \<and> r2 = Completed s2) \<and>
           (\<exists>j \<in> set (db_jobs db2). jb_id j = i \<and>
              jb_status j = (if status2 = ''SUCCESS'' then JbSuccess else JbFailed) \<and> jb_result j = result2 \<and> jb_error j = err2)"
proof -
  have j: "j1 \<in> set (db_jobs db)" "jb_id j1 = i" "jb_id j2 = i"
    using one two by (auto simp: check_completion_def split: option.splits if_splits dest: find_SomeD)
  obtain r1 db1 where 1: "save_completion env j1 status1 result1 err1 db = (r1, db1)" by fastforce
  obtain r2 db2 where 2: "save_completion env2 j2 status2 result2 err2 db1 = (r2, db2)" by fastforce
  have f1: "jobs_forward db db1" using save_completion_forward [OF ids] 1 by (metis snd_conv)
  obtain k where k: "k \<in> set (db_jobs db1)" "jb_id k = i" using jobs_forward_successor [OF f1 j(1)] j(2) by metis
  let ?f = "finish_job (if status2 = ''SUCCESS'' then JbSuccess else JbFailed) result2 err2"
  let ?db = "update_job i ?f db1"
  have m: "?f k \<in> set (db_jobs ?db)" "jb_id (?f k) = i" using k by (force simp: update_job_def finish_job_def)+
  have "db2 = ?db \<or> (\<exists>x. db2 = snd (queue_sync_positions env2 x ?db))"
    using 2 j(3) by (auto simp: save_completion_def Let_def case_prod_beta split: if_splits)
  moreover have ids': "job_ids_ok ?db"
    by (rule jobs_forward_ids [OF _ jobs_forward_ids [OF f1 ids]], unfold update_job_def,
        rule jobs_forward_map [where f = "\<lambda>x. if jb_id x = i then ?f x else x"])
      (simp_all add: moves_def finish_job_def status_rank_def split: job_status.split)
  moreover have "?f k \<in> set (db_jobs (snd (queue_sync_positions env2 x ?db)))" for x
    using m(1) queue_sync_rows [OF ids', of env2 x] by (cases "fst (queue_sync_positions env2 x ?db)") auto
  ultimately have "?f k \<in> set (db_jobs db2)" using m(1) by metis
  moreover have "\<exists>s1 s2. r1 = Completed s1 \<and> r2 = Completed s2"
    using 1 2 by (auto simp: save_completion_def Let_def case_prod_beta split: if_splits)
  ultimately show ?thesis using m(2) unfolding 1 2 prod.case by (intro conjI bexI [of _ "?f k"]) (simp_all add: finish_job_def)
qed

section \<open>Witnesses\<close>

definition demo_worker :: worker where
  "demo_worker = \<lparr>wk_id = ''w1'', wk_secret_hash = ''h'', wk_permissions = [], wk_active = True, wk_last_seen = None\<rparr>"

definition demo_queue :: queue_env where
  "demo_queue = \<lparr>qe_sha = (\<lambda>s. ''h''), qe_legacy_enabled = False, qe_legacy_token = '''', qe_hostname = (\<lambda>_. None),
     qe_bridge_url = (\<lambda>_. ''''), qe_bridge_health = (\<lambda>_. ''UNOBSERVED''), qe_liveness_us = 300000000,
     qe_lease_us = 300000000, qe_sync_lease_us = 60000000\<rparr>"

definition demo_caller :: caller where
  "demo_caller = WorkerCaller demo_worker"

definition demo_query :: claim_query where
  "demo_query = \<lparr>cq_worker_id = ''w1'', cq_account = None, cq_job_type = '''', cq_job_types = ''MODIFY_POSITION, SYNC_POSITIONS''\<rparr>"

definition waiting_job :: job where
  "waiting_job = third_job\<lparr>jb_status := JbPending, jb_worker := '''', jb_started := False, jb_result := []\<rparr>"

definition waiting_db :: pipe_db where
  "waiting_db = first_target\<lparr>db_legs := map (\<lambda>l. l\<lparr>lg_job := None\<rparr>) (db_legs first_target),
     db_jobs := [waiting_job], db_next_job := 7\<rparr>"

definition demo_running :: job where
  "demo_running = start_job demo_queue demo_env demo_query waiting_job"

definition claimed_db :: pipe_db where
  "claimed_db = waiting_db\<lparr>db_jobs := [demo_running]\<rparr>"

lemma waiting_ids: "job_ids_ok waiting_db" "job_ids_ok claimed_db"
  by (simp_all add: job_ids_ok_def waiting_db_def waiting_job_def third_job_def claimed_db_def demo_running_def)

lemma demo_claim_gates: "claim_gates demo_env demo_caller waiting_job = GatePasses"
  by code_simp

lemma demo_pick:
  "first_claimable (pick_job demo_queue demo_env demo_caller demo_query (\<lambda>_. False) waiting_db)
     (types_to_try demo_env waiting_db demo_query) = Some waiting_job"
  by code_simp

lemma demo_claim:
  "next_job demo_queue demo_env demo_caller demo_query (\<lambda>_. False) waiting_db = (Claimed demo_running, claimed_db)"
proof -
  have p: "\<not> permission demo_caller ''partial_close_worker''"
    by (simp add: permission_def demo_caller_def worker_of_def demo_worker_def)
  have "update_job (jb_id waiting_job) (start_job demo_queue demo_env demo_query) waiting_db = claimed_db"
    by (simp add: update_job_def waiting_db_def claimed_db_def demo_running_def)
  with p show ?thesis
    by (simp add: next_job_def Let_def demo_pick demo_claim_gates demo_running_def)
qed

theorem claim_is_entitled_witness:
  "db_audit claimed_db = db_audit waiting_db"
  using claim_is_entitled [OF waiting_ids(1) demo_claim] unfolding claim_response.case by blast

definition completed_db :: pipe_db where
  "completed_db = claimed_db\<lparr>db_jobs := [finish_job JbSuccess [(''ok'', JBool True)] '''' demo_running]\<rparr>"

lemma demo_completion:
  "complete demo_queue demo_env demo_caller 6 ''SUCCESS'' [(''ok'', JBool True)] '''' claimed_db = (Completed None, completed_db)"
proof -
  have f: "find (\<lambda>j. jb_id j = 6 \<and> caller_sees demo_caller j) (db_jobs claimed_db) = Some demo_running"
    by (simp add: claimed_db_def caller_sees_def demo_caller_def demo_running_def waiting_job_def third_job_def)
  have e: "completion_entitled demo_queue demo_env demo_caller demo_running" by code_simp
  have t: "jb_status demo_running = JbRunning" "jb_type demo_running = ModifyPosition" "jb_id demo_running = 6"
    by (simp_all add: demo_running_def waiting_job_def third_job_def)
  have "update_job 6 (finish_job JbSuccess [(''ok'', JBool True)] '''') claimed_db = completed_db"
    using t by (simp add: update_job_def claimed_db_def completed_db_def)
  with f e t show ?thesis by (simp add: complete_unfold Let_def)
qed

theorem completion_happens_once_witness:
  "let (r2, db2) = complete demo_queue demo_env demo_caller 6 ''FAILED'' [] ''late'' completed_db
   in db2 = completed_db \<and> r2 \<in> {NotFound, InvalidStatus, NotRunning JbSuccess, NotRunning JbFailed}"
  using completion_happens_once [OF waiting_ids(2) demo_completion] by blast

end
