(* ===== verification/PlanSettlement.thy ===== *)
theory PlanSettlement
  imports JobQueue
begin

text \<open>
  What ends a plan: the provider's follow-up commands (\<^verbatim>\<open>execution/provider_commands_engine.py\<close>), the
  settlement of completed plans (\<open>resolve_completed_plans\<close> of \<^verbatim>\<open>execution/close_monitor.py\<close>) and the
  reconciliation of orders that were queued before the node could take them
  (\<^verbatim>\<open>execution/stale_reconcile.py\<close>). Rows other transactions hold are parameters (\<open>skip_locked\<close>); counters
  are the list of the keys a pass increments. The account of a plan is a row of the fleet.
\<close>

section \<open>Finding the plan of a command\<close>

definition active_plan_status :: "plan_status \<Rightarrow> bool" where
  "active_plan_status s \<longleftrightarrow> s = PlPlanned \<or> s = PlPromoted"

definition resolve_target_plan :: "pipe_db \<Rightarrow> provider_command \<Rightarrow> plan option \<times> string" where
  "resolve_target_plan db c =
     (if cm_reply_to c = '''' then (None, ''no_reply_metadata'')
      else if cm_chat_id c = '''' then (None, ''unresolved_chat_identity'')
      else case filter (\<lambda>p. pl_source p = cm_provider c \<and> pl_chat_id p = cm_chat_id c \<and>
                            pl_message_id p = cm_reply_to c \<and> active_plan_status (pl_status p)) (db_plans db) of
        [p] \<Rightarrow> (Some p, ''reply'')
      | [] \<Rightarrow> (None, ''no_reply_match'')
      | _ \<Rightarrow> (None, ''ambiguous_reply''))"

section \<open>Positions of a plan\<close>

definition open_legs :: "pipe_db \<Rightarrow> plan \<Rightarrow> (leg \<times> trade) list" where
  "open_legs db p =
     concat (map (\<lambda>l. case leg_trade db p l of
                     None \<Rightarrow> []
                   | Some t \<Rightarrow> if td_close_time t = None then [(l, t)] else []) (legs_of db (pl_id p)))"

definition leg_job :: "pipe_db \<Rightarrow> leg \<Rightarrow> job option" where
  "leg_job db l = Option.bind (lg_job l) (find_job db)"

definition has_unresolved_fills :: "pipe_db \<Rightarrow> plan \<Rightarrow> bool" where
  "has_unresolved_fills db p \<longleftrightarrow>
     list_ex (\<lambda>l. case leg_job db l of
        None \<Rightarrow> False
      | Some j \<Rightarrow>
          jb_status j = JbRunning \<or>
          jb_status j = JbSuccess \<and>
            \<not> list_ex (\<lambda>t. td_account t = pl_account p \<and> td_comment t = leg_comment (pl_id p) (lg_index l)) (db_trades db))
      (legs_of db (pl_id p))"

definition leg_being_closed :: "pipe_db \<Rightarrow> trade \<Rightarrow> bool" where
  "leg_being_closed db t \<longleftrightarrow>
     list_ex (\<lambda>j. jb_type j = CloseTrade \<and> is_active_job j \<and> jb_account j = td_account t \<and>
                  map_of (jb_payload j) ''ticket'' = Some (JStr (td_ticket t))) (db_jobs db)"

section \<open>Jobs of a command\<close>

datatype apply_error = ApplySave save_error | ApplyComparison | ApplyConversion conv_error

definition command_modify_payload :: "sweep_cfg \<Rightarrow> plan \<Rightarrow> leg \<Rightarrow> trade \<Rightarrow> string \<Rightarrow> pyfloat \<Rightarrow> string \<Rightarrow> (string \<times> json) list" where
  "command_modify_payload cfg p l t username sl reason =
     [(''windows_username'', JStr username), (''ticket'', JStr (td_ticket t)), (''symbol'', JStr (pl_symbol p)),
      (''sl'', sw_to_float cfg sl), (''plan_id'', JInt (int (pl_id p))), (''leg_index'', JInt (int (lg_index l))),
      (''signal_source'', JStr (pl_source p)), (''correlation_id'', JStr (pl_correlation_id p)),
      (''reason'', JStr reason)] @
     (case to_decimal (lg_take_profit l) of None \<Rightarrow> [] | Some tp \<Rightarrow> [(''tp'', sw_to_float cfg tp)])"

definition command_close_payload :: "plan \<Rightarrow> leg \<Rightarrow> trade \<Rightarrow> string \<Rightarrow> (string \<times> json) list" where
  "command_close_payload p l t username =
     [(''windows_username'', JStr username), (''ticket'', JStr (td_ticket t)), (''symbol'', JStr (pl_symbol p)),
      (''plan_id'', JInt (int (pl_id p))), (''leg_index'', JInt (int (lg_index l))),
      (''signal_source'', JStr (pl_source p)), (''correlation_id'', JStr (pl_correlation_id p)),
      (''reason'', JStr ''provider_close'')]"

text \<open>The account-scoped creation both executors share; \<open>Inr None\<close> creates nothing.\<close>

definition command_job ::
  "pipe_env \<Rightarrow> plan \<Rightarrow> job_type \<Rightarrow> (string \<Rightarrow> (string \<times> json) list) \<Rightarrow> trade \<Rightarrow> pipe_db
     \<Rightarrow> (apply_error, nat option, pipe_db) outcome" where
  "command_job env p ty payload t db =
     (case (usable_username env (pl_account p), account_by_id env (pl_account p)) of
        (Some u, Some a) \<Rightarrow>
          if td_ticket t = '''' then (Inr None, db)
          else (case create_job env ty a None (payload u) db of
                  (Inl e, db') \<Rightarrow> (Inl (ApplySave e), db')
                | (Inr j, db') \<Rightarrow> (Inr (Some (jb_id j)), db'))
      | _ \<Rightarrow> (Inr None, db))"

definition command_modify ::
  "sweep_cfg \<Rightarrow> pipe_env \<Rightarrow> plan \<Rightarrow> string \<Rightarrow> pyfloat \<Rightarrow> leg \<times> trade \<Rightarrow> pipe_db \<Rightarrow> (apply_error, nat option, pipe_db) outcome" where
  "command_modify cfg env p reason sl lt db =
     (case lt of (l, t) \<Rightarrow> command_job env p ModifyPosition (\<lambda>u. command_modify_payload cfg p l t u sl reason) t db)"

definition command_close ::
  "pipe_env \<Rightarrow> plan \<Rightarrow> leg \<times> trade \<Rightarrow> pipe_db \<Rightarrow> (apply_error, nat option, pipe_db) outcome" where
  "command_close env p lt db =
     (case lt of (l, t) \<Rightarrow>
        if leg_being_closed db t then (Inr None, db)
        else command_job env p CloseTrade (\<lambda>u. command_close_payload p l t u) t db)"

definition order_types :: "job_type set" where
  "order_types = {PlaceOrder, PlaceTestOrder}"

definition cancellable :: "(nat \<Rightarrow> bool) \<Rightarrow> pipe_db \<Rightarrow> nat \<Rightarrow> job_type set \<Rightarrow> job \<Rightarrow> bool" where
  "cancellable locked db p types j \<longleftrightarrow>
     list_ex (\<lambda>l. lg_plan l = p \<and> lg_job l = Some (jb_id j)) (db_legs db) \<and>
     jb_status j = JbPending \<and> jb_type j \<in> types \<and> \<not> locked (jb_id j)"

definition cancel_job :: "string \<Rightarrow> job \<Rightarrow> job" where
  "cancel_job why j = j\<lparr>jb_status := JbFailed, jb_error := why\<rparr>"

definition cancel_jobs :: "(job \<Rightarrow> bool) \<Rightarrow> string \<Rightarrow> pipe_db \<Rightarrow> nat list \<times> pipe_db" where
  "cancel_jobs P why db =
     (map jb_id (filter P (rev (db_jobs db))),
      db\<lparr>db_jobs := map (\<lambda>j. if P j then cancel_job why j else j) (db_jobs db)\<rparr>)"

definition cancel_pending_order_jobs :: "(nat \<Rightarrow> bool) \<Rightarrow> nat \<Rightarrow> pipe_db \<Rightarrow> nat list \<times> pipe_db" where
  "cancel_pending_order_jobs locked p db =
     cancel_jobs (cancellable locked db p order_types) ''cancelled by provider command'' db"

section \<open>Executing a command\<close>

text \<open>The stop a move is judged against: the tighter of the plan's and the one the ladder locked in.\<close>

definition locked_in_sl :: "pipe_db \<Rightarrow> plan \<Rightarrow> leg \<Rightarrow> trade \<Rightarrow> pyfloat option" where
  "locked_in_sl db p l t =
     (case lg_stage l of
        StageTp2Locked \<Rightarrow>
          (case leg_at (legs_of db (pl_id p)) 2 of
             Some l2 \<Rightarrow> to_decimal (lg_take_profit l2) | None \<Rightarrow> Some (Finite (td_open_price t)))
      | StageBreakeven \<Rightarrow> Some (Finite (td_open_price t))
      | StageInitial \<Rightarrow> None)"

definition risk_baseline_sl :: "pipe_db \<Rightarrow> plan \<Rightarrow> leg \<Rightarrow> trade \<Rightarrow> pyfloat option option" where
  "risk_baseline_sl db p l t =
     (case (locked_in_sl db p l t, to_decimal (pl_stop_loss p)) of
        (None, old) \<Rightarrow> Some old
      | (Some tighter, None) \<Rightarrow> Some (Some tighter)
      | (Some tighter, Some old) \<Rightarrow>
          (let d = upper (pl_direction p) in
           if d = ''BUY'' then map_option (\<lambda>b. Some (if b then tighter else old)) (dec_less old tighter)
           else if d = ''SELL'' then map_option (\<lambda>b. Some (if b then tighter else old)) (dec_less tighter old)
           else Some (Some old)))"

text \<open>Whether the move to \<open>sl\<close> reduces the risk of the leg; \<open>None\<close> is a comparison that raised.\<close>

definition move_allowed :: "pipe_db \<Rightarrow> plan \<Rightarrow> pyfloat option \<Rightarrow> leg \<times> trade \<Rightarrow> bool option" where
  "move_allowed db p sl lt =
     (case lt of (l, t) \<Rightarrow>
        (case risk_baseline_sl db p l t of None \<Rightarrow> None | Some b \<Rightarrow> is_risk_reducing (pl_direction p) sl b))"

record apply_result =
  ar_jobs :: "nat list"
  ar_skipped :: "json list"
  ar_cancelled :: "nat list"
  ar_voided :: bool

definition no_result :: apply_result where
  "no_result = \<lparr>ar_jobs = [], ar_skipped = [], ar_cancelled = [], ar_voided = False\<rparr>"

datatype apply_response = CmdDeferred string | CmdRejected string | CmdApplied apply_result

definition json_decimal :: "json \<Rightarrow> pyfloat option" where
  "json_decimal v = (case v of JNull \<Rightarrow> None | _ \<Rightarrow> to_decimal (py_str v))"

definition command_arg :: "provider_command \<Rightarrow> string \<Rightarrow> json" where
  "command_arg c k = (case map_of (cm_args c) k of None \<Rightarrow> JNull | Some v \<Rightarrow> v)"

definition note_job :: "nat option \<Rightarrow> apply_result \<Rightarrow> apply_result" where
  "note_job j r = (case j of None \<Rightarrow> r | Some i \<Rightarrow> r\<lparr>ar_jobs := ar_jobs r @ [i]\<rparr>)"

fun move_stops ::
  "sweep_cfg \<Rightarrow> pipe_env \<Rightarrow> plan \<Rightarrow> string \<Rightarrow> (trade \<Rightarrow> pyfloat option) \<Rightarrow> (leg \<times> trade) list \<Rightarrow> apply_result \<Rightarrow> pipe_db
     \<Rightarrow> (apply_error, apply_result, pipe_db) outcome" where
  "move_stops cfg env p reason target [] r db = (Inr r, db)"
| "move_stops cfg env p reason target ((l, t) # lts) r db =
     (case (move_allowed db p (target t) (l, t), target t) of
        (None, _) \<Rightarrow> (Inl ApplyComparison, db)
      | (Some True, Some sl) \<Rightarrow>
          (case command_modify cfg env p reason sl (l, t) db of
             (Inl e, db') \<Rightarrow> (Inl e, db')
           | (Inr j, db') \<Rightarrow> move_stops cfg env p reason target lts (note_job j r) db')
      | _ \<Rightarrow> move_stops cfg env p reason target lts (r\<lparr>ar_skipped := ar_skipped r @ [JInt (int (lg_index l))]\<rparr>) db)"

fun close_positions ::
  "pipe_env \<Rightarrow> plan \<Rightarrow> (leg \<times> trade) list \<Rightarrow> apply_result \<Rightarrow> pipe_db \<Rightarrow> (apply_error, apply_result, pipe_db) outcome" where
  "close_positions env p [] r db = (Inr r, db)"
| "close_positions env p (lt # lts) r db =
     (case command_close env p lt db of
        (Inl e, db') \<Rightarrow> (Inl e, db')
      | (Inr j, db') \<Rightarrow> close_positions env p lts (note_job j r) db')"

text \<open>Orders not yet taken are failed first, then every open position gets a close.\<close>

definition flatten_plan ::
  "(nat \<Rightarrow> bool) \<Rightarrow> pipe_env \<Rightarrow> plan \<Rightarrow> pipe_db \<Rightarrow> (apply_error, apply_response, pipe_db) outcome" where
  "flatten_plan locked env p db =
     (let (cancelled, db1) = cancel_pending_order_jobs locked (pl_id p) db in
      case close_positions env p (open_legs db1 p) (no_result\<lparr>ar_cancelled := cancelled\<rparr>) db1 of
        (Inl e, db2) \<Rightarrow> (Inl e, db2)
      | (Inr r, db2) \<Rightarrow>
          (Inr (if has_unresolved_fills db2 p then CmdDeferred ''raced_fill'' else CmdApplied r), db2))"

definition applied_outcome ::
  "(apply_error, apply_result, pipe_db) outcome \<Rightarrow> (apply_error, apply_response, pipe_db) outcome" where
  "applied_outcome r = (case r of (Inl e, db) \<Rightarrow> (Inl e, db) | (Inr x, db) \<Rightarrow> (Inr (CmdApplied x), db))"

definition close_leg ::
  "pipe_env \<Rightarrow> plan \<Rightarrow> int \<Rightarrow> pipe_db \<Rightarrow> (apply_error, apply_response, pipe_db) outcome" where
  "close_leg env p n db =
     (case close_positions env p (filter (\<lambda>lt. int (lg_index (fst lt)) = n) (open_legs db p)) no_result db of
        (Inl e, db') \<Rightarrow> (Inl e, db')
      | (Inr r, db') \<Rightarrow>
          (Inr (CmdApplied (if ar_jobs r = [] then r\<lparr>ar_skipped := [JStr (''leg'' @ py_str_int n @ ''_not_open'')]\<rparr> else r)), db'))"

definition apply_command ::
  "sweep_cfg \<Rightarrow> (nat \<Rightarrow> bool) \<Rightarrow> pipe_env \<Rightarrow> provider_command \<Rightarrow> plan \<Rightarrow> pipe_db
     \<Rightarrow> (apply_error, apply_response, pipe_db) outcome" where
  "apply_command cfg locked env c p db =
     (if has_unresolved_fills db p then (Inr (CmdDeferred ''awaiting_fill_ingest''), db)
      else case cm_type c of
        MoveSlBe \<Rightarrow>
          applied_outcome (move_stops cfg env p ''provider_move_sl_be'' (\<lambda>t. Some (Finite (td_open_price t)))
            (open_legs db p) no_result db)
      | MoveSlPrice \<Rightarrow>
          (case json_decimal (command_arg c ''price'') of
             None \<Rightarrow> (Inr (CmdRejected ''invalid_price''), db)
           | Some price \<Rightarrow>
               (case dec_less (Finite 0) price of
                  None \<Rightarrow> (Inl ApplyComparison, db)
                | Some False \<Rightarrow> (Inr (CmdRejected ''invalid_price''), db)
                | Some True \<Rightarrow>
                    applied_outcome (move_stops cfg env p ''provider_move_sl_price'' (\<lambda>_. Some price)
                      (open_legs db p) no_result db)))
      | CloseAll \<Rightarrow> flatten_plan locked env p db
      | CloseLeg \<Rightarrow>
          (case (if py_truthy (command_arg c ''leg_index'') then py_int (command_arg c ''leg_index'') else Inr 0) of
             Inl e \<Rightarrow> (Inl (ApplyConversion e), db)
           | Inr n \<Rightarrow> close_leg env p n db)
      | CancelSignal \<Rightarrow>
          if list_ex (\<lambda>q. pl_id q = pl_id p \<and> pl_status q = PlPlanned) (db_plans db)
          then (Inr (CmdApplied (no_result\<lparr>ar_voided := True\<rparr>)),
                update_plan (pl_id p) (\<lambda>q. if pl_status q = PlPlanned then q\<lparr>pl_status := PlVoided\<rparr> else q) db)
          else flatten_plan locked env p db
      | _ \<Rightarrow> (Inr (CmdRejected ''non_actionable''), db))"

section \<open>A pass over the commands\<close>

record command_cfg =
  cc_enabled :: bool
  cc_max_age_us :: int
  cc_limit :: nat
  cc_sweep :: sweep_cfg
  cc_command_held :: "nat \<Rightarrow> bool"
  cc_job_held :: "nat \<Rightarrow> bool"

definition update_command :: "nat \<Rightarrow> (provider_command \<Rightarrow> provider_command) \<Rightarrow> pipe_db \<Rightarrow> pipe_db" where
  "update_command i f db = db\<lparr>db_commands := map (\<lambda>c. if cm_id c = i then f c else c) (db_commands db)\<rparr>"

definition finalize_command :: "nat \<Rightarrow> command_status \<Rightarrow> (string \<times> json) list \<Rightarrow> pipe_db \<Rightarrow> pipe_db" where
  "finalize_command i s result =
     update_command i (\<lambda>c. c\<lparr>cm_status := s, cm_processed := True, cm_result := result\<rparr>)"

definition command_open :: "provider_command \<Rightarrow> bool" where
  "command_open c \<longleftrightarrow> cm_status c = CmPending \<and> \<not> cm_processed c"

definition expire_commands :: "int \<Rightarrow> pipe_db \<Rightarrow> nat \<times> pipe_db" where
  "expire_commands cutoff db =
     (let stale = (\<lambda>c. command_open c \<and> cm_created_at c < cutoff) in
      (length (filter stale (db_commands db)),
       db\<lparr>db_commands := map (\<lambda>c. if stale c
            then c\<lparr>cm_status := CmSkipped, cm_processed := True, cm_result := [(''reason'', JStr ''expired'')]\<rparr> else c)
          (db_commands db)\<rparr>))"

definition error_class :: "apply_error \<Rightarrow> string" where
  "error_class e =
     (case e of
        ApplySave (KillSwitchEngaged _) \<Rightarrow> ''ExecutionKillSwitchEngaged''
      | ApplySave (AccountStopped _) \<Rightarrow> ''ExecutionAccountStopped''
      | ApplySave (GateRefused _) \<Rightarrow> ''ExecutionGateRefused''
      | ApplySave PinUnavailable \<Rightarrow> ''DoesNotExist''
      | ApplyComparison \<Rightarrow> ''InvalidOperation''
      | ApplyConversion ConvType \<Rightarrow> ''TypeError''
      | ApplyConversion ConvValue \<Rightarrow> ''ValueError''
      | ApplyConversion ConvOverflow \<Rightarrow> ''OverflowError'')"

definition result_json :: "plan \<Rightarrow> apply_result \<Rightarrow> (string \<times> json) list" where
  "result_json p r =
     [(''plan_id'', JInt (int (pl_id p))), (''jobs'', JArr (map (\<lambda>i. JInt (int i)) (ar_jobs r))),
      (''skipped'', JArr (ar_skipped r)), (''cancelled_jobs'', JArr (map (\<lambda>i. JInt (int i)) (ar_cancelled r)))] @
     (if ar_voided r then [(''voided_plan'', JBool True)] else [])"

definition command_alert_key :: "provider_command \<Rightarrow> string" where
  "command_alert_key c = ''provider_command_unresolved:cmd:'' @ digits_of (cm_id c)"

text \<open>One command, under its row lock; the keys of the counters it increments.\<close>

definition process_command :: "command_cfg \<Rightarrow> pipe_env \<Rightarrow> string list \<Rightarrow> nat \<Rightarrow> pipe_db \<Rightarrow> string list \<times> pipe_db" where
  "process_command cc env enabled i db =
     (case find (\<lambda>c. cm_id c = i \<and> command_open c) (db_commands db) of
        None \<Rightarrow> ([], db)
      | Some c \<Rightarrow>
          if cc_command_held cc i then ([], db)
          else if cm_provider c \<notin> set enabled then ([''skipped_source''], db)
          else case resolve_target_plan db c of
            (None, reason) \<Rightarrow>
              (let amb = (reason = ''ambiguous_reply'') in
               ([if amb then ''ambiguous'' else ''rejected''],
                raise_alert (command_alert_key c) ''WARN''
                  (finalize_command i (if amb then CmAmbiguous else CmRejected) [(''reason'', JStr reason)] db)))
          | (Some p, _) \<Rightarrow>
              if pl_source p \<noteq> cm_provider c
              then ([''rejected''],
                    finalize_command i CmRejected [(''reason'', JStr ''source_mismatch''), (''plan_source'', JStr (pl_source p))] db)
              else (case apply_command (cc_sweep cc) (cc_job_held cc) env c p db of
                  (Inl e, db') \<Rightarrow> ([''rejected''], finalize_command i CmHeld [(''error'', JStr (error_class e))] db')
                | (Inr (CmdDeferred _), db') \<Rightarrow> ([''deferred''], db')
                | (Inr (CmdRejected why), db') \<Rightarrow> ([''rejected''], finalize_command i CmRejected [(''rejected'', JStr why)] db')
                | (Inr (CmdApplied r), db') \<Rightarrow> ([''applied''], finalize_command i CmApplied (result_json p r) db')))"

fun process_commands :: "command_cfg \<Rightarrow> pipe_env \<Rightarrow> string list \<Rightarrow> nat list \<Rightarrow> pipe_db \<Rightarrow> string list \<times> pipe_db" where
  "process_commands cc env enabled [] db = ([], db)"
| "process_commands cc env enabled (i # is) db =
     (let (ev, db1) = process_command cc env enabled i db; (ev', db2) = process_commands cc env enabled is db1
      in (ev @ ev', db2))"

definition command_sources :: "pipe_db \<Rightarrow> string list" where
  "command_sources db = map cf_source (filter cf_command_engine (db_configs db))"

definition due_commands :: "int \<Rightarrow> nat \<Rightarrow> pipe_db \<Rightarrow> nat list" where
  "due_commands cutoff limit db =
     take limit (sort (map cm_id (filter (\<lambda>c. command_open c \<and> cutoff \<le> cm_created_at c) (db_commands db))))"

definition apply_provider_commands :: "command_cfg \<Rightarrow> pipe_env \<Rightarrow> pipe_db \<Rightarrow> string list \<times> pipe_db" where
  "apply_provider_commands cc env db =
     (if \<not> cc_enabled cc then ([], db)
      else
        let cutoff = pe_now env - cc_max_age_us cc; (n, db1) = expire_commands cutoff db;
            (ev, db2) = process_commands cc env (command_sources db1) (due_commands cutoff (cc_limit cc) db1) db1
        in (replicate n ''expired'' @ ev, db2))"

section \<open>Settlement\<close>

definition leg_settled :: "pipe_db \<Rightarrow> plan \<Rightarrow> leg \<Rightarrow> bool" where
  "leg_settled db p l \<longleftrightarrow>
     (case leg_job db l of
        None \<Rightarrow> False
      | Some j \<Rightarrow>
          (case jb_status j of
             JbFailed \<Rightarrow> True
           | JbSuccess \<Rightarrow> (case leg_trade db p l of None \<Rightarrow> False | Some t \<Rightarrow> td_close_time t \<noteq> None)
           | _ \<Rightarrow> False))"

definition plan_settled :: "pipe_db \<Rightarrow> plan \<Rightarrow> bool" where
  "plan_settled db p \<longleftrightarrow> list_all (leg_settled db p) (legs_of db (pl_id p))"

definition settle_plan :: "plan \<Rightarrow> pipe_db \<Rightarrow> string list \<times> pipe_db" where
  "settle_plan p db =
     (if legs_of db (pl_id p) = [] then ([''scanned''], db)
      else if \<not> plan_settled db p then ([''scanned'', ''still_open''], db)
      else (''scanned'' # (if list_ex (\<lambda>q. pl_id q = pl_id p \<and> pl_status q = PlPromoted) (db_plans db) then [''closed''] else []),
            update_plan (pl_id p) (\<lambda>q. if pl_status q = PlPromoted then q\<lparr>pl_status := PlClosed\<rparr> else q) db))"

fun settle_plans :: "plan list \<Rightarrow> pipe_db \<Rightarrow> string list \<times> pipe_db" where
  "settle_plans [] db = ([], db)"
| "settle_plans (p # ps) db =
     (let (ev, db1) = settle_plan p db; (ev', db2) = settle_plans ps db1 in (ev @ ev', db2))"

definition promoted_plans :: "nat \<Rightarrow> (plan \<Rightarrow> bool) \<Rightarrow> pipe_db \<Rightarrow> plan list" where
  "promoted_plans limit P db =
     take limit (sort_key pl_id (filter (\<lambda>p. pl_status p = PlPromoted \<and> P p) (db_plans db)))"

definition resolve_completed_plans :: "nat \<Rightarrow> int option \<Rightarrow> pipe_db \<Rightarrow> string list \<times> pipe_db" where
  "resolve_completed_plans limit account db =
     settle_plans (promoted_plans limit (\<lambda>p. case account of None \<Rightarrow> True | Some a \<Rightarrow> pl_account p = a) db) db"

section \<open>Orders queued before the node was ready\<close>

definition protected_account_ids :: "int set" where
  "protected_account_ids = {1, 18}"

definition recovery_error :: string where
  "recovery_error = ''cancelled: stale pre-activation order '' @ [CHR 0xE2, CHR 0x80, CHR 0x94] @
     '' node had no authorized order worker; never claimed, never dispatched (Node-2 execution-path gap)''"

record reconcile_report =
  rr_scanned :: nat
  rr_candidates :: "(nat \<times> nat list) list"
  rr_skipped :: "(nat \<times> string) list"
  rr_refused :: string
  rr_cancelled :: nat
  rr_closed :: nat

definition unclaimed_order :: "job \<Rightarrow> bool" where
  "unclaimed_order j \<longleftrightarrow>
     jb_status j = JbPending \<and> jb_type j = PlaceOrder \<and> strip (jb_worker j) = '''' \<and> \<not> jb_started j"

definition plan_jobs :: "pipe_db \<Rightarrow> plan \<Rightarrow> job list" where
  "plan_jobs db p = concat (map (\<lambda>l. case leg_job db l of None \<Rightarrow> [] | Some j \<Rightarrow> [j]) (legs_of db (pl_id p)))"

definition stale_verdict :: "pipe_db \<Rightarrow> plan \<Rightarrow> string option" where
  "stale_verdict db p =
     (let legs = legs_of db (pl_id p); jobs = plan_jobs db p in
      if legs = [] \<or> jobs = [] \<or> length jobs \<noteq> length legs then Some ''no_jobs_or_missing_leg_job''
      else if list_ex (\<lambda>j. jb_status j = JbRunning \<or> jb_status j = JbSuccess) jobs \<or> \<not> list_all unclaimed_order jobs
      then Some ''active_or_partially_dispatched''
      else None)"

definition scan_stale :: "int \<Rightarrow> int \<Rightarrow> nat \<Rightarrow> pipe_db \<Rightarrow> plan list" where
  "scan_stale account cutoff limit db = promoted_plans limit (\<lambda>p. pl_account p = account \<and> pl_created_at p \<le> cutoff) db"

definition claimant_refusal :: "queue_env \<Rightarrow> pipe_env \<Rightarrow> worker list \<Rightarrow> int \<Rightarrow> string" where
  "claimant_refusal qe env ws account =
     (case Option.bind (account_by_id env account) (\<lambda>a. node_of (pe_fleet env) (ac_terminal_node a)) of
        None \<Rightarrow> ''''
      | Some n \<Rightarrow>
          if fst (eligible_order_claimant qe (pe_now env) ws n) then ''live_claimant_present''
          else (case qe_hostname qe (en_id n) of
              None \<Rightarrow> ''''
            | Some h \<Rightarrow> if h \<noteq> '''' \<and> list_ex (\<lambda>w. wk_active w \<and> h \<in> set (worker_authorized_nodes (Some w))) ws
                       then ''node_worker_registered'' else ''''))"

definition cancel_plan_pending_jobs :: "(nat \<Rightarrow> bool) \<Rightarrow> nat \<Rightarrow> pipe_db \<Rightarrow> nat \<times> pipe_db" where
  "cancel_plan_pending_jobs locked p db =
     (let (ids, db') = cancel_jobs (cancellable locked db p {PlaceOrder}) recovery_error db in (length ids, db'))"

fun cancel_plans :: "(nat \<Rightarrow> bool) \<Rightarrow> nat list \<Rightarrow> pipe_db \<Rightarrow> nat \<times> pipe_db" where
  "cancel_plans locked [] db = (0, db)"
| "cancel_plans locked (p # ps) db =
     (let (n, db1) = cancel_plan_pending_jobs locked p db; (m, db2) = cancel_plans locked ps db1 in (n + m, db2))"

datatype reconcile_error = ProtectedAccountError int

definition reconcile_stale_preactivation_orders ::
  "queue_env \<Rightarrow> pipe_env \<Rightarrow> worker list \<Rightarrow> (nat \<Rightarrow> bool) \<Rightarrow> int \<Rightarrow> int \<Rightarrow> nat \<Rightarrow> bool \<Rightarrow> pipe_db
     \<Rightarrow> (reconcile_error, reconcile_report, pipe_db) outcome" where
  "reconcile_stale_preactivation_orders qe env ws locked account older_us limit do_apply db =
     (if account \<in> protected_account_ids then (Inl (ProtectedAccountError account), db)
      else
        let plans = scan_stale account (pe_now env - older_us) limit db;
            good = filter (\<lambda>p. stale_verdict db p = None) plans;
            report = \<lparr>rr_scanned = length plans,
                      rr_candidates = map (\<lambda>p. (pl_id p, map jb_id (plan_jobs db p))) good,
                      rr_skipped = concat (map (\<lambda>p. case stale_verdict db p of None \<Rightarrow> [] | Some why \<Rightarrow> [(pl_id p, why)]) plans),
                      rr_refused = '''', rr_cancelled = 0, rr_closed = 0\<rparr>
        in if \<not> do_apply then (Inr report, db)
           else if claimant_refusal qe env ws account \<noteq> ''''
           then (Inr (report\<lparr>rr_refused := claimant_refusal qe env ws account\<rparr>), db)
           else
             let (n, db1) = cancel_plans locked (map pl_id good) db;
                 (ev, db2) = resolve_completed_plans (max limit (length good + 1)) (Some account) db1
             in (Inr (report\<lparr>rr_cancelled := n, rr_closed := count_list ev ''closed''\<rparr>), db2))"

section \<open>What the commands do to the tables\<close>

text \<open>
  One or more steps of the command engine: pending jobs of \<open>C\<close> are failed, new jobs satisfy \<open>N\<close>, planned
  plans of \<open>V\<close> are voided, and legs, trades and the tables of promotion stay.
\<close>

definition kept_by_retiring :: "(job \<Rightarrow> bool) \<Rightarrow> bool" where
  "kept_by_retiring N \<longleftrightarrow> (\<forall>f j. retires f \<longrightarrow> N j \<longrightarrow> N (f j))"

definition jobs_effect :: "(job \<Rightarrow> bool) \<Rightarrow> (job \<Rightarrow> bool) \<Rightarrow> pipe_db \<Rightarrow> pipe_db \<Rightarrow> bool" where
  "jobs_effect C N db db' \<longleftrightarrow>
     (\<exists>f new. retires f \<and> (\<forall>j. f j \<noteq> j \<longrightarrow> C j) \<and> db_jobs db' = map f (db_jobs db) @ new \<and> (\<forall>j \<in> set new. N j))"

definition plans_effect :: "(plan \<Rightarrow> bool) \<Rightarrow> plan_status \<Rightarrow> plan_status \<Rightarrow> pipe_db \<Rightarrow> pipe_db \<Rightarrow> bool" where
  "plans_effect V s s' db db' \<longleftrightarrow>
     (\<exists>v. db_plans db' = map v (db_plans db) \<and>
          (\<forall>p. v p = p \<or> V p \<and> pl_status p = s \<and> v p = p\<lparr>pl_status := s'\<rparr>))"

definition command_run :: "(job \<Rightarrow> bool) \<Rightarrow> (job \<Rightarrow> bool) \<Rightarrow> (plan \<Rightarrow> bool) \<Rightarrow> pipe_db \<Rightarrow> pipe_db \<Rightarrow> bool" where
  "command_run C N V db db' \<longleftrightarrow>
     jobs_effect C N db db' \<and> plans_effect V PlPlanned PlVoided db db' \<and> jobs_advance db db' \<and>
     promotion_frame db db' \<and> db_legs db' = db_legs db"

lemma jobs_effect_same: "db_jobs db' = db_jobs db \<Longrightarrow> jobs_effect C N db db'"
  unfolding jobs_effect_def by (intro exI [of _ "\<lambda>j. j"] exI [of _ "[]"]) (simp add: retires_id)

lemma jobs_effect_new: "db_jobs db' = db_jobs db @ [j] \<Longrightarrow> N j \<Longrightarrow> jobs_effect C N db db'"
  unfolding jobs_effect_def by (intro exI [of _ "\<lambda>j. j"] exI [of _ "[j]"]) (simp add: retires_id)

lemma jobs_effect_trans:
  assumes "jobs_effect C N a b" "jobs_effect C N b c" "kept_by_retiring N"
  shows "jobs_effect C N a c"
proof -
  from assms(1) obtain f n where f: "retires f" "\<forall>j. f j \<noteq> j \<longrightarrow> C j" "db_jobs b = map f (db_jobs a) @ n" "\<forall>j \<in> set n. N j"
    unfolding jobs_effect_def by blast
  from assms(2) obtain g m where g: "retires g" "\<forall>j. g j \<noteq> j \<longrightarrow> C j" "db_jobs c = map g (db_jobs b) @ m" "\<forall>j \<in> set m. N j"
    unfolding jobs_effect_def by blast
  have "(g \<circ> f) j \<noteq> j \<longrightarrow> C j" for j using f(2) g(2) by (metis comp_apply)
  moreover have "\<forall>j \<in> set (map g n @ m). N j" using f(4) g(1,4) assms(3) unfolding kept_by_retiring_def by auto
  ultimately show ?thesis unfolding jobs_effect_def
    by (intro exI [of _ "g \<circ> f"] exI [of _ "map g n @ m"]) (use retires_comp [OF f(1) g(1)] f(3) g(3) in simp)
qed

lemma plans_effect_same: "db_plans db' = db_plans db \<Longrightarrow> plans_effect V s s' db db'"
  unfolding plans_effect_def by (intro exI [of _ "\<lambda>p. p"]) simp

lemma plans_effect_trans:
  assumes "plans_effect V s s' a b" "plans_effect V s s' b c" "s \<noteq> s'"
  shows "plans_effect V s s' a c"
proof -
  from assms(1) obtain v where v: "db_plans b = map v (db_plans a)"
    "\<forall>p. v p = p \<or> V p \<and> pl_status p = s \<and> v p = p\<lparr>pl_status := s'\<rparr>" unfolding plans_effect_def by blast
  from assms(2) obtain w where w: "db_plans c = map w (db_plans b)"
    "\<forall>p. w p = p \<or> V p \<and> pl_status p = s \<and> w p = p\<lparr>pl_status := s'\<rparr>" unfolding plans_effect_def by blast
  have "w (v p) = p \<or> V p \<and> pl_status p = s \<and> w (v p) = p\<lparr>pl_status := s'\<rparr>" for p
  proof (cases "v p = p")
    case True
    then show ?thesis using w(2) by metis
  next
    case False
    then have p: "V p" "pl_status p = s" "v p = p\<lparr>pl_status := s'\<rparr>" using v(2) by metis+
    then have "pl_status (v p) \<noteq> s" using assms(3) by simp
    with p w(2) show ?thesis by metis
  qed
  then show ?thesis unfolding plans_effect_def by (intro exI [of _ "\<lambda>p. w (v p)"]) (simp add: v(1) w(1))
qed

lemma plans_effect_active:
  assumes "plans_effect V s s' db db'" "p \<in> set (db_plans db')" "pl_status p \<noteq> s'"
  shows "p \<in> set (db_plans db)"
proof -
  from assms(1) obtain v where v: "db_plans db' = map v (db_plans db)"
    "\<forall>p. v p = p \<or> V p \<and> pl_status p = s \<and> v p = p\<lparr>pl_status := s'\<rparr>" unfolding plans_effect_def by blast
  from assms(2) v(1) obtain q where q: "q \<in> set (db_plans db)" "p = v q" by auto
  have "pl_status (q\<lparr>pl_status := s'\<rparr>) = s'" by simp
  then have "v q = q" using v(2) assms(3) q(2) by metis
  with q show ?thesis by simp
qed

lemma command_run_trans:
  "command_run C N V a b \<Longrightarrow> command_run C N V b c \<Longrightarrow> kept_by_retiring N \<Longrightarrow> command_run C N V a c"
  unfolding command_run_def
  using jobs_effect_trans [of C N a b c] plans_effect_trans [of V PlPlanned PlVoided a b c]
    jobs_advance_trans [of a b c] promotion_frame_trans [of a b c]
  by simp

lemma jobs_effect_mono:
  "jobs_effect C N a b \<Longrightarrow> (\<And>j. C j \<Longrightarrow> C' j) \<Longrightarrow> (\<And>j. N j \<Longrightarrow> N' j) \<Longrightarrow> jobs_effect C' N' a b"
  unfolding jobs_effect_def by metis

lemma plans_effect_mono: "plans_effect V s s' a b \<Longrightarrow> (\<And>p. V p \<Longrightarrow> V' p) \<Longrightarrow> plans_effect V' s s' a b"
  unfolding plans_effect_def by metis

lemma command_run_mono:
  "command_run C N V a b \<Longrightarrow> (\<And>j. C j \<Longrightarrow> C' j) \<Longrightarrow> (\<And>j. N j \<Longrightarrow> N' j) \<Longrightarrow> (\<And>p. V p \<Longrightarrow> V' p) \<Longrightarrow> command_run C' N' V' a b"
  using jobs_effect_mono [of C N a b C' N'] plans_effect_mono [of V _ _ a b V'] by (simp add: command_run_def)

lemma command_run_quiet:
  "db_jobs db' = db_jobs db \<Longrightarrow> db_plans db' = db_plans db \<Longrightarrow> db_next_job db' = db_next_job db \<Longrightarrow>
   promotion_frame db db' \<Longrightarrow> db_legs db' = db_legs db \<Longrightarrow> command_run C N V db db'"
  by (simp add: command_run_def jobs_effect_same plans_effect_same jobs_advance_same)

lemma command_run_refl [simp]: "command_run C N V db db"
  by (simp add: command_run_quiet)

lemma cancel_jobs_run:
  assumes "\<And>j. P j \<Longrightarrow> C j \<and> jb_status j = JbPending"
  shows "command_run C N V db (snd (cancel_jobs P why db))"
proof -
  let ?f = "\<lambda>j. if P j then cancel_job why j else j" and ?db = "snd (cancel_jobs P why db)"
  have r: "retires ?f" using assms by (simp add: retires_def cancel_job_def)
  have a: "advances ?f" using assms by (simp add: advances_def cancel_job_def status_rank_def)
  have c: "?f j \<noteq> j \<longrightarrow> C j" for j using assms by simp
  have j: "db_jobs ?db = map ?f (db_jobs db)" by (simp add: cancel_jobs_def)
  have "jobs_effect C N db ?db"
    unfolding jobs_effect_def by (intro exI [of _ ?f] exI [of _ "[]"]) (use r c j in simp)
  moreover have "jobs_advance db ?db" by (rule jobs_advance_map [OF a j]) (simp add: cancel_jobs_def)
  ultimately show ?thesis
    by (simp add: command_run_def plans_effect_same promotion_frame_def cancel_jobs_def)
qed

lemma command_job_run:
  assumes "command_job env p ty payload t db = (r, db')"
    and "\<And>j a u. usable_username env (pl_account p) = Some u \<Longrightarrow> account_by_id env (pl_account p) = Some a \<Longrightarrow>
           td_ticket t \<noteq> '''' \<Longrightarrow> jb_type j = ty \<Longrightarrow> jb_account j = ac_id a \<Longrightarrow>
           pinned_payload env ty a (payload u) = Some (jb_payload j) \<Longrightarrow> N j"
  shows "command_run C N V db db'"
proof (cases "\<exists>a u. usable_username env (pl_account p) = Some u \<and> account_by_id env (pl_account p) = Some a \<and> td_ticket t \<noteq> ''''")
  case False
  then have "db' = db" using assms(1) by (auto simp: command_job_def split: option.splits if_splits)
  then show ?thesis by simp
next
  case True
  then obtain a u where au: "usable_username env (pl_account p) = Some u" "account_by_id env (pl_account p) = Some a"
    "td_ticket t \<noteq> ''''" by blast
  obtain r' db1 where c: "create_job env ty a None (payload u) db = (r', db1)" by fastforce
  note cr = create_job_result [OF c]
  have db1: "db' = db1" using assms(1) au c by (auto simp: command_job_def split: sum.splits)
  show ?thesis
  proof (cases r')
    case (Inl e)
    then have "db1 = db" using c by (auto simp: create_job_def Let_def split: option.splits)
    with db1 show ?thesis by simp
  next
    case (Inr j)
    then have "N j" using cr assms(2) [OF au] by simp
    then show ?thesis unfolding command_run_def db1 using cr Inr
      by (auto intro: jobs_effect_new plans_effect_same jobs_advance_new)
  qed
qed

text \<open>A command that is due for a plan: same source, same chat, a reply to the plan's message.\<close>

definition commanded :: "int \<Rightarrow> pipe_db \<Rightarrow> provider_command \<Rightarrow> plan \<Rightarrow> bool" where
  "commanded cutoff db c p \<longleftrightarrow>
     c \<in> set (db_commands db) \<and> command_open c \<and> cutoff \<le> cm_created_at c \<and> cm_provider c \<in> set (command_sources db) \<and>
     p \<in> set (db_plans db) \<and> active_plan_status (pl_status p) \<and> pl_source p = cm_provider c \<and>
     cm_chat_id c \<noteq> '''' \<and> pl_chat_id p = cm_chat_id c \<and> cm_reply_to c \<noteq> '''' \<and> pl_message_id p = cm_reply_to c"

text \<open>The jobs one command may create for its plan.\<close>

definition closes_position :: "pipe_db \<Rightarrow> plan \<Rightarrow> job \<Rightarrow> bool" where
  "closes_position db p j \<longleftrightarrow>
     jb_type j = CloseTrade \<and> jb_account j = pl_account p \<and>
     list_ex (\<lambda>(l, t). map_of (jb_payload j) ''ticket'' = Some (JStr (td_ticket t))) (open_legs db p)"

definition tightens_stop :: "sweep_cfg \<Rightarrow> pipe_db \<Rightarrow> plan \<Rightarrow> job \<Rightarrow> bool" where
  "tightens_stop cfg db p j \<longleftrightarrow>
     jb_type j = ModifyPosition \<and> jb_account j = pl_account p \<and>
     (\<exists>sl. map_of (jb_payload j) ''sl'' = Some (sw_to_float cfg sl) \<and>
        list_ex (\<lambda>(l, t). map_of (jb_payload j) ''ticket'' = Some (JStr (td_ticket t)) \<and>
                          move_allowed db p (Some sl) (l, t) = Some True) (open_legs db p))"

definition job_of_command :: "sweep_cfg \<Rightarrow> pipe_db \<Rightarrow> plan \<Rightarrow> command_type \<Rightarrow> job \<Rightarrow> bool" where
  "job_of_command cfg db p ct j \<longleftrightarrow>
     (if ct \<in> {MoveSlBe, MoveSlPrice} then tightens_stop cfg db p j
      else ct \<in> {CloseAll, CloseLeg, CancelSignal} \<and> closes_position db p j)"

definition cancels_of_command :: "(nat \<Rightarrow> bool) \<Rightarrow> pipe_db \<Rightarrow> plan \<Rightarrow> command_type \<Rightarrow> job \<Rightarrow> bool" where
  "cancels_of_command locked db p ct j \<longleftrightarrow>
     ct \<in> {CloseAll, CancelSignal} \<and> cancellable locked db (pl_id p) order_types j"

definition voids_of_command :: "plan \<Rightarrow> command_type \<Rightarrow> plan \<Rightarrow> bool" where
  "voids_of_command p ct q \<longleftrightarrow> ct = CancelSignal \<and> pl_id q = pl_id p"

lemma account_by_id_eq: "account_by_id env i = Some a \<Longrightarrow> ac_id a = i"
  unfolding account_by_id_def by (auto dest: find_SomeD)

lemma closes_position_kept: "kept_by_retiring (closes_position db p)"
  by (simp add: kept_by_retiring_def closes_position_def retires_def)

lemma tightens_stop_kept: "kept_by_retiring (tightens_stop cfg db p)"
  by (simp add: kept_by_retiring_def tightens_stop_def retires_def)

lemma job_of_command_kept: "kept_by_retiring (job_of_command cfg db p ct)"
  using closes_position_kept tightens_stop_kept unfolding kept_by_retiring_def job_of_command_def by auto

lemma command_job_ticket:
  assumes "pinned_payload env ty a pay = Some pay'" "map_of pay k = Some v" "k \<in> {''ticket'', ''sl''}"
  shows "map_of pay' k = Some v"
proof -
  have "k \<notin> pin_keys" using assms(3) by (auto simp: pin_keys_def)
  then show ?thesis using pinned_payload_keep [OF assms(1)] assms(2) by simp
qed

lemma command_close_run:
  assumes "command_close env p lt db = (r, db')" "lt \<in> set (open_legs db0 p)"
  shows "command_run C (closes_position db0 p) V db db'"
proof (cases "leg_being_closed db (snd lt)")
  case True
  then show ?thesis using assms(1) by (simp add: command_close_def case_prod_beta)
next
  case False
  obtain l t where lt: "lt = (l, t)" by fastforce
  have c: "command_job env p CloseTrade (\<lambda>u. command_close_payload p l t u) t db = (r, db')"
    using assms(1) False by (simp add: command_close_def lt)
  show ?thesis
  proof (rule command_job_run [OF c])
    fix j :: job and a u
    assume a: "account_by_id env (pl_account p) = Some a" "jb_type j = CloseTrade" "jb_account j = ac_id a"
      and pay: "pinned_payload env CloseTrade a (command_close_payload p l t u) = Some (jb_payload j)"
    have "map_of (command_close_payload p l t u) ''ticket'' = Some (JStr (td_ticket t))"
      unfolding command_close_payload_def by simp
    from command_job_ticket [OF pay this] assms(2) a lt show "closes_position db0 p j"
      by (auto simp: closes_position_def account_by_id_eq list_ex_iff)
  qed
qed

lemma close_positions_run:
  assumes "close_positions env p lts r db = (x, db')" "set lts \<subseteq> set (open_legs db0 p)"
  shows "command_run C (closes_position db0 p) V db db'"
  using assms
proof (induction lts arbitrary: r db)
  case (Cons lt lts)
  obtain y db1 where c: "command_close env p lt db = (y, db1)" by fastforce
  have one: "command_run C (closes_position db0 p) V db db1"
    using command_close_run [OF c] Cons.prems(2) by simp
  show ?case
  proof (cases y)
    case (Inl e)
    then show ?thesis using Cons.prems(1) c one by simp
  next
    case (Inr j)
    then have "close_positions env p lts (note_job j r) db1 = (x, db')" using Cons.prems(1) c by simp
    from Cons.IH [OF this] Cons.prems(2) show ?thesis
      using command_run_trans [OF one _ closes_position_kept] by simp
  qed
qed simp

lemma command_modify_run:
  assumes "command_modify cfg env p reason sl (l, t) db = (r, db')" "(l, t) \<in> set (open_legs db0 p)"
    and "move_allowed db0 p (Some sl) (l, t) = Some True"
  shows "command_run C (tightens_stop cfg db0 p) V db db'"
proof -
  have c: "command_job env p ModifyPosition (\<lambda>u. command_modify_payload cfg p l t u sl reason) t db = (r, db')"
    using assms(1) by (simp add: command_modify_def)
  show ?thesis
  proof (rule command_job_run [OF c])
    fix j :: job and a u
    assume a: "account_by_id env (pl_account p) = Some a" "jb_type j = ModifyPosition" "jb_account j = ac_id a"
      and pay: "pinned_payload env ModifyPosition a (command_modify_payload cfg p l t u sl reason) = Some (jb_payload j)"
    have "map_of (command_modify_payload cfg p l t u sl reason) ''ticket'' = Some (JStr (td_ticket t))"
      "map_of (command_modify_payload cfg p l t u sl reason) ''sl'' = Some (sw_to_float cfg sl)"
      unfolding command_modify_payload_def by simp_all
    from this [THEN command_job_ticket [OF pay]] assms(2,3) a show "tightens_stop cfg db0 p j"
      by (auto simp: tightens_stop_def account_by_id_eq list_ex_iff)
  qed
qed

lemma move_allowed_frame:
  assumes "db_legs db' = db_legs db"
  shows "move_allowed db' p sl lt = move_allowed db p sl lt"
proof -
  have "legs_of db' = legs_of db" using assms by (intro ext) (simp add: legs_of_def)
  then show ?thesis unfolding move_allowed_def risk_baseline_sl_def locked_in_sl_def by (simp only:)
qed

lemma open_legs_frame:
  assumes "db_legs db' = db_legs db" "promotion_frame db db'"
  shows "open_legs db' p = open_legs db p"
  using assms by (simp add: open_legs_def leg_trade_frame legs_of_def)

lemma move_stops_run:
  assumes "move_stops cfg env p reason target lts r db = (x, db')" "set lts \<subseteq> set (open_legs db0 p)"
    and "db_legs db = db_legs db0"
  shows "command_run C (tightens_stop cfg db0 p) V db db'"
  using assms
proof (induction cfg env p reason target lts r db rule: move_stops.induct)
  case (2 cfg env p reason target l t lts r db)
  show ?case
  proof (cases "move_allowed db p (target t) (l, t) = Some True \<and> target t \<noteq> None")
    case False
    then show ?thesis using 2
      by (auto split: option.splits bool.splits)
  next
    case True
    then obtain sl where sl: "target t = Some sl" "move_allowed db p (Some sl) (l, t) = Some True" by auto
    have al: "move_allowed db0 p (Some sl) (l, t) = Some True"
      using sl(2) move_allowed_frame [OF "2.prems"(3)] by simp
    obtain y db1 where c: "command_modify cfg env p reason sl (l, t) db = (y, db1)" by fastforce
    have one: "command_run C (tightens_stop cfg db0 p) V db db1"
      using command_modify_run [OF c _ al] "2.prems"(2) by simp
    then have legs: "db_legs db1 = db_legs db0" using "2.prems"(3) by (simp add: command_run_def)
    show ?thesis
    proof (cases y)
      case (Inl e)
      then show ?thesis using "2.prems"(1) c one sl by simp
    next
      case (Inr j)
      then have r: "move_stops cfg env p reason target lts (note_job j r) db1 = (x, db')"
        using "2.prems"(1) c sl by simp
      have "command_run C (tightens_stop cfg db0 p) V db1 db'"
        using "2.IH" c Inr sl r "2.prems"(2) legs by simp
      then show ?thesis using command_run_trans [OF one _ tightens_stop_kept] by simp
    qed
  qed
qed simp

lemma flatten_plan_run:
  assumes "flatten_plan locked env p db = (r, db')" "ct \<in> {CloseAll, CancelSignal}"
  shows "command_run (cancels_of_command locked db p ct) (job_of_command cfg db p ct) V db db'"
proof -
  let ?C = "cancels_of_command locked db p ct" and ?N = "closes_position db p"
  obtain ids db1 where c: "cancel_pending_order_jobs locked (pl_id p) db = (ids, db1)" by fastforce
  have "command_run ?C ?N V db (snd (cancel_pending_order_jobs locked (pl_id p) db))"
    unfolding cancel_pending_order_jobs_def
    by (rule cancel_jobs_run) (use assms(2) in \<open>auto simp: cancels_of_command_def cancellable_def\<close>)
  then have one: "command_run ?C ?N V db db1" using c by simp
  then have ol: "open_legs db1 p = open_legs db p" by (intro open_legs_frame) (simp_all add: command_run_def)
  obtain y db2 where k: "close_positions env p (open_legs db1 p) (no_result\<lparr>ar_cancelled := ids\<rparr>) db1 = (y, db2)"
    by fastforce
  have "command_run ?C ?N V db1 db2" by (rule close_positions_run [OF k]) (simp add: ol)
  moreover have "db' = db2" using assms(1) c k by (cases y) (auto simp: flatten_plan_def)
  ultimately have "command_run ?C ?N V db db'" using command_run_trans [OF one _ closes_position_kept] by simp
  then show ?thesis by (rule command_run_mono) (use assms(2) in \<open>auto simp: job_of_command_def\<close>)
qed

lemma close_leg_run:
  assumes "close_leg env p n db = (r, db')"
  shows "command_run C (job_of_command cfg db p CloseLeg) V db db'"
proof -
  obtain y db1 where k: "close_positions env p (filter (\<lambda>lt. int (lg_index (fst lt)) = n) (open_legs db p)) no_result db = (y, db1)"
    by fastforce
  have "command_run C (closes_position db p) V db db1" by (rule close_positions_run [OF k]) auto
  moreover have "db' = db1" using assms k by (cases y) (auto simp: close_leg_def)
  ultimately have "command_run C (closes_position db p) V db db'" by simp
  then show ?thesis by (rule command_run_mono) (auto simp: job_of_command_def)
qed

lemma move_command_run:
  assumes "applied_outcome (move_stops cfg env p reason target (open_legs db p) no_result db) = (r, db')"
    "ct \<in> {MoveSlBe, MoveSlPrice}"
  shows "command_run C (job_of_command cfg db p ct) V db db'"
proof -
  obtain y db1 where m: "move_stops cfg env p reason target (open_legs db p) no_result db = (y, db1)" by fastforce
  have "db' = db1" using assms(1) m by (cases y) (auto simp: applied_outcome_def)
  then have "command_run C (tightens_stop cfg db p) V db db'" using move_stops_run [OF m subset_refl refl] by simp
  then show ?thesis by (rule command_run_mono) (use assms(2) in \<open>auto simp: job_of_command_def\<close>)
qed

lemma void_plan_run:
  "command_run C N (voids_of_command p CancelSignal) db
     (update_plan (pl_id p) (\<lambda>q. if pl_status q = PlPlanned then q\<lparr>pl_status := PlVoided\<rparr> else q) db)" (is "command_run C N ?V db ?db'")
proof -
  have "plans_effect ?V PlPlanned PlVoided db ?db'"
    unfolding plans_effect_def
    by (intro exI [of _ "\<lambda>q. if pl_id q = pl_id p then (if pl_status q = PlPlanned then q\<lparr>pl_status := PlVoided\<rparr> else q) else q"])
      (simp add: update_plan_def voids_of_command_def)
  then show ?thesis
    by (simp add: command_run_def update_plan_def promotion_frame_def jobs_effect_same jobs_advance_same)
qed

lemma apply_command_run:
  assumes "apply_command cfg locked env c p db = (r, db')"
  shows "command_run (cancels_of_command locked db p (cm_type c)) (job_of_command cfg db p (cm_type c))
           (voids_of_command p (cm_type c)) db db'"
proof (cases "has_unresolved_fills db p")
  case True
  then show ?thesis using assms by (simp add: apply_command_def)
next
  case False
  show ?thesis
  proof (cases "cm_type c")
    case MoveSlBe
    then show ?thesis using assms False by (auto simp: apply_command_def intro: move_command_run)
  next
    case MoveSlPrice
    then show ?thesis using assms False
      by (auto simp: apply_command_def intro: move_command_run split: option.splits bool.splits)
  next
    case CloseAll
    then show ?thesis using assms False by (auto simp: apply_command_def intro: flatten_plan_run)
  next
    case CloseLeg
    then show ?thesis using assms False by (auto simp: apply_command_def intro: close_leg_run split: sum.splits)
  next
    case CancelSignal
    then show ?thesis using assms False void_plan_run
      by (auto simp: apply_command_def intro: flatten_plan_run split: if_splits)
  qed (use assms False in \<open>simp_all add: apply_command_def\<close>)
qed

text \<open>The same over a whole pass, against the tables before it.\<close>

definition pass_cancels :: "command_cfg \<Rightarrow> int \<Rightarrow> pipe_db \<Rightarrow> job \<Rightarrow> bool" where
  "pass_cancels cc cutoff db j \<longleftrightarrow> (\<exists>c p. commanded cutoff db c p \<and> cancels_of_command (cc_job_held cc) db p (cm_type c) j)"

definition pass_creates :: "command_cfg \<Rightarrow> int \<Rightarrow> pipe_db \<Rightarrow> job \<Rightarrow> bool" where
  "pass_creates cc cutoff db j \<longleftrightarrow> (\<exists>c p. commanded cutoff db c p \<and> job_of_command (cc_sweep cc) db p (cm_type c) j)"

definition pass_voids :: "int \<Rightarrow> pipe_db \<Rightarrow> plan \<Rightarrow> bool" where
  "pass_voids cutoff db q \<longleftrightarrow> (\<exists>c p. commanded cutoff db c p \<and> voids_of_command p (cm_type c) q)"

abbreviation pass_run :: "command_cfg \<Rightarrow> int \<Rightarrow> pipe_db \<Rightarrow> pipe_db \<Rightarrow> pipe_db \<Rightarrow> bool" where
  "pass_run cc cutoff db0 \<equiv> command_run (pass_cancels cc cutoff db0) (pass_creates cc cutoff db0) (pass_voids cutoff db0)"

text \<open>The tables after some commands, as far as the next one reads them.\<close>

definition later_commands :: "pipe_db \<Rightarrow> pipe_db \<Rightarrow> bool" where
  "later_commands db db' \<longleftrightarrow>
     (\<forall>c \<in> set (db_commands db'). command_open c \<longrightarrow> c \<in> set (db_commands db)) \<and>
     (\<forall>p \<in> set (db_plans db'). active_plan_status (pl_status p) \<longrightarrow> p \<in> set (db_plans db)) \<and>
     db_legs db' = db_legs db \<and> promotion_frame db db'"

lemma later_commands_refl [simp]: "later_commands db db"
  by (simp add: later_commands_def)

lemma later_commands_trans: "later_commands a b \<Longrightarrow> later_commands b c \<Longrightarrow> later_commands a c"
  unfolding later_commands_def using promotion_frame_trans by metis

lemma commanded_later:
  assumes "later_commands db0 db" "commanded cutoff db c p"
  shows "commanded cutoff db0 c p"
proof -
  have "command_sources db = command_sources db0"
    using assms(1) by (simp add: later_commands_def promotion_frame_def command_sources_def)
  then show ?thesis using assms unfolding commanded_def later_commands_def by auto
qed

lemma of_command_later:
  assumes "later_commands db0 db"
  shows "job_of_command cfg db p ct = job_of_command cfg db0 p ct"
    and "cancels_of_command locked db p ct = cancels_of_command locked db0 p ct"
proof -
  have f: "db_legs db = db_legs db0" "promotion_frame db0 db" using assms by (simp_all add: later_commands_def)
  have "closes_position db p = closes_position db0 p" "tightens_stop cfg db p = tightens_stop cfg db0 p"
    by (intro ext; simp add: closes_position_def tightens_stop_def open_legs_frame [OF f] move_allowed_frame [OF f(1)])+
  then show "job_of_command cfg db p ct = job_of_command cfg db0 p ct"
    by (intro ext) (simp add: job_of_command_def)
  show "cancels_of_command locked db p ct = cancels_of_command locked db0 p ct"
    by (intro ext) (simp add: cancels_of_command_def cancellable_def f)
qed

lemma pass_creates_kept: "kept_by_retiring (pass_creates cc cutoff db)"
  unfolding pass_creates_def using job_of_command_kept unfolding kept_by_retiring_def by metis

lemma later_of_run:
  assumes "command_run C N V db db'" "\<forall>c \<in> set (db_commands db'). command_open c \<longrightarrow> c \<in> set (db_commands db)"
  shows "later_commands db db'"
proof -
  have "p \<in> set (db_plans db)" if "p \<in> set (db_plans db')" "active_plan_status (pl_status p)" for p
    using assms(1) that plans_effect_active by (auto simp: command_run_def active_plan_status_def)
  with assms show ?thesis by (simp add: later_commands_def command_run_def)
qed

lemma open_after_update:
  assumes "\<And>c. \<not> command_open (f c)" "c \<in> set (db_commands (update_command i f db))" "command_open c"
  shows "c \<in> set (db_commands db)"
  using assms by (auto simp: update_command_def split: if_splits)

lemma finalize_command_run:
  "command_run C N V db (finalize_command i s result db)"
  by (rule command_run_quiet) (simp_all add: finalize_command_def update_command_def promotion_frame_def)

lemma finalize_command_later: "later_commands db (finalize_command i s result db)"
  by (rule later_of_run [OF finalize_command_run])
    (auto simp: finalize_command_def command_open_def dest!: open_after_update [rotated])

lemma raise_alert_run: "command_run C N V db (raise_alert k s db)" "later_commands db (raise_alert k s db)"
  by (rule command_run_quiet; simp add: raise_alert_def promotion_frame_def)
    (simp add: later_commands_def raise_alert_def promotion_frame_def)

lemma cancel_jobs_commands: "db_commands (snd (cancel_jobs P why db)) = db_commands db"
  by (simp add: cancel_jobs_def)

lemma command_job_commands: "db_commands (snd (command_job env p ty payload t db)) = db_commands db"
  by (auto simp: command_job_def create_job_def Let_def split: option.splits)

lemma command_close_commands: "db_commands (snd (command_close env p lt db)) = db_commands db"
  by (simp add: command_close_def command_job_commands split: prod.split)

lemma command_modify_commands: "db_commands (snd (command_modify cfg env p why sl lt db)) = db_commands db"
  by (simp add: command_modify_def command_job_commands split: prod.split)

lemma close_positions_commands: "db_commands (snd (close_positions env p lts r db)) = db_commands db"
proof (induction lts arbitrary: r db)
  case (Cons lt lts)
  obtain y db1 where c: "command_close env p lt db = (y, db1)" by fastforce
  have "db_commands db1 = db_commands db" using command_close_commands [of env p lt db] c by simp
  with Cons.IH c show ?case by (cases y) simp_all
qed simp

lemma move_stops_commands: "db_commands (snd (move_stops cfg env p why target lts r db)) = db_commands db"
proof (induction lts arbitrary: r db)
  case (Cons lt lts)
  obtain l t where lt: "lt = (l, t)" by fastforce
  have *: "db_commands (snd (case command_modify cfg env p why sl (l, t) db of
             (Inl e, db') \<Rightarrow> (Inl e, db')
           | (Inr j, db') \<Rightarrow> move_stops cfg env p why target lts (note_job j r) db')) = db_commands db" for sl
  proof -
    obtain y db1 where c: "command_modify cfg env p why sl (l, t) db = (y, db1)" by fastforce
    have "db_commands db1 = db_commands db" using command_modify_commands [of cfg env p why sl "(l, t)" db] c by simp
    with Cons.IH c show ?thesis by (cases y) simp_all
  qed
  show ?case using * Cons.IH by (simp add: lt split: option.split bool.split)
qed simp

lemma flatten_plan_commands: "db_commands (snd (flatten_plan locked env p db)) = db_commands db"
proof -
  obtain ids db1 where c: "cancel_pending_order_jobs locked (pl_id p) db = (ids, db1)" by fastforce
  have 1: "db_commands db1 = db_commands db"
    using c cancel_jobs_commands [of _ _ db] by (metis cancel_pending_order_jobs_def snd_conv)
  obtain y db2 where k: "close_positions env p (open_legs db1 p) (no_result\<lparr>ar_cancelled := ids\<rparr>) db1 = (y, db2)"
    by fastforce
  have "db_commands db2 = db_commands db1" using close_positions_commands k by (metis snd_conv)
  with 1 c k show ?thesis by (cases y) (simp_all add: flatten_plan_def)
qed

lemma close_leg_commands: "db_commands (snd (close_leg env p n db)) = db_commands db"
proof -
  obtain y db1 where k: "close_positions env p (filter (\<lambda>lt. int (lg_index (fst lt)) = n) (open_legs db p)) no_result db = (y, db1)"
    by fastforce
  have "db_commands db1 = db_commands db" using close_positions_commands k by (metis snd_conv)
  with k show ?thesis by (cases y) (simp_all add: close_leg_def)
qed

lemma applied_outcome_snd: "snd (applied_outcome x) = snd x"
  by (auto simp: applied_outcome_def split: prod.split sum.split)

lemma apply_command_commands: "db_commands (snd (apply_command cfg locked env c p db)) = db_commands db"
  by (simp add: apply_command_def applied_outcome_snd move_stops_commands flatten_plan_commands close_leg_commands
      update_plan_def split: command_type.split option.split bool.split sum.split)

lemma resolve_target_planD:
  assumes "resolve_target_plan db c = (Some p, why)"
  shows "p \<in> set (db_plans db) \<and> active_plan_status (pl_status p) \<and> pl_source p = cm_provider c \<and>
         cm_chat_id c \<noteq> '''' \<and> pl_chat_id p = cm_chat_id c \<and> cm_reply_to c \<noteq> '''' \<and> pl_message_id p = cm_reply_to c"
proof -
  let ?P = "\<lambda>p. pl_source p = cm_provider c \<and> pl_chat_id p = cm_chat_id c \<and> pl_message_id p = cm_reply_to c \<and>
                active_plan_status (pl_status p)"
  have f: "filter ?P (db_plans db) = [p]" "cm_chat_id c \<noteq> ''''" "cm_reply_to c \<noteq> ''''"
    using assms by (auto simp: resolve_target_plan_def split: if_splits list.splits)
  have "p \<in> set (filter ?P (db_plans db))" unfolding f(1) by simp
  then have "p \<in> set (db_plans db) \<and> ?P p" by (simp only: set_filter mem_Collect_eq)
  with f(2,3) show ?thesis by simp
qed

lemma process_command_run:
  assumes "process_command cc env (command_sources db0) i db = (ev, db')" "later_commands db0 db"
    and fresh: "\<forall>c \<in> set (db_commands db0). command_open c \<longrightarrow> cutoff \<le> cm_created_at c"
  shows "pass_run cc cutoff db0 db db' \<and> later_commands db0 db'"
proof (cases "find (\<lambda>c. cm_id c = i \<and> command_open c) (db_commands db)")
  case None
  then show ?thesis using assms by (simp add: process_command_def)
next
  case (Some c)
  then have c: "c \<in> set (db_commands db)" "command_open c" by (auto dest: find_SomeD)
  show ?thesis
  proof (cases "cc_command_held cc i \<or> cm_provider c \<notin> set (command_sources db0)")
    case True
    then have "db' = db" using assms(1) Some by (cases "cc_command_held cc i") (simp_all add: process_command_def)
    then show ?thesis using assms(2) by simp
  next
    case False
    obtain mp why where r: "resolve_target_plan db c = (mp, why)" by fastforce
    show ?thesis
    proof (cases mp)
      case None
      then have db': "db' = raise_alert (command_alert_key c) ''WARN''
          (finalize_command i (if why = ''ambiguous_reply'' then CmAmbiguous else CmRejected) [(''reason'', JStr why)] db)"
        using assms(1) Some False r by (simp add: process_command_def Let_def)
      show ?thesis unfolding db'
        using command_run_trans [OF finalize_command_run raise_alert_run(1) pass_creates_kept]
          later_commands_trans [OF assms(2) later_commands_trans [OF finalize_command_later raise_alert_run(2)]] by blast
    next
      case (Some p)
      note pl = resolve_target_planD [OF r [unfolded Some]]
      obtain x db1 where a: "apply_command (cc_sweep cc) (cc_job_held cc) env c p db = (x, db1)" by fastforce
      have db': "db' = db1 \<or> (\<exists>s res. db' = finalize_command i s res db1)"
        using assms(1) \<open>find _ _ = Some c\<close> False r Some pl a
        by (auto simp: process_command_def split: sum.splits apply_response.splits)
      have mem: "c \<in> set (db_commands db0)" "p \<in> set (db_plans db0)" "cutoff \<le> cm_created_at c"
        using assms(2) c pl fresh by (auto simp: later_commands_def)
      have cm: "commanded cutoff db0 c p" using mem c pl False by (simp add: commanded_def)
      have one: "pass_run cc cutoff db0 db db1"
        using apply_command_run [OF a]
        by (rule command_run_mono)
          (use cm of_command_later [OF assms(2)] in \<open>auto simp: pass_cancels_def pass_creates_def pass_voids_def\<close>)
      have "db_commands db1 = db_commands db" using apply_command_commands a by (metis snd_conv)
      then have l1: "later_commands db0 db1" using later_commands_trans [OF assms(2) later_of_run [OF one]] by simp
      from db' show ?thesis
      proof
        assume "\<exists>s res. db' = finalize_command i s res db1"
        then obtain s res where f: "db' = finalize_command i s res db1" by blast
        show ?thesis unfolding f
          using command_run_trans [OF one finalize_command_run pass_creates_kept]
            later_commands_trans [OF l1 finalize_command_later] by blast
      qed (use one l1 in simp)
    qed
  qed
qed

lemma process_commands_run:
  assumes "process_commands cc env (command_sources db0) is db = (ev, db')" "later_commands db0 db"
    and "\<forall>c \<in> set (db_commands db0). command_open c \<longrightarrow> cutoff \<le> cm_created_at c"
  shows "pass_run cc cutoff db0 db db' \<and> later_commands db0 db'"
  using assms(1,2)
proof (induction "is" arbitrary: db ev)
  case (Cons i "is")
  obtain ev1 db1 where c: "process_command cc env (command_sources db0) i db = (ev1, db1)" by fastforce
  from Cons.prems(1) c obtain ev2 where rest: "process_commands cc env (command_sources db0) is db1 = (ev2, db')"
    by (auto split: prod.splits)
  have one: "pass_run cc cutoff db0 db db1" "later_commands db0 db1"
    using process_command_run [OF c Cons.prems(2) assms(3)] by auto
  from Cons.IH [OF rest one(2)] command_run_trans [OF one(1) _ pass_creates_kept] show ?case by blast
qed simp

lemma pass_later:
  assumes "later_commands db0 db" "pass_run cc cutoff db db db'"
  shows "pass_run cc cutoff db0 db db'"
  using assms(2)
  by (rule command_run_mono)
    (unfold pass_cancels_def pass_creates_def pass_voids_def of_command_later [OF assms(1)],
      (blast intro: commanded_later [OF assms(1)])+)

lemma apply_provider_commands_run:
  assumes "apply_provider_commands cc env db = (ev, db')"
  shows "pass_run cc (pe_now env - cc_max_age_us cc) db db db'"
proof (cases "cc_enabled cc")
  case False
  then show ?thesis using assms by (simp add: apply_provider_commands_def)
next
  case True
  let ?cut = "pe_now env - cc_max_age_us cc"
  obtain n db1 where e: "expire_commands ?cut db = (n, db1)" by fastforce
  from assms True e obtain ev2 where p:
      "process_commands cc env (command_sources db1) (due_commands ?cut (cc_limit cc) db1) db1 = (ev2, db')"
    by (auto simp: apply_provider_commands_def Let_def split: prod.splits)
  have db1: "db1 = db\<lparr>db_commands := db_commands db1\<rparr>" using e by (auto simp: expire_commands_def Let_def)
  have fresh: "\<forall>c \<in> set (db_commands db1). command_open c \<longrightarrow> ?cut \<le> cm_created_at c \<and> c \<in> set (db_commands db)"
    using e by (auto simp: expire_commands_def Let_def command_open_def)
  have q: "command_run C N V db db1" for C N V
    by (subst db1, rule command_run_quiet) (simp_all add: promotion_frame_def)
  have l: "later_commands db db1" by (rule later_of_run [OF q]) (use fresh in blast)
  have "pass_run cc ?cut db1 db1 db'" using process_commands_run [OF p later_commands_refl] fresh by blast
  then have "pass_run cc ?cut db db1 db'" by (rule pass_later [OF l])
  then show ?thesis using command_run_trans [OF q _ pass_creates_kept] by blast
qed

text \<open>The rows of the command table: open ones may be answered, the others stay.\<close>

definition answered :: "provider_command \<Rightarrow> provider_command \<Rightarrow> bool" where
  "answered c c' \<longleftrightarrow>
     cm_id c' = cm_id c \<and> (c' = c \<or> command_open c \<and> cm_processed c' \<and> cm_status c' \<noteq> CmPending)"

lemma answered_trans: "answered a b \<Longrightarrow> answered b c \<Longrightarrow> answered a c"
  by (auto simp: answered_def command_open_def)

lemma all_answered_refl: "list_all2 answered cs cs"
  by (simp add: list.rel_refl answered_def)

lemma all_answered_trans: "list_all2 answered as bs \<Longrightarrow> list_all2 answered bs cs \<Longrightarrow> list_all2 answered as cs"
  using list_all2_trans [of answered answered answered as bs cs] answered_trans by metis

lemma answered_ids: "list_all2 answered as bs \<Longrightarrow> map cm_id bs = map cm_id as"
  by (induction rule: list_all2_induct) (simp_all add: answered_def)

lemma finalize_answers:
  assumes "find (\<lambda>c. cm_id c = i \<and> command_open c) cs = Some c" "distinct (map cm_id cs)"
    "cm_processed (f c) \<and> cm_status (f c) \<noteq> CmPending \<and> cm_id (f c) = cm_id c"
  shows "list_all2 answered cs (map (\<lambda>x. if cm_id x = i then f x else x) cs)"
proof -
  have c: "c \<in> set cs" "cm_id c = i" "command_open c" using assms(1) by (auto dest: find_SomeD)
  have "answered x (if cm_id x = i then f x else x)" if "x \<in> set cs" for x
  proof (cases "cm_id x = i")
    case True
    then have "x = c" using assms(2) that c(1,2) by (metis distinct_map_eq)
    then show ?thesis using True assms(3) c by (simp add: answered_def)
  qed (simp add: answered_def)
  then show ?thesis by (simp add: list.rel_map list_all2_same)
qed

lemma process_command_answers:
  assumes "process_command cc env srcs i db = (ev, db')" "distinct (map cm_id (db_commands db))"
  shows "list_all2 answered (db_commands db) (db_commands db')"
proof (cases "find (\<lambda>c. cm_id c = i \<and> command_open c) (db_commands db)")
  case None
  then show ?thesis using assms(1) by (simp add: process_command_def all_answered_refl)
next
  case (Some c)
  have fin: "list_all2 answered (db_commands db) (db_commands (finalize_command i s res db1))"
    if "db_commands db1 = db_commands db" "s \<noteq> CmPending" for s res db1
    unfolding finalize_command_def update_command_def
    using finalize_answers [OF Some assms(2), of "\<lambda>c. c\<lparr>cm_status := s, cm_processed := True, cm_result := res\<rparr>"] that
    by simp
  have al: "db_commands (raise_alert k s d) = db_commands d" for k s d by (simp add: raise_alert_def)
  consider "db' = db" | p x db1 where "apply_command (cc_sweep cc) (cc_job_held cc) env c p db = (x, db1)"
      "db' = db1 \<or> (\<exists>s res. s \<noteq> CmPending \<and> db' = finalize_command i s res db1)"
    | k s s' res where "s' \<noteq> CmPending" "db' = raise_alert k s (finalize_command i s' res db)"
    | s res where "s \<noteq> CmPending" "db' = finalize_command i s res db"
  proof (cases "cc_command_held cc i \<or> cm_provider c \<notin> set srcs")
    case True
    then have "db' = db" using assms(1) Some by (cases "cc_command_held cc i") (simp_all add: process_command_def)
    then show ?thesis by (rule that(1))
  next
    case False
    obtain mp why where r: "resolve_target_plan db c = (mp, why)" by fastforce
    show ?thesis
    proof (cases mp)
      case None
      then show ?thesis using assms(1) Some False r that(3) by (auto simp: process_command_def Let_def split: if_splits)
    next
      case (Some p)
      obtain x db1 where a: "apply_command (cc_sweep cc) (cc_job_held cc) env c p db = (x, db1)" by fastforce
      have "db' = db1 \<or> (\<exists>s res. s \<noteq> CmPending \<and> db' = finalize_command i s res db1)"
        using assms(1) \<open>find _ _ = Some c\<close> False r Some resolve_target_planD [OF r [unfolded Some]] a
        by (auto simp: process_command_def split: sum.splits apply_response.splits)
      with a show ?thesis by (rule that(2))
    qed
  qed
  then show ?thesis
  proof cases
    case 2
    have "db_commands db1 = db_commands db" using apply_command_commands 2(1) by (metis snd_conv)
    with 2(2) fin show ?thesis by (auto simp: all_answered_refl)
  qed (use fin al in \<open>auto simp: all_answered_refl\<close>)
qed

lemma process_commands_answers:
  "process_commands cc env srcs is db = (ev, db') \<Longrightarrow> distinct (map cm_id (db_commands db)) \<Longrightarrow>
   list_all2 answered (db_commands db) (db_commands db')"
proof (induction "is" arbitrary: db ev)
  case (Cons i "is")
  obtain ev1 db1 where c: "process_command cc env srcs i db = (ev1, db1)" by fastforce
  from Cons.prems(1) c obtain ev2 where rest: "process_commands cc env srcs is db1 = (ev2, db')"
    by (auto split: prod.splits)
  have one: "list_all2 answered (db_commands db) (db_commands db1)"
    by (rule process_command_answers [OF c Cons.prems(2)])
  have "distinct (map cm_id (db_commands db1))" using Cons.prems(2) answered_ids [OF one] by simp
  from all_answered_trans [OF one Cons.IH [OF rest this]] show ?case .
qed (simp add: all_answered_refl)

section \<open>Settlement, exactly\<close>

definition slot_settles :: "nat \<Rightarrow> int option \<Rightarrow> pipe_db \<Rightarrow> plan \<Rightarrow> bool" where
  "slot_settles limit account db p \<longleftrightarrow>
     p \<in> set (promoted_plans limit (\<lambda>p. case account of None \<Rightarrow> True | Some a \<Rightarrow> pl_account p = a) db) \<and>
     legs_of db (pl_id p) \<noteq> [] \<and> plan_settled db p"

definition close_plan :: "plan \<Rightarrow> plan" where
  "close_plan p = p\<lparr>pl_status := PlClosed\<rparr>"

lemma plan_settled_frame:
  "plan_settled (db\<lparr>db_plans := ps\<rparr>) p = plan_settled db p" "legs_of (db\<lparr>db_plans := ps\<rparr>) i = legs_of db i"
proof -
  have l: "leg_trade (db\<lparr>db_plans := ps\<rparr>) = leg_trade db" by (intro ext) (simp add: leg_trade_def)
  have f: "find_job (db\<lparr>db_plans := ps\<rparr>) = find_job db" by (intro ext) (simp add: find_job_def)
  have "leg_settled (db\<lparr>db_plans := ps\<rparr>) p = leg_settled db p"
    by (intro ext) (simp only: leg_settled_def leg_job_def f l)
  then show "plan_settled (db\<lparr>db_plans := ps\<rparr>) p = plan_settled db p" "legs_of (db\<lparr>db_plans := ps\<rparr>) i = legs_of db i"
    by (simp_all add: plan_settled_def legs_of_def)
qed

lemma settle_plan_eq:
  assumes "distinct (map pl_id (db_plans db))" "p \<in> set (db_plans db)" "pl_status p = PlPromoted"
  shows "snd (settle_plan p db) =
     db\<lparr>db_plans := map (\<lambda>q. if q = p \<and> legs_of db (pl_id p) \<noteq> [] \<and> plan_settled db p then close_plan q else q) (db_plans db)\<rparr>"
proof -
  have "map (\<lambda>q. if pl_id q = pl_id p then if pl_status q = PlPromoted then q\<lparr>pl_status := PlClosed\<rparr> else q else q) (db_plans db)
        = map (\<lambda>q. if q = p then close_plan q else q) (db_plans db)"
    using assms by (auto simp: close_plan_def dest: distinct_map_eq)
  then show ?thesis by (simp add: settle_plan_def update_plan_def)
qed

lemma settle_plans_eq:
  assumes "settle_plans ps db = (ev, db')" "distinct (map pl_id (db_plans db))" "distinct ps"
    and "\<forall>p \<in> set ps. p \<in> set (db_plans db) \<and> pl_status p = PlPromoted"
  shows "db' = db\<lparr>db_plans := map (\<lambda>q. if q \<in> set ps \<and> legs_of db (pl_id q) \<noteq> [] \<and> plan_settled db q
                                     then close_plan q else q) (db_plans db)\<rparr>"
  using assms
proof (induction ps arbitrary: db ev)
  case (Cons p ps)
  obtain ev1 db1 where c: "settle_plan p db = (ev1, db1)" by fastforce
  from Cons.prems(1) c obtain ev2 where rest: "settle_plans ps db1 = (ev2, db')" by (auto split: prod.splits)
  let ?B = "\<lambda>q. legs_of db (pl_id q) \<noteq> [] \<and> plan_settled db q"
  have db1: "db1 = db\<lparr>db_plans := map (\<lambda>q. if q = p \<and> ?B p then close_plan q else q) (db_plans db)\<rparr>"
  proof -
    have "p \<in> set (db_plans db)" "pl_status p = PlPromoted" using Cons.prems(4) by auto
    from settle_plan_eq [OF Cons.prems(2) this] show ?thesis unfolding c snd_conv .
  qed
  let ?f = "\<lambda>q. if q = p \<and> ?B p then close_plan q else q"
  have plans: "db_plans db1 = map ?f (db_plans db)" by (simp add: db1)
  have ids: "map pl_id (db_plans db1) = map pl_id (db_plans db)" by (simp add: plans close_plan_def)
  have np: "p \<notin> set ps" using Cons.prems(3) by simp
  have "\<forall>x \<in> set ps. x \<in> set (db_plans db1) \<and> pl_status x = PlPromoted"
  proof
    fix x assume x: "x \<in> set ps"
    with Cons.prems(4) have "x \<in> set (db_plans db)" "pl_status x = PlPromoted" by auto
    moreover have "x \<noteq> p" using x np by blast
    ultimately show "x \<in> set (db_plans db1) \<and> pl_status x = PlPromoted"
      unfolding plans set_map by (intro conjI image_eqI [of _ _ x]) simp_all
  qed
  note later = this
  have d: "distinct (map pl_id (db_plans db1))" "distinct ps" using ids Cons.prems(2,3) by simp_all
  have "db' = db1\<lparr>db_plans :=
      map (\<lambda>q. if q \<in> set ps \<and> legs_of db1 (pl_id q) \<noteq> [] \<and> plan_settled db1 q then close_plan q else q) (db_plans db1)\<rparr>"
    by (rule Cons.IH [OF rest d later])
  also have "\<dots> = db\<lparr>db_plans := map (\<lambda>q. if q \<in> set (p # ps) \<and> ?B q then close_plan q else q) (db_plans db)\<rparr>"
  proof -
    have cp: "close_plan p \<notin> set ps" using Cons.prems(4) by (auto simp: close_plan_def)
    have B: "(legs_of db1 (pl_id q) \<noteq> [] \<and> plan_settled db1 q) = ?B q" for q by (simp add: db1 plan_settled_frame)
    let ?g = "\<lambda>q. if q \<in> set ps \<and> ?B q then close_plan q else q"

    have "?g (?f q) = (if q \<in> set (p # ps) \<and> ?B q then close_plan q else q)" for q
    proof (cases "q = p")
      case True
      then show ?thesis using np cp by (cases "?B p") (simp_all only: if_True if_False simp_thms, simp_all)
    next
      case False
      then show ?thesis by simp
    qed
    then have "map ?g (map ?f (db_plans db)) = map (\<lambda>q. if q \<in> set (p # ps) \<and> ?B q then close_plan q else q) (db_plans db)"
      unfolding map_map comp_def by (rule map_cong [OF refl])
    moreover have "db1\<lparr>db_plans := x\<rparr> = db\<lparr>db_plans := x\<rparr>" for x by (simp add: db1)
    ultimately show ?thesis unfolding B plans by (simp only:)
  qed
  finally show ?case .
qed simp

lemma promoted_plans_props:
  "distinct (map pl_id (db_plans db)) \<Longrightarrow> distinct (promoted_plans limit P db) \<and>
   (\<forall>p \<in> set (promoted_plans limit P db). p \<in> set (db_plans db) \<and> pl_status p = PlPromoted \<and> P p)"
  by (auto simp: promoted_plans_def distinct_map dest!: in_set_takeD)

lemma slot_settles_scope:
  assumes "length (db_plans db) \<le> limit"
  shows "slot_settles limit account db p \<longleftrightarrow>
     p \<in> set (db_plans db) \<and> pl_status p = PlPromoted \<and>
     (case account of None \<Rightarrow> True | Some a \<Rightarrow> pl_account p = a) \<and> legs_of db (pl_id p) \<noteq> [] \<and> plan_settled db p"
proof -
  have "length (filter Q (db_plans db)) \<le> limit" for Q
    using assms length_filter_le [of Q "db_plans db"] by linarith
  then show ?thesis by (auto simp: slot_settles_def promoted_plans_def)
qed

lemma resolve_completed_plans_eq:
  assumes "distinct (map pl_id (db_plans db))"
  shows "snd (resolve_completed_plans limit account db) =
     db\<lparr>db_plans := map (\<lambda>p. if slot_settles limit account db p then close_plan p else p) (db_plans db)\<rparr>"
proof -
  obtain ev db' where r: "resolve_completed_plans limit account db = (ev, db')" by fastforce
  from settle_plans_eq [OF r [unfolded resolve_completed_plans_def] assms] promoted_plans_props [OF assms]
  have "db' = db\<lparr>db_plans := map (\<lambda>q. if q \<in> set (promoted_plans limit (\<lambda>p. case account of None \<Rightarrow> True | Some a \<Rightarrow> pl_account p = a) db) \<and>
      legs_of db (pl_id q) \<noteq> [] \<and> plan_settled db q then close_plan q else q) (db_plans db)\<rparr>" by blast
  then show ?thesis unfolding r snd_conv slot_settles_def .
qed

lemma plan_settled_iff:
  "plan_settled db p \<longleftrightarrow>
     (\<forall>l \<in> set (legs_of db (pl_id p)). \<exists>j. leg_job db l = Some j \<and>
        (jb_status j = JbFailed \<or> jb_status j = JbSuccess \<and> (\<exists>t. leg_trade db p l = Some t \<and> td_close_time t \<noteq> None)))"
  unfolding plan_settled_def list_all_iff
  by (rule ball_cong) (auto simp: leg_settled_def split: option.splits job_status.splits)

lemma legs_of_set: "set (legs_of db i) = {l \<in> set (db_legs db). lg_plan l = i}"
  by (auto simp: legs_of_def)

lemma jobs_effect_table:
  assumes "jobs_effect C N db db'"
  shows "jobs_effect (\<lambda>j. j \<in> set (db_jobs db) \<and> C j) N db db'"
proof -
  from assms obtain f n where f: "retires f" "\<forall>j. f j \<noteq> j \<longrightarrow> C j" "db_jobs db' = map f (db_jobs db) @ n" "\<forall>j \<in> set n. N j"
    unfolding jobs_effect_def by blast
  let ?g = "\<lambda>j. if j \<in> set (db_jobs db) then f j else j"
  have "retires ?g" using f(1) by (simp add: retires_def)
  moreover have "\<forall>j. ?g j \<noteq> j \<longrightarrow> j \<in> set (db_jobs db) \<and> C j" using f(2) by simp
  moreover have "map ?g (db_jobs db) = map f (db_jobs db)" by simp
  ultimately show ?thesis unfolding jobs_effect_def
    by (intro exI [of _ ?g] exI [of _ n] conjI) (use f in simp_all)
qed

lemma cancel_plans_run:
  "command_run (\<lambda>j. list_ex (\<lambda>i. cancellable locked db i {PlaceOrder} j) ps) (\<lambda>_. False) (\<lambda>_. False) db
     (snd (cancel_plans locked ps db))"
proof (induction ps arbitrary: db)
  case (Cons i ps)
  let ?C = "\<lambda>j. list_ex (\<lambda>i. cancellable locked db i {PlaceOrder} j) (i # ps)"
  obtain n db1 where c: "cancel_plan_pending_jobs locked i db = (n, db1)" by fastforce
  have "command_run ?C (\<lambda>_. False) (\<lambda>_. False) db (snd (cancel_plan_pending_jobs locked i db))"
    unfolding cancel_plan_pending_jobs_def case_prod_beta Let_def snd_conv
    by (rule cancel_jobs_run) (auto simp: cancellable_def)
  then have one: "command_run ?C (\<lambda>_. False) (\<lambda>_. False) db db1" by (simp add: c)
  then have cn: "cancellable locked db1 = cancellable locked db"
    by (intro ext) (simp add: command_run_def cancellable_def)
  have "command_run ?C (\<lambda>_. False) (\<lambda>_. False) db1 (snd (cancel_plans locked ps db1))"
    by (rule command_run_mono [OF Cons.IH]) (simp_all add: cn)
  then have "command_run ?C (\<lambda>_. False) (\<lambda>_. False) db (snd (cancel_plans locked ps db1))"
    using command_run_trans [OF one] by (simp add: kept_by_retiring_def)
  then show ?case by (simp add: c case_prod_beta)
qed simp

lemma reconcile_applied:
  assumes "reconcile_stale_preactivation_orders qe env ws locked account older_us limit do_apply db = (r, db')"
  shows "let good = filter (\<lambda>p. stale_verdict db p = None) (scan_stale account (pe_now env - older_us) limit db) in
     account \<in> protected_account_ids \<and> r = Inl (ProtectedAccountError account) \<and> db' = db \<or>
     account \<notin> protected_account_ids \<and> (\<not> do_apply \<or> claimant_refusal qe env ws account \<noteq> '''') \<and> db' = db \<or>
     account \<notin> protected_account_ids \<and> do_apply \<and> claimant_refusal qe env ws account = '''' \<and>
     db' = snd (resolve_completed_plans (max limit (length good + 1)) (Some account)
                  (snd (cancel_plans locked (map pl_id good) db)))"
proof -
  consider "account \<in> protected_account_ids" | "account \<notin> protected_account_ids" "\<not> do_apply"
    | "account \<notin> protected_account_ids" "do_apply" "claimant_refusal qe env ws account \<noteq> ''''"
    | "account \<notin> protected_account_ids" "do_apply" "claimant_refusal qe env ws account = ''''" by blast
  then show ?thesis
  proof cases
    case 4
    then have "db' = snd (reconcile_stale_preactivation_orders qe env ws locked account older_us limit do_apply db)"
      using assms by simp
    with 4 show ?thesis
      unfolding reconcile_stale_preactivation_orders_def Let_def by (simp only: case_prod_beta if_False if_True snd_conv simp_thms)
  qed (use assms in \<open>simp_all add: reconcile_stale_preactivation_orders_def Let_def\<close>)
qed

text \<open>An order of a promoted plan of the account that is old enough and has only orders no worker took.\<close>

definition stale_plan :: "int \<Rightarrow> int \<Rightarrow> pipe_db \<Rightarrow> plan \<Rightarrow> bool" where
  "stale_plan account cutoff db p \<longleftrightarrow>
     p \<in> set (db_plans db) \<and> pl_status p = PlPromoted \<and> pl_account p = account \<and> pl_created_at p \<le> cutoff \<and>
     stale_verdict db p = None"

definition stale_order :: "(nat \<Rightarrow> bool) \<Rightarrow> int \<Rightarrow> int \<Rightarrow> pipe_db \<Rightarrow> job \<Rightarrow> bool" where
  "stale_order locked account cutoff db j \<longleftrightarrow>
     j \<in> set (db_jobs db) \<and> list_ex (\<lambda>p. stale_plan account cutoff db p \<and> cancellable locked db (pl_id p) {PlaceOrder} j) (db_plans db)"

lemma scan_stale_props:
  assumes "distinct (map pl_id (db_plans db))" "p \<in> set (scan_stale account cutoff limit db)" "stale_verdict db p = None"
  shows "stale_plan account cutoff db p"
  using assms(2,3) promoted_plans_props [OF assms(1), of limit "\<lambda>p. pl_account p = account \<and> pl_created_at p \<le> cutoff"]
  unfolding scan_stale_def stale_plan_def by blast

lemma cancel_stale_run:
  assumes "distinct (map pl_id (db_plans db))" "set good \<subseteq> set (scan_stale account cutoff limit db)"
    "\<forall>p \<in> set good. stale_verdict db p = None" "cancel_plans locked (map pl_id good) db = (n, db1)"
  shows "jobs_effect (stale_order locked account cutoff db) (\<lambda>_. False) db db1" "db_legs db1 = db_legs db"
    "promotion_frame db db1" "db_plans db1 = db_plans db"
proof -
  have run: "command_run (\<lambda>j. list_ex (\<lambda>i. cancellable locked db i {PlaceOrder} j) (map pl_id good)) (\<lambda>_. False)
      (\<lambda>_. False) db db1" using cancel_plans_run [of locked db "map pl_id good"] unfolding assms(4) snd_conv .
  then have "jobs_effect (\<lambda>j. j \<in> set (db_jobs db) \<and> list_ex (\<lambda>i. cancellable locked db i {PlaceOrder} j) (map pl_id good))
          (\<lambda>_. False) db db1" unfolding command_run_def by (intro jobs_effect_table) blast
  then show "jobs_effect (stale_order locked account cutoff db) (\<lambda>_. False) db db1"
  proof (rule jobs_effect_mono)
    fix j
    assume "j \<in> set (db_jobs db) \<and> list_ex (\<lambda>i. cancellable locked db i {PlaceOrder} j) (map pl_id good)"
    then obtain p where p: "p \<in> set good" "cancellable locked db (pl_id p) {PlaceOrder} j" and t: "j \<in> set (db_jobs db)"
      unfolding list_ex_iff set_map by blast
    have st: "stale_plan account cutoff db p" using scan_stale_props [OF assms(1)] p(1) assms(2,3) by blast
    then have "p \<in> set (db_plans db)" by (simp add: stale_plan_def)
    with st p(2) t show "stale_order locked account cutoff db j" unfolding stale_order_def list_ex_iff by blast
  qed
  show "db_legs db1 = db_legs db" "promotion_frame db db1" using run by (simp_all add: command_run_def)
  from run obtain v where "db_plans db1 = map v (db_plans db)" and v: "\<forall>p. v p = p"
    unfolding command_run_def plans_effect_def by blast
  then show "db_plans db1 = db_plans db" by (simp only: v map_ident map_idI)
qed

lemma resolve_account_run:
  assumes "distinct (map pl_id (db_plans db))" "resolve_completed_plans limit (Some account) db = (ev, db')"
  shows "plans_effect (\<lambda>p. pl_account p = account) PlPromoted PlClosed db db'" "db_legs db' = db_legs db"
    "db_jobs db' = db_jobs db" "promotion_frame db db'"
proof -
  let ?f = "\<lambda>p. if slot_settles limit (Some account) db p then close_plan p else p"
  have db': "db' = db\<lparr>db_plans := map ?f (db_plans db)\<rparr>"
    using resolve_completed_plans_eq [OF assms(1), of limit "Some account"] unfolding assms(2) snd_conv .
  have "pl_account p = account \<and> pl_status p = PlPromoted" if "slot_settles limit (Some account) db p" for p
    using that promoted_plans_props [OF assms(1), of limit "\<lambda>p. pl_account p = account"] by (simp add: slot_settles_def)
  then have "?f p = p \<or> pl_account p = account \<and> pl_status p = PlPromoted \<and> ?f p = p\<lparr>pl_status := PlClosed\<rparr>" for p
    unfolding close_plan_def by presburger
  moreover have "db_plans db' = map ?f (db_plans db)" unfolding db' by simp
  ultimately show "plans_effect (\<lambda>p. pl_account p = account) PlPromoted PlClosed db db'"
    unfolding plans_effect_def by blast
  show "db_legs db' = db_legs db" "db_jobs db' = db_jobs db" "promotion_frame db db'"
    by (simp_all add: db' promotion_frame_def)
qed

section \<open>Properties\<close>

text \<open>Past a stop, on the side that risks less: above it for a BUY, below it for a SELL.\<close>

definition stop_beyond :: "plan \<Rightarrow> pyfloat \<Rightarrow> pyfloat \<Rightarrow> bool" where
  "stop_beyond p base sl \<longleftrightarrow>
     upper (strip (pl_direction p)) = ''BUY'' \<and> price_below base sl \<or>
     upper (strip (pl_direction p)) = ''SELL'' \<and> price_below sl base"

lemma price_below_trans: "price_below x y \<Longrightarrow> price_below y z \<Longrightarrow> price_below x z"
  by (cases x; cases y; cases z) auto

lemma price_below_mixed:
  "dec_less x y = Some False \<Longrightarrow> price_below x z \<Longrightarrow> price_below y z"
  "dec_less x y = Some False \<Longrightarrow> price_below z y \<Longrightarrow> price_below z x"
  by (cases x; cases y; cases z; auto simp: dec_less_def)+

lemma strip_no_space: "list_all (\<lambda>c. \<not> is_space c) s \<Longrightarrow> strip s = s"
proof -
  have d: "dropWhile is_space xs = xs" if "list_all (\<lambda>c. \<not> is_space c) xs" for xs
    using that by (cases xs) simp_all
  assume "list_all (\<lambda>c. \<not> is_space c) s"
  then show ?thesis by (simp add: strip_def d)
qed

lemma upper_space: "is_space c \<Longrightarrow> is_space (upper_char c)"
  by (auto simp: is_space_def upper_char_def Let_def)

lemma upper_direction: "upper d = ''BUY'' \<or> upper d = ''SELL'' \<Longrightarrow> strip d = d"
proof (rule strip_no_space)
  assume "upper d = ''BUY'' \<or> upper d = ''SELL''"
  then have "list_all (\<lambda>c. \<not> is_space c) (upper d)" by (elim disjE; simp add: is_space_def)
  then show "list_all (\<lambda>c. \<not> is_space c) d" using upper_space by (auto simp: upper_def list_all_iff)
qed

lemma move_allowed_tightens:
  assumes "move_allowed db p (Some sl) (l, t) = Some True"
  shows "(\<forall>old. to_decimal (pl_stop_loss p) = Some old \<longrightarrow> stop_beyond p old sl) \<and>
     (upper (pl_direction p) \<in> {''BUY'', ''SELL''} \<longrightarrow> (\<forall>lock. locked_in_sl db p l t = Some lock \<longrightarrow> stop_beyond p lock sl)) \<and>
     (to_decimal (pl_stop_loss p) \<noteq> None \<or> locked_in_sl db p l t \<noteq> None)"
proof -
  obtain base where b: "risk_baseline_sl db p l t = Some (Some base)" "stop_beyond p base sl"
    using assms by (auto simp: move_allowed_def risk_reducing_iff stop_beyond_def split: option.splits)
  show ?thesis
  proof (cases "locked_in_sl db p l t")
    case None
    then show ?thesis using b by (simp add: risk_baseline_sl_def)
  next
    case (Some lock)
    note lk = this
    show ?thesis
    proof (cases "to_decimal (pl_stop_loss p)")
      case None
      then show ?thesis using b lk by (simp add: risk_baseline_sl_def)
    next
      case (Some old)
      consider (buy) "upper (pl_direction p) = ''BUY''" | (sell) "upper (pl_direction p) = ''SELL''"
        | (odd) "upper (pl_direction p) \<notin> {''BUY'', ''SELL''}" by blast
      then show ?thesis
      proof cases
        case buy
        then have d: "upper (strip (pl_direction p)) = ''BUY''" using upper_direction by metis
        from b buy lk Some obtain x where x: "dec_less old lock = Some x" "base = (if x then lock else old)"
          by (auto simp: risk_baseline_sl_def)
        then have "price_below old sl \<and> price_below lock sl"
          using b(2) d dec_less_below [of old lock] price_below_trans [of old lock sl] price_below_mixed(1) [of old lock sl]
          by (cases x) (simp_all add: stop_beyond_def)
        then show ?thesis using lk Some d by (simp add: stop_beyond_def)
      next
        case sell
        then have d: "upper (strip (pl_direction p)) = ''SELL''" using upper_direction by metis
        from b sell lk Some obtain x where x: "dec_less lock old = Some x" "base = (if x then lock else old)"
          by (auto simp: risk_baseline_sl_def)
        then have "price_below sl old \<and> price_below sl lock"
          using b(2) d dec_less_below [of lock old] price_below_trans [of sl lock old] price_below_mixed(2) [of lock old sl]
          by (cases x) (simp_all add: stop_beyond_def)
        then show ?thesis using lk Some d by (simp add: stop_beyond_def)
      next
        case odd
        then show ?thesis using b lk Some by (simp add: risk_baseline_sl_def)
      qed
    qed
  qed
qed


text \<open>
  Commands are answered once: an answered command is never touched again, and a pass leaves an open command
  either as it was or processed.
\<close>

theorem commands_answered_once:
  assumes "apply_provider_commands cc env db = (ev, db')" "distinct (map cm_id (db_commands db))"
  shows "list_all2 answered (db_commands db) (db_commands db')"
proof (cases "cc_enabled cc")
  case False
  then show ?thesis using assms(1) by (simp add: apply_provider_commands_def all_answered_refl)
next
  case True
  let ?cut = "pe_now env - cc_max_age_us cc"
  obtain n db1 where e: "expire_commands ?cut db = (n, db1)" by fastforce
  from assms(1) True e obtain ev2 where p:
      "process_commands cc env (command_sources db1) (due_commands ?cut (cc_limit cc) db1) db1 = (ev2, db')"
    by (auto simp: apply_provider_commands_def Let_def split: prod.splits)
  have "db_commands db1 = map (\<lambda>c. if command_open c \<and> cm_created_at c < ?cut
          then c\<lparr>cm_status := CmSkipped, cm_processed := True, cm_result := [(''reason'', JStr ''expired'')]\<rparr> else c)
          (db_commands db)" using e by (auto simp: expire_commands_def Let_def)
  then have one: "list_all2 answered (db_commands db) (db_commands db1)"
    by (simp add: list.rel_map list_all2_same answered_def)
  have "distinct (map cm_id (db_commands db1))" using assms(2) answered_ids [OF one] by simp
  from all_answered_trans [OF one process_commands_answers [OF p this]] show ?thesis .
qed

text \<open>
  Settlement frees exactly the slots of the plans that are over. A plan becomes closed if and only if it is
  among the first promoted plans of the account by id, has a leg, and the order of each of its legs failed
  or succeeded with a trade that has closed; nothing else changes. When the limit covers the table, no
  such plan is left promoted.
\<close>

theorem plans_settle_exactly:
  assumes "distinct (map pl_id (db_plans db))" "resolve_completed_plans limit account db = (ev, db')"
  shows "let scanned = take limit (sort_key pl_id (filter (\<lambda>p. pl_status p = PlPromoted \<and>
               (case account of None \<Rightarrow> True | Some a \<Rightarrow> pl_account p = a)) (db_plans db)));
           over = (\<lambda>p. (\<exists>l \<in> set (db_legs db). lg_plan l = pl_id p) \<and>
             (\<forall>l \<in> set (db_legs db). lg_plan l = pl_id p \<longrightarrow>
                (\<exists>i j. lg_job l = Some i \<and> find_job db i = Some j \<and>
                   (jb_status j = JbFailed \<or>
                    jb_status j = JbSuccess \<and> (\<exists>t. leg_trade db p l = Some t \<and> td_close_time t \<noteq> None)))))
         in db' = db\<lparr>db_plans := map (\<lambda>p. if p \<in> set scanned \<and> over p then p\<lparr>pl_status := PlClosed\<rparr> else p) (db_plans db)\<rparr> \<and>
            (length (db_plans db) \<le> limit \<longrightarrow>
               (\<forall>p \<in> set (db_plans db'). pl_status p = PlPromoted \<longrightarrow>
                  (case account of None \<Rightarrow> True | Some a \<Rightarrow> pl_account p = a) \<longrightarrow> \<not> over p))"
proof -
  let ?P = "\<lambda>p. case account of None \<Rightarrow> True | Some a \<Rightarrow> pl_account p = a"
  let ?over = "\<lambda>p. (\<exists>l \<in> set (db_legs db). lg_plan l = pl_id p) \<and>
             (\<forall>l \<in> set (db_legs db). lg_plan l = pl_id p \<longrightarrow>
                (\<exists>i j. lg_job l = Some i \<and> find_job db i = Some j \<and>
                   (jb_status j = JbFailed \<or>
                    jb_status j = JbSuccess \<and> (\<exists>t. leg_trade db p l = Some t \<and> td_close_time t \<noteq> None))))"
  have over: "legs_of db (pl_id p) \<noteq> [] \<and> plan_settled db p \<longleftrightarrow> ?over p" for p
  proof -
    have "legs_of db (pl_id p) \<noteq> [] \<longleftrightarrow> (\<exists>l \<in> set (db_legs db). lg_plan l = pl_id p)"
      using legs_of_set [of db "pl_id p"] by (metis (mono_tags, lifting) empty_Collect_eq set_empty)
    moreover have "plan_settled db p \<longleftrightarrow> (\<forall>l \<in> set (db_legs db). lg_plan l = pl_id p \<longrightarrow>
                (\<exists>i j. lg_job l = Some i \<and> find_job db i = Some j \<and>
                   (jb_status j = JbFailed \<or>
                    jb_status j = JbSuccess \<and> (\<exists>t. leg_trade db p l = Some t \<and> td_close_time t \<noteq> None))))"
      unfolding plan_settled_iff legs_of_set by (simp add: leg_job_def bind_eq_Some_conv) blast
    ultimately show ?thesis by blast
  qed
  have settles: "slot_settles limit account db p \<longleftrightarrow>
      p \<in> set (take limit (sort_key pl_id (filter (\<lambda>p. pl_status p = PlPromoted \<and> ?P p) (db_plans db)))) \<and> ?over p" for p
    unfolding slot_settles_def promoted_plans_def over by (rule refl)
  have db': "db' = db\<lparr>db_plans := map (\<lambda>p. if slot_settles limit account db p then close_plan p else p) (db_plans db)\<rparr>"
    using resolve_completed_plans_eq [OF assms(1), of limit account] assms(2) by simp
  have left: "\<not> ?over p" if "length (db_plans db) \<le> limit" "p \<in> set (db_plans db')" "pl_status p = PlPromoted" "?P p" for p
  proof -
    from that(2) obtain q where q: "q \<in> set (db_plans db)" "p = (if slot_settles limit account db q then close_plan q else q)"
      unfolding db' by auto
    with that(3) have "p = q" "\<not> slot_settles limit account db q" by (auto simp: close_plan_def split: if_splits)
    then show ?thesis using slot_settles_scope [OF that(1), of account p] q(1) that(3,4) over [of p] by blast
  qed
  show ?thesis
    unfolding Let_def
  proof (intro conjI ballI impI)
    show "db' = db\<lparr>db_plans := map (\<lambda>p. if p \<in> set (take limit (sort_key pl_id (filter (\<lambda>p. pl_status p = PlPromoted \<and> ?P p)
            (db_plans db)))) \<and> ?over p then p\<lparr>pl_status := PlClosed\<rparr> else p) (db_plans db)\<rparr>"
      using db' unfolding settles close_plan_def .
  qed (use left in blast)
qed


section \<open>Witnesses\<close>

definition channel_plan :: plan where
  "channel_plan = demo_plan\<lparr>pl_status := PlPromoted, pl_chat_id := ''c''\<rparr>"

definition close_command :: provider_command where
  "close_command = \<lparr>cm_id = 1, cm_provider = ''wayond'', cm_chat_id = ''c'', cm_message_id = ''m2'', cm_reply_to = ''m1'',
     cm_type = CloseAll, cm_args = [], cm_status = CmPending, cm_processed = False, cm_result = [], cm_created_at = 990\<rparr>"

definition command_db :: pipe_db where
  "command_db = first_target\<lparr>db_plans := [channel_plan], db_commands := [close_command]\<rparr>"

definition demo_commands :: command_cfg where
  "demo_commands = \<lparr>cc_enabled = True, cc_max_age_us = 900, cc_limit = 200, cc_sweep = ladder_cfg,
     cc_command_held = (\<lambda>_. False), cc_job_held = (\<lambda>_. False)\<rparr>"

definition after_commands :: pipe_db where
  "after_commands = snd (apply_provider_commands demo_commands demo_env command_db)"

lemma demo_commands_applied:
  "apply_provider_commands demo_commands demo_env command_db = ([''applied''], after_commands)"
proof -
  have "fst (apply_provider_commands demo_commands demo_env command_db) = [''applied'']" by code_simp
  then show ?thesis unfolding after_commands_def by (metis prod.collapse)
qed


text \<open>
  Every command of a pass is judged against the tables, which no queued move has changed yet. Two moves of
  one pass are not judged against each other: a stop raised to 1.15 is followed by one back to the entry.
\<close>

definition raise_command :: provider_command where
  "raise_command = close_command\<lparr>cm_type := MoveSlPrice, cm_args := [(''price'', JStr ''1.15'')]\<rparr>"

definition entry_command :: provider_command where
  "entry_command = close_command\<lparr>cm_id := 2, cm_type := MoveSlBe\<rparr>"

definition two_moves_db :: pipe_db where
  "two_moves_db = command_db\<lparr>db_commands := [raise_command, entry_command]\<rparr>"

lemma second_move_loosens:
  "map (\<lambda>j. (map_of (jb_payload j) ''ticket'', map_of (jb_payload j) ''sl''))
       (db_jobs (snd (apply_provider_commands demo_commands demo_env two_moves_db))) =
     [(Some (JStr ''t2''), Some (JFloat (Finite (115 / 100)) ''x'')), (Some (JStr ''t3''), Some (JFloat (Finite (115 / 100)) ''x'')),
      (Some (JStr ''t2''), Some (JFloat (Finite (11 / 10)) ''x'')), (Some (JStr ''t3''), Some (JFloat (Finite (11 / 10)) ''x''))]"
  by code_simp

theorem commands_answered_once_witness:
  "list_all2 answered (db_commands command_db) (db_commands after_commands)"
  by (rule commands_answered_once [OF demo_commands_applied]) (simp add: command_db_def)

definition refused_order :: "nat \<Rightarrow> job" where
  "refused_order i = third_job\<lparr>jb_id := i, jb_type := PlaceOrder, jb_status := JbFailed\<rparr>"

definition settled_db :: pipe_db where
  "settled_db = first_target\<lparr>db_jobs := [refused_order 1, refused_order 2, refused_order 3]\<rparr>"

definition resolved_db :: pipe_db where
  "resolved_db = snd (resolve_completed_plans 500 None settled_db)"

lemma demo_resolved: "resolve_completed_plans 500 None settled_db = ([''scanned'', ''closed''], resolved_db)"
proof -
  have "fst (resolve_completed_plans 500 None settled_db) = [''scanned'', ''closed'']" by code_simp
  then show ?thesis unfolding resolved_db_def by (metis prod.collapse)
qed

theorem plans_settle_exactly_witness: "db_legs resolved_db = db_legs settled_db"
proof -
  have d: "distinct (map pl_id (db_plans settled_db))" by (simp add: settled_db_def first_target_def)
  note r = plans_settle_exactly [OF d demo_resolved, unfolded Let_def, THEN conjunct1]
  show ?thesis by (subst r) simp
qed

definition queued_order :: "nat \<Rightarrow> job" where
  "queued_order i = (refused_order i)\<lparr>jb_status := JbPending, jb_worker := '''', jb_started := False\<rparr>"

definition queued_db :: pipe_db where
  "queued_db = first_target\<lparr>db_plans := [channel_plan\<lparr>pl_created_at := 10\<rparr>], db_trades := [],
     db_jobs := [queued_order 1, queued_order 2, queued_order 3]\<rparr>"

definition reconciled_db :: pipe_db where
  "reconciled_db = snd (reconcile_stale_preactivation_orders demo_queue demo_env [] (\<lambda>_. False) (ac_id demo_account) 900 500 True queued_db)"

definition demo_report :: reconcile_report where
  "demo_report = \<lparr>rr_scanned = 1, rr_candidates = [(1, [1, 2, 3])], rr_skipped = [], rr_refused = '''', rr_cancelled = 3, rr_closed = 1\<rparr>"

lemma demo_reconciled:
  "reconcile_stale_preactivation_orders demo_queue demo_env [] (\<lambda>_. False) (ac_id demo_account) 900 500 True queued_db =
     (Inr demo_report, reconciled_db)"
proof -
  have "fst (reconcile_stale_preactivation_orders demo_queue demo_env [] (\<lambda>_. False) (ac_id demo_account) 900 500 True queued_db)
          = Inr demo_report" by code_simp
  then show ?thesis unfolding reconciled_db_def by (metis prod.collapse)
qed


end
