(* ===== verification/Pipeline.thy ===== *)
theory Pipeline
  imports PlanSettlement
begin

text \<open>
  The signal pipeline as one machine: routing, the protection sweep, the two worker actions, provider
  commands, settlement, reconciliation and whatever rewrites the ingested trades, in any order and each
  with its own clock and settings. The well-formedness of the tables and what holds over every run.
\<close>

section \<open>Well-formed tables\<close>

definition job_ids :: "pipe_db \<Rightarrow> nat list" where
  "job_ids db = map jb_id (db_jobs db)"

definition refers :: "nat list \<Rightarrow> nat option \<Rightarrow> bool" where
  "refers ids r = (case r of None \<Rightarrow> True | Some i \<Rightarrow> i \<in> set ids)"

text \<open>Primary keys are unique and below their counters, and the foreign keys of the legs resolve.\<close>

definition leg_wf :: "pipe_db \<Rightarrow> leg \<Rightarrow> bool" where
  "leg_wf db l \<longleftrightarrow> lg_plan l \<in> pl_id ` set (db_plans db) \<and> refers (job_ids db) (lg_job l) \<and>
                  refers (job_ids db) (lg_breakeven_job l)"

definition tables_wf :: "pipe_db \<Rightarrow> bool" where
  "tables_wf db \<longleftrightarrow>
     job_ids_ok db \<and> plans_unique db \<and> distinct (map leg_key (db_legs db)) \<and> list_all (leg_wf db) (db_legs db)"

text \<open>A step that moves jobs forward and keeps the tables well-formed.\<close>

definition safe_step :: "pipe_db \<Rightarrow> pipe_db \<Rightarrow> bool" where
  "safe_step db db' \<longleftrightarrow> (tables_wf db \<longrightarrow> jobs_advance db db' \<and> tables_wf db')"

lemma safe_refl [simp]: "safe_step db db"
  by (simp add: safe_step_def)

lemma safe_trans [trans]: "safe_step a b \<Longrightarrow> safe_step b c \<Longrightarrow> safe_step a c"
  unfolding safe_step_def using jobs_advance_trans by blast

lemma jobs_advance_job_ids: "jobs_advance db db' \<Longrightarrow> set (job_ids db) \<subseteq> set (job_ids db')"
proof -
  assume "jobs_advance db db'"
  then obtain f n where f: "advances f" "db_jobs db' = map f (db_jobs db) @ n" unfolding jobs_advance_def by blast
  then have "map jb_id (map f (db_jobs db)) = map jb_id (db_jobs db)" by (simp add: advances_def)
  then show ?thesis by (simp only: job_ids_def f(2) map_append set_append) simp
qed

lemma refers_mono: "set xs \<subseteq> set ys \<Longrightarrow> refers xs r \<Longrightarrow> refers ys r"
  by (auto simp: refers_def split: option.splits)

lemma safe_jobs:
  assumes "db_plans db' = db_plans db" "db_legs db' = db_legs db" "db_next_plan db' = db_next_plan db"
    and "job_ids_ok db \<Longrightarrow> jobs_advance db db'"
  shows "safe_step db db'"
  unfolding safe_step_def
proof
  assume w: "tables_wf db"
  then have a: "jobs_advance db db'" using assms(4) by (simp add: tables_wf_def)
  have "leg_wf db' l" if "leg_wf db l" for l
    using that refers_mono [OF jobs_advance_job_ids [OF a]] by (simp add: leg_wf_def assms(1))
  then have "list_all (leg_wf db') (db_legs db')"
    using w unfolding tables_wf_def assms(2) by (auto simp: list_all_iff)
  moreover have "job_ids_ok db'" using jobs_advance_ids [OF a] w by (simp add: tables_wf_def)
  ultimately show "jobs_advance db db' \<and> tables_wf db'"
    using a w by (simp add: tables_wf_def assms(2) plans_unique_def assms(1,3))
qed

lemma safe_same:
  assumes "db_plans db' = db_plans db" "db_legs db' = db_legs db" "db_next_plan db' = db_next_plan db"
    "db_jobs db' = db_jobs db" "db_next_job db' = db_next_job db"
  shows "safe_step db db'"
  by (rule safe_jobs [OF assms(1-3)]) (simp add: jobs_advance_same assms(4,5))

lemma safe_plans:
  assumes "db_plans db' = map f (db_plans db)" "\<And>p. pl_id (f p) = pl_id p" "\<And>p. plan_key (f p) = plan_key p"
    and "db_legs db' = db_legs db" "db_next_plan db' = db_next_plan db" "db_jobs db' = db_jobs db" "db_next_job db' = db_next_job db"
  shows "safe_step db db'"
  unfolding safe_step_def
proof
  assume w: "tables_wf db"
  have "leg_wf db' = leg_wf db"
    by (intro ext) (simp add: leg_wf_def job_ids_def assms(1,2,6) image_image)
  moreover have "plans_unique db'" using w plans_unique_map [OF _ assms(1,5,2,3)] by (simp add: tables_wf_def)
  ultimately show "jobs_advance db db' \<and> tables_wf db'"
    using w by (simp add: tables_wf_def assms(4) job_ids_ok_def assms(6,7) jobs_advance_same)
qed

lemma safe_legs:
  assumes "db_legs db' = map g (db_legs db)" "\<And>l. leg_key (g l) = leg_key l"
    and "\<And>l. refers (job_ids db) (lg_job l) \<Longrightarrow> refers (job_ids db) (lg_job (g l))"
    and "\<And>l. refers (job_ids db) (lg_breakeven_job l) \<Longrightarrow> refers (job_ids db) (lg_breakeven_job (g l))"
    and "db_plans db' = db_plans db" "db_next_plan db' = db_next_plan db" "db_jobs db' = db_jobs db" "db_next_job db' = db_next_job db"
  shows "safe_step db db'"
  unfolding safe_step_def
proof
  assume w: "tables_wf db"
  have "lg_plan (g l) = lg_plan l" for l using assms(2) [of l] by (simp add: leg_key_def)
  then have "leg_wf db' (g l)" if "leg_wf db l" for l
    using that assms(3,4) [of l] by (simp add: leg_wf_def job_ids_def assms(5,7))
  then have "list_all (leg_wf db') (db_legs db')"
    using w unfolding tables_wf_def assms(1) by (simp add: list_all_iff)
  moreover have "map leg_key (db_legs db') = map leg_key (db_legs db)" by (simp add: assms(1,2))
  ultimately show "jobs_advance db db' \<and> tables_wf db'"
    using w by (simp add: tables_wf_def job_ids_ok_def plans_unique_def assms(5-8) jobs_advance_same)
qed

lemma safe_update_leg:
  assumes "\<And>x. leg_key (f x) = leg_key x"
    "\<And>x. lg_job (f x) = lg_job x \<or> refers (job_ids db) (lg_job (f x))"
    "\<And>x. lg_breakeven_job (f x) = lg_breakeven_job x \<or> refers (job_ids db) (lg_breakeven_job (f x))"
  shows "safe_step db (update_leg p k f db)"
proof (rule safe_legs [where g = "\<lambda>l. if lg_plan l = p \<and> lg_index l = k then f l else l"])
  show "refers (job_ids db) (lg_job (if lg_plan l = p \<and> lg_index l = k then f l else l))"
    if "refers (job_ids db) (lg_job l)" for l using that assms(2) [of l] by auto
  show "refers (job_ids db) (lg_breakeven_job (if lg_plan l = p \<and> lg_index l = k then f l else l))"
    if "refers (job_ids db) (lg_breakeven_job l)" for l using that assms(3) [of l] by auto
qed (simp_all add: update_leg_def assms(1))

lemma safe_audit [simp]: "safe_step db (add_audit e p a c db)"
  by (rule safe_same) simp_all

lemma safe_audits: "safe_step db (fold (\<lambda>l. add_audit e p a c) ls db)"
  by (rule safe_same) simp_all

lemma safe_alert [simp]: "safe_step db (raise_alert k s db)"
  by (rule safe_same) (simp_all add: raise_alert_def)

lemma safe_create_job:
  assumes "create_job env ty a owner payload db = (r, db')"
  shows "safe_step db db'"
proof -
  have "db_next_plan db' = db_next_plan db"
    using create_job_result [OF assms] by (simp add: promotion_frame_def)
  then show ?thesis using create_job_result [OF assms] create_job_advance [OF assms] by (intro safe_jobs) simp_all
qed

lemma create_job_refers:
  "create_job env ty a owner payload db = (Inr j, db') \<Longrightarrow> jb_id j \<in> set (job_ids db')"
  using create_job_result [of env ty a owner payload db "Inr j" db'] by (simp add: job_ids_def)

section \<open>Planning and routing\<close>

lemma plan_legs_keys:
  "distinct (map leg_key (plan_legs p sl tps lots)) \<and>
   (\<forall>l \<in> set (plan_legs p sl tps lots). lg_plan l = p \<and> lg_job l = None \<and> lg_breakeven_job l = None)"
proof -
  have "map leg_key (plan_legs p sl tps lots) = map (Pair p) (map fst (zip [1..<Suc (length lots)] (zip tps lots)))"
    by (auto simp: plan_legs_def new_leg_def leg_key_def simp del: map_fst_zip)
  moreover have "distinct (map fst (zip [1..<Suc (length lots)] (zip tps lots)))"
    by (metis distinct_take distinct_upt map_fst_zip_take)
  ultimately show ?thesis by (auto simp: plan_legs_def new_leg_def distinct_map inj_on_def)
qed

lemma safe_planning:
  assumes "plan_demo_execution env ap a ts tot s db = (r, db')"
  shows "safe_step db db'"
proof (cases "existing_plan db (ap_id ap) (ac_id a)")
  case (Some q)
  then show ?thesis using assms by (simp add: plan_demo_execution_def)
next
  case None
  note res = plan_demo_execution_result [OF None assms]
  then have jobs: "db_jobs db' = db_jobs db" "db_next_job db' = db_next_job db" by (simp_all add: pipe_frame_def)
  have pb: "\<exists>sl tps lots. legs = plan_legs (db_next_plan db) sl tps lots" if "planned_by env cfg ap a ts s p legs db" for cfg p legs
    using that by (auto simp: planned_by_def Let_def)
  from res consider (kept) "plan_tables_kept db db'"
    | (new) p legs where "stores_plan p legs db db'" "pl_id p = db_next_plan db"
        "legs = [] \<or> (\<exists>sl tps lots. legs = plan_legs (db_next_plan db) sl tps lots)"
    using pb by blast
  then show ?thesis
  proof cases
    case kept
    then show ?thesis using jobs by (intro safe_same) (simp_all add: plan_tables_kept_def)
  next
    case new
    have legs: "distinct (map leg_key legs) \<and> (\<forall>l \<in> set legs. lg_plan l = pl_id p \<and> lg_job l = None \<and> lg_breakeven_job l = None)"
      using new(2,3) plan_legs_keys by auto
    have st: "db_plans db' = db_plans db @ [p]" "db_legs db' = db_legs db @ legs"
      using new(1) by (simp_all add: stores_plan_def)
    show ?thesis
      unfolding safe_step_def
    proof
      assume w: "tables_wf db"
      have old: "pl_id q < db_next_plan db" if "q \<in> set (db_plans db)" for q
        using w that by (simp add: tables_wf_def plans_unique_def)
      have oldl: "lg_plan l < db_next_plan db" if "l \<in> set (db_legs db)" for l
        using w that old by (auto simp: tables_wf_def list_all_iff leg_wf_def)
      have "distinct (map leg_key (db_legs db'))"
        using w legs oldl new(2) by (auto simp: st tables_wf_def leg_key_def dest!: oldl)
      moreover have "list_all (leg_wf db') (db_legs db')"
        using w legs by (auto simp: st tables_wf_def list_all_iff leg_wf_def job_ids_def jobs refers_def)
      moreover have "plans_unique db'"
        using planning_keys [OF _ assms] w by (simp add: tables_wf_def)
      ultimately show "jobs_advance db db' \<and> tables_wf db'"
        using w by (simp add: tables_wf_def job_ids_ok_def jobs jobs_advance_same)
    qed
  qed
qed

lemma safe_promote_legs:
  "promote_legs env ty mode a p bsym ls db = (r, db') \<Longrightarrow> safe_step db db'"
proof (induction ls arbitrary: db r)
  case (Cons l ls)
  show ?case
  proof (cases "lg_job l")
    case (Some j)
    obtain r1 db1 where "promote_legs env ty mode a p bsym ls db = (r1, db1)" by fastforce
    with Cons Some show ?thesis by (cases r1) auto
  next
    case None
    let ?owner = "promotion_owner env db p"
    let ?pay = "order_payload env db p l (mode_text mode) bsym (promotion_magic env mode ?owner)"
    obtain r1 db1 where c: "create_job env ty a (map_option aa_id ?owner) ?pay db = (r1, db1)" by fastforce
    note s1 = safe_create_job [OF c]
    show ?thesis
    proof (cases r1)
      case (Inl e)
      then show ?thesis using Cons.prems None c s1 by (simp add: Let_def)
    next
      case (Inr j)
      let ?f = "\<lambda>x. x\<lparr>lg_job := Some (jb_id j), lg_status := LgPromoted\<rparr>"
      let ?db2 = "add_audit ''JOB_CREATED'' (Some (pl_id p)) (Some (pl_approval p)) '''' (update_leg (lg_plan l) (lg_index l) ?f db1)"
      have "safe_step db1 (update_leg (lg_plan l) (lg_index l) ?f db1)"
        using create_job_refers [OF c [unfolded Inr]] by (intro safe_update_leg) (simp_all add: leg_key_def refers_def)
      then have s2: "safe_step db ?db2" using s1 safe_audit safe_trans by blast
      obtain r2 db2 where d: "promote_legs env ty mode a p bsym ls ?db2 = (r2, db2)" by fastforce
      have "db' = db2" using Cons.prems None c Inr d by (cases r2) (simp_all add: Let_def)
      then show ?thesis using Cons.IH [of ?db2 r2] d s2 safe_trans by blast
    qed
  qed
qed simp

lemma safe_plan_status:
  assumes "\<And>q. pl_id (f q) = pl_id q" "\<And>q. plan_key (f q) = plan_key q"
  shows "safe_step db (update_plan i f db)"
  by (rule safe_plans [where f = "\<lambda>p. if pl_id p = i then f p else p"]) (simp_all add: update_plan_def assms)

lemma safe_promote_plan:
  assumes "promote_plan env mode ty p db = (r, db')"
  shows "safe_step db db'"
proof (cases "pl_status p = PlPromoted \<or> account_by_id env (pl_account p) = None")
  case True
  then show ?thesis using assms by (auto simp: promote_plan_unfold split: if_splits option.splits)
next
  case False
  then obtain a where a: "account_by_id env (pl_account p) = Some a" by blast
  let ?res = "can_account_trade_symbol env db (pl_account p) (pl_symbol p)"
  show ?thesis
  proof (cases "promotion_refusal env db a mode ?res p")
    case (Some code)
    then show ?thesis using assms False a by (simp add: promote_plan_unfold Let_def) (metis safe_audit)
  next
    case None
    obtain r1 db1 where p: "promote_legs env ty mode a p
        (case ?res of SymAccepted _ b \<Rightarrow> b | SymRejected _ \<Rightarrow> '''') (legs_of db (pl_id p)) db = (r1, db1)" by fastforce
    show ?thesis
    proof (cases r1)
      case (Inl e)
      then have "db' = db" using assms False a None p by (simp add: promote_plan_unfold Let_def)
      then show ?thesis by simp
    next
      case (Inr js)
      have "safe_step db1 (update_plan (pl_id p) (\<lambda>q. q\<lparr>pl_status := PlPromoted\<rparr>) db1)"
        by (rule safe_plan_status) (simp_all add: plan_key_def)
      moreover have "db' = add_audit ''PROMOTION_CREATED'' (Some (pl_id p)) (Some (pl_approval p)) ''''
          (update_plan (pl_id p) (\<lambda>q. q\<lparr>pl_status := PlPromoted\<rparr>) db1)"
        using assms False a None p Inr by (simp add: promote_plan_unfold Let_def)
      ultimately show ?thesis using safe_promote_legs [OF p] safe_audit safe_trans by blast
    qed
  qed
qed

lemma safe_deferral [simp]: "safe_step db (record_deferral ap reason db)"
  by (simp add: record_deferral_def)

lemma safe_void_rejected: "safe_step db (void_rejected_plan p code db)"
proof (cases "list_ex (\<lambda>q. pl_id q = pl_id p \<and> pl_status q = PlPlanned) (db_plans db)")
  case True
  then have v: "void_rejected_plan p code db = add_audit ''PLAN_VOIDED'' (Some (pl_id p)) (Some (pl_approval p)) code
      (db\<lparr>db_plans := map (\<lambda>q. if pl_id q = pl_id p \<and> pl_status q = PlPlanned
                 then q\<lparr>pl_status := PlVoided, pl_hold_reason := take 64 (''promotion_rejected:'' @ code)\<rparr> else q) (db_plans db)\<rparr>)"
    by (simp only: void_rejected_plan_def if_True)
  show ?thesis unfolding v
    by (rule safe_plans [where f = "\<lambda>q. if pl_id q = pl_id p \<and> pl_status q = PlPlanned
          then q\<lparr>pl_status := PlVoided, pl_hold_reason := take 64 (''promotion_rejected:'' @ code)\<rparr> else q"])
      (simp_all add: plan_key_def)
next
  case False
  then have "void_rejected_plan p code db = db" by (simp only: void_rejected_plan_def if_False)
  then show ?thesis by simp
qed

lemma safe_promote_in_mode: "promote_in_mode env mode p db = (r, db') \<Longrightarrow> safe_step db db'"
  by (auto simp: promote_in_mode_def promote_plan_to_demo_jobs_def promote_plan_to_shadow_jobs_def
      intro: safe_promote_plan split: if_splits)

lemma safe_plan_and_promote: "safe_step db (plan_and_promote_one env ap ts mode target db)"
proof (cases "assignment_account env target")
  case None
  then show ?thesis by (simp add: plan_and_promote_one_def)
next
  case (Some a)
  obtain r db1 where p: "plan_demo_execution env ap a ts None (Some target) db = (r, db1)" by fastforce
  note s1 = safe_planning [OF p]
  show ?thesis
  proof (cases r)
    case (Inl code)
    then have "plan_and_promote_one env ap ts mode target db = record_deferral ap (route_label mode @ ''_rejected:'' @ code) db1"
      using Some p by (simp add: plan_and_promote_one_def)
    then show ?thesis using safe_trans [OF s1 safe_deferral] by simp
  next
    case (Inr q)
    obtain r2 db2 where m: "promote_in_mode env mode q db1 = (r2, db2)" by fastforce
    have s2: "safe_step db db2" by (rule safe_trans [OF s1 safe_promote_in_mode [OF m]])
    have def: "safe_step db (record_deferral ap x db2)" for x
      by (rule safe_trans [OF s2 safe_deferral])
    have void: "safe_step db (void_rejected_plan q x (record_deferral ap y db2))" for x y
      by (rule safe_trans [OF def safe_void_rejected])
    show ?thesis
    proof (cases "pl_status q = PlPlanned")
      case False
      then show ?thesis using Some p Inr s1 by (simp add: plan_and_promote_one_def)
    next
      case True
      show ?thesis
      proof (cases r2)
        case (Inl e)
        then show ?thesis using Some p \<open>r = Inr q\<close> m True def void
          by (cases e) (simp_all add: plan_and_promote_one_def)
      next
        case (Inr js)
        then show ?thesis using Some p \<open>r = Inr q\<close> m True s2 by (simp add: plan_and_promote_one_def)
      qed
    qed
  qed
qed

lemma safe_fold: "(\<And>x db. safe_step db (f x db)) \<Longrightarrow> safe_step db (fold f xs db)"
  by (induction xs arbitrary: db) (auto intro: safe_trans)

lemma safe_approve_for_route: "approve_for_route actor ap mode db = (r, db') \<Longrightarrow> safe_step db db'"
  by (rule safe_same)
    (auto simp: approve_for_route_def approve_def decide_approval_def set_approval_status_def record_deferral_def Let_def
      split: option.splits if_splits)

lemma safe_auto_execute: "safe_step db (auto_execute env actor ap ts amode mode db)"
proof -
  obtain r db1 where a: "approve_for_route actor ap mode db = (r, db1)" by fastforce
  have "safe_step db1 (fold (plan_and_promote_one env ap' ts mode) xs db1)" for ap' xs
    by (rule safe_fold) (rule safe_plan_and_promote)
  then have "safe_step db (fold (plan_and_promote_one env ap' ts mode) xs db1)" for ap' xs
    using safe_approve_for_route [OF a] safe_trans by blast
  then show ?thesis using safe_approve_for_route [OF a] by (simp add: auto_execute_def a split: option.split)
qed

lemma safe_route: "safe_step db (route_acquired_signal env providers actor intaken approval ts db)"
  by (simp add: route_acquired_signal_def safe_auto_execute split: option.split prod.split)

section \<open>The protection sweep\<close>

lemma safe_supersede: "safe_step db (snd (supersede_pending_breakeven t db))"
proof (rule safe_jobs)
  show "jobs_advance db (snd (supersede_pending_breakeven t db))"
    by (rule jobs_advance_map [where f = "\<lambda>j. if superseded t j then retire_job j else j"])
      (auto simp: supersede_pending_breakeven_def advances_def retire_job_def superseded_def status_rank_def)
qed (simp_all add: supersede_pending_breakeven_def)

lemma safe_enqueue_modify:
  assumes "enqueue_modify cfg env a p l t sl s db = (r, db')"
  shows "safe_step db db' \<and> (\<forall>j. r = Inr (Some j) \<longrightarrow> jb_id j \<in> set (job_ids db'))"
proof -
  let ?u = "usable_username env (pl_account p)"
  show ?thesis
  proof (cases "?u = None \<or> td_ticket t = '''' \<or> protection_inflight db t s")
    case True
    then show ?thesis using assms by (auto simp: enqueue_modify_def split: option.splits)
  next
    case False
    then obtain u where u: "?u = Some u" by auto
    obtain r1 db1 where c: "create_job env ModifyPosition a None (modify_payload cfg p l t u sl s) db = (r1, db1)" by fastforce
    have d: "db' = db1" "\<forall>j. r = Inr (Some j) \<longrightarrow> r1 = Inr j"
      using assms False u c by (auto simp: enqueue_modify_def split: sum.splits)
    show ?thesis using d safe_create_job [OF c] create_job_refers c by metis
  qed
qed

lemma safe_set_leg:
  assumes "\<And>x. leg_key (f x) = leg_key x" "\<And>x. lg_job (f x) = lg_job x"
    "\<And>x. lg_breakeven_job (f x) = lg_breakeven_job x \<or> refers (job_ids db) (lg_breakeven_job (f x))"
  shows "safe_step db (set_leg l f db)"
  unfolding set_leg_def by (rule safe_update_leg) (use assms in auto)

lemma safe_advance_leg:
  assumes "advance_leg cfg env a p l t s target soft same db = (r, db')"
  shows "safe_step db db'"
proof (cases target)
  case None
  then show ?thesis using assms by (simp add: advance_leg_def)
next
  case (Some sl)
  show ?thesis
  proof (cases "is_risk_reducing (pl_direction p) target (baseline_sl p l t) = Some True")
    case False
    then show ?thesis using assms Some by (auto simp: advance_leg_def split: option.splits bool.splits)
  next
    case True
    let ?sup = "if s = StageTp2Locked then supersede_pending_breakeven t db else (0, db)"
    obtain n db1 where n: "?sup = (n, db1)" by fastforce
    have s1: "safe_step db db1" using n safe_supersede [of db t] by (auto split: if_splits dest: arg_cong [where f = snd])
    obtain r2 db2 where e: "enqueue_modify cfg env a p l t sl s db1 = (r2, db2)" by fastforce
    note s2 = safe_enqueue_modify [OF e]
    let ?f = "\<lambda>j x. x\<lparr>lg_breakeven_job := Some (jb_id j),
        lg_attempts := (if soft then lg_attempts x else if same then lg_attempts x + 1 else 1)\<rparr>"
    have "db' = db2 \<or> (\<exists>j. r2 = Inr (Some j) \<and> db' = set_leg l (?f j) db2)"
      using assms Some True n e by (auto simp: advance_leg_def Let_def split: sum.splits option.splits)
    then show ?thesis
    proof
      assume "\<exists>j. r2 = Inr (Some j) \<and> db' = set_leg l (?f j) db2"
      then obtain j where j: "r2 = Inr (Some j)" "db' = set_leg l (?f j) db2" by blast
      have "safe_step db2 (set_leg l (?f j) db2)"
        using s2 j(1) by (intro safe_set_leg) (simp_all add: leg_key_def refers_def)
      then show ?thesis using s1 s2 j(2) safe_trans by blast
    qed (use s1 s2 safe_trans in blast)
  qed
qed

lemma safe_overdue: "safe_step db (snd (overdue_check cfg env p l s trigger db))"
  by (auto simp: overdue_check_def split: option.split)

lemma safe_reconcile_leg:
  assumes "reconcile_leg cfg env a p l t s target trigger db = (r, db')"
  shows "safe_step db db'"
proof (cases "Option.bind (lg_breakeven_job l) (find_job db)")
  case None
  then show ?thesis using assms by (auto simp: reconcile_leg_def intro: safe_advance_leg)
next
  case (Some j)
  show ?thesis
  proof (cases "map_of (jb_payload j) ''protection_stage'' = Some (JStr (stage_name s))")
    case False
    then show ?thesis using assms Some by (auto simp: reconcile_leg_def intro: safe_advance_leg)
  next
    case True
    let ?chk = "if jb_status j \<noteq> JbSuccess then overdue_check cfg env p l s trigger db else ([], db)"
    obtain ev db1 where c: "?chk = (ev, db1)" by fastforce
    have s1: "safe_step db db1" using c safe_overdue [of db cfg env p l s trigger] by (auto split: if_splits)
    have adv: "safe_step db1 db2" if "advance_leg cfg env a p l t s target soft True db1 = (x, db2)" for soft x db2
      using that by (rule safe_advance_leg)
    let ?g = "\<lambda>x. x\<lparr>lg_stage := s, lg_applied_at := (case lg_applied_at x of None \<Rightarrow> Some (pe_now env) | Some w \<Rightarrow> Some w)\<rparr>"
    have st: "safe_step db1 (set_leg l ?g db1)" by (rule safe_set_leg) (simp_all add: leg_key_def)
    obtain x1 dba where a1: "advance_leg cfg env a p l t s target True True db1 = (x1, dba)" by fastforce
    obtain x2 dbb where a2: "advance_leg cfg env a p l t s target False True db1 = (x2, dbb)" by fastforce
    have "db' \<in> {db1, set_leg l ?g db1, dba, dbb, raise_alert (alert_key ''tp_protection_failed'' p l s) ''CRITICAL'' db1}"
      using assms Some True c a1 a2
      by (auto simp: reconcile_leg_def Let_def split: job_status.splits if_splits sum.splits)
    then show ?thesis using s1 st adv [OF a1] adv [OF a2] safe_alert safe_trans by blast
  qed
qed

lemma safe_protect_leg:
  assumes "protect_leg cfg env a p legs allow l db = (r, db')"
  shows "safe_step db db'"
proof (cases "lg_index l = 1 \<or> leg_trade db p l = None \<or> td_close_time (the (leg_trade db p l)) \<noteq> None \<or>
     desired_stage (sw_reach cfg) db p legs allow l = None")
  case True
  then show ?thesis using assms by (auto simp: protect_leg_def Let_def split: option.splits if_splits)
next
  case False
  then obtain t s target where t: "leg_trade db p l = Some t" "td_close_time t = None" "lg_index l \<noteq> 1"
    "desired_stage (sw_reach cfg) db p legs allow l = Some (s, target)" by auto
  obtain x db1 where r: "reconcile_leg cfg env a p l t s target
      (Option.bind (leg_at legs (if s = StageTp2Locked then 2 else 1)) (leg_trade db p)) db = (x, db1)" by fastforce
  have "db' = db \<or> db' = db1"
    using assms t r by (auto simp: protect_leg_def Let_def split: sum.splits if_splits)
  then show ?thesis using safe_reconcile_leg [OF r] by auto
qed

lemma safe_protect_legs: "protect_legs cfg env a p legs allow ls db = (r, db') \<Longrightarrow> safe_step db db'"
proof (induction ls arbitrary: db r)
  case (Cons l ls)
  obtain x db1 where c: "protect_leg cfg env a p legs allow l db = (x, db1)" by fastforce
  obtain y db2 where d: "protect_legs cfg env a p legs allow ls db1 = (y, db2)" by fastforce
  have "db' = db1 \<or> db' = db2" using Cons.prems c d by (auto split: sum.splits)
  moreover have "db' = db2 \<Longrightarrow> safe_step db1 db'" using Cons.IH [of db1 y] d by simp
  ultimately show ?case using safe_protect_leg [OF c] safe_trans by blast
qed simp

lemma safe_protect_plans: "protect_plans cfg env ps db = (r, db') \<Longrightarrow> safe_step db db'"
proof (induction ps arbitrary: db r)
  case (Cons p ps)
  show ?case
  proof (cases "account_by_id env (pl_account p)")
    case None
    then show ?thesis using Cons by simp
  next
    case (Some a)
    obtain x db1 where c: "protect_legs cfg env a p (legs_of db (pl_id p))
        (pl_source p \<in> set (incremental_sources db)) (legs_of db (pl_id p)) db = (x, db1)" by fastforce
    obtain y db2 where d: "protect_plans cfg env ps db1 = (y, db2)" by fastforce
    have "db' = db1 \<or> db' = db2" using Cons.prems Some c d by (auto split: sum.splits)
    moreover have "db' = db2 \<Longrightarrow> safe_step db1 db'" using Cons.IH [of db1 y] d by simp
    ultimately show ?thesis using safe_protect_legs [OF c] safe_trans by blast
  qed
qed simp

lemma safe_position_sync: "safe_step db (ensure_position_sync_one env account db)"
proof -
  have "safe_step db (snd (create_job env ty a o' pay db))" for ty a o' pay
    using safe_create_job [of env ty a o' pay db] by (metis prod.collapse)
  then show ?thesis by (simp add: ensure_position_sync_one_def split: option.split)
qed

lemma safe_sweep:
  assumes "sweep_breakeven cfg env sources limit db = (r, db')"
  shows "safe_step db db'"
proof (cases "sw_enabled cfg")
  case False
  then show ?thesis using assms by (simp add: sweep_breakeven_def)
next
  case True
  have "safe_step db (ensure_position_sync env accounts db)" for accounts
    unfolding ensure_position_sync_def by (rule safe_fold) (rule safe_position_sync)
  with True assms safe_protect_plans safe_trans show ?thesis
    unfolding sweep_breakeven_def Let_def by (metis (no_types, lifting))
qed

section \<open>Workers, commands and settlement\<close>

lemma complete_tables:
  "db_plans (snd (complete qe env c i status result err db)) = db_plans db \<and>
   db_legs (snd (complete qe env c i status result err db)) = db_legs db \<and>
   db_next_plan (snd (complete qe env c i status result err db)) = db_next_plan db"
proof -
  have q: "db_plans (snd (queue_sync_positions env j d)) = db_plans d \<and> db_legs (snd (queue_sync_positions env j d)) = db_legs d \<and>
      db_next_plan (snd (queue_sync_positions env j d)) = db_next_plan d" for j d
    by (auto simp: queue_sync_positions_def create_job_def update_job_def Let_def split: option.split)
  show ?thesis
    using q by (auto simp: complete_unfold update_job_def Let_def case_prod_beta split: option.split)
qed

lemma safe_complete: "safe_step db (snd (complete qe env c i status result err db))"
  using complete_tables [of qe env c i status result err db] by (intro safe_jobs) (simp_all add: complete_advance)

lemma next_job_tables:
  assumes "next_job qe env c q locked db = (r, db')"
  shows "db_plans db' = db_plans db \<and> db_legs db' = db_legs db \<and> db_next_plan db' = db_next_plan db"
  using assms
  by (auto simp: next_job_def fail_job_def update_job_def Let_def split: if_splits option.splits claim_gate.splits)

lemma safe_next_job: "next_job qe env c q locked db = (r, db') \<Longrightarrow> safe_step db db'"
  by (intro safe_jobs) (simp_all add: next_job_tables next_job_advance)

lemma safe_command_run:
  assumes "command_run C N V db db'"
  shows "safe_step db db'"
proof -
  from assms obtain v where v: "db_plans db' = map v (db_plans db)"
    "\<forall>p. v p = p \<or> V p \<and> pl_status p = PlPlanned \<and> v p = p\<lparr>pl_status := PlVoided\<rparr>"
    unfolding command_run_def plans_effect_def by blast
  have id: "pl_id (v p) = pl_id p" "plan_key (v p) = plan_key p" for p
    using spec [OF v(2), of p] by (elim disjE conjE; simp add: plan_key_def)+
  let ?mid = "db\<lparr>db_plans := map v (db_plans db)\<rparr>"
  have "safe_step db ?mid" by (rule safe_plans [where f = v]) (simp_all add: id)
  moreover have "safe_step ?mid db'"
  proof (rule safe_jobs)
    have "jobs_advance db db'" using assms by (simp add: command_run_def)
    then show "jobs_advance ?mid db'" by (simp add: jobs_advance_def)
  qed (use assms v in \<open>simp_all add: command_run_def promotion_frame_def\<close>)
  ultimately show ?thesis by (rule safe_trans)
qed

lemma safe_commands: "apply_provider_commands cc env db = (ev, db') \<Longrightarrow> safe_step db db'"
  by (rule safe_command_run) (rule apply_provider_commands_run)

lemma safe_settle_plan: "safe_step db (snd (settle_plan p db))"
proof -
  have "safe_step db (update_plan (pl_id p) (\<lambda>q. if pl_status q = PlPromoted then q\<lparr>pl_status := PlClosed\<rparr> else q) db)"
    by (rule safe_plan_status) (simp_all add: plan_key_def)
  then show ?thesis by (simp add: settle_plan_def)
qed

lemma safe_settle_plans: "settle_plans ps db = (ev, db') \<Longrightarrow> safe_step db db'"
proof (induction ps arbitrary: db ev)
  case (Cons p ps)
  obtain ev1 db1 where c: "settle_plan p db = (ev1, db1)" by fastforce
  obtain ev2 db2 where d: "settle_plans ps db1 = (ev2, db2)" by fastforce
  have "db' = db2" using Cons.prems c d by simp
  then have "safe_step db1 db'" using Cons.IH [of db1 ev2] d by simp
  moreover have "safe_step db db1" using safe_settle_plan [of db p] c by simp
  ultimately show ?case using safe_trans by blast
qed simp

lemma safe_resolve: "resolve_completed_plans limit account db = (ev, db') \<Longrightarrow> safe_step db db'"
  unfolding resolve_completed_plans_def by (rule safe_settle_plans)

lemma safe_reconcile:
  assumes "reconcile_stale_preactivation_orders qe env ws locked account older_us limit do_apply db = (r, db')"
  shows "safe_step db db'"
proof -
  let ?good = "filter (\<lambda>p. stale_verdict db p = None) (scan_stale account (pe_now env - older_us) limit db)"
  let ?db1 = "snd (cancel_plans locked (map pl_id ?good) db)"
  have 1: "safe_step db ?db1" by (rule safe_command_run [OF cancel_plans_run])
  obtain ev db2 where 2: "resolve_completed_plans (max limit (length ?good + 1)) (Some account) ?db1 = (ev, db2)"
    by (rule prod.exhaust)
  have "db' = db \<or> db' = db2" using reconcile_applied [OF assms] unfolding Let_def 2 snd_conv by blast
  then show ?thesis using safe_trans [OF 1 safe_resolve [OF 2]] by auto
qed

section \<open>The machine\<close>

datatype pipe_event = Handed nat | Finished nat | Silent

text \<open>
  \<open>world\<close> stands for what other parts write: ingested trades, intake and review, commands, switches,
  source settings, assignments and broker symbols, all without touching plans, legs and jobs.
\<close>

definition same_orders :: "pipe_db \<Rightarrow> pipe_db \<Rightarrow> bool" where
  "same_orders db db' \<longleftrightarrow>
     db_plans db' = db_plans db \<and> db_legs db' = db_legs db \<and> db_jobs db' = db_jobs db \<and>
     db_next_plan db' = db_next_plan db \<and> db_next_job db' = db_next_job db"

inductive pipe_step :: "pipe_db \<Rightarrow> pipe_event \<Rightarrow> pipe_db \<Rightarrow> bool" where
  route: "pipe_step db Silent (route_acquired_signal env providers actor intaken approval ts db)"
| promote: "promote_in_mode env mode p db = (r, db') \<Longrightarrow> pipe_step db Silent db'"
| sweep: "sweep_breakeven cfg env sources limit db = (r, db') \<Longrightarrow> pipe_step db Silent db'"
| claimed: "next_job qe env c q locked db = (Claimed j, db') \<Longrightarrow> pipe_step db (Handed (jb_id j)) db'"
| unclaimed: "next_job qe env c q locked db = (r, db') \<Longrightarrow> \<forall>j. r \<noteq> Claimed j \<Longrightarrow> pipe_step db Silent db'"
| completed: "complete qe env c i status result err db = (Completed s, db') \<Longrightarrow> pipe_step db (Finished i) db'"
| commands: "apply_provider_commands cc env db = (ev, db') \<Longrightarrow> pipe_step db Silent db'"
| settle: "resolve_completed_plans limit account db = (ev, db') \<Longrightarrow> pipe_step db Silent db'"
| reconcile: "reconcile_stale_preactivation_orders qe env ws locked account older_us limit do_apply db = (r, db')
    \<Longrightarrow> pipe_step db Silent db'"
| world: "same_orders db db' \<Longrightarrow> pipe_step db Silent db'"

inductive pipe_run :: "pipe_db \<Rightarrow> pipe_event list \<Rightarrow> pipe_db \<Rightarrow> bool" where
  start: "pipe_run db [] db"
| continue: "pipe_step db e db1 \<Longrightarrow> pipe_run db1 es db' \<Longrightarrow> pipe_run db (e # es) db'"

inductive_cases handed_cases: "pipe_step db (Handed i) db'"
inductive_cases finished_cases: "pipe_step db (Finished i) db'"

fun handed :: "pipe_event list \<Rightarrow> nat list" where
  "handed [] = []"
| "handed (e # es) = (case e of Handed i \<Rightarrow> i # handed es | _ \<Rightarrow> handed es)"

fun finished :: "pipe_event list \<Rightarrow> nat list" where
  "finished [] = []"
| "finished (e # es) = (case e of Finished i \<Rightarrow> i # finished es | _ \<Rightarrow> finished es)"

lemma pipe_step_safe: "pipe_step db e db' \<Longrightarrow> safe_step db db'"
proof (induction rule: pipe_step.induct)
  case (completed qe env c i status result err db s db')
  then show ?case using safe_complete [of db qe env c i status result err] by simp
next
  case (world db db')
  then show ?case by (intro safe_same) (simp_all add: same_orders_def)
qed (auto intro: safe_route safe_promote_in_mode safe_sweep safe_next_job safe_commands safe_resolve safe_reconcile)

lemma pipe_run_safe: "pipe_run db es db' \<Longrightarrow> safe_step db db'"
  by (induction rule: pipe_run.induct) (auto intro: pipe_step_safe safe_trans)

text \<open>How far a job is; unknown ones count as pending.\<close>

definition job_rank :: "pipe_db \<Rightarrow> nat \<Rightarrow> nat" where
  "job_rank db i = (case find_job db i of None \<Rightarrow> 0 | Some j \<Rightarrow> status_rank (jb_status j))"

lemma find_job_mem: "job_ids_ok db \<Longrightarrow> j \<in> set (db_jobs db) \<Longrightarrow> find_job db (jb_id j) = Some j"
proof -
  assume a: "job_ids_ok db" "j \<in> set (db_jobs db)"
  then obtain x where "find_job db (jb_id j) = Some x" by (cases "find_job db (jb_id j)") (auto simp: find_job_def find_None_iff)
  moreover have "x \<in> set (db_jobs db)" "jb_id x = jb_id j" using calculation by (auto simp: find_job_def dest: find_SomeD)
  ultimately show ?thesis using a by (metis distinct_map_eq job_ids_ok_def)
qed

lemma jobs_advance_successor:
  assumes "jobs_advance db db'" "j \<in> set (db_jobs db)"
  shows "\<exists>j' \<in> set (db_jobs db'). jb_id j' = jb_id j"
proof -
  from assms(1) obtain f n where "advances f" "db_jobs db' = map f (db_jobs db) @ n" unfolding jobs_advance_def by blast
  with assms(2) have "f j \<in> set (db_jobs db')" "jb_id (f j) = jb_id j" by (simp_all add: advances_def)
  then show ?thesis by blast
qed

lemma job_rank_mono:
  assumes "jobs_advance db db'" "job_ids_ok db"
  shows "job_rank db i \<le> job_rank db' i"
proof (cases "find_job db i")
  case (Some j)
  then have j: "j \<in> set (db_jobs db)" "jb_id j = i" by (auto simp: find_job_def dest: find_SomeD)
  obtain j' where j': "j' \<in> set (db_jobs db')" "jb_id j' = jb_id j" using jobs_advance_successor [OF assms(1) j(1)] by blast
  have "find_job db' i = Some j'" using find_job_mem [OF jobs_advance_ids [OF assms] j'(1)] j'(2) j(2) by simp
  with Some jobs_advance_row [OF assms j(1) j'] show ?thesis by (auto simp: job_rank_def)
qed (simp add: job_rank_def)

lemma handed_rank:
  assumes "pipe_step db (Handed i) db'" "tables_wf db"
  shows "job_rank db i = 0 \<and> job_rank db' i = 1"
proof -
  from assms(1) obtain qe env c q locked j where 1: "i = jb_id j" "next_job qe env c q locked db = (Claimed j, db')"
    by (auto elim: handed_cases)
  have ids: "job_ids_ok db" using assms(2) by (simp add: tables_wf_def)
  have ids': "job_ids_ok db'" by (rule jobs_advance_ids [OF next_job_advance [OF ids 1(2)] ids])
  from 1(2) show ?thesis
  proof (cases rule: next_job_cases)
    case (claimed k)
    have p: "jb_status k = JbPending" using pick_job_Some(2) [OF claimed(3)] by (simp add: claimable_def)
    have "start_job qe env q k \<in> set (db_jobs db')"
      using claimed(2) unfolding claimed(6) update_job_def by (auto intro!: image_eqI [of _ _ k])
    from find_job_mem [OF ids' this] find_job_mem [OF ids claimed(2)] show ?thesis
      using p claimed(1) 1(1) by (simp add: job_rank_def status_rank_def)
  qed simp_all
qed

lemma finished_rank:
  assumes "pipe_step db (Finished i) db'" "tables_wf db"
  shows "job_rank db i = 1 \<and> job_rank db' i = 2"
proof -
  from assms(1) obtain qe env c status result err s where 1: "complete qe env c i status result err db = (Completed s, db')"
    by (auto elim: finished_cases)
  have ids: "job_ids_ok db" using assms(2) by (simp add: tables_wf_def)
  have ids': "job_ids_ok db'" using jobs_advance_ids [OF complete_advance [OF ids] ids] 1 by (metis snd_conv)
  let ?s = "if status = ''SUCCESS'' then JbSuccess else JbFailed"
  obtain j where j: "j \<in> set (db_jobs db)" "jb_id j = i" "jb_status j = JbRunning" "finish_job ?s result err j \<in> set (db_jobs db')"
    using completed_row [OF ids 1] by blast
  have "jb_id (finish_job ?s result err j) = i" "status_rank (jb_status (finish_job ?s result err j)) = 2"
    using j(2) by (simp_all add: finish_job_def status_rank_def)
  with find_job_mem [OF ids j(1)] find_job_mem [OF ids' j(4)] j(2,3) show ?thesis by (simp add: job_rank_def status_rank_def)
qed

section \<open>Properties of every run\<close>

text \<open>The rows a run starts from: a final job is never written again.\<close>

lemma final_kept:
  assumes "jobs_advance db db'" "j \<in> set (db_jobs db)" "status_rank (jb_status j) = 2"
  shows "j \<in> set (db_jobs db')"
proof -
  from assms(1) obtain f n where f: "advances f" "db_jobs db' = map f (db_jobs db) @ n" unfolding jobs_advance_def by blast
  have "status_rank (jb_status (f j)) \<le> 2" by (simp add: status_rank_def split: job_status.split)
  then have "f j = j" using f(1) assms(3) by (auto simp: advances_def)
  with f(2) assms(2) show ?thesis by (metis UnI1 image_eqI set_append set_map)
qed

lemma run_handed:
  "pipe_run db es db' \<Longrightarrow> tables_wf db \<Longrightarrow> distinct (handed es) \<and> (\<forall>i \<in> set (handed es). job_rank db i = 0)"
proof (induction rule: pipe_run.induct)
  case (continue db e db1 es db')
  have s: "jobs_advance db db1" "tables_wf db1"
    using pipe_step_safe [OF continue.hyps(1)] continue.prems by (simp_all add: safe_step_def)
  have ids: "job_ids_ok db" using continue.prems by (simp add: tables_wf_def)
  have ih: "distinct (handed es)" "\<forall>i \<in> set (handed es). job_rank db1 i = 0" using continue.IH s(2) by simp_all
  then have z: "\<forall>i \<in> set (handed es). job_rank db i = 0" using job_rank_mono [OF s(1) ids] by (metis le_zero_eq)
  show ?case
  proof (cases e)
    case (Handed i)
    have r: "job_rank db i = 0" "job_rank db1 i = 1"
      using handed_rank [OF continue.hyps(1) [unfolded Handed] continue.prems] by simp_all
    then have "i \<notin> set (handed es)" using ih(2) by force
    with ih(1) z r(1) Handed show ?thesis by simp
  qed (use ih z in simp_all)
qed simp

lemma run_finished:
  "pipe_run db es db' \<Longrightarrow> tables_wf db \<Longrightarrow> distinct (finished es) \<and> (\<forall>i \<in> set (finished es). job_rank db i \<le> 1)"
proof (induction rule: pipe_run.induct)
  case (continue db e db1 es db')
  have s: "jobs_advance db db1" "tables_wf db1"
    using pipe_step_safe [OF continue.hyps(1)] continue.prems by (simp_all add: safe_step_def)
  have ids: "job_ids_ok db" using continue.prems by (simp add: tables_wf_def)
  have ih: "distinct (finished es)" "\<forall>i \<in> set (finished es). job_rank db1 i \<le> 1" using continue.IH s(2) by simp_all
  then have z: "\<forall>i \<in> set (finished es). job_rank db i \<le> 1" using job_rank_mono [OF s(1) ids] by (meson order_trans)
  show ?case
  proof (cases e)
    case (Finished i)
    have r: "job_rank db i = 1" "job_rank db1 i = 2"
      using finished_rank [OF continue.hyps(1) [unfolded Finished] continue.prems] by simp_all
    then have "i \<notin> set (finished es)" using ih(2) by force
    with ih(1) z r(1) Finished show ?thesis by simp
  qed (use ih z in simp_all)
qed simp

text \<open>
  Whatever the pipeline does, the tables stay well-formed: keys are unique and below their counters, there
  is one plan per approval and account, and every leg belongs to a stored plan and refers to stored jobs.
\<close>

theorem pipeline_stays_well_formed:
  assumes "pipe_run db es db'" "tables_wf db"
  shows "job_ids_ok db' \<and> plans_unique db' \<and> distinct (map leg_key (db_legs db')) \<and>
         list_all (\<lambda>l. list_ex (\<lambda>p. pl_id p = lg_plan l) (db_plans db') \<and>
           refers (map jb_id (db_jobs db')) (lg_job l) \<and> refers (map jb_id (db_jobs db')) (lg_breakeven_job l)) (db_legs db')"
proof -
  have "tables_wf db'" using pipe_run_safe [OF assms(1)] assms(2) by (simp add: safe_step_def)
  moreover have "list_ex (\<lambda>p. pl_id p = lg_plan l) (db_plans db')" if "leg_wf db' l" for l
    using that by (force simp: leg_wf_def list_ex_iff)
  ultimately show ?thesis by (simp add: tables_wf_def list_all_iff leg_wf_def job_ids_def)
qed


section \<open>Witnesses\<close>

lemma waiting_wf: "tables_wf waiting_db"
  by code_simp

lemma demo_pipe_run: "pipe_run waiting_db [Handed 6, Finished 6] completed_db"
proof -
  have "jb_id demo_running = 6" by (simp add: demo_running_def waiting_job_def third_job_def)
  then have "pipe_step waiting_db (Handed 6) claimed_db" using claimed [OF demo_claim] by simp
  moreover have "pipe_step claimed_db (Finished 6) completed_db" by (rule completed [OF demo_completion])
  ultimately show ?thesis using pipe_run.start pipe_run.continue by metis
qed

theorem pipeline_stays_well_formed_witness: "plans_unique completed_db \<and> job_ids_ok completed_db"
  using pipeline_stays_well_formed [OF demo_pipe_run waiting_wf] by blast


end
