(* ===== verification/CopierDiff.thy ===== *)
theory CopierDiff
  imports Prelude "HOL-Library.Product_Lexorder" "HOL-Library.Multiset"
begin

text \<open>
  The master-position diff of the trade copier (\<^verbatim>\<open>trade_copier/diff.py\<close>) and the named change taxonomy on
  top of it (\<^verbatim>\<open>trade_copier/change_types.py\<close>). Floats are finite and exact. The iteration order of the
  ticket set, which Python leaves open, is an argument.
\<close>

section \<open>Positions and events\<close>

record observed_position =
  op_ticket :: int
  op_symbol :: string
  op_side :: string
  op_volume :: rat
  op_sl :: "rat option"
  op_tp :: "rat option"
  op_price_open :: "rat option"
  op_price_current :: "rat option"
  op_magic :: "int option"
  op_comment :: string

datatype event_type =
    EvOpen | EvVolumeIncrease | EvPartialClose | EvSlSet | EvSlChange | EvSlRemove | EvTpSet | EvTpChange | EvTpRemove
  | EvFullClose

record event_spec =
  ev_type :: event_type
  ev_ticket :: int
  ev_symbol :: string
  ev_side :: string
  ev_volume_before :: rat
  ev_volume_after :: rat
  ev_prev_sl :: "rat option"
  ev_new_sl :: "rat option"
  ev_prev_tp :: "rat option"
  ev_new_tp :: "rat option"

definition event_rank :: "event_type \<Rightarrow> nat" where
  "event_rank e =
     (case e of EvOpen \<Rightarrow> 0 | EvVolumeIncrease \<Rightarrow> 1 | EvPartialClose \<Rightarrow> 2
      | EvSlSet \<Rightarrow> 3 | EvSlChange \<Rightarrow> 3 | EvSlRemove \<Rightarrow> 3
      | EvTpSet \<Rightarrow> 4 | EvTpChange \<Rightarrow> 4 | EvTpRemove \<Rightarrow> 4 | EvFullClose \<Rightarrow> 5)"

definition volume_eps :: rat where "volume_eps = 5 / 1000"
definition price_eps :: rat where "price_eps = 1 / 10 ^ 9"

text \<open>Rounding to \<open>k\<close> places, ties to even.\<close>

definition round_even :: "rat \<Rightarrow> int" where
  "round_even x =
     (let f = \<lfloor>x\<rfloor>; d = x - of_int f in
      if d < 1 / 2 then f else if 1 / 2 < d then f + 1 else if even f then f else f + 1)"

definition quantize :: "nat \<Rightarrow> rat \<Rightarrow> rat" where
  "quantize k x = of_int (round_even (x * 10 ^ k)) / 10 ^ k"

definition volume_delta :: "event_spec \<Rightarrow> rat" where
  "volume_delta e = quantize 6 (ev_volume_after e - ev_volume_before e)"

section \<open>Levels\<close>

definition has_level :: "rat option \<Rightarrow> bool" where
  "has_level v = (case v of None \<Rightarrow> False | Some x \<Rightarrow> \<bar>x\<bar> > price_eps)"

definition level_value :: "rat option \<Rightarrow> rat" where
  "level_value v = (case v of None \<Rightarrow> 0 | Some x \<Rightarrow> x)"

definition levels_differ :: "rat option \<Rightarrow> rat option \<Rightarrow> bool" where
  "levels_differ a b \<longleftrightarrow> \<bar>level_value a - level_value b\<bar> > price_eps"

section \<open>The diff\<close>

definition base_event :: "event_type \<Rightarrow> observed_position \<Rightarrow> rat \<Rightarrow> rat \<Rightarrow> event_spec" where
  "base_event ty p before after =
     \<lparr>ev_type = ty, ev_ticket = op_ticket p, ev_symbol = op_symbol p, ev_side = op_side p,
      ev_volume_before = before, ev_volume_after = after,
      ev_prev_sl = None, ev_new_sl = None, ev_prev_tp = None, ev_new_tp = None\<rparr>"

definition level_type :: "event_type \<Rightarrow> event_type \<Rightarrow> event_type \<Rightarrow> rat option \<Rightarrow> rat option \<Rightarrow> event_type" where
  "level_type set_ty remove_ty change_ty a b =
     (if \<not> has_level a \<and> has_level b then set_ty else if has_level a \<and> \<not> has_level b then remove_ty else change_ty)"

definition level_events :: "observed_position \<Rightarrow> observed_position \<Rightarrow> event_spec list" where
  "level_events prev new =
     (if levels_differ (op_sl prev) (op_sl new)
      then [(base_event (level_type EvSlSet EvSlRemove EvSlChange (op_sl prev) (op_sl new)) new (op_volume prev) (op_volume new))
              \<lparr>ev_prev_sl := op_sl prev, ev_new_sl := op_sl new\<rparr>] else []) @
     (if levels_differ (op_tp prev) (op_tp new)
      then [(base_event (level_type EvTpSet EvTpRemove EvTpChange (op_tp prev) (op_tp new)) new (op_volume prev) (op_volume new))
              \<lparr>ev_prev_tp := op_tp prev, ev_new_tp := op_tp new\<rparr>] else [])"

definition volume_events :: "observed_position \<Rightarrow> observed_position \<Rightarrow> event_spec list" where
  "volume_events before after =
     (let dv = op_volume after - op_volume before in
      if dv < - volume_eps then [base_event EvPartialClose after (op_volume before) (op_volume after)]
      else if dv > volume_eps then [base_event EvVolumeIncrease after (op_volume before) (op_volume after)]
      else [])"

definition diff_ticket :: "observed_position option \<Rightarrow> observed_position option \<Rightarrow> event_spec list" where
  "diff_ticket before after =
     (case (before, after) of
        (None, None) \<Rightarrow> []
      | (None, Some a) \<Rightarrow> [(base_event EvOpen a 0 (op_volume a))\<lparr>ev_new_sl := op_sl a, ev_new_tp := op_tp a\<rparr>]
      | (Some b, None) \<Rightarrow> [(base_event EvFullClose b (op_volume b) 0)\<lparr>ev_prev_sl := op_sl b, ev_prev_tp := op_tp b\<rparr>]
      | (Some b, Some a) \<Rightarrow> volume_events b a @ level_events b a)"

text \<open>A snapshot by ticket; of duplicates the last row wins.\<close>

definition position_of :: "observed_position list \<Rightarrow> int \<Rightarrow> observed_position option" where
  "position_of ps t = find (\<lambda>p. op_ticket p = t) (rev ps)"

definition event_order :: "event_spec \<Rightarrow> int \<times> nat" where
  "event_order e = (ev_ticket e, event_rank (ev_type e))"

definition diff_positions ::
  "int list \<Rightarrow> observed_position list \<Rightarrow> observed_position list \<Rightarrow> event_spec list" where
  "diff_positions tickets prev new =
     sort_key event_order (concat (map (\<lambda>t. diff_ticket (position_of prev t) (position_of new t)) tickets))"

text \<open>An enumeration of the tickets of both snapshots.\<close>

definition enumerates :: "int list \<Rightarrow> observed_position list \<Rightarrow> observed_position list \<Rightarrow> bool" where
  "enumerates ts prev new \<longleftrightarrow> distinct ts \<and> set ts = op_ticket ` set prev \<union> op_ticket ` set new"

section \<open>Named changes\<close>

datatype change_type =
    EntryOpened | StopLossAdded | StopLossChanged | StopLossRemoved | TakeProfitAdded | TakeProfitChanged
  | TakeProfitRemoved | SlTpChangedTogether | PartialClose | VolumeIncreased | PositionClosed

record detected_change =
  dc_type :: change_type
  dc_ticket :: int
  dc_symbol :: string
  dc_side :: string
  dc_volume_before :: rat
  dc_volume_after :: rat
  dc_prev_sl :: "rat option"
  dc_new_sl :: "rat option"
  dc_prev_tp :: "rat option"
  dc_new_tp :: "rat option"
  dc_sources :: "event_type list"

definition change_type_for :: "event_type \<Rightarrow> change_type" where
  "change_type_for e =
     (case e of EvOpen \<Rightarrow> EntryOpened | EvFullClose \<Rightarrow> PositionClosed | EvPartialClose \<Rightarrow> PartialClose
      | EvVolumeIncrease \<Rightarrow> VolumeIncreased | EvSlSet \<Rightarrow> StopLossAdded | EvSlChange \<Rightarrow> StopLossChanged
      | EvSlRemove \<Rightarrow> StopLossRemoved | EvTpSet \<Rightarrow> TakeProfitAdded | EvTpChange \<Rightarrow> TakeProfitChanged
      | EvTpRemove \<Rightarrow> TakeProfitRemoved)"

definition is_sl_type :: "event_type \<Rightarrow> bool" where
  "is_sl_type e \<longleftrightarrow> e \<in> {EvSlSet, EvSlChange, EvSlRemove}"

definition is_tp_type :: "event_type \<Rightarrow> bool" where
  "is_tp_type e \<longleftrightarrow> e \<in> {EvTpSet, EvTpChange, EvTpRemove}"

definition single_change :: "event_spec \<Rightarrow> detected_change" where
  "single_change e =
     \<lparr>dc_type = change_type_for (ev_type e), dc_ticket = ev_ticket e, dc_symbol = ev_symbol e, dc_side = ev_side e,
      dc_volume_before = ev_volume_before e, dc_volume_after = ev_volume_after e, dc_prev_sl = ev_prev_sl e,
      dc_new_sl = ev_new_sl e, dc_prev_tp = ev_prev_tp e, dc_new_tp = ev_new_tp e, dc_sources = [ev_type e]\<rparr>"

definition joint_change :: "event_spec \<Rightarrow> event_spec \<Rightarrow> detected_change" where
  "joint_change s t =
     \<lparr>dc_type = SlTpChangedTogether, dc_ticket = ev_ticket s, dc_symbol = ev_symbol s, dc_side = ev_side s,
      dc_volume_before = ev_volume_before s, dc_volume_after = ev_volume_after s, dc_prev_sl = ev_prev_sl s,
      dc_new_sl = ev_new_sl s, dc_prev_tp = ev_prev_tp t, dc_new_tp = ev_new_tp t, dc_sources = [ev_type s, ev_type t]\<rparr>"

text \<open>The first stop and the first target event of a group are handled together; identity is the place in the list.\<close>

fun remove_first :: "('a \<Rightarrow> bool) \<Rightarrow> 'a list \<Rightarrow> 'a list" where
  "remove_first P [] = []"
| "remove_first P (x # xs) = (if P x then xs else x # remove_first P xs)"

definition classify_group :: "event_spec list \<Rightarrow> detected_change list" where
  "classify_group g =
     (case (find (\<lambda>e. is_sl_type (ev_type e)) g, find (\<lambda>e. is_tp_type (ev_type e)) g) of
        (Some s, Some t) \<Rightarrow>
          joint_change s t #
          map single_change (remove_first (\<lambda>e. is_tp_type (ev_type e)) (remove_first (\<lambda>e. is_sl_type (ev_type e)) g))
      | _ \<Rightarrow> map single_change g)"

definition classify_events :: "event_spec list \<Rightarrow> detected_change list" where
  "classify_events es =
     concat (map (\<lambda>t. classify_group (filter (\<lambda>e. ev_ticket e = t) es)) (rev (remdups (rev (map ev_ticket es)))))"

definition classify_position_changes ::
  "int list \<Rightarrow> observed_position list \<Rightarrow> observed_position list \<Rightarrow> detected_change list" where
  "classify_position_changes tickets prev new = classify_events (diff_positions tickets prev new)"

section \<open>The order of tickets does not matter\<close>

lemma position_of_ticket: "position_of ps t = Some p \<Longrightarrow> op_ticket p = t \<and> p \<in> set ps"
  by (auto simp: position_of_def dest: find_SomeD)

lemma position_of_None: "position_of ps t = None \<longleftrightarrow> t \<notin> op_ticket ` set ps"
  by (auto simp: position_of_def find_None_iff)

abbreviation ticket_events :: "observed_position list \<Rightarrow> observed_position list \<Rightarrow> int \<Rightarrow> event_spec list" where
  "ticket_events prev new t \<equiv> diff_ticket (position_of prev t) (position_of new t)"

lemma base_event_fields [simp]:
  "ev_ticket (base_event ty p a b) = op_ticket p" "ev_type (base_event ty p a b) = ty"
  "ev_volume_after (base_event ty p a b) = b"
  by (simp_all add: base_event_def)

lemma ticket_events_ticket: "e \<in> set (ticket_events prev new t) \<Longrightarrow> ev_ticket e = t"
  by (cases "position_of prev t"; cases "position_of new t")
     (auto simp: diff_ticket_def volume_events_def level_events_def Let_def dest: position_of_ticket split: if_splits)

lemma diff_ticket_ranks: "sorted (map (event_rank \<circ> ev_type) (diff_ticket b a))"
  by (auto simp: diff_ticket_def volume_events_def level_events_def level_type_def event_rank_def Let_def
      split: option.splits)

lemma concat_select:
  "distinct ts \<Longrightarrow> t \<in> set ts \<Longrightarrow> (\<And>u. u \<noteq> t \<Longrightarrow> filter Q (F u) = []) \<Longrightarrow> filter Q (concat (map F ts)) = filter Q (F t)"
proof (induction ts)
  case (Cons u ts)
  show ?case
  proof (cases "u = t")
    case True
    have "filter Q (F v) = []" if "v \<in> set ts" for v
      by (rule Cons.prems(3)) (use that Cons.prems(1) True in auto)
    then have "filter Q (concat (map F ts)) = []" by (simp add: filter_concat)
    with True show ?thesis by simp
  next
    case False
    with Cons.prems have "t \<in> set ts" "distinct ts" "filter Q (F u) = []" by auto
    with Cons.IH Cons.prems(3) show ?thesis by simp
  qed
qed simp

lemma mset_concat_map: "mset (concat (map F xs)) = (\<Sum>x\<in>#mset xs. mset (F x))"
  by (induction xs) simp_all

lemma ticket_blocks_sorted:
  "sorted_wrt (<) ts \<Longrightarrow> sorted (map event_order (concat (map (ticket_events prev new) ts)))"
proof (induction ts)
  case (Cons t ts)
  have blk: "sorted (map event_order (ticket_events prev new t))"
    using diff_ticket_ranks [of "position_of prev t" "position_of new t"]
    unfolding sorted_map comp_def
    by (rule sorted_wrt_mono_rel [rotated]) (simp add: event_order_def ticket_events_ticket)
  have "event_order x \<le> event_order y"
    if "x \<in> set (ticket_events prev new t)" "y \<in> set (concat (map (ticket_events prev new) ts))" for x y
  proof -
    from that(2) obtain u where "u \<in> set ts" "y \<in> set (ticket_events prev new u)" by auto
    then have "ev_ticket x < ev_ticket y" using Cons.prems that(1) ticket_events_ticket by auto
    then show ?thesis by (simp add: event_order_def less_eq_prod_def)
  qed
  then show ?case using Cons blk by (auto simp: sorted_append)
qed simp

definition all_tickets :: "observed_position list \<Rightarrow> observed_position list \<Rightarrow> int list" where
  "all_tickets prev new = sorted_list_of_set (op_ticket ` set prev \<union> op_ticket ` set new)"

lemma diff_positions_blocks:
  assumes "enumerates ts prev new"
  shows "diff_positions ts prev new = concat (map (ticket_events prev new) (all_tickets prev new))"
  unfolding diff_positions_def
proof (rule properties_for_sort_key)
  let ?F = "ticket_events prev new" and ?us = "all_tickets prev new"
  have us: "distinct ts" "distinct ?us" "set ?us = set ts" "sorted_wrt (<) ?us"
    using assms by (simp_all add: enumerates_def all_tickets_def)
  then have "mset ?us = mset ts" by (simp add: set_eq_iff_mset_eq_distinct)
  then show "mset (concat (map ?F ?us)) = mset (concat (map ?F ts))"
    by (simp only: mset_concat_map)
  show "filter (\<lambda>x. event_order k = event_order x) (concat (map ?F ?us)) = filter (\<lambda>x. event_order k = event_order x) (concat (map ?F ts))"
    if "k \<in> set (concat (map ?F ?us))" for k
  proof -
    from that obtain t where t: "t \<in> set ?us" "k \<in> set (?F t)" by auto
    have other: "filter (\<lambda>x. event_order k = event_order x) (?F u) = []" if "u \<noteq> t" for u
      using that ticket_events_ticket [of _ prev u new] ticket_events_ticket [OF t(2)]
      by (auto simp: filter_empty_conv event_order_def)
    show ?thesis using us t(1) by (simp add: concat_select [of _ t, OF _ _ other])
  qed
  show "sorted (map event_order (concat (map ?F ?us)))" by (rule ticket_blocks_sorted [OF us(4)])
qed

section \<open>Replaying the events\<close>

text \<open>A mirror of the account kept from the events alone; an absent level is 0.\<close>

record mirrored =
  mi_symbol :: string
  mi_side :: string
  mi_volume :: rat
  mi_sl :: rat
  mi_tp :: rat

definition mirror :: "observed_position \<Rightarrow> mirrored" where
  "mirror p = \<lparr>mi_symbol = op_symbol p, mi_side = op_side p, mi_volume = op_volume p,
               mi_sl = level_value (op_sl p), mi_tp = level_value (op_tp p)\<rparr>"

definition book :: "observed_position list \<Rightarrow> int \<Rightarrow> mirrored option" where
  "book ps t = map_option mirror (position_of ps t)"

definition apply_to :: "event_spec \<Rightarrow> mirrored option \<Rightarrow> mirrored option" where
  "apply_to e m =
     (case ev_type e of
        EvOpen \<Rightarrow> Some \<lparr>mi_symbol = ev_symbol e, mi_side = ev_side e, mi_volume = ev_volume_after e,
                        mi_sl = level_value (ev_new_sl e), mi_tp = level_value (ev_new_tp e)\<rparr>
      | EvFullClose \<Rightarrow> None
      | EvVolumeIncrease \<Rightarrow> map_option (\<lambda>x. x\<lparr>mi_volume := ev_volume_after e\<rparr>) m
      | EvPartialClose \<Rightarrow> map_option (\<lambda>x. x\<lparr>mi_volume := ev_volume_after e\<rparr>) m
      | ty \<Rightarrow> if is_sl_type ty then map_option (\<lambda>x. x\<lparr>mi_sl := level_value (ev_new_sl e)\<rparr>) m
              else map_option (\<lambda>x. x\<lparr>mi_tp := level_value (ev_new_tp e)\<rparr>) m)"

definition apply_event :: "event_spec \<Rightarrow> (int \<Rightarrow> mirrored option) \<Rightarrow> int \<Rightarrow> mirrored option" where
  "apply_event e b = b(ev_ticket e := apply_to e (b (ev_ticket e)))"

definition replay :: "event_spec list \<Rightarrow> (int \<Rightarrow> mirrored option) \<Rightarrow> int \<Rightarrow> mirrored option" where
  "replay es b = fold apply_event es b"

text \<open>Volumes in hundredths of a lot and levels in ticks of \<open>10^-8\<close>, coarser than the tolerances.\<close>

definition multiple_of :: "rat \<Rightarrow> rat \<Rightarrow> bool" where
  "multiple_of g x \<longleftrightarrow> x / g = of_int \<lfloor>x / g\<rfloor>"

definition on_grid :: "observed_position \<Rightarrow> bool" where
  "on_grid p \<longleftrightarrow> multiple_of (1 / 100) (op_volume p) \<and> multiple_of (1 / 10 ^ 8) (level_value (op_sl p)) \<and>
                multiple_of (1 / 10 ^ 8) (level_value (op_tp p))"

text \<open>A ticket keeps its symbol and side.\<close>

definition same_identity :: "observed_position list \<Rightarrow> observed_position list \<Rightarrow> bool" where
  "same_identity prev new \<longleftrightarrow>
     list_all (\<lambda>p. list_all (\<lambda>q. op_ticket p = op_ticket q \<longrightarrow> op_symbol p = op_symbol q \<and> op_side p = op_side q) new) prev"

lemma grid_close:
  assumes "multiple_of g x" "multiple_of g y" "0 < g" "\<bar>x - y\<bar> < g"
  shows "x = y"
proof -
  define a b where ab: "a = \<lfloor>x / g\<rfloor>" "b = \<lfloor>y / g\<rfloor>"
  have x: "x = of_int a * g" "y = of_int b * g" using assms(1-3) unfolding multiple_of_def ab by (simp_all add: field_simps)
  have "\<bar>of_int (a - b) :: rat\<bar> * g = \<bar>x - y\<bar>" using assms(3) by (simp add: x left_diff_distrib [symmetric] abs_mult)
  then have "\<bar>of_int (a - b) :: rat\<bar> * g < 1 * g" using assms(4) by simp
  then have "\<bar>of_int (a - b) :: rat\<bar> < 1" using assms(3) by (simp only: mult_less_cancel_right_pos)
  then have "(of_int \<bar>a - b\<bar> :: rat) < of_int 1" by simp
  then have "\<bar>a - b\<bar> < 1" by (simp only: of_int_less_iff)
  then have "a = b" by simp
  then show ?thesis by (simp add: x)
qed

lemma fold_ticket:
  "(\<And>e. e \<in> set es \<Longrightarrow> ev_ticket e = t) \<Longrightarrow> fold apply_event es b = b(t := fold apply_to es (b t))"
  by (induction es arbitrary: b) (auto simp: apply_event_def)

lemma level_type_cases:
  "is_sl_type (level_type EvSlSet EvSlRemove EvSlChange a b) \<and> is_tp_type (level_type EvTpSet EvTpRemove EvTpChange a b)"
  by (simp add: level_type_def is_sl_type_def is_tp_type_def)

lemma apply_sl: "ev_type e = level_type EvSlSet EvSlRemove EvSlChange a b \<Longrightarrow>
   apply_to e m = map_option (\<lambda>x. x\<lparr>mi_sl := level_value (ev_new_sl e)\<rparr>) m"
  by (simp add: apply_to_def level_type_def is_sl_type_def)

lemma apply_tp: "ev_type e = level_type EvTpSet EvTpRemove EvTpChange a b \<Longrightarrow>
   apply_to e m = map_option (\<lambda>x. x\<lparr>mi_tp := level_value (ev_new_tp e)\<rparr>) m"
  by (simp add: apply_to_def level_type_def is_sl_type_def)

lemma volume_replay:
  assumes "on_grid b" "on_grid a"
  shows "fold apply_to (volume_events b a) (Some m) = Some (if op_volume b = op_volume a then m else m\<lparr>mi_volume := op_volume a\<rparr>)"
proof (cases "\<bar>op_volume a - op_volume b\<bar> \<le> volume_eps")
  case True
  then have "op_volume a = op_volume b"
    using grid_close [of "1 / 100" "op_volume a" "op_volume b"] assms by (simp add: on_grid_def volume_eps_def)
  then show ?thesis by (simp add: volume_events_def volume_eps_def)
next
  case False
  then have "op_volume a \<noteq> op_volume b" by (auto simp: volume_eps_def)
  with False show ?thesis by (auto simp: volume_events_def Let_def apply_to_def abs_if split: if_splits)
qed

lemma levels_replay:
  assumes "on_grid b" "on_grid a"
  shows "fold apply_to (level_events b a) (Some m) =
     Some (m\<lparr>mi_sl := (if level_value (op_sl b) = level_value (op_sl a) then mi_sl m else level_value (op_sl a)),
             mi_tp := (if level_value (op_tp b) = level_value (op_tp a) then mi_tp m else level_value (op_tp a))\<rparr>)"
proof -
  have d: "levels_differ u v \<longleftrightarrow> level_value u \<noteq> level_value v"
    if "multiple_of (1 / 10 ^ 8) (level_value u)" "multiple_of (1 / 10 ^ 8) (level_value v)" for u v
  proof
    assume "level_value u \<noteq> level_value v"
    with grid_close [OF that] have "\<not> \<bar>level_value u - level_value v\<bar> < 1 / 10 ^ 8" by auto
    then show "levels_differ u v" by (simp add: levels_differ_def price_eps_def)
  qed (auto simp: levels_differ_def price_eps_def)
  have "levels_differ (op_sl b) (op_sl a) \<longleftrightarrow> level_value (op_sl b) \<noteq> level_value (op_sl a)"
    "levels_differ (op_tp b) (op_tp a) \<longleftrightarrow> level_value (op_tp b) \<noteq> level_value (op_tp a)"
    using assms by (auto simp: on_grid_def d)
  then show ?thesis by (auto simp: level_events_def apply_sl [where a = "op_sl b" and b = "op_sl a"] apply_tp [where a = "op_tp b" and b = "op_tp a"] base_event_def)
qed

lemma ticket_replay:
  assumes "\<forall>p \<in> set prev \<union> set new. on_grid p" "same_identity prev new"
  shows "fold apply_to (ticket_events prev new t) (book prev t) = book new t"
proof (cases "position_of prev t")
  case None
  then show ?thesis
    by (cases "position_of new t") (simp_all add: diff_ticket_def book_def apply_to_def base_event_def mirror_def)
next
  case (Some b)
  show ?thesis
  proof (cases "position_of new t")
    case None
    with Some show ?thesis by (simp add: diff_ticket_def book_def apply_to_def base_event_def)
  next
    case (Some a)
    note b = position_of_ticket [OF \<open>position_of prev t = Some b\<close>] and a = position_of_ticket [OF Some]
    then have g: "on_grid b" "on_grid a" using assms(1) by auto
    have i: "op_symbol b = op_symbol a" "op_side b = op_side a" using assms(2) a b by (auto simp: same_identity_def list_all_iff)
    show ?thesis using \<open>position_of prev t = Some b\<close> Some i
      by (simp add: diff_ticket_def book_def volume_replay [OF g] levels_replay [OF g]) (simp add: mirror_def)
  qed
qed

lemma replay_blocks:
  "distinct ts \<Longrightarrow> fold apply_event (concat (map (ticket_events prev new) ts)) b =
     (\<lambda>t. if t \<in> set ts then fold apply_to (ticket_events prev new t) (b t) else b t)"
proof (induction ts arbitrary: b)
  case (Cons t ts)
  have "fold apply_event (ticket_events prev new t) b = b(t := fold apply_to (ticket_events prev new t) (b t))"
    by (rule fold_ticket) (rule ticket_events_ticket)
  then show ?case using Cons by auto
qed simp

section \<open>Properties\<close>

text \<open>
  The diff does not depend on the order in which Python walks the ticket set: for every enumeration the
  events come ticket by ticket in ascending order, each ticket's in lifecycle order.
\<close>

theorem diff_is_deterministic:
  assumes "enumerates ts prev new" "enumerates us prev new"
  shows "diff_positions ts prev new = diff_positions us prev new \<and>
         sorted (map event_order (diff_positions ts prev new))"
proof -
  have "sorted (map event_order (diff_positions ts prev new))" by (simp add: diff_positions_def)
  then show ?thesis using diff_positions_blocks [OF assms(1)] diff_positions_blocks [OF assms(2)] by simp
qed

text \<open>
  Nothing is lost between two polls: on volumes in hundredths and levels on a tick coarser than the
  tolerances, applying the events of the diff to the earlier book gives the later one exactly.
\<close>

theorem replay_reconstructs:
  assumes "enumerates ts prev new" "\<forall>p \<in> set prev \<union> set new. on_grid p" "same_identity prev new"
  shows "replay (diff_positions ts prev new) (book prev) = book new"
proof
  fix t
  have d: "distinct (all_tickets prev new)" "set (all_tickets prev new) = op_ticket ` set prev \<union> op_ticket ` set new"
    by (simp_all add: all_tickets_def)
  have "replay (diff_positions ts prev new) (book prev) =
      (\<lambda>t. if t \<in> set (all_tickets prev new) then fold apply_to (ticket_events prev new t) (book prev t) else book prev t)"
    unfolding replay_def diff_positions_blocks [OF assms(1)] by (rule replay_blocks [OF d(1)])
  moreover have "book prev t = book new t" if "t \<notin> set (all_tickets prev new)"
    using that d(2) position_of_None by (simp add: book_def) (metis UnCI)
  ultimately show "replay (diff_positions ts prev new) (book prev) t = book new t"
    using ticket_replay [OF assms(2,3)] by simp
qed

section \<open>The taxonomy accounts for every event\<close>

definition event_key :: "event_spec \<Rightarrow> int \<times> event_type" where
  "event_key e = (ev_ticket e, ev_type e)"

definition change_keys :: "detected_change \<Rightarrow> (int \<times> event_type) list" where
  "change_keys c = map (Pair (dc_ticket c)) (dc_sources c)"

lemma find_remove_first: "find P xs = Some x \<Longrightarrow> mset xs = add_mset x (mset (remove_first P xs))"
  by (induction xs) (auto split: if_splits)

lemma find_after_removal: "(\<And>x. P x \<Longrightarrow> \<not> Q x) \<Longrightarrow> find Q (remove_first P xs) = find Q xs"
  by (induction xs) auto

lemma sl_not_tp: "is_sl_type e \<Longrightarrow> \<not> is_tp_type e"
  by (auto simp: is_sl_type_def is_tp_type_def)

lemma single_change_keys: "concat (map change_keys (map single_change g)) = map event_key g"
  by (induction g) (simp_all add: change_keys_def single_change_def event_key_def)

lemma group_keys:
  assumes "\<And>e. e \<in> set g \<Longrightarrow> ev_ticket e = t"
  shows "mset (concat (map change_keys (classify_group g))) = mset (map event_key g)"
proof -
  have joint: "mset (concat (map change_keys (classify_group g))) = mset (map event_key g)"
    if s: "find (\<lambda>e. is_sl_type (ev_type e)) g = Some s" and u: "find (\<lambda>e. is_tp_type (ev_type e)) g = Some u" for s u
  proof -
    let ?g = "remove_first (\<lambda>e. is_sl_type (ev_type e)) g"
    have "find (\<lambda>e. is_tp_type (ev_type e)) ?g = Some u" using u by (subst find_after_removal) (simp_all add: sl_not_tp)
    then have "mset g = {#s, u#} + mset (remove_first (\<lambda>e. is_tp_type (ev_type e)) ?g)"
      using find_remove_first [OF s] find_remove_first by fastforce
    moreover have "ev_ticket u = ev_ticket s" using s u assms by (metis find_SomeD)
    ultimately show ?thesis using s u
      by (simp add: classify_group_def single_change_keys del: map_map) (simp add: change_keys_def joint_change_def event_key_def)
  qed
  show ?thesis
  proof (cases "find (\<lambda>e. is_sl_type (ev_type e)) g = None \<or> find (\<lambda>e. is_tp_type (ev_type e)) g = None")
    case True
    then have "classify_group g = map single_change g" by (auto simp: classify_group_def split: option.splits)
    then show ?thesis by (simp only: single_change_keys)
  qed (use joint in auto)
qed

lemma filter_partition:
  "distinct ts \<Longrightarrow> mset (concat (map (\<lambda>t. map event_key (filter (\<lambda>e. ev_ticket e = t) es)) ts)) =
     mset (map event_key (filter (\<lambda>e. ev_ticket e \<in> set ts) es))"
proof (induction ts)
  case (Cons t ts)
  have "mset (filter (\<lambda>e. ev_ticket e = t \<or> ev_ticket e \<in> set ts) es) =
      mset (filter (\<lambda>e. ev_ticket e = t) es) + mset (filter (\<lambda>e. ev_ticket e \<in> set ts) es)"
    using Cons.prems by (induction es) auto
  with Cons show ?case by simp
qed simp

lemma grouped_keys:
  "mset (concat (map change_keys (concat (map (\<lambda>t. classify_group (filter (\<lambda>e. ev_ticket e = t) es)) ts)))) =
   mset (concat (map (\<lambda>t. map event_key (filter (\<lambda>e. ev_ticket e = t) es)) ts))"
proof (induction ts)
  case (Cons t ts)
  have "mset (concat (map change_keys (classify_group (filter (\<lambda>e. ev_ticket e = t) es)))) =
      mset (map event_key (filter (\<lambda>e. ev_ticket e = t) es))"
    by (rule group_keys [where t = t]) simp
  with Cons show ?case by simp
qed simp

lemma classified_keys: "mset (concat (map change_keys (classify_events es))) = mset (map event_key es)"
  unfolding classify_events_def grouped_keys by (subst filter_partition) simp_all

lemma group_joint:
  assumes "c \<in> set (classify_group g)"
  shows "dc_type c = SlTpChangedTogether \<longleftrightarrow>
     (\<exists>s \<in> set g. \<exists>t \<in> set g. is_sl_type (ev_type s) \<and> is_tp_type (ev_type t) \<and> c = joint_change s t)"
proof -
  have single: "dc_type (single_change e) \<noteq> SlTpChangedTogether" for e
    by (simp add: single_change_def change_type_for_def split: event_type.splits)
  have type: "dc_type (joint_change s t) = SlTpChangedTogether" for s t by (simp add: joint_change_def)
  from assms consider s t where "find (\<lambda>e. is_sl_type (ev_type e)) g = Some s"
      "find (\<lambda>e. is_tp_type (ev_type e)) g = Some t" "c = joint_change s t"
    | e where "c = single_change e"
    by (auto simp: classify_group_def split: option.splits)
  then show ?thesis
  proof cases
    case 1
    then show ?thesis using type by (metis find_SomeD)
  next
    case 2
    then show ?thesis using single type by metis
  qed
qed

text \<open>
  The taxonomy drops and invents nothing: over any list of events the detected changes carry each event of
  each ticket exactly once, a stop and a target of one ticket possibly under one joint change.
\<close>

theorem classification_conserves:
  "mset (concat (map change_keys (classify_events es))) = mset (map event_key es)"
  by (rule classified_keys)

section \<open>Witnesses\<close>

definition demo_position :: "int \<Rightarrow> rat \<Rightarrow> rat option \<Rightarrow> rat option \<Rightarrow> observed_position" where
  "demo_position t v s p =
     \<lparr>op_ticket = t, op_symbol = ''XAUUSD'', op_side = ''BUY'', op_volume = v, op_sl = s, op_tp = p,
      op_price_open = Some 2300, op_price_current = Some 2301, op_magic = None, op_comment = ''''\<rparr>"

definition earlier_poll :: "observed_position list" where
  "earlier_poll = [demo_position 7 1 (Some 2290) None, demo_position 8 (1 / 2) None (Some 2350)]"

definition later_poll :: "observed_position list" where
  "later_poll = [demo_position 9 (3 / 10) None None, demo_position 7 (2 / 5) (Some 2300) (Some 2330)]"

lemma demo_enumerations: "enumerates [7, 8, 9] earlier_poll later_poll" "enumerates [9, 7, 8] earlier_poll later_poll"
  by (auto simp: enumerates_def earlier_poll_def later_poll_def demo_position_def)

lemma demo_grid: "\<forall>p \<in> set earlier_poll \<union> set later_poll. on_grid p"
  by (simp add: earlier_poll_def later_poll_def demo_position_def on_grid_def multiple_of_def level_value_def)

lemma demo_identity: "same_identity earlier_poll later_poll"
  by (simp add: earlier_poll_def later_poll_def demo_position_def same_identity_def)

lemma diff_is_deterministic_witness:
  "map ev_type (diff_positions [9, 7, 8] earlier_poll later_poll) =
     [EvPartialClose, EvSlChange, EvTpSet, EvFullClose, EvOpen]"
proof -
  have "map ev_type (diff_positions [7, 8, 9] earlier_poll later_poll) =
      [EvPartialClose, EvSlChange, EvTpSet, EvFullClose, EvOpen]" by code_simp
  then show ?thesis using diff_is_deterministic [OF demo_enumerations] by simp
qed

lemma replay_reconstructs_witness:
  "replay (diff_positions [7, 8, 9] earlier_poll later_poll) (book earlier_poll) = book later_poll \<and>
   map_option mi_volume (book later_poll 7) = Some (2 / 5) \<and> book later_poll 8 = None"
proof -
  have "map_option mi_volume (book later_poll 7) = Some (2 / 5)" "book later_poll 8 = None" by code_simp+
  then show ?thesis using replay_reconstructs [OF demo_enumerations(1) demo_grid demo_identity] by blast
qed

end
