(* ===== verification/CopierIntent.thy ===== *)
theory CopierIntent
  imports CopierDiff JobQueue
begin

text \<open>
  The intent side of the trade copier: the observation and replication tables
  (\<^verbatim>\<open>trade_copier/models.py\<close>), the position sizing (\<^verbatim>\<open>sizing.py\<close>), the stop and target translation
  (\<^verbatim>\<open>translation.py\<close>), the symbol resolution (\<^verbatim>\<open>symbols.py\<close>) and the recording of one intent per event and
  follower (\<^verbatim>\<open>replication.py\<close>). Decimals and floats are exact rationals; what a column keeps is rounded
  to its places. \<open>repr\<close> of a float is a parameter.
\<close>

section \<open>Tables\<close>

record copier_master =
  ma_id :: nat
  ma_account :: int
  ma_enabled :: bool
  ma_last_poll :: "nat option"
  ma_lease_token :: string
  ma_lease_until :: "int option"
  ma_projected :: nat

record poll =
  po_id :: nat
  po_master :: nat
  po_observed_at :: int
  po_read_at :: "int option"
  po_login :: string
  po_server :: string
  po_trade_mode :: "int option"
  po_count :: nat

record snapshot =
  sn_poll :: nat
  sn_position :: observed_position

text \<open>An event type outside the diff's list is \<open>None\<close>.\<close>

record master_event =
  me_id :: nat
  me_master :: nat
  me_sequence :: nat
  me_poll :: nat
  me_type :: "event_type option"
  me_ticket :: int
  me_symbol :: string
  me_side :: string
  me_volume_before :: rat
  me_volume_after :: rat
  me_volume_delta :: rat
  me_prev_sl :: "rat option"
  me_new_sl :: "rat option"
  me_prev_tp :: "rat option"
  me_new_tp :: "rat option"
  me_observed_at :: int
  me_broker_time :: "int option"

record follower =
  fo_id :: nat
  fo_master :: nat
  fo_account :: int
  fo_enabled :: bool
  fo_sizing_mode :: string
  fo_fixed_lot :: "rat option"
  fo_multiplier :: rat
  fo_risk_pct :: "rat option"
  fo_max_volume :: "rat option"
  fo_sltp :: string
  fo_disable_policy :: string

record symbol_map =
  sy_master_broker :: string
  sy_master_symbol :: string
  sy_follower_broker :: string
  sy_follower_symbol :: string
  sy_verified :: bool

datatype replication_status =
    ShadowRecorded | Rejected | Skipped | ShadowJobRecorded | ExecutionRequested | ExecutionVerified | ExecutionFailed

record replication =
  rp_id :: nat
  rp_event :: nat
  rp_follower :: nat
  rp_op :: string
  rp_status :: replication_status
  rp_reason :: string
  rp_volume :: "rat option"
  rp_detail :: string
  rp_symbol :: string
  rp_sl :: "rat option"
  rp_tp :: "rat option"
  rp_authoritative :: bool
  rp_sltp_ok :: bool
  rp_job :: "nat option"
  rp_ticket :: "int option"
  rp_recon :: string

record copier_db =
  kd_masters :: "copier_master list"
  kd_polls :: "poll list"
  kd_snapshots :: "snapshot list"
  kd_events :: "master_event list"
  kd_followers :: "follower list"
  kd_symbols :: "symbol_map list"
  kd_replications :: "replication list"
  kd_next_poll :: nat
  kd_next_event :: nat
  kd_next_replication :: nat

text \<open>The broker name of an account and Python's \<open>repr\<close> of a number.\<close>

record copier_env =
  ke_broker_name :: "int \<Rightarrow> string"
  ke_repr :: "rat \<Rightarrow> string"

definition master_by_id :: "copier_db \<Rightarrow> nat \<Rightarrow> copier_master option" where
  "master_by_id k i = find (\<lambda>m. ma_id m = i) (kd_masters k)"

definition event_by_id :: "copier_db \<Rightarrow> nat \<Rightarrow> master_event option" where
  "event_by_id k i = find (\<lambda>e. me_id e = i) (kd_events k)"

definition follower_by_id :: "copier_db \<Rightarrow> nat \<Rightarrow> follower option" where
  "follower_by_id k i = find (\<lambda>f. fo_id f = i) (kd_followers k)"

section \<open>Sizing\<close>

record broker_constraints =
  bc_min_volume :: rat
  bc_lot_step :: rat
  bc_max_volume :: "rat option"
  bc_authoritative :: bool

definition default_constraints :: broker_constraints where
  "default_constraints =
     \<lparr>bc_min_volume = 1 / 100, bc_lot_step = 1 / 100, bc_max_volume = None, bc_authoritative = False\<rparr>"

record follower_sizing =
  sz_mode :: string
  sz_fixed_lot :: "rat option"
  sz_multiplier :: "rat option"
  sz_risk_pct :: "rat option"
  sz_max_volume :: "rat option"

text \<open>What the caller knows of the accounts and the signal besides.\<close>

record sizing_facts =
  sf_master_balance :: "rat option"
  sf_follower_balance :: "rat option"
  sf_sl_distance :: "rat option"
  sf_pip_value :: "rat option"

definition no_facts :: sizing_facts where
  "no_facts = \<lparr>sf_master_balance = None, sf_follower_balance = None, sf_sl_distance = None, sf_pip_value = None\<rparr>"

definition positive :: "rat option \<Rightarrow> rat option" where
  "positive v = (case v of None \<Rightarrow> None | Some x \<Rightarrow> if x \<le> 0 then None else Some x)"

definition raw_target :: "rat \<Rightarrow> follower_sizing \<Rightarrow> sizing_facts \<Rightarrow> string + rat" where
  "raw_target mv cfg f =
     (if sz_mode cfg = ''FIXED_LOT'' then
        (case positive (sz_fixed_lot cfg) of None \<Rightarrow> Inl ''fixed_lot_not_set'' | Some raw \<Rightarrow> Inr raw)
      else if sz_mode cfg = ''MULTIPLIER'' then
        (case positive (sz_multiplier cfg) of None \<Rightarrow> Inl ''multiplier_not_set'' | Some k \<Rightarrow> Inr (mv * k))
      else if sz_mode cfg = ''BALANCE_PROPORTIONAL'' then
        (case (positive (sf_master_balance f), sf_follower_balance f) of
           (Some mb, Some fb) \<Rightarrow> Inr (mv * (fb / mb)) | _ \<Rightarrow> Inl ''requires_balances'')
      else if sz_mode cfg = ''RISK_BASED'' then
        (case (positive (sz_risk_pct cfg), positive (sf_follower_balance f)) of
           (Some pct, Some fb) \<Rightarrow>
             (case (positive (sf_sl_distance f), positive (sf_pip_value f)) of
                (Some sld, Some pvl) \<Rightarrow> Inr (fb * (pct / 100) / (sld * pvl))
              | _ \<Rightarrow> Inl ''requires_valid_sl'')
         | _ \<Rightarrow> Inl ''requires_risk_and_balance'')
      else Inl ''unknown_sizing_mode'')"

definition trunc :: "rat \<Rightarrow> int" where
  "trunc x = (if x < 0 then - \<lfloor>- x\<rfloor> else \<lfloor>x\<rfloor>)"

definition floor_to_step :: "rat \<Rightarrow> rat \<Rightarrow> rat" where
  "floor_to_step v step = (if step \<le> 0 then v else of_int (trunc (v / step)) * step)"

definition or_hundredth :: "rat \<Rightarrow> rat" where
  "or_hundredth x = (if x = 0 then 1 / 100 else x)"

definition volume_caps :: "broker_constraints \<Rightarrow> rat option \<Rightarrow> rat list" where
  "volume_caps c own = concat (map (\<lambda>v. case positive v of None \<Rightarrow> [] | Some x \<Rightarrow> [x]) [bc_max_volume c, own])"

definition min_cap :: "rat list \<Rightarrow> rat option" where
  "min_cap cs = (case cs of [] \<Rightarrow> None | x # xs \<Rightarrow> Some (foldl min x xs))"

definition clamp_down :: "rat option \<Rightarrow> rat \<Rightarrow> rat \<times> bool" where
  "clamp_down cap raw = (case cap of None \<Rightarrow> (raw, False) | Some c \<Rightarrow> if raw > c then (c, True) else (raw, False))"

definition compute_follower_volume ::
  "rat option \<Rightarrow> follower_sizing \<Rightarrow> broker_constraints \<Rightarrow> sizing_facts \<Rightarrow> string + (rat \<times> string)" where
  "compute_follower_volume master_volume cfg c f =
     (case positive master_volume of
        None \<Rightarrow> Inl ''invalid_master_volume''
      | Some mv \<Rightarrow>
          (case raw_target mv cfg f of
             Inl r \<Rightarrow> Inl r
           | Inr raw \<Rightarrow>
               (let (capped, clamped) = clamp_down (min_cap (volume_caps c (sz_max_volume cfg))) raw;
                    vol = floor_to_step capped (or_hundredth (bc_lot_step c)) in
                if vol < or_hundredth (bc_min_volume c) then Inl ''below_min_volume''
                else Inr (vol, if clamped then ''clamped_to_max'' else ''ok''))))"

section \<open>Stops and targets\<close>

record translated_levels =
  tl_ok :: bool
  tl_sl :: "rat option"
  tl_tp :: "rat option"
  tl_reason :: string

definition kept_level :: "rat option \<Rightarrow> rat option" where
  "kept_level v = (if has_level v then v else None)"

definition translate_sltp ::
  "string \<Rightarrow> rat option \<Rightarrow> rat option \<Rightarrow> rat option \<Rightarrow> rat option \<Rightarrow> translated_levels" where
  "translate_sltp policy master_entry master_sl master_tp follower_entry =
     (if policy = ''NONE'' then \<lparr>tl_ok = True, tl_sl = None, tl_tp = None, tl_reason = ''policy_none''\<rparr>
      else if policy = ''SAME_PRICE''
      then \<lparr>tl_ok = True, tl_sl = kept_level master_sl, tl_tp = kept_level master_tp, tl_reason = ''same_price''\<rparr>
      else if policy = ''SAME_DISTANCE'' then
        (case (kept_level master_entry, kept_level follower_entry) of
           (Some me, Some fe) \<Rightarrow>
             \<lparr>tl_ok = True, tl_sl = map_option (\<lambda>x. fe + (x - me)) (kept_level master_sl),
              tl_tp = map_option (\<lambda>x. fe + (x - me)) (kept_level master_tp), tl_reason = ''same_distance''\<rparr>
         | _ \<Rightarrow> \<lparr>tl_ok = False, tl_sl = None, tl_tp = None, tl_reason = ''requires_entry_prices''\<rparr>)
      else \<lparr>tl_ok = False, tl_sl = None, tl_tp = None, tl_reason = ''unknown_policy''\<rparr>)"

section \<open>Symbols\<close>

text \<open>\<open>None\<close>: reading the server row raised.\<close>

definition broker_key :: "copier_env \<Rightarrow> trading_account \<Rightarrow> string option" where
  "broker_key ke a =
     (case ac_server a of
        DanglingServer \<Rightarrow> None
      | Server s \<Rightarrow> Some (if bs_server_name s \<noteq> '''' then bs_server_name s else ke_broker_name ke (ac_id a))
      | NoServer \<Rightarrow> Some (ke_broker_name ke (ac_id a)))"

definition resolve_follower_symbol ::
  "copier_env \<Rightarrow> copier_db \<Rightarrow> trading_account \<Rightarrow> string \<Rightarrow> trading_account \<Rightarrow> (string + string) option" where
  "resolve_follower_symbol ke k master s follower =
     (case (broker_key ke master, broker_key ke follower) of
        (Some mkey, Some fkey) \<Rightarrow>
          Some (if mkey = '''' \<or> fkey = '''' \<or> s = '''' then Inl ''broker_or_symbol_key_missing''
                else if casefold mkey = casefold fkey then Inr s
                else case find (\<lambda>r. casefold (sy_master_broker r) = casefold mkey \<and>
                                    casefold (sy_master_symbol r) = casefold s \<and>
                                    casefold (sy_follower_broker r) = casefold fkey \<and> sy_verified r) (kd_symbols k) of
                  None \<Rightarrow> Inl ''symbol_map_unverified''
                | Some r \<Rightarrow> Inr (sy_follower_symbol r))
      | _ \<Rightarrow> None)"

section \<open>Who takes part\<close>

datatype operation = OpOpen | OpScaleIn | OpClose | OpPartialClose | OpModify

definition op_name :: "operation \<Rightarrow> string" where
  "op_name p =
     (case p of OpOpen \<Rightarrow> ''OPEN'' | OpScaleIn \<Rightarrow> ''SCALE_IN'' | OpClose \<Rightarrow> ''CLOSE''
      | OpPartialClose \<Rightarrow> ''PARTIAL_CLOSE'' | OpModify \<Rightarrow> ''MODIFY_SLTP'')"

definition op_for_event :: "event_type \<Rightarrow> operation" where
  "op_for_event e =
     (case e of EvOpen \<Rightarrow> OpOpen | EvVolumeIncrease \<Rightarrow> OpScaleIn | EvFullClose \<Rightarrow> OpClose
      | EvPartialClose \<Rightarrow> OpPartialClose | _ \<Rightarrow> OpModify)"

definition open_like :: "event_type \<Rightarrow> bool" where
  "open_like e \<longleftrightarrow> e \<in> {EvOpen, EvVolumeIncrease}"

definition close_like :: "event_type \<Rightarrow> bool" where
  "close_like e \<longleftrightarrow> e \<in> {EvFullClose, EvPartialClose}"

definition modify_like :: "event_type \<Rightarrow> bool" where
  "modify_like e \<longleftrightarrow> is_sl_type e \<or> is_tp_type e"

definition validate_follower_binding ::
  "copier_env \<Rightarrow> trading_account \<Rightarrow> trading_account \<Rightarrow> bool \<times> string" where
  "validate_follower_binding ke master follower =
     (if ac_id follower = ac_id master then (False, ''self_follow'')
      else if ac_user follower \<noteq> ac_user master then (False, ''cross_user'')
      else if strip (ac_account_number follower) \<noteq> '''' \<and>
              (ac_server follower \<noteq> NoServer \<or> strip (ke_broker_name ke (ac_id follower)) \<noteq> '''')
      then (True, ''ok'') else (False, ''invalid_broker_binding''))"

definition participation :: "follower \<Rightarrow> event_type \<Rightarrow> bool \<times> string" where
  "participation f e =
     (if fo_enabled f then (True, '''')
      else if open_like e then (False, ''disabled_no_new_entries'')
      else if fo_disable_policy f = ''A_KEEP_MANAGING'' then (True, '''')
      else if fo_disable_policy f = ''B_DETACH'' then (False, ''detached_manual'')
      else if fo_disable_policy f = ''C_CLOSE''
      then (if close_like e then (True, '''') else (False, ''closing_policy_skips_modify''))
      else (False, ''disabled''))"

section \<open>Broker constraints\<close>

text \<open>\<open>float(value)\<close> on a stored JSON value; texts that spell an infinity or a NaN are outside the model.\<close>

definition json_float :: "json \<Rightarrow> rat option" where
  "json_float v =
     (case v of JInt i \<Rightarrow> Some (of_int i) | JBool b \<Rightarrow> Some (if b then 1 else 0) | JFloat (Finite x) _ \<Rightarrow> Some x
      | JStr s \<Rightarrow> (case decimal_of_string s of Some (Finite x) \<Rightarrow> Some x | _ \<Rightarrow> None) | _ \<Rightarrow> None)"

fun metadata_get :: "json \<Rightarrow> string list \<Rightarrow> json option" where
  "metadata_get md [] = None"
| "metadata_get md (k # ks) =
     (case obj_get md k of None \<Rightarrow> metadata_get md ks | Some JNull \<Rightarrow> metadata_get md ks | Some v \<Rightarrow> Some v)"

definition optional_float :: "rat \<Rightarrow> json option \<Rightarrow> rat option" where
  "optional_float d v = (case v of None \<Rightarrow> Some d | Some j \<Rightarrow> json_float j)"

definition instrument_row :: "pipe_db \<Rightarrow> int \<Rightarrow> string \<Rightarrow> instrument option" where
  "instrument_row db account s = find (\<lambda>i. bi_account i = account \<and> bi_broker_symbol i = s) (db_instruments db)"

definition broker_constraints_for :: "pipe_db \<Rightarrow> int \<Rightarrow> string \<Rightarrow> broker_constraints" where
  "broker_constraints_for db account s =
     (let row = instrument_row db account s;
          md = (case row of None \<Rightarrow> JObj [] | Some i \<Rightarrow> bi_metadata i);
          vmin = metadata_get md [''volume_min'', ''min_volume''];
          vstep = metadata_get md [''volume_step'', ''lot_step''];
          vmax = metadata_get md [''volume_max'', ''max_volume''] in
      case (optional_float (1 / 100) vmin, optional_float (1 / 100) vstep,
            (case vmax of None \<Rightarrow> Some None | Some j \<Rightarrow> map_option Some (json_float j))) of
        (Some mn, Some st, Some mx) \<Rightarrow>
          \<lparr>bc_min_volume = mn, bc_lot_step = st, bc_max_volume = mx,
           bc_authoritative = (row \<noteq> None \<and> vmin \<noteq> None \<and> vstep \<noteq> None)\<rparr>
      | _ \<Rightarrow> default_constraints)"

definition sizing_of :: "follower \<Rightarrow> follower_sizing" where
  "sizing_of f =
     \<lparr>sz_mode = fo_sizing_mode f, sz_fixed_lot = fo_fixed_lot f, sz_multiplier = Some (fo_multiplier f),
      sz_risk_pct = fo_risk_pct f, sz_max_volume = fo_max_volume f\<rparr>"

section \<open>Recording an intent\<close>

definition snapshot_position :: "copier_db \<Rightarrow> master_event \<Rightarrow> observed_position option" where
  "snapshot_position k e =
     map_option sn_position
       (find (\<lambda>s. sn_poll s = me_poll e \<and> op_ticket (sn_position s) = me_ticket e) (kd_snapshots k))"

definition replicated :: "copier_db \<Rightarrow> nat \<Rightarrow> nat \<Rightarrow> bool" where
  "replicated k e f \<longleftrightarrow> list_ex (\<lambda>r. rp_event r = e \<and> rp_follower r = f) (kd_replications k)"

definition blank_replication :: "nat \<Rightarrow> nat \<Rightarrow> nat \<Rightarrow> string \<Rightarrow> replication" where
  "blank_replication i e f p =
     \<lparr>rp_id = i, rp_event = e, rp_follower = f, rp_op = p, rp_status = Rejected, rp_reason = '''',
      rp_volume = None, rp_detail = '''', rp_symbol = '''', rp_sl = None, rp_tp = None,
      rp_authoritative = False, rp_sltp_ok = True, rp_job = None, rp_ticket = None, rp_recon = ''''\<rparr>"

text \<open>\<open>_record\<close>: the unique key of event and follower returns the row another pass has written.\<close>

definition record_replication :: "replication \<Rightarrow> copier_db \<Rightarrow> copier_db" where
  "record_replication r k =
     (if replicated k (rp_event r) (rp_follower r) then k
      else k\<lparr>kd_replications := kd_replications k @ [r\<lparr>rp_id := kd_next_replication k\<rparr>],
             kd_next_replication := Suc (kd_next_replication k)\<rparr>)"

definition with_levels :: "translated_levels \<Rightarrow> replication \<Rightarrow> replication" where
  "with_levels t r =
     r\<lparr>rp_status := ShadowRecorded, rp_sl := map_option (quantize 10) (tl_sl t),
       rp_tp := map_option (quantize 10) (tl_tp t), rp_sltp_ok := tl_ok t\<rparr>"

definition open_volume :: "master_event \<Rightarrow> rat" where
  "open_volume e = (if me_type e = Some EvOpen then me_volume_after e else me_volume_delta e)"

definition open_intent :: "pipe_db \<Rightarrow> copier_db \<Rightarrow> master_event \<Rightarrow> follower \<Rightarrow> string \<Rightarrow> replication \<Rightarrow> replication" where
  "open_intent db k e f s r =
     (let c = broker_constraints_for db (fo_account f) s in
      case compute_follower_volume (Some (open_volume e)) (sizing_of f) c no_facts of
        Inl why \<Rightarrow> r\<lparr>rp_status := Rejected, rp_reason := take 64 why, rp_symbol := s, rp_authoritative := False\<rparr>
      | Inr (vol, note) \<Rightarrow>
          (let pos = snapshot_position k e;
               t = translate_sltp (fo_sltp f)
                     (case pos of None \<Rightarrow> None | Some p \<Rightarrow> op_price_open p)
                     (case pos of None \<Rightarrow> me_new_sl e | Some p \<Rightarrow> op_sl p)
                     (case pos of None \<Rightarrow> me_new_tp e | Some p \<Rightarrow> op_tp p) None in
           (with_levels t r)
             \<lparr>rp_volume := Some (quantize 3 vol), rp_symbol := s, rp_authoritative := bc_authoritative c,
              rp_detail := take 64 (note @ '';'' @ (if bc_authoritative c then ''c:auth'' else ''c:unverified'') @
                                    '';sltp:'' @ tl_reason t)\<rparr>))"

definition modify_intent :: "copier_db \<Rightarrow> master_event \<Rightarrow> follower \<Rightarrow> string \<Rightarrow> replication \<Rightarrow> replication" where
  "modify_intent k e f s r =
     (case snapshot_position k e of
        None \<Rightarrow> r\<lparr>rp_status := Rejected, rp_reason := ''master_state_unavailable'', rp_symbol := s\<rparr>
      | Some p \<Rightarrow>
          (let t = translate_sltp (fo_sltp f) (op_price_open p) (op_sl p) (op_tp p) None in
           (with_levels t r)\<lparr>rp_symbol := s, rp_authoritative := True, rp_detail := take 64 (''sltp:'' @ tl_reason t)\<rparr>))"

definition close_intent :: "string \<Rightarrow> replication \<Rightarrow> replication" where
  "close_intent s r = r\<lparr>rp_status := ShadowRecorded, rp_symbol := s, rp_authoritative := True, rp_sltp_ok := True\<rparr>"

definition refuse :: "replication_status \<Rightarrow> string \<Rightarrow> replication \<Rightarrow> replication" where
  "refuse st why r = r\<lparr>rp_status := st, rp_reason := take 64 why\<rparr>"

text \<open>The row for one follower; \<open>None\<close>: an exception, so no row.\<close>

definition intent ::
  "copier_env \<Rightarrow> pipe_env \<Rightarrow> pipe_db \<Rightarrow> copier_db \<Rightarrow> master_event \<Rightarrow> follower \<Rightarrow> replication option" where
  "intent ke env db k e f =
     (let r = (\<lambda>p. blank_replication 0 (me_id e) (fo_id f) p) in
      case me_type e of
        None \<Rightarrow> Some (refuse Rejected ''unknown_event_type'' (r ''UNKNOWN''))
      | Some ty \<Rightarrow>
          (let r0 = r (op_name (op_for_event ty)) in
           case (Option.bind (master_by_id k (fo_master f)) (\<lambda>m. account_by_id env (ma_account m)),
                 account_by_id env (fo_account f)) of
             (Some master, Some account) \<Rightarrow>
               (let (bound, why) = validate_follower_binding ke master account; (takes_part, skip) = participation f ty in
                if \<not> bound then Some (refuse Rejected why r0)
                else if \<not> takes_part then Some (refuse Skipped skip r0)
                else case resolve_follower_symbol ke k master (me_symbol e) account of
                  None \<Rightarrow> None
                | Some (Inl why') \<Rightarrow> Some (refuse Rejected why' r0)
                | Some (Inr s) \<Rightarrow>
                    Some (if open_like ty then open_intent db k e f s r0
                          else if modify_like ty then modify_intent k e f s r0
                          else close_intent s r0))
           | _ \<Rightarrow> None))"

definition replicate_one ::
  "copier_env \<Rightarrow> pipe_env \<Rightarrow> pipe_db \<Rightarrow> master_event \<Rightarrow> follower \<Rightarrow> copier_db \<Rightarrow> copier_db" where
  "replicate_one ke env db e f k =
     (if replicated k (me_id e) (fo_id f) then k
      else case intent ke env db k e f of None \<Rightarrow> k | Some r \<Rightarrow> record_replication r k)"

definition replicate_master_event ::
  "copier_env \<Rightarrow> pipe_env \<Rightarrow> pipe_db \<Rightarrow> master_event \<Rightarrow> copier_db \<Rightarrow> copier_db" where
  "replicate_master_event ke env db e k =
     fold (replicate_one ke env db e) (filter (\<lambda>f. fo_master f = me_master e) (kd_followers k)) k"

definition replicate_pending ::
  "copier_env \<Rightarrow> pipe_env \<Rightarrow> pipe_db \<Rightarrow> nat \<Rightarrow> copier_db \<Rightarrow> copier_db" where
  "replicate_pending ke env db limit k =
     fold (replicate_master_event ke env db)
       (take limit (sort_key (\<lambda>e. (me_master e, me_sequence e))
          (filter (\<lambda>e. \<not> list_ex (\<lambda>r. rp_event r = me_id e) (kd_replications k)) (kd_events k)))) k"

section \<open>Sizing gives the greatest admissible volume\<close>

definition sizing_bound :: "broker_constraints \<Rightarrow> rat option \<Rightarrow> rat \<Rightarrow> rat" where
  "sizing_bound c own raw = fst (clamp_down (min_cap (volume_caps c own)) raw)"

text \<open>A whole number of lot steps, at least the broker's minimum, and within the request and every cap.\<close>

definition admissible :: "broker_constraints \<Rightarrow> rat option \<Rightarrow> rat \<Rightarrow> rat \<Rightarrow> bool" where
  "admissible c own raw v \<longleftrightarrow>
     (\<exists>n. v = of_int n * or_hundredth (bc_lot_step c)) \<and> or_hundredth (bc_min_volume c) \<le> v \<and> v \<le> raw \<and>
     list_all (\<lambda>cap. v \<le> cap) (volume_caps c own)"

lemma foldl_min_le: "(v :: rat) \<le> foldl min x xs \<longleftrightarrow> v \<le> x \<and> list_all (\<lambda>cap. v \<le> cap) xs"
  by (induction xs arbitrary: x) auto

lemma le_sizing_bound: "v \<le> sizing_bound c own raw \<longleftrightarrow> v \<le> raw \<and> list_all (\<lambda>cap. v \<le> cap) (volume_caps c own)"
proof (cases "volume_caps c own")
  case (Cons x xs)
  then show ?thesis using foldl_min_le [of v x xs]
    by (auto simp: sizing_bound_def min_cap_def clamp_down_def)
qed (simp add: sizing_bound_def min_cap_def clamp_down_def)

lemma floor_to_step_greatest:
  assumes "0 < step" "0 \<le> b"
  shows "floor_to_step b step \<le> b" "of_int n * step \<le> b \<Longrightarrow> of_int n * step \<le> floor_to_step b step"
proof -
  have "0 \<le> b / step" using assms by simp
  then have "\<not> b / step < 0" by linarith
  then have v: "floor_to_step b step = of_int \<lfloor>b / step\<rfloor> * step" using assms by (simp add: floor_to_step_def trunc_def)
  have "of_int \<lfloor>b / step\<rfloor> * step \<le> b / step * step" using assms by (intro mult_right_mono) simp_all
  then show "floor_to_step b step \<le> b" using assms unfolding v by simp
  assume "of_int n * step \<le> b"
  then have "n \<le> \<lfloor>b / step\<rfloor>" using assms by (simp add: le_floor_iff pos_le_divide_eq)
  then show "of_int n * step \<le> floor_to_step b step" using assms unfolding v by simp
qed

lemma floor_to_step_neg:
  assumes "0 < step" "b < 0"
  shows "floor_to_step b step \<le> 0"
proof -
  have "0 \<le> \<lfloor>- (b / step)\<rfloor>" using assms by (simp add: divide_nonpos_pos)
  then show ?thesis using assms by (simp add: floor_to_step_def trunc_def divide_neg_pos mult_le_0_iff)
qed

lemma positive_iff: "positive v = Some x \<longleftrightarrow> v = Some x \<and> 0 < x"
  by (auto simp: positive_def split: option.splits if_splits)

lemma compute_volume_cases:
  assumes "positive mv = Some m" "raw_target m cfg f = Inr raw"
  shows "compute_follower_volume mv cfg c f =
     (let v = floor_to_step (sizing_bound c (sz_max_volume cfg) raw) (or_hundredth (bc_lot_step c)) in
      if v < or_hundredth (bc_min_volume c) then Inl ''below_min_volume''
      else Inr (v, if \<not> list_all (\<lambda>cap. raw \<le> cap) (volume_caps c (sz_max_volume cfg)) then ''clamped_to_max'' else ''ok''))"
proof -
  let ?cap = "min_cap (volume_caps c (sz_max_volume cfg))"
  have "snd (clamp_down ?cap raw) \<longleftrightarrow> \<not> list_all (\<lambda>cap. raw \<le> cap) (volume_caps c (sz_max_volume cfg))"
  proof (cases "volume_caps c (sz_max_volume cfg)")
    case (Cons x xs)
    then show ?thesis using foldl_min_le [of raw x xs] by (auto simp: min_cap_def clamp_down_def)
  qed (simp add: min_cap_def clamp_down_def)
  then show ?thesis using assms
    by (simp add: compute_follower_volume_def sizing_bound_def Let_def case_prod_beta)
qed

lemma sizing_correct:
  assumes "0 < bc_lot_step c" "0 \<le> bc_min_volume c" "positive mv = Some m" "raw_target m cfg f = Inr raw"
  shows "case compute_follower_volume mv cfg c f of
      Inl why \<Rightarrow> why = ''below_min_volume'' \<and> (\<forall>v. \<not> admissible c (sz_max_volume cfg) raw v)
    | Inr (v, note) \<Rightarrow>
        admissible c (sz_max_volume cfg) raw v \<and> (\<forall>u. admissible c (sz_max_volume cfg) raw u \<longrightarrow> u \<le> v) \<and>
        note = (if list_ex (\<lambda>cap. cap < raw) (volume_caps c (sz_max_volume cfg)) then ''clamped_to_max'' else ''ok'')"
proof -
  define b where "b = sizing_bound c (sz_max_volume cfg) raw"
  define step where "step = or_hundredth (bc_lot_step c)"
  define mn where "mn = or_hundredth (bc_min_volume c)"
  define v where "v = floor_to_step b step"
  have pos: "0 < step" "0 < mn" using assms by (auto simp: step_def mn_def or_hundredth_def)
  have adm: "admissible c (sz_max_volume cfg) raw u \<longleftrightarrow> (\<exists>n. u = of_int n * step) \<and> mn \<le> u \<and> u \<le> b" for u
    by (auto simp: admissible_def step_def mn_def b_def le_sizing_bound)
  have below: "u \<le> v" if "admissible c (sz_max_volume cfg) raw u" for u
  proof -
    from that obtain n where n: "u = of_int n * step" "mn \<le> u" "u \<le> b" by (auto simp: adm)
    with pos have "0 \<le> b" by simp
    with n pos show ?thesis unfolding v_def by (metis floor_to_step_greatest(2))
  qed
  have is_adm: "admissible c (sz_max_volume cfg) raw v" if "mn \<le> v"
  proof -
    have "0 \<le> b" using that pos floor_to_step_neg [of step b] by (fastforce simp: v_def)
    then show ?thesis using that pos floor_to_step_greatest(1) [of step b]
      by (auto simp: adm v_def floor_to_step_def)
  qed
  have c: "compute_follower_volume mv cfg c f =
      (if v < mn then Inl ''below_min_volume''
       else Inr (v, if \<not> list_all (\<lambda>cap. raw \<le> cap) (volume_caps c (sz_max_volume cfg)) then ''clamped_to_max'' else ''ok''))"
    using compute_volume_cases [OF assms(3,4)] by (simp add: v_def b_def step_def mn_def Let_def)
  show ?thesis
  proof (cases "v < mn")
    case True
    have "\<not> admissible c (sz_max_volume cfg) raw u" for u
    proof
      assume u: "admissible c (sz_max_volume cfg) raw u"
      then have "mn \<le> u" by (simp add: adm)
      with below [OF u] True show False by simp
    qed
    with True show ?thesis by (simp add: c)
  next
    case False
    then show ?thesis using below is_adm by (simp add: c list_ex_iff list_all_iff not_le)
  qed
qed

section \<open>Rows of the replication table\<close>

definition replication_key :: "replication \<Rightarrow> nat \<times> nat" where
  "replication_key r = (rp_event r, rp_follower r)"

definition keys_unique :: "copier_db \<Rightarrow> bool" where
  "keys_unique k \<longleftrightarrow> distinct (map replication_key (kd_replications k))"

lemma replicated_iff: "replicated k e f \<longleftrightarrow> (e, f) \<in> replication_key ` set (kd_replications k)"
  by (auto simp: replicated_def list_ex_iff replication_key_def)

lemma record_replication_frame [simp]:
  "kd_masters (record_replication r k) = kd_masters k" "kd_events (record_replication r k) = kd_events k"
  "kd_symbols (record_replication r k) = kd_symbols k" "kd_snapshots (record_replication r k) = kd_snapshots k"
  "kd_followers (record_replication r k) = kd_followers k" "kd_polls (record_replication r k) = kd_polls k"
  by (simp_all add: record_replication_def)

definition same_inputs :: "copier_db \<Rightarrow> copier_db \<Rightarrow> bool" where
  "same_inputs k k' \<longleftrightarrow> kd_masters k' = kd_masters k \<and> kd_events k' = kd_events k \<and> kd_symbols k' = kd_symbols k \<and>
     kd_snapshots k' = kd_snapshots k \<and> kd_followers k' = kd_followers k \<and> kd_polls k' = kd_polls k"

lemma intent_inputs:
  assumes "same_inputs k k'"
  shows "intent ke env db k' e f = intent ke env db k e f"
proof -
  have eq: "kd_symbols k' = kd_symbols k" using assms by (simp add: same_inputs_def)
  have rs: "resolve_follower_symbol ke k' = resolve_follower_symbol ke k"
    by (intro ext) (unfold resolve_follower_symbol_def eq, rule refl)
  have rows: "master_by_id k' = master_by_id k" "snapshot_position k' = snapshot_position k"
    using assms by (simp_all add: same_inputs_def master_by_id_def snapshot_position_def fun_eq_iff)
  show ?thesis unfolding intent_def open_intent_def modify_intent_def rs rows by (rule refl)
qed

lemma intent_row:
  assumes "intent ke env db k e f = Some r"
  shows "rp_event r = me_id e" "rp_follower r = fo_id f" "rp_job r = None" "rp_ticket r = None" "rp_recon r = ''''"
  using assms
  by (auto simp: intent_def refuse_def blank_replication_def open_intent_def modify_intent_def close_intent_def
      with_levels_def Let_def case_prod_beta split: option.splits sum.splits if_splits prod.splits)

lemma same_inputs_refl: "same_inputs k k"
  by (simp add: same_inputs_def)

lemma same_inputs_trans: "same_inputs k k1 \<Longrightarrow> same_inputs k1 k2 \<Longrightarrow> same_inputs k k2"
  by (simp add: same_inputs_def)

text \<open>
  What passes over the event \<open>e\<close> may add: one row per follower of a list, each the intent computed from the
  inputs, and only where the pair had none.
\<close>

definition intents_added ::
  "copier_env \<Rightarrow> pipe_env \<Rightarrow> pipe_db \<Rightarrow> master_event \<Rightarrow> follower set \<Rightarrow> copier_db \<Rightarrow> copier_db \<Rightarrow> bool" where
  "intents_added ke env db e fs k k' \<longleftrightarrow>
     same_inputs k k' \<and> (keys_unique k \<longrightarrow> keys_unique k') \<and>
     (\<exists>new. kd_replications k' = kd_replications k @ new \<and>
        (\<forall>r \<in> set new. \<exists>f \<in> fs. \<exists>r0. intent ke env db k e f = Some r0 \<and> (\<exists>i. r = r0\<lparr>rp_id := i\<rparr>)))"

lemma intents_added_refl: "intents_added ke env db e fs k k"
  by (simp add: intents_added_def same_inputs_refl)

lemma intents_added_trans:
  assumes "intents_added ke env db e fs k k1" "intents_added ke env db e fs k1 k2"
  shows "intents_added ke env db e fs k k2"
proof -
  have same: "same_inputs k k1" using assms(1) by (simp add: intents_added_def)
  obtain n1 n2 where n: "kd_replications k1 = kd_replications k @ n1" "kd_replications k2 = kd_replications k1 @ n2"
    "\<forall>r \<in> set n1. \<exists>f \<in> fs. \<exists>r0. intent ke env db k e f = Some r0 \<and> (\<exists>i. r = r0\<lparr>rp_id := i\<rparr>)"
    "\<forall>r \<in> set n2. \<exists>f \<in> fs. \<exists>r0. intent ke env db k1 e f = Some r0 \<and> (\<exists>i. r = r0\<lparr>rp_id := i\<rparr>)"
    using assms unfolding intents_added_def by blast
  have "kd_replications k2 = kd_replications k @ (n1 @ n2)" using n by simp
  moreover have "\<forall>r \<in> set (n1 @ n2). \<exists>f \<in> fs. \<exists>r0. intent ke env db k e f = Some r0 \<and> (\<exists>i. r = r0\<lparr>rp_id := i\<rparr>)"
    using n(3,4) unfolding intent_inputs [OF same] by auto
  ultimately show ?thesis using assms same_inputs_trans unfolding intents_added_def by blast
qed

lemma replicate_one_added: "f \<in> fs \<Longrightarrow> intents_added ke env db e fs k (replicate_one ke env db e f k)"
proof (cases "replicated k (me_id e) (fo_id f)")
  case False
  assume f: "f \<in> fs"
  show ?thesis
  proof (cases "intent ke env db k e f")
    case (Some r)
    have "replication_key r = (me_id e, fo_id f)" using intent_row [OF Some] by (simp add: replication_key_def)
    then show ?thesis using False Some f intent_row(1,2) [OF Some]
      by (auto simp: replicate_one_def record_replication_def intents_added_def same_inputs_def keys_unique_def
          replicated_iff replication_key_def)
  qed (use False in \<open>simp add: replicate_one_def intents_added_refl\<close>)
qed (simp add: replicate_one_def intents_added_refl)

lemma fold_replicate_added:
  "set fs \<subseteq> A \<Longrightarrow> intents_added ke env db e A k (fold (replicate_one ke env db e) fs k)"
proof (induction fs arbitrary: k)
  case (Cons f fs)
  have f: "f \<in> A" using Cons.prems by simp
  have "intents_added ke env db e A (replicate_one ke env db e f k)
      (fold (replicate_one ke env db e) fs (replicate_one ke env db e f k))" using Cons by simp
  with replicate_one_added [OF f] have
    "intents_added ke env db e A k (fold (replicate_one ke env db e) fs (replicate_one ke env db e f k))"
    by (rule intents_added_trans)
  then show ?case by simp
qed (simp add: intents_added_refl)

definition settled :: "copier_env \<Rightarrow> pipe_env \<Rightarrow> pipe_db \<Rightarrow> master_event \<Rightarrow> copier_db \<Rightarrow> follower \<Rightarrow> bool" where
  "settled ke env db e k f \<longleftrightarrow> replicated k (me_id e) (fo_id f) \<or> intent ke env db k e f = None"

lemma settled_kept: "settled ke env db e k f \<Longrightarrow> intents_added ke env db e A k k' \<Longrightarrow> settled ke env db e k' f"
proof -
  assume s: "settled ke env db e k f" and a: "intents_added ke env db e A k k'"
  from a obtain new where "kd_replications k' = kd_replications k @ new" unfolding intents_added_def by blast
  then have "replicated k (me_id e) (fo_id f) \<Longrightarrow> replicated k' (me_id e) (fo_id f)" by (auto simp: replicated_iff)
  moreover have "intent ke env db k' e f = intent ke env db k e f" using a intent_inputs unfolding intents_added_def by blast
  ultimately show ?thesis using s unfolding settled_def by metis
qed

lemma replicate_one_settled: "settled ke env db e k f \<Longrightarrow> replicate_one ke env db e f k = k"
  by (auto simp: settled_def replicate_one_def)

lemma replicate_one_settles: "settled ke env db e (replicate_one ke env db e f k) f"
proof (cases "replicated k (me_id e) (fo_id f)")
  case False
  show ?thesis
  proof (cases "intent ke env db k e f")
    case (Some r)
    with False show ?thesis using intent_row(1,2) [OF Some]
      by (auto simp: settled_def replicate_one_def record_replication_def replicated_def)
  qed (simp add: settled_def replicate_one_def)
qed (simp add: settled_def replicate_one_def)

lemma fold_intents_settle: "f \<in> set fs \<Longrightarrow> settled ke env db e (fold (replicate_one ke env db e) fs k) f"
proof (induction fs arbitrary: k)
  case (Cons g fs)
  show ?case
  proof (cases "f \<in> set fs")
    case False
    with Cons.prems have "f = g" by simp
    then have "settled ke env db e (replicate_one ke env db e g k) f" using replicate_one_settles by simp
    then show ?thesis using settled_kept fold_replicate_added [OF order_refl] by fastforce
  qed (use Cons in simp)
qed simp

lemma fold_settled: "\<forall>f \<in> set fs. settled ke env db e k f \<Longrightarrow> fold (replicate_one ke env db e) fs k = k"
  by (induction fs arbitrary: k) (simp_all add: replicate_one_settled)

lemma replicate_again:
  "replicate_master_event ke env db e (replicate_master_event ke env db e k) = replicate_master_event ke env db e k"
proof -
  let ?fs = "filter (\<lambda>f. fo_master f = me_master e) (kd_followers k)"
  have "intents_added ke env db e (set ?fs) k (replicate_master_event ke env db e k)"
    unfolding replicate_master_event_def by (rule fold_replicate_added) simp
  then have "kd_followers (replicate_master_event ke env db e k) = kd_followers k"
    by (simp add: intents_added_def same_inputs_def)
  moreover have "\<forall>f \<in> set ?fs. settled ke env db e (replicate_master_event ke env db e k) f"
    unfolding replicate_master_event_def using fold_intents_settle by blast
  ultimately show ?thesis by (subst replicate_master_event_def) (simp only: fold_settled)
qed

text \<open>What a recorded intent rests on.\<close>

definition sound_intent ::
  "copier_env \<Rightarrow> pipe_env \<Rightarrow> pipe_db \<Rightarrow> copier_db \<Rightarrow> master_event \<Rightarrow> follower \<Rightarrow> replication \<Rightarrow> bool" where
  "sound_intent ke env db k e f r \<longleftrightarrow>
     (\<exists>m master account ty. master_by_id k (fo_master f) = Some m \<and> account_by_id env (ma_account m) = Some master \<and>
        account_by_id env (fo_account f) = Some account \<and> me_type e = Some ty \<and>
        ac_id account \<noteq> ac_id master \<and> ac_user account = ac_user master \<and> rp_op r = op_name (op_for_event ty) \<and>
        (fo_enabled f \<or> \<not> open_like ty \<and> fo_disable_policy f \<noteq> ''B_DETACH'') \<and>
        resolve_follower_symbol ke k master (me_symbol e) account = Some (Inr (rp_symbol r)) \<and>
        (open_like ty \<longrightarrow> (\<exists>v note. rp_volume r = Some (quantize 3 v) \<and>
           compute_follower_volume (Some (open_volume e)) (sizing_of f)
             (broker_constraints_for db (fo_account f) (rp_symbol r)) no_facts = Inr (v, note))) \<and>
        (modify_like ty \<longrightarrow> (\<exists>p. snapshot_position k e = Some p)))"

lemma shadow_intent_sound:
  assumes "intent ke env db k e f = Some r" "rp_status r = ShadowRecorded"
  shows "sound_intent ke env db k e f r"
proof -
  obtain ty where ty: "me_type e = Some ty" using assms by (cases "me_type e") (auto simp: intent_def refuse_def)
  obtain master m account where acc: "master_by_id k (fo_master f) = Some m" "account_by_id env (ma_account m) = Some master"
      "account_by_id env (fo_account f) = Some account"
    using assms(1) ty by (auto simp: intent_def Let_def bind_eq_Some_conv split: option.splits)
  define r0 where "r0 = blank_replication 0 (me_id e) (fo_id f) (op_name (op_for_event ty))"
  have r0: "rp_op r0 = op_name (op_for_event ty)" "rp_status r0 = Rejected" by (simp_all add: r0_def blank_replication_def)
  have bound: "fst (validate_follower_binding ke master account)"
    and part: "fst (participation f ty)"
    using assms ty acc by (auto simp: intent_def Let_def refuse_def case_prod_beta split: if_splits)
  obtain s where s: "resolve_follower_symbol ke k master (me_symbol e) account = Some (Inr s)"
    "r = (if open_like ty then open_intent db k e f s r0 else if modify_like ty then modify_intent k e f s r0
          else close_intent s r0)"
    using assms ty acc bound part
    by (auto simp: intent_def Let_def refuse_def case_prod_beta r0_def split: option.splits sum.splits)
  have "ac_id account \<noteq> ac_id master \<and> ac_user account = ac_user master"
    using bound by (auto simp: validate_follower_binding_def split: if_splits)
  moreover have "fo_enabled f \<or> \<not> open_like ty \<and> fo_disable_policy f \<noteq> ''B_DETACH''"
    using part by (auto simp: participation_def split: if_splits)
  moreover have "rp_op r = op_name (op_for_event ty) \<and> rp_symbol r = s"
    unfolding s(2) using r0
    by (auto simp: open_intent_def modify_intent_def close_intent_def with_levels_def Let_def
        split: sum.splits option.splits prod.splits)
  moreover have "\<exists>v note. rp_volume r = Some (quantize 3 v) \<and>
      compute_follower_volume (Some (open_volume e)) (sizing_of f) (broker_constraints_for db (fo_account f) s) no_facts = Inr (v, note)"
    if "open_like ty"
    using that assms(2) unfolding s(2) by (auto simp: open_intent_def Let_def with_levels_def split: sum.splits prod.splits)
  moreover have "\<exists>p. snapshot_position k e = Some p" if "modify_like ty"
  proof -
    have "\<not> open_like ty" using that by (auto simp: open_like_def modify_like_def is_sl_type_def is_tp_type_def)
    then show ?thesis using that assms(2) unfolding s(2) by (auto simp: modify_intent_def r0 split: option.splits)
  qed
  ultimately show ?thesis using ty acc s(1) unfolding sound_intent_def by auto
qed

section \<open>Properties\<close>

text \<open>
  The follower's volume is the greatest admissible one: a whole number of lot steps, at least the broker's
  minimum, never above the request, the broker's maximum or the follower's own cap. It is refused exactly
  when there is none, and flagged exactly when a cap is below the request.
\<close>

theorem sizing_is_greatest_admissible:
  assumes "0 < bc_lot_step c" "0 \<le> bc_min_volume c" "positive mv = Some m" "raw_target m cfg f = Inr raw"
  shows "case compute_follower_volume mv cfg c f of
      Inl why \<Rightarrow> why = ''below_min_volume'' \<and> (\<forall>v. \<not> admissible c (sz_max_volume cfg) raw v)
    | Inr (v, note) \<Rightarrow>
        admissible c (sz_max_volume cfg) raw v \<and> (\<forall>u. admissible c (sz_max_volume cfg) raw u \<longrightarrow> u \<le> v) \<and>
        note = (if list_ex (\<lambda>cap. cap < raw) (volume_caps c (sz_max_volume cfg)) then ''clamped_to_max'' else ''ok'')"
  by (rule sizing_correct [OF assms])

text \<open>
  Replicating an event adds at most one row per follower of its master and never touches a row; a row that
  asks for execution has an enabled or managing follower of the same owner on another account, a symbol of
  the same broker or of a verified map, and a sized volume; repeating it changes nothing.
\<close>

theorem intents_recorded_once:
  fixes ke :: copier_env and env :: pipe_env and db :: pipe_db and e :: master_event
  assumes "keys_unique k"
  defines "k' \<equiv> replicate_master_event ke env db e k"
  shows "keys_unique k' \<and> replicate_master_event ke env db e k' = k' \<and>
    (\<exists>new. kd_replications k' = kd_replications k @ new \<and>
       (\<forall>r \<in> set new. rp_event r = me_id e \<and> rp_job r = None \<and>
          (\<exists>f \<in> set (kd_followers k). fo_master f = me_master e \<and> rp_follower r = fo_id f \<and>
             (rp_status r = ShadowRecorded \<longrightarrow> sound_intent ke env db k e f r))))"
proof -
  let ?fs = "filter (\<lambda>f. fo_master f = me_master e) (kd_followers k)"
  have added: "intents_added ke env db e (set ?fs) k k'"
    unfolding k'_def replicate_master_event_def by (rule fold_replicate_added) simp
  then obtain new where new: "kd_replications k' = kd_replications k @ new"
    "\<forall>r \<in> set new. \<exists>f \<in> set ?fs. \<exists>r0. intent ke env db k e f = Some r0 \<and> (\<exists>i. r = r0\<lparr>rp_id := i\<rparr>)"
    unfolding intents_added_def by blast
  have "rp_event r = me_id e \<and> rp_job r = None \<and> (\<exists>f \<in> set (kd_followers k). fo_master f = me_master e \<and>
      rp_follower r = fo_id f \<and> (rp_status r = ShadowRecorded \<longrightarrow> sound_intent ke env db k e f r))"
    if "r \<in> set new" for r
  proof -
    from new(2) that obtain f r0 i where f: "f \<in> set ?fs" "intent ke env db k e f = Some r0" "r = r0\<lparr>rp_id := i\<rparr>" by blast
    have "sound_intent ke env db k e f r" if "rp_status r = ShadowRecorded"
      using shadow_intent_sound [OF f(2)] that by (simp add: f(3) sound_intent_def)
    then show ?thesis using f intent_row [OF f(2)] by auto
  qed
  then show ?thesis using assms(1) added new(1) replicate_again
    unfolding k'_def intents_added_def by blast
qed

text \<open>
  The sweep takes the first events without a row, whether or not their master has followers: once the batch
  is full of events of masters without followers, no event is replicated again.
\<close>

theorem followerless_events_starve_the_sweep:
  assumes "\<forall>e \<in> set (take limit (sort_key (\<lambda>e. (me_master e, me_sequence e))
           (filter (\<lambda>e. \<not> list_ex (\<lambda>r. rp_event r = me_id e) (kd_replications k)) (kd_events k)))).
           \<not> list_ex (\<lambda>f. fo_master f = me_master e) (kd_followers k)"
  shows "replicate_pending ke env db limit k = k"
proof -
  have none: "replicate_master_event ke env db e k = k" if "\<not> list_ex (\<lambda>f. fo_master f = me_master e) (kd_followers k)" for e
    using that by (simp add: replicate_master_event_def list_ex_iff filter_empty_conv)
  have "fold (replicate_master_event ke env db) es k = k"
    if "\<forall>e \<in> set es. \<not> list_ex (\<lambda>f. fo_master f = me_master e) (kd_followers k)" for es
    using that by (induction es) (simp_all add: none)
  then show ?thesis using assms by (simp add: replicate_pending_def)
qed

section \<open>Witnesses\<close>

definition copier_account :: trading_account where
  "copier_account = demo_account\<lparr>ac_id := 8, ac_account_number := ''88''\<rparr>"

definition copier_pipe :: pipe_env where
  "copier_pipe = demo_env\<lparr>pe_fleet := (pe_fleet demo_env)\<lparr>fl_accounts := [demo_account, copier_account]\<rparr>\<rparr>"

definition demo_copier_env :: copier_env where
  "demo_copier_env = \<lparr>ke_broker_name = (\<lambda>_. ''''), ke_repr = (\<lambda>_. '''')\<rparr>"

definition copier_pipe_db :: pipe_db where
  "copier_pipe_db = empty_db\<lparr>db_instruments := [\<lparr>bi_account = 8, bi_broker_symbol = ''XAUUSD'', bi_base_symbol = ''XAUUSD'',
     bi_enabled = True, bi_metadata = JObj [(''volume_min'', JFloat (Finite (1 / 100)) ''0.01''),
       (''volume_step'', JFloat (Finite (1 / 100)) ''0.01'')]\<rparr>]\<rparr>"

definition demo_follower :: follower where
  "demo_follower = \<lparr>fo_id = 1, fo_master = 1, fo_account = 8, fo_enabled = True, fo_sizing_mode = ''MULTIPLIER'',
     fo_fixed_lot = None, fo_multiplier = 1 / 3, fo_risk_pct = None, fo_max_volume = Some 1, fo_sltp = ''SAME_PRICE'',
     fo_disable_policy = ''A_KEEP_MANAGING''\<rparr>"

definition demo_master :: copier_master where
  "demo_master = \<lparr>ma_id = 1, ma_account = 7, ma_enabled = True, ma_last_poll = None, ma_lease_token = '''', ma_lease_until = None,
     ma_projected = 0\<rparr>"

definition demo_event :: "nat \<Rightarrow> event_type \<Rightarrow> master_event" where
  "demo_event i ty = \<lparr>me_id = i, me_master = 1, me_sequence = i, me_poll = 1, me_type = Some ty, me_ticket = 70,
     me_symbol = ''XAUUSD'', me_side = ''BUY'', me_volume_before = 0, me_volume_after = 1 / 2, me_volume_delta = 1 / 2,
     me_prev_sl = None, me_new_sl = Some 2290, me_prev_tp = None, me_new_tp = Some 2350, me_observed_at = 900,
     me_broker_time = None\<rparr>"

definition demo_snapshot :: snapshot where
  "demo_snapshot = \<lparr>sn_poll = 1, sn_position = (demo_position 70 (1 / 2) (Some 2290) (Some 2350))\<rparr>"

definition demo_copier_db :: copier_db where
  "demo_copier_db = \<lparr>kd_masters = [demo_master], kd_polls = [], kd_snapshots = [demo_snapshot],
     kd_events = [demo_event 1 EvOpen], kd_followers = [demo_follower], kd_symbols = [], kd_replications = [],
     kd_next_poll = 2, kd_next_event = 2, kd_next_replication = 1\<rparr>"

theorem sizing_is_greatest_admissible_witness:
  "compute_follower_volume (Some (1 / 2)) (sizing_of demo_follower)
     (broker_constraints_for copier_pipe_db 8 ''XAUUSD'') no_facts = Inr (16 / 100, ''ok'') \<and>
   admissible (broker_constraints_for copier_pipe_db 8 ''XAUUSD'') (Some 1) (1 / 6) (16 / 100)"
proof -
  let ?c = "broker_constraints_for copier_pipe_db 8 ''XAUUSD''"
  have v: "compute_follower_volume (Some (1 / 2)) (sizing_of demo_follower) ?c no_facts = Inr (16 / 100, ''ok'')" by code_simp
  have "0 < bc_lot_step ?c" "0 \<le> bc_min_volume ?c" "positive (Some (1 / 2)) = Some (1 / 2)"
    "raw_target (1 / 2) (sizing_of demo_follower) no_facts = Inr (1 / 6)" by code_simp+
  then have "admissible ?c (sz_max_volume (sizing_of demo_follower)) (1 / 6) (16 / 100)"
    using sizing_is_greatest_admissible [of ?c "Some (1 / 2)" "1 / 2" "sizing_of demo_follower" no_facts "1 / 6"] v by simp
  moreover have "sz_max_volume (sizing_of demo_follower) = Some 1" by (simp add: sizing_of_def demo_follower_def)
  ultimately show ?thesis using v by simp
qed

theorem intents_recorded_once_witness:
  "map (\<lambda>r. (rp_op r, rp_status r, rp_volume r, rp_sl r))
     (kd_replications (replicate_master_event demo_copier_env copier_pipe copier_pipe_db (demo_event 1 EvOpen)
        (replicate_master_event demo_copier_env copier_pipe copier_pipe_db (demo_event 1 EvOpen) demo_copier_db))) =
   [(''OPEN'', ShadowRecorded, Some (16 / 100), Some 2290)]"
proof -
  have "keys_unique demo_copier_db" by code_simp
  then have "replicate_master_event demo_copier_env copier_pipe copier_pipe_db (demo_event 1 EvOpen)
        (replicate_master_event demo_copier_env copier_pipe copier_pipe_db (demo_event 1 EvOpen) demo_copier_db) =
      replicate_master_event demo_copier_env copier_pipe copier_pipe_db (demo_event 1 EvOpen) demo_copier_db"
    using intents_recorded_once by blast
  moreover have "map (\<lambda>r. (rp_op r, rp_status r, rp_volume r, rp_sl r))
     (kd_replications (replicate_master_event demo_copier_env copier_pipe copier_pipe_db (demo_event 1 EvOpen) demo_copier_db)) =
   [(''OPEN'', ShadowRecorded, Some (16 / 100), Some 2290)]" by code_simp
  ultimately show ?thesis by simp
qed

definition starved_db :: copier_db where
  "starved_db = demo_copier_db
     \<lparr>kd_masters := [demo_master\<lparr>ma_id := 0, ma_account := 9\<rparr>, demo_master],
      kd_events := [(demo_event 2 EvOpen)\<lparr>me_master := 0\<rparr>, (demo_event 3 EvFullClose)\<lparr>me_master := 0\<rparr>, demo_event 1 EvOpen]\<rparr>"

theorem followerless_events_starve_the_sweep_witness:
  "replicate_pending demo_copier_env copier_pipe copier_pipe_db 2 starved_db = starved_db \<and>
   kd_replications (replicate_pending demo_copier_env copier_pipe copier_pipe_db 3 starved_db) \<noteq> []"
proof -
  have "\<forall>e \<in> set (take 2 (sort_key (\<lambda>e. (me_master e, me_sequence e))
           (filter (\<lambda>e. \<not> list_ex (\<lambda>r. rp_event r = me_id e) (kd_replications starved_db)) (kd_events starved_db)))).
           \<not> list_ex (\<lambda>f. fo_master f = me_master e) (kd_followers starved_db)" by code_simp
  moreover have "kd_replications (replicate_pending demo_copier_env copier_pipe copier_pipe_db 3 starved_db) \<noteq> []"
    by code_simp
  ultimately show ?thesis using followerless_events_starve_the_sweep by blast
qed

end
