(* ===== verification/CopierObserver.thy ===== *)
theory CopierObserver
  imports CopierIntent
begin

text \<open>
  The observer of the trade copier (\<^verbatim>\<open>trade_copier/observer.py\<close>): the read destination and the identity
  firewall of a customer read (\<^verbatim>\<open>execution/snapshot_transport.py\<close>), the reading of the bridge's positions, the
  single-flight lease, and the recording of a poll with its events. The HTTP answer of the bridge is a
  parameter; its numbers are finite. Values fit their columns.
\<close>

section \<open>Reading the positions\<close>

record endpoint =
  ep_account :: int
  ep_state :: string
  ep_base_url :: string

text \<open>The endpoints, the global agent and its token, and what a GET of the positions at a base answers.\<close>

record observer_env =
  oe_endpoints :: "endpoint list"
  oe_global_base :: string
  oe_token :: string
  oe_get :: "string \<Rightarrow> json option"

record snapshot_transport =
  st_ok :: bool
  st_reason :: string
  st_base :: string
  st_per_tenant :: bool

definition clean_url :: "string \<Rightarrow> string" where
  "clean_url u = rev (dropWhile (\<lambda>c. c = CHR ''/'') (rev (strip u)))"

definition resolve_account_snapshot_base :: "observer_env \<Rightarrow> trading_account \<Rightarrow> snapshot_transport" where
  "resolve_account_snapshot_base oe a =
     (let refused = (\<lambda>why. \<lparr>st_ok = False, st_reason = why, st_base = '''', st_per_tenant = False\<rparr>) in
      case find (\<lambda>e. ep_account e = ac_id a \<and> ep_state e \<noteq> ''RETIRED'') (oe_endpoints oe) of
        Some e \<Rightarrow>
          if ep_state e \<noteq> ''READY'' then refused ''snapshot_transport_endpoint_not_ready''
          else if clean_url (ep_base_url e) = '''' then refused ''snapshot_transport_endpoint_unconfigured''
          else \<lparr>st_ok = True, st_reason = ''snapshot_transport_per_tenant_ok'', st_base = clean_url (ep_base_url e),
                st_per_tenant = True\<rparr>
      | None \<Rightarrow>
          if ac_readiness_provider a = persistent_workspace then refused ''snapshot_transport_hosted_no_endpoint''
          else if clean_url (oe_global_base oe) = '''' then refused ''snapshot_transport_endpoint_unconfigured''
          else \<lparr>st_ok = True, st_reason = ''snapshot_transport_legacy_global'', st_base = clean_url (oe_global_base oe),
                st_per_tenant = False\<rparr>)"

text \<open>\<open>None\<close>: the server row of the account is gone.\<close>

definition expected_identity :: "trading_account \<Rightarrow> (string \<times> string) option" where
  "expected_identity a =
     (case ac_server a of
        DanglingServer \<Rightarrow> None
      | Server s \<Rightarrow> Some (strip (ac_account_number a), strip (bs_server_name s))
      | NoServer \<Rightarrow> Some (strip (ac_account_number a), ''''))"

definition expected_is_demo :: "trading_account \<Rightarrow> bool option" where
  "expected_is_demo a = map_option (\<lambda>e. e = Demo) (account_environment a)"

definition json_zero :: "json \<Rightarrow> bool" where
  "json_zero v \<longleftrightarrow> (case v of JInt i \<Rightarrow> i = 0 | JBool b \<Rightarrow> \<not> b | JFloat (Finite x) _ \<Rightarrow> x = 0 | _ \<Rightarrow> False)"

definition verify_snapshot_identity ::
  "trading_account \<Rightarrow> string \<Rightarrow> string \<Rightarrow> bool \<Rightarrow> json option \<Rightarrow> bool \<Rightarrow> (bool \<times> string) option" where
  "verify_snapshot_identity a observed_login observed_server require_server mode require_environment =
     (case expected_identity a of
        None \<Rightarrow> None
      | Some (login, server) \<Rightarrow>
          Some (if login = '''' then (False, ''snapshot_identity_no_expected_login'')
                else if strip observed_login = '''' then (False, ''snapshot_identity_observed_missing'')
                else if strip observed_login \<noteq> login then (False, ''snapshot_identity_login_mismatch'')
                else if require_server \<and> server \<noteq> '''' \<and> strip observed_server \<noteq> '''' \<and>
                        casefold (strip observed_server) \<noteq> casefold server
                then (False, ''snapshot_identity_server_mismatch'')
                else if require_environment \<and>
                        (case (mode, expected_is_demo a) of (Some v, Some d) \<Rightarrow> json_zero v \<noteq> d | _ \<Rightarrow> False)
                then (False, ''snapshot_identity_environment_mismatch'')
                else (True, ''snapshot_identity_ok'')))"

text \<open>\<open>p.get(key)\<close> where null and absent agree, and \<open>str(p.get(key) or "")\<close>.\<close>

definition payload_get :: "json \<Rightarrow> string \<Rightarrow> json option" where
  "payload_get p k = (case obj_get p k of Some JNull \<Rightarrow> None | v \<Rightarrow> v)"

definition payload_text :: "json \<Rightarrow> string \<Rightarrow> string" where
  "payload_text p k = (case payload_get p k of None \<Rightarrow> '''' | Some v \<Rightarrow> if py_truthy v then py_str v else '''')"

definition payload_number :: "json \<Rightarrow> string \<Rightarrow> rat option" where
  "payload_number p k = Option.bind (payload_get p k) json_float"

text \<open>\<open>ObservedPosition.from_payload\<close>; the ticket is present.\<close>

definition position_from_payload :: "json \<Rightarrow> json \<Rightarrow> conv_error + observed_position" where
  "position_from_payload ticket p =
     (case py_int ticket of
        Inl e \<Rightarrow> Inl e
      | Inr t \<Rightarrow>
          (let side = payload_text p ''side'';
               side' = (if side \<noteq> '''' then side
                        else if (case payload_get p ''type'' of None \<Rightarrow> False | Some v \<Rightarrow> json_zero v) then ''BUY'' else ''SELL'');
               vol = (case payload_get p ''volume'' of None \<Rightarrow> Some 0 | Some v \<Rightarrow> if py_truthy v then json_float v else Some 0) in
           case vol of
             None \<Rightarrow> Inl ConvValue
           | Some x \<Rightarrow>
               (case (case payload_get p ''magic'' of None \<Rightarrow> Inr None
                      | Some v \<Rightarrow> (case py_int v of Inr i \<Rightarrow> Inr (Some i) | Inl ConvOverflow \<Rightarrow> Inl ConvOverflow | Inl _ \<Rightarrow> Inr None)) of
                  Inl e \<Rightarrow> Inl e
                | Inr magic \<Rightarrow>
                    Inr \<lparr>op_ticket = t, op_symbol = payload_text p ''symbol'', op_side = side', op_volume = x,
                         op_sl = payload_number p ''sl'', op_tp = payload_number p ''tp'',
                         op_price_open = payload_number p ''price_open'', op_price_current = payload_number p ''price_current'',
                         op_magic = magic, op_comment = payload_text p ''comment''\<rparr>)))"

text \<open>The rows in order: the first bad one fails the read; an overflow is not caught.\<close>

datatype fetch_error = FetchConversion conv_error | FetchNoServer

fun read_rows :: "json list \<Rightarrow> observed_position list \<Rightarrow> fetch_error + (string + observed_position list)" where
  "read_rows [] acc = Inr (Inr acc)"
| "read_rows (p # ps) acc =
     (case payload_get p ''ticket'' of
        None \<Rightarrow> Inr (Inl ''malformed_position'')
      | Some t \<Rightarrow>
          (case position_from_payload t p of
             Inl ConvOverflow \<Rightarrow> Inl (FetchConversion ConvOverflow)
           | Inl _ \<Rightarrow> Inr (Inl ''malformed_position'')
           | Inr q \<Rightarrow> if op_ticket q \<in> op_ticket ` set acc then Inr (Inl ''duplicate_position_ticket'')
                      else read_rows ps (acc @ [q])))"

record read_result =
  mr_ok :: bool
  mr_reason :: string
  mr_login :: string
  mr_server :: string
  mr_trade_mode :: "int option"
  mr_positions :: "observed_position list"
  mr_read_at :: "int option"

definition refused_read :: "string \<Rightarrow> read_result" where
  "refused_read why = \<lparr>mr_ok = False, mr_reason = why, mr_login = '''', mr_server = '''', mr_trade_mode = None,
                       mr_positions = [], mr_read_at = None\<rparr>"

definition fetch_master_positions :: "observer_env \<Rightarrow> int \<Rightarrow> trading_account \<Rightarrow> fetch_error + read_result" where
  "fetch_master_positions oe now a =
     (if oe_token oe = '''' then Inr (refused_read ''no_agent_token'')
      else
        let st = resolve_account_snapshot_base oe a in
        if \<not> st_ok st then Inr (refused_read (st_reason st))
        else case oe_get oe (st_base st) of
          None \<Rightarrow> Inr (refused_read ''positions_read_error'')
        | Some pdata \<Rightarrow>
            if \<not> (case payload_get pdata ''ok'' of None \<Rightarrow> False | Some v \<Rightarrow> py_truthy v)
            then Inr (refused_read ''positions_not_ok'')
            else
              let login = payload_text pdata ''account_login''; server = payload_text pdata ''account_server'';
                  mode = payload_get pdata ''trade_mode''; legacy = \<not> st_per_tenant st in
              case verify_snapshot_identity a login server legacy mode True of
                None \<Rightarrow> Inl FetchNoServer
              | Some (ok, why) \<Rightarrow>
                  if \<not> ok \<or> (legacy \<and> strip server = '''') then Inr (refused_read why)
                  else case obj_get pdata ''positions'' of
                    Some (JArr rows) \<Rightarrow>
                      (case read_rows rows [] of
                         Inl e \<Rightarrow> Inl e
                       | Inr (Inl why') \<Rightarrow> Inr (refused_read why')
                       | Inr (Inr ps) \<Rightarrow>
                           (case (case mode of None \<Rightarrow> Inr None | Some v \<Rightarrow> map_sum id Some (py_int v)) of
                              Inl e \<Rightarrow> Inl (FetchConversion e)
                            | Inr md \<Rightarrow>
                                Inr \<lparr>mr_ok = True, mr_reason = ''ok'', mr_login = login, mr_server = server,
                                     mr_trade_mode = md, mr_positions = ps, mr_read_at = Some now\<rparr>))
                  | _ \<Rightarrow> Inr (refused_read ''positions_not_a_list''))"

section \<open>The lease\<close>

definition update_master :: "nat \<Rightarrow> (copier_master \<Rightarrow> copier_master) \<Rightarrow> copier_db \<Rightarrow> copier_db" where
  "update_master i f k = k\<lparr>kd_masters := map (\<lambda>m. if ma_id m = i then f m else m) (kd_masters k)\<rparr>"

definition lease_held :: "copier_master \<Rightarrow> int \<Rightarrow> bool" where
  "lease_held m now \<longleftrightarrow> (case ma_lease_until m of None \<Rightarrow> False | Some t \<Rightarrow> t > now)"

definition claim_observation_lease :: "nat \<Rightarrow> string \<Rightarrow> int \<Rightarrow> int \<Rightarrow> copier_db \<Rightarrow> bool \<times> copier_db" where
  "claim_observation_lease i token now lease k =
     (case master_by_id k i of
        None \<Rightarrow> (False, k)
      | Some m \<Rightarrow>
          if lease_held m now then (False, k)
          else (True, update_master i (\<lambda>m. m\<lparr>ma_lease_token := token, ma_lease_until := Some (now + lease)\<rparr>) k))"

definition release_observation_lease :: "nat \<Rightarrow> string \<Rightarrow> copier_db \<Rightarrow> copier_db" where
  "release_observation_lease i token k =
     update_master i (\<lambda>m. if ma_lease_token m = token then m\<lparr>ma_lease_token := '''', ma_lease_until := None\<rparr> else m) k"

section \<open>Recording an observation\<close>

definition level_to_decimal :: "rat option \<Rightarrow> rat option" where
  "level_to_decimal v = map_option (quantize 10) (kept_level v)"

definition num_to_decimal :: "rat option \<Rightarrow> rat option" where
  "num_to_decimal v = map_option (quantize 10) v"

definition stored_position :: "observed_position \<Rightarrow> observed_position" where
  "stored_position p =
     p\<lparr>op_volume := quantize 3 (op_volume p), op_sl := level_to_decimal (op_sl p), op_tp := level_to_decimal (op_tp p),
       op_price_open := num_to_decimal (op_price_open p), op_price_current := num_to_decimal (op_price_current p),
       op_comment := take 128 (op_comment p)\<rparr>"

definition positions_from_poll :: "copier_db \<Rightarrow> nat \<Rightarrow> observed_position list" where
  "positions_from_poll k i = map sn_position (filter (\<lambda>s. sn_poll s = i) (kd_snapshots k))"

definition poll_by_id :: "copier_db \<Rightarrow> nat \<Rightarrow> poll option" where
  "poll_by_id k i = find (\<lambda>p. po_id p = i) (kd_polls k)"

definition events_of :: "copier_db \<Rightarrow> nat \<Rightarrow> master_event list" where
  "events_of k i = filter (\<lambda>e. me_master e = i) (kd_events k)"

definition base_sequence :: "copier_db \<Rightarrow> nat \<Rightarrow> nat" where
  "base_sequence k i = foldl max 0 (map me_sequence (events_of k i))"

definition event_row :: "nat \<Rightarrow> nat \<Rightarrow> nat \<Rightarrow> nat \<Rightarrow> int \<Rightarrow> event_spec \<Rightarrow> master_event" where
  "event_row i m n p now e =
     \<lparr>me_id = i, me_master = m, me_sequence = n, me_poll = p, me_type = Some (ev_type e), me_ticket = ev_ticket e,
      me_symbol = ev_symbol e, me_side = ev_side e, me_volume_before = quantize 3 (ev_volume_before e),
      me_volume_after = quantize 3 (ev_volume_after e), me_volume_delta = quantize 3 (volume_delta e),
      me_prev_sl = num_to_decimal (ev_prev_sl e), me_new_sl = num_to_decimal (ev_new_sl e),
      me_prev_tp = num_to_decimal (ev_prev_tp e), me_new_tp = num_to_decimal (ev_new_tp e), me_observed_at = now,
      me_broker_time = None\<rparr>"

definition event_rows :: "copier_db \<Rightarrow> nat \<Rightarrow> nat \<Rightarrow> int \<Rightarrow> event_spec list \<Rightarrow> master_event list" where
  "event_rows k m p now es =
     map (\<lambda>(i, e). event_row (kd_next_event k + i) m (base_sequence k m + Suc i) p now e) (zip [0..<length es] es)"

definition new_poll :: "copier_db \<Rightarrow> nat \<Rightarrow> read_result \<Rightarrow> int \<Rightarrow> poll" where
  "new_poll k m r now =
     \<lparr>po_id = kd_next_poll k, po_master = m, po_observed_at = now,
      po_read_at = Some (case mr_read_at r of None \<Rightarrow> now | Some t \<Rightarrow> t), po_login = mr_login r, po_server = mr_server r,
      po_trade_mode = mr_trade_mode r, po_count = length (mr_positions r)\<rparr>"

text \<open>The change since the previous poll; the first poll is the baseline and emits nothing.\<close>

definition observed_changes :: "copier_db \<Rightarrow> copier_master \<Rightarrow> observed_position list \<Rightarrow> event_spec list" where
  "observed_changes k m new =
     (case ma_last_poll m of
        None \<Rightarrow> []
      | Some p \<Rightarrow> (let prev = positions_from_poll k p in diff_positions (all_tickets prev new) prev new))"

definition store_observation :: "copier_master \<Rightarrow> read_result \<Rightarrow> int \<Rightarrow> copier_db \<Rightarrow> copier_db" where
  "store_observation m r now k =
     (let es = event_rows k (ma_id m) (kd_next_poll k) now (observed_changes k m (mr_positions r)) in
      update_master (ma_id m) (\<lambda>x. x\<lparr>ma_last_poll := Some (kd_next_poll k)\<rparr>)
        (k\<lparr>kd_polls := kd_polls k @ [new_poll k (ma_id m) r now],
           kd_snapshots := kd_snapshots k @
             map (\<lambda>p. \<lparr>sn_poll = kd_next_poll k, sn_position = stored_position p\<rparr>) (mr_positions r),
           kd_events := kd_events k @ es, kd_next_poll := Suc (kd_next_poll k),
           kd_next_event := kd_next_event k + length es\<rparr>))"

datatype record_response = LeaseLost | StaleDiscarded | Recorded nat | RecordRaised

definition lease_lost :: "copier_master \<Rightarrow> string option \<Rightarrow> int \<Rightarrow> bool" where
  "lease_lost m token now \<longleftrightarrow>
     (case token of None \<Rightarrow> False | Some t \<Rightarrow> ma_lease_token m \<noteq> t \<or> \<not> lease_held m now)"

definition read_is_stale :: "copier_db \<Rightarrow> copier_master \<Rightarrow> read_result \<Rightarrow> bool" where
  "read_is_stale k m r \<longleftrightarrow>
     (case (Option.bind (ma_last_poll m) (poll_by_id k), mr_read_at r) of
        (Some p, Some t) \<Rightarrow> (case po_read_at p of None \<Rightarrow> False | Some u \<Rightarrow> t \<le> u) | _ \<Rightarrow> False)"

text \<open>Duplicate tickets break the unique key of the snapshots, so the transaction is undone.\<close>

definition record_observation ::
  "nat \<Rightarrow> read_result \<Rightarrow> string option \<Rightarrow> int \<Rightarrow> copier_db \<Rightarrow> record_response \<times> copier_db" where
  "record_observation i r token now k =
     (case master_by_id k i of
        None \<Rightarrow> (RecordRaised, k)
      | Some m \<Rightarrow>
          if lease_lost m token now then (LeaseLost, k)
          else if read_is_stale k m r then (StaleDiscarded, k)
          else if \<not> distinct (map op_ticket (mr_positions r)) then (RecordRaised, k)
          else (Recorded (length (observed_changes k m (mr_positions r))), store_observation m r now k))"

text \<open>One pass over a master: the answer and whether it was recorded. The three times are the pass's clock.\<close>

definition observe_master ::
  "(trading_account \<Rightarrow> fetch_error + read_result) \<Rightarrow> pipe_env \<Rightarrow> string \<Rightarrow> int \<Rightarrow> int \<Rightarrow> int \<Rightarrow> copier_master \<Rightarrow> copier_db
     \<Rightarrow> (bool \<times> string) option \<times> copier_db" where
  "observe_master fetch env token lease t1 t2 m k =
     (let (claimed, k1) = claim_observation_lease (ma_id m) token t1 lease k in
      if \<not> claimed then (Some (False, ''observation_in_flight''), k)
      else case Option.bind (account_by_id env (ma_account m)) (\<lambda>a. case fetch a of Inl _ \<Rightarrow> None | Inr r \<Rightarrow> Some r) of
        None \<Rightarrow> (None, release_observation_lease (ma_id m) token k1)
      | Some r \<Rightarrow>
          if \<not> mr_ok r then (Some (False, mr_reason r), release_observation_lease (ma_id m) token k1)
          else
            (let (resp, k2) = record_observation (ma_id m) r (Some token) t2 k1 in
             (case resp of
                RecordRaised \<Rightarrow> None
              | StaleDiscarded \<Rightarrow> Some (True, ''stale_read_discarded'')
              | LeaseLost \<Rightarrow> Some (True, ''lease_lost'')
              | Recorded _ \<Rightarrow> Some (True, ''ok''), release_observation_lease (ma_id m) token k2)))"

text \<open>A pass over the enabled masters; a failure of one does not stop the others. Tokens and times per master.\<close>

definition run_observer_pass ::
  "(trading_account \<Rightarrow> fetch_error + read_result) \<Rightarrow> pipe_env \<Rightarrow> (nat \<Rightarrow> string) \<Rightarrow> int \<Rightarrow> (nat \<Rightarrow> int \<times> int) \<Rightarrow> nat option
     \<Rightarrow> copier_db \<Rightarrow> copier_db" where
  "run_observer_pass fetch env token lease clock limit k =
     (let ms = sort_key ma_id (filter ma_enabled (kd_masters k));
          ms = (case limit of None \<Rightarrow> ms | Some 0 \<Rightarrow> ms | Some n \<Rightarrow> take n ms) in
      fold (\<lambda>m k. snd (observe_master fetch env (token (ma_id m)) lease (fst (clock (ma_id m))) (snd (clock (ma_id m))) m k))
        ms k)"

section \<open>What the columns keep\<close>

lemma round_even_of_int [simp]: "round_even (of_int n) = n"
  by (simp add: round_even_def)

lemma multiple_ofD: "multiple_of g x \<Longrightarrow> 0 < g \<Longrightarrow> \<exists>n. x = of_int n * g"
  by (rule exI [of _ "\<lfloor>x / g\<rfloor>"]) (simp add: multiple_of_def field_simps)

lemma multiple_of_zero [simp]: "multiple_of g 0"
  by (simp add: multiple_of_def)

lemma quantize_multiple:
  assumes "multiple_of (1 / 10 ^ j) x" "j \<le> k"
  shows "quantize k x = x"
proof -
  obtain n where n: "x = of_int n * (1 / 10 ^ j)" using multiple_ofD [OF assms(1)] by auto
  have "(10 :: rat) ^ k = 10 ^ j * 10 ^ (k - j)" using assms(2) by (simp add: power_add [symmetric])
  then have e: "x * 10 ^ k = of_int (n * 10 ^ (k - j))" using n by simp
  have "quantize k x = x * 10 ^ k / 10 ^ k" by (simp only: quantize_def e round_even_of_int)
  then show ?thesis by simp
qed

lemma volume_multiple: "multiple_of (1 / 100) x \<Longrightarrow> quantize 3 x = x"
  using quantize_multiple [of 2 x 3] by simp

lemma level_multiple: "multiple_of (1 / 10 ^ 8) x \<Longrightarrow> quantize 10 x = x"
  by (rule quantize_multiple [of 8]) simp_all

lemma level_value_num: "multiple_of (1 / 10 ^ 8) (level_value v) \<Longrightarrow> level_value (num_to_decimal v) = level_value v"
  by (cases v) (simp_all add: level_value_def num_to_decimal_def level_multiple)

lemma level_value_level:
  assumes "multiple_of (1 / 10 ^ 8) (level_value v)"
  shows "level_value (level_to_decimal v) = level_value v"
proof (cases v)
  case (Some x)
  show ?thesis
  proof (cases "has_level v")
    case False
    then have "\<bar>x - 0\<bar> < 1 / 10 ^ 8" using Some by (simp add: has_level_def price_eps_def)
    then have "x = 0" using grid_close [of "1 / 10 ^ 8" x 0] assms Some by (simp add: level_value_def)
    with Some False show ?thesis by (simp add: level_value_def level_to_decimal_def kept_level_def)
  qed (use Some assms in \<open>simp add: level_value_def level_to_decimal_def kept_level_def level_multiple\<close>)
qed (simp add: level_value_def level_to_decimal_def kept_level_def has_level_def)

text \<open>A position on the grid whose ticket keeps its symbol and side.\<close>

definition good_position :: "(int \<Rightarrow> string \<times> string) \<Rightarrow> observed_position \<Rightarrow> bool" where
  "good_position ident p \<longleftrightarrow> on_grid p \<and> (op_symbol p, op_side p) = ident (op_ticket p)"

lemma stored_position_simps [simp]:
  "op_ticket (stored_position p) = op_ticket p" "op_symbol (stored_position p) = op_symbol p"
  "op_side (stored_position p) = op_side p"
  by (simp_all add: stored_position_def)

lemma stored_mirror: "on_grid p \<Longrightarrow> mirror (stored_position p) = mirror p"
  by (simp add: on_grid_def mirror_def stored_position_def volume_multiple level_value_level)

lemma stored_good: "good_position ident p \<Longrightarrow> good_position ident (stored_position p)"
  by (simp add: good_position_def on_grid_def stored_position_def volume_multiple level_value_level)

lemma position_of_stored: "position_of (map stored_position ps) t = map_option stored_position (position_of ps t)"
  unfolding position_of_def by (simp add: rev_map find_map_key)

lemma book_stored: "\<forall>p \<in> set ps. on_grid p \<Longrightarrow> book (map stored_position ps) = book ps"
  unfolding book_def position_of_stored
  by (auto simp: fun_eq_iff option.map_comp stored_mirror dest!: position_of_ticket
      split: option.split intro!: option.map_cong0)

lemma good_identity:
  "\<forall>p \<in> set prev. good_position ident p \<Longrightarrow> \<forall>p \<in> set new. good_position ident p \<Longrightarrow> same_identity prev new"
  by (simp add: same_identity_def list_all_iff good_position_def) (metis prod.inject)

text \<open>The event a stored row stands for.\<close>

definition spec_of :: "master_event \<Rightarrow> event_spec" where
  "spec_of e =
     \<lparr>ev_type = the (me_type e), ev_ticket = me_ticket e, ev_symbol = me_symbol e, ev_side = me_side e,
      ev_volume_before = me_volume_before e, ev_volume_after = me_volume_after e, ev_prev_sl = me_prev_sl e,
      ev_new_sl = me_new_sl e, ev_prev_tp = me_prev_tp e, ev_new_tp = me_new_tp e\<rparr>"

definition grid_event :: "event_spec \<Rightarrow> bool" where
  "grid_event e \<longleftrightarrow> multiple_of (1 / 100) (ev_volume_after e) \<and> multiple_of (1 / 10 ^ 8) (level_value (ev_new_sl e)) \<and>
                  multiple_of (1 / 10 ^ 8) (level_value (ev_new_tp e))"

lemma apply_stored_event: "grid_event e \<Longrightarrow> apply_event (spec_of (event_row i m n p now e)) = apply_event e"
proof -
  assume "grid_event e"
  then have "quantize 3 (ev_volume_after e) = ev_volume_after e"
    "level_value (num_to_decimal (ev_new_sl e)) = level_value (ev_new_sl e)"
    "level_value (num_to_decimal (ev_new_tp e)) = level_value (ev_new_tp e)"
    by (simp_all add: grid_event_def volume_multiple level_value_num)
  then have "apply_to (spec_of (event_row i m n p now e)) x = apply_to e x" for x
    by (simp add: apply_to_def spec_of_def event_row_def split: event_type.split)
  then show ?thesis by (simp add: apply_event_def fun_eq_iff spec_of_def event_row_def)
qed

lemma diff_ticket_grid:
  assumes "\<forall>p. after = Some p \<longrightarrow> on_grid p" "e \<in> set (diff_ticket before after)"
  shows "grid_event e"
  using assms
  by (cases before; cases after)
     (auto simp: diff_ticket_def grid_event_def on_grid_def volume_events_def level_events_def base_event_def Let_def
       level_value_def split: if_splits)

lemma diff_grid: "\<forall>p \<in> set new. on_grid p \<Longrightarrow> e \<in> set (diff_positions ts prev new) \<Longrightarrow> grid_event e"
  unfolding diff_positions_def by (auto dest: position_of_ticket intro: diff_ticket_grid [rotated])

section \<open>The ledger of a master\<close>

definition polls_of :: "copier_db \<Rightarrow> nat \<Rightarrow> poll list" where
  "polls_of k i = filter (\<lambda>p. po_master p = i) (kd_polls k)"

definition specs_of :: "copier_db \<Rightarrow> nat \<Rightarrow> event_spec list" where
  "specs_of k i = map spec_of (events_of k i)"

text \<open>Identifiers are handed out once, and snapshots belong to polls that exist.\<close>

definition observation_ids :: "copier_db \<Rightarrow> bool" where
  "observation_ids k \<longleftrightarrow>
     distinct (map ma_id (kd_masters k)) \<and> distinct (map po_id (kd_polls k)) \<and> (\<forall>p \<in> set (kd_polls k). po_id p < kd_next_poll k) \<and>
     (\<forall>s \<in> set (kd_snapshots k). sn_poll s < kd_next_poll k)"

definition baseline :: "copier_db \<Rightarrow> nat \<Rightarrow> nat option option" where
  "baseline k i = map_option ma_last_poll (master_by_id k i)"

definition ledger_ok :: "(int \<Rightarrow> string \<times> string) \<Rightarrow> nat \<Rightarrow> copier_db \<Rightarrow> bool" where
  "ledger_ok ident i k \<longleftrightarrow>
     baseline k i \<in> {None, Some (if polls_of k i = [] then None else Some (po_id (last (polls_of k i))))} \<and>
     (\<forall>p \<in> set (polls_of k i). \<forall>q \<in> set (positions_from_poll k (po_id p)). good_position ident q) \<and>
     map me_sequence (events_of k i) = [1..<Suc (length (events_of k i))] \<and>
     (polls_of k i = [] \<longrightarrow> events_of k i = []) \<and>
     (polls_of k i \<noteq> [] \<longrightarrow>
        replay (specs_of k i) (book (positions_from_poll k (po_id (hd (polls_of k i))))) =
        book (positions_from_poll k (po_id (last (polls_of k i)))))"

lemma update_master_frame [simp]:
  "kd_polls (update_master i f k) = kd_polls k" "kd_snapshots (update_master i f k) = kd_snapshots k"
  "kd_events (update_master i f k) = kd_events k" "kd_next_poll (update_master i f k) = kd_next_poll k"
  "kd_next_event (update_master i f k) = kd_next_event k" "kd_replications (update_master i f k) = kd_replications k"
  "kd_followers (update_master i f k) = kd_followers k"
  by (simp_all add: update_master_def)

lemma update_master_row:
  assumes "\<And>m. ma_id (f m) = ma_id m"
  shows "master_by_id (update_master i f k) j = map_option (\<lambda>m. if j = i then f m else m) (master_by_id k j)"
proof -
  have "find (\<lambda>m. ma_id m = j) (map (\<lambda>m. if ma_id m = i then f m else m) (kd_masters k)) =
      map_option (\<lambda>m. if ma_id m = i then f m else m) (find (\<lambda>m. ma_id m = j) (kd_masters k))"
    by (rule find_map_key) (simp add: assms)
  then show ?thesis
    by (cases "find (\<lambda>m. ma_id m = j) (kd_masters k)") (auto simp: master_by_id_def update_master_def dest!: find_SomeD)
qed

lemma update_master_ids: "(\<And>m. ma_id (f m) = ma_id m) \<Longrightarrow> map ma_id (kd_masters (update_master i f k)) = map ma_id (kd_masters k)"
  by (simp add: update_master_def)

text \<open>Changing leases touches none of this.\<close>

lemma lease_update_ok:
  assumes "\<And>m. ma_id (f m) = ma_id m \<and> ma_last_poll (f m) = ma_last_poll m"
  shows "observation_ids (update_master j f k) = observation_ids k" "ledger_ok ident i (update_master j f k) = ledger_ok ident i k"
proof -
  have "baseline (update_master j f k) i = baseline k i"
    using assms by (cases "master_by_id k i") (simp_all add: baseline_def update_master_row)
  then show "ledger_ok ident i (update_master j f k) = ledger_ok ident i k"
    by (simp add: ledger_ok_def polls_of_def events_of_def specs_of_def positions_from_poll_def)
  show "observation_ids (update_master j f k) = observation_ids k"
    using assms by (simp add: observation_ids_def update_master_ids)
qed

lemma lease_update_rows:
  assumes "\<And>m. ma_id (f m) = ma_id m \<and> ma_last_poll (f m) = ma_last_poll m"
  shows "polls_of (update_master j f k) i = polls_of k i" "baseline (update_master j f k) i = baseline k i"
proof -
  show "polls_of (update_master j f k) i = polls_of k i" by (simp add: polls_of_def)
  show "baseline (update_master j f k) i = baseline k i"
    using assms by (cases "master_by_id k i") (simp_all add: baseline_def update_master_row)
qed

lemma sequence_base: "map me_sequence es = [1..<Suc (length es)] \<Longrightarrow> foldl max 0 (map me_sequence es) = length es"
proof -
  have "foldl max 0 [1..<Suc n] = n" for n :: nat by (induction n) simp_all
  then show "map me_sequence es = [1..<Suc (length es)] \<Longrightarrow> foldl max 0 (map me_sequence es) = length es" by simp
qed

lemma event_rows_simps:
  "length (event_rows k m p now es) = length es" "map me_master (event_rows k m p now es) = replicate (length es) m"
  "map me_sequence (event_rows k m p now es) = [base_sequence k m + 1..<Suc (base_sequence k m + length es)]"
  "map spec_of (event_rows k m p now es) = map (\<lambda>e. spec_of (event_row 0 0 0 0 0 e)) es"
     by (simp add: event_rows_def)
        (rule nth_equalityI; auto simp: event_rows_def event_row_def spec_of_def simp del: upt_Suc)+

lemma replay_append: "replay (es @ es') b = replay es' (replay es b)"
  by (simp add: replay_def)

lemma replay_stored:
  "\<forall>e \<in> set es. grid_event e \<Longrightarrow> replay (map (\<lambda>e. spec_of (event_row i m n p now e)) es) b = replay es b"
  by (induction es arbitrary: b) (simp_all add: replay_def apply_stored_event)

lemma enumerates_all: "enumerates (all_tickets prev new) prev new"
  by (simp add: enumerates_def all_tickets_def)

lemma positions_stored:
  assumes "observation_ids k"
  shows "positions_from_poll (store_observation m r now k) (kd_next_poll k) = map stored_position (mr_positions r)"
    and "q < kd_next_poll k \<Longrightarrow> positions_from_poll (store_observation m r now k) q = positions_from_poll k q"
proof -
  have "filter (\<lambda>s. sn_poll s = kd_next_poll k) (kd_snapshots k) = []"
    using assms by (auto simp: observation_ids_def filter_empty_conv)
  then show "positions_from_poll (store_observation m r now k) (kd_next_poll k) = map stored_position (mr_positions r)"
    by (simp add: positions_from_poll_def store_observation_def Let_def comp_def)
  assume "q < kd_next_poll k"
  then show "positions_from_poll (store_observation m r now k) q = positions_from_poll k q"
    by (simp add: positions_from_poll_def store_observation_def Let_def comp_def filter_map)
qed

lemma store_ids: "observation_ids k \<Longrightarrow> observation_ids (store_observation m r now k)"
  by (auto simp: observation_ids_def store_observation_def Let_def update_master_def new_poll_def comp_def less_Suc_eq if_distrib [of ma_id]
      cong: if_cong)

lemma store_rows:
  assumes "master_by_id k j = Some m"
  shows "polls_of (store_observation m r now k) i = polls_of k i @ (if i = j then [new_poll k j r now] else [])"
    and "events_of (store_observation m r now k) i = events_of k i @
      (if i = j then event_rows k j (kd_next_poll k) now (observed_changes k m (mr_positions r)) else [])"
    and "baseline (store_observation m r now k) i = (if i = j then Some (Some (kd_next_poll k)) else baseline k i)"
proof -
  have j: "ma_id m = j" using assms by (auto simp: master_by_id_def dest: find_SomeD)
  show "polls_of (store_observation m r now k) i = polls_of k i @ (if i = j then [new_poll k j r now] else [])"
    by (simp add: polls_of_def store_observation_def Let_def j new_poll_def)
  have rows: "me_master e = j" if "e \<in> set (event_rows k j p now es)" for e p es
    using that by (auto simp: event_rows_def event_row_def)
  show "events_of (store_observation m r now k) i = events_of k i @
      (if i = j then event_rows k j (kd_next_poll k) now (observed_changes k m (mr_positions r)) else [])"
    using rows by (auto simp: events_of_def store_observation_def Let_def j filter_id_conv filter_empty_conv)
  show "baseline (store_observation m r now k) i = (if i = j then Some (Some (kd_next_poll k)) else baseline k i)"
    using assms
    by (auto simp: baseline_def store_observation_def Let_def j update_master_row option.map_comp comp_def)
       (auto simp: master_by_id_def)
qed

lemma store_ledger:
  assumes ids: "observation_ids k" and ok: "ledger_ok ident i k" and m: "master_by_id k j = Some m"
    and good: "i = j \<Longrightarrow> \<forall>p \<in> set (mr_positions r). good_position ident p"
  shows "ledger_ok ident i (store_observation m r now k)"
proof -
  let ?k = "store_observation m r now k" and ?new = "mr_positions r"
  note rows = store_rows [OF m, of r now] and pos = positions_stored [OF ids, where m = m and r = r and now = now]
  have old: "po_id p < kd_next_poll k" if "p \<in> set (polls_of k i)" for p
    using that ids by (simp add: polls_of_def observation_ids_def)
  have ends: "polls_of k i \<noteq> [] \<Longrightarrow> hd (polls_of k i) \<in> set (polls_of k i) \<and> last (polls_of k i) \<in> set (polls_of k i)" by simp
  show ?thesis
  proof (cases "i = j")
    case False
    then show ?thesis using ok old ends
      by (auto simp: ledger_ok_def rows pos specs_of_def)
  next
    case True
    define es where "es = observed_changes k m ?new"
    have ev: "events_of ?k i = events_of k i @ event_rows k i (kd_next_poll k) now es" using True by (simp add: rows es_def)
    have polls: "polls_of ?k i = polls_of k i @ [new_poll k i r now]" and nid: "po_id (new_poll k i r now) = kd_next_poll k"
      using True by (simp_all add: rows new_poll_def)
    have last: "ma_last_poll m = (if polls_of k i = [] then None else Some (po_id (last (polls_of k i))))"
      using ok m True by (auto simp: ledger_ok_def baseline_def)
    have seq: "map me_sequence (events_of k i) = [1..<Suc (length (events_of k i))]" using ok by (simp add: ledger_ok_def)
    have "map me_sequence (events_of ?k i) = [1..<Suc (length (events_of ?k i))]"
    proof -
      have "base_sequence k i = length (events_of k i)" unfolding base_sequence_def by (rule sequence_base [OF seq])
      then have "map me_sequence (events_of ?k i) =
          [1..<Suc (length (events_of k i))] @ [Suc (length (events_of k i))..<Suc (length (events_of k i) + length es)]"
        by (simp only: ev map_append seq event_rows_simps) simp
      also have "\<dots> = [1..<Suc (length (events_of k i) + length es)]"
        by (metis One_nat_def Suc_le_mono add_Suc le0 upt_add_eq_append)
      finally show ?thesis by (simp only: ev length_append event_rows_simps)
    qed
    moreover have gp: "\<forall>q \<in> set (positions_from_poll k (po_id p)). good_position ident q" if "p \<in> set (polls_of k i)" for p
      using ok that by (simp add: ledger_ok_def)
    then have "\<forall>p \<in> set (polls_of ?k i). \<forall>q \<in> set (positions_from_poll ?k (po_id p)). good_position ident q"
      using good [OF True] old by (auto simp: polls nid pos stored_good)
    moreover have "replay (specs_of ?k i) (book (positions_from_poll ?k (po_id (hd (polls_of ?k i))))) =
        book (positions_from_poll ?k (po_id (last (polls_of ?k i))))"
    proof -
      have bn: "book (map stored_position ?new) = book ?new" using good [OF True] by (simp add: book_stored good_position_def)
      show ?thesis
      proof (cases "polls_of k i = []")
        case True
        then have "es = []" "events_of k i = []" using last ok by (simp_all add: es_def observed_changes_def ledger_ok_def)
        then show ?thesis using True by (simp add: specs_of_def ev event_rows_def polls nid pos replay_def)
      next
        case False
        define prev where "prev = positions_from_poll k (po_id (last (polls_of k i)))"
        have gprev: "\<forall>q \<in> set prev. good_position ident q" using gp [of "last (polls_of k i)"] ends [OF False] unfolding prev_def by blast
        have es: "es = diff_positions (all_tickets prev ?new) prev ?new"
          using False last by (simp add: es_def observed_changes_def prev_def Let_def)
        have grid: "\<forall>e \<in> set es. grid_event e"
          using good [OF True] unfolding es good_position_def by (blast intro: diff_grid)
        have "replay es (book prev) = book ?new" unfolding es
          using gprev good [OF True] good_identity [OF gprev good [OF True]]
          by (intro replay_reconstructs enumerates_all) (auto simp: good_position_def)
        moreover have "replay (specs_of k i) (book (positions_from_poll k (po_id (hd (polls_of k i))))) = book prev"
          using ok False by (simp add: ledger_ok_def prev_def)
        ultimately show ?thesis using False ends [OF False] old
          by (simp add: specs_of_def ev replay_append event_rows_simps replay_stored [OF grid] polls nid pos bn)
      qed
    qed
    moreover have "baseline ?k i = Some (Some (kd_next_poll k))" using True by (simp add: rows(3))
    moreover have "polls_of ?k i \<noteq> []" "po_id (last (polls_of ?k i)) = kd_next_poll k" by (simp_all add: polls nid)
    ultimately show ?thesis unfolding ledger_ok_def by simp
  qed
qed

section \<open>Observations of many masters, interleaved\<close>

datatype observe_action =
    ClaimLease nat string int int
  | RecordRead nat read_result "string option" int
  | ReleaseLease nat string

fun observe_act :: "observe_action \<Rightarrow> copier_db \<Rightarrow> copier_db" where
  "observe_act (ClaimLease i token now lease) k = snd (claim_observation_lease i token now lease k)"
| "observe_act (RecordRead i r token now) k = snd (record_observation i r token now k)"
| "observe_act (ReleaseLease i token) k = release_observation_lease i token k"

definition observe_run :: "observe_action list \<Rightarrow> copier_db \<Rightarrow> copier_db" where
  "observe_run acts k = fold observe_act acts k"

text \<open>The reads of one master are on the grid, and its tickets keep symbol and side.\<close>

definition reads_good :: "(int \<Rightarrow> string \<times> string) \<Rightarrow> nat \<Rightarrow> observe_action \<Rightarrow> bool" where
  "reads_good ident i a \<longleftrightarrow>
     (case a of RecordRead j r _ _ \<Rightarrow> j = i \<longrightarrow> list_all (good_position ident) (mr_positions r) | _ \<Rightarrow> True)"

definition unobserved :: "copier_db \<Rightarrow> bool" where
  "unobserved k \<longleftrightarrow> distinct (map ma_id (kd_masters k)) \<and> list_all (\<lambda>m. ma_last_poll m = None) (kd_masters k) \<and>
     kd_polls k = [] \<and> kd_snapshots k = [] \<and> kd_events k = []"

lemma unobserved_ok: "unobserved k \<Longrightarrow> observation_ids k \<and> ledger_ok ident i k"
  by (auto simp: unobserved_def observation_ids_def ledger_ok_def baseline_def polls_of_def events_of_def
      master_by_id_def list_all_iff dest!: find_SomeD split: option.splits)
     (metis (mono_tags, lifting) find_SomeD option.exhaust option.map_disc_iff option.simps(9))

lemma claim_lease_ok:
  "observation_ids (snd (claim_observation_lease j token now lease k)) = observation_ids k"
  "ledger_ok ident i (snd (claim_observation_lease j token now lease k)) = ledger_ok ident i k"
  by (simp_all add: claim_observation_lease_def lease_update_ok split: option.split)

lemma release_lease_ok:
  "observation_ids (release_observation_lease j token k) = observation_ids k"
  "ledger_ok ident i (release_observation_lease j token k) = ledger_ok ident i k"
  by (simp_all add: release_observation_lease_def lease_update_ok)

lemma record_ok:
  assumes "observation_ids k" "ledger_ok ident i k" "j = i \<longrightarrow> list_all (good_position ident) (mr_positions r)"
  shows "observation_ids (snd (record_observation j r token now k)) \<and> ledger_ok ident i (snd (record_observation j r token now k))"
proof -
  have "ledger_ok ident i (store_observation m r now k)" if "master_by_id k j = Some m" for m
    using store_ledger [OF assms(1,2) that] assms(3) by (auto simp: list_all_iff)
  then show ?thesis using assms(1,2) store_ids by (auto simp: record_observation_def split: option.split)
qed

lemma observe_act_ok:
  "observation_ids k \<Longrightarrow> ledger_ok ident i k \<Longrightarrow> reads_good ident i a \<Longrightarrow>
     observation_ids (observe_act a k) \<and> ledger_ok ident i (observe_act a k)"
  by (cases a) (simp_all add: claim_lease_ok release_lease_ok record_ok reads_good_def)

interpretation ledger: guarded_runs observe_act "reads_good ident i" "\<lambda>k. observation_ids k \<and> ledger_ok ident i k"
  for ident i by unfold_locales (use observe_act_ok in blast)

lemma observe_run_ok:
  "observation_ids k \<Longrightarrow> ledger_ok ident i k \<Longrightarrow> list_all (reads_good ident i) acts \<Longrightarrow>
     observation_ids (observe_run acts k) \<and> ledger_ok ident i (observe_run acts k)"
  unfolding observe_run_def using ledger.run_inv by blast

text \<open>One single-flight pass is three such actions, or one, or two.\<close>

lemma observe_master_acts:
  "\<exists>acts. snd (observe_master fetch env token lease t1 t2 m k) = observe_run acts k \<and>
     (\<forall>a \<in> set acts. \<forall>j r tok now. a = RecordRead j r tok now \<longrightarrow> j = ma_id m \<and> tok = Some token \<and>
        (\<exists>x. fetch x = Inr r))"
proof -
  let ?c = "ClaimLease (ma_id m) token t1 lease" and ?u = "ReleaseLease (ma_id m) token"
  let ?k1 = "snd (claim_observation_lease (ma_id m) token t1 lease k)"
  show ?thesis
  proof (cases "fst (claim_observation_lease (ma_id m) token t1 lease k)")
    case False
    then show ?thesis by (intro exI [of _ "[]"]) (simp add: observe_master_def observe_run_def case_prod_beta Let_def)
  next
    case True
    show ?thesis
    proof (cases "\<exists>a r. account_by_id env (ma_account m) = Some a \<and> fetch a = Inr r \<and> mr_ok r")
      case False
      then have none: "\<not> mr_ok r" if "Option.bind (account_by_id env (ma_account m)) (\<lambda>a. case fetch a of Inl _ \<Rightarrow> None | Inr r \<Rightarrow> Some r) = Some r" for r
      proof -
        note found = that
        obtain a where a: "account_by_id env (ma_account m) = Some a" using found by (cases "account_by_id env (ma_account m)") simp_all
        then have "fetch a = Inr r" using found by (cases "fetch a") simp_all
        then show ?thesis using a False by blast
      qed
      have "snd (observe_master fetch env token lease t1 t2 m k) = release_observation_lease (ma_id m) token ?k1"
        using True none unfolding observe_master_def
        by (cases "Option.bind (account_by_id env (ma_account m)) (\<lambda>a. case fetch a of Inl _ \<Rightarrow> None | Inr r \<Rightarrow> Some r)")
           (simp_all add: case_prod_beta Let_def)
      then show ?thesis by (intro exI [of _ "[?c, ?u]"]) (simp add: observe_run_def)
    next
      case True': True
      then obtain a r where r: "account_by_id env (ma_account m) = Some a" "fetch a = Inr r" "mr_ok r" by blast
      then have "snd (observe_master fetch env token lease t1 t2 m k) =
          release_observation_lease (ma_id m) token (snd (record_observation (ma_id m) r (Some token) t2 ?k1))"
        using True by (simp add: observe_master_def case_prod_beta Let_def)
      then show ?thesis using r
        by (intro exI [of _ "[?c, RecordRead (ma_id m) r (Some token) t2, ?u]"]) (auto simp: observe_run_def)
    qed
  qed
qed

section \<open>Who commits\<close>

definition lease_token :: "copier_db \<Rightarrow> nat \<Rightarrow> string option" where
  "lease_token k i = map_option ma_lease_token (master_by_id k i)"

lemma update_master_token:
  assumes "\<And>m. ma_id (f m) = ma_id m"
  shows "lease_token (update_master j f k) i =
    (if i = j then map_option (\<lambda>m. ma_lease_token (f m)) (master_by_id k i) else lease_token k i)"
  using assms by (cases "master_by_id k i") (auto simp: lease_token_def update_master_row)

lemma store_token: "lease_token (store_observation m r now k) i = lease_token k i"
proof -
  have same: "master_by_id (k\<lparr>kd_polls := p, kd_snapshots := s, kd_events := e, kd_next_poll := a, kd_next_event := b\<rparr>) =
      master_by_id k" for p s e a b by (simp add: fun_eq_iff master_by_id_def)
  show ?thesis
    by (simp add: store_observation_def Let_def update_master_token) (simp add: lease_token_def same)
qed

text \<open>A token can only come from its own claim: read backwards, it was there before.\<close>

lemma token_before:
  assumes "lease_token (observe_act a k) i = Some t" "t \<noteq> ''''" "\<forall>now lease. a \<noteq> ClaimLease i t now lease"
  shows "lease_token k i = Some t"
proof (cases a)
  case (ClaimLease j s now lease)
  with assms show ?thesis
    by (auto simp: claim_observation_lease_def update_master_token split: option.splits if_splits)
next
  case (RecordRead j r tok now)
  with assms show ?thesis by (auto simp: record_observation_def store_token split: option.splits if_splits)
next
  case (ReleaseLease j s)
  let ?f = "\<lambda>m. if ma_lease_token m = s then m\<lparr>ma_lease_token := [], ma_lease_until := None\<rparr> else m"
  have "lease_token (update_master j ?f k) i =
      (if i = j then map_option (\<lambda>m. ma_lease_token (?f m)) (master_by_id k i) else lease_token k i)"
    by (rule update_master_token) simp
  with assms ReleaseLease show ?thesis
    by (cases "master_by_id k i") (auto simp: release_observation_lease_def lease_token_def split: if_splits)
qed

definition claims :: "nat \<Rightarrow> string \<Rightarrow> observe_action \<Rightarrow> bool" where
  "claims i t a \<longleftrightarrow> (case a of ClaimLease j s _ _ \<Rightarrow> j = i \<and> s = t | _ \<Rightarrow> False)"

lemma token_throughout:
  "lease_token (observe_run acts k) i = Some t \<Longrightarrow> t \<noteq> '''' \<Longrightarrow> \<not> list_ex (claims i t) acts \<Longrightarrow> lease_token k i = Some t"
proof (induction acts arbitrary: k)
  case (Cons a acts)
  have "lease_token (observe_run acts (observe_act a k)) i = Some t" using Cons.prems(1) by (simp only: observe_run_def fold_simps)
  moreover have "\<not> list_ex (claims i t) acts" "\<not> claims i t a" using Cons.prems(3) by simp_all
  ultimately have "lease_token (observe_act a k) i = Some t" using Cons.IH Cons.prems(2) by blast
  moreover have "\<forall>now lease. a \<noteq> ClaimLease i t now lease" using \<open>\<not> claims i t a\<close> by (auto simp: claims_def)
  ultimately show ?case by (rule token_before [OF _ Cons.prems(2)])
qed (simp add: observe_run_def)

definition commits :: "observe_action \<Rightarrow> copier_db \<Rightarrow> bool" where
  "commits a k \<longleftrightarrow>
     (case a of RecordRead i r tok now \<Rightarrow> (case fst (record_observation i r tok now k) of Recorded _ \<Rightarrow> True | _ \<Rightarrow> False) | _ \<Rightarrow> False)"

lemma commits_token: "commits (RecordRead i r (Some t) now) k \<Longrightarrow> lease_token k i = Some t"
  by (cases "master_by_id k i"; cases "lease_lost (the (master_by_id k i)) (Some t) now")
     (simp_all add: commits_def record_observation_def lease_lost_def lease_token_def)

text \<open>The read times of the polls.\<close>

definition read_times :: "copier_db \<Rightarrow> nat \<Rightarrow> int option list" where
  "read_times k i = map po_read_at (polls_of k i)"

definition times_ok :: "nat \<Rightarrow> copier_db \<Rightarrow> bool" where
  "times_ok i k \<longleftrightarrow> None \<notin> set (read_times k i) \<and> sorted_wrt (<) (map the (read_times k i)) \<and>
     baseline k i \<in> {None, Some (if polls_of k i = [] then None else Some (po_id (last (polls_of k i))))}"

lemma times_before:
  assumes ids: "observation_ids k" and ok: "times_ok i k" and m: "master_by_id k i = Some m"
    and fresh: "\<not> read_is_stale k m r" and u: "mr_read_at r = Some u" and p: "p \<in> set (polls_of k i)"
  shows "the (po_read_at p) < u"
proof -
  define l where "l = last (polls_of k i)"
  have ne: "polls_of k i \<noteq> []" using p by auto
  then have l: "l \<in> set (polls_of k i)" by (simp add: l_def)
  then have "l \<in> set (kd_polls k)" by (simp add: polls_of_def)
  then have "poll_by_id k (po_id l) = Some l"
    using ids unfolding poll_by_id_def observation_ids_def by (intro find_key_unique) simp_all
  moreover have "ma_last_poll m = Some (po_id l)" using ok ne m by (simp add: times_ok_def baseline_def l_def)
  moreover obtain v where v: "po_read_at l = Some v" using ok l by (force simp: times_ok_def read_times_def)
  ultimately have lu: "v < u" using fresh u by (simp add: read_is_stale_def)
  obtain n where n: "n < length (polls_of k i)" "p = polls_of k i ! n" using p by (metis in_set_conv_nth)
  have "sorted (map the (read_times k i))" using ok by (simp add: times_ok_def strict_sorted_imp_sorted)
  then have "map the (read_times k i) ! n \<le> map the (read_times k i) ! (length (polls_of k i) - 1)"
    using n by (intro sorted_nth_mono) (simp_all add: read_times_def)
  then have "the (po_read_at p) \<le> the (po_read_at l)"
    using n ne by (simp add: read_times_def l_def last_conv_nth)
  with lu v show ?thesis by simp
qed

lemma record_same_or_stored:
  assumes "master_by_id k j = Some m"
  shows "snd (record_observation j r token now k) = k \<or>
    snd (record_observation j r token now k) = store_observation m r now k \<and> \<not> read_is_stale k m r"
  using assms by (simp add: record_observation_def)

lemma record_times:
  assumes ids: "observation_ids k" and ok: "times_ok i k" and t: "mr_read_at r \<noteq> None"
  shows "times_ok i (snd (record_observation j r token now k))"
proof (cases "master_by_id k j")
  case (Some m)
  from record_same_or_stored [OF Some, of r token now] show ?thesis
  proof
    assume db: "snd (record_observation j r token now k) = store_observation m r now k \<and> \<not> read_is_stale k m r"
    show ?thesis
    proof (cases "i = j")
      case False
      then show ?thesis using ok by (simp add: conjunct1 [OF db] times_ok_def read_times_def store_rows [OF Some] split: if_splits)
    next
      case True
      obtain u where u: "mr_read_at r = Some u" using t by blast
      have less: "\<forall>p \<in> set (polls_of k i). the (po_read_at p) < u"
        using times_before [OF ids ok _ conjunct2 [OF db] u] Some True by blast
      have "read_times (store_observation m r now k) i = read_times k i @ [Some u]"
        by (simp add: read_times_def store_rows [OF Some] True new_poll_def u)
      moreover have "sorted_wrt (<) (map the (read_times k i @ [Some u]))"
        using ok less by (simp add: times_ok_def sorted_wrt_append read_times_def)
      ultimately show ?thesis using ok
        by (simp add: conjunct1 [OF db] times_ok_def store_rows [OF Some] True new_poll_def)
    qed
  qed (simp add: ok)
qed (use ok in \<open>simp add: record_observation_def\<close>)

lemma lease_times:
  "times_ok i (snd (claim_observation_lease j token now lease k)) = times_ok i k"
  "times_ok i (release_observation_lease j token k) = times_ok i k"
  by (simp_all add: claim_observation_lease_def release_observation_lease_def times_ok_def read_times_def lease_update_rows split: option.split)

definition read_stamped :: "observe_action \<Rightarrow> bool" where
  "read_stamped a \<longleftrightarrow> (case a of RecordRead _ r _ _ \<Rightarrow> mr_read_at r \<noteq> None | _ \<Rightarrow> True)"

lemma observe_act_times:
  assumes "observation_ids k" "times_ok i k" "read_stamped a"
  shows "observation_ids (observe_act a k) \<and> times_ok i (observe_act a k)"
proof (cases a)
  case (RecordRead j r token now)
  have "observation_ids (snd (record_observation j r token now k))"
    using assms(1) store_ids record_same_or_stored [of k j _ r token now]
    by (cases "master_by_id k j") (auto simp: record_observation_def)
  then show ?thesis using assms RecordRead record_times [of k i r j token now] by (simp add: read_stamped_def)
qed (use assms in \<open>simp_all add: lease_times claim_lease_ok release_lease_ok\<close>)

interpretation poll_times: guarded_runs observe_act read_stamped "\<lambda>k. observation_ids k \<and> times_ok i k"
  for i by unfold_locales (use observe_act_times in blast)

lemma observe_run_times:
  "observation_ids k \<Longrightarrow> times_ok i k \<Longrightarrow> list_all read_stamped acts \<Longrightarrow> times_ok i (observe_run acts k)"
  unfolding observe_run_def using poll_times.run_inv by blast

lemma unobserved_times: "unobserved k \<Longrightarrow> times_ok i k"
  using unobserved_ok [of k undefined i]
  by (cases "baseline k i") (auto simp: ledger_ok_def times_ok_def read_times_def unobserved_def polls_of_def)
section \<open>Properties of the observer\<close>

text \<open>
  Whatever claims, reads and releases of whichever masters are interleaved from an
  empty store, the events of a master are numbered 1, 2, 3 without a gap, and playing them over the positions of
  its first poll gives the positions of its last one: no change of the master is lost or told twice.
\<close>

theorem ledger_replays:
  assumes "unobserved k" "list_all (reads_good ident i) acts"
  shows "map me_sequence (events_of (observe_run acts k) i) = [1..<Suc (length (events_of (observe_run acts k) i))] \<and>
    (polls_of (observe_run acts k) i = [] \<or>
     replay (specs_of (observe_run acts k) i)
         (book (positions_from_poll (observe_run acts k) (po_id (hd (polls_of (observe_run acts k) i))))) =
       book (positions_from_poll (observe_run acts k) (po_id (last (polls_of (observe_run acts k) i)))))"
proof -
  have "ledger_ok ident i (observe_run acts k)"
    using observe_run_ok [of k ident i acts] unobserved_ok [OF assms(1), of ident i] assms(2) by blast
  then show ?thesis by (simp only: ledger_ok_def) blast
qed

text \<open>
  The lease makes the observation of a master single-flight: when a pass commits a
  read under its token, no read of that master was committed under another token since that token was last claimed.
\<close>

theorem observer_single_flight:
  assumes "t \<noteq> ''''" "\<not> list_ex (claims i t) (us @ RecordRead i r' (Some t') now' # vs)"
    and "commits (RecordRead i r' (Some t') now') (observe_run us k)"
    and "commits (RecordRead i r (Some t) now) (observe_run (us @ RecordRead i r' (Some t') now' # vs) k)"
  shows "t' = t"
proof -
  have "lease_token (observe_run (RecordRead i r' (Some t') now' # vs) (observe_run us k)) i = Some t"
    using commits_token [OF assms(4)] by (simp add: observe_run_def)
  then have "lease_token (observe_run us k) i = Some t"
    by (rule token_throughout) (use assms(1,2) in simp_all)
  then show ?thesis using commits_token [OF assms(3)] by simp
qed

text \<open>
  A stale read never becomes the baseline: over any interleaving, the
  bridge read times of a master's polls strictly increase in the order in which the polls are stored.
\<close>

theorem poll_times_increase:
  assumes "unobserved k" "list_all read_stamped acts"
  shows "sorted_wrt (<) (map the (read_times (observe_run acts k) i))"
  using observe_run_times [of k i acts] unobserved_ok [OF assms(1)] unobserved_times [OF assms(1)] assms(2)
  by (simp add: times_ok_def)
definition fresh_copier_db :: copier_db where
  "fresh_copier_db = demo_copier_db\<lparr>kd_snapshots := [], kd_events := []\<rparr>"

definition demo_read :: "int \<Rightarrow> observed_position list \<Rightarrow> read_result" where
  "demo_read t ps = \<lparr>mr_ok = True, mr_reason = ''ok'', mr_login = ''77'', mr_server = ''Demo'', mr_trade_mode = Some 0,
                     mr_positions = ps, mr_read_at = Some t\<rparr>"

definition demo_observations :: "observe_action list" where
  "demo_observations = [ClaimLease 1 ''a'' 100 60, RecordRead 1 (demo_read 105 earlier_poll) (Some ''a'') 106, ReleaseLease 1 ''a'',
     ClaimLease 1 ''b'' 200 60, RecordRead 1 (demo_read 101 []) (Some ''b'') 201,
     RecordRead 1 (demo_read 205 later_poll) (Some ''b'') 206]"

lemma ledger_replays_witness:
  "map (\<lambda>e. (me_sequence e, me_type e)) (events_of (observe_run demo_observations fresh_copier_db) 1) =
     [(1, Some EvPartialClose), (2, Some EvSlChange), (3, Some EvTpSet), (4, Some EvFullClose), (5, Some EvOpen)] \<and>
   replay (specs_of (observe_run demo_observations fresh_copier_db) 1)
      (book (positions_from_poll (observe_run demo_observations fresh_copier_db)
         (po_id (hd (polls_of (observe_run demo_observations fresh_copier_db) 1))))) =
    book (positions_from_poll (observe_run demo_observations fresh_copier_db)
         (po_id (last (polls_of (observe_run demo_observations fresh_copier_db) 1))))"
proof -
  have "unobserved fresh_copier_db" by code_simp
  moreover have "list_all (reads_good (\<lambda>_. (''XAUUSD'', ''BUY'')) 1) demo_observations"
    by (simp add: demo_observations_def reads_good_def demo_read_def earlier_poll_def later_poll_def demo_position_def
        good_position_def on_grid_def multiple_of_def level_value_def)
  moreover have "polls_of (observe_run demo_observations fresh_copier_db) 1 \<noteq> []" by code_simp
  ultimately have "replay (specs_of (observe_run demo_observations fresh_copier_db) 1)
      (book (positions_from_poll (observe_run demo_observations fresh_copier_db)
         (po_id (hd (polls_of (observe_run demo_observations fresh_copier_db) 1))))) =
    book (positions_from_poll (observe_run demo_observations fresh_copier_db)
         (po_id (last (polls_of (observe_run demo_observations fresh_copier_db) 1))))"
    using ledger_replays by blast
  moreover have "map (\<lambda>e. (me_sequence e, me_type e)) (events_of (observe_run demo_observations fresh_copier_db) 1) =
     [(1, Some EvPartialClose), (2, Some EvSlChange), (3, Some EvTpSet), (4, Some EvFullClose), (5, Some EvOpen)]"
    by code_simp
  ultimately show ?thesis by blast
qed

text \<open>After a release the lease is free, so a read can only commit under the token of the newer claim.\<close>

lemma observer_single_flight_witness:
  "commits (RecordRead 1 (demo_read 205 later_poll) (Some ''b'') 206)
      (observe_run [ClaimLease 1 ''b'' 200 60, RecordRead 1 (demo_read 201 earlier_poll) (Some ''b'') 202] fresh_copier_db) \<and>
   \<not> commits (RecordRead 1 (demo_read 205 later_poll) (Some ''a'') 206) (observe_run [ClaimLease 1 ''b'' 200 60] fresh_copier_db)"
proof -
  let ?r = "demo_read 205 later_poll" and ?k = "observe_run [ClaimLease 1 ''b'' 200 60] fresh_copier_db"
  have late: "commits (RecordRead 1 ?r (Some ''b'') 206) (observe_run [RecordRead 1 ?r (Some ''a'') 206] ?k)" by code_simp
  moreover have "\<not> list_ex (claims 1 ''b'') [RecordRead 1 ?r (Some ''a'') 206]" by (simp add: claims_def)
  ultimately have "\<not> commits (RecordRead 1 ?r (Some ''a'') 206) ?k"
    using observer_single_flight [of "''b''" 1 "[]" ?r "''a''" 206 "[]" ?k ?r 206] by (auto simp: observe_run_def)
  moreover have "commits (RecordRead 1 ?r (Some ''b'') 206)
      (observe_run [ClaimLease 1 ''b'' 200 60, RecordRead 1 (demo_read 201 earlier_poll) (Some ''b'') 202] fresh_copier_db)"
    by code_simp
  ultimately show ?thesis by blast
qed

lemma poll_times_increase_witness:
  "read_times (observe_run demo_observations fresh_copier_db) 1 = [Some 105, Some 205] \<and>
   sorted_wrt (<) (map the (read_times (observe_run demo_observations fresh_copier_db) 1))"
proof -
  have "unobserved fresh_copier_db" "list_all read_stamped demo_observations" by code_simp+
  then have "sorted_wrt (<) (map the (read_times (observe_run demo_observations fresh_copier_db) 1))"
    by (rule poll_times_increase)
  moreover have "read_times (observe_run demo_observations fresh_copier_db) 1 = [Some 105, Some 205]" by code_simp
  ultimately show ?thesis by blast
qed


end
