(* ===== verification/CopierExecution.thy ===== *)
theory CopierExecution
  imports CopierObserver
begin

text \<open>
  From recorded intents to jobs: the admission and the production of copied orders
  (\<^verbatim>\<open>trade_copier/execution_producer.py\<close>), the authorization of one live pair
  (\<^verbatim>\<open>trade_copier/live_execution.py\<close>) and the proof of the follower's tickets
  (\<^verbatim>\<open>trade_copier/reconcile.py\<close>). Each producer decides twice, before and under the row lock: the
  earlier environment and state are arguments of their own, so whatever is committed in between is covered.
\<close>

section \<open>Flags, authorizations and state\<close>

record copier_flags =
  kf_copier :: bool
  kf_execute :: bool
  kf_demo_armed :: bool
  kf_live :: bool
  kf_reconcile :: bool

definition copier_execute_enabled :: "copier_flags \<Rightarrow> bool" where
  "copier_execute_enabled f \<longleftrightarrow> kf_copier f \<and> kf_execute f"

definition copier_execute_demo_armed :: "copier_flags \<Rightarrow> bool" where
  "copier_execute_demo_armed f \<longleftrightarrow> copier_execute_enabled f \<and> kf_demo_armed f"

definition copier_live_execute_enabled :: "copier_flags \<Rightarrow> bool" where
  "copier_live_execute_enabled f \<longleftrightarrow> copier_execute_enabled f \<and> kf_live f"

definition copier_reconcile_enabled :: "copier_flags \<Rightarrow> bool" where
  "copier_reconcile_enabled f \<longleftrightarrow> kf_copier f \<and> kf_reconcile f"

datatype pair_status = PairActive | PairConsumed | PairRevoked

text \<open>An identity is login, server and environment.\<close>

record pair_authorization =
  px_id :: nat
  px_user :: int
  px_master :: int
  px_follower :: int
  px_master_identity :: "string \<times> string \<times> string"
  px_follower_identity :: "string \<times> string \<times> string"
  px_source_symbol :: string
  px_follower_symbol :: string
  px_max_volume :: rat
  px_max_concurrent :: nat
  px_max_orders :: nat
  px_consumed :: nat
  px_valid_from :: int
  px_expires :: int
  px_watermark_at :: int
  px_watermark_sequence :: int
  px_status :: pair_status
  px_revoked_at :: "int option"
  px_created_at :: int

text \<open>\<open>xs_kills\<close>: the \<open>engaged\<close> column of the kill switch rows.\<close>

record exec_state =
  xs_copier :: copier_db
  xs_pipe :: pipe_db
  xs_pairs :: "pair_authorization list"
  xs_kills :: "bool list"

text \<open>\<open>xe_read\<close> is the identity-checked read of an account's positions, which may raise.\<close>

record exec_env =
  xe_copier :: copier_env
  xe_pipe :: pipe_env
  xe_flags :: copier_flags
  xe_paused :: "int \<Rightarrow> bool"
  xe_read :: "trading_account \<Rightarrow> fetch_error + read_result"

abbreviation xe_now :: "exec_env \<Rightarrow> int" where
  "xe_now xe \<equiv> pe_now (xe_pipe xe)"

datatype 'a verdict = Admitted 'a | NotAdmitted string | AdmissionRaised

definition replication_by_id :: "copier_db \<Rightarrow> nat \<Rightarrow> replication option" where
  "replication_by_id k i = find (\<lambda>r. rp_id r = i) (kd_replications k)"

definition update_replication :: "nat \<Rightarrow> (replication \<Rightarrow> replication) \<Rightarrow> copier_db \<Rightarrow> copier_db" where
  "update_replication i g k = k\<lparr>kd_replications := map (\<lambda>r. if rp_id r = i then g r else r) (kd_replications k)\<rparr>"

text \<open>The event, the follower, the master's account and the follower's account an intent refers to.\<close>

type_synonym intent_rows = "master_event \<times> follower \<times> trading_account \<times> trading_account"

definition intent_rows :: "exec_env \<Rightarrow> copier_db \<Rightarrow> replication \<Rightarrow> intent_rows option" where
  "intent_rows xe k r =
     (case (event_by_id k (rp_event r), follower_by_id k (rp_follower r)) of
        (Some e, Some f) \<Rightarrow>
          (case (Option.bind (master_by_id k (fo_master f)) (\<lambda>m. account_by_id (xe_pipe xe) (ma_account m)),
                 account_by_id (xe_pipe xe) (fo_account f)) of
             (Some ma, Some fa) \<Rightarrow> Some (e, f, ma, fa)
           | _ \<Rightarrow> None)
      | _ \<Rightarrow> None)"

section \<open>Admission of an open\<close>

definition freshness_us :: int where
  "freshness_us = 3600 * 1000000"

definition superseded_by_close :: "copier_db \<Rightarrow> master_event \<Rightarrow> bool" where
  "superseded_by_close k e \<longleftrightarrow>
     list_ex (\<lambda>x. me_master x = me_master e \<and> me_ticket x = me_ticket e \<and> me_type x = Some EvFullClose \<and>
                  me_sequence e < me_sequence x) (kd_events k)"

text \<open>The refusals are optional reasons: \<open>None\<close> is the source's \<open>(True, "ok")\<close>.\<close>

definition protection_refusal :: "observed_position option \<Rightarrow> string option" where
  "protection_refusal snap =
     (case snap of
        None \<Rightarrow> Some ''master_entry_unavailable''
      | Some p \<Rightarrow>
          if \<not> has_level (op_price_open p) then Some ''master_entry_unavailable''
          else if \<not> (has_level (op_sl p) \<and> has_level (op_tp p)) then Some ''incomplete_protection''
          else (let entry = the (op_price_open p); sl = the (op_sl p); tp = the (op_tp p) in
                if op_side p = ''BUY'' \<and> \<not> (sl < entry \<and> entry < tp) then Some ''protection_not_directional''
                else if op_side p = ''SELL'' \<and> \<not> (tp < entry \<and> entry < sl) then Some ''protection_not_directional''
                else None))"

definition intent_refusal :: "string \<Rightarrow> string \<Rightarrow> replication \<Rightarrow> string option" where
  "intent_refusal op why r =
     (if rp_job r \<noteq> None then Some ''already_produced''
      else if rp_status r \<noteq> ShadowRecorded then Some ''not_shadow_intent''
      else if rp_op r \<noteq> op then Some why
      else None)"

definition instrument_ready :: "pipe_db \<Rightarrow> int \<Rightarrow> string \<Rightarrow> bool" where
  "instrument_ready db account s \<longleftrightarrow>
     list_ex (\<lambda>i. bi_account i = account \<and> bi_broker_symbol i = s \<and> bi_enabled i) (db_instruments db)"

definition fresh_open_size :: "master_event \<Rightarrow> follower \<Rightarrow> broker_constraints \<Rightarrow> string + (rat \<times> string)" where
  "fresh_open_size e f c = compute_follower_volume (Some (open_volume e)) (sizing_of f) c no_facts"

definition admit_open_demo :: "exec_env \<Rightarrow> exec_state \<Rightarrow> replication \<Rightarrow> intent_rows \<Rightarrow> intent_rows verdict" where
  "admit_open_demo xe s r rows =
     (let (e, f, ma, fa) = rows; k = xs_copier s; db = xs_pipe s;
          (bound, why) = validate_follower_binding (xe_copier xe) ma fa in
      if \<not> ac_is_active fa then NotAdmitted ''account_inactive''
      else if \<not> bound then NotAdmitted why
      else if \<not> rp_sltp_ok r then NotAdmitted ''sltp_incomplete''
      else if rp_volume r = None then NotAdmitted ''no_target_volume''
      else if superseded_by_close k e then NotAdmitted ''open_superseded_by_close''
      else if me_observed_at e < xe_now xe - freshness_us then NotAdmitted ''stale_open_outside_window''
      else case protection_refusal (snapshot_position k e) of
        Some why' \<Rightarrow> NotAdmitted why'
      | None \<Rightarrow>
          if \<not> bc_authoritative (broker_constraints_for db (ac_id fa) (rp_symbol r))
          then NotAdmitted ''constraints_not_authoritative''
          else if \<not> instrument_ready db (ac_id fa) (rp_symbol r) then NotAdmitted ''instrument_not_ready''
          else case resolve_follower_symbol (xe_copier xe) k ma (me_symbol e) fa of
            None \<Rightarrow> AdmissionRaised
          | Some (Inl _) \<Rightarrow> NotAdmitted ''symbol_map_changed''
          | Some (Inr target) \<Rightarrow> if target \<noteq> rp_symbol r then NotAdmitted ''symbol_map_changed'' else Admitted rows)"

section \<open>Admission of a live open\<close>

definition kill_switch_engaged :: "exec_state \<Rightarrow> bool" where
  "kill_switch_engaged s \<longleftrightarrow> list_ex (\<lambda>b. b) (xs_kills s)"

fun newest_pair :: "pair_authorization list \<Rightarrow> pair_authorization option" where
  "newest_pair [] = None"
| "newest_pair (x # xs) =
     (case newest_pair xs of None \<Rightarrow> Some x | Some y \<Rightarrow> Some (if px_created_at y > px_created_at x then y else x))"

definition active_authorization_for :: "exec_state \<Rightarrow> int \<Rightarrow> int \<Rightarrow> pair_authorization option" where
  "active_authorization_for s master follower =
     newest_pair (filter (\<lambda>p. px_master p = master \<and> px_follower p = follower \<and> px_status p = PairActive) (xs_pairs s))"

definition environment_name :: "trading_account \<Rightarrow> string" where
  "environment_name a = (case account_environment a of Some Demo \<Rightarrow> ''DEMO'' | Some Live \<Rightarrow> ''LIVE'' | None \<Rightarrow> '''')"

definition pinned_identity :: "trading_account \<Rightarrow> string \<times> string \<times> string" where
  "pinned_identity a = (fst (current_identity a), snd (current_identity a), environment_name a)"

definition identity_refusal :: "pair_authorization \<Rightarrow> trading_account \<Rightarrow> trading_account \<Rightarrow> string option" where
  "identity_refusal p ma fa =
     (if \<not> (fst (pinned_identity ma) \<noteq> '''' \<and> fst (pinned_identity fa) \<noteq> '''') then Some ''identity_unpinned''
      else if px_master_identity p \<noteq> pinned_identity ma then Some ''master_identity_drift''
      else if px_follower_identity p \<noteq> pinned_identity fa then Some ''follower_identity_drift''
      else None)"

definition window_refusal :: "pair_authorization \<Rightarrow> int \<Rightarrow> string option" where
  "window_refusal p now =
     (if px_status p \<noteq> PairActive \<or> px_revoked_at p \<noteq> None then Some ''authorization_not_active''
      else if now < px_valid_from p then Some ''authorization_not_yet_valid''
      else if now \<ge> px_expires p then Some ''authorization_expired''
      else if px_consumed p \<ge> px_max_orders p then Some ''order_allowance_exhausted''
      else None)"

definition open_live_count :: "copier_db \<Rightarrow> pipe_db \<Rightarrow> follower \<Rightarrow> nat" where
  "open_live_count k db f =
     length (filter (\<lambda>r. rp_follower r = fo_id f \<and> rp_op r = ''OPEN'' \<and>
                         rp_status r \<in> {ExecutionRequested, ExecutionVerified} \<and>
                         (case Option.bind (rp_job r) (find_job db) of
                            None \<Rightarrow> False
                          | Some j \<Rightarrow> map_of (jb_payload j) ''execution_mode'' = Some (JStr ''LIVE''))) (kd_replications k))"

definition copier_live_execution_authorized :: "exec_env \<Rightarrow> exec_state \<Rightarrow> trading_account \<Rightarrow> bool" where
  "copier_live_execution_authorized xe s a \<longleftrightarrow>
     copier_live_execute_enabled (xe_flags xe) \<and> st_live_execution (pe_settings (xe_pipe xe)) \<and>
     \<not> kill_switch_engaged s \<and>
     (case newest_pair (filter (\<lambda>p. px_follower p = ac_id a \<and> px_status p = PairActive \<and> px_revoked_at p = None \<and>
                                    px_valid_from p \<le> xe_now xe \<and> xe_now xe < px_expires p) (xs_pairs s)) of
        None \<Rightarrow> False
      | Some p \<Rightarrow>
          px_consumed p < px_max_orders p \<and> fst (current_identity a) \<noteq> '''' \<and>
          strip (fst (px_follower_identity p)) = fst (current_identity a) \<and>
          strip (fst (snd (px_follower_identity p))) = snd (current_identity a))"

definition allow_live_for_account :: "exec_env \<Rightarrow> exec_state \<Rightarrow> trading_account \<Rightarrow> bool" where
  "allow_live_for_account xe s a \<longleftrightarrow>
     is_live_environment a \<and>
     (live_execution_permitted (pe_settings (xe_pipe xe)) (pe_fleet (xe_pipe xe)) a \<or> copier_live_execution_authorized xe s a)"

text \<open>The size of a live order: whole, unclamped and within the authorized volume.\<close>

definition live_size :: "pair_authorization \<Rightarrow> master_event \<Rightarrow> follower \<Rightarrow> broker_constraints \<Rightarrow> string + rat" where
  "live_size p e f c =
     (case fresh_open_size e f c of
        Inl why \<Rightarrow> Inl (''fresh_size:'' @ why)
      | Inr (vol, note) \<Rightarrow>
          if note = ''clamped_to_max'' then Inl ''volume_would_be_clamped''
          else if \<not> 0 < vol then Inl ''non_positive_volume''
          else if vol > px_max_volume p + 1 / 10 ^ 9 then Inl ''volume_exceeds_authorization''
          else Inr vol)"

text \<open>What the admission asks of the pair, in two halves.\<close>

definition pair_refusal ::
  "exec_env \<Rightarrow> exec_state \<Rightarrow> replication \<Rightarrow> intent_rows \<Rightarrow> pair_authorization \<Rightarrow> string option" where
  "pair_refusal xe s r rows p =
     (let (e, f, ma, fa) = rows in
      if \<not> (px_user p = ac_user fa \<and> ac_user fa = ac_user ma) then Some ''user_mismatch''
      else case window_refusal p (xe_now xe) of
        Some why \<Rightarrow> Some why
      | None \<Rightarrow>
          (case identity_refusal p ma fa of
             Some why \<Rightarrow> Some why
           | None \<Rightarrow>
               (let (bound, why) = validate_follower_binding (xe_copier xe) ma fa in
                if \<not> bound then Some why
                else if me_master e \<noteq> fo_master f then Some ''event_master_mismatch''
                else if me_symbol e \<noteq> px_source_symbol p then Some ''source_symbol_mismatch''
                else None)))"

definition live_order_refusal ::
  "exec_env \<Rightarrow> exec_state \<Rightarrow> replication \<Rightarrow> intent_rows \<Rightarrow> pair_authorization \<Rightarrow> string option" where
  "live_order_refusal xe s r rows p =
     (let (e, f, ma, fa) = rows; k = xs_copier s; db = xs_pipe s;
          c = broker_constraints_for db (ac_id fa) (px_follower_symbol p) in
      if rp_symbol r \<noteq> px_follower_symbol p then Some ''intent_follower_symbol_mismatch''
      else if \<not> ac_is_active fa then Some ''account_inactive''
      else if \<not> instrument_ready db (ac_id fa) (px_follower_symbol p) then Some ''instrument_not_ready''
      else if \<not> bc_authoritative c then Some ''constraints_not_authoritative''
      else if int (me_sequence e) \<le> px_watermark_sequence p then Some ''event_before_watermark_sequence''
      else if \<not> px_watermark_at p < me_observed_at e then Some ''event_before_watermark_time''
      else if superseded_by_close k e then Some ''open_superseded_by_close''
      else if me_observed_at e < xe_now xe - freshness_us then Some ''stale_open_outside_window''
      else case protection_refusal (snapshot_position k e) of
        Some why \<Rightarrow> Some why
      | None \<Rightarrow>
          if \<not> rp_sltp_ok r then Some ''sltp_incomplete''
          else (case live_size p e f c of
             Inl why \<Rightarrow> Some why
           | Inr vol \<Rightarrow>
               if open_live_count k db f \<ge> px_max_concurrent p then Some ''max_concurrent_reached''
               else if \<not> allow_live_for_account xe s fa then Some ''runtime_live_boundary_denied''
               else if xe_paused xe (ac_id fa) then Some ''broker_runtime_paused''
               else None))"

definition admit_open_live :: "exec_env \<Rightarrow> exec_state \<Rightarrow> replication \<Rightarrow> intent_rows \<Rightarrow> intent_rows verdict" where
  "admit_open_live xe s r rows =
     (let (e, f, ma, fa) = rows in
      if \<not> copier_live_execute_enabled (xe_flags xe) then NotAdmitted ''live_copier_arm_disabled''
      else if kill_switch_engaged s then NotAdmitted ''live_copier_kill_switch_engaged''
      else case intent_refusal ''OPEN'' ''op_not_producible'' r of
        Some why \<Rightarrow> NotAdmitted why
      | None \<Rightarrow>
          if \<not> fo_enabled f then NotAdmitted ''follower_disabled''
          else if is_demo_environment fa then NotAdmitted ''follower_is_demo_use_demo_path''
          else case active_authorization_for s (ac_id ma) (ac_id fa) of
            None \<Rightarrow> NotAdmitted ''no_live_authorization''
          | Some p \<Rightarrow>
              (case pair_refusal xe s r rows p of
                 Some why \<Rightarrow> NotAdmitted why
               | None \<Rightarrow>
                   (case resolve_follower_symbol (xe_copier xe) (xs_copier s) ma (me_symbol e) fa of
                      None \<Rightarrow> AdmissionRaised
                    | Some (Inl _) \<Rightarrow> NotAdmitted ''symbol_map_unverified_or_changed''
                    | Some (Inr target) \<Rightarrow>
                        if target \<noteq> px_follower_symbol p then NotAdmitted ''symbol_map_unverified_or_changed''
                        else case live_order_refusal xe s r rows p of
                          Some why \<Rightarrow> NotAdmitted why
                        | None \<Rightarrow> Admitted rows)))"

definition admit_open :: "exec_env \<Rightarrow> exec_state \<Rightarrow> replication \<Rightarrow> intent_rows verdict" where
  "admit_open xe s r =
     (case intent_refusal ''OPEN'' ''op_not_producible'' r of
        Some why \<Rightarrow> NotAdmitted why
      | None \<Rightarrow>
          (case intent_rows xe (xs_copier s) r of
             None \<Rightarrow> AdmissionRaised
           | Some (e, f, ma, fa) \<Rightarrow>
               if \<not> fo_enabled f then NotAdmitted ''follower_disabled''
               else if \<not> is_demo_environment fa then admit_open_live xe s r (e, f, ma, fa)
               else admit_open_demo xe s r (e, f, ma, fa)))"
section \<open>Production of an open\<close>

text \<open>\<open>str\<close> of a \<open>Decimal\<close> read from a column with \<open>n\<close> places.\<close>

definition decimal_text :: "nat \<Rightarrow> rat \<Rightarrow> string" where
  "decimal_text n x =
     (let u = nat \<lfloor>\<bar>x\<bar> * 10 ^ n\<rfloor>
      in (if x < 0 then ''-'' else '''') @ digits_of (u div 10 ^ n) @ ''.'' @ pad_zeros n (digits_of (u mod 10 ^ n)))"

definition level_json :: "rat option \<Rightarrow> json" where
  "level_json v = (case v of None \<Rightarrow> JNull | Some x \<Rightarrow> JStr (decimal_text 10 x))"

definition max_lot :: "broker_constraints \<Rightarrow> follower \<Rightarrow> rat option" where
  "max_lot c f = min_cap (volume_caps c (fo_max_volume f))"

definition provenance_comment :: "nat \<Rightarrow> string" where
  "provenance_comment i = ''CPY'' @ digits_of i"

definition open_payload ::
  "copier_env \<Rightarrow> replication \<Rightarrow> master_event \<Rightarrow> rat \<Rightarrow> rat option \<Rightarrow> bool \<Rightarrow> string \<Rightarrow> (string \<times> json) list" where
  "open_payload ke r e vol cap is_demo mode =
     [(''symbol'', JStr (rp_symbol r)), (''provider_symbol'', JStr (me_symbol e)), (''side'', JStr (me_side e)),
      (''lots'', JStr (ke_repr ke vol)), (''sl_price'', level_json (rp_sl r)), (''tp_price'', level_json (rp_tp r)),
      (''entry_price'', JNull), (''is_demo'', JBool is_demo), (''execution_mode'', JStr mode),
      (''comment'', JStr (provenance_comment (rp_id r))), (''signal_source'', JStr ''copier''),
      (''max_lot'', case cap of None \<Rightarrow> JNull | Some x \<Rightarrow> JStr (ke_repr ke x)),
      (''copier_replication_id'', JInt (int (rp_id r)))]"

definition live_payload ::
  "copier_env \<Rightarrow> replication \<Rightarrow> master_event \<Rightarrow> pair_authorization \<Rightarrow> rat \<Rightarrow> rat option \<Rightarrow> (string \<times> json) list" where
  "live_payload ke r e p vol cap =
     open_payload ke r e vol cap False ''LIVE'' @
     [(''copier_live_authorization_id'', JInt (int (px_id p))), (''require_identity_pin'', JBool True),
      (''expected_login'', JStr (fst (px_follower_identity p))),
      (''expected_server'', JStr (fst (snd (px_follower_identity p)))),
      (''expected_environment'', JStr (snd (snd (px_follower_identity p))))]"

text \<open>
  \<open>ExecutionJob.objects.create\<close> with the node the producer passes: of the producers only those of live
  opens and of partial closes pass one.
\<close>

definition create_copier_job ::
  "pipe_env \<Rightarrow> job_type \<Rightarrow> trading_account \<Rightarrow> int option \<Rightarrow> (string \<times> json) list \<Rightarrow> pipe_db
     \<Rightarrow> (save_error, job, pipe_db) outcome" where
  "create_copier_job env ty a node payload db =
     (case create_job env ty a None payload db of
        (Inl e, _) \<Rightarrow> (Inl e, db)
      | (Inr j, _) \<Rightarrow>
          (let j' = j\<lparr>jb_node := node\<rparr>
           in (Inr j', db\<lparr>db_jobs := db_jobs db @ [j'], db_next_job := Suc (db_next_job db)\<rparr>)))"

datatype produce_response = NotProduced string | Produced "nat option" | ProduceRaised

text \<open>A save that raises undoes the transaction; otherwise the job is tied to its intent.\<close>

definition enqueue ::
  "exec_env \<Rightarrow> job_type \<Rightarrow> trading_account \<Rightarrow> int option \<Rightarrow> (string \<times> json) list \<Rightarrow> nat
     \<Rightarrow> (replication \<Rightarrow> replication) \<Rightarrow> exec_state \<Rightarrow> produce_response \<times> exec_state" where
  "enqueue xe ty a node payload i mark s =
     (case create_copier_job (xe_pipe xe) ty a node payload (xs_pipe s) of
        (Inl _, _) \<Rightarrow> (NotProduced ''gate'', s)
      | (Inr j, db) \<Rightarrow>
          (Produced (Some (jb_id j)),
           s\<lparr>xs_pipe := db,
             xs_copier := update_replication i
               (\<lambda>r. (mark r)\<lparr>rp_job := Some (jb_id j)\<rparr>) (xs_copier s)\<rparr>))"

definition place_demo_open ::
  "exec_env \<Rightarrow> exec_state \<Rightarrow> replication \<Rightarrow> master_event \<Rightarrow> follower \<Rightarrow> trading_account \<Rightarrow> produce_response \<times> exec_state" where
  "place_demo_open xe s r e f fa =
     (let armed = copier_execute_demo_armed (xe_flags xe);
          c = broker_constraints_for (xs_pipe s) (ac_id fa) (rp_symbol r) in
      case fresh_open_size e f c of
        Inl why \<Rightarrow> (NotProduced (''fresh_size:'' @ why), s)
      | Inr (vol, note) \<Rightarrow>
          if note = ''clamped_to_max'' then (NotProduced ''volume_would_be_clamped'', s)
          else if \<not> 0 < vol then (NotProduced ''non_positive_volume'', s)
          else enqueue xe (if armed then PlaceOrder else PlaceOrderShadow) fa None
                 (open_payload (xe_copier xe) r e vol (max_lot c f) True (if armed then ''DEMO'' else ''SHADOW''))
                 (rp_id r)
                 (\<lambda>x. x\<lparr>rp_status := if armed then ExecutionRequested else ShadowJobRecorded,
                        rp_volume := Some (quantize 3 vol)\<rparr>) s)"

definition consume :: "pair_authorization \<Rightarrow> pair_authorization" where
  "consume p =
     p\<lparr>px_consumed := Suc (px_consumed p),
       px_status := if Suc (px_consumed p) \<ge> px_max_orders p then PairConsumed else px_status p\<rparr>"

definition create_live_open_job ::
  "exec_env \<Rightarrow> exec_state \<Rightarrow> replication \<Rightarrow> intent_rows \<Rightarrow> produce_response \<times> exec_state" where
  "create_live_open_job xe s r rows =
     (let (e, f, ma, fa) = rows in
      case active_authorization_for s (ac_id ma) (ac_id fa) of
        None \<Rightarrow> (NotProduced ''no_live_authorization'', s)
      | Some p \<Rightarrow>
          (case window_refusal p (xe_now xe) of
             Some why \<Rightarrow> (NotProduced why, s)
           | None \<Rightarrow>
               if kill_switch_engaged s then (NotProduced ''live_copier_kill_switch_engaged'', s)
               else if open_live_count (xs_copier s) (xs_pipe s) f \<ge> px_max_concurrent p
               then (NotProduced ''max_concurrent_reached'', s)
               else
                 (let c = broker_constraints_for (xs_pipe s) (ac_id fa) (rp_symbol r) in
                  case live_size p e f c of
                    Inl why \<Rightarrow> (NotProduced why, s)
                  | Inr vol \<Rightarrow>
                      (case enqueue xe PlaceOrder fa (ac_terminal_node fa)
                              (live_payload (xe_copier xe) r e p vol (max_lot c f)) (rp_id r)
                              (\<lambda>x. x\<lparr>rp_status := ExecutionRequested, rp_volume := Some (quantize 3 vol)\<rparr>) s of
                         (Produced j, s') \<Rightarrow>
                           (Produced j, s'\<lparr>xs_pairs := map (\<lambda>q. if px_id q = px_id p then consume q else q) (xs_pairs s')\<rparr>)
                       | (why, _) \<Rightarrow> (why, s)))))"

text \<open>The transaction of \<open>produce_one\<close>, on the row read again under its lock.\<close>

definition under_lock ::
  "exec_env \<Rightarrow> nat \<Rightarrow> (exec_state \<Rightarrow> replication \<Rightarrow> 'a verdict)
     \<Rightarrow> (exec_state \<Rightarrow> replication \<Rightarrow> 'a \<Rightarrow> produce_response \<times> exec_state) \<Rightarrow> exec_state \<Rightarrow> produce_response \<times> exec_state" where
  "under_lock xe i admit act s =
     (case replication_by_id (xs_copier s) i of
        None \<Rightarrow> (NotProduced ''gate'', s)
      | Some r \<Rightarrow>
          if \<not> copier_execute_enabled (xe_flags xe) then (NotProduced ''producer_disabled'', s)
          else (case admit s r of
             AdmissionRaised \<Rightarrow> (NotProduced ''gate'', s)
           | NotAdmitted why \<Rightarrow> (NotProduced why, s)
           | Admitted x \<Rightarrow> act s r x))"

definition do_open :: "exec_env \<Rightarrow> exec_state \<Rightarrow> replication \<Rightarrow> intent_rows \<Rightarrow> produce_response \<times> exec_state" where
  "do_open xe s r rows =
     (let (e, f, ma, fa) = rows in
      if \<not> is_demo_environment fa then create_live_open_job xe s r rows else place_demo_open xe s r e f fa)"

text \<open>A producer: its flag, its preflight on an earlier reading, and then the transaction.\<close>

definition with_preflight ::
  "exec_env \<Rightarrow> 'a verdict \<Rightarrow> (exec_state \<Rightarrow> produce_response \<times> exec_state) \<Rightarrow> exec_state \<Rightarrow> produce_response \<times> exec_state" where
  "with_preflight xe0 verdict transaction s =
     (if \<not> copier_execute_enabled (xe_flags xe0) then (NotProduced ''producer_disabled'', s)
      else case verdict of
        AdmissionRaised \<Rightarrow> (ProduceRaised, s)
      | NotAdmitted why \<Rightarrow> (NotProduced why, s)
      | Admitted _ \<Rightarrow> transaction s)"

definition produce_one ::
  "exec_env \<Rightarrow> exec_state \<Rightarrow> replication \<Rightarrow> exec_env \<Rightarrow> exec_state \<Rightarrow> produce_response \<times> exec_state" where
  "produce_one xe0 s0 r xe s =
     with_preflight xe0 (admit_open xe0 s0 r) (under_lock xe (rp_id r) (admit_open xe) (do_open xe)) s"

section \<open>Managing a proven position\<close>

text \<open>What closes, modifications and partial closes are asked first.\<close>

definition managed_rows :: "exec_env \<Rightarrow> copier_db \<Rightarrow> string \<Rightarrow> string \<Rightarrow> replication \<Rightarrow> intent_rows verdict" where
  "managed_rows xe k op why r =
     (case intent_refusal op why r of
        Some w \<Rightarrow> NotAdmitted w
      | None \<Rightarrow>
          (case intent_rows xe k r of
             None \<Rightarrow> AdmissionRaised
           | Some (e, f, ma, fa) \<Rightarrow>
               (let (bound, w) = validate_follower_binding (xe_copier xe) ma fa in
                if \<not> fo_enabled f then NotAdmitted ''follower_disabled''
                else if \<not> is_demo_environment fa then NotAdmitted ''follower_not_demo''
                else if \<not> ac_is_active fa then NotAdmitted ''account_inactive''
                else if \<not> bound then NotAdmitted w
                else Admitted (e, f, ma, fa))))"

text \<open>The newest matched open of the follower for the same position of the same master.\<close>

definition opens_position :: "copier_db \<Rightarrow> replication \<Rightarrow> master_event \<Rightarrow> replication \<Rightarrow> bool" where
  "opens_position k r e x \<longleftrightarrow>
     rp_follower x = rp_follower r \<and> rp_op x = ''OPEN'' \<and> rp_recon x = ''MATCHED'' \<and> rp_ticket x \<noteq> None \<and>
     (case event_by_id k (rp_event x) of
        None \<Rightarrow> False | Some e' \<Rightarrow> me_master e' = me_master e \<and> me_ticket e' = me_ticket e)"

definition matched_open :: "copier_db \<Rightarrow> replication \<Rightarrow> master_event \<Rightarrow> replication option" where
  "matched_open k r e =
     (case rev (sort_key rp_id (filter (opens_position k r e) (kd_replications k))) of [] \<Rightarrow> None | x # _ \<Rightarrow> Some x)"

definition already_targets :: "job_type \<Rightarrow> pipe_db \<Rightarrow> int \<Rightarrow> int \<Rightarrow> bool" where
  "already_targets ty db account ticket \<longleftrightarrow>
     list_ex (\<lambda>j. jb_type j = ty \<and> jb_status j \<in> {JbPending, JbRunning} \<and> jb_account j = account \<and>
                  map_of (jb_payload j) ''ticket'' = Some (JInt ticket)) (db_jobs db)"

text \<open>An admitted operation: the rows, the matched open and its ticket.\<close>

type_synonym target = "intent_rows \<times> replication \<times> int"

definition proven_target :: "copier_db \<Rightarrow> replication \<Rightarrow> intent_rows \<Rightarrow> target option" where
  "proven_target k r rows =
     Option.bind (matched_open k r (fst rows)) (\<lambda>o'. map_option (\<lambda>t. (rows, o', t)) (rp_ticket o'))"

definition admit_close :: "exec_env \<Rightarrow> exec_state \<Rightarrow> replication \<Rightarrow> target verdict" where
  "admit_close xe s r =
     (case managed_rows xe (xs_copier s) ''CLOSE'' ''op_not_close'' r of
        AdmissionRaised \<Rightarrow> AdmissionRaised
      | NotAdmitted why \<Rightarrow> NotAdmitted why
      | Admitted rows \<Rightarrow>
          (case proven_target (xs_copier s) r rows of
             None \<Rightarrow> NotAdmitted ''no_verified_follower_ticket''
           | Some (rows', o', t) \<Rightarrow>
               if already_targets CloseTrade (xs_pipe s) (ac_id (snd (snd (snd rows)))) t
               then NotAdmitted ''close_already_in_flight'' else Admitted (rows', o', t)))"

definition target_symbol :: "replication \<Rightarrow> master_event \<Rightarrow> string" where
  "target_symbol r e = (if rp_symbol r \<noteq> '''' then rp_symbol r else me_symbol e)"

definition close_payload :: "replication \<Rightarrow> master_event \<Rightarrow> int \<Rightarrow> nat \<Rightarrow> (string \<times> json) list" where
  "close_payload r e t open_id =
     [(''symbol'', JStr (target_symbol r e)), (''ticket'', JInt t), (''is_demo'', JBool True),
      (''execution_mode'', JStr ''DEMO''), (''comment'', JStr (''CPYC'' @ digits_of (rp_id r))),
      (''signal_source'', JStr ''copier''), (''reason'', JStr ''copier_master_full_close''),
      (''copier_replication_id'', JInt (int (rp_id r))), (''copier_open_replication_id'', JInt (int open_id))]"

text \<open>Without the arming flag only the decision is recorded.\<close>

definition record_shadow ::
  "nat \<Rightarrow> (replication \<Rightarrow> replication) \<Rightarrow> exec_state \<Rightarrow> produce_response \<times> exec_state" where
  "record_shadow i mark s =
     (Produced None, s\<lparr>xs_copier := update_replication i (\<lambda>x. (mark x)\<lparr>rp_status := ShadowJobRecorded\<rparr>) (xs_copier s)\<rparr>)"

definition do_close :: "exec_env \<Rightarrow> exec_state \<Rightarrow> replication \<Rightarrow> target \<Rightarrow> produce_response \<times> exec_state" where
  "do_close xe s r x =
     (let ((e, f, ma, fa), o', t) = x in
      if \<not> copier_execute_demo_armed (xe_flags xe)
      then record_shadow (rp_id r) (\<lambda>y. y\<lparr>rp_ticket := Some t, rp_recon := rp_recon o'\<rparr>) s
      else enqueue xe CloseTrade fa None (close_payload r e t (rp_id o')) (rp_id r)
             (\<lambda>y. y\<lparr>rp_ticket := Some t, rp_status := ExecutionRequested\<rparr>) s)"

definition produce_close_one ::
  "exec_env \<Rightarrow> exec_state \<Rightarrow> replication \<Rightarrow> exec_env \<Rightarrow> exec_state \<Rightarrow> produce_response \<times> exec_state" where
  "produce_close_one xe0 s0 r xe s =
     with_preflight xe0 (admit_close xe0 s0 r) (under_lock xe (rp_id r) (admit_close xe) (do_close xe)) s"
section \<open>Stops and targets\<close>

text \<open>Why a change of the master's stop is not replicated.\<close>

definition sl_weakening_reason :: "copier_db \<Rightarrow> master_event \<Rightarrow> string option" where
  "sl_weakening_reason k e =
     (if me_type e = Some EvSlRemove then Some ''sl_removal_not_auto_replicated''
      else if me_type e = Some EvSlChange then
        (case me_new_sl e of
           None \<Rightarrow> Some ''sl_removal_not_auto_replicated''
         | Some new \<Rightarrow>
             if \<bar>new\<bar> \<le> price_eps then Some ''sl_removal_not_auto_replicated''
             else (case (kept_level (Option.bind (snapshot_position k e) op_price_open), kept_level (me_prev_sl e)) of
                (Some entry, Some prev) \<Rightarrow>
                  if \<bar>entry - new\<bar> > \<bar>entry - prev\<bar> + price_eps then Some ''sl_widening_not_auto_replicated'' else None
              | _ \<Rightarrow> Some ''sl_change_unverifiable''))
      else None)"

definition admit_modify :: "exec_env \<Rightarrow> exec_state \<Rightarrow> replication \<Rightarrow> target verdict" where
  "admit_modify xe s r =
     (case managed_rows xe (xs_copier s) ''MODIFY_SLTP'' ''op_not_modify'' r of
        AdmissionRaised \<Rightarrow> AdmissionRaised
      | NotAdmitted why \<Rightarrow> NotAdmitted why
      | Admitted rows \<Rightarrow>
          if \<not> rp_sltp_ok r then NotAdmitted ''sltp_incomplete''
          else (case sl_weakening_reason (xs_copier s) (fst rows) of
             Some why \<Rightarrow> NotAdmitted why
           | None \<Rightarrow>
               (case proven_target (xs_copier s) r rows of
                  None \<Rightarrow> NotAdmitted ''no_verified_follower_ticket''
                | Some (rows', o', t) \<Rightarrow>
                    if already_targets ModifyPosition (xs_pipe s) (ac_id (snd (snd (snd rows)))) t
                    then NotAdmitted ''modify_already_in_flight'' else Admitted (rows', o', t))))"

definition copied_modify_payload :: "replication \<Rightarrow> master_event \<Rightarrow> int \<Rightarrow> (string \<times> json) list" where
  "copied_modify_payload r e t =
     [(''symbol'', JStr (target_symbol r e)), (''ticket'', JInt t), (''sl'', level_json (rp_sl r)),
      (''tp'', level_json (rp_tp r)), (''is_demo'', JBool True), (''execution_mode'', JStr ''DEMO''),
      (''comment'', JStr (''CPYM'' @ digits_of (rp_id r))), (''signal_source'', JStr ''copier''),
      (''reason'', JStr ''copier_master_sltp_modify''), (''copier_replication_id'', JInt (int (rp_id r)))]"

definition do_modify :: "exec_env \<Rightarrow> exec_state \<Rightarrow> replication \<Rightarrow> target \<Rightarrow> produce_response \<times> exec_state" where
  "do_modify xe s r x =
     (let ((e, f, ma, fa), o', t) = x in
      if \<not> copier_execute_demo_armed (xe_flags xe)
      then record_shadow (rp_id r) (\<lambda>y. y\<lparr>rp_ticket := Some t\<rparr>) s
      else enqueue xe ModifyPosition fa None (copied_modify_payload r e t) (rp_id r)
             (\<lambda>y. y\<lparr>rp_ticket := Some t, rp_status := ExecutionRequested\<rparr>) s)"

definition produce_modify_one ::
  "exec_env \<Rightarrow> exec_state \<Rightarrow> replication \<Rightarrow> exec_env \<Rightarrow> exec_state \<Rightarrow> produce_response \<times> exec_state" where
  "produce_modify_one xe0 s0 r xe s =
     with_preflight xe0 (admit_modify xe0 s0 r) (under_lock xe (rp_id r) (admit_modify xe) (do_modify xe)) s"

section \<open>Partial closes\<close>

text \<open>The reduction and what remains, or the refusal.\<close>

definition partial_reduction :: "rat \<Rightarrow> rat \<Rightarrow> rat \<Rightarrow> broker_constraints \<Rightarrow> string + (rat \<times> rat)" where
  "partial_reduction mb ma cur c =
     (if mb \<le> 0 \<or> ma < 0 \<or> ma \<ge> mb then Inl ''master_ratio_invalid''
      else let ratio = (mb - ma) / mb in
        if \<not> (0 < ratio \<and> ratio < 1) then Inl ''master_ratio_invalid''
        else if cur \<le> 0 then Inl ''follower_volume_invalid''
        else let step = bc_lot_step c; vmin = bc_min_volume c in
          if step \<le> 0 \<or> vmin \<le> 0 then Inl ''constraints_unavailable''
          else let raw = ratio * cur in
            if raw \<le> 0 then Inl ''zero_requested''
            else let reduction = quantize 8 (of_int \<lfloor>raw / step + 1 / 10 ^ 9\<rfloor> * step) in
              if reduction \<le> 0 then Inl ''rounds_to_zero''
              else if reduction < vmin then Inl ''below_min_reduction''
              else if reduction \<ge> cur then Inl ''would_be_full_close''
              else let remaining = quantize 8 (cur - reduction) in
                if remaining < vmin then Inl ''remainder_below_min''
                else Inr (reduction, remaining))"

text \<open>The position of a ticket in a checked read; \<open>None\<close>: the read raised.\<close>

definition read_follower_position ::
  "exec_env \<Rightarrow> trading_account \<Rightarrow> int \<Rightarrow> (bool \<times> observed_position option \<times> string) option" where
  "read_follower_position xe a t =
     (case xe_read xe a of
        Inl _ \<Rightarrow> None
      | Inr m \<Rightarrow>
          Some (if \<not> mr_ok m then (False, None, mr_reason m)
                else case find (\<lambda>p. op_ticket p = t) (mr_positions m) of
                  Some p \<Rightarrow> (True, Some p, ''ok'')
                | None \<Rightarrow> (True, None, ''ticket_not_open'')))"

definition admit_partial_close ::
  "exec_env \<Rightarrow> exec_state \<Rightarrow> replication \<Rightarrow> (target \<times> rat \<times> rat) verdict" where
  "admit_partial_close xe s r =
     (case managed_rows xe (xs_copier s) ''PARTIAL_CLOSE'' ''op_not_partial_close'' r of
        AdmissionRaised \<Rightarrow> AdmissionRaised
      | NotAdmitted why \<Rightarrow> NotAdmitted why
      | Admitted (e, f, ma, fa) \<Rightarrow>
          (case proven_target (xs_copier s) r (e, f, ma, fa) of
             None \<Rightarrow> NotAdmitted ''no_verified_follower_ticket''
           | Some (rows, o', t) \<Rightarrow>
               (case read_follower_position xe fa t of
                  None \<Rightarrow> AdmissionRaised
                | Some (False, _, why) \<Rightarrow> NotAdmitted (''follower_read:'' @ why)
                | Some (True, None, _) \<Rightarrow> NotAdmitted ''follower_ticket_not_open''
                | Some (True, Some p, _) \<Rightarrow>
                    if rp_symbol r \<noteq> '''' \<and> op_symbol p \<noteq> rp_symbol r then NotAdmitted ''symbol_changed''
                    else
                      (let c = broker_constraints_for (xs_pipe s) (ac_id fa)
                                 (if rp_symbol r \<noteq> '''' then rp_symbol r else op_symbol p) in
                       if \<not> bc_authoritative c then NotAdmitted ''constraints_not_authoritative''
                       else case partial_reduction (me_volume_before e) (me_volume_after e) (op_volume p) c of
                         Inl why \<Rightarrow> NotAdmitted why
                       | Inr (reduction, remaining) \<Rightarrow>
                           if already_targets PartialCloseTrade (xs_pipe s) (ac_id fa) t
                           then NotAdmitted ''partial_close_already_in_flight''
                           else Admitted ((rows, o', t), reduction, remaining)))))"

text \<open>The same against the volume the open was sized with, without a read: what the shadow dispatch asks.\<close>

definition model_partial_close ::
  "exec_env \<Rightarrow> exec_state \<Rightarrow> replication \<Rightarrow> (target \<times> rat \<times> rat) verdict" where
  "model_partial_close xe s r =
     (case managed_rows xe (xs_copier s) ''PARTIAL_CLOSE'' ''op_not_partial_close'' r of
        AdmissionRaised \<Rightarrow> AdmissionRaised
      | NotAdmitted why \<Rightarrow> NotAdmitted why
      | Admitted (e, f, ma, fa) \<Rightarrow>
          (case proven_target (xs_copier s) r (e, f, ma, fa) of
             None \<Rightarrow> NotAdmitted ''no_verified_follower_ticket''
           | Some (rows, o', t) \<Rightarrow>
               (case rp_volume o' of
                  None \<Rightarrow> NotAdmitted ''no_modeled_follower_volume''
                | Some cur \<Rightarrow>
                    (let c = broker_constraints_for (xs_pipe s) (ac_id fa)
                               (if rp_symbol r \<noteq> '''' then rp_symbol r else rp_symbol o') in
                     if \<not> bc_authoritative c then NotAdmitted ''constraints_not_authoritative''
                     else case partial_reduction (me_volume_before e) (me_volume_after e) cur c of
                       Inl why \<Rightarrow> NotAdmitted why
                     | Inr (reduction, remaining) \<Rightarrow> Admitted ((rows, o', t), reduction, remaining)))))"

definition partial_close_payload ::
  "copier_env \<Rightarrow> replication \<Rightarrow> master_event \<Rightarrow> int \<Rightarrow> rat \<Rightarrow> rat \<Rightarrow> (string \<times> json) list" where
  "partial_close_payload ke r e t reduction remaining =
     [(''symbol'', JStr (target_symbol r e)), (''ticket'', JInt t), (''volume'', JStr (ke_repr ke reduction)),
      (''is_demo'', JBool True), (''execution_mode'', JStr ''DEMO''), (''comment'', JStr (''CPYP'' @ digits_of (rp_id r))),
      (''signal_source'', JStr ''copier''), (''reason'', JStr ''copier_master_partial_close''),
      (''copier_replication_id'', JInt (int (rp_id r))), (''expected_remaining'', JStr (ke_repr ke remaining))]"

definition do_partial_close ::
  "exec_env \<Rightarrow> exec_state \<Rightarrow> replication \<Rightarrow> target \<times> rat \<times> rat \<Rightarrow> produce_response \<times> exec_state" where
  "do_partial_close xe s r x =
     (let (((e, f, ma, fa), o', t), reduction, remaining) = x;
          mark = (\<lambda>y. y\<lparr>rp_ticket := Some t, rp_volume := Some (quantize 3 reduction)\<rparr>) in
      if \<not> copier_execute_demo_armed (xe_flags xe) then record_shadow (rp_id r) mark s
      else enqueue xe PartialCloseTrade fa (ac_terminal_node fa)
             (partial_close_payload (xe_copier xe) r e t reduction remaining) (rp_id r)
             (\<lambda>y. (mark y)\<lparr>rp_status := ExecutionRequested\<rparr>) s)"

definition produce_partial_close_one ::
  "exec_env \<Rightarrow> exec_state \<Rightarrow> replication \<Rightarrow> exec_env \<Rightarrow> exec_state \<Rightarrow> produce_response \<times> exec_state" where
  "produce_partial_close_one xe0 s0 r xe s =
     with_preflight xe0 (admit_partial_close xe0 s0 r)
       (under_lock xe (rp_id r) (admit_partial_close xe) (do_partial_close xe)) s"

section \<open>The sweeps\<close>

definition pending_intents :: "string \<Rightarrow> copier_db \<Rightarrow> replication list" where
  "pending_intents op k =
     sort_key rp_id (filter (\<lambda>r. rp_status r = ShadowRecorded \<and> rp_job r = None \<and> rp_op r = op \<and>
       (case follower_by_id k (rp_follower r) of None \<Rightarrow> False | Some f \<Rightarrow> fo_enabled f)) (kd_replications k))"

definition sweep_intents ::
  "(exec_env \<Rightarrow> exec_state \<Rightarrow> replication \<Rightarrow> exec_env \<Rightarrow> exec_state \<Rightarrow> produce_response \<times> exec_state) \<Rightarrow> string
     \<Rightarrow> exec_env \<Rightarrow> nat \<Rightarrow> exec_state \<Rightarrow> exec_state" where
  "sweep_intents produce op xe limit s =
     (if \<not> copier_execute_enabled (xe_flags xe) then s
      else fold (\<lambda>r s'. snd (produce xe s' r xe s')) (take limit (pending_intents op (xs_copier s))) s)"

definition produce_pending :: "exec_env \<Rightarrow> nat \<Rightarrow> exec_state \<Rightarrow> exec_state" where
  "produce_pending = sweep_intents produce_one ''OPEN''"

definition produce_pending_closes :: "exec_env \<Rightarrow> nat \<Rightarrow> exec_state \<Rightarrow> exec_state" where
  "produce_pending_closes = sweep_intents produce_close_one ''CLOSE''"

definition produce_pending_modifies :: "exec_env \<Rightarrow> nat \<Rightarrow> exec_state \<Rightarrow> exec_state" where
  "produce_pending_modifies = sweep_intents produce_modify_one ''MODIFY_SLTP''"

definition produce_pending_partial_closes :: "exec_env \<Rightarrow> nat \<Rightarrow> exec_state \<Rightarrow> exec_state" where
  "produce_pending_partial_closes = sweep_intents produce_partial_close_one ''PARTIAL_CLOSE''"

section \<open>Proof of the follower's tickets\<close>

definition unreconciled_opens :: "copier_db \<Rightarrow> nat \<Rightarrow> replication list" where
  "unreconciled_opens k f =
     sort_key rp_id (filter (\<lambda>r. rp_follower r = f \<and> rp_op r = ''OPEN'' \<and> rp_status r = ExecutionRequested \<and>
                                 rp_ticket r = None) (kd_replications k))"

definition tickets_of :: "observed_position list \<Rightarrow> nat \<Rightarrow> int list" where
  "tickets_of ps i = map op_ticket (filter (\<lambda>p. op_comment p = provenance_comment i) ps)"

definition reconcile_row :: "observed_position list \<Rightarrow> nat \<Rightarrow> copier_db \<Rightarrow> copier_db" where
  "reconcile_row ps i k =
     update_replication i (\<lambda>r.
       if rp_ticket r \<noteq> None then r
       else case tickets_of ps i of
         [t] \<Rightarrow> r\<lparr>rp_ticket := Some t, rp_recon := ''MATCHED''\<rparr>
       | [] \<Rightarrow> r\<lparr>rp_recon := ''UNMATCHED''\<rparr>
       | _ \<Rightarrow> r\<lparr>rp_recon := ''AMBIGUOUS''\<rparr>) k"

definition reconcile_follower :: "exec_env \<Rightarrow> follower \<Rightarrow> exec_state \<Rightarrow> exec_state" where
  "reconcile_follower xe f s =
     (let pend = unreconciled_opens (xs_copier s) (fo_id f) in
      if pend = [] then s
      else case map_option (xe_read xe) (account_by_id (xe_pipe xe) (fo_account f)) of
        Some (Inr m) \<Rightarrow>
          if \<not> mr_ok m then s
          else s\<lparr>xs_copier := fold (reconcile_row (mr_positions m)) (map rp_id pend) (xs_copier s)\<rparr>
      | _ \<Rightarrow> s)"

definition run_reconcile_pass :: "exec_env \<Rightarrow> nat \<Rightarrow> exec_state \<Rightarrow> exec_state" where
  "run_reconcile_pass xe limit s =
     (if \<not> copier_reconcile_enabled (xe_flags xe) then s
      else let k = xs_copier s;
               ids = take limit (remdups (map rp_follower (filter (\<lambda>r. rp_op r = ''OPEN'' \<and>
                       rp_status r = ExecutionRequested \<and> rp_ticket r = None \<and>
                       (case follower_by_id k (rp_follower r) of None \<Rightarrow> False | Some f \<Rightarrow> fo_enabled f))
                       (kd_replications k))))
           in fold (reconcile_follower xe) (filter (\<lambda>f. fo_id f \<in> set ids) (kd_followers k)) s)"

text \<open>What is left of the position after a partial close; nothing is sent again.\<close>

definition partial_close_outcome ::
  "exec_env \<Rightarrow> trading_account \<Rightarrow> int \<Rightarrow> rat \<Rightarrow> rat \<Rightarrow> string option" where
  "partial_close_outcome xe a t intended step =
     map_option (\<lambda>(ok, pos, _).
       if \<not> ok then ''PCLOSE_RECON_UNAVAIL''
       else case pos of
         None \<Rightarrow> ''PCLOSE_TICKET_GONE''
       | Some p \<Rightarrow>
           if \<bar>op_volume p - intended\<bar> \<le> max (step * (1 / 2)) (1 / 10 ^ 9) then ''PCLOSE_RECONCILED''
           else ''PCLOSE_DIVERGENT_VOL'') (read_follower_position xe a t)"

definition reconcile_partial_close :: "exec_env \<Rightarrow> nat \<Rightarrow> rat \<Rightarrow> rat \<Rightarrow> exec_state \<Rightarrow> exec_state" where
  "reconcile_partial_close xe i intended step s =
     (case replication_by_id (xs_copier s) i of
        None \<Rightarrow> s
      | Some r \<Rightarrow>
          (case (rp_ticket r, Option.bind (follower_by_id (xs_copier s) (rp_follower r))
                                (\<lambda>f. account_by_id (xe_pipe xe) (fo_account f))) of
             (Some t, Some a) \<Rightarrow>
               (case partial_close_outcome xe a t intended step of
                  None \<Rightarrow> s
                | Some st \<Rightarrow> s\<lparr>xs_copier := update_replication i (\<lambda>y. y\<lparr>rp_recon := st\<rparr>) (xs_copier s)\<rparr>)
           | _ \<Rightarrow> s))"
section \<open>What one production changes\<close>

definition append_job :: "job \<Rightarrow> pipe_db \<Rightarrow> pipe_db" where
  "append_job j db = db\<lparr>db_jobs := db_jobs db @ [j], db_next_job := Suc (db_next_job db)\<rparr>"

lemma append_job_simps [simp]:
  "db_jobs (append_job j db) = db_jobs db @ [j]" "db_next_job (append_job j db) = Suc (db_next_job db)"
  by (simp_all add: append_job_def)

lemma create_copier_job_result:
  assumes "create_copier_job env ty a node payload db = (Inr j, db')"
  shows "db' = append_job j db" "jb_id j = db_next_job db" "jb_type j = ty" "jb_account j = ac_id a" "jb_node j = node"
    "pinned_payload env ty a payload = Some (jb_payload j)" "save_guards env db ty a = None"
  using assms create_job_InrD [of env ty a None payload db]
  by (auto simp: create_copier_job_def append_job_def Let_def split: prod.splits sum.splits)

definition job_tag :: "job \<Rightarrow> json option" where
  "job_tag j = map_of (jb_payload j) ''copier_replication_id''"

definition job_pair :: "job \<Rightarrow> json option" where
  "job_pair j = map_of (jb_payload j) ''copier_live_authorization_id''"

lemma enqueue_result:
  assumes "enqueue xe ty a node payload i mark s = (resp, s')"
  shows "s' = s \<and> resp = NotProduced ''gate'' \<or>
    (\<exists>j. resp = Produced (Some (jb_id j)) \<and>
       s' = s\<lparr>xs_pipe := append_job j (xs_pipe s),
              xs_copier := update_replication i (\<lambda>r. (mark r)\<lparr>rp_job := Some (jb_id j)\<rparr>) (xs_copier s)\<rparr> \<and>
       jb_id j = db_next_job (xs_pipe s) \<and> jb_type j = ty \<and> jb_account j = ac_id a \<and> jb_node j = node \<and>
       (\<forall>key. key \<notin> pin_keys \<longrightarrow> map_of (jb_payload j) key = map_of payload key))"
proof (cases "create_copier_job (xe_pipe xe) ty a node payload (xs_pipe s)")
  case (Pair r db)
  show ?thesis
  proof (cases r)
    case (Inl e)
    with Pair assms show ?thesis by (simp add: enqueue_def)
  next
    case (Inr j)
    note c = create_copier_job_result [OF Pair [unfolded Inr]]
    from Pair Inr assms have "resp = Produced (Some (jb_id j))"
      "s' = s\<lparr>xs_pipe := append_job j (xs_pipe s),
              xs_copier := update_replication i (\<lambda>r. (mark r)\<lparr>rp_job := Some (jb_id j)\<rparr>) (xs_copier s)\<rparr>"
      using c(1) by (simp_all add: enqueue_def)
    then show ?thesis using c pinned_payload_keep [OF c(6)] by blast
  qed
qed

text \<open>The order a job carries answers the intent it was made for.\<close>

definition right_type :: "replication \<Rightarrow> job_type \<Rightarrow> bool" where
  "right_type r ty \<longleftrightarrow>
     rp_op r = ''OPEN'' \<and> ty \<in> {PlaceOrder, PlaceOrderShadow} \<or> rp_op r = ''CLOSE'' \<and> ty = CloseTrade \<or>
     rp_op r = ''MODIFY_SLTP'' \<and> ty = ModifyPosition \<or> rp_op r = ''PARTIAL_CLOSE'' \<and> ty = PartialCloseTrade"

definition copies_open :: "copier_db \<Rightarrow> replication \<Rightarrow> master_event \<Rightarrow> int \<Rightarrow> bool" where
  "copies_open k r e t \<longleftrightarrow>
     (\<exists>x \<in> set (kd_replications k). rp_follower x = rp_follower r \<and> rp_op x = ''OPEN'' \<and> rp_ticket x = Some t \<and>
        (\<exists>e'. event_by_id k (rp_event x) = Some e' \<and> me_master e' = me_master e \<and> me_ticket e' = me_ticket e))"

definition job_answers :: "copier_db \<Rightarrow> replication \<Rightarrow> job \<Rightarrow> bool" where
  "job_answers k r j \<longleftrightarrow>
     job_tag j = Some (JInt (int (rp_id r))) \<and> right_type r (jb_type j) \<and>
     (\<exists>e f. event_by_id k (rp_event r) = Some e \<and> follower_by_id k (rp_follower r) = Some f \<and>
        jb_account j = fo_account f \<and>
        (rp_op r \<noteq> ''OPEN'' \<longrightarrow>
           (\<exists>t. map_of (jb_payload j) ''ticket'' = Some (JInt t) \<and> copies_open k r e t)))"

lemma intent_rowsD:
  assumes "intent_rows xe k r = Some (e, f, ma, fa)"
  shows "event_by_id k (rp_event r) = Some e" "follower_by_id k (rp_follower r) = Some f"
    "ac_id fa = fo_account f" "account_by_id (xe_pipe xe) (fo_account f) = Some fa"
  using assms
  by (auto simp: intent_rows_def account_by_id_def split: option.splits dest!: find_SomeD)

lemma intent_refusalD:
  assumes "intent_refusal op why r = None"
  shows "rp_job r = None" "rp_status r = ShadowRecorded" "rp_op r = op"
  using assms by (simp_all add: intent_refusal_def split: if_splits)

lemma managed_rowsD:
  assumes "managed_rows xe k op why r = Admitted (e, f, ma, fa)"
  shows "rp_job r = None" "rp_op r = op" "intent_rows xe k r = Some (e, f, ma, fa)" "fo_enabled f" "is_demo_environment fa"
  using assms intent_refusalD [of op why r]
  by (auto simp: managed_rows_def Let_def split: option.splits if_splits prod.splits)

lemma proven_targetD:
  assumes "proven_target k r (e, f, ma, fa) = Some (rows, x, t)"
  shows "rows = (e, f, ma, fa)" "x \<in> set (kd_replications k)" "opens_position k r e x" "rp_ticket x = Some t"
    "copies_open k r e t"
proof -
  from assms have m: "matched_open k r e = Some x" and t: "rp_ticket x = Some t" and "rows = (e, f, ma, fa)"
    by (auto simp: proven_target_def bind_eq_Some_conv)
  then show "rows = (e, f, ma, fa)" "rp_ticket x = Some t" by simp_all
  let ?l = "rev (sort_key rp_id (filter (opens_position k r e) (kd_replications k)))"
  from m obtain ys where "?l = x # ys" by (cases ?l) (simp_all add: matched_open_def)
  then have "x \<in> set ?l" by (simp only: list.set_intros)
  then have x: "x \<in> set (kd_replications k) \<and> opens_position k r e x" by simp
  then show "x \<in> set (kd_replications k)" "opens_position k r e x" by simp_all
  from x t show "copies_open k r e t" unfolding copies_open_def opens_position_def
    by (intro bexI [of _ x]) (auto split: option.splits)
qed

text \<open>
  A production leaves the state, records a decision on a row that is not an open, or appends the one job of a
  row that had none; only a live open also spends one order of its authorization.
\<close>

definition keeps :: "replication \<Rightarrow> (replication \<Rightarrow> replication) \<Rightarrow> bool" where
  "keeps r g \<longleftrightarrow> (\<forall>x. rp_id (g x) = rp_id x \<and> rp_event (g x) = rp_event x \<and> rp_follower (g x) = rp_follower x \<and>
                 rp_op (g x) = rp_op x \<and> rp_job (g x) = rp_job x \<and> (rp_op r = ''OPEN'' \<longrightarrow> rp_ticket (g x) = rp_ticket x))"

definition spends :: "job \<Rightarrow> exec_state \<Rightarrow> pair_authorization list \<Rightarrow> bool" where
  "spends j s pairs \<longleftrightarrow>
     job_pair j = None \<and> pairs = xs_pairs s \<or>
     (\<exists>p \<in> set (xs_pairs s). px_consumed p < px_max_orders p \<and> job_pair j = Some (JInt (int (px_id p))) \<and>
        pairs = map (\<lambda>q. if px_id q = px_id p then consume q else q) (xs_pairs s))"

text \<open>Only live orders and partial closes are bound to the account's node.\<close>

definition routes :: "job \<Rightarrow> bool" where
  "routes j \<longleftrightarrow> (job_tag j \<noteq> None \<and> job_pair j = None \<and> jb_type j \<noteq> PartialCloseTrade \<longrightarrow> jb_node j = None)"

definition produces :: "exec_state \<Rightarrow> exec_state \<Rightarrow> bool" where
  "produces s s' \<longleftrightarrow>
     s' = s \<or>
     (\<exists>r g. r \<in> set (kd_replications (xs_copier s)) \<and> keeps r g \<and>
        s' = s\<lparr>xs_copier := update_replication (rp_id r) g (xs_copier s)\<rparr>) \<or>
     (\<exists>r g j pairs. r \<in> set (kd_replications (xs_copier s)) \<and> rp_job r = None \<and> keeps r g \<and>
        s' = \<lparr>xs_copier = update_replication (rp_id r) (\<lambda>x. (g x)\<lparr>rp_job := Some (jb_id j)\<rparr>) (xs_copier s),
              xs_pipe = append_job j (xs_pipe s), xs_pairs = pairs, xs_kills = xs_kills s\<rparr> \<and>
        jb_id j = db_next_job (xs_pipe s) \<and> job_answers (xs_copier s) r j \<and> spends j s pairs \<and> routes j)"

lemma produces_same: "produces s s"
  by (simp add: produces_def)
lemma update_replication_fields:
  "kd_replications (update_replication i g k) = map (\<lambda>r. if rp_id r = i then g r else r) (kd_replications k)"
  "kd_events (update_replication i g k) = kd_events k" "kd_followers (update_replication i g k) = kd_followers k"
  "kd_masters (update_replication i g k) = kd_masters k" "kd_next_replication (update_replication i g k) = kd_next_replication k"
  by (simp_all add: update_replication_def)

lemma produces_shadow:
  assumes "r \<in> set (kd_replications (xs_copier s))" "keeps r mark"
  shows "produces s (snd (record_shadow (rp_id r) mark s))"
proof -
  have "keeps r (\<lambda>x. (mark x)\<lparr>rp_status := ShadowJobRecorded\<rparr>)" using assms(2) by (simp add: keeps_def)
  then show ?thesis unfolding record_shadow_def produces_def snd_conv using assms(1) by blast
qed

lemma produces_enqueue:
  assumes r: "r \<in> set (kd_replications (xs_copier s))" "rp_job r = None" and "keeps r mark"
    and rows: "intent_rows xe (xs_copier s) r = Some (e, f, ma, fa)"
    and tag: "map_of payload ''copier_replication_id'' = Some (JInt (int (rp_id r)))"
    and ty: "right_type r ty"
    and ticket: "rp_op r \<noteq> ''OPEN'' \<Longrightarrow>
      \<exists>t. map_of payload ''ticket'' = Some (JInt t) \<and> copies_open (xs_copier s) r e t"
    and res: "enqueue xe ty fa node payload (rp_id r) mark s = (resp, s')"
    and pair: "map_of payload ''copier_live_authorization_id'' = None \<and> pairs = xs_pairs s \<or>
      (\<exists>p \<in> set (xs_pairs s). px_consumed p < px_max_orders p \<and>
         map_of payload ''copier_live_authorization_id'' = Some (JInt (int (px_id p))) \<and>
         pairs = map (\<lambda>q. if px_id q = px_id p then consume q else q) (xs_pairs s))"
    and route: "map_of payload ''copier_live_authorization_id'' = None \<Longrightarrow> ty \<noteq> PartialCloseTrade \<Longrightarrow> node = None"
  shows "s' = s \<and> resp = NotProduced ''gate'' \<or> (\<exists>j. resp = Produced (Some j)) \<and> produces s (s'\<lparr>xs_pairs := pairs\<rparr>)"
proof -
  from enqueue_result [OF res] show ?thesis
  proof
    assume "\<exists>j. resp = Produced (Some (jb_id j)) \<and>
       s' = s\<lparr>xs_pipe := append_job j (xs_pipe s),
              xs_copier := update_replication (rp_id r) (\<lambda>r. (mark r)\<lparr>rp_job := Some (jb_id j)\<rparr>) (xs_copier s)\<rparr> \<and>
       jb_id j = db_next_job (xs_pipe s) \<and> jb_type j = ty \<and> jb_account j = ac_id fa \<and> jb_node j = node \<and>
       (\<forall>key. key \<notin> pin_keys \<longrightarrow> map_of (jb_payload j) key = map_of payload key)"
    then obtain j where j: "resp = Produced (Some (jb_id j))"
       "s' = s\<lparr>xs_pipe := append_job j (xs_pipe s),
              xs_copier := update_replication (rp_id r) (\<lambda>r. (mark r)\<lparr>rp_job := Some (jb_id j)\<rparr>) (xs_copier s)\<rparr>"
       "jb_id j = db_next_job (xs_pipe s)" "jb_type j = ty" "jb_account j = ac_id fa" "jb_node j = node"
       "\<And>key. key \<notin> pin_keys \<Longrightarrow> map_of (jb_payload j) key = map_of payload key" by blast
    have keys: "map_of (jb_payload j) ''copier_replication_id'' = map_of payload ''copier_replication_id''"
      "map_of (jb_payload j) ''ticket'' = map_of payload ''ticket''"
      "map_of (jb_payload j) ''copier_live_authorization_id'' = map_of payload ''copier_live_authorization_id''"
      by (intro j(7); simp add: pin_keys_def)+
    have "job_answers (xs_copier s) r j"
      using intent_rowsD [OF rows] tag ty ticket by (simp add: job_answers_def job_tag_def keys j(4,5))
    moreover have "routes j" using route by (simp add: routes_def job_pair_def keys j(4,6))
    moreover have "spends j s pairs" using pair by (simp add: spends_def job_pair_def keys)
    moreover have "s'\<lparr>xs_pairs := pairs\<rparr> = \<lparr>xs_copier = update_replication (rp_id r) (\<lambda>x. (mark x)\<lparr>rp_job := Some (jb_id j)\<rparr>) (xs_copier s),
              xs_pipe = append_job j (xs_pipe s), xs_pairs = pairs, xs_kills = xs_kills s\<rparr>"
      by (simp add: j(2))
    ultimately have "produces s (s'\<lparr>xs_pairs := pairs\<rparr>)" unfolding produces_def using r j(3) \<open>keeps r mark\<close> by blast
    with j(1) show ?thesis by blast
  qed simp
qed

lemma produces_enqueue_demo:
  assumes "r \<in> set (kd_replications (xs_copier s))" "rp_job r = None" "keeps r mark"
    and "intent_rows xe (xs_copier s) r = Some (e, f, ma, fa)"
    and "map_of payload ''copier_replication_id'' = Some (JInt (int (rp_id r)))" "right_type r ty"
    and "rp_op r \<noteq> ''OPEN'' \<Longrightarrow> \<exists>t. map_of payload ''ticket'' = Some (JInt t) \<and> copies_open (xs_copier s) r e t"
    and "map_of payload ''copier_live_authorization_id'' = None" "ty \<noteq> PartialCloseTrade \<Longrightarrow> node = None"
  shows "produces s (snd (enqueue xe ty fa node payload (rp_id r) mark s))"
proof -
  obtain resp s' where res: "enqueue xe ty fa node payload (rp_id r) mark s = (resp, s')" by fastforce
  have "s'\<lparr>xs_pairs := xs_pairs s\<rparr> = s'" using enqueue_result [OF res] by auto
  then show ?thesis using produces_enqueue [OF assms(1-7) res, of "xs_pairs s"] assms(8,9) res produces_same by force
qed

lemma with_preflight_produces: "(\<And>s. produces s (snd (transaction s))) \<Longrightarrow> produces s (snd (with_preflight xe0 v transaction s))"
  by (simp add: with_preflight_def produces_same split: verdict.split)

lemma under_lock_produces:
  assumes "\<And>r x. r \<in> set (kd_replications (xs_copier s)) \<Longrightarrow> rp_id r = i \<Longrightarrow> admit s r = Admitted x \<Longrightarrow> produces s (snd (act s r x))"
  shows "produces s (snd (under_lock xe i admit act s))"
proof (cases "replication_by_id (xs_copier s) i")
  case (Some r)
  then have "r \<in> set (kd_replications (xs_copier s))" "rp_id r = i" by (auto simp: replication_by_id_def dest: find_SomeD)
  then show ?thesis using Some assms by (simp add: under_lock_def produces_same split: verdict.split)
qed (simp add: under_lock_def produces_same)
lemma do_close_produces:
  assumes "r \<in> set (kd_replications (xs_copier s))" "admit_close xe s r = Admitted x"
  shows "produces s (snd (do_close xe s r x))"
proof -
  from assms(2) obtain e f ma fa where m: "managed_rows xe (xs_copier s) ''CLOSE'' ''op_not_close'' r = Admitted (e, f, ma, fa)"
    and p: "proven_target (xs_copier s) r (e, f, ma, fa) = Some x"
    by (auto simp: admit_close_def split: verdict.splits option.splits if_splits)
  obtain rows o' t where x: "x = (rows, o', t)" by (cases x)
  note m' = managed_rowsD [OF m] and p' = proven_targetD [OF p [unfolded x]]
  show ?thesis
    unfolding do_close_def x p'(1)
    using assms(1) m' p'(5)
    by (auto intro!: produces_shadow produces_enqueue_demo simp: keeps_def close_payload_def right_type_def)
qed

lemma do_modify_produces:
  assumes "r \<in> set (kd_replications (xs_copier s))" "admit_modify xe s r = Admitted x"
  shows "produces s (snd (do_modify xe s r x))"
proof -
  from assms(2) obtain e f ma fa where m: "managed_rows xe (xs_copier s) ''MODIFY_SLTP'' ''op_not_modify'' r = Admitted (e, f, ma, fa)"
    and p: "proven_target (xs_copier s) r (e, f, ma, fa) = Some x"
    by (auto simp: admit_modify_def split: verdict.splits option.splits if_splits)
  obtain rows o' t where x: "x = (rows, o', t)" by (cases x)
  note m' = managed_rowsD [OF m] and p' = proven_targetD [OF p [unfolded x]]
  show ?thesis
    unfolding do_modify_def x p'(1)
    using assms(1) m' p'(5)
    by (auto intro!: produces_shadow produces_enqueue_demo simp: keeps_def copied_modify_payload_def right_type_def)
qed

lemma admit_partial_closeD:
  assumes "admit_partial_close xe s r = Admitted (x, reduction, remaining)"
  shows "\<exists>e f ma fa. managed_rows xe (xs_copier s) ''PARTIAL_CLOSE'' ''op_not_partial_close'' r = Admitted (e, f, ma, fa) \<and>
    proven_target (xs_copier s) r (e, f, ma, fa) = Some x"
  using assms by (auto simp: admit_partial_close_def Let_def split: verdict.splits option.splits if_splits sum.splits bool.splits prod.splits)

lemma do_partial_close_produces:
  assumes "r \<in> set (kd_replications (xs_copier s))" "admit_partial_close xe s r = Admitted x"
  shows "produces s (snd (do_partial_close xe s r x))"
proof -
  obtain y reduction remaining where y: "x = (y, reduction, remaining)" by (cases x)
  from admit_partial_closeD [OF assms(2) [unfolded y]] obtain e f ma fa
    where m: "managed_rows xe (xs_copier s) ''PARTIAL_CLOSE'' ''op_not_partial_close'' r = Admitted (e, f, ma, fa)"
    and p: "proven_target (xs_copier s) r (e, f, ma, fa) = Some y" by blast
  obtain rows o' t where x: "y = (rows, o', t)" by (cases y)
  note m' = managed_rowsD [OF m] and p' = proven_targetD [OF p [unfolded x]]
  show ?thesis
    unfolding do_partial_close_def y x p'(1)
    using assms(1) m' p'(5)
    by (auto intro!: produces_shadow produces_enqueue_demo simp: keeps_def partial_close_payload_def right_type_def Let_def)
qed

lemma newest_pair_mem: "newest_pair ps = Some p \<Longrightarrow> p \<in> set ps"
  by (induction ps arbitrary: p rule: newest_pair.induct) (auto split: option.splits if_splits)

lemma active_authorizationD:
  assumes "active_authorization_for s m f = Some p"
  shows "p \<in> set (xs_pairs s)" "px_master p = m" "px_follower p = f" "px_status p = PairActive"
  using newest_pair_mem [OF assms [unfolded active_authorization_for_def]] by simp_all

lemma admit_openD:
  assumes "admit_open xe s r = Admitted (e, f, ma, fa)"
  shows "rp_job r = None" "rp_op r = ''OPEN''" "intent_rows xe (xs_copier s) r = Some (e, f, ma, fa)"
proof -
  from assms have refusal: "intent_refusal ''OPEN'' ''op_not_producible'' r = None"
    by (auto simp: admit_open_def split: option.splits)
  then show "rp_job r = None" "rp_op r = ''OPEN''" by (rule intent_refusalD)+
  obtain rows where rows: "intent_rows xe (xs_copier s) r = Some rows"
    using assms refusal by (auto simp: admit_open_def split: option.splits)
  have live: "admit_open_live xe s r rows = Admitted y \<Longrightarrow> y = rows" for y
    by (auto simp: admit_open_live_def Let_def split: prod.splits if_splits option.splits sum.splits)
  have demo: "admit_open_demo xe s r rows = Admitted y \<Longrightarrow> y = rows" for y
    by (auto simp: admit_open_demo_def Let_def split: prod.splits if_splits option.splits sum.splits)
  obtain e' f' ma' fa' where r4: "rows = (e', f', ma', fa')" by (cases rows)
  from assms have "(e, f, ma, fa) = rows"
    using live demo by (auto simp: admit_open_def refusal rows r4 split: if_splits)
  with rows show "intent_rows xe (xs_copier s) r = Some (e, f, ma, fa)" by simp
qed

lemma create_live_open_produces:
  assumes "r \<in> set (kd_replications (xs_copier s))" "rp_job r = None" "rp_op r = ''OPEN''"
    and "intent_rows xe (xs_copier s) r = Some (e, f, ma, fa)"
  shows "produces s (snd (create_live_open_job xe s r (e, f, ma, fa)))"
proof (cases "active_authorization_for s (ac_id ma) (ac_id fa)")
  case (Some p)
  let ?c = "broker_constraints_for (xs_pipe s) (ac_id fa) (rp_symbol r)"
  show ?thesis
  proof (cases "window_refusal p (xe_now xe) \<noteq> None \<or> kill_switch_engaged s \<or>
      open_live_count (xs_copier s) (xs_pipe s) f \<ge> px_max_concurrent p")
    case True
    then show ?thesis using Some by (auto simp: create_live_open_job_def produces_same split: option.split)
  next
    case False
    then have w: "window_refusal p (xe_now xe) = None" "\<not> kill_switch_engaged s"
      "\<not> px_max_concurrent p \<le> open_live_count (xs_copier s) (xs_pipe s) f" by auto
    show ?thesis
    proof (cases "live_size p e f ?c")
      case (Inl why)
      then show ?thesis using Some w by (simp add: create_live_open_job_def produces_same)
    next
      case (Inr vol)
      let ?mark = "\<lambda>x. x\<lparr>rp_status := ExecutionRequested, rp_volume := Some (quantize 3 vol)\<rparr>"
      let ?pay = "live_payload (xe_copier xe) r e p vol (max_lot ?c f)"
      let ?pairs = "map (\<lambda>q. if px_id q = px_id p then consume q else q) (xs_pairs s)"
      obtain resp s' where res: "enqueue xe PlaceOrder fa (ac_terminal_node fa) ?pay (rp_id r) ?mark s = (resp, s')" by fastforce
      have "px_consumed p < px_max_orders p" using w(1) by (simp add: window_refusal_def split: if_splits)
      then have spend: "\<exists>q \<in> set (xs_pairs s). px_consumed q < px_max_orders q \<and>
          map_of ?pay ''copier_live_authorization_id'' = Some (JInt (int (px_id q))) \<and>
          ?pairs = map (\<lambda>y. if px_id y = px_id q then consume y else y) (xs_pairs s)"
        using active_authorizationD(1) [OF Some] by (intro bexI [of _ p]) (simp_all add: live_payload_def open_payload_def)
      have tag: "map_of ?pay ''copier_replication_id'' = Some (JInt (int (rp_id r)))"
        by (simp add: live_payload_def open_payload_def)
      have ty: "right_type r PlaceOrder" using assms(3) by (simp add: right_type_def)
      have pay: "map_of ?pay ''copier_live_authorization_id'' \<noteq> None" by (simp add: live_payload_def open_payload_def)
      have "keeps r ?mark" by (simp add: keeps_def)
      from produces_enqueue [OF assms(1,2) this assms(4) tag ty _ res, of ?pairs] assms(3) spend pay
      have out: "s' = s \<and> resp = NotProduced ''gate'' \<or> (\<exists>j. resp = Produced (Some j)) \<and> produces s (s'\<lparr>xs_pairs := ?pairs\<rparr>)"
        by blast
      have same: "xs_pairs s' = xs_pairs s" using enqueue_result [OF res] by auto
      show ?thesis using out Some w Inr
        by (auto simp: create_live_open_job_def res same Let_def produces_same)
    qed
  qed
qed (simp add: create_live_open_job_def produces_same)

lemma do_open_produces:
  assumes "r \<in> set (kd_replications (xs_copier s))" "admit_open xe s r = Admitted x"
  shows "produces s (snd (do_open xe s r x))"
proof -
  obtain e f ma fa where x: "x = (e, f, ma, fa)" by (cases x)
  note a = admit_openD [OF assms(2) [unfolded x]]
  have "produces s (snd (place_demo_open xe s r e f fa))"
    using assms(1) a
    by (auto intro!: produces_enqueue_demo produces_same simp: place_demo_open_def Let_def keeps_def right_type_def open_payload_def
        split: sum.split prod.split)
  then show ?thesis using create_live_open_produces [OF assms(1) a] by (simp add: do_open_def x)
qed

lemma producers_produce:
  "produces s (snd (produce_one xe0 s0 r xe s))" "produces s (snd (produce_close_one xe0 s0 r xe s))"
  "produces s (snd (produce_modify_one xe0 s0 r xe s))" "produces s (snd (produce_partial_close_one xe0 s0 r xe s))"
  unfolding produce_one_def produce_close_one_def produce_modify_one_def produce_partial_close_one_def
  by (intro with_preflight_produces under_lock_produces do_open_produces do_close_produces do_modify_produces
      do_partial_close_produces; assumption)+
section \<open>What every step keeps\<close>

definition row_kept :: "replication \<Rightarrow> replication \<Rightarrow> bool" where
  "row_kept r r' \<longleftrightarrow>
     rp_id r' = rp_id r \<and> rp_event r' = rp_event r \<and> rp_follower r' = rp_follower r \<and> rp_op r' = rp_op r \<and>
     (rp_op r = ''OPEN'' \<and> rp_ticket r \<noteq> None \<longrightarrow> rp_ticket r' = rp_ticket r) \<and>
     (rp_job r \<noteq> None \<longrightarrow> rp_job r' = rp_job r)"

definition grows :: "copier_db \<Rightarrow> copier_db \<Rightarrow> bool" where
  "grows k k' \<longleftrightarrow>
     (\<forall>i e. event_by_id k i = Some e \<longrightarrow> event_by_id k' i = Some e) \<and>
     (\<forall>i f. follower_by_id k i = Some f \<longrightarrow> follower_by_id k' i = Some f) \<and>
     (\<forall>r \<in> set (kd_replications k). \<exists>r' \<in> set (kd_replications k'). row_kept r r')"

definition replication_ids_ok :: "copier_db \<Rightarrow> bool" where
  "replication_ids_ok k \<longleftrightarrow>
     distinct (map rp_id (kd_replications k)) \<and> (\<forall>r \<in> set (kd_replications k). rp_id r < kd_next_replication k)"

text \<open>Every job of an intent exists and answers it, and every copied order is the job of its intent.\<close>

definition copier_wf :: "exec_state \<Rightarrow> bool" where
  "copier_wf s \<longleftrightarrow>
     replication_ids_ok (xs_copier s) \<and> job_ids_ok (xs_pipe s) \<and>
     (\<forall>r \<in> set (kd_replications (xs_copier s)). \<forall>i. rp_job r = Some i \<longrightarrow>
        (\<exists>j \<in> set (db_jobs (xs_pipe s)). jb_id j = i \<and> job_answers (xs_copier s) r j)) \<and>
     (\<forall>j \<in> set (db_jobs (xs_pipe s)). job_tag j \<noteq> None \<longrightarrow>
        (\<exists>r \<in> set (kd_replications (xs_copier s)). job_tag j = Some (JInt (int (rp_id r))) \<and> rp_job r = Some (jb_id j)))"

definition names_pair :: "nat \<Rightarrow> job \<Rightarrow> bool" where
  "names_pair i j \<longleftrightarrow> job_pair j = Some (JInt (int i))"

text \<open>The orders placed under an authorization are the ones it has spent, and no more than it allows.\<close>

definition pairs_wf :: "exec_state \<Rightarrow> bool" where
  "pairs_wf s \<longleftrightarrow>
     distinct (map px_id (xs_pairs s)) \<and>
     (\<forall>p \<in> set (xs_pairs s). px_consumed p \<le> px_max_orders p \<and>
        length (filter (names_pair (px_id p)) (db_jobs (xs_pipe s))) = px_consumed p) \<and>
     (\<forall>j \<in> set (db_jobs (xs_pipe s)). \<forall>i. names_pair i j \<longrightarrow> (\<exists>p \<in> set (xs_pairs s). px_id p = i))"

lemma row_kept_refl [simp]: "row_kept r r"
  by (simp add: row_kept_def)

lemma grows_refl: "grows k k"
  unfolding grows_def using row_kept_refl by blast

lemma grows_rows:
  assumes "kd_events k' = kd_events k @ new" "kd_followers k' = kd_followers k"
    and "\<And>r. r \<in> set (kd_replications k) \<Longrightarrow> \<exists>r' \<in> set (kd_replications k'). row_kept r r'"
  shows "grows k k'"
  using assms by (auto simp: grows_def event_by_id_def follower_by_id_def find_append split: option.split)

lemma copies_open_grows:
  assumes "grows k k'" "copies_open k r e t" "rp_follower r' = rp_follower r"
  shows "copies_open k' r' e t"
proof -
  from assms(2) obtain x e' where x: "x \<in> set (kd_replications k)" "rp_follower x = rp_follower r" "rp_op x = ''OPEN''"
    "rp_ticket x = Some t" and e': "event_by_id k (rp_event x) = Some e'" "me_master e' = me_master e" "me_ticket e' = me_ticket e"
    unfolding copies_open_def by blast
  from assms(1) x(1) obtain x' where "x' \<in> set (kd_replications k')" "row_kept x x'" unfolding grows_def by blast
  moreover have "event_by_id k' (rp_event x) = Some e'" using assms(1) e'(1) unfolding grows_def by blast
  ultimately show ?thesis using x e' assms(3) unfolding copies_open_def row_kept_def by (intro bexI [of _ x']) auto
qed

lemma job_answers_grows:
  assumes "grows k k'" "row_kept r r'" "job_answers k r j"
    and same: "jb_type j' = jb_type j" "jb_account j' = jb_account j" "jb_payload j' = jb_payload j"
  shows "job_answers k' r' j'"
proof -
  from assms(3) obtain e f where ef: "event_by_id k (rp_event r) = Some e" "follower_by_id k (rp_follower r) = Some f"
    "jb_account j = fo_account f" "job_tag j = Some (JInt (int (rp_id r)))" "right_type r (jb_type j)"
    and t: "rp_op r \<noteq> ''OPEN'' \<longrightarrow> (\<exists>t. map_of (jb_payload j) ''ticket'' = Some (JInt t) \<and> copies_open k r e t)"
    unfolding job_answers_def by blast
  have kept: "rp_id r' = rp_id r" "rp_event r' = rp_event r" "rp_follower r' = rp_follower r" "rp_op r' = rp_op r"
    using assms(2) by (simp_all add: row_kept_def)
  have "event_by_id k' (rp_event r) = Some e" "follower_by_id k' (rp_follower r) = Some f"
    using assms(1) ef(1,2) unfolding grows_def by blast+
  moreover have "right_type r' (jb_type j)" using ef(5) by (simp add: right_type_def kept)
  moreover have "rp_op r' \<noteq> ''OPEN'' \<longrightarrow> (\<exists>t. map_of (jb_payload j) ''ticket'' = Some (JInt t) \<and> copies_open k' r' e t)"
    using t copies_open_grows [OF assms(1) _ kept(3)] kept(4) by metis
  ultimately show ?thesis using ef(3,4) by (simp add: job_answers_def job_tag_def kept same)
qed

definition untagged_new :: "pipe_db \<Rightarrow> pipe_db \<Rightarrow> bool" where
  "untagged_new db db' \<longleftrightarrow>
     (\<forall>j \<in> set (db_jobs db'). db_next_job db \<le> jb_id j \<longrightarrow> job_tag j = None \<and> job_pair j = None)"

lemma copier_wfD:
  assumes "copier_wf s"
  shows "replication_ids_ok (xs_copier s)" "job_ids_ok (xs_pipe s)"
    and "r \<in> set (kd_replications (xs_copier s)) \<Longrightarrow> rp_job r = Some i \<Longrightarrow>
      \<exists>j \<in> set (db_jobs (xs_pipe s)). jb_id j = i \<and> job_answers (xs_copier s) r j"
    and "j \<in> set (db_jobs (xs_pipe s)) \<Longrightarrow> job_tag j \<noteq> None \<Longrightarrow>
      \<exists>r \<in> set (kd_replications (xs_copier s)). job_tag j = Some (JInt (int (rp_id r))) \<and> rp_job r = Some (jb_id j)"
  using assms unfolding copier_wf_def by simp_all

lemma copier_wf_grows:
  assumes wf: "copier_wf s" and ids: "replication_ids_ok (xs_copier s')" and adv: "jobs_advance (xs_pipe s) (xs_pipe s')"
    and new: "untagged_new (xs_pipe s) (xs_pipe s')" and grows: "grows (xs_copier s) (xs_copier s')"
    and rows: "\<And>r'. r' \<in> set (kd_replications (xs_copier s')) \<Longrightarrow> rp_job r' \<noteq> None \<Longrightarrow>
      \<exists>r \<in> set (kd_replications (xs_copier s)). row_kept r r' \<and> rp_job r = rp_job r'"
  shows "copier_wf s'"
proof -
  from adv obtain f n where f: "advances f" "db_jobs (xs_pipe s') = map f (db_jobs (xs_pipe s)) @ n"
    "\<forall>j \<in> set n. db_next_job (xs_pipe s) \<le> jb_id j" unfolding jobs_advance_def by blast
  have fj: "jb_id (f j) = jb_id j" "jb_type (f j) = jb_type j" "jb_account (f j) = jb_account j" "jb_payload (f j) = jb_payload j" for j
    using f(1) by (simp_all add: advances_def)
  have jobs: "job_ids_ok (xs_pipe s')" by (rule jobs_advance_ids [OF adv copier_wfD(2) [OF wf]])
  have owned: "\<exists>j' \<in> set (db_jobs (xs_pipe s')). jb_id j' = i \<and> job_answers (xs_copier s') r' j'"
    if r': "r' \<in> set (kd_replications (xs_copier s'))" "rp_job r' = Some i" for r' i
  proof -
    have "rp_job r' \<noteq> None" using r'(2) by simp
    from rows [OF r'(1) this] obtain r where r: "r \<in> set (kd_replications (xs_copier s))" "row_kept r r'" "rp_job r = rp_job r'"
      by blast
    have "rp_job r = Some i" using r(3) r'(2) by (rule trans)
    from copier_wfD(3) [OF wf r(1) this] obtain j where j: "j \<in> set (db_jobs (xs_pipe s))" "jb_id j = i" "job_answers (xs_copier s) r j"
      by blast
    have "job_answers (xs_copier s') r' (f j)" by (rule job_answers_grows [OF grows r(2) j(3)]) (rule fj)+
    moreover have "f j \<in> set (db_jobs (xs_pipe s'))" using f(2) j(1) by simp
    ultimately show ?thesis using fj(1) j(2) by blast
  qed
  have tagged: "\<exists>r' \<in> set (kd_replications (xs_copier s')). job_tag j' = Some (JInt (int (rp_id r'))) \<and> rp_job r' = Some (jb_id j')"
    if j': "j' \<in> set (db_jobs (xs_pipe s'))" "job_tag j' \<noteq> None" for j'
  proof -
    have "j' \<notin> set n"
    proof
      assume "j' \<in> set n"
      then have "db_next_job (xs_pipe s) \<le> jb_id j'" using f(3) by simp
      with new j'(1) have "job_tag j' = None" by (simp add: untagged_new_def)
      with j'(2) show False by simp
    qed
    moreover have "j' \<in> f ` set (db_jobs (xs_pipe s)) \<union> set n" using j'(1) unfolding f(2) by simp
    ultimately obtain j where j: "j \<in> set (db_jobs (xs_pipe s))" "j' = f j" by blast
    then have same: "job_tag j' = job_tag j" "jb_id j' = jb_id j" by (simp_all add: job_tag_def fj)
    have "job_tag j \<noteq> None" using j'(2) same(1) by simp
    from copier_wfD(4) [OF wf j(1) this] obtain r where r: "r \<in> set (kd_replications (xs_copier s))"
      "job_tag j = Some (JInt (int (rp_id r)))" "rp_job r = Some (jb_id j)" by blast
    from r(1) grows obtain r' where r': "r' \<in> set (kd_replications (xs_copier s'))" "row_kept r r'" unfolding grows_def by blast
    then have "rp_id r' = rp_id r" "rp_job r' = rp_job r" using r(3) by (simp_all add: row_kept_def)
    then show ?thesis using r r' same by (intro bexI [of _ r']) simp_all
  qed
  show ?thesis unfolding copier_wf_def by (intro conjI ballI allI impI ids jobs owned tagged)
qed

lemma row_by_id: "replication_ids_ok k \<Longrightarrow> r \<in> set (kd_replications k) \<Longrightarrow> x \<in> set (kd_replications k) \<Longrightarrow> rp_id x = rp_id r \<Longrightarrow> x = r"
  by (auto simp: replication_ids_ok_def distinct_map inj_on_def)

lemma update_ids:
  assumes "\<And>x. rp_id (g x) = rp_id x"
  shows "replication_ids_ok (update_replication i g k) = replication_ids_ok k"
proof -
  have ids: "map rp_id (kd_replications (update_replication i g k)) = map rp_id (kd_replications k)"
    using assms by (simp add: update_replication_fields)
  have all: "(\<forall>r \<in> set rs. rp_id r < n) \<longleftrightarrow> (\<forall>j \<in> set (map rp_id rs). j < n)" for rs n by simp
  show ?thesis unfolding replication_ids_ok_def all ids by (simp add: update_replication_fields)
qed

lemma update_rows:
  assumes "replication_ids_ok k" "r \<in> set (kd_replications k)" "row_kept r (g r)"
    and x: "x' \<in> set (kd_replications (update_replication (rp_id r) g k))"
  shows "x' = g r \<or> x' \<in> set (kd_replications k) \<and> rp_id x' \<noteq> rp_id r"
  using x row_by_id [OF assms(1,2)] by (auto simp: update_replication_fields split: if_splits)

lemma update_grows:
  assumes "replication_ids_ok k" "r \<in> set (kd_replications k)" "row_kept r (g r)"
  shows "grows k (update_replication (rp_id r) g k)"
proof (rule grows_rows [where new = "[]"])
  fix x assume x: "x \<in> set (kd_replications k)"
  show "\<exists>r' \<in> set (kd_replications (update_replication (rp_id r) g k)). row_kept x r'"
  proof (cases "rp_id x = rp_id r")
    case True
    then have "x = r" using row_by_id [OF assms(1,2) x] by simp
    then show ?thesis using assms(3) x by (intro bexI [of _ "g r"]) (auto simp: update_replication_fields)
  next
    case False
    then show ?thesis using x by (intro bexI [of _ x]) (auto simp: update_replication_fields image_iff intro!: bexI [of _ x])
  qed
qed (simp_all add: update_replication_fields)
lemma produces_wf:
  assumes wf: "copier_wf s" and "produces s s'"
  shows "copier_wf s'"
proof -
  note ids = copier_wfD(1) [OF wf]
  consider "s' = s"
    | (mark) r g where "r \<in> set (kd_replications (xs_copier s))" "keeps r g"
        "s' = s\<lparr>xs_copier := update_replication (rp_id r) g (xs_copier s)\<rparr>"
    | (job) r g j pairs where "r \<in> set (kd_replications (xs_copier s))" "rp_job r = None" "keeps r g"
        "s' = \<lparr>xs_copier = update_replication (rp_id r) (\<lambda>x. (g x)\<lparr>rp_job := Some (jb_id j)\<rparr>) (xs_copier s),
               xs_pipe = append_job j (xs_pipe s), xs_pairs = pairs, xs_kills = xs_kills s\<rparr>"
        "jb_id j = db_next_job (xs_pipe s)" "job_answers (xs_copier s) r j"
    using assms(2) unfolding produces_def by blast
  then show ?thesis
  proof cases
    case 1
    with wf show ?thesis by simp
  next
    case mark
    have kept: "row_kept r (g r)" "rp_job (g r) = rp_job r" using mark(2) by (simp_all add: keeps_def row_kept_def)
    show ?thesis
    proof (rule copier_wf_grows [OF wf])
      show "replication_ids_ok (xs_copier s')" using ids mark(2) by (simp add: mark(3) update_ids keeps_def)
      show "grows (xs_copier s) (xs_copier s')" using update_grows [of "xs_copier s" r g, OF ids mark(1) kept(1)] by (simp add: mark(3))
      show "jobs_advance (xs_pipe s) (xs_pipe s')" by (simp add: mark(3))
      show "untagged_new (xs_pipe s) (xs_pipe s')"
        using copier_wfD(2) [OF wf] by (auto simp: mark(3) untagged_new_def job_ids_ok_def)
      fix r' assume "r' \<in> set (kd_replications (xs_copier s'))"
      then have "r' = g r \<or> r' \<in> set (kd_replications (xs_copier s))"
        using update_rows [of "xs_copier s" r g, OF ids mark(1) kept(1)] by (simp add: mark(3)) blast
      then show "\<exists>r \<in> set (kd_replications (xs_copier s)). row_kept r r' \<and> rp_job r = rp_job r'"
        using mark(1) kept row_kept_refl by metis
    qed
  next
    case job
    let ?g = "\<lambda>x. (g x)\<lparr>rp_job := Some (jb_id j)\<rparr>"
    have kept: "row_kept r (?g r)" using job(2,3) by (simp add: keeps_def row_kept_def)
    have grows: "grows (xs_copier s) (xs_copier s')" using update_grows [of "xs_copier s" r ?g, OF ids job(1) kept] by (simp add: job(4))
    have ids': "replication_ids_ok (xs_copier s')" using ids job(3) by (simp add: job(4) update_ids keeps_def)
    have rows: "r' = ?g r \<or> r' \<in> set (kd_replications (xs_copier s))"
      if "r' \<in> set (kd_replications (xs_copier s'))" for r'
      using that update_rows [of "xs_copier s" r ?g, OF ids job(1) kept] by (simp add: job(4)) blast
    have jobs: "db_jobs (xs_pipe s') = db_jobs (xs_pipe s) @ [j]" by (simp add: job(4))
    have "jobs_advance (xs_pipe s) (xs_pipe s')" using job(5) by (intro jobs_advance_new [where j = j]) (simp_all add: job(4))
    then have jids: "job_ids_ok (xs_pipe s')" by (rule jobs_advance_ids [OF _ copier_wfD(2) [OF wf]])
    have new: "job_answers (xs_copier s') (?g r) j" by (rule job_answers_grows [OF grows kept job(6)]) simp_all
    have gr: "?g r \<in> set (kd_replications (xs_copier s'))" using job(1) by (auto simp: job(4) update_replication_fields)
    have owned: "\<exists>x \<in> set (db_jobs (xs_pipe s')). jb_id x = i \<and> job_answers (xs_copier s') r' x"
      if r': "r' \<in> set (kd_replications (xs_copier s'))" "rp_job r' = Some i" for r' i
      using rows [OF r'(1)]
    proof
      assume "r' = ?g r"
      then show ?thesis using new r'(2) by (simp add: jobs)
    next
      assume old: "r' \<in> set (kd_replications (xs_copier s))"
      from copier_wfD(3) [OF wf old r'(2)] obtain x where "x \<in> set (db_jobs (xs_pipe s))" "jb_id x = i"
        "job_answers (xs_copier s) r' x" by blast
      then show ?thesis using job_answers_grows [OF grows row_kept_refl] by (intro bexI [of _ x]) (simp_all add: jobs)
    qed
    have tagged: "\<exists>r' \<in> set (kd_replications (xs_copier s')). job_tag x = Some (JInt (int (rp_id r'))) \<and> rp_job r' = Some (jb_id x)"
      if x: "x \<in> set (db_jobs (xs_pipe s'))" "job_tag x \<noteq> None" for x
    proof (cases "x = j")
      case True
      have "rp_id (g r) = rp_id r" using job(3) by (simp add: keeps_def)
      then show ?thesis using gr job(6) True by (intro bexI [of _ "?g r"]) (simp_all add: job_answers_def)
    next
      case False
      with x have "x \<in> set (db_jobs (xs_pipe s))" by (simp add: jobs)
      from copier_wfD(4) [OF wf this x(2)] obtain y where y: "y \<in> set (kd_replications (xs_copier s))"
        "job_tag x = Some (JInt (int (rp_id y)))" "rp_job y = Some (jb_id x)" by blast
      from y(1) grows obtain y' where y': "y' \<in> set (kd_replications (xs_copier s'))" "row_kept y y'" unfolding grows_def by blast
      then have "rp_id y' = rp_id y" "rp_job y' = rp_job y" using y(3) by (simp_all add: row_kept_def)
      then show ?thesis using y y' by (intro bexI [of _ y']) simp_all
    qed
    show ?thesis unfolding copier_wf_def by (intro conjI ballI allI impI ids' jids owned tagged)
  qed
qed
lemma names_pair_none: "job_pair j = None \<Longrightarrow> \<not> names_pair i j"
  by (simp add: names_pair_def)

lemma produces_pairs:
  assumes wf: "pairs_wf s" and "produces s s'"
  shows "pairs_wf s'"
proof -
  consider "xs_pairs s' = xs_pairs s \<and> xs_pipe s' = xs_pipe s"
    | (job) j where "xs_pipe s' = append_job j (xs_pipe s)" "spends j s (xs_pairs s')"
    using assms(2) unfolding produces_def by auto
  then show ?thesis
  proof cases
    case 1
    with wf show ?thesis by (simp add: pairs_wf_def)
  next
    case job
    from job(2)[unfolded spends_def] show ?thesis
    proof
      assume "job_pair j = None \<and> xs_pairs s' = xs_pairs s"
      then show ?thesis using wf by (simp add: pairs_wf_def job(1) names_pair_none)
    next
      assume "\<exists>p \<in> set (xs_pairs s). px_consumed p < px_max_orders p \<and> job_pair j = Some (JInt (int (px_id p))) \<and>
        xs_pairs s' = map (\<lambda>q. if px_id q = px_id p then consume q else q) (xs_pairs s)"
      then obtain p where p: "p \<in> set (xs_pairs s)" "px_consumed p < px_max_orders p" "job_pair j = Some (JInt (int (px_id p)))"
        and pairs: "xs_pairs s' = map (\<lambda>q. if px_id q = px_id p then consume q else q) (xs_pairs s)" by blast
      have c: "px_id (consume q) = px_id q" "px_consumed (consume q) = Suc (px_consumed q)" "px_max_orders (consume q) = px_max_orders q" for q
        by (simp_all add: consume_def)
      have names: "names_pair i j \<longleftrightarrow> i = px_id p" for i using p(3) by (auto simp: names_pair_def)
      have same: "q = p" if "q \<in> set (xs_pairs s)" "px_id q = px_id p" for q
        using that wf p(1) by (auto simp: pairs_wf_def distinct_map inj_on_def)
      have ids: "map px_id (xs_pairs s') = map px_id (xs_pairs s)" by (simp add: pairs c)
      have old: "px_consumed q \<le> px_max_orders q" "length (filter (names_pair (px_id q)) (db_jobs (xs_pipe s))) = px_consumed q"
        if "q \<in> set (xs_pairs s)" for q using wf that by (simp_all add: pairs_wf_def)
      have "px_consumed q' \<le> px_max_orders q' \<and> length (filter (names_pair (px_id q')) (db_jobs (xs_pipe s'))) = px_consumed q'"
        if "q' \<in> set (xs_pairs s')" for q'
      proof -
        from that obtain q where q: "q \<in> set (xs_pairs s)" "q' = (if px_id q = px_id p then consume q else q)" by (auto simp: pairs)
        show ?thesis
        proof (cases "px_id q = px_id p")
          case True
          then have "q = p" using same q(1) by blast
          then show ?thesis using q p(2) old [OF p(1)] by (simp add: c job(1) names)
        next
          case False
          then show ?thesis using q old [OF q(1)] by (simp add: job(1) names)
        qed
      qed
      moreover have "\<exists>q \<in> set (xs_pairs s'). px_id q = i" if "x \<in> set (db_jobs (xs_pipe s'))" "names_pair i x" for x i
      proof -
        have "\<exists>q \<in> set (xs_pairs s). px_id q = i"
        proof (cases "x = j")
          case True
          with that(2) p(1) show ?thesis by (auto simp: names)
        next
          case False
          with that(1) have "x \<in> set (db_jobs (xs_pipe s))" by (simp add: job(1))
          with that(2) wf show ?thesis unfolding pairs_wf_def by blast
        qed
        then have "i \<in> px_id ` set (xs_pairs s)" by auto
        then have "i \<in> set (map px_id (xs_pairs s'))" unfolding ids by simp
        then show ?thesis by auto
      qed
      moreover have "distinct (map px_id (xs_pairs s'))" unfolding ids using wf by (simp add: pairs_wf_def)
      ultimately show ?thesis unfolding pairs_wf_def by blast
    qed
  qed
qed

text \<open>Steps of the ledger that give no row a job.\<close>

definition ledger_step :: "copier_db \<Rightarrow> copier_db \<Rightarrow> bool" where
  "ledger_step k k' \<longleftrightarrow>
     grows k k' \<and> (replication_ids_ok k \<longrightarrow> replication_ids_ok k') \<and>
     (\<forall>r' \<in> set (kd_replications k'). rp_job r' \<noteq> None \<longrightarrow>
        (\<exists>r \<in> set (kd_replications k). row_kept r r' \<and> rp_job r = rp_job r'))"

lemma row_kept_trans: "row_kept a b \<Longrightarrow> row_kept b c \<Longrightarrow> row_kept a c"
  by (auto simp: row_kept_def)

lemma ledger_step_refl: "ledger_step k k"
  unfolding ledger_step_def using grows_refl row_kept_refl by blast

lemma grows_trans: "grows a b \<Longrightarrow> grows b c \<Longrightarrow> grows a c"
  unfolding grows_def by (meson row_kept_trans)

lemma ledger_step_trans:
  assumes "ledger_step a b" "ledger_step b c"
  shows "ledger_step a c"
proof -
  have "\<exists>r \<in> set (kd_replications a). row_kept r r' \<and> rp_job r = rp_job r'"
    if r': "r' \<in> set (kd_replications c)" "rp_job r' \<noteq> None" for r'
  proof -
    from assms(2) r' obtain r1 where r1: "r1 \<in> set (kd_replications b)" "row_kept r1 r'" "rp_job r1 = rp_job r'"
      unfolding ledger_step_def by blast
    then have "rp_job r1 \<noteq> None" using r'(2) by simp
    with assms(1) r1(1) obtain r where "r \<in> set (kd_replications a)" "row_kept r r1" "rp_job r = rp_job r1"
      unfolding ledger_step_def by blast
    then show ?thesis using r1 row_kept_trans by (intro bexI [of _ r]) auto
  qed
  then show ?thesis using assms grows_trans unfolding ledger_step_def by blast
qed

lemma ledger_step_fold: "(\<And>x k. ledger_step k (h x k)) \<Longrightarrow> ledger_step k (fold h xs k)"
  by (induction xs arbitrary: k) (auto intro: ledger_step_refl ledger_step_trans)

lemma update_ledger_step:
  assumes "\<And>x. row_kept x (g x) \<and> rp_job (g x) = rp_job x"
  shows "ledger_step k (update_replication i g k)"
  unfolding ledger_step_def
proof (intro conjI ballI impI)
  have "\<exists>r' \<in> set (kd_replications (update_replication i g k)). row_kept r r'" if "r \<in> set (kd_replications k)" for r
    using that assms by (intro bexI [of _ "if rp_id r = i then g r else r"]) (auto simp: update_replication_fields)
  then show "grows k (update_replication i g k)"
    by (intro grows_rows [where new = "[]"]) (simp_all add: update_replication_fields)
  have "rp_id (g x) = rp_id x" for x using assms by (simp add: row_kept_def)
  then show "replication_ids_ok k \<Longrightarrow> replication_ids_ok (update_replication i g k)" by (simp add: update_ids)
  fix r' assume "r' \<in> set (kd_replications (update_replication i g k))"
  then obtain r where "r \<in> set (kd_replications k)" "r' = (if rp_id r = i then g r else r)"
    by (auto simp: update_replication_fields)
  then show "\<exists>r \<in> set (kd_replications k). row_kept r r' \<and> rp_job r = rp_job r'" using assms by (intro bexI [of _ r]) auto
qed

lemma reconcile_row_step: "ledger_step k (reconcile_row ps i k)"
  unfolding reconcile_row_def by (rule update_ledger_step) (simp add: row_kept_def split: list.split)

lemma record_replication_step: "rp_job r = None \<Longrightarrow> ledger_step k (record_replication r k)"
proof -
  assume none: "rp_job r = None"
  show ?thesis
  proof (cases "replicated k (rp_event r) (rp_follower r)")
    case False
    let ?k = "record_replication r k"
    have reps: "kd_replications ?k = kd_replications k @ [r\<lparr>rp_id := kd_next_replication k\<rparr>]"
      "kd_next_replication ?k = Suc (kd_next_replication k)" using False by (simp_all add: record_replication_def)
    have "grows k ?k"
    proof (rule grows_rows [where new = "[]"])
      fix x assume "x \<in> set (kd_replications k)"
      then show "\<exists>r' \<in> set (kd_replications ?k). row_kept x r'" unfolding reps by (intro bexI [of _ x]) simp_all
    qed simp_all
    moreover have "replication_ids_ok k \<longrightarrow> replication_ids_ok ?k"
      by (auto simp: replication_ids_ok_def reps less_Suc_eq)
    moreover have "\<exists>x \<in> set (kd_replications k). row_kept x r' \<and> rp_job x = rp_job r'"
      if "r' \<in> set (kd_replications ?k)" "rp_job r' \<noteq> None" for r'
    proof -
      have "r' \<in> set (kd_replications k)" using that none by (auto simp: reps)
      then show ?thesis using row_kept_refl by blast
    qed
    ultimately show ?thesis unfolding ledger_step_def by blast
  qed (simp add: record_replication_def ledger_step_refl)
qed

lemma replicate_step: "ledger_step k (replicate_master_event ke env db e k)"
proof -
  have "ledger_step k (replicate_one ke env db e f k)" for f k
    using record_replication_step intent_row(3)
    by (auto simp: replicate_one_def ledger_step_refl split: option.split)
  then show ?thesis unfolding replicate_master_event_def by (rule ledger_step_fold)
qed

lemma observe_step: "ledger_step k (observe_act a k)"
proof -
  have frame: "kd_replications (observe_act a k) = kd_replications k \<and> kd_followers (observe_act a k) = kd_followers k \<and>
      kd_next_replication (observe_act a k) = kd_next_replication k \<and> (\<exists>new. kd_events (observe_act a k) = kd_events k @ new)"
    by (cases a) (auto simp: claim_observation_lease_def release_observation_lease_def record_observation_def
        store_observation_def update_master_def Let_def split: option.split)
  then have "grows k (observe_act a k)" by (auto intro!: grows_rows intro: row_kept_refl)
  moreover have "replication_ids_ok k \<longrightarrow> replication_ids_ok (observe_act a k)" using frame by (simp add: replication_ids_ok_def)
  moreover have "\<exists>r \<in> set (kd_replications k). row_kept r r' \<and> rp_job r = rp_job r'"
    if "r' \<in> set (kd_replications (observe_act a k))" for r' using that frame row_kept_refl by metis
  ultimately show ?thesis unfolding ledger_step_def by blast
qed

lemma ledger_step_wf:
  assumes "copier_wf s" "ledger_step (xs_copier s) k"
  shows "copier_wf (s\<lparr>xs_copier := k\<rparr>)"
proof (rule copier_wf_grows [OF assms(1)])
  show "untagged_new (xs_pipe s) (xs_pipe (s\<lparr>xs_copier := k\<rparr>))"
    using copier_wfD(2) [OF assms(1)] by (auto simp: untagged_new_def job_ids_ok_def)
qed (use assms copier_wfD(1) [OF assms(1)] in \<open>simp_all add: ledger_step_def\<close>)
section \<open>Steps\<close>

text \<open>
  What can happen to the copier's tables, in any order: productions with any earlier reading, reconciliations,
  new intents, observations, whatever the queue does to jobs, and the operator's grants, revocations and kill
  switches.
\<close>

inductive copier_step :: "exec_state \<Rightarrow> exec_state \<Rightarrow> bool" where
  StepOpen: "copier_step s (snd (produce_one xe0 s0 r xe s))"
| StepClose: "copier_step s (snd (produce_close_one xe0 s0 r xe s))"
| StepModify: "copier_step s (snd (produce_modify_one xe0 s0 r xe s))"
| StepPartial: "copier_step s (snd (produce_partial_close_one xe0 s0 r xe s))"
| StepReconcile: "copier_step s (reconcile_follower xe f s)"
| StepRemaining: "copier_step s (reconcile_partial_close xe i v step s)"
| StepReplicate: "copier_step s (s\<lparr>xs_copier := replicate_master_event ke env db e (xs_copier s)\<rparr>)"
| StepObserve: "copier_step s (s\<lparr>xs_copier := observe_act a (xs_copier s)\<rparr>)"
| StepQueue: "jobs_advance (xs_pipe s) db \<Longrightarrow> untagged_new (xs_pipe s) db \<Longrightarrow> copier_step s (s\<lparr>xs_pipe := db\<rparr>)"
| StepGrant: "px_consumed p = 0 \<Longrightarrow> px_id p \<notin> px_id ` set (xs_pairs s) \<Longrightarrow> copier_step s (s\<lparr>xs_pairs := xs_pairs s @ [p]\<rparr>)"
| StepRevoke: "copier_step s (s\<lparr>xs_pairs := map (\<lambda>p. if px_id p = i
      then p\<lparr>px_status := PairRevoked, px_revoked_at := Some t\<rparr> else p) (xs_pairs s)\<rparr>)"
| StepKill: "copier_step s (s\<lparr>xs_kills := kills\<rparr>)"

definition fresh_exec :: "exec_state \<Rightarrow> bool" where
  "fresh_exec s \<longleftrightarrow>
     kd_replications (xs_copier s) = [] \<and> xs_pairs s = [] \<and> job_ids_ok (xs_pipe s) \<and>
     list_all (\<lambda>j. job_tag j = None \<and> job_pair j = None) (db_jobs (xs_pipe s))"

lemma fresh_wf: "fresh_exec s \<Longrightarrow> copier_wf s \<and> pairs_wf s"
  by (auto simp: fresh_exec_def copier_wf_def pairs_wf_def replication_ids_ok_def list_all_iff names_pair_none)

text \<open>Every step is a production, a step of the ledger, or leaves ledger and jobs alone.\<close>

lemma reconcile_follower_frame:
  "\<exists>k. ledger_step (xs_copier s) k \<and> reconcile_follower xe f s = s\<lparr>xs_copier := k\<rparr>"
proof -
  have same: "\<exists>k. ledger_step (xs_copier s) k \<and> s = s\<lparr>xs_copier := k\<rparr>"
    by (intro exI [of _ "xs_copier s"]) (simp add: ledger_step_refl)
  have "\<exists>k. ledger_step (xs_copier s) k \<and> s\<lparr>xs_copier := fold (reconcile_row ps) ids (xs_copier s)\<rparr> = s\<lparr>xs_copier := k\<rparr>" for ps ids
    using ledger_step_fold [of "reconcile_row ps"] reconcile_row_step by blast
  then show ?thesis using same by (auto simp: reconcile_follower_def Let_def split: option.split sum.split)
qed

lemma reconcile_partial_frame:
  "\<exists>k. ledger_step (xs_copier s) k \<and> reconcile_partial_close xe i v step s = s\<lparr>xs_copier := k\<rparr>"
proof -
  have same: "\<exists>k. ledger_step (xs_copier s) k \<and> s = s\<lparr>xs_copier := k\<rparr>"
    by (intro exI [of _ "xs_copier s"]) (simp add: ledger_step_refl)
  have "\<exists>k. ledger_step (xs_copier s) k \<and>
      s\<lparr>xs_copier := update_replication i (\<lambda>y. y\<lparr>rp_recon := st\<rparr>) (xs_copier s)\<rparr> = s\<lparr>xs_copier := k\<rparr>" for st
    using update_ledger_step [of "\<lambda>y. y\<lparr>rp_recon := st\<rparr>" "xs_copier s" i] by (auto simp: row_kept_def)
  then show ?thesis using same by (auto simp: reconcile_partial_close_def split: option.split)
qed

lemma copier_step_cases:
  assumes "copier_step s s'"
  obtains (produced) "produces s s'"
    | (ledger) k where "ledger_step (xs_copier s) k" "s' = s\<lparr>xs_copier := k\<rparr>"
    | (queue) db where "jobs_advance (xs_pipe s) db" "untagged_new (xs_pipe s) db" "s' = s\<lparr>xs_pipe := db\<rparr>"
    | (grant) p where "px_consumed p = 0" "px_id p \<notin> px_id ` set (xs_pairs s)" "s' = s\<lparr>xs_pairs := xs_pairs s @ [p]\<rparr>"
    | (other) ps kills where "map (\<lambda>p. (px_id p, px_consumed p, px_max_orders p)) ps =
          map (\<lambda>p. (px_id p, px_consumed p, px_max_orders p)) (xs_pairs s)" "s' = s\<lparr>xs_pairs := ps, xs_kills := kills\<rparr>"
  using assms
proof cases
  case (StepRevoke i t)
  let ?ps = "map (\<lambda>p. if px_id p = i then p\<lparr>px_status := PairRevoked, px_revoked_at := Some t\<rparr> else p) (xs_pairs s)"
  have "s' = s\<lparr>xs_pairs := ?ps, xs_kills := xs_kills s\<rparr>" using StepRevoke by simp
  then show thesis by (intro other [of ?ps "xs_kills s"]) simp_all
next
  case (StepKill kills)
  then have "s' = s\<lparr>xs_pairs := xs_pairs s, xs_kills := kills\<rparr>" by simp
  then show thesis by (intro other [of "xs_pairs s" kills]) simp_all
next
  case (StepReconcile xe f)
  then show thesis using reconcile_follower_frame [of s xe f] ledger by metis
next
  case (StepRemaining xe i v step)
  then show thesis using reconcile_partial_frame [of s xe i v step] ledger by metis
next
  case (StepReplicate ke env db e)
  then show thesis using replicate_step ledger by metis
next
  case (StepObserve a)
  then show thesis using observe_step ledger by metis
next
  case (StepQueue db)
  then show thesis by (intro queue)
next
  case (StepGrant p)
  then show thesis by (intro grant)
qed (rule produced, simp only: producers_produce)+

lemma queue_wf:
  assumes "copier_wf s" "jobs_advance (xs_pipe s) db" "untagged_new (xs_pipe s) db"
  shows "copier_wf (s\<lparr>xs_pipe := db\<rparr>)"
proof (rule copier_wf_grows [OF assms(1)])
  fix r' assume "r' \<in> set (kd_replications (xs_copier (s\<lparr>xs_pipe := db\<rparr>)))"
  then show "\<exists>r \<in> set (kd_replications (xs_copier s)). row_kept r r' \<and> rp_job r = rp_job r'"
    by (intro bexI [of _ r']) simp_all
qed (use assms(2,3) copier_wfD(1) [OF assms(1)] grows_refl in simp_all)

lemma queue_pairs:
  assumes "pairs_wf s" "jobs_advance (xs_pipe s) db" "untagged_new (xs_pipe s) db"
  shows "pairs_wf (s\<lparr>xs_pipe := db\<rparr>)"
proof -
  from assms(2) obtain f n where f: "advances f" "db_jobs db = map f (db_jobs (xs_pipe s)) @ n"
    "\<forall>j \<in> set n. db_next_job (xs_pipe s) \<le> jb_id j" unfolding jobs_advance_def by blast
  have "names_pair i (f j) = names_pair i j" for i j using f(1) by (simp add: advances_def names_pair_def job_pair_def)
  then have old: "filter (names_pair i) (map f js) = map f (filter (names_pair i) js)" for i js
    by (simp add: filter_map comp_def)
  have no: "\<not> names_pair i j" if "j \<in> set n" for i j
  proof -
    have "db_next_job (xs_pipe s) \<le> jb_id j" "j \<in> set (db_jobs db)" using that f(2,3) by simp_all
    then show ?thesis using assms(3) by (simp add: untagged_new_def names_pair_none)
  qed
  then have "filter (names_pair i) n = []" for i by (simp add: filter_empty_conv)
  then have count: "length (filter (names_pair i) (db_jobs db)) = length (filter (names_pair i) (db_jobs (xs_pipe s)))" for i
    by (simp add: f(2) old)
  have named: "\<exists>x \<in> set (db_jobs (xs_pipe s)). names_pair i x" if "j \<in> set (db_jobs db)" "names_pair i j" for i j
  proof -
    have "filter (names_pair i) (db_jobs db) \<noteq> []" using that by (auto simp: filter_empty_conv)
    then have "filter (names_pair i) (db_jobs (xs_pipe s)) \<noteq> []" using count [of i] by (metis length_0_conv)
    then show ?thesis by (auto simp: filter_empty_conv)
  qed
  show ?thesis using assms(1) named unfolding pairs_wf_def by (simp add: count) blast
qed

lemma copier_step_wf:
  assumes "copier_step s s'" "copier_wf s \<and> pairs_wf s"
  shows "copier_wf s' \<and> pairs_wf s'"
  using assms(1)
proof (cases rule: copier_step_cases)
  case produced
  then show ?thesis using assms(2) produces_wf produces_pairs by blast
next
  case (ledger k)
  then show ?thesis using assms(2) ledger_step_wf by (simp add: pairs_wf_def)
next
  case (queue db)
  then show ?thesis using assms(2) queue_wf queue_pairs by simp
next
  case (grant p)
  have "\<not> names_pair (px_id p) j" if mem: "j \<in> set (db_jobs (xs_pipe s))" for j
  proof
    assume "names_pair (px_id p) j"
    then obtain q where "q \<in> set (xs_pairs s)" "px_id q = px_id p" using mem assms(2) unfolding pairs_wf_def by blast
    then show False using grant(2) by (metis image_eqI)
  qed
  then have none: "filter (names_pair (px_id p)) (db_jobs (xs_pipe s)) = []" by (simp add: filter_empty_conv)
  have "pairs_wf s'" using assms(2) grant none by (auto simp: pairs_wf_def)
  then show ?thesis using assms(2) grant(3) by (simp add: copier_wf_def)
next
  case (other ps kills)
  let ?v = "\<lambda>p. (px_id p, px_consumed p, px_max_orders p)"
  have v: "set (map ?v ps) = set (map ?v (xs_pairs s))" by (simp only: other(1))
  have "map px_id ps = map fst (map ?v ps)" by simp
  then have ids: "map px_id ps = map px_id (xs_pairs s)" unfolding other(1) by simp
  have "\<exists>q \<in> set (xs_pairs s). ?v q = ?v p" if mem: "p \<in> set ps" for p
  proof -
    have "?v p \<in> set (map ?v (xs_pairs s))" using mem unfolding v [symmetric] by simp
    then obtain q where "q \<in> set (xs_pairs s)" "?v p = ?v q" unfolding set_map by (rule imageE)
    then show ?thesis by (intro bexI [of _ q]) (simp_all only: prod.inject)
  qed
  then have "\<forall>p \<in> set ps. px_consumed p \<le> px_max_orders p \<and>
      length (filter (names_pair (px_id p)) (db_jobs (xs_pipe s))) = px_consumed p"
    using assms(2) unfolding pairs_wf_def by (metis prod.inject)
  moreover have "px_id ` set ps = px_id ` set (xs_pairs s)" using ids by (metis set_map)
  moreover have "\<exists>p \<in> set ps. px_id p = i" if "j \<in> set (db_jobs (xs_pipe s))" "names_pair i j" for i j
  proof -
    have "i \<in> px_id ` set (xs_pairs s)" using assms(2) that unfolding pairs_wf_def by blast
    then show ?thesis using calculation(2) by (metis imageE)
  qed
  ultimately have "pairs_wf s'" using assms(2) ids by (simp add: pairs_wf_def other(2))
  then show ?thesis using assms(2) other(2) by (simp add: copier_wf_def)
qed

interpretation tables: step_invariant copier_step "\<lambda>s. copier_wf s \<and> pairs_wf s"
  by unfold_locales (rule copier_step_wf)

lemmas copier_run_wf = tables.run

lemma copier_run_grows: "copier_step\<^sup>*\<^sup>* s s' \<Longrightarrow> copier_wf s \<and> pairs_wf s \<Longrightarrow> grows (xs_copier s) (xs_copier s')"
proof (induction rule: rtranclp_induct)
  case base
  then show ?case by (simp add: grows_refl)
next
  case (step y z)
  have wf: "copier_wf y" using copier_run_wf [OF step(1) step.prems] by blast
  from step(2) have "grows (xs_copier y) (xs_copier z)"
  proof (cases rule: copier_step_cases)
    case produced
    note ids = copier_wfD(1) [OF wf]
    from produced show ?thesis unfolding produces_def
    proof (elim disjE exE conjE)
      fix r g assume "r \<in> set (kd_replications (xs_copier y))" "keeps r g"
        "z = y\<lparr>xs_copier := update_replication (rp_id r) g (xs_copier y)\<rparr>"
      then show ?thesis using update_grows [of "xs_copier y" r g, OF ids] by (simp add: keeps_def row_kept_def)
    next
      fix r g j pairs assume r: "r \<in> set (kd_replications (xs_copier y))" "rp_job r = None" "keeps r g"
        and z: "z = \<lparr>xs_copier = update_replication (rp_id r) (\<lambda>x. (g x)\<lparr>rp_job := Some (jb_id j)\<rparr>) (xs_copier y),
              xs_pipe = append_job j (xs_pipe y), xs_pairs = pairs, xs_kills = xs_kills y\<rparr>"
      then show ?thesis using update_grows [of "xs_copier y" r "\<lambda>x. (g x)\<lparr>rp_job := Some (jb_id j)\<rparr>", OF ids]
        by (simp add: keeps_def row_kept_def)
    qed (simp add: grows_refl)
  qed (simp_all add: grows_refl ledger_step_def)
  with step.IH [OF step.prems] show ?case by (rule grows_trans)
qed

text \<open>What a reconciliation may do to one row.\<close>

definition proven_by :: "observed_position list \<Rightarrow> nat set \<Rightarrow> replication \<Rightarrow> replication \<Rightarrow> bool" where
  "proven_by ps ids r r' \<longleftrightarrow>
     rp_id r' = rp_id r \<and>
     (r' = r \<or>
      rp_ticket r = None \<and>
        (rp_ticket r' = None \<or>
         (\<exists>t. rp_id r \<in> ids \<and> tickets_of ps (rp_id r) = [t] \<and> rp_ticket r' = Some t \<and> rp_recon r' = ''MATCHED'')))"

lemma reconcile_row_proven:
  assumes "r' \<in> set (kd_replications (reconcile_row ps i k))"
  shows "\<exists>r \<in> set (kd_replications k). proven_by ps {i} r r'"
proof -
  from assms obtain r where r: "r \<in> set (kd_replications k)" and r': "r' = (if rp_id r = i then (if rp_ticket r \<noteq> None then r
       else case tickets_of ps i of
         [t] \<Rightarrow> r\<lparr>rp_ticket := Some t, rp_recon := ''MATCHED''\<rparr>
       | [] \<Rightarrow> r\<lparr>rp_recon := ''UNMATCHED''\<rparr>
       | _ \<Rightarrow> r\<lparr>rp_recon := ''AMBIGUOUS''\<rparr>) else r)"
    by (auto simp: reconcile_row_def update_replication_fields)
  have "proven_by ps {i} r r'" unfolding r' proven_by_def by (auto split: list.split)
  with r show ?thesis by blast
qed

lemma reconcile_rows_proven:
  assumes "r' \<in> set (kd_replications (fold (reconcile_row ps) ids k))"
  shows "\<exists>r \<in> set (kd_replications k). proven_by ps (set ids) r r'"
  using assms
proof (induction ids arbitrary: k)
  case Nil
  then show ?case by (auto simp: proven_by_def)
next
  case (Cons i ids)
  then obtain r1 where r1: "r1 \<in> set (kd_replications (reconcile_row ps i k))" "proven_by ps (set ids) r1 r'" by auto
  from reconcile_row_proven [OF r1(1)] obtain r where r: "r \<in> set (kd_replications k)" "proven_by ps {i} r r1" by blast
  have "proven_by ps (set (i # ids)) r r'" using r(2) r1(2) by (auto simp: proven_by_def)
  with r(1) show ?case by blast
qed

section \<open>Properties of the copied orders\<close>



section \<open>Orders without a node\<close>

definition routes_all :: "exec_state \<Rightarrow> bool" where
  "routes_all s \<longleftrightarrow> list_all routes (db_jobs (xs_pipe s))"

lemma copier_step_routes:
  assumes "copier_step s s'" "routes_all s"
  shows "routes_all s'"
  using assms(1)
proof (cases rule: copier_step_cases)
  case produced
  then show ?thesis using assms(2) unfolding produces_def routes_all_def by (auto simp: list_all_iff)
next
  case (queue db)
  from queue(1) obtain f n where f: "advances f" "db_jobs db = map f (db_jobs (xs_pipe s)) @ n"
    "\<forall>j \<in> set n. db_next_job (xs_pipe s) \<le> jb_id j" unfolding jobs_advance_def by blast
  have "routes (f j) = routes j" for j using f(1) by (simp add: advances_def routes_def job_tag_def job_pair_def)
  moreover have "routes j" if mem: "j \<in> set n" for j
  proof -
    have "db_next_job (xs_pipe s) \<le> jb_id j" "j \<in> set (db_jobs db)" using mem f(2,3) by simp_all
    then show ?thesis using queue(2) by (simp add: untagged_new_def routes_def)
  qed
  ultimately show ?thesis using assms(2) by (auto simp: queue(3) routes_all_def f(2) list_all_iff)
qed (use assms(2) in \<open>simp_all add: routes_all_def\<close>)

interpretation routing: step_invariant copier_step routes_all
  by unfold_locales (rule copier_step_routes)

lemmas copier_run_routes = routing.run

text \<open>
  Copied opens, closes and modifications of demo followers carry no node, so no
  worker with nodes of its own ever sees them, and for a hosted account the claim of any other worker is refused:
  in every history they are stranded, where the node is asked for.
\<close>

theorem copied_orders_are_stranded:
  assumes "fresh_exec s0" "copier_step\<^sup>*\<^sup>* s0 s" "j \<in> set (db_jobs (xs_pipe s))"
    and "job_tag j \<noteq> None" "job_pair j = None" "jb_type j \<noteq> PartialCloseTrade"
  shows "jb_node j = None \<and>
    (worker_authorized_nodes (worker_of c) \<noteq> [] \<longrightarrow> \<not> claimable qe env c q j) \<and>
    (jb_type j \<in> identity_pin_types \<and> st_hosted (pe_settings env) \<and>
     (\<exists>a. account_by_id env (jb_account j) = Some a \<and> is_hosted_workspace_account (pe_settings env) a) \<longrightarrow>
       claim_gates env c j \<noteq> GatePasses)"
proof -
  have "routes_all s0" using assms(1) by (auto simp: routes_all_def fresh_exec_def list_all_iff routes_def)
  then have "routes_all s" using copier_run_routes [OF assms(2)] by blast
  then have node: "jb_node j = None" using assms(3-6) by (auto simp: routes_all_def list_all_iff routes_def)
  moreover have "\<not> claimable qe env c q j" if "worker_authorized_nodes (worker_of c) \<noteq> []"
    using node that by (simp add: claimable_def Let_def)
  moreover have "claim_gates env c j \<noteq> GatePasses"
    if pin: "jb_type j \<in> identity_pin_types" "st_hosted (pe_settings env)"
      and a: "account_by_id env (jb_account j) = Some a" "is_hosted_workspace_account (pe_settings env) a" for a
  proof -
    have refused: "\<not> rt_ok r"
      if "authorize_hosted_claim (pe_settings env) (pe_fleet env) a (jb_node j) w = Some r" for w r
      using that pin(2) a(2) by (auto simp: authorize_hosted_claim_def node refuse_route_def split: option.splits if_splits)
    show ?thesis
    proof (cases "authorize_hosted_claim (pe_settings env) (pe_fleet env) a (jb_node j)
        (worker_authorized_nodes (worker_of c) \<noteq> [])")
      case None
      then show ?thesis using pin a by (simp add: claim_gates_def Let_def case_prod_beta)
    next
      case (Some r)
      then show ?thesis using pin a refused [OF Some] by (simp add: claim_gates_def Let_def case_prod_beta)
    qed
  qed
  ultimately show ?thesis by blast
qed

section \<open>The stop guard\<close>

text \<open>
  The guard against weakening a stop measures the distance to the entry and not the
  side. For a long position whose stop was and stays below the entry it admits exactly the moves that do not lower
  the stop by more than the tolerance. Once the stop is above the entry it is the wrong way round: a move down
  that comes back towards the entry is admitted although it gives up protection, and every move up is refused.
\<close>

theorem stop_guard_only_knows_the_loss_side:
  assumes "me_type e = Some EvSlChange" "me_new_sl e = Some new" "price_eps < new" "me_prev_sl e = Some prev" "price_eps < prev"
    and "snapshot_position k e = Some p" "op_price_open p = Some entry" "price_eps < entry"
  shows "(prev \<le> entry \<and> new \<le> entry \<longrightarrow> (sl_weakening_reason k e = None \<longleftrightarrow> prev - price_eps \<le> new)) \<and>
    (entry < prev \<and> entry \<le> new \<and> new < prev \<longrightarrow> sl_weakening_reason k e = None) \<and>
    (entry < prev \<and> prev + price_eps < new \<longrightarrow> sl_weakening_reason k e = Some ''sl_widening_not_auto_replicated'')"
proof -
  have pos: "0 < price_eps" by (simp add: price_eps_def)
  have "kept_level (Some entry) = Some entry" "kept_level (Some prev) = Some prev" "\<not> \<bar>new\<bar> \<le> price_eps"
    using assms(3,5,8) pos by (simp_all add: kept_level_def has_level_def)
  then have "sl_weakening_reason k e =
      (if \<bar>entry - new\<bar> > \<bar>entry - prev\<bar> + price_eps then Some ''sl_widening_not_auto_replicated'' else None)"
    by (simp add: sl_weakening_reason_def assms)
  then show ?thesis using pos by auto
qed

section \<open>Partial closes\<close>

lemma quantize_grid:
  assumes "x * 10 ^ k = of_int n"
  shows "quantize k x = x"
proof -
  have "round_even (x * 10 ^ k) = n" unfolding assms by (simp add: round_even_def)
  then show ?thesis unfolding quantize_def using assms by (simp add: field_simps)
qed

text \<open>
  An accepted partial close is a whole number of lot steps, at least the broker's
  minimum, leaves at least the minimum, and is the master's proportion rounded down: less than one step under
  it, and above it by at most a billionth of a step. Steps and volumes are multiples of a hundred-millionth.
\<close>

theorem partial_reduction_is_sound:
  assumes "partial_reduction mb ma cur c = Inr (reduction, remaining)"
    and "bc_lot_step c * 10 ^ 8 = of_int a" "cur * 10 ^ 8 = of_int b"
  shows "(\<exists>n > 0. reduction = of_nat n * bc_lot_step c) \<and> remaining = cur - reduction \<and>
    bc_min_volume c \<le> reduction \<and> bc_min_volume c \<le> remaining \<and> 0 < ma \<and> ma < mb \<and>
    reduction \<le> (mb - ma) / mb * cur + bc_lot_step c / 10 ^ 9 \<and> (mb - ma) / mb * cur < reduction + bc_lot_step c"
proof -
  let ?step = "bc_lot_step c" and ?raw = "(mb - ma) / mb * cur"
  let ?m = "\<lfloor>?raw / ?step + 1 / 10 ^ 9\<rfloor>"
  from assms(1) have c: "0 < mb" "0 \<le> ma" "ma < mb" "0 < (mb - ma) / mb" "(mb - ma) / mb < 1" "0 < cur" "0 < ?step" "0 < bc_min_volume c"
    and red: "reduction = quantize 8 (of_int ?m * ?step)" "0 < reduction" "bc_min_volume c \<le> reduction"
    and rem: "remaining = quantize 8 (cur - reduction)" "bc_min_volume c \<le> remaining"
    by (auto simp: partial_reduction_def Let_def not_less not_le split: if_splits)
  have grid: "of_int ?m * ?step * 10 ^ 8 = of_int (?m * a)" using assms(2) by (simp add: mult.assoc)
  have red': "reduction = of_int ?m * ?step" unfolding red(1) by (rule quantize_grid [OF grid])
  have "(cur - reduction) * 10 ^ 8 = of_int (b - ?m * a)"
    unfolding red' using assms(3) grid by (simp add: left_diff_distrib)
  then have rem': "remaining = cur - reduction" unfolding rem(1) by (rule quantize_grid)
  have m: "0 < ?m" using red(2) c(7) unfolding red' by (simp add: zero_less_mult_iff)
  have lo: "of_int ?m \<le> ?raw / ?step + 1 / 10 ^ 9" and hi: "?raw / ?step + 1 / 10 ^ 9 < of_int ?m + 1" by linarith+
  have "of_int ?m * ?step \<le> (?raw / ?step + 1 / 10 ^ 9) * ?step" using lo c(7) by (intro mult_right_mono) simp_all
  then have "reduction \<le> ?raw + ?step / 10 ^ 9" unfolding red' using c(7) by (simp add: distrib_right)
  moreover have "(?raw / ?step) * ?step < (of_int ?m + 1) * ?step"
    using hi c(7) by (intro mult_strict_right_mono) simp_all
  then have "?raw < reduction + ?step" unfolding red' using c(7) by (simp add: distrib_right)
  moreover have "0 < ma" using c(1,2,5) by (cases "ma = 0") simp_all
  moreover have "reduction = of_nat (nat ?m) * ?step" "0 < nat ?m" using m unfolding red' by simp_all
  ultimately show ?thesis using c(3) red(3) rem(2) rem' by blast
qed

text \<open>
  A disabled follower whose policy is to close gets its closing intents recorded and
  none of them is ever produced: the admission asks for an enabled follower.
\<close>

theorem disabled_followers_stay_open:
  assumes "follower_by_id (xs_copier s) (rp_follower r) = Some f" "\<not> fo_enabled f"
  shows "(fo_disable_policy f = ''C_CLOSE'' \<longrightarrow> participation f EvFullClose = (True, '''')) \<and>
    (\<forall>x. admit_close xe s r \<noteq> Admitted x) \<and> (\<forall>x. admit_partial_close xe s r \<noteq> Admitted x) \<and>
    (\<forall>x. admit_modify xe s r \<noteq> Admitted x)"
proof -
  have none: "managed_rows xe (xs_copier s) op why r \<noteq> Admitted rows" for op why rows
  proof
    assume a: "managed_rows xe (xs_copier s) op why r = Admitted rows"
    obtain e g ma fa where rows: "rows = (e, g, ma, fa)" by (cases rows)
    note m = managed_rowsD [OF a [unfolded rows]]
    show False using m(4) intent_rowsD(2) [OF m(3)] assms by simp
  qed
  have "participation f EvFullClose = (True, '''')" if "fo_disable_policy f = ''C_CLOSE''"
    using assms(2) that by (simp add: participation_def open_like_def close_like_def)
  moreover have "admit_close xe s r \<noteq> Admitted x" "admit_modify xe s r \<noteq> Admitted x" for x
    using none by (auto simp: admit_close_def admit_modify_def split: verdict.split)
  moreover have "admit_partial_close xe s r \<noteq> Admitted x" for x
    using none by (auto simp: admit_partial_close_def split: verdict.split)
  ultimately show ?thesis by blast
qed
section \<open>Concrete instances\<close>

definition demo_flags :: copier_flags where
  "demo_flags = \<lparr>kf_copier = True, kf_execute = True, kf_demo_armed = True, kf_live = True, kf_reconcile = True\<rparr>"

definition filled_read :: read_result where
  "filled_read = demo_read 990 [(demo_position 501 (16 / 100) (Some 2290) (Some 2350))\<lparr>op_comment := ''CPY1''\<rparr>,
                                demo_position 502 1 None None]"

definition demo_xe :: exec_env where
  "demo_xe = \<lparr>xe_copier = demo_copier_env, xe_pipe = copier_pipe, xe_flags = demo_flags, xe_paused = (\<lambda>_. False),
              xe_read = (\<lambda>_. Inr filled_read)\<rparr>"

definition live_pipe :: pipe_env where
  "live_pipe = demo_env\<lparr>pe_settings := (pe_settings demo_env)\<lparr>st_live_execution := True\<rparr>,
     pe_fleet := (pe_fleet demo_env)\<lparr>fl_accounts := [demo_live_account, demo_live_account\<lparr>ac_id := 8, ac_account_number := ''88''\<rparr>]\<rparr>\<rparr>"

definition live_xe :: exec_env where
  "live_xe = demo_xe\<lparr>xe_pipe := live_pipe\<rparr>"

definition demo_pair :: pair_authorization where
  "demo_pair = \<lparr>px_id = 1, px_user = 3, px_master = 7, px_follower = 8,
     px_master_identity = (''77'', ''Broker-Live'', ''LIVE''), px_follower_identity = (''88'', ''Broker-Live'', ''LIVE''),
     px_source_symbol = ''XAUUSD'', px_follower_symbol = ''XAUUSD'', px_max_volume = 1, px_max_concurrent = 2,
     px_max_orders = 1, px_consumed = 0, px_valid_from = 0, px_expires = 5000, px_watermark_at = 0,
     px_watermark_sequence = 0, px_status = PairActive, px_revoked_at = None, px_created_at = 0\<rparr>"

definition unopened :: exec_state where
  "unopened = \<lparr>xs_copier = demo_copier_db\<lparr>kd_followers := [demo_follower\<lparr>fo_sltp := ''NONE''\<rparr>]\<rparr>, xs_pipe = copier_pipe_db, xs_pairs = [], xs_kills = []\<rparr>"

definition intended :: "pipe_env \<Rightarrow> exec_state" where
  "intended env = unopened\<lparr>xs_copier :=
     replicate_master_event demo_copier_env env copier_pipe_db (demo_event 1 EvOpen) (xs_copier unopened)\<rparr>"

definition opened :: exec_state where
  "opened = (let s = intended copier_pipe in
     snd (produce_one demo_xe s (hd (kd_replications (xs_copier s))) demo_xe s))"

definition opened_live :: exec_state where
  "opened_live = (let s = (intended live_pipe)\<lparr>xs_pairs := [demo_pair]\<rparr> in
     snd (produce_one live_xe s (hd (kd_replications (xs_copier s))) live_xe s))"

lemma fresh_unopened: "fresh_exec unopened"
  by code_simp

lemma opened_reachable: "copier_step\<^sup>*\<^sup>* unopened opened"
proof -
  have "copier_step unopened (intended copier_pipe)" unfolding intended_def by (rule StepReplicate)
  moreover have "copier_step (intended copier_pipe) opened" unfolding opened_def Let_def by (rule StepOpen)
  ultimately show ?thesis by (meson converse_rtranclp_into_rtranclp rtranclp.rtrancl_refl)
qed

lemma opened_live_reachable: "copier_step\<^sup>*\<^sup>* unopened opened_live"
proof -
  let ?s = "intended live_pipe"
  have "copier_step unopened ?s" unfolding intended_def by (rule StepReplicate)
  moreover have "copier_step ?s (?s\<lparr>xs_pairs := xs_pairs ?s @ [demo_pair]\<rparr>)"
    by (rule StepGrant) (simp_all add: demo_pair_def intended_def unopened_def)
  moreover have "?s\<lparr>xs_pairs := xs_pairs ?s @ [demo_pair]\<rparr> = ?s\<lparr>xs_pairs := [demo_pair]\<rparr>"
    by (simp add: intended_def unopened_def)
  moreover have "copier_step (?s\<lparr>xs_pairs := [demo_pair]\<rparr>) opened_live" unfolding opened_live_def Let_def by (rule StepOpen)
  ultimately show ?thesis by (metis converse_rtranclp_into_rtranclp rtranclp.rtrancl_refl)
qed

lemma opened_job:
  "map (\<lambda>j. (jb_id j, jb_type j, job_tag j, job_pair j, jb_node j)) (db_jobs (xs_pipe opened)) =
     [(1, PlaceOrder, Some (JInt 1), None, None)]"
  by code_simp

lemma opened_live_job:
  "map (\<lambda>j. (jb_type j, job_pair j, jb_node j)) (db_jobs (xs_pipe opened_live)) = [(PlaceOrder, Some (JInt 1), Some 4)] \<and>
   map (\<lambda>p. (px_id p, px_consumed p, px_status p)) (xs_pairs opened_live) = [(1, 1, PairConsumed)]"
  by code_simp
lemma opened_first:
  "\<exists>j. db_jobs (xs_pipe opened) = [j] \<and> jb_type j = PlaceOrder \<and> job_tag j = Some (JInt 1) \<and> job_pair j = None \<and> jb_id j = 1"
  using opened_job by (auto simp: map_eq_Cons_conv)



text \<open>The read of the follower carries the comment of replication 1 on one position.\<close>

definition reconciled :: exec_state where
  "reconciled = reconcile_follower demo_xe (hd (kd_followers (xs_copier opened))) opened"


lemma copied_orders_are_stranded_witness:
  "\<exists>j. db_jobs (xs_pipe opened) = [j] \<and> jb_type j = PlaceOrder \<and> jb_node j = None \<and>
     \<not> claimable demo_queue copier_pipe
         (WorkerCaller (demo_worker\<lparr>wk_permissions := [(''authorized_nodes'', JArr [JStr ''h''])]\<rparr>)) demo_query j"
proof -
  from opened_first obtain j where j: "db_jobs (xs_pipe opened) = [j]" "jb_type j = PlaceOrder" "job_tag j = Some (JInt 1)"
    "job_pair j = None" by blast
  have w: "worker_authorized_nodes (worker_of (WorkerCaller (demo_worker\<lparr>wk_permissions := [(''authorized_nodes'', JArr [JStr ''h''])]\<rparr>))) \<noteq> []" by code_simp
  show ?thesis
    using copied_orders_are_stranded [OF fresh_unopened opened_reachable, of j] j w by simp
qed

definition profit_stop :: "rat \<Rightarrow> rat \<Rightarrow> master_event" where
  "profit_stop old new = (demo_event 1 EvSlChange)\<lparr>me_prev_sl := Some old, me_new_sl := Some new\<rparr>"

lemma stop_guard_only_knows_the_loss_side_witness:
  "sl_weakening_reason demo_copier_db (profit_stop 2330 2301) = None \<and>
   sl_weakening_reason demo_copier_db (profit_stop 2301 2330) = Some ''sl_widening_not_auto_replicated'' \<and>
   sl_weakening_reason demo_copier_db (profit_stop 2290 2280) \<noteq> None"
proof -
  let ?p = "demo_position 70 (1 / 2) (Some 2290) (Some 2350)"
  have snap: "snapshot_position demo_copier_db (profit_stop a b) = Some ?p" for a b
    by (simp add: snapshot_position_def demo_copier_db_def demo_snapshot_def profit_stop_def demo_event_def demo_position_def)
  have entry: "op_price_open ?p = Some 2300" by (simp add: demo_position_def)
  have fields: "me_type (profit_stop a b) = Some EvSlChange" "me_new_sl (profit_stop a b) = Some b"
    "me_prev_sl (profit_stop a b) = Some a" for a b by (simp_all add: profit_stop_def demo_event_def)
  have guard: "(a \<le> 2300 \<and> b \<le> 2300 \<longrightarrow> (sl_weakening_reason demo_copier_db (profit_stop a b) = None \<longleftrightarrow> a - price_eps \<le> b)) \<and>
    (2300 < a \<and> 2300 \<le> b \<and> b < a \<longrightarrow> sl_weakening_reason demo_copier_db (profit_stop a b) = None) \<and>
    (2300 < a \<and> a + price_eps < b \<longrightarrow>
       sl_weakening_reason demo_copier_db (profit_stop a b) = Some ''sl_widening_not_auto_replicated'')"
    if "price_eps < a" "price_eps < b" for a b
    using that by (intro stop_guard_only_knows_the_loss_side [OF fields(1,2) _ fields(3) _ snap entry]) (simp_all add: price_eps_def)
  show ?thesis using guard [of 2330 2301] guard [of 2301 2330] guard [of 2290 2280] by (simp add: price_eps_def)
qed

lemma partial_reduction_is_sound_witness:
  "partial_reduction 1 (2 / 5) (17 / 100) \<lparr>bc_min_volume = 1 / 100, bc_lot_step = 1 / 100, bc_max_volume = None, bc_authoritative = True\<rparr>
     = Inr (1 / 10, 7 / 100) \<and> (1 / 10 :: rat) \<le> (1 - 2 / 5) / 1 * (17 / 100) + 1 / 100 / 10 ^ 9"
proof -
  let ?c = "\<lparr>bc_min_volume = 1 / 100, bc_lot_step = 1 / 100, bc_max_volume = None, bc_authoritative = True\<rparr>"
  have v: "partial_reduction 1 (2 / 5) (17 / 100) ?c = Inr (1 / 10, 7 / 100)" by code_simp
  show ?thesis using partial_reduction_is_sound [OF v, of 1000000 17000000] v by simp
qed

lemma disabled_followers_stay_open_witness:
  "participation (demo_follower\<lparr>fo_enabled := False, fo_disable_policy := ''C_CLOSE''\<rparr>) EvFullClose = (True, '''') \<and>
   (\<forall>x. admit_close demo_xe (opened\<lparr>xs_copier := (xs_copier opened)\<lparr>kd_followers :=
          [demo_follower\<lparr>fo_enabled := False, fo_disable_policy := ''C_CLOSE''\<rparr>]\<rparr>\<rparr>)
        (blank_replication 2 2 1 ''CLOSE'') \<noteq> Admitted x)"
proof -
  let ?f = "demo_follower\<lparr>fo_enabled := False, fo_disable_policy := ''C_CLOSE''\<rparr>"
  let ?s = "opened\<lparr>xs_copier := (xs_copier opened)\<lparr>kd_followers := [?f]\<rparr>\<rparr>"
  have "follower_by_id (xs_copier ?s) (rp_follower (blank_replication 2 2 1 ''CLOSE'')) = Some ?f"
    by (simp add: follower_by_id_def blank_replication_def demo_follower_def)
  then show ?thesis using disabled_followers_stay_open [of ?s "blank_replication 2 2 1 ''CLOSE''" ?f demo_xe] by simp
qed

text \<open>
  A follower that does not copy stops gets live orders without one: the admission checks the protection of the
  master's position, not of the order. Here a live order was placed and consumed its authorization, the master's
  position is protected, and the order has neither stop nor target.
\<close>

theorem unprotected_live_order_is_placed:
  "copier_step\<^sup>*\<^sup>* unopened opened_live \<and>
   protection_refusal (snapshot_position (xs_copier opened_live) (demo_event 1 EvOpen)) = None \<and>
   map (\<lambda>j. (map_of (jb_payload j) ''execution_mode'', map_of (jb_payload j) ''sl_price'', map_of (jb_payload j) ''tp_price''))
     (db_jobs (xs_pipe opened_live)) = [(Some (JStr ''LIVE''), Some JNull, Some JNull)]"
proof (intro conjI opened_live_reachable)
  show "protection_refusal (snapshot_position (xs_copier opened_live) (demo_event 1 EvOpen)) = None" by code_simp
  show "map (\<lambda>j. (map_of (jb_payload j) ''execution_mode'', map_of (jb_payload j) ''sl_price'', map_of (jb_payload j) ''tp_price''))
     (db_jobs (xs_pipe opened_live)) = [(Some (JStr ''LIVE''), Some JNull, Some JNull)]" by code_simp
qed


end
