(* ===== verification/CopierLifecycle.thy ===== *)
theory CopierLifecycle
  imports CopierExecution
begin

text \<open>
  The lifecycle of one copied position (\<^verbatim>\<open>trade_copier/lifecycle.py\<close>): the engine that decides what a
  master event or a follower-side fact does to it, and the projection that folds the ledger of a master through
  the engine into durable rows with an append-only trail of transitions. Times are microseconds.
  \<open>has_protection\<close>, which no decision reads, is left out.
\<close>

section \<open>States and inputs\<close>

datatype lc_state =
    ObservedOpen | EntryPending | Linked | ModifyPending | ClosePending | EntryFailedFinal | LcClosed | ContainedFailure

definition terminal_state :: "lc_state \<Rightarrow> bool" where
  "terminal_state s \<longleftrightarrow> s = EntryFailedFinal \<or> s = LcClosed \<or> s = ContainedFailure"

definition linked_state :: "lc_state \<Rightarrow> bool" where
  "linked_state s \<longleftrightarrow> s = Linked \<or> s = ModifyPending \<or> s = ClosePending"

datatype pending_op = PendNone | PendModify | PendClose

datatype category = CatOpen | CatFullClose | CatPartialClose | CatModify | CatScaleIn | CatUnknown

definition category_for :: "event_type option \<Rightarrow> category" where
  "category_for t =
     (case t of
        None \<Rightarrow> CatUnknown
      | Some EvOpen \<Rightarrow> CatOpen | Some EvFullClose \<Rightarrow> CatFullClose | Some EvPartialClose \<Rightarrow> CatPartialClose
      | Some EvVolumeIncrease \<Rightarrow> CatScaleIn | Some _ \<Rightarrow> CatModify)"

record lifecycle_policy =
  ly_entry :: int
  ly_modification :: int
  ly_event :: int

definition default_policy :: lifecycle_policy where
  "default_policy = \<lparr>ly_entry = 120 * 1000000, ly_modification = 120 * 1000000, ly_event = 300 * 1000000\<rparr>"

record event_input =
  ei_sequence :: nat
  ei_category :: category
  ei_observed_at :: int
  ei_broker_time :: "int option"
  ei_weakens :: bool

definition reference_time :: "event_input \<Rightarrow> int" where
  "reference_time e = (case ei_broker_time e of None \<Rightarrow> ei_observed_at e | Some t \<Rightarrow> t)"

record link_update =
  lu_attempted :: bool
  lu_linked :: bool
  lu_ticket :: "int option"
  lu_failed :: bool
  lu_divergent :: bool
  lu_modify_confirmed :: bool
  lu_modify_failed :: bool
  lu_close_confirmed :: bool
  lu_close_failed :: bool
  lu_partial :: bool
  lu_lost :: bool

definition no_link :: link_update where
  "no_link =
     \<lparr>lu_attempted = False, lu_linked = False, lu_ticket = None, lu_failed = False, lu_divergent = False,
      lu_modify_confirmed = False, lu_modify_failed = False, lu_close_confirmed = False, lu_close_failed = False,
      lu_partial = False, lu_lost = False\<rparr>"

record ticket_ctx =
  tc_state :: lc_state
  tc_applied :: nat
  tc_reference :: "int option"
  tc_ticket :: "int option"
  tc_pending :: pending_op
  tc_attempted :: bool

record decision =
  de_next :: "ticket_ctx option"
  de_applied :: bool
  de_reason :: string
  de_rejected :: string

abbreviation changed :: "ticket_ctx \<Rightarrow> string \<Rightarrow> decision" where
  "changed c why \<equiv> \<lparr>de_next = Some c, de_applied = True, de_reason = why, de_rejected = ''''\<rparr>"

abbreviation unchanged :: "ticket_ctx \<Rightarrow> string \<Rightarrow> decision" where
  "unchanged c why \<equiv> \<lparr>de_next = Some c, de_applied = False, de_reason = why, de_rejected = ''''\<rparr>"

abbreviation no_lifecycle :: decision where
  "no_lifecycle \<equiv> \<lparr>de_next = None, de_applied = False, de_reason = ''no_open_yet'', de_rejected = ''no_lifecycle''\<rparr>"

definition past_entry_deadline :: "ticket_ctx \<Rightarrow> int \<Rightarrow> lifecycle_policy \<Rightarrow> bool" where
  "past_entry_deadline c now p \<longleftrightarrow> (case tc_reference c of None \<Rightarrow> False | Some r \<Rightarrow> now - r > ly_entry p)"

section \<open>The engine\<close>

definition observe_open :: "event_input \<Rightarrow> int \<Rightarrow> lifecycle_policy \<Rightarrow> decision" where
  "observe_open e now p =
     (let c = \<lparr>tc_state = ObservedOpen, tc_applied = ei_sequence e, tc_reference = Some (reference_time e), tc_ticket = None,
               tc_pending = PendNone, tc_attempted = False\<rparr> in
      if now - reference_time e > ly_entry p then changed (c\<lparr>tc_state := EntryFailedFinal\<rparr>) ''entry_deadline_exceeded''
      else changed c ''observed_open'')"

definition apply_full_close :: "ticket_ctx \<Rightarrow> decision" where
  "apply_full_close c =
     (if tc_state c = Linked \<or> tc_state c = ModifyPending then
        changed (c\<lparr>tc_state := ClosePending, tc_pending := PendClose\<rparr>) ''full_close_requested''
      else if tc_state c = ClosePending then unchanged c ''close_already_pending''
      else if tc_state c = ObservedOpen then changed (c\<lparr>tc_state := EntryFailedFinal\<rparr>) ''closed_before_entry''
      else changed (c\<lparr>tc_state := ContainedFailure\<rparr>) ''closed_before_link_contained'')"

definition apply_partial_close :: "ticket_ctx \<Rightarrow> decision" where
  "apply_partial_close c =
     (if tc_state c = Linked \<or> tc_state c = ModifyPending then
        changed (c\<lparr>tc_state := ClosePending, tc_pending := PendClose\<rparr>) ''partial_close_requested''
      else if tc_state c = ClosePending then unchanged c ''close_already_pending''
      else unchanged c ''partial_close_before_link'')"

definition apply_modify :: "ticket_ctx \<Rightarrow> event_input \<Rightarrow> int \<Rightarrow> lifecycle_policy \<Rightarrow> decision" where
  "apply_modify c e now p =
     (if tc_state c = ClosePending then unchanged c ''superseded_by_close''
      else if tc_state c = Linked \<or> tc_state c = ModifyPending then
        (if ei_weakens e then unchanged c ''modify_weakens_stop_deferred''
         else if now - reference_time e > min (ly_modification p) (ly_event p) then unchanged c ''modify_too_old''
         else \<lparr>de_next = Some (c\<lparr>tc_state := ModifyPending, tc_pending := PendModify\<rparr>), de_applied = tc_state c \<noteq> ModifyPending,
               de_reason = ''modify_requested'', de_rejected = ''''\<rparr>)
      else unchanged c ''modify_before_link'')"

definition decide_master_event :: "ticket_ctx option \<Rightarrow> event_input \<Rightarrow> int \<Rightarrow> lifecycle_policy \<Rightarrow> decision" where
  "decide_master_event ctx e now p =
     (case ctx of
        None \<Rightarrow> if ei_category e \<noteq> CatOpen then no_lifecycle else observe_open e now p
      | Some c \<Rightarrow>
          if terminal_state (tc_state c) then
            unchanged (if ei_sequence e \<le> tc_applied c then c else c\<lparr>tc_applied := ei_sequence e\<rparr>) ''terminal_absorbed''
          else if ei_sequence e \<le> tc_applied c then
            \<lparr>de_next = Some c, de_applied = False, de_reason = '''', de_rejected = ''stale_sequence''\<rparr>
          else (let b = c\<lparr>tc_applied := ei_sequence e\<rparr> in
            case ei_category e of
              CatOpen \<Rightarrow> unchanged b ''duplicate_open''
            | CatScaleIn \<Rightarrow> unchanged b ''scale_in_deferred''
            | CatUnknown \<Rightarrow> unchanged b ''unknown_event_ignored''
            | CatFullClose \<Rightarrow> apply_full_close b
            | CatPartialClose \<Rightarrow> apply_partial_close b
            | CatModify \<Rightarrow> apply_modify b e now p))"

definition link_observed :: "ticket_ctx \<Rightarrow> link_update \<Rightarrow> int \<Rightarrow> lifecycle_policy \<Rightarrow> decision" where
  "link_observed c l now p =
     (if lu_attempted l then
        (if past_entry_deadline c now p then changed (c\<lparr>tc_state := EntryFailedFinal\<rparr>) ''attempt_after_deadline''
         else changed (c\<lparr>tc_state := EntryPending, tc_attempted := True\<rparr>) ''entry_attempted'')
      else unchanged c ''observing'')"

definition link_pending :: "ticket_ctx \<Rightarrow> link_update \<Rightarrow> int \<Rightarrow> lifecycle_policy \<Rightarrow> decision" where
  "link_pending c l now p =
     (if lu_failed l then changed (c\<lparr>tc_state := EntryFailedFinal\<rparr>) ''entry_attempt_failed''
      else if lu_linked l then
        (if past_entry_deadline c now p then changed (c\<lparr>tc_state := EntryFailedFinal\<rparr>) ''linked_after_deadline''
         else changed (c\<lparr>tc_state := Linked, tc_ticket := lu_ticket l\<rparr>) ''linked'')
      else if past_entry_deadline c now p then changed (c\<lparr>tc_state := EntryFailedFinal\<rparr>) ''link_deadline_exceeded''
      else unchanged c ''awaiting_link'')"

definition link_linked :: "ticket_ctx \<Rightarrow> link_update \<Rightarrow> decision" where
  "link_linked c l =
     (if tc_state c = ClosePending \<and> lu_close_confirmed l then
        changed (c\<lparr>tc_state := LcClosed, tc_pending := PendNone\<rparr>) ''close_confirmed''
      else if tc_state c = ClosePending \<and> lu_partial l then
        changed (c\<lparr>tc_state := Linked, tc_pending := PendNone\<rparr>) ''partial_reconciled''
      else if tc_state c = ClosePending \<and> lu_close_failed l then
        changed (c\<lparr>tc_state := ContainedFailure, tc_pending := PendNone\<rparr>) ''close_failed''
      else if tc_state c = ModifyPending \<and> lu_modify_confirmed l then
        changed (c\<lparr>tc_state := Linked, tc_pending := PendNone\<rparr>) ''modify_confirmed''
      else if tc_state c = ModifyPending \<and> lu_modify_failed l then
        changed (c\<lparr>tc_state := Linked, tc_pending := PendNone\<rparr>) ''modify_failed''
      else unchanged c ''no_link_change'')"

definition decide_link_update :: "ticket_ctx option \<Rightarrow> link_update \<Rightarrow> int \<Rightarrow> lifecycle_policy \<Rightarrow> decision" where
  "decide_link_update ctx l now p =
     (case ctx of
        None \<Rightarrow> no_lifecycle
      | Some c \<Rightarrow>
          if terminal_state (tc_state c) then unchanged c ''terminal_absorbed''
          else if lu_divergent l \<or> lu_lost l then
            (if lu_lost l \<and> tc_state c = ClosePending then
               changed (c\<lparr>tc_state := LcClosed, tc_pending := PendNone\<rparr>) ''close_confirmed''
             else changed (c\<lparr>tc_state := ContainedFailure, tc_pending := PendNone\<rparr>)
                    (if lu_lost l then ''link_lost'' else ''link_divergent''))
          else if tc_state c = ObservedOpen then link_observed c l now p
          else if tc_state c = EntryPending then link_pending c l now p
          else link_linked c l)"

text \<open>A list of triggers, as the engine's own reducer folds them.\<close>

datatype lc_trigger = EventTrigger event_input | LinkTrigger link_update

definition decide :: "lifecycle_policy \<Rightarrow> ticket_ctx option \<Rightarrow> int \<times> lc_trigger \<Rightarrow> decision" where
  "decide p ctx t =
     (case snd t of EventTrigger e \<Rightarrow> decide_master_event ctx e (fst t) p | LinkTrigger l \<Rightarrow> decide_link_update ctx l (fst t) p)"

fun apply_all :: "lifecycle_policy \<Rightarrow> ticket_ctx option \<Rightarrow> (int \<times> lc_trigger) list \<Rightarrow> ticket_ctx option \<times> decision list" where
  "apply_all p ctx [] = (ctx, [])"
| "apply_all p ctx (t # ts) =
     (let d = decide p ctx t;
          (c, ds) = apply_all p (case de_next d of None \<Rightarrow> ctx | Some c \<Rightarrow> Some c) ts
      in (c, d # ds))"
section \<open>The projection\<close>

record lifecycle_row =
  lf_id :: nat
  lf_follower :: nat
  lf_master :: nat
  lf_master_ticket :: int
  lf_state :: lc_state
  lf_pending :: pending_op
  lf_terminal :: bool
  lf_applied :: nat
  lf_reference :: "int option"
  lf_deadline :: "int option"
  lf_attempted :: bool
  lf_ticket :: "int option"
  lf_open_event :: "nat option"
  lf_failure :: string
  lf_open_observed :: "int option"
  lf_linked_at :: "int option"
  lf_closed_at :: "int option"
  lf_last :: int

text \<open>The state a transition leaves is \<open>None\<close> for the first one, and its sequence is 0 for a follower-side fact.\<close>

record transition =
  tr_lifecycle :: nat
  tr_from :: "lc_state option"
  tr_to :: lc_state
  tr_trigger :: string
  tr_sequence :: nat

record lifecycle_db =
  lb_rows :: "lifecycle_row list"
  lb_transitions :: "transition list"
  lb_next :: nat

definition modify_weakens :: "copier_db \<Rightarrow> master_event \<Rightarrow> bool" where
  "modify_weakens k e \<longleftrightarrow>
     (if me_type e = Some EvSlRemove then True
      else if me_type e \<noteq> Some EvSlChange then False
      else case me_new_sl e of
        None \<Rightarrow> True
      | Some new \<Rightarrow>
          \<bar>new\<bar> \<le> price_eps \<or>
          (case (Option.bind (snapshot_position k e) op_price_open, me_prev_sl e) of
             (Some entry, Some prev) \<Rightarrow> \<bar>prev\<bar> \<le> price_eps \<or> \<bar>entry - new\<bar> > \<bar>entry - prev\<bar> + price_eps
           | _ \<Rightarrow> True))"

definition classify :: "copier_db \<Rightarrow> master_event \<Rightarrow> event_input" where
  "classify k e =
     \<lparr>ei_sequence = me_sequence e, ei_category = category_for (me_type e), ei_observed_at = me_observed_at e,
      ei_broker_time = me_broker_time e, ei_weakens = (category_for (me_type e) = CatModify \<and> modify_weakens k e)\<rparr>"

definition ticket_replications :: "copier_db \<Rightarrow> nat \<Rightarrow> nat \<Rightarrow> int \<Rightarrow> string \<Rightarrow> replication list" where
  "ticket_replications k f m t p =
     filter (\<lambda>r. rp_follower r = f \<and> rp_op r = p \<and>
       (case event_by_id k (rp_event r) of None \<Rightarrow> False | Some e \<Rightarrow> me_master e = m \<and> me_ticket e = t)) (kd_replications k)"

text \<open>\<open>order_by('-id').first()\<close>.\<close>

fun newest_replication :: "replication list \<Rightarrow> replication option" where
  "newest_replication [] = None"
| "newest_replication (r # rs) =
     (case newest_replication rs of None \<Rightarrow> Some r | Some x \<Rightarrow> if rp_id x \<ge> rp_id r then Some x else Some r)"

definition derive_link_update :: "copier_db \<Rightarrow> nat \<Rightarrow> nat \<Rightarrow> int \<Rightarrow> link_update" where
  "derive_link_update k f m t =
     (case newest_replication (ticket_replications k f m t ''OPEN'') of
        None \<Rightarrow> no_link
      | Some r \<Rightarrow>
          no_link\<lparr>lu_attempted := rp_status r = ExecutionRequested \<or> rp_status r = ExecutionVerified,
                  lu_linked := rp_recon r = ''MATCHED'' \<and> rp_ticket r \<noteq> None, lu_ticket := rp_ticket r,
                  lu_failed := rp_status r = ExecutionFailed,
                  lu_divergent := rp_recon r = ''AMBIGUOUS'' \<or> rp_recon r = ''DIVERGENT_MISSING''\<rparr>)"

definition ctx_from_row :: "lifecycle_row \<Rightarrow> ticket_ctx" where
  "ctx_from_row r =
     \<lparr>tc_state = lf_state r, tc_applied = lf_applied r, tc_reference = lf_reference r, tc_ticket = lf_ticket r,
      tc_pending = lf_pending r, tc_attempted = lf_attempted r\<rparr>"

definition category_text :: "category \<Rightarrow> string" where
  "category_text c =
     (case c of CatOpen \<Rightarrow> ''open'' | CatFullClose \<Rightarrow> ''full_close'' | CatPartialClose \<Rightarrow> ''partial_close''
      | CatModify \<Rightarrow> ''modify'' | CatScaleIn \<Rightarrow> ''scale_in'' | CatUnknown \<Rightarrow> ''unknown'')"

definition absorbed_note :: "category \<Rightarrow> string" where
  "absorbed_note c = ''post_terminal_'' @ category_text c @ ''_ignored''"

text \<open>A step of the trail, before it has a row: from, to, trigger and sequence.\<close>

type_synonym trail = "(lc_state option \<times> lc_state \<times> string \<times> nat) list"

definition project_event ::
  "copier_db \<Rightarrow> int \<Rightarrow> lifecycle_policy \<Rightarrow> master_event \<Rightarrow> ticket_ctx option \<times> trail \<Rightarrow> ticket_ctx option \<times> trail" where
  "project_event k now p e x =
     (let (ctx, trs) = x; d = decide_master_event ctx (classify k e) now p in
      if de_rejected d = ''stale_sequence'' then (ctx, trs)
      else case de_next d of
        None \<Rightarrow> (ctx, trs)
      | Some c \<Rightarrow>
          (Some c,
           if de_applied d then trs @ [(map_option tc_state ctx, tc_state c, de_reason d, me_sequence e)]
           else if de_reason d = ''terminal_absorbed'' \<and> ctx \<noteq> None \<and>
                   category_for (me_type e) \<in> {CatOpen, CatModify, CatFullClose, CatPartialClose} then
             trs @ [(map_option tc_state ctx, tc_state c,
                     absorbed_note (category_for (me_type e)), me_sequence e)]
           else trs))"

definition project_link ::
  "copier_db \<Rightarrow> nat \<Rightarrow> nat \<Rightarrow> int \<Rightarrow> int \<Rightarrow> lifecycle_policy \<Rightarrow> ticket_ctx \<times> trail \<Rightarrow> ticket_ctx \<times> trail" where
  "project_link k f m t now p x =
     (let (c, trs) = x; d = decide_link_update (Some c) (derive_link_update k f m t) now p in
      case de_next d of
        None \<Rightarrow> (c, trs)
      | Some c' \<Rightarrow> (c', if de_applied d then trs @ [(Some (tc_state c), tc_state c', de_reason d, 0)] else trs))"

definition later_events :: "copier_db \<Rightarrow> nat \<Rightarrow> int \<Rightarrow> nat \<Rightarrow> master_event list" where
  "later_events k m t n =
     sort_key me_sequence (filter (\<lambda>e. me_master e = m \<and> me_ticket e = t \<and> me_sequence e > n) (kd_events k))"

definition blank_row :: "nat \<Rightarrow> nat \<Rightarrow> nat \<Rightarrow> int \<Rightarrow> lifecycle_row" where
  "blank_row i f m t =
     \<lparr>lf_id = i, lf_follower = f, lf_master = m, lf_master_ticket = t, lf_state = ObservedOpen, lf_pending = PendNone,
      lf_terminal = False, lf_applied = 0, lf_reference = None, lf_deadline = None, lf_attempted = False, lf_ticket = None,
      lf_open_event = None, lf_failure = '''', lf_open_observed = None, lf_linked_at = None, lf_closed_at = None, lf_last = 0\<rparr>"

definition projected_row ::
  "lifecycle_row \<Rightarrow> ticket_ctx \<Rightarrow> trail \<Rightarrow> int \<Rightarrow> lifecycle_policy \<Rightarrow> master_event option \<Rightarrow> lifecycle_row" where
  "projected_row r c trs now p oe =
     r\<lparr>lf_state := tc_state c, lf_pending := tc_pending c, lf_applied := tc_applied c, lf_reference := tc_reference c,
       lf_deadline := map_option (\<lambda>x. x + ly_entry p) (tc_reference c), lf_ticket := tc_ticket c,
       lf_attempted := tc_attempted c, lf_terminal := terminal_state (tc_state c),
       lf_failure := (if trs \<noteq> [] \<and> (tc_state c = EntryFailedFinal \<or> tc_state c = ContainedFailure)
                      then take 64 (fst (snd (snd (last trs)))) else lf_failure r),
       lf_open_event := (case lf_open_event r of None \<Rightarrow> map_option me_id oe | Some i \<Rightarrow> Some i),
       lf_open_observed := (case (lf_open_event r, oe) of (None, Some e) \<Rightarrow> Some (me_observed_at e) | _ \<Rightarrow> lf_open_observed r),
       lf_linked_at := (if tc_state c = Linked \<and> lf_linked_at r = None then Some now else lf_linked_at r),
       lf_closed_at := (if tc_state c = LcClosed \<and> lf_closed_at r = None then Some now else lf_closed_at r),
       lf_last := now\<rparr>"

definition lifecycle_of :: "lifecycle_db \<Rightarrow> nat \<Rightarrow> nat \<Rightarrow> int \<Rightarrow> lifecycle_row option" where
  "lifecycle_of b f m t = find (\<lambda>r. lf_follower r = f \<and> lf_master r = m \<and> lf_master_ticket r = t) (lb_rows b)"

definition save_row :: "lifecycle_row \<Rightarrow> lifecycle_db \<Rightarrow> lifecycle_db" where
  "save_row r b =
     (if lf_id r = lb_next b then b\<lparr>lb_rows := lb_rows b @ [r], lb_next := Suc (lb_next b)\<rparr>
      else b\<lparr>lb_rows := map (\<lambda>x. if lf_id x = lf_id r then r else x) (lb_rows b)\<rparr>)"

definition trail_rows :: "nat \<Rightarrow> trail \<Rightarrow> transition list" where
  "trail_rows i trs =
     map (\<lambda>(a, b, why, n). \<lparr>tr_lifecycle = i, tr_from = a, tr_to = b, tr_trigger = take 48 why, tr_sequence = n\<rparr>) trs"

definition save_projection :: "lifecycle_row \<Rightarrow> trail \<Rightarrow> lifecycle_db \<Rightarrow> lifecycle_db" where
  "save_projection r trs b = (save_row r b)\<lparr>lb_transitions := lb_transitions b @ trail_rows (lf_id r) trs\<rparr>"

definition project_follower_ticket ::
  "copier_db \<Rightarrow> int \<Rightarrow> lifecycle_policy \<Rightarrow> nat \<Rightarrow> nat \<Rightarrow> int \<Rightarrow> master_event option \<Rightarrow> lifecycle_db \<Rightarrow> lifecycle_db" where
  "project_follower_ticket k now p f m t oe b =
     (let row = lifecycle_of b f m t;
          start = map_option ctx_from_row row;
          seen = (case row of None \<Rightarrow> 0 | Some r \<Rightarrow> lf_applied r);
          (ctx, trs) = fold (project_event k now p) (later_events k m t seen) (start, [])
      in case ctx of
        None \<Rightarrow> b
      | Some c \<Rightarrow>
          (let (c', trs') = project_link k f m t now p (c, trs);
               r = projected_row (case row of None \<Rightarrow> blank_row (lb_next b) f m t | Some r \<Rightarrow> r) c' trs' now p oe
           in save_projection r trs' b))"

text \<open>The first open of each ticket among the first \<open>limit\<close> opens by ticket and sequence.\<close>

definition opens_in_order :: "copier_db \<Rightarrow> nat \<Rightarrow> master_event list" where
  "opens_in_order k m =
     sort_key me_ticket (sort_key me_sequence (filter (\<lambda>e. me_master e = m \<and> me_type e = Some EvOpen) (kd_events k)))"

fun first_per_ticket :: "int list \<Rightarrow> master_event list \<Rightarrow> master_event list" where
  "first_per_ticket seen [] = []"
| "first_per_ticket seen (e # es) =
     (if me_ticket e \<in> set seen then first_per_ticket seen es else e # first_per_ticket (me_ticket e # seen) es)"

definition project_master :: "copier_db \<Rightarrow> int \<Rightarrow> lifecycle_policy \<Rightarrow> nat \<Rightarrow> nat \<Rightarrow> lifecycle_db \<Rightarrow> lifecycle_db" where
  "project_master k now p limit m b =
     (let opens = first_per_ticket [] (take limit (opens_in_order k m)) in
      fold (\<lambda>f. fold (\<lambda>e. project_follower_ticket k now p (fo_id f) m (me_ticket e) (Some e)) opens)
        (filter (\<lambda>f. fo_master f = m) (kd_followers k)) b)"

definition run_lifecycle_pass ::
  "bool \<Rightarrow> copier_db \<Rightarrow> int \<Rightarrow> lifecycle_policy \<Rightarrow> nat \<Rightarrow> lifecycle_db \<Rightarrow> lifecycle_db" where
  "run_lifecycle_pass enabled k now p limit b =
     (if \<not> enabled then b else fold (project_master k now p limit) (map ma_id (kd_masters k)) b)"
section \<open>The shadow dispatch\<close>

text \<open>
  The dry run of the producers (\<^verbatim>\<open>trade_copier/lifecycle_dispatch.py\<close>): what an actionable lifecycle would ask of them
  and what they would answer. It records the verdict under the producer's idempotency key and creates no order.
\<close>

record dispatch_row =
  dp_lifecycle :: nat
  dp_replication :: nat
  dp_op :: string
  dp_key :: string
  dp_ok :: bool
  dp_reason :: string

text \<open>Operation, requested operation of the intent, prefix of the key.\<close>

definition dispatch_for :: "lc_state \<Rightarrow> (string \<times> string \<times> string) list" where
  "dispatch_for st =
     (case st of
        ObservedOpen \<Rightarrow> [(''OPEN'', ''OPEN'', ''copier'')]
      | ModifyPending \<Rightarrow> [(''MODIFY'', ''MODIFY_SLTP'', ''copier-modify'')]
      | ClosePending \<Rightarrow> [(''CLOSE'', ''CLOSE'', ''copier-close''), (''PARTIAL_CLOSE'', ''PARTIAL_CLOSE'', ''copier-pclose'')]
      | _ \<Rightarrow> [])"

definition verdict_of :: "'a verdict \<Rightarrow> (bool \<times> string) option" where
  "verdict_of v = (case v of Admitted _ \<Rightarrow> Some (True, ''ok'') | NotAdmitted why \<Rightarrow> Some (False, why) | AdmissionRaised \<Rightarrow> None)"

definition admit_op :: "exec_env \<Rightarrow> exec_state \<Rightarrow> string \<Rightarrow> replication \<Rightarrow> (bool \<times> string) option" where
  "admit_op xe s p r =
     (if p = ''OPEN'' then verdict_of (admit_open xe s r)
      else if p = ''MODIFY'' then verdict_of (admit_modify xe s r)
      else if p = ''CLOSE'' then verdict_of (admit_close xe s r)
      else if p = ''PARTIAL_CLOSE'' then verdict_of (model_partial_close xe s r)
      else Some (False, ''unknown_op''))"

definition dispatch_key :: "string \<Rightarrow> replication \<Rightarrow> string" where
  "dispatch_key prefix r = take 48 (prefix @ '':'' @ digits_of (rp_id r))"

definition dispatched :: "dispatch_row list \<Rightarrow> nat \<Rightarrow> string \<Rightarrow> bool" where
  "dispatched ds i key \<longleftrightarrow> list_ex (\<lambda>d. dp_lifecycle d = i \<and> dp_key d = key) ds"

text \<open>An admission that raises ends the lifecycle's turn; what was recorded before it stays.\<close>

fun dispatch_ops ::
  "exec_env \<Rightarrow> exec_state \<Rightarrow> lifecycle_row \<Rightarrow> (string \<times> string \<times> string) list \<Rightarrow> dispatch_row list \<Rightarrow> dispatch_row list" where
  "dispatch_ops xe s lc [] ds = ds"
| "dispatch_ops xe s lc ((p, requested, prefix) # ops) ds =
     (case newest_replication (ticket_replications (xs_copier s) (lf_follower lc) (lf_master lc) (lf_master_ticket lc) requested) of
        None \<Rightarrow> dispatch_ops xe s lc ops ds
      | Some r \<Rightarrow>
          (case admit_op xe s p r of
             None \<Rightarrow> ds
           | Some (ok, why) \<Rightarrow>
               dispatch_ops xe s lc ops
                 (if dispatched ds (lf_id lc) (dispatch_key prefix r) then ds
                  else ds @ [\<lparr>dp_lifecycle = lf_id lc, dp_replication = rp_id r, dp_op = p, dp_key = dispatch_key prefix r,
                              dp_ok = ok, dp_reason = take 64 why\<rparr>])))"

definition dispatch_one :: "exec_env \<Rightarrow> exec_state \<Rightarrow> lifecycle_row \<Rightarrow> dispatch_row list \<Rightarrow> dispatch_row list" where
  "dispatch_one xe s lc ds = dispatch_ops xe s lc (dispatch_for (lf_state lc)) ds"

definition actionable :: "lifecycle_row \<Rightarrow> bool" where
  "actionable r \<longleftrightarrow> \<not> lf_terminal r \<and> (lf_state r = ObservedOpen \<or> lf_state r = ModifyPending \<or> lf_state r = ClosePending)"

definition run_lifecycle_dispatch_pass ::
  "bool \<Rightarrow> exec_env \<Rightarrow> exec_state \<Rightarrow> nat \<Rightarrow> lifecycle_db \<Rightarrow> dispatch_row list \<Rightarrow> dispatch_row list" where
  "run_lifecycle_dispatch_pass enabled xe s limit b ds =
     (if \<not> enabled then ds else fold (dispatch_one xe s) (take limit (sort_key lf_id (filter actionable (lb_rows b)))) ds)"

section \<open>The graph of the lifecycle\<close>

text \<open>What the engine promises: a position moves along these edges and no others.\<close>

definition lc_edge :: "lc_state \<Rightarrow> lc_state \<Rightarrow> bool" where
  "lc_edge s t \<longleftrightarrow>
     (case s of
        ObservedOpen \<Rightarrow> t \<in> {EntryPending, EntryFailedFinal, ContainedFailure}
      | EntryPending \<Rightarrow> t \<in> {Linked, EntryFailedFinal, ContainedFailure}
      | Linked \<Rightarrow> t \<in> {ModifyPending, ClosePending, ContainedFailure}
      | ModifyPending \<Rightarrow> t \<in> {Linked, ClosePending, ContainedFailure}
      | ClosePending \<Rightarrow> t \<in> {Linked, LcClosed, ContainedFailure}
      | _ \<Rightarrow> False)"

definition lc_move :: "lc_state option \<Rightarrow> lc_state \<Rightarrow> bool" where
  "lc_move a t \<longleftrightarrow>
     (case a of None \<Rightarrow> t = ObservedOpen \<or> t = EntryFailedFinal | Some s \<Rightarrow> lc_edge s t \<or> terminal_state s \<and> t = s)"

fun history :: "lc_state option \<Rightarrow> (lc_state option \<times> lc_state) list \<Rightarrow> lc_state option \<Rightarrow> bool" where
  "history a [] b \<longleftrightarrow> a = b"
| "history a ((x, y) # xs) b \<longleftrightarrow> x = a \<and> lc_move a y \<and> history (Some y) xs b"

lemma history_snoc: "history a (xs @ [(x, y)]) b \<longleftrightarrow> history a xs x \<and> lc_move x y \<and> b = Some y"
  by (induction a xs x rule: history.induct) auto

lemma history_append: "history a xs b \<Longrightarrow> history b ys c \<Longrightarrow> history a (xs @ ys) c"
  by (induction a xs b rule: history.induct) auto

text \<open>The ticket is there exactly from the link on, and the projection closes nothing.\<close>

definition ctx_ok :: "ticket_ctx \<Rightarrow> bool" where
  "ctx_ok c \<longleftrightarrow>
     tc_reference c \<noteq> None \<and> tc_state c \<noteq> LcClosed \<and>
     (tc_state c = ObservedOpen \<longrightarrow> tc_ticket c = None \<and> \<not> tc_attempted c) \<and>
     (tc_state c = EntryPending \<longrightarrow> tc_ticket c = None \<and> tc_attempted c) \<and>
     (linked_state (tc_state c) \<longrightarrow> tc_ticket c \<noteq> None \<and> tc_attempted c)"

definition no_entry :: "lc_state \<Rightarrow> lc_state \<Rightarrow> bool" where
  "no_entry s t \<longleftrightarrow>
     (terminal_state s \<longrightarrow> t = s) \<and> (t = Linked \<or> t = EntryPending \<longrightarrow> s = t) \<and> (linked_state t \<longrightarrow> linked_state s)"

definition kept :: "ticket_ctx \<Rightarrow> ticket_ctx \<Rightarrow> bool" where
  "kept c d \<longleftrightarrow>
     tc_reference d = tc_reference c \<and> tc_ticket d = tc_ticket c \<and> tc_attempted d = tc_attempted c \<and>
     tc_applied c \<le> tc_applied d \<and> no_entry (tc_state c) (tc_state d)"

lemmas lc_defs = terminal_state_def linked_state_def lc_edge_def lc_move_def

lemma no_entry_refl [simp]: "no_entry s s"
  by (simp add: no_entry_def)

lemma no_entryD:
  assumes "no_entry s t"
  shows "linked_state t \<Longrightarrow> linked_state s" "terminal_state s \<Longrightarrow> t = s" "t = Linked \<or> t = EntryPending \<Longrightarrow> s = t"
  using assms unfolding no_entry_def by blast+

lemma no_entry_trans: "no_entry s t \<Longrightarrow> no_entry t u \<Longrightarrow> no_entry s u"
  by (cases s; cases t; cases u; simp add: no_entry_def lc_defs)

lemma kept_trans: "kept a b \<Longrightarrow> kept b c \<Longrightarrow> kept a c"
  by (auto simp: kept_def intro: no_entry_trans)

lemma decide_event_sound:
  assumes "ctx_ok c" "de_next (decide_master_event (Some c) e now p) = Some d"
  shows "ctx_ok d" "kept c d" "tc_applied d \<le> max (tc_applied c) (ei_sequence e)"
    "de_applied (decide_master_event (Some c) e now p) \<longleftrightarrow> tc_state d \<noteq> tc_state c"
    "tc_state d \<noteq> tc_state c \<Longrightarrow> lc_edge (tc_state c) (tc_state d)"
    "tc_state d \<noteq> tc_state c \<Longrightarrow> tc_applied c < ei_sequence e \<and> tc_applied d = ei_sequence e"
  using assms
  by (cases "tc_state c"; cases "ei_category e";
      auto simp: decide_master_event_def apply_full_close_def apply_partial_close_def apply_modify_def Let_def lc_defs
        ctx_ok_def kept_def no_entry_def split: if_splits)+

lemma decide_event_total: "de_next (decide_master_event (Some c) e now p) \<noteq> None"
  by (cases "tc_state c"; cases "ei_category e";
      simp add: decide_master_event_def apply_full_close_def apply_partial_close_def apply_modify_def Let_def lc_defs)

lemma decide_event_absorbed:
  "ctx_ok c \<Longrightarrow> de_reason (decide_master_event (Some c) e now p) = ''terminal_absorbed'' \<Longrightarrow> terminal_state (tc_state c)"
  by (cases "tc_state c"; cases "ei_category e";
      auto simp: decide_master_event_def apply_full_close_def apply_partial_close_def apply_modify_def Let_def lc_defs ctx_ok_def
        split: if_splits)

lemma decide_first_event:
  assumes "de_next (decide_master_event None e now p) = Some d"
  shows "ctx_ok d" "tc_applied d = ei_sequence e" "tc_state d = ObservedOpen \<or> tc_state d = EntryFailedFinal"
    "de_applied (decide_master_event None e now p)" "tc_reference d = Some (reference_time e)"
  using assms by (auto simp: decide_master_event_def observe_open_def Let_def ctx_ok_def lc_defs split: if_splits)

text \<open>The facts the projection derives confirm no close and no modification.\<close>

definition derived :: "link_update \<Rightarrow> bool" where
  "derived l \<longleftrightarrow>
     \<not> lu_modify_confirmed l \<and> \<not> lu_modify_failed l \<and> \<not> lu_close_confirmed l \<and> \<not> lu_close_failed l \<and> \<not> lu_partial l \<and>
     \<not> lu_lost l \<and> (lu_linked l \<longrightarrow> lu_ticket l \<noteq> None)"

lemma derive_derived: "derived (derive_link_update k f m t)"
  by (simp add: derive_link_update_def derived_def no_link_def split: option.split)

lemma decide_link_sound:
  assumes "ctx_ok c" "derived l"
  obtains d where "de_next (decide_link_update (Some c) l now p) = Some d" "ctx_ok d"
    "de_applied (decide_link_update (Some c) l now p) \<longleftrightarrow> tc_state d \<noteq> tc_state c"
    "tc_state d \<noteq> tc_state c \<Longrightarrow> lc_edge (tc_state c) (tc_state d)"
    "tc_applied d = tc_applied c" "tc_reference d = tc_reference c" "tc_ticket c \<noteq> None \<Longrightarrow> tc_ticket d = tc_ticket c"
    "linked_state (tc_state d) \<Longrightarrow> linked_state (tc_state c) \<and> tc_state d = tc_state c \<or>
       tc_state c = EntryPending \<and> tc_state d = Linked \<and> \<not> past_entry_deadline c now p"
  using assms
  by (cases "tc_state c"; fastforce simp: decide_link_update_def link_observed_def link_pending_def link_linked_def lc_defs
        ctx_ok_def derived_def split: if_splits)
section \<open>What one projection does\<close>

abbreviation moves :: "trail \<Rightarrow> (lc_state option \<times> lc_state) list" where
  "moves trs \<equiv> map (\<lambda>(a, b, _). (a, b)) trs"

definition stamps :: "trail \<Rightarrow> nat list" where
  "stamps trs = filter (\<lambda>n. 0 < n) (map (\<lambda>(_, _, _, n). n) trs)"

text \<open>Sequences that climb strictly, above \<open>a\<close> and up to \<open>b\<close>.\<close>

definition climbs :: "nat \<Rightarrow> nat list \<Rightarrow> nat \<Rightarrow> bool" where
  "climbs a ns b \<longleftrightarrow> a \<le> b \<and> sorted_wrt (<) ns \<and> (\<forall>n \<in> set ns. a < n \<and> n \<le> b)"

lemma climbs_snoc: "climbs a ns b \<Longrightarrow> b < n \<Longrightarrow> climbs a (ns @ [n]) n"
  by (auto simp: climbs_def sorted_wrt_append)

lemma climbs_mono: "climbs a ns b \<Longrightarrow> b \<le> c \<Longrightarrow> climbs a ns c"
  by (auto simp: climbs_def)

lemma climbs_append: "climbs a ns b \<Longrightarrow> climbs b ms c \<Longrightarrow> climbs a (ns @ ms) c"
  by (fastforce simp: climbs_def sorted_wrt_append)

definition lc_phase :: "ticket_ctx option \<Rightarrow> nat \<Rightarrow> nat \<Rightarrow> ticket_ctx option \<times> trail \<Rightarrow> bool" where
  "lc_phase s0 seen n x \<longleftrightarrow>
     (case fst x of
        None \<Rightarrow> s0 = None \<and> snd x = []
      | Some c \<Rightarrow>
          ctx_ok c \<and> tc_applied c \<le> n \<and> history (map_option tc_state s0) (moves (snd x)) (Some (tc_state c)) \<and>
          climbs seen (stamps (snd x)) (tc_applied c) \<and>
          (case s0 of None \<Rightarrow> \<not> linked_state (tc_state c) \<and> tc_state c \<noteq> EntryPending | Some c0 \<Rightarrow> kept c0 c))"


lemma lc_phase_step:
  assumes ph: "lc_phase s0 seen n x" and n: "n < me_sequence e" and seen: "seen \<le> n"
  shows "lc_phase s0 seen (me_sequence e) (project_event k now p e x)"
proof -
  let ?d = "decide_master_event (fst x) (classify k e) now p"
  have sq: "ei_sequence (classify k e) = me_sequence e" by (simp add: classify_def)
  show ?thesis
  proof (cases "fst x")
    case None
    then have x: "x = (None, [])" "s0 = None" using ph by (cases x; simp add: lc_phase_def)+
    show ?thesis
    proof (cases "de_next ?d")
      case None
      then show ?thesis using x by (simp add: project_event_def lc_phase_def Let_def)
    next
      case (Some d)
      note f = decide_first_event [of "classify k e" now p d, folded x(1)]
      have "de_rejected ?d \<noteq> ''stale_sequence''" using \<open>fst x = None\<close>
        by (auto simp: decide_master_event_def observe_open_def Let_def)
      then show ?thesis using Some x f sq n seen
        by (auto simp: project_event_def lc_phase_def Let_def stamps_def climbs_def lc_move_def lc_defs)
    qed
  next
    case (Some c)
    obtain trs where x: "x = (Some c, trs)" using Some by (cases x) simp
    obtain d where d: "de_next ?d = Some d" using decide_event_total Some by (metis not_Some_eq)
    have c: "ctx_ok c" "tc_applied c \<le> n" "history (map_option tc_state s0) (moves trs) (Some (tc_state c))"
      "climbs seen (stamps trs) (tc_applied c)"
      using ph by (simp_all add: lc_phase_def x)
    note s = decide_event_sound [OF c(1) d [unfolded Some], unfolded sq]
    have top: "tc_applied d \<le> me_sequence e" using s(3) c(2) n by simp
    have entry: "case s0 of None \<Rightarrow> \<not> linked_state (tc_state d) \<and> tc_state d \<noteq> EntryPending | Some c0 \<Rightarrow> kept c0 d"
    proof (cases s0)
      case None
      then show ?thesis using ph s(2) by (auto simp: lc_phase_def x kept_def dest: no_entryD(1) no_entryD(3))
    next
      case (Some c0)
      then show ?thesis using ph kept_trans [OF _ s(2)] by (simp add: lc_phase_def x)
    qed
    show ?thesis
    proof (cases "de_rejected ?d = ''stale_sequence''")
      case True
      then show ?thesis using ph n by (auto simp: project_event_def lc_phase_def x Let_def split: option.splits)
    next
      case fresh: False
      have up: "tc_applied c \<le> tc_applied d" using s(2) by (simp add: kept_def)
      show ?thesis
      proof (cases "tc_state d = tc_state c")
        case False
        then have "project_event k now p e x = (Some d, trs @ [(Some (tc_state c), tc_state d, de_reason ?d, me_sequence e)])"
          using fresh s(4) d by (simp add: project_event_def x Let_def)
        moreover have "lc_move (Some (tc_state c)) (tc_state d)" using s(5) [OF False] by (simp add: lc_move_def)
        moreover have "climbs seen (stamps trs @ [me_sequence e]) (tc_applied d)"
          using climbs_snoc [OF c(4)] s(6) [OF False] by simp
        ultimately show ?thesis using s(1) top c(3) entry n
          by (simp add: lc_phase_def stamps_def history_snoc)
      next
        case same: True
        show ?thesis
        proof (cases "de_reason ?d = ''terminal_absorbed''")
          case False
          then have "project_event k now p e x = (Some d, trs)" using fresh s(4) d same by (simp add: project_event_def x Let_def)
          then show ?thesis using s(1) top c(3) entry same climbs_mono [OF c(4) up] by (simp add: lc_phase_def)
        next
          case True
          then have t: "terminal_state (tc_state c)" using decide_event_absorbed [OF c(1)] Some by simp
          then have a: "tc_applied d = me_sequence e" using d c(2) n Some sq by (auto simp: decide_master_event_def)
          have m: "lc_move (Some (tc_state c)) (tc_state d)" using t same by (simp add: lc_move_def)
          have "climbs seen (stamps trs @ [me_sequence e]) (tc_applied d)"
            using climbs_snoc [OF c(4), of "me_sequence e"] c(2) n a by simp
          then show ?thesis using fresh d s(1) top c(3) entry same m n True s(4) climbs_mono [OF c(4) up]
            by (auto simp: project_event_def x Let_def lc_phase_def stamps_def history_snoc)
        qed
      qed
    qed
  qed
qed

lemma lc_phase_fold:
  assumes "sorted_wrt (<) (map me_sequence es)" "\<forall>e \<in> set es. n < me_sequence e" "lc_phase s0 seen n x" "seen \<le> n"
  shows "\<exists>n'. lc_phase s0 seen n' (fold (project_event k now p) es x)"
  using assms
proof (induction es arbitrary: n x)
  case (Cons e es)
  have "lc_phase s0 seen (me_sequence e) (project_event k now p e x)" using Cons.prems by (intro lc_phase_step) auto
  then show ?case using Cons.IH [of "me_sequence e" "project_event k now p e x"] Cons.prems by auto
qed auto
text \<open>A projection of one ticket, from the events to the link.\<close>

definition entered :: "lifecycle_policy \<Rightarrow> int \<Rightarrow> ticket_ctx \<Rightarrow> bool" where
  "entered p now c \<longleftrightarrow> tc_state c = Linked \<and> \<not> past_entry_deadline c now p"

definition projected :: "lifecycle_policy \<Rightarrow> int \<Rightarrow> ticket_ctx option \<Rightarrow> nat \<Rightarrow> ticket_ctx \<Rightarrow> trail \<Rightarrow> bool" where
  "projected p now s0 seen c trs \<longleftrightarrow>
     ctx_ok c \<and> history (map_option tc_state s0) (moves trs) (Some (tc_state c)) \<and> climbs seen (stamps trs) (tc_applied c) \<and>
     (case s0 of
        None \<Rightarrow> \<not> linked_state (tc_state c)
      | Some c0 \<Rightarrow>
          tc_reference c = tc_reference c0 \<and> (tc_ticket c0 \<noteq> None \<longrightarrow> tc_ticket c = tc_ticket c0) \<and>
          tc_applied c0 \<le> tc_applied c \<and> (terminal_state (tc_state c0) \<longrightarrow> tc_state c = tc_state c0) \<and>
          (linked_state (tc_state c) \<longrightarrow> linked_state (tc_state c0) \<or> entered p now c))"

lemma terminal_link: "terminal_state (tc_state c) \<Longrightarrow> decide_link_update (Some c) l now p = unchanged c ''terminal_absorbed''"
  by (simp add: decide_link_update_def)


lemma lc_phase_link:
  assumes ph: "lc_phase s0 seen n (Some c, trs)"
    and x: "project_link k f m t now p (c, trs) = (d, trs')"
  shows "projected p now s0 seen d trs'"
proof -
  let ?l = "derive_link_update k f m t"
  let ?r = "decide_link_update (Some c) ?l now p"
  have c: "ctx_ok c" "history (map_option tc_state s0) (moves trs) (Some (tc_state c))" "climbs seen (stamps trs) (tc_applied c)"
    using ph by (simp_all add: lc_phase_def)
  obtain d' where s: "de_next ?r = Some d'" "ctx_ok d'" "de_applied ?r \<longleftrightarrow> tc_state d' \<noteq> tc_state c"
    "tc_state d' \<noteq> tc_state c \<Longrightarrow> lc_edge (tc_state c) (tc_state d')"
    "tc_applied d' = tc_applied c" "tc_reference d' = tc_reference c" "tc_ticket c \<noteq> None \<Longrightarrow> tc_ticket d' = tc_ticket c"
    "linked_state (tc_state d') \<Longrightarrow> linked_state (tc_state c) \<and> tc_state d' = tc_state c \<or>
       tc_state c = EntryPending \<and> tc_state d' = Linked \<and> \<not> past_entry_deadline c now p"
    using decide_link_sound [OF c(1) derive_derived [of k f m t], of now p] by blast
  then have d: "d = d'" and trs': "trs' = (if tc_state d \<noteq> tc_state c then trs @ [(Some (tc_state c), tc_state d, de_reason ?r, 0)] else trs)"
    using x by (auto simp: project_link_def Let_def split: if_splits)
  note s = s [folded d]
  have "history (map_option tc_state s0) (moves trs') (Some (tc_state d))"
    using c(2) s(4) by (auto simp: trs' history_snoc lc_move_def)
  moreover have "stamps trs' = stamps trs" by (simp add: trs' stamps_def)
  moreover have "case s0 of None \<Rightarrow> \<not> linked_state (tc_state d) | Some c0 \<Rightarrow>
      tc_reference d = tc_reference c0 \<and> (tc_ticket c0 \<noteq> None \<longrightarrow> tc_ticket d = tc_ticket c0) \<and>
      tc_applied c0 \<le> tc_applied d \<and> (terminal_state (tc_state c0) \<longrightarrow> tc_state d = tc_state c0) \<and>
      (linked_state (tc_state d) \<longrightarrow> linked_state (tc_state c0) \<or> entered p now d)"
  proof (cases s0)
    case None
    then show ?thesis using ph s(8) by (auto simp: lc_phase_def)
  next
    case (Some c0)
    then have kc: "kept c0 c" using ph by (simp add: lc_phase_def)
    have "tc_state d = tc_state c0" if fin: "terminal_state (tc_state c0)"
    proof -
      have "tc_state c = tc_state c0" using kc no_entryD(2) fin by (simp add: kept_def)
      then have "?r = unchanged c ''terminal_absorbed''" using fin terminal_link by simp
      then show ?thesis using s(1) \<open>tc_state c = tc_state c0\<close> by simp
    qed
    moreover have "linked_state (tc_state c0) \<or> entered p now d" if lk: "linked_state (tc_state d)"
      using s(8) [OF lk] s(6) kc no_entryD(1) by (auto simp: kept_def entered_def past_entry_deadline_def)
    ultimately show ?thesis using Some kc s(5-7) by (auto simp: kept_def)
  qed
  ultimately show ?thesis using s(2,5) c(3) by (simp add: projected_def)
qed

section \<open>The tables\<close>

definition trail_of :: "lifecycle_db \<Rightarrow> nat \<Rightarrow> transition list" where
  "trail_of b i = filter (\<lambda>x. tr_lifecycle x = i) (lb_transitions b)"

definition row_ok :: "lifecycle_policy \<Rightarrow> transition list \<Rightarrow> lifecycle_row \<Rightarrow> bool" where
  "row_ok p ts r \<longleftrightarrow>
     ctx_ok (ctx_from_row r) \<and> lf_terminal r = terminal_state (lf_state r) \<and> lf_closed_at r = None \<and>
     history None (map (\<lambda>x. (tr_from x, tr_to x)) ts) (Some (lf_state r)) \<and>
     climbs 0 (filter (\<lambda>n. 0 < n) (map tr_sequence ts)) (lf_applied r) \<and>
     (linked_state (lf_state r) \<longrightarrow> lf_linked_at r \<noteq> None) \<and>
     (\<forall>t. lf_linked_at r = Some t \<longrightarrow> (\<exists>x. lf_reference r = Some x \<and> t - x \<le> ly_entry p))"

definition lifecycle_key :: "lifecycle_row \<Rightarrow> nat \<times> nat \<times> int" where
  "lifecycle_key r = (lf_follower r, lf_master r, lf_master_ticket r)"

definition lifecycle_ok :: "lifecycle_policy \<Rightarrow> lifecycle_db \<Rightarrow> bool" where
  "lifecycle_ok p b \<longleftrightarrow>
     distinct (map lf_id (lb_rows b)) \<and> distinct (map lifecycle_key (lb_rows b)) \<and>
     (\<forall>r \<in> set (lb_rows b). lf_id r < lb_next b \<and> row_ok p (trail_of b (lf_id r)) r) \<and>
     (\<forall>x \<in> set (lb_transitions b). tr_lifecycle x < lb_next b)"

definition row_later :: "lifecycle_row \<Rightarrow> lifecycle_row \<Rightarrow> bool" where
  "row_later r s \<longleftrightarrow>
     lf_id s = lf_id r \<and> lifecycle_key s = lifecycle_key r \<and> lf_reference s = lf_reference r \<and> lf_applied r \<le> lf_applied s \<and>
     (lf_terminal r \<longrightarrow> lf_state s = lf_state r) \<and> (lf_ticket r \<noteq> None \<longrightarrow> lf_ticket s = lf_ticket r) \<and>
     (lf_linked_at r \<noteq> None \<longrightarrow> lf_linked_at s = lf_linked_at r)"

definition lifecycle_later :: "lifecycle_db \<Rightarrow> lifecycle_db \<Rightarrow> bool" where
  "lifecycle_later b c \<longleftrightarrow>
     (\<forall>r \<in> set (lb_rows b). \<exists>s \<in> set (lb_rows c). row_later r s) \<and> (\<exists>ts. lb_transitions c = lb_transitions b @ ts)"

text \<open>The sequence numbers of a master are unique.\<close>

definition sequences_unique :: "copier_db \<Rightarrow> bool" where
  "sequences_unique k \<longleftrightarrow> distinct (map (\<lambda>e. (me_master e, me_sequence e)) (kd_events k))"
lemma later_events_rise:
  assumes "sequences_unique k"
  shows "sorted_wrt (<) (map me_sequence (later_events k m t n))" "\<forall>e \<in> set (later_events k m t n). n < me_sequence e"
proof -
  let ?es = "filter (\<lambda>e. me_master e = m \<and> me_ticket e = t \<and> me_sequence e > n) (kd_events k)"
  have "distinct (map (\<lambda>e. (me_master e, me_sequence e)) ?es)" using assms unfolding sequences_unique_def
    by (rule distinct_map_filter)
  then have "distinct ?es" "inj_on (\<lambda>e. (me_master e, me_sequence e)) (set ?es)" by (simp_all only: distinct_map)
  moreover from this(2) have "inj_on me_sequence (set ?es)" by (simp add: inj_on_def)
  ultimately have "distinct (map me_sequence ?es)" by (simp add: distinct_map)
  then show "sorted_wrt (<) (map me_sequence (later_events k m t n))"
    by (simp add: later_events_def strict_sorted_iff distinct_map)
  show "\<forall>e \<in> set (later_events k m t n). n < me_sequence e" by (simp add: later_events_def)
qed

lemma lifecycle_ofD: "lifecycle_of b f m t = Some r \<Longrightarrow> r \<in> set (lb_rows b) \<and> lifecycle_key r = (f, m, t)"
  by (auto simp: lifecycle_of_def lifecycle_key_def dest: find_SomeD)

lemma lifecycle_of_None: "lifecycle_of b f m t = None \<Longrightarrow> r \<in> set (lb_rows b) \<Longrightarrow> lifecycle_key r \<noteq> (f, m, t)"
  by (auto simp: lifecycle_of_def lifecycle_key_def dest: find_NoneD)

lemma projected_row_simps [simp]:
  "lf_id (projected_row r c trs now p e) = lf_id r" "lifecycle_key (projected_row r c trs now p e) = lifecycle_key r"
  "lf_state (projected_row r c trs now p e) = tc_state c" "lf_applied (projected_row r c trs now p e) = tc_applied c"
  "lf_reference (projected_row r c trs now p e) = tc_reference c" "lf_ticket (projected_row r c trs now p e) = tc_ticket c"
  "lf_terminal (projected_row r c trs now p e) = terminal_state (tc_state c)"
  "ctx_from_row (projected_row r c trs now p e) = c"
  by (simp_all add: projected_row_def lifecycle_key_def ctx_from_row_def)

lemma blank_row_simps [simp]:
  "lf_id (blank_row i f m t) = i" "lifecycle_key (blank_row i f m t) = (f, m, t)" "lf_linked_at (blank_row i f m t) = None"
  "lf_closed_at (blank_row i f m t) = None"
  by (simp_all add: blank_row_def lifecycle_key_def)

lemma trail_rows_of: "filter (\<lambda>x. tr_lifecycle x = j) (trail_rows i trs) = (if j = i then trail_rows i trs else [])"
  by (induction trs) (auto simp: trail_rows_def)

lemma trail_rows_simps:
  "map (\<lambda>x. (tr_from x, tr_to x)) (trail_rows i trs) = moves trs"
  "filter (\<lambda>n. 0 < n) (map tr_sequence (trail_rows i trs)) = stamps trs"
  by (induction trs) (auto simp: trail_rows_def stamps_def)

lemma row_ok_new:
  assumes "projected p now None 0 c trs"
  shows "row_ok p (trail_rows j trs) (projected_row (blank_row i f m t) c trs now p e)"
  using assms
  by (auto simp: projected_def row_ok_def trail_rows_simps projected_row_def ctx_from_row_def ctx_ok_def blank_row_def lc_defs)

lemma row_ok_next:
  assumes pr: "projected p now (Some (ctx_from_row r)) (lf_applied r) c trs" and r: "row_ok p ts r"
  shows "row_ok p (ts @ trail_rows j trs) (projected_row r c trs now p e)" "row_later r (projected_row r c trs now p e)"
proof -
  have c: "ctx_ok c" "history (Some (lf_state r)) (moves trs) (Some (tc_state c))" "climbs (lf_applied r) (stamps trs) (tc_applied c)"
    "tc_reference c = lf_reference r" "lf_ticket r \<noteq> None \<Longrightarrow> tc_ticket c = lf_ticket r" "lf_applied r \<le> tc_applied c"
    "terminal_state (lf_state r) \<Longrightarrow> tc_state c = lf_state r"
    "linked_state (tc_state c) \<Longrightarrow> linked_state (lf_state r) \<or> entered p now c"
    using pr by (simp_all add: projected_def ctx_from_row_def)
  have lt: "lf_linked_at (projected_row r c trs now p e) = (if tc_state c = Linked \<and> lf_linked_at r = None then Some now else lf_linked_at r)"
    by (simp add: projected_row_def)
  have dl: "lf_closed_at (projected_row r c trs now p e) = None" using c(1) r by (simp add: projected_row_def ctx_ok_def row_ok_def)
  have in_time: "\<exists>x. lf_reference r = Some x \<and> now - x \<le> ly_entry p" if "tc_state c = Linked" "lf_linked_at r = None"
  proof -
    have "\<not> linked_state (lf_state r)" using r that(2) by (auto simp: row_ok_def)
    then have "entered p now c" using c(8) that(1) by (simp add: linked_state_def)
    then show ?thesis using c(1,4) by (auto simp: entered_def past_entry_deadline_def ctx_ok_def)
  qed
  have "linked_state (tc_state c) \<longrightarrow> tc_state c = Linked \<or> lf_linked_at r \<noteq> None"
    using c(8) r by (auto simp: row_ok_def entered_def)
  then show "row_ok p (ts @ trail_rows j trs) (projected_row r c trs now p e)"
    using r c(1,2,3,4) dl in_time history_append climbs_append
    by (auto simp: row_ok_def trail_rows_simps lt)
  show "row_later r (projected_row r c trs now p e)"
    using c(4-7) r by (auto simp: row_later_def lt row_ok_def)
qed

lemma row_later_refl [simp]: "row_later r r"
  by (simp add: row_later_def)

lemma row_later_in: "r \<in> A \<Longrightarrow> \<exists>s \<in> A. row_later r s"
  by (rule bexI [of _ r]) simp_all

lemma row_later_trans: "row_later r s \<Longrightarrow> row_later s t \<Longrightarrow> lf_terminal s = terminal_state (lf_state s) \<Longrightarrow>
    lf_terminal r = terminal_state (lf_state r) \<Longrightarrow> row_later r t"
  by (auto simp: row_later_def)


lemma trail_rows_lifecycle: "x \<in> set (trail_rows i trs) \<Longrightarrow> tr_lifecycle x = i"
  by (auto simp: trail_rows_def)

lemma lifecycle_later_refl: "lifecycle_later b b"
  by (auto simp: lifecycle_later_def intro: row_later_in)

lemma save_new_ok:
  assumes ok: "lifecycle_ok p b" and new: "lf_id s = lb_next b" "\<forall>r \<in> set (lb_rows b). lifecycle_key r \<noteq> lifecycle_key s"
    and s: "row_ok p (trail_rows (lf_id s) trs) s"
  shows "lifecycle_ok p (save_projection s trs b)" "lifecycle_later b (save_projection s trs b)"
proof -
  let ?b = "save_projection s trs b"
  have old: "lf_id r < lf_id s" if "r \<in> set (lb_rows b)" for r using ok new(1) that by (simp add: lifecycle_ok_def)
  have fresh: "trail_of b (lf_id s) = []" using ok new(1) by (auto simp: lifecycle_ok_def trail_of_def filter_empty_conv)
  have rows: "lb_rows ?b = lb_rows b @ [s]" "lb_next ?b = Suc (lf_id s)"
    "lb_transitions ?b = lb_transitions b @ trail_rows (lf_id s) trs"
    using new(1) by (simp_all add: save_row_def save_projection_def)
  have tr: "trail_of ?b j = trail_of b j @ (if j = lf_id s then trail_rows (lf_id s) trs else [])" for j
    by (simp add: trail_of_def rows trail_rows_of)
  show "lifecycle_ok p ?b"
    using ok old new fresh s
    by (auto simp: lifecycle_ok_def rows tr dest: trail_rows_lifecycle)
  show "lifecycle_later b ?b" using row_later_in by (fastforce simp: lifecycle_later_def rows)
qed

lemma save_old_ok:
  assumes ok: "lifecycle_ok p b" and r: "r \<in> set (lb_rows b)" and s: "row_later r s"
    "row_ok p (trail_of b (lf_id r) @ trail_rows (lf_id s) trs) s"
  shows "lifecycle_ok p (save_projection s trs b)" "lifecycle_later b (save_projection s trs b)"
proof -
  let ?b = "save_projection s trs b"
  have id: "lf_id s = lf_id r" "lifecycle_key s = lifecycle_key r" using s(1) by (simp_all add: row_later_def)
  have "lf_id r < lb_next b" using ok r by (simp add: lifecycle_ok_def)
  then have rows: "lb_rows ?b = map (\<lambda>x. if lf_id x = lf_id r then s else x) (lb_rows b)" "lb_next ?b = lb_next b"
    "lb_transitions ?b = lb_transitions b @ trail_rows (lf_id r) trs"
    using id by (simp_all add: save_row_def save_projection_def)
  have uniq: "x = r" if "x \<in> set (lb_rows b)" "lf_id x = lf_id r" for x
    using ok r that by (auto simp: lifecycle_ok_def distinct_map dest: inj_onD)
  have same: "map f (lb_rows ?b) = map f (lb_rows b)" if "f s = f r" for f :: "lifecycle_row \<Rightarrow> 'a"
    using uniq that by (auto simp: rows)
  have tr: "trail_of ?b j = trail_of b j @ (if j = lf_id r then trail_rows (lf_id r) trs else [])" for j
    by (simp add: trail_of_def rows trail_rows_of)
  have "\<forall>x \<in> set (lb_rows ?b). lf_id x < lb_next b \<and> row_ok p (trail_of ?b (lf_id x)) x"
    using ok s(2) id \<open>lf_id r < lb_next b\<close> by (auto simp: rows tr lifecycle_ok_def)
  moreover have "\<forall>x \<in> set (lb_transitions ?b). tr_lifecycle x < lb_next b"
    using ok \<open>lf_id r < lb_next b\<close> by (auto simp: rows lifecycle_ok_def dest: trail_rows_lifecycle)
  ultimately show "lifecycle_ok p ?b"
    using ok same [of lf_id, OF id(1)] same [of lifecycle_key, OF id(2)] by (simp only: lifecycle_ok_def rows(2))
  have "\<exists>y \<in> set (lb_rows ?b). row_later x y" if "x \<in> set (lb_rows b)" for x
  proof (cases "lf_id x = lf_id r")
    case True
    then show ?thesis using that s(1) uniq by (auto simp: rows)
  next
    case False
    then have "x \<in> set (lb_rows ?b)" using that by (auto simp: rows)
    then show ?thesis by (rule row_later_in)
  qed
  then show "lifecycle_later b ?b" by (auto simp: lifecycle_later_def rows)
qed

lemma project_ticket_ok:
  assumes ok: "lifecycle_ok p b" and k: "sequences_unique k"
  shows "lifecycle_ok p (project_follower_ticket k now p f m t oe b) \<and>
    lifecycle_later b (project_follower_ticket k now p f m t oe b)"
proof -
  define row where "row = lifecycle_of b f m t"
  define start where "start = map_option ctx_from_row row"
  define seen where "seen = (case row of None \<Rightarrow> 0 | Some r \<Rightarrow> lf_applied r)"
  define x where "x = fold (project_event k now p) (later_events k m t seen) (start, [])"
  have row_in: "r \<in> set (lb_rows b)" "row_ok p (trail_of b (lf_id r)) r" if "row = Some r" for r
    using lifecycle_ofD that ok by (auto simp: row_def lifecycle_ok_def)
  have "lc_phase start seen seen (start, [])"
    using row_in by (cases row)
      (auto simp: lc_phase_def start_def seen_def row_ok_def climbs_def stamps_def kept_def ctx_from_row_def)
  then obtain n where ph: "lc_phase start seen n x"
    using lc_phase_fold [OF later_events_rise [OF k]] unfolding x_def by blast
  show ?thesis
  proof (cases "fst x")
    case None
    then have "project_follower_ticket k now p f m t oe b = b"
      by (simp add: project_follower_ticket_def Let_def case_prod_beta x_def start_def seen_def row_def)
    then show ?thesis using ok lifecycle_later_refl by simp
  next
    case (Some c)
    obtain d trs where lk: "project_link k f m t now p (c, snd x) = (d, trs)" by fastforce
    have pr: "projected p now start seen d trs" using lc_phase_link [OF _ lk] ph Some by (metis prod.collapse)
    define s where "s = projected_row (case row of None \<Rightarrow> blank_row (lb_next b) f m t | Some r \<Rightarrow> r) d trs now p oe"
    have out: "project_follower_ticket k now p f m t oe b = save_projection s trs b"
      using Some lk
      by (simp add: project_follower_ticket_def Let_def case_prod_beta x_def start_def seen_def row_def s_def)
    show ?thesis
    proof (cases row)
      case None
      have "row_ok p (trail_rows (lf_id s) trs) s"
        using row_ok_new pr by (simp add: None start_def seen_def s_def)
      moreover have "lf_id s = lb_next b" "\<forall>r \<in> set (lb_rows b). lifecycle_key r \<noteq> lifecycle_key s"
        using lifecycle_of_None None by (simp_all add: s_def row_def)
      ultimately show ?thesis unfolding out using save_new_ok [OF ok] by blast
    next
      case (Some r)
      have "projected p now (Some (ctx_from_row r)) (lf_applied r) d trs" using pr by (simp add: Some start_def seen_def)
      note n = row_ok_next [OF this row_in(2) [OF Some], where e = oe]
      show ?thesis unfolding out using save_old_ok [OF ok row_in(1) [OF Some]] n by (simp add: s_def Some)
    qed
  qed
qed

section \<open>Runs\<close>

lemma lifecycle_later_trans:
  assumes "lifecycle_ok p a" "lifecycle_ok p b" "lifecycle_later a b" "lifecycle_later b c"
  shows "lifecycle_later a c"
proof -
  have fin: "lf_terminal r = terminal_state (lf_state r)" if "r \<in> set (lb_rows a) \<or> r \<in> set (lb_rows b)" for r
    using assms(1,2) that by (auto simp: lifecycle_ok_def row_ok_def)
  have "\<exists>t \<in> set (lb_rows c). row_later r t" if r: "r \<in> set (lb_rows a)" for r
  proof -
    obtain s where s: "s \<in> set (lb_rows b)" "row_later r s" using assms(3) r by (auto simp: lifecycle_later_def)
    obtain t where t: "t \<in> set (lb_rows c)" "row_later s t" using assms(4) s(1) by (auto simp: lifecycle_later_def)
    show ?thesis using row_later_trans [OF s(2) t(2)] fin r s(1) t(1) by blast
  qed
  then show ?thesis using assms(3,4) by (auto simp: lifecycle_later_def)
qed

text \<open>One pass over all masters: the flag, the ledger as it stands, the clock and the limit.\<close>

type_synonym lifecycle_pass = "bool \<times> copier_db \<times> int \<times> nat"

definition lifecycle_act :: "lifecycle_policy \<Rightarrow> lifecycle_pass \<Rightarrow> lifecycle_db \<Rightarrow> lifecycle_db" where
  "lifecycle_act p a b = (case a of (on, k, now, limit) \<Rightarrow> run_lifecycle_pass on k now p limit b)"

definition lifecycle_run :: "lifecycle_policy \<Rightarrow> lifecycle_pass list \<Rightarrow> lifecycle_db \<Rightarrow> lifecycle_db" where
  "lifecycle_run p = fold (lifecycle_act p)"

definition empty_lifecycles :: lifecycle_db where
  "empty_lifecycles = \<lparr>lb_rows = [], lb_transitions = [], lb_next = 1\<rparr>"

lemma empty_lifecycles_ok: "lifecycle_ok p empty_lifecycles"
  by (simp add: lifecycle_ok_def empty_lifecycles_def)

text \<open>The later tables, from tables that are in order.\<close>

definition grown :: "lifecycle_policy \<Rightarrow> lifecycle_db \<Rightarrow> lifecycle_db \<Rightarrow> bool" where
  "grown p b c \<longleftrightarrow> lifecycle_ok p b \<longrightarrow> lifecycle_ok p c \<and> lifecycle_later b c"

lemma grown_refl: "grown p b b"
  by (simp add: grown_def lifecycle_later_refl)

lemma grown_trans: "grown p a b \<Longrightarrow> grown p b c \<Longrightarrow> grown p a c"
  unfolding grown_def using lifecycle_later_trans by blast

lemma grown_fold: "(\<And>x b. x \<in> set xs \<Longrightarrow> grown p b (g x b)) \<Longrightarrow> grown p b (fold g xs b)"
proof (induction xs arbitrary: b)
  case (Cons x xs)
  have "grown p (g x b) (fold g xs (g x b))" using Cons.prems by (intro Cons.IH) simp
  then show ?case using grown_trans [of p b "g x b"] Cons.prems by simp
qed (simp add: grown_refl)

lemma pass_grown: "sequences_unique k \<Longrightarrow> grown p b (run_lifecycle_pass on k now p limit b)"
  unfolding run_lifecycle_pass_def project_master_def Let_def
  by (auto simp: grown_refl intro!: grown_fold) (simp add: grown_def project_ticket_ok)

interpretation lifecycles: monotone_runs "lifecycle_act p" "\<lambda>a. sequences_unique (fst (snd a))" "lifecycle_ok p" "grown p"
  for p
proof unfold_locales
  fix a :: lifecycle_pass and b
  assume a: "sequences_unique (fst (snd a))" and b: "lifecycle_ok p b"
  show "lifecycle_ok p (lifecycle_act p a b)" "grown p b (lifecycle_act p a b)"
    using pass_grown [OF a] b by (auto simp: lifecycle_act_def grown_def split: prod.split)
qed (use grown_refl grown_trans in blast)+

section \<open>Settling\<close>

lemma project_event_applied:
  assumes "case fst x of None \<Rightarrow> True | Some c \<Rightarrow> tc_applied c < me_sequence e"
  shows "case fst (project_event k now p e x) of None \<Rightarrow> fst x = None | Some d \<Rightarrow> tc_applied d = me_sequence e"
proof (cases "fst x")
  case None
  then show ?thesis
    by (auto simp: project_event_def Let_def decide_master_event_def observe_open_def classify_def split: prod.split)
next
  case (Some c)
  then show ?thesis using assms
    by (cases x; cases "category_for (me_type e)")
      (auto simp: project_event_def Let_def decide_master_event_def classify_def apply_full_close_def apply_partial_close_def
        apply_modify_def)
qed

lemma project_events_applied:
  assumes "sorted_wrt (<) (map me_sequence es)" "\<forall>e \<in> set es. n < me_sequence e"
    "case fst x of None \<Rightarrow> True | Some c \<Rightarrow> tc_applied c \<le> n" "fst (fold (project_event k now p) es x) = Some d"
  shows "\<forall>e \<in> set es. me_sequence e \<le> tc_applied d"
  using assms
proof (induction es arbitrary: n x)
  case (Cons e es)
  let ?y = "project_event k now p e x"
  have y: "case fst ?y of None \<Rightarrow> fst x = None | Some c \<Rightarrow> tc_applied c = me_sequence e"
    using Cons.prems(2,3) by (intro project_event_applied) (auto split: option.splits)
  then have "case fst ?y of None \<Rightarrow> True | Some c \<Rightarrow> tc_applied c \<le> me_sequence e" by (auto split: option.splits)
  then have later: "\<forall>e' \<in> set es. me_sequence e' \<le> tc_applied d" using Cons.prems by (intro Cons.IH [of "me_sequence e" ?y]) auto
  moreover have "me_sequence e \<le> tc_applied d"
  proof (cases es)
    case Nil
    then show ?thesis using y Cons.prems(4) by simp
  next
    case (Cons e' es')
    then show ?thesis using later Cons.prems(1) by auto
  qed
  ultimately show ?case by simp
qed simp

definition link_ctx :: "copier_db \<Rightarrow> nat \<Rightarrow> nat \<Rightarrow> int \<Rightarrow> int \<Rightarrow> lifecycle_policy \<Rightarrow> ticket_ctx \<Rightarrow> ticket_ctx" where
  "link_ctx k f m t now p c = fst (project_link k f m t now p (c, []))"

lemma project_link_ctx: "fst (project_link k f m t now p (c, trs)) = link_ctx k f m t now p c"
  by (simp add: link_ctx_def project_link_def Let_def split: option.split)

lemma link_ctx_thrice:
  assumes "ctx_ok c"
  shows "link_ctx k f m t now p (link_ctx k f m t now p (link_ctx k f m t now p c)) =
    link_ctx k f m t now p (link_ctx k f m t now p c)"
proof -
  define l where "l = derive_link_update k f m t"
  have L: "link_ctx k f m t now p c = (case de_next (decide_link_update (Some c) l now p) of None \<Rightarrow> c | Some d \<Rightarrow> d)" for c
    by (simp add: link_ctx_def project_link_def Let_def l_def split: option.split)
  have "derived l" by (simp add: l_def derive_derived)
  then show ?thesis using assms
    by (cases "tc_state c"; cases "past_entry_deadline c now p"; cases "lu_divergent l"; cases "lu_attempted l"; cases "lu_failed l";
        cases "lu_linked l")
      (simp_all add: L decide_link_update_def link_observed_def link_pending_def link_linked_def terminal_state_def derived_def
        ctx_ok_def past_entry_deadline_def)
qed

lemma link_ctx_kept:
  assumes "ctx_ok c"
  shows "ctx_ok (link_ctx k f m t now p c)" "tc_applied (link_ctx k f m t now p c) = tc_applied c"
proof -
  obtain d where "de_next (decide_link_update (Some c) (derive_link_update k f m t) now p) = Some d" "ctx_ok d"
    "tc_applied d = tc_applied c"
    by (rule decide_link_sound [OF assms derive_derived])
  then show "ctx_ok (link_ctx k f m t now p c)" "tc_applied (link_ctx k f m t now p c) = tc_applied c"
    by (simp_all add: link_ctx_def project_link_def Let_def)
qed

lemma link_stable: "ctx_ok c \<Longrightarrow> link_ctx k f m t now p c = c \<Longrightarrow> snd (project_link k f m t now p (c, [])) = []"
  using decide_link_sound [of c "derive_link_update k f m t" now p] derive_derived [of k f m t]
  by (auto simp: link_ctx_def project_link_def Let_def split: option.splits)

lemma lifecycle_of_saved:
  assumes "lifecycle_ok p b" "lf_id s = lb_next b \<and> lifecycle_of b f m t = None \<or> lifecycle_of b f m t = Some r \<and> lf_id s = lf_id r"
    "lifecycle_key s = (f, m, t)"
  shows "lifecycle_of (save_projection s trs b) f m t = Some s"
    "lifecycle_key r' \<noteq> (f, m, t) \<Longrightarrow> lifecycle_key r' = (f', m', t') \<Longrightarrow>
       lifecycle_of (save_projection s trs b) f' m' t' = lifecycle_of b f' m' t'"
proof -
  define key where "key = (\<lambda>f m t (r :: lifecycle_row). lf_follower r = f \<and> lf_master r = m \<and> lf_master_ticket r = t)"
  have at: "lifecycle_of b f m t = find (key f m t) (lb_rows b)" for b f m t by (simp add: lifecycle_of_def key_def)
  have ks: "key f m t s" "key f' m' t' s \<longleftrightarrow> (f', m', t') = (f, m, t)" for f' m' t'
    using assms(3) by (auto simp: key_def lifecycle_key_def)
  have "lifecycle_of (save_projection s trs b) f m t = Some s \<and>
    ((f', m', t') \<noteq> (f, m, t) \<longrightarrow> lifecycle_of (save_projection s trs b) f' m' t' = lifecycle_of b f' m' t')" for f' m' t'
  proof (cases "lf_id s = lb_next b \<and> lifecycle_of b f m t = None")
    case True
    then have "lb_rows (save_projection s trs b) = lb_rows b @ [s]" by (simp add: save_projection_def save_row_def)
    then show ?thesis using True ks by (auto simp: at find_append split: option.split)
  next
    case False
    then have r: "lifecycle_of b f m t = Some r" "lf_id s = lf_id r" using assms(2) by auto
    have mem: "r \<in> set (lb_rows b)" "key f m t r" using r(1) by (auto simp: at dest: find_SomeD)
    then have "lf_id s \<noteq> lb_next b" using assms(1) r(2) by (auto simp: lifecycle_ok_def)
    then have rows: "lb_rows (save_projection s trs b) = map (\<lambda>x. if lf_id x = lf_id r then s else x) (lb_rows b)"
      by (simp add: save_projection_def save_row_def r(2))
    have uniq: "lf_id x = lf_id r \<longleftrightarrow> x = r" if "x \<in> set (lb_rows b)" for x
      using assms(1) mem(1) that by (auto simp: lifecycle_ok_def distinct_map dest: inj_onD)
    have "find (key a b' c) (map (\<lambda>x. if lf_id x = lf_id r then s else x) xs) =
        (if (a, b', c) = (f, m, t) then map_option (\<lambda>x. if lf_id x = lf_id r then s else x) (find (key a b' c) xs)
         else find (key a b' c) xs)" if "set xs \<subseteq> set (lb_rows b)" for xs a b' c
      using that
    proof (induction xs)
      case (Cons x xs)
      then show ?case using uniq [of x] ks mem(2) by (auto simp: key_def)
    qed simp
    then show ?thesis using r mem by (auto simp: at rows)
  qed
  then show "lifecycle_of (save_projection s trs b) f m t = Some s"
    "lifecycle_key r' \<noteq> (f, m, t) \<Longrightarrow> lifecycle_key r' = (f', m', t') \<Longrightarrow>
       lifecycle_of (save_projection s trs b) f' m' t' = lifecycle_of b f' m' t'" by auto
qed

lemma project_quiet:
  assumes "lifecycle_of b f m t = Some r" "later_events k m t (lf_applied r) = []"
  shows "project_follower_ticket k now p f m t oe b =
    (let (c, trs) = project_link k f m t now p (ctx_from_row r, []) in save_projection (projected_row r c trs now p oe) trs b)"
  using assms by (simp add: project_follower_ticket_def Let_def)

lemma project_ticket_row:
  assumes ok: "lifecycle_ok p b" and k: "sequences_unique k"
  obtains "project_follower_ticket k now p f m t oe b = b" "lifecycle_of b f m t = None"
  | r c where "lifecycle_of (project_follower_ticket k now p f m t oe b) f m t = Some r" "ctx_ok c"
      "ctx_from_row r = link_ctx k f m t now p c" "later_events k m t (lf_applied r) = []"
      "lf_linked_at r \<noteq> None \<or> lf_state r \<noteq> Linked" "lf_closed_at r \<noteq> None \<or> lf_state r \<noteq> LcClosed"
      "lf_open_event r \<noteq> None \<or> oe = None" "lf_last r = now" "lf_deadline r = map_option (\<lambda>x. x + ly_entry p) (lf_reference r)"
proof -
  define row where "row = lifecycle_of b f m t"
  define start where "start = map_option ctx_from_row row"
  define seen where "seen = (case row of None \<Rightarrow> 0 | Some r \<Rightarrow> lf_applied r)"
  define x where "x = fold (project_event k now p) (later_events k m t seen) (start, [])"
  have row_in: "r \<in> set (lb_rows b)" "row_ok p (trail_of b (lf_id r)) r" "lifecycle_key r = (f, m, t)" if "row = Some r" for r
    using lifecycle_ofD that ok by (auto simp: row_def lifecycle_ok_def)
  have "lc_phase start seen seen (start, [])"
    using row_in by (cases row)
      (auto simp: lc_phase_def start_def seen_def row_ok_def climbs_def stamps_def kept_def ctx_from_row_def)
  then obtain n where ph: "lc_phase start seen n x"
    using lc_phase_fold [OF later_events_rise [OF k]] unfolding x_def by blast
  show thesis
  proof (cases "fst x")
    case None
    then have "project_follower_ticket k now p f m t oe b = b"
      by (simp add: project_follower_ticket_def Let_def case_prod_beta x_def start_def seen_def row_def)
    moreover have "row = None" using ph None by (simp add: lc_phase_def start_def)
    ultimately show thesis using that(1) by (simp add: row_def)
  next
    case (Some c)
    have "case fst (start, [] :: trail) of None \<Rightarrow> True | Some c \<Rightarrow> tc_applied c \<le> seen"
      by (cases row) (simp_all add: start_def seen_def ctx_from_row_def)
    then have top: "\<forall>e \<in> set (later_events k m t seen). me_sequence e \<le> tc_applied c"
      using project_events_applied [OF later_events_rise [OF k]] Some unfolding x_def by blast
    have c: "ctx_ok c" "seen \<le> tc_applied c" using ph Some by (simp_all add: lc_phase_def climbs_def)
    obtain d trs where lk: "project_link k f m t now p (c, snd x) = (d, trs)" by fastforce
    have d: "d = link_ctx k f m t now p c" using project_link_ctx [of k f m t now p c "snd x"] lk by simp
    define r0 where "r0 = (case row of None \<Rightarrow> blank_row (lb_next b) f m t | Some r \<Rightarrow> r)"
    define s where "s = projected_row r0 d trs now p oe"
    have out: "project_follower_ticket k now p f m t oe b = save_projection s trs b"
      using Some lk
      by (simp add: project_follower_ticket_def Let_def case_prod_beta x_def start_def seen_def row_def s_def r0_def)
    have "lifecycle_of (save_projection s trs b) f m t = Some s"
      using row_in(3) by (intro lifecycle_of_saved(1) [OF ok, where r = "the row"])
        (cases row; auto simp: s_def r0_def row_def)+
    moreover have "ctx_from_row s = link_ctx k f m t now p c" by (simp add: s_def d)
    moreover have "lf_applied s = tc_applied c" using link_ctx_kept(2) [OF c(1)] by (simp add: s_def d)
    then have "set (later_events k m t (lf_applied s)) = {}"
      using top c(2) by (auto simp: later_events_def)
    then have "later_events k m t (lf_applied s) = []" by simp
    moreover have "lf_linked_at s \<noteq> None \<or> lf_state s \<noteq> Linked" "lf_closed_at s \<noteq> None \<or> lf_state s \<noteq> LcClosed"
      "lf_open_event s \<noteq> None \<or> oe = None" "lf_last s = now" "lf_deadline s = map_option (\<lambda>x. x + ly_entry p) (lf_reference s)"
      unfolding s_def projected_row_def
      by (cases "lf_linked_at r0"; cases "lf_closed_at r0"; cases "lf_open_event r0"; cases oe; simp)+
    ultimately show thesis using c(1) unfolding out [symmetric] by (intro that(2) [of s c])
  qed
qed

lemma save_same:
  assumes "lifecycle_ok p b" "lifecycle_of b f m t = Some r"
  shows "save_projection r [] b = b"
proof -
  have r: "r \<in> set (lb_rows b)" using assms(2) lifecycle_ofD by blast
  have "x = r" if "x \<in> set (lb_rows b)" "lf_id x = lf_id r" for x
    using assms(1) r that by (auto simp: lifecycle_ok_def distinct_map dest: inj_onD)
  then have "map (\<lambda>x. if lf_id x = lf_id r then r else x) (lb_rows b) = lb_rows b" by (intro map_idI) auto
  moreover have "lf_id r \<noteq> lb_next b" using assms(1) r by (auto simp: lifecycle_ok_def)
  ultimately show ?thesis by (simp add: save_projection_def save_row_def trail_rows_def)
qed

lemma project_again:
  assumes ok: "lifecycle_ok p b" and k: "sequences_unique k"
    and r: "lifecycle_of b f m t = Some r" "ctx_ok (ctx_from_row r)" "later_events k m t (lf_applied r) = []"
    and c: "link_ctx k f m t now p (ctx_from_row r) = ctx_from_row r"
    and times: "lf_linked_at r \<noteq> None \<or> lf_state r \<noteq> Linked" "lf_closed_at r \<noteq> None \<or> lf_state r \<noteq> LcClosed"
      "lf_open_event r \<noteq> None \<or> oe = None" "lf_last r = now" "lf_deadline r = map_option (\<lambda>x. x + ly_entry p) (lf_reference r)"
      "lf_terminal r = terminal_state (lf_state r)"
  shows "project_follower_ticket k now p f m t oe b = b"
proof -
  have l: "project_link k f m t now p (ctx_from_row r, []) = (ctx_from_row r, [])"
    using c link_stable [OF r(2) c] unfolding link_ctx_def by (simp only: prod_eq_iff fst_conv snd_conv)
  have s: "projected_row r (ctx_from_row r) [] now p oe = r"
    using times by (cases "lf_open_event r"; cases oe; cases r; auto simp: projected_row_def ctx_from_row_def)
  show ?thesis unfolding project_quiet [OF r(1,3)] l Let_def prod.case s by (rule save_same [OF ok r(1)])
qed

lemma project_keeps_row:
  assumes ok: "lifecycle_ok p b" and "lifecycle_of b f m t = Some r"
  shows "ctx_ok (ctx_from_row r)" "lf_terminal r = terminal_state (lf_state r)"
  using assms lifecycle_ofD by (auto simp: lifecycle_ok_def row_ok_def)

text \<open>
  A projection repeated at the same moment settles: the first run consumes the events and
  moves the position by the follower's facts at most one edge, the second by at most one more, and every further run
  leaves the tables exactly as they are.
\<close>

theorem projection_settles_in_two:
  assumes ok: "lifecycle_ok p b" and k: "sequences_unique k"
  shows "project_follower_ticket k now p f m t oe (project_follower_ticket k now p f m t oe (project_follower_ticket k now p f m t oe b)) =
    project_follower_ticket k now p f m t oe (project_follower_ticket k now p f m t oe b)" (is "?pass (?pass (?pass b)) = _")
proof -
  define pass where "pass = ?pass"
  have ok1: "lifecycle_ok p (pass b)" and ok2: "lifecycle_ok p (pass (pass b))"
    using project_ticket_ok [OF _ k] ok unfolding pass_def by blast+
  have "pass (pass (pass b)) = pass (pass b)" using ok k
  proof (cases rule: project_ticket_row [where f = f and m = m and t = t and now = now and oe = oe])
    case 1
    then show ?thesis by (simp add: pass_def)
  next
    case (2 r c)
    let ?L = "link_ctx k f m t now p"
    show ?thesis
    proof (rule project_ticket_row [OF ok1 k, where f = f and m = m and t = t and now = now and oe = oe])
      fix r' c'
      assume r': "lifecycle_of (project_follower_ticket k now p f m t oe (pass b)) f m t = Some r'"
        "ctx_from_row r' = ?L c'" "later_events k m t (lf_applied r') = []"
        "lf_linked_at r' \<noteq> None \<or> lf_state r' \<noteq> Linked" "lf_closed_at r' \<noteq> None \<or> lf_state r' \<noteq> LcClosed"
        "lf_open_event r' \<noteq> None \<or> oe = None" "lf_last r' = now" "lf_deadline r' = map_option (\<lambda>x. x + ly_entry p) (lf_reference r')"
      have q: "lifecycle_of (pass b) f m t = Some r" using 2(1) by (simp add: pass_def)
      obtain d trs where pl: "project_link k f m t now p (ctx_from_row r, []) = (d, trs)" by fastforce
      then have d: "d = ?L (ctx_from_row r)" by (simp add: link_ctx_def)
      have s: "pass (pass b) = save_projection (projected_row r d trs now p oe) trs (pass b)"
        using project_quiet [OF q 2(4)] by (simp add: pass_def pl)
      have key: "lifecycle_key r = (f, m, t)" using lifecycle_ofD q by blast
      have "lifecycle_of (pass (pass b)) f m t = Some (projected_row r d trs now p oe)"
        unfolding s using q key by (intro lifecycle_of_saved(1) [OF ok1, where r = r]) simp_all
      then have e: "r' = projected_row r d trs now p oe" using r'(1) by (simp add: pass_def)
      have "ctx_from_row r' = ?L (?L c)" unfolding e by (simp add: d 2(3))
      then have "?L (ctx_from_row r') = ctx_from_row r'" using link_ctx_thrice [OF 2(2)] by simp
      moreover have "lifecycle_of (pass (pass b)) f m t = Some r'" using r'(1) by (simp add: pass_def)
      ultimately show ?thesis
        using project_again [OF ok2 k _ _ r'(3) _ r'(4-8)] project_keeps_row [OF ok2] unfolding pass_def by blast
    qed (use 2(1) in \<open>simp add: pass_def\<close>)
  qed
  then show ?thesis by (simp only: pass_def)
qed

section \<open>Properties of the lifecycle\<close>

text \<open>
  Whatever passes run, over whatever ledgers and at whatever times, the trail of a row is its
  history: read from the first transition it walks the graph of the lifecycle from nothing to the row's state, so only a
  linked position is ever modified or closed and nothing leaves a terminal state; and the events it names rise strictly.
\<close>

theorem lifecycle_trail_is_its_history:
  assumes "list_all (\<lambda>a. sequences_unique (fst (snd a))) passes"
    and "r \<in> set (lb_rows (lifecycle_run p passes empty_lifecycles))"
  shows "history None (map (\<lambda>x. (tr_from x, tr_to x)) (trail_of (lifecycle_run p passes empty_lifecycles) (lf_id r)))
      (Some (lf_state r)) \<and>
    climbs 0 (filter (\<lambda>n. 0 < n) (map tr_sequence (trail_of (lifecycle_run p passes empty_lifecycles) (lf_id r)))) (lf_applied r) \<and>
    lf_terminal r = terminal_state (lf_state r)"
  using lifecycles.run_inv [OF assms(1) empty_lifecycles_ok] assms(2)
  by (simp add: lifecycle_run_def lifecycle_ok_def row_ok_def)

text \<open>
  No late entry: a position is linked within the admissibility window of its open and at no
  other time, every linked position has a ticket and was attempted, and later passes change neither its ticket nor the
  moment it was linked.
\<close>

theorem entries_are_never_late:
  assumes "list_all (\<lambda>a. sequences_unique (fst (snd a))) (passes @ later)"
    and "r \<in> set (lb_rows (lifecycle_run p passes empty_lifecycles))" "linked_state (lf_state r)"
  shows "(\<exists>w x. lf_linked_at r = Some w \<and> lf_reference r = Some x \<and> w - x \<le> ly_entry p) \<and> lf_ticket r \<noteq> None \<and> lf_attempted r \<and>
    (\<exists>s \<in> set (lb_rows (lifecycle_run p (passes @ later) empty_lifecycles)).
       lifecycle_key s = lifecycle_key r \<and> lf_ticket s = lf_ticket r \<and> lf_linked_at s = lf_linked_at r)"
proof -
  let ?b = "lifecycle_run p passes empty_lifecycles"
  have ok: "lifecycle_ok p ?b" using lifecycles.run_inv [OF _ empty_lifecycles_ok] assms(1) by (simp add: lifecycle_run_def)
  then have r: "row_ok p (trail_of ?b (lf_id r)) r" using assms(2) by (simp add: lifecycle_ok_def)
  have "grown p ?b (fold (lifecycle_act p) later ?b)" using lifecycles.run_le ok assms(1) by simp
  then obtain s where s: "s \<in> set (lb_rows (fold (lifecycle_act p) later ?b))" "row_later r s"
    using ok assms(2) by (auto simp: grown_def lifecycle_later_def)
  have at: "lf_linked_at r \<noteq> None" "lf_ticket r \<noteq> None" "lf_attempted r"
    using r assms(3) by (simp_all add: row_ok_def ctx_ok_def ctx_from_row_def)
  then have "\<exists>w x. lf_linked_at r = Some w \<and> lf_reference r = Some x \<and> w - x \<le> ly_entry p"
    using r by (auto simp: row_ok_def)
  moreover have "lifecycle_key s = lifecycle_key r \<and> lf_ticket s = lf_ticket r \<and> lf_linked_at s = lf_linked_at r"
    using s(2) at by (simp add: row_later_def)
  moreover have "fold (lifecycle_act p) later ?b = lifecycle_run p (passes @ later) empty_lifecycles"
    by (simp add: lifecycle_run_def)
  ultimately show ?thesis using at s(1) by auto
qed

text \<open>
  A terminal position stays as it is, and the trail only grows.
\<close>

theorem terminal_lifecycles_absorb:
  assumes "list_all (\<lambda>a. sequences_unique (fst (snd a))) (passes @ later)"
    and "r \<in> set (lb_rows (lifecycle_run p passes empty_lifecycles))" "terminal_state (lf_state r)"
  shows "(\<exists>s \<in> set (lb_rows (lifecycle_run p (passes @ later) empty_lifecycles)).
       lifecycle_key s = lifecycle_key r \<and> lf_state s = lf_state r) \<and>
    (\<exists>ts. lb_transitions (lifecycle_run p (passes @ later) empty_lifecycles) =
       lb_transitions (lifecycle_run p passes empty_lifecycles) @ ts)"
proof -
  let ?b = "lifecycle_run p passes empty_lifecycles"
  have ok: "lifecycle_ok p ?b" using lifecycles.run_inv [OF _ empty_lifecycles_ok] assms(1) by (simp add: lifecycle_run_def)
  then have r: "lf_terminal r" using assms(2,3) by (auto simp: lifecycle_ok_def row_ok_def)
  have "grown p ?b (fold (lifecycle_act p) later ?b)" using lifecycles.run_le ok assms(1) by simp
  then have "lifecycle_later ?b (lifecycle_run p (passes @ later) empty_lifecycles)"
    using ok by (simp add: grown_def lifecycle_run_def)
  then show ?thesis using assms(2) r by (fastforce simp: lifecycle_later_def row_later_def)
qed


section \<open>Where the projection falls short\<close>

lemma project_event_terminal:
  assumes "terminal_state (tc_state c)"
  shows "fst (project_event k now p e (Some c, trs)) = Some (c\<lparr>tc_applied := max (tc_applied c) (me_sequence e)\<rparr>)"
    and "category_for (me_type e) \<in> {CatOpen, CatModify, CatFullClose, CatPartialClose} \<Longrightarrow>
      snd (project_event k now p e (Some c, trs)) =
        trs @ [(Some (tc_state c), tc_state c, absorbed_note (category_for (me_type e)), me_sequence e)]"
  using assms by (auto simp: project_event_def Let_def decide_master_event_def classify_def max_def)

lemma project_events_terminal:
  "terminal_state (tc_state c) \<Longrightarrow> \<exists>c'. fst (fold (project_event k now p) es (Some c, trs)) = Some c' \<and> tc_state c' = tc_state c"
proof (induction es arbitrary: c trs)
  case (Cons e es)
  have "fst (project_event k now p e (Some c, trs)) = Some (c\<lparr>tc_applied := max (tc_applied c) (me_sequence e)\<rparr>)"
    using project_event_terminal(1) [OF Cons.prems] .
  then show ?case
    using Cons.IH [of "c\<lparr>tc_applied := max (tc_applied c) (me_sequence e)\<rparr>" "snd (project_event k now p e (Some c, trs))"] Cons.prems
    by (cases "project_event k now p e (Some c, trs)") simp
qed simp

text \<open>
  The reason of a failure is lost: once a failed position absorbs any later open, modification
  or close of the master, the row's failure reason is the note about the ignored event, not the failure's.
\<close>

theorem failure_reason_is_lost:
  assumes ok: "lifecycle_ok p b" and r: "lifecycle_of b f m t = Some r"
    and failed: "lf_state r = EntryFailedFinal \<or> lf_state r = ContainedFailure"
    and es: "later_events k m t (lf_applied r) = es @ [e]"
    and e: "category_for (me_type e) \<in> {CatOpen, CatModify, CatFullClose, CatPartialClose}"
  shows "map_option lf_failure (lifecycle_of (project_follower_ticket k now p f m t oe b) f m t) =
    Some (absorbed_note (category_for (me_type e)))"
proof -
  let ?c = "ctx_from_row r"
  have gone: "terminal_state (tc_state ?c)" using failed by (auto simp: ctx_from_row_def terminal_state_def)
  obtain c trs where mid: "fold (project_event k now p) es (Some ?c, []) = (Some c, trs)" "tc_state c = tc_state ?c"
    using project_events_terminal [OF gone] by (metis prod.collapse)
  have fin: "terminal_state (tc_state c)" using gone mid(2) by simp
  define d where "d = c\<lparr>tc_applied := max (tc_applied c) (me_sequence e)\<rparr>"
  define note_row where "note_row = (Some (tc_state c), tc_state c, absorbed_note (category_for (me_type e)), me_sequence e)"
  have "project_event k now p e (Some c, trs) = (Some d, trs @ [note_row])"
    using project_event_terminal(1) [OF fin, of k now p e trs] project_event_terminal(2) [OF fin e, of k now p trs]
    by (simp add: prod_eq_iff d_def note_row_def)
  then have out: "fold (project_event k now p) (later_events k m t (lf_applied r)) (Some ?c, []) = (Some d, trs @ [note_row])"
    by (simp add: es mid(1))
  have "project_link k f m t now p (d, trs @ [note_row]) = (d, trs @ [note_row])"
    using terminal_link [of d] fin by (simp add: project_link_def Let_def d_def)
  then have "project_follower_ticket k now p f m t oe b = save_projection (projected_row r d (trs @ [note_row]) now p oe) (trs @ [note_row]) b"
    using out by (simp add: project_follower_ticket_def Let_def r)
  moreover have "lifecycle_of (save_projection (projected_row r d (trs @ [note_row]) now p oe) (trs @ [note_row]) b) f m t =
      Some (projected_row r d (trs @ [note_row]) now p oe)"
    using lifecycle_ofD [OF r] by (intro lifecycle_of_saved(1) [OF ok, where r = r]) (simp_all add: r)
  moreover have "tc_state d = lf_state r" using mid(2) by (simp add: d_def ctx_from_row_def)
  moreover have "take 64 (absorbed_note c) = absorbed_note c" for c
    by (cases c) (simp_all add: absorbed_note_def category_text_def)
  ultimately show ?thesis using failed by (simp add: projected_row_def note_row_def)
qed

lemma take_below:
  fixes g :: "'a \<Rightarrow> 'b :: linorder"
  shows "sorted (map g xs) \<Longrightarrow> n \<le> length (filter (\<lambda>x. g x < y) xs) \<Longrightarrow> x \<in> set (take n xs) \<Longrightarrow> g x < y"
proof (induction xs arbitrary: n)
  case (Cons z xs)
  then obtain n' where n: "n = Suc n'" by (cases n) auto
  have "g z < y"
  proof (rule ccontr)
    assume z: "\<not> g z < y"
    then have "filter (\<lambda>x. g x < y) (z # xs) = []" using Cons.prems(1) by (auto simp: filter_empty_conv)
    then show False using Cons.prems(2) n by simp
  qed
  then show ?case using Cons n by auto
qed simp

lemma first_per_ticket_subset: "set (first_per_ticket seen es) \<subseteq> set es"
  by (induction seen es rule: first_per_ticket.induct) auto

lemma project_other:
  assumes ok: "lifecycle_ok p b" and k: "sequences_unique k" and other: "(f', m', t') \<noteq> (f, m, t)"
  shows "lifecycle_of (project_follower_ticket k now p f' m' t' oe b) f m t = lifecycle_of b f m t"
proof -
  define row where "row = lifecycle_of b f' m' t'"
  show ?thesis
  proof (cases "fst (fold (project_event k now p) (later_events k m' t' (case row of None \<Rightarrow> 0 | Some r \<Rightarrow> lf_applied r))
      (map_option ctx_from_row row, []))")
    case None
    then show ?thesis by (simp add: project_follower_ticket_def Let_def case_prod_beta row_def)
  next
    case (Some c)
    then obtain s trs where s: "project_follower_ticket k now p f' m' t' oe b = save_projection s trs b"
      "lf_id s = lb_next b \<and> row = None \<or> (\<exists>r. row = Some r \<and> lf_id s = lf_id r)" "lifecycle_key s = (f', m', t')"
      using lifecycle_ofD [of b f' m' t']
      by (cases row) (auto simp: project_follower_ticket_def Let_def case_prod_beta row_def)
    show ?thesis unfolding s(1)
      using lifecycle_of_saved(2) [OF ok, where f = f' and m = m' and t = t' and s = s and f' = f and m' = m and t' = t
          and r' = "blank_row 0 f m t"] s(2,3) other
      by (auto simp: row_def)
  qed
qed

text \<open>
  Newer tickets are never projected: when the opens of lower tickets fill the limit, the pass
  leaves the lifecycle of this ticket as it was, on this and every later run.
\<close>

theorem newer_tickets_are_never_projected:
  assumes ok: "lifecycle_ok p b" and k: "sequences_unique k"
    and full: "limit \<le> length (filter (\<lambda>e. me_ticket e < t) (opens_in_order k m))"
  shows "lifecycle_of (project_master k now p limit m b) f m t = lifecycle_of b f m t"
proof -
  define opens where "opens = first_per_ticket [] (take limit (opens_in_order k m))"
  have "sorted (map me_ticket (opens_in_order k m))" by (simp add: opens_in_order_def)
  then have low: "me_ticket e < t" if "e \<in> set opens" for e
    using take_below [OF _ full] that first_per_ticket_subset unfolding opens_def by blast
  have one: "lifecycle_ok p (fold (\<lambda>e. project_follower_ticket k now p g m (me_ticket e) (Some e)) es b) \<and>
      lifecycle_of (fold (\<lambda>e. project_follower_ticket k now p g m (me_ticket e) (Some e)) es b) f m t = lifecycle_of b f m t"
    if "lifecycle_ok p b" "set es \<subseteq> set opens" for es b g
    using that
  proof (induction es arbitrary: b)
    case (Cons e es)
    then have "me_ticket e < t" using low by auto
    then show ?case using Cons project_ticket_ok [OF Cons.prems(1) k] project_other [OF Cons.prems(1) k] by auto
  qed simp
  have all: "lifecycle_ok p (fold (\<lambda>g. fold (\<lambda>e. project_follower_ticket k now p (fo_id g) m (me_ticket e) (Some e)) opens) gs b) \<and>
      lifecycle_of (fold (\<lambda>g. fold (\<lambda>e. project_follower_ticket k now p (fo_id g) m (me_ticket e) (Some e)) opens) gs b) f m t =
      lifecycle_of b f m t" if "lifecycle_ok p b" for gs b
    using that
  proof (induction gs arbitrary: b)
    case (Cons g gs)
    then show ?case using one [OF Cons.prems subset_refl, of "fo_id g"] by auto
  qed simp
  show ?thesis using all [OF ok] unfolding project_master_def Let_def opens_def by blast
qed

section \<open>Properties of the shadow dispatch\<close>

definition dispatch_ident :: "dispatch_row \<Rightarrow> nat \<times> string" where
  "dispatch_ident d = (dp_lifecycle d, dp_key d)"

definition extends :: "'a list \<Rightarrow> 'a list \<Rightarrow> bool" where
  "extends xs ys \<longleftrightarrow> (\<exists>zs. ys = xs @ zs)"

lemma extends_refl: "extends xs xs" and extends_trans: "extends xs ys \<Longrightarrow> extends ys zs \<Longrightarrow> extends xs zs"
  and extends_snoc: "extends xs (xs @ ys)"
  by (auto simp: extends_def)

lemma dispatched_iff: "dispatched ds i key \<longleftrightarrow> (i, key) \<in> set (map dispatch_ident ds)"
  by (auto simp: dispatched_def dispatch_ident_def list_ex_iff)

definition once_and_kept :: "dispatch_row list \<Rightarrow> dispatch_row list \<Rightarrow> bool" where
  "once_and_kept ds es \<longleftrightarrow> extends ds es \<and> (distinct (map dispatch_ident ds) \<longrightarrow> distinct (map dispatch_ident es))"

lemma once_and_kept_refl: "once_and_kept ds ds"
  by (simp add: once_and_kept_def extends_refl)

lemma once_and_kept_trans: "once_and_kept ds es \<Longrightarrow> once_and_kept es fs \<Longrightarrow> once_and_kept ds fs"
  by (auto simp: once_and_kept_def intro: extends_trans)

lemma dispatch_ops_kept: "once_and_kept ds (dispatch_ops xe s lc ops ds)"
proof (induction xe s lc ops ds rule: dispatch_ops.induct)
  case (2 xe s lc p requested prefix ops ds)
  show ?case
  proof (cases "newest_replication (ticket_replications (xs_copier s) (lf_follower lc) (lf_master lc) (lf_master_ticket lc) requested)")
    case None
    then show ?thesis using 2(1) by simp
  next
    case r: (Some r)
    show ?thesis
    proof (cases "admit_op xe s p r")
      case None
      then show ?thesis by (simp add: r once_and_kept_refl)
    next
      case (Some v)
      obtain ok why where v: "v = (ok, why)" by (cases v)
      define es where "es = (if dispatched ds (lf_id lc) (dispatch_key prefix r) then ds
        else ds @ [\<lparr>dp_lifecycle = lf_id lc, dp_replication = rp_id r, dp_op = p, dp_key = dispatch_key prefix r,
                    dp_ok = ok, dp_reason = take 64 why\<rparr>])"
      have "once_and_kept ds es"
        by (auto simp: es_def once_and_kept_def extends_snoc extends_refl dispatched_iff dispatch_ident_def)
      moreover have "once_and_kept es (dispatch_ops xe s lc ops es)" unfolding es_def by (rule 2(2) [OF r Some v [symmetric]])
      ultimately have "once_and_kept ds (dispatch_ops xe s lc ops es)" by (rule once_and_kept_trans)
      then show ?thesis by (simp only: dispatch_ops.simps r Some v option.case prod.case es_def)
    qed
  qed
qed (simp add: once_and_kept_refl)

type_synonym dispatch_pass = "bool \<times> exec_env \<times> exec_state \<times> nat \<times> lifecycle_db"

definition dispatch_act :: "dispatch_pass \<Rightarrow> dispatch_row list \<Rightarrow> dispatch_row list" where
  "dispatch_act a ds = (case a of (on, xe, s, limit, b) \<Rightarrow> run_lifecycle_dispatch_pass on xe s limit b ds)"

lemma dispatch_act_kept: "once_and_kept ds (dispatch_act a ds)"
proof -
  have "once_and_kept ds (fold (dispatch_one xe s) rs ds)" for xe s rs ds
  proof (induction rs arbitrary: ds)
    case (Cons r rs)
    have "once_and_kept ds (dispatch_one xe s r ds)" unfolding dispatch_one_def by (rule dispatch_ops_kept)
    then show ?case using Cons.IH [of "dispatch_one xe s r ds"] unfolding fold_simps(2) by (rule once_and_kept_trans)
  qed (simp add: once_and_kept_refl)
  then show ?thesis
    by (simp add: dispatch_act_def run_lifecycle_dispatch_pass_def once_and_kept_refl split: prod.split)
qed

interpretation dispatches: monotone_runs dispatch_act "\<lambda>_. True" "\<lambda>_. True" once_and_kept
  by unfold_locales (simp_all add: dispatch_act_kept once_and_kept_refl once_and_kept_trans)

text \<open>
  Over any passes, with whatever flags, states and tables, a lifecycle has at most one
  recorded verdict per key, and a verdict once recorded is never revised: later passes only add rows, even when the
  admission would by then answer differently.
\<close>

theorem dispatch_verdicts_are_final:
  "distinct (map dispatch_ident (fold dispatch_act passes [])) \<and>
   extends (fold dispatch_act passes []) (fold dispatch_act (passes @ later) [])"
  using dispatches.run_le [of passes "[]"] dispatches.run_le [of later "fold dispatch_act passes []"]
  by (simp add: once_and_kept_def list_all_iff)

section \<open>Witnesses\<close>

definition copied_open :: replication where
  "copied_open = (blank_replication 1 1 1 ''OPEN'')\<lparr>rp_status := ExecutionRequested, rp_recon := ''MATCHED'', rp_ticket := Some 555\<rparr>"

definition copied_ledger :: "event_type list \<Rightarrow> copier_db" where
  "copied_ledger ts = demo_copier_db\<lparr>kd_events := map (\<lambda>(i, ty). demo_event i ty) (zip [1..<Suc (length ts)] ts),
     kd_replications := [copied_open]\<rparr>"

definition copied_passes :: "lifecycle_pass list" where
  "copied_passes = [(True, copied_ledger [EvOpen], 1000, 500), (True, copied_ledger [EvOpen], 2000, 500),
     (True, copied_ledger [EvOpen, EvTpChange], 3000, 500)]"

definition closing_passes :: "lifecycle_pass list" where
  "closing_passes = [(True, copied_ledger [EvOpen, EvTpChange, EvFullClose], 4000, 500)]"

definition outline :: "lifecycle_db \<Rightarrow> (nat \<times> lc_state \<times> nat \<times> int option \<times> int option) list" where
  "outline b = map (\<lambda>r. (lf_id r, lf_state r, lf_applied r, lf_ticket r, lf_linked_at r)) (lb_rows b)"

lemma copied_run: "outline (lifecycle_run default_policy copied_passes empty_lifecycles) = [(1, ModifyPending, 2, Some 555, Some 2000)]"
  by code_simp

lemma closing_run:
  "outline (lifecycle_run default_policy (copied_passes @ closing_passes) empty_lifecycles) = [(1, ClosePending, 3, Some 555, Some 2000)]"
  by code_simp

lemma copied_sequences: "list_all (\<lambda>a. sequences_unique (fst (snd a))) (copied_passes @ closing_passes)"
  by code_simp

abbreviation copied_tables :: lifecycle_db where
  "copied_tables \<equiv> lifecycle_run default_policy copied_passes empty_lifecycles"

lemma copied_row:
  obtains r where "r \<in> set (lb_rows copied_tables)" "lf_id r = 1" "lf_state r = ModifyPending" "lf_ticket r = Some 555"
    "lf_linked_at r = Some 2000"
  using copied_run by (cases "lb_rows copied_tables") (auto simp: outline_def)

theorem lifecycle_trail_is_its_history_witness:
  "history None (map (\<lambda>x. (tr_from x, tr_to x)) (trail_of copied_tables 1)) (Some ModifyPending) \<and>
   map tr_trigger (trail_of copied_tables 1) = [''observed_open'', ''entry_attempted'', ''linked'', ''modify_requested'']"
proof -
  obtain r where r: "r \<in> set (lb_rows copied_tables)" "lf_id r = 1" "lf_state r = ModifyPending" by (rule copied_row)
  have "list_all (\<lambda>a. sequences_unique (fst (snd a))) copied_passes" using copied_sequences by simp
  from lifecycle_trail_is_its_history [OF this r(1)]
  have "history None (map (\<lambda>x. (tr_from x, tr_to x)) (trail_of copied_tables 1)) (Some ModifyPending)"
    unfolding r(2,3) by blast
  moreover have "map tr_trigger (trail_of copied_tables 1) = [''observed_open'', ''entry_attempted'', ''linked'', ''modify_requested'']"
    by code_simp
  ultimately show ?thesis by simp
qed

theorem entries_are_never_late_witness:
  "ly_entry default_policy = 120000000 \<and> 2000 - 900 \<le> ly_entry default_policy \<and>
   list_ex (\<lambda>s. lf_ticket s = Some 555 \<and> lf_linked_at s = Some 2000)
     (lb_rows (lifecycle_run default_policy (copied_passes @ closing_passes) empty_lifecycles))"
proof -
  obtain r where r: "r \<in> set (lb_rows copied_tables)" "linked_state (lf_state r)" "lf_ticket r = Some 555" "lf_linked_at r = Some 2000"
    by (rule copied_row) (auto simp: linked_state_def)
  show ?thesis using entries_are_never_late [OF copied_sequences r(1,2)] r(3,4)
    by (auto simp: list_ex_iff default_policy_def)
qed

definition late_ledger :: copier_db where
  "late_ledger = copied_ledger [EvOpen, EvFullClose]"

text \<open>The open is seen more than two minutes after it happened; later an event arrives for it.\<close>

definition late_tables :: lifecycle_db where
  "late_tables = lifecycle_run default_policy [(True, copied_ledger [EvOpen], 200000000, 500)] empty_lifecycles"

lemma late_outline: "outline late_tables = [(1, EntryFailedFinal, 1, None, None)]"
  by code_simp

lemma late_row:
  obtains r where "r \<in> set (lb_rows late_tables)" "lf_id r = 1" "lf_state r = EntryFailedFinal"
  using late_outline by (cases "lb_rows late_tables") (auto simp: outline_def)

theorem terminal_lifecycles_absorb_witness:
  "list_ex (\<lambda>s. lf_state s = EntryFailedFinal)
     (lb_rows (lifecycle_run default_policy ([(True, copied_ledger [EvOpen], 200000000, 500)] @ [(True, late_ledger, 300000000, 500)])
        empty_lifecycles))"
proof -
  obtain r where r: "r \<in> set (lb_rows late_tables)" "lf_state r = EntryFailedFinal" by (rule late_row)
  have "list_all (\<lambda>a. sequences_unique (fst (snd a)))
      ([(True, copied_ledger [EvOpen], 200000000, 500)] @ [(True, late_ledger, 300000000, 500)] :: lifecycle_pass list)" by code_simp
  from terminal_lifecycles_absorb [OF this, of r default_policy] r
  show ?thesis by (auto simp: list_ex_iff late_tables_def terminal_state_def)
qed


theorem failure_reason_is_lost_witness:
  "map_option lf_failure (lifecycle_of late_tables 1 1 70) = Some ''entry_deadline_exceeded'' \<and>
   map_option lf_failure (lifecycle_of (project_follower_ticket late_ledger 300000000 default_policy 1 1 70 None late_tables) 1 1 70) =
     Some ''post_terminal_full_close_ignored''"
proof -
  have ok: "lifecycle_ok default_policy late_tables"
    unfolding late_tables_def lifecycle_run_def by (rule lifecycles.run_inv [OF _ empty_lifecycles_ok]) code_simp
  obtain r where r: "lifecycle_of late_tables 1 1 70 = Some r" "lf_state r = EntryFailedFinal" "lf_applied r = 1"
  proof -
    have "map_option (\<lambda>r. (lf_state r, lf_applied r)) (lifecycle_of late_tables 1 1 70) = Some (EntryFailedFinal, 1)" by code_simp
    then show thesis using that by auto
  qed
  have "later_events late_ledger 1 70 (lf_applied r) = [] @ [demo_event 2 EvFullClose]"
    unfolding r(3) by code_simp
  from failure_reason_is_lost [OF ok r(1) _ this] r(2)
  have "map_option lf_failure (lifecycle_of (project_follower_ticket late_ledger 300000000 default_policy 1 1 70 None late_tables) 1 1 70) =
      Some (absorbed_note (category_for (me_type (demo_event 2 EvFullClose))))"
    by (simp add: demo_event_def category_for_def)
  moreover have "absorbed_note (category_for (me_type (demo_event 2 EvFullClose))) = ''post_terminal_full_close_ignored''" by code_simp
  moreover have "map_option lf_failure (lifecycle_of late_tables 1 1 70) = Some ''entry_deadline_exceeded''" by code_simp
  ultimately show ?thesis by simp
qed

text \<open>A ledger of two tickets and a limit of one.\<close>

definition two_tickets :: copier_db where
  "two_tickets = demo_copier_db\<lparr>kd_events := [demo_event 1 EvOpen, (demo_event 2 EvOpen)\<lparr>me_ticket := 71\<rparr>]\<rparr>"

theorem newer_tickets_are_never_projected_witness:
  "lifecycle_of (project_master two_tickets 1000 default_policy 1 1 empty_lifecycles) 1 1 71 = None \<and>
   lifecycle_of (project_master two_tickets 1000 default_policy 2 1 empty_lifecycles) 1 1 71 \<noteq> None"
proof -
  have "sequences_unique two_tickets" "1 \<le> length (filter (\<lambda>e. me_ticket e < 71) (opens_in_order two_tickets 1))" by code_simp+
  then have "lifecycle_of (project_master two_tickets 1000 default_policy 1 1 empty_lifecycles) 1 1 71 =
      lifecycle_of empty_lifecycles 1 1 71"
    using newer_tickets_are_never_projected [OF empty_lifecycles_ok] by blast
  moreover have "lifecycle_of empty_lifecycles 1 1 71 = None" by (simp add: lifecycle_of_def empty_lifecycles_def)
  moreover have "map_option lf_state (lifecycle_of (project_master two_tickets 1000 default_policy 2 1 empty_lifecycles) 1 1 71) =
      Some ObservedOpen" by code_simp
  ultimately show ?thesis by auto
qed

theorem projection_settles_in_two_witness:
  "let once = project_follower_ticket (copied_ledger [EvOpen]) 1000 default_policy 1 1 70 None empty_lifecycles;
       twice = project_follower_ticket (copied_ledger [EvOpen]) 1000 default_policy 1 1 70 None once in
   map lf_state (lb_rows once) = [EntryPending] \<and> map lf_state (lb_rows twice) = [Linked] \<and>
   project_follower_ticket (copied_ledger [EvOpen]) 1000 default_policy 1 1 70 None twice = twice"
proof -
  have "sequences_unique (copied_ledger [EvOpen])" by code_simp
  from projection_settles_in_two [OF empty_lifecycles_ok this]
  have "project_follower_ticket (copied_ledger [EvOpen]) 1000 default_policy 1 1 70 None
      (project_follower_ticket (copied_ledger [EvOpen]) 1000 default_policy 1 1 70 None
        (project_follower_ticket (copied_ledger [EvOpen]) 1000 default_policy 1 1 70 None empty_lifecycles)) =
      project_follower_ticket (copied_ledger [EvOpen]) 1000 default_policy 1 1 70 None
        (project_follower_ticket (copied_ledger [EvOpen]) 1000 default_policy 1 1 70 None empty_lifecycles)" .
  moreover have "map lf_state (lb_rows (project_follower_ticket (copied_ledger [EvOpen]) 1000 default_policy 1 1 70 None empty_lifecycles)) = [EntryPending]"
    "map lf_state (lb_rows (project_follower_ticket (copied_ledger [EvOpen]) 1000 default_policy 1 1 70 None
        (project_follower_ticket (copied_ledger [EvOpen]) 1000 default_policy 1 1 70 None empty_lifecycles))) = [Linked]"
    by code_simp+
  ultimately show ?thesis by (simp add: Let_def)
qed

end
