(* ===== verification/Spec2Isabelle.thy ===== *)
theory Spec2Isabelle
  imports AgentPool Pipeline CopierLifecycle
begin

text \<open>
  A verification development for GuvFX, a trading platform that runs MetaTrader 5 terminals for its
  customers. Signals of providers become plans, plans become orders (rows of the job table), workers
  on Windows nodes claim and execute the orders; a trade copier repeats the positions of a master
  account on the accounts of its followers; a management agent on each Windows host assigns the slots
  the terminals live in. The models follow the Python code of \<^verbatim>\<open>src/backend\<close> and
  \<^verbatim>\<open>src/deploy/beta-agent\<close>.

  \<^bold>\<open>Theories and the code they model.\<close> Each theory opens with a note of its own; paths are below
  \<^verbatim>\<open>src/backend\<close> unless they say otherwise.

  \<^item> \<^verbatim>\<open>Prelude\<close>: outcomes of fallible operations, tables as lists of rows with a key, Python's decimal
    numerals, and the locales of runs that keep an invariant or only move up in an order, which the copier
    interprets on its own steps. \<^verbatim>\<open>PyJson\<close>: JSON values, Python's conversions of them and the canonical serialisation
    that the agent hashes and signs, with its injectivity.
  \<^item> \<^verbatim>\<open>SlotTables\<close>, \<^verbatim>\<open>SlotStore\<close>, \<^verbatim>\<open>SlotAudit\<close>, \<^verbatim>\<open>SlotEvidence\<close>, \<^verbatim>\<open>AgentStores\<close>, \<^verbatim>\<open>AgentLocks\<close>:
    \<^verbatim>\<open>src/deploy/beta-agent/stores.py\<close>, that is the slot pool and its generation ledger, the audit
    chain, the stage evidence, the replay and idempotency tables (a locale of the store contract,
    interpreted on the SQLite model) and the lock manager as a step relation over threads.
  \<^item> \<^verbatim>\<open>AgentProtocol\<close> (\<^verbatim>\<open>lib/mgmt_protocol.py\<close>), \<^verbatim>\<open>AgentCore\<close> (\<^verbatim>\<open>lib/mgmt_agent_core.py\<close>) and
    \<^verbatim>\<open>AgentPool\<close> (\<^verbatim>\<open>pool_op_impls.py\<close>), all of \<^verbatim>\<open>src/deploy/beta-agent\<close>: signed requests, the handler
    that verifies, locks, executes and remembers them, and the pool operations it runs.
  \<^item> \<^verbatim>\<open>BrokerHealth\<close>: \<^verbatim>\<open>reliability/broker_health.py\<close>, the health state machine with its alerts.
  \<^item> \<^verbatim>\<open>WorkspaceCore\<close>, \<^verbatim>\<open>WorkspaceStore\<close>: \<^verbatim>\<open>hosted_workspace\<close>, the lifecycle graph, the manager, the
    matcher and the producer, and the single writer of a workspace row.
  \<^item> \<^verbatim>\<open>Readiness\<close>: \<^verbatim>\<open>trading/account_policy.py\<close>, \<^verbatim>\<open>execution/live_authz.py\<close>,
    \<^verbatim>\<open>hosted_workspace/tenant_isolation.py\<close>, \<^verbatim>\<open>execution/readiness.py\<close>.
    \<^verbatim>\<open>HostedExecution\<close>: arming, routing, pinning and idempotency of hosted jobs
    (\<^verbatim>\<open>execution/hosted_*.py\<close>). \<^verbatim>\<open>RuntimePause\<close>: \<^verbatim>\<open>execution/broker_gate.py\<close> and
    \<^verbatim>\<open>execution/runtime_pause.py\<close>, over a versioned health contract (a locale, interpreted on
    \<^verbatim>\<open>BrokerHealth\<close>).
  \<^item> \<^verbatim>\<open>SignalTables\<close>, \<^verbatim>\<open>SignalPlan\<close>, \<^verbatim>\<open>SignalPromotion\<close>, \<^verbatim>\<open>AutoRouter\<close>, \<^verbatim>\<open>Protection\<close>, \<^verbatim>\<open>JobQueue\<close>,
    \<^verbatim>\<open>PlanSettlement\<close>: the signal pipeline of \<^verbatim>\<open>execution\<close>: \<^verbatim>\<open>signal_planning.py\<close>,
    \<^verbatim>\<open>signal_promotion.py\<close> with \<^verbatim>\<open>risk_controls.py\<close>, \<^verbatim>\<open>auto_router.py\<close>, \<^verbatim>\<open>breakeven.py\<close>, the worker
    actions of \<^verbatim>\<open>views.py\<close> with \<^verbatim>\<open>auth.py\<close> and \<^verbatim>\<open>node_execution.py\<close>, and
    \<^verbatim>\<open>provider_commands_engine.py\<close> with \<^verbatim>\<open>close_monitor.py\<close> and \<^verbatim>\<open>stale_reconcile.py\<close>.
    \<^verbatim>\<open>Pipeline\<close> runs them as one machine on one database.
  \<^item> \<^verbatim>\<open>CopierDiff\<close>, \<^verbatim>\<open>CopierIntent\<close>, \<^verbatim>\<open>CopierObserver\<close>, \<^verbatim>\<open>CopierExecution\<close>, \<^verbatim>\<open>CopierLifecycle\<close>: \<^verbatim>\<open>trade_copier\<close>:
    \<^verbatim>\<open>diff.py\<close> and \<^verbatim>\<open>change_types.py\<close>; \<^verbatim>\<open>models.py\<close>, \<^verbatim>\<open>sizing.py\<close>, \<^verbatim>\<open>translation.py\<close>,
    \<^verbatim>\<open>symbols.py\<close> and \<^verbatim>\<open>replication.py\<close>; \<^verbatim>\<open>observer.py\<close> with \<^verbatim>\<open>execution/snapshot_transport.py\<close>;
    \<^verbatim>\<open>execution_producer.py\<close>, \<^verbatim>\<open>live_execution.py\<close> and \<^verbatim>\<open>reconcile.py\<close>; \<^verbatim>\<open>lifecycle.py\<close> and \<^verbatim>\<open>lifecycle_dispatch.py\<close>.

  \<^bold>\<open>How a model corresponds to its code.\<close> A Django model or SQLite table is a \<open>record\<close> of the columns the
  code reads or writes, a table the list of its rows in insertion order, the database a record of
  tables. A method is one definition that takes the state, the settings of the call (flags, clock,
  hosts, caps) and its arguments, and returns the state it leaves with its answer; every guard is a
  branch in the order the source has it, and every exception or refusal is a value. A transaction
  under a row lock is one step; where the source reads before it locks, the reading and the locked part
  are separate definitions and the interleaving is explicit (the lock manager, the pause processor,
  the copier producers). Sequences of passes are folds over lists of acts, or inductive step relations
  with rule induction over their reachable states.

  \<^bold>\<open>What the lemmas show.\<close> For the agent: the slot tables stay well formed and an occupancy (slot,
  generation) never names two runtimes; the audit chain always verifies and detects deletions inside
  it; an accepted request is never accepted again, and an answered operation never runs again; the lock
  manager excludes. For the workspaces: the history of transitions determines the state, a
  ready state is backed by the last observation, and a pause outranks a resume that rests on an older
  contract. For the pipeline: planning is idempotent and its split keeps the volume, promotion passes
  every gate and keeps the exposure within the caps, stops only tighten, a worker claims only what it
  is entitled to, no job runs twice, a completion happens once, commands reach only plans of their
  channel, and plans settle exactly when their legs are over. For the copier: the diff of two
  snapshots reconstructs the second from the first, the events recorded by the observer replay to the
  last recorded snapshot, one poll at a time runs, at most one intent exists per event and follower, the
  computed volume is the greatest admissible one, an order sent for a follower belongs to an intent
  and to the follower's own account, the allowance of a live pair counts exactly the orders it
  admitted, and a ticket is recorded only from exactly one position that carries the comment of its open. The lifecycle of
  a copied position follows its graph, its trail is its history, entries are never late and terminal states absorb.
  Several theorems state weaknesses of the code as it is (concurrent duplicates of one operation both
  run, events without followers fill the window of the sweep, orders of a copied job that
  fails are stranded, the stop guard knows the loss side only, the lifecycle projection
  closes nothing); the manifest lists them as findings.

  \<^bold>\<open>Numbers, time, fuel.\<close> Python's integers are \<open>int\<close> or \<open>nat\<close>. Decimals and finite floats are exact
  rationals, rounded where the code quantizes them or a column keeps a number of places; the Decimal
  context of 28 digits and the rounding of binary floats are not modelled. Times are integers in microseconds. No
  definition takes fuel: every loop of the modelled code is structural over a list or over the digits
  of a number, and the termination proof of each \<open>function\<close> is in its theory. \<^verbatim>\<open>Protection\<close> proves that
  repeated sweeps settle.

  \<^bold>\<open>Parameters.\<close> SHA-256, HMAC, \<open>repr\<close> of a float, the HTTP answers of the bridge, its \<open>order_check\<close>, the
  rows locked by other transactions (\<open>skip_locked\<close>) and the operations injected into the agent are
  arguments of the definitions that use them. Hypotheses on them (that a digest has no collision on the
  given texts, for instance) stand in the statement, and a witness instantiates them.

  \<^bold>\<open>Not modelled.\<close> Log lines, metrics, display texts and the provenance rows of hosted jobs; the stages of
  \<^verbatim>\<open>pool_op_impls.py\<close> that drive Win32; node allocation in \<^verbatim>\<open>hosted_workspace/provisioning.py\<close>; the
  outcome ledger of \<^verbatim>\<open>close_monitor.py\<close>; the REST views around the modelled services; the parsing of
  provider messages and commands; the event ingestion and projection, the partial-close consumer and the
  configuration of the copier;
  monitoring allocation and execution health; billing, onboarding, notifications, analytics,
  administration and the frontend; indicators, backtests and the signal engine, whose results depend on
  binary floats and market data; the MetaTrader bridge, whose code is calls of a package that is not
  under \<^verbatim>\<open>src\<close>; and migrations, tests and documents.
\<close>

end
